(* ===== verification/Prelude.thy ===== *)
theory Prelude
  imports Main "HOL-Library.AList"
begin

section \<open>Shared vocabulary of the development\<close>

text \<open>
  What every component theory uses:
  \<^item> the error codes of \<^verbatim>\<open>src/errors/OrmErrorCode.ts\<close>;
  \<^item> asynchronous code as a state-and-exception computation \<open>io\<close>: it takes the world and
    returns either an error (\<open>Inl\<close>) or a value (\<open>Inr\<close>) with the new world, so that
    \<^verbatim>\<open>throw\<close>, \<^verbatim>\<open>try/catch\<close> and \<^verbatim>\<open>try/finally\<close> of the source are combinators;
  \<^item> the JavaScript \<^verbatim>\<open>Map\<close> (keys in insertion order, a key that is set again keeps its place)
    as an association list with \<open>AList.update\<close> and \<open>AList.delete\<close>, and the JavaScript
    \<^verbatim>\<open>Set\<close> as a list without repetitions;
  \<^item> the collections of rewrite rules the component proofs use.
\<close>

named_theorems io_simps \<open>unfolding of the state-and-exception combinators\<close>
named_theorems js_simps \<open>laws of the JavaScript Map and Set models\<close>

subsection \<open>Error codes\<close>

datatype OrmErrorCode =
    CONNECTION_FAILED | NOT_CONNECTED | UNSUPPORTED_DATABASE
  | ENTITY_NOT_FOUND | ENTITY_METADATA_NOT_FOUND | PRIMARY_KEY_NOT_FOUND
  | INVALID_QUERY | DELETE_WITHOUT_CONDITIONS | QUERY_TIMEOUT
  | TRANSACTION_FAILED | TRANSACTION_ROLLBACK_FAILED
  | ADVISORY_LOCK_FAILED | OPTIMISTIC_LOCK_FAILED
  | VALIDATION_FAILED
  | INVALID_SAVEPOINT_NAME
  | UNIQUE_VIOLATION | FK_VIOLATION
  | UNSUPPORTED_OPERATION
  | ENTITY_GLOB_NO_MATCH | ENTITY_GLOB_LOAD_FAILED
  | PRISMA_PARSE_ERROR | MISSING_DEPENDENCY
  | PLUGIN_DEPENDENCY_MISSING | PLUGIN_CONFLICT | BUFFER_NOT_INSTALLED
  | MISSING_REQUIRED_COLUMNS | MISSING_PLACEHOLDER
  | SCHEMA_ERROR | SCHEMA_SYNC_FAILED | SCHEMA_SYNC_DESTRUCTIVE_CHANGE
  | VALIDATION_ERROR
  | QUERY_ERROR | BIGINT_PRECISION_LOSS
  | INVALID_CONFIG
  | MISSING_TENANT_CONTEXT | TENANT_MISMATCH | CROSS_TENANT_TRANSACTION
  | TENANT_RESOLVER_MISSING

subsection \<open>Computations with state and exceptions\<close>

type_synonym ('w, 'e, 'a) io = "'w \<Rightarrow> ('e + 'a) \<times> 'w"

definition io_return :: "'a \<Rightarrow> ('w, 'e, 'a) io" where
  "io_return a = (\<lambda>w. (Inr a, w))"

definition io_throw :: "'e \<Rightarrow> ('w, 'e, 'a) io" where
  "io_throw e = (\<lambda>w. (Inl e, w))"

definition io_bind :: "('w, 'e, 'a) io \<Rightarrow> ('a \<Rightarrow> ('w, 'e, 'b) io) \<Rightarrow> ('w, 'e, 'b) io" where
  "io_bind m f = (\<lambda>w. case m w of (Inl e, w') \<Rightarrow> (Inl e, w') | (Inr a, w') \<Rightarrow> f a w')"

definition io_then :: "('w, 'e, 'a) io \<Rightarrow> ('w, 'e, 'b) io \<Rightarrow> ('w, 'e, 'b) io" where
  "io_then m k = io_bind m (\<lambda>_. k)"

text \<open>\<^verbatim>\<open>try { m } catch (e) { h }\<close>\<close>
definition io_catch :: "('w, 'e, 'a) io \<Rightarrow> ('e \<Rightarrow> ('w, 'e, 'a) io) \<Rightarrow> ('w, 'e, 'a) io" where
  "io_catch m h = (\<lambda>w. case m w of (Inl e, w') \<Rightarrow> h e w' | (Inr a, w') \<Rightarrow> (Inr a, w'))"

text \<open>\<^verbatim>\<open>try { m } finally { f }\<close>: an error of \<open>f\<close> replaces the outcome of \<open>m\<close>.\<close>
definition io_finally :: "('w, 'e, 'a) io \<Rightarrow> ('w, 'e, 'b) io \<Rightarrow> ('w, 'e, 'a) io" where
  "io_finally m f = (\<lambda>w. case m w of (r, w') \<Rightarrow>
     (case f w' of (Inl e, w'') \<Rightarrow> (Inl e, w'') | (Inr _, w'') \<Rightarrow> (r, w'')))"

lemmas io_defs = io_return_def io_throw_def io_bind_def io_then_def io_catch_def io_finally_def

lemma io_return_apply [io_simps]: "io_return a w = (Inr a, w)"
  and io_throw_apply [io_simps]: "io_throw e w = (Inl e, w)"
  by (simp_all add: io_defs)

lemma io_bind_Inr [io_simps]: "m w = (Inr a, w') \<Longrightarrow> io_bind m f w = f a w'"
  and io_bind_Inl [io_simps]: "m w = (Inl e, w') \<Longrightarrow> io_bind m f w = (Inl e, w')"
  by (simp_all add: io_defs)

lemma io_then_Inr [io_simps]: "m w = (Inr a, w') \<Longrightarrow> io_then m k w = k w'"
  and io_then_Inl [io_simps]: "m w = (Inl e, w') \<Longrightarrow> io_then m k w = (Inl e, w')"
  by (simp_all add: io_defs)

lemma io_catch_Inr [io_simps]: "m w = (Inr a, w') \<Longrightarrow> io_catch m h w = (Inr a, w')"
  and io_catch_Inl [io_simps]: "m w = (Inl e, w') \<Longrightarrow> io_catch m h w = h e w'"
  by (simp_all add: io_defs)

lemma io_finally_Inr [io_simps]: "m w = (r, w') \<Longrightarrow> f w' = (Inr b, w'') \<Longrightarrow> io_finally m f w = (r, w'')"
  and io_finally_Inl [io_simps]: "m w = (r, w') \<Longrightarrow> f w' = (Inl e, w'') \<Longrightarrow> io_finally m f w = (Inl e, w'')"
  by (simp_all add: io_defs)

text \<open>Whatever the body does, the code of a \<^verbatim>\<open>finally\<close> runs, once, on the world the body left.\<close>
lemma io_finally_world: "snd (io_finally m f w) = snd (f (snd (m w)))"
  by (auto simp: io_finally_def split: prod.splits sum.splits)

subsection \<open>Numbers as text\<close>

text \<open>\<^verbatim>\<open>String(n)\<close> of an integer, as in template literals.\<close>
fun decimal_digits :: "nat \<Rightarrow> string" where
  "decimal_digits n = (if n < 10 then [char_of (48 + n)] else decimal_digits (n div 10) @ [char_of (48 + n mod 10)])"

declare decimal_digits.simps [simp del]

definition decimal_int :: "int \<Rightarrow> string" where
  "decimal_int k = (if k < 0 then ''-'' @ decimal_digits (nat (- k)) else decimal_digits (nat k))"

subsection \<open>JavaScript Map and Set\<close>

text \<open>
  A \<^verbatim>\<open>Map\<close> is an association list in insertion order: \<open>map_of m k\<close> is \<^verbatim>\<open>m.get(k)\<close>,
  \<open>AList.update k v m\<close> is \<^verbatim>\<open>m.set(k, v)\<close> (in place for a present key, at the end otherwise),
  \<open>AList.delete k m\<close> is \<^verbatim>\<open>m.delete(k)\<close>.
\<close>

abbreviation jm_get :: "('k \<times> 'v) list \<Rightarrow> 'k \<Rightarrow> 'v option" where
  "jm_get m k \<equiv> map_of m k"

abbreviation jm_set :: "'k \<Rightarrow> 'v \<Rightarrow> ('k \<times> 'v) list \<Rightarrow> ('k \<times> 'v) list" where
  "jm_set k v m \<equiv> AList.update k v m"

abbreviation jm_delete :: "'k \<Rightarrow> ('k \<times> 'v) list \<Rightarrow> ('k \<times> 'v) list" where
  "jm_delete k m \<equiv> AList.delete k m"

abbreviation jm_keys :: "('k \<times> 'v) list \<Rightarrow> 'k list" where
  "jm_keys m \<equiv> map fst m"

definition jm_wf :: "('k \<times> 'v) list \<Rightarrow> bool" where
  "jm_wf m = distinct (jm_keys m)"

lemma jm_wf_Nil [js_simps, simp]: "jm_wf []"
  by (simp add: jm_wf_def)

lemma jm_wf_set [js_simps]: "jm_wf m \<Longrightarrow> jm_wf (jm_set k v m)"
  by (simp add: jm_wf_def distinct_update)

lemma jm_wf_delete [js_simps]: "jm_wf m \<Longrightarrow> jm_wf (jm_delete k m)"
  by (simp add: jm_wf_def distinct_delete)

lemma jm_get_set [js_simps]: "jm_get (jm_set k v m) k' = (if k' = k then Some v else jm_get m k')"
  by (simp add: update_conv')

lemma jm_get_delete [js_simps]: "jm_get (jm_delete k m) k' = (if k' = k then None else jm_get m k')"
  by (simp add: delete_conv')

lemma jm_set_new: "k \<notin> set (jm_keys m) \<Longrightarrow> jm_set k v m = m @ [(k, v)]"
  by (induction m) auto

lemma jm_keys_set: "jm_keys (jm_set k v m) = (if k \<in> set (jm_keys m) then jm_keys m else jm_keys m @ [k])"
  by (induction m) auto

lemma jm_keys_delete: "jm_keys (jm_delete k m) = filter (\<lambda>x. x \<noteq> k) (jm_keys m)"
  by (induction m) auto

lemma jm_get_iff: "jm_wf m \<Longrightarrow> jm_get m k = Some v \<longleftrightarrow> (k, v) \<in> set m"
  by (simp add: jm_wf_def)

text \<open>A \<^verbatim>\<open>Set\<close> in insertion order.\<close>

definition js_add :: "'a \<Rightarrow> 'a list \<Rightarrow> 'a list" where
  "js_add x xs = (if x \<in> set xs then xs else xs @ [x])"

definition js_delete :: "'a \<Rightarrow> 'a list \<Rightarrow> 'a list" where
  "js_delete x xs = filter (\<lambda>y. y \<noteq> x) xs"

text \<open>\<^verbatim>\<open>new Set(iterable)\<close> keeps the first occurrence of every element.\<close>
fun js_set_of :: "'a list \<Rightarrow> 'a list \<Rightarrow> 'a list" where
  "js_set_of acc [] = acc"
| "js_set_of acc (x # xs) = js_set_of (js_add x acc) xs"

abbreviation js_set :: "'a list \<Rightarrow> 'a list" where
  "js_set xs \<equiv> js_set_of [] xs"

lemma set_js_add [js_simps, simp]: "set (js_add x xs) = insert x (set xs)"
  by (auto simp: js_add_def)

lemma distinct_js_add [js_simps, simp]: "distinct (js_add x xs) = distinct xs"
  by (simp add: js_add_def)

lemma set_js_delete [js_simps, simp]: "set (js_delete x xs) = set xs - {x}"
  by (auto simp: js_delete_def)

lemma distinct_js_delete [js_simps]: "distinct xs \<Longrightarrow> distinct (js_delete x xs)"
  by (simp add: js_delete_def)

lemma set_js_set_of: "set (js_set_of acc xs) = set acc \<union> set xs"
  by (induction acc xs rule: js_set_of.induct) auto

lemma distinct_js_set_of: "distinct (js_set_of acc xs) = distinct acc"
  by (induction acc xs rule: js_set_of.induct) auto

lemma js_set_set [js_simps, simp]: "set (js_set xs) = set xs"
  by (simp add: set_js_set_of)

lemma js_set_distinct [js_simps, simp]: "distinct (js_set xs)"
  by (simp add: distinct_js_set_of)

lemma js_set_of_append: "distinct (acc @ xs) \<Longrightarrow> js_set_of acc xs = acc @ xs"
  by (induction acc xs rule: js_set_of.induct) (auto simp: js_add_def)

lemma js_set_id [js_simps]: "distinct xs \<Longrightarrow> js_set xs = xs"
  by (simp add: js_set_of_append)

end
