(* ===== verification/DependencyGraph.thy ===== *)
theory DependencyGraph
  imports Prelude "HOL-Library.Multiset"
begin

section \<open>Flush order: the foreign-key dependency graph\<close>

text \<open>
  \<^verbatim>\<open>src/core/plugin/buffer/DependencyGraph.ts\<close>: the unit of work inserts parents before
  children and deletes children before parents. The order is a topological sort (Kahn) of the
  registered entity classes along their \<^verbatim>\<open>@ManyToOne\<close> and owning \<^verbatim>\<open>@OneToOne\<close> relations.
  A class is a value of the type variable \<open>'c\<close> (the source compares classes by identity); the
  decorator metadata the source reads with \<^verbatim>\<open>Reflect.getMetadata\<close> is the record \<open>reflect\<close>.
\<close>

subsection \<open>Relation metadata\<close>

text \<open>
  \<open>getMappingEntity = None\<close> is an entry whose \<^verbatim>\<open>getMappingEntity\<close> is not a function; \<open>Some r\<close>
  is one that returns \<open>r\<close> (\<open>None\<close> for a falsy class, as with an unresolved circular import).
\<close>

record 'c m2o_meta =
  getMappingEntity :: "'c option option"
  m2o_type :: "'c option"

record 'c o2o_meta =
  o2o_joinColumn :: "string option"
  getRelatedEntity :: "'c option option"

record 'c reflect =
  m2oMeta :: "'c \<Rightarrow> 'c m2o_meta list"
  o2oMeta :: "'c \<Rightarrow> 'c o2o_meta list"

definition m2o_parent :: "'c m2o_meta \<Rightarrow> 'c option" where
  "m2o_parent m = (case getMappingEntity m of Some r \<Rightarrow> r | None \<Rightarrow> m2o_type m)"

definition o2o_target :: "'c o2o_meta \<Rightarrow> 'c option" where
  "o2o_target m = (case o2o_joinColumn m of
      None \<Rightarrow> None
    | Some col \<Rightarrow> if col = [] then None
        else (case getRelatedEntity m of Some r \<Rightarrow> r | None \<Rightarrow> None))"

subsection \<open>Edges\<close>

type_synonym 'c edges = "('c \<times> 'c list) list"

record 'c graph =
  deps :: "'c edges"
  dependents :: "'c edges"

text \<open>\<^verbatim>\<open>edgeSet(map, key).add(value)\<close>: the set under the key, made empty on first access, grows.\<close>
definition edgeSet_add :: "'c edges \<Rightarrow> 'c \<Rightarrow> 'c \<Rightarrow> 'c edges" where
  "edgeSet_add m key v =
     jm_set key (js_add v (case jm_get m key of Some s \<Rightarrow> s | None \<Rightarrow> [])) m"

definition add_edge :: "'c list \<Rightarrow> 'c \<Rightarrow> 'c option \<Rightarrow> 'c graph \<Rightarrow> 'c graph" where
  "add_edge classSet cls parent g = (case parent of
      None \<Rightarrow> g
    | Some p \<Rightarrow> if p \<in> set classSet \<and> p \<noteq> cls
        then \<lparr>deps = edgeSet_add (deps g) cls p, dependents = edgeSet_add (dependents g) p cls\<rparr>
        else g)"

definition class_edges :: "'c reflect \<Rightarrow> 'c list \<Rightarrow> 'c \<Rightarrow> 'c graph \<Rightarrow> 'c graph" where
  "class_edges r classSet cls g =
     fold (\<lambda>m. add_edge classSet cls (o2o_target m)) (o2oMeta r cls)
       (fold (\<lambda>m. add_edge classSet cls (m2o_parent m)) (m2oMeta r cls) g)"

definition build_graph :: "'c reflect \<Rightarrow> 'c list \<Rightarrow> 'c graph" where
  "build_graph r classSet = fold (class_edges r classSet) classSet \<lparr>deps = [], dependents = []\<rparr>"

definition edges_of :: "'c edges \<Rightarrow> 'c \<Rightarrow> 'c list" where
  "edges_of m c = (case jm_get m c of Some s \<Rightarrow> s | None \<Rightarrow> [])"

subsection \<open>Kahn's algorithm\<close>

type_synonym 'c degrees = "('c \<times> int) list"

definition init_degree :: "'c edges \<Rightarrow> 'c \<Rightarrow> 'c degrees \<times> 'c list \<Rightarrow> 'c degrees \<times> 'c list" where
  "init_degree ds cls = (\<lambda>(inDegree, queue).
     let degree = int (length (edges_of ds cls))
     in (jm_set cls degree inDegree, if degree = 0 then queue @ [cls] else queue))"

definition relax :: "'c \<Rightarrow> 'c degrees \<times> 'c list \<Rightarrow> 'c degrees \<times> 'c list" where
  "relax dep = (\<lambda>(inDegree, queue).
     let newDeg = (case jm_get inDegree dep of Some d \<Rightarrow> d | None \<Rightarrow> 0) - 1
     in (jm_set dep newDeg inDegree, if newDeg = 0 then queue @ [dep] else queue))"

text \<open>How many classes still have a positive in-degree: every push to the queue uses one up.\<close>
definition positive :: "'c degrees \<Rightarrow> nat" where
  "positive inDegree = length (filter (\<lambda>(c, d). 0 < d) inDegree)"

lemma positive_set_nonpos:
  "d \<le> 0 \<Longrightarrow> jm_get m c = Some d' \<Longrightarrow> 0 < d' \<Longrightarrow> Suc (positive (jm_set c d m)) = positive m"
  by (induction m) (auto simp: positive_def split: if_splits)

lemma positive_set_le:
  "d \<le> (case jm_get m c of Some d' \<Rightarrow> d' | None \<Rightarrow> 0) \<Longrightarrow> positive (jm_set c d m) \<le> positive m"
  by (induction m) (auto simp: positive_def split: if_splits)

lemma relax_measure:
  assumes "relax dep (inDegree, queue) = (inDegree', queue')"
  shows "length queue' + positive inDegree' \<le> length queue + positive inDegree"
proof -
  let ?d = "case jm_get inDegree dep of Some d \<Rightarrow> d | None \<Rightarrow> 0"
  have i': "inDegree' = jm_set dep (?d - 1) inDegree"
    and q': "queue' = (if ?d - 1 = 0 then queue @ [dep] else queue)"
    using assms by (simp_all add: relax_def Let_def)
  show ?thesis
  proof (cases "?d = 1")
    case True
    then have "Suc (positive inDegree') = positive inDegree"
      using positive_set_nonpos[of 0 inDegree dep 1] i' by (simp split: option.splits)
    with True q' show ?thesis by simp
  next
    case False
    with i' q' positive_set_le[of "?d - 1" inDegree dep] show ?thesis by simp
  qed
qed

lemma fold_relax_measure:
  "fold relax ds (inDegree, queue) = (inDegree', queue') \<Longrightarrow>
   length queue' + positive inDegree' \<le> length queue + positive inDegree"
proof (induction ds arbitrary: inDegree queue)
  case Nil
  then show ?case by simp
next
  case (Cons d ds)
  obtain i q where iq: "relax d (inDegree, queue) = (i, q)" by fastforce
  from Cons.prems iq have "fold relax ds (i, q) = (inDegree', queue')" by simp
  from Cons.IH[OF this] relax_measure[OF iq] show ?case by linarith
qed

function kahn :: "'c edges \<Rightarrow> 'c degrees \<times> 'c list \<Rightarrow> 'c list \<Rightarrow> 'c list" where
  "kahn ds (inDegree, []) out = out"
| "kahn ds (inDegree, node # queue) out =
     kahn ds (fold relax (edges_of ds node) (inDegree, queue)) (out @ [node])"
  by pat_completeness auto
termination
proof (relation "measure (\<lambda>(ds, (inDegree, queue), out). length queue + positive inDegree)", goal_cases)
  case 1
  show ?case by simp
next
  case (2 ds inDegree node queue out)
  obtain i q where iq: "fold relax (edges_of ds node) (inDegree, queue) = (i, q)" by fastforce
  from fold_relax_measure[OF iq] iq show ?case by simp
qed

definition topologicalSort :: "'c reflect \<Rightarrow> 'c list \<Rightarrow> 'c list" where
  "topologicalSort r entityClasses =
     (if length entityClasses \<le> 1 then entityClasses
      else let classSet = js_set entityClasses;
               g = build_graph r classSet;
               out = kahn (dependents g) (fold (init_degree (deps g)) classSet ([], [])) []
           in if length out \<noteq> length classSet then entityClasses else out)"

subsection \<open>Sorting entries by the index\<close>

definition buildTopologicalIndexMap :: "'c reflect \<Rightarrow> 'c list \<Rightarrow> ('c \<times> int) list" where
  "buildTopologicalIndexMap r registered =
     (let order = topologicalSort r registered
      in fold (\<lambda>(i, cls). jm_set cls (int i)) (enumerate 0 order) [])"

definition MAX_SAFE_INTEGER :: int where
  "MAX_SAFE_INTEGER = 2 ^ 53 - 1"

definition index_key :: "('c \<times> int) list \<Rightarrow> bool \<Rightarrow> 'c \<Rightarrow> int" where
  "index_key indexMap reverse cls = (case jm_get indexMap cls of
      Some i \<Rightarrow> i
    | None \<Rightarrow> if reverse then -1 else MAX_SAFE_INTEGER)"

text \<open>
  \<^verbatim>\<open>Array.prototype.sort\<close> is stable, and so is \<open>sort_key\<close>; the comparator is the difference of
  the keys, taken the other way round for \<^verbatim>\<open>reverse\<close>.
\<close>
definition sortByIndex :: "('e \<Rightarrow> 'c) \<Rightarrow> 'e list \<Rightarrow> ('c \<times> int) list \<Rightarrow> bool \<Rightarrow> 'e list" where
  "sortByIndex entity entries indexMap reverse =
     sort_key (\<lambda>e. let k = index_key indexMap reverse (entity e)
                   in if reverse then - k else k) entries"

definition sortForInsert :: "'c reflect \<Rightarrow> ('e \<Rightarrow> 'c) \<Rightarrow> 'e list \<Rightarrow> 'c list \<Rightarrow> 'e list" where
  "sortForInsert r entity entries registered =
     sortByIndex entity entries (buildTopologicalIndexMap r registered) False"

definition sortForDelete :: "'c reflect \<Rightarrow> ('e \<Rightarrow> 'c) \<Rightarrow> 'e list \<Rightarrow> 'c list \<Rightarrow> 'e list" where
  "sortForDelete r entity entries registered =
     sortByIndex entity entries (buildTopologicalIndexMap r registered) True"

subsection \<open>The graph holds exactly the declared dependencies\<close>

text \<open>
  The specification of an edge: \<open>c\<close> references \<open>p\<close> by a foreign key, both are registered and
  they differ (a self reference puts no constraint on the order).
\<close>
definition depends_on :: "'c reflect \<Rightarrow> 'c list \<Rightarrow> 'c \<Rightarrow> 'c \<Rightarrow> bool" where
  "depends_on r cs c p \<longleftrightarrow> c \<in> set cs \<and> p \<in> set cs \<and> p \<noteq> c \<and>
     (Some p \<in> m2o_parent ` set (m2oMeta r c) \<or> Some p \<in> o2o_target ` set (o2oMeta r c))"

definition dep_rel :: "'c reflect \<Rightarrow> 'c list \<Rightarrow> ('c \<times> 'c) set" where
  "dep_rel r cs = {(p, c). depends_on r cs c p}"

lemma edges_of_add: "edges_of (edgeSet_add m k v) c = (if c = k then js_add v (edges_of m k) else edges_of m c)"
  by (auto simp: edges_of_def edgeSet_add_def js_simps split: option.splits)

definition graph_is :: "('c \<times> 'c) set \<Rightarrow> 'c graph \<Rightarrow> bool" where
  "graph_is E g \<longleftrightarrow> (\<forall>c. distinct (edges_of (deps g) c) \<and> distinct (edges_of (dependents g) c) \<and>
     set (edges_of (deps g) c) = {p. (p, c) \<in> E} \<and> set (edges_of (dependents g) c) = {d. (c, d) \<in> E})"

lemma graph_is_empty: "graph_is {} \<lparr>deps = [], dependents = []\<rparr>"
  by (simp add: graph_is_def edges_of_def)

definition new_edges :: "'c list \<Rightarrow> 'c \<Rightarrow> 'c option set \<Rightarrow> ('c \<times> 'c) set" where
  "new_edges cs cls ps = {(p, c). c = cls \<and> Some p \<in> ps \<and> p \<in> set cs \<and> p \<noteq> cls}"

lemma graph_is_add_edge: "graph_is E g \<Longrightarrow> graph_is (E \<union> new_edges cs cls {parent}) (add_edge cs cls parent g)"
  by (cases parent) (auto simp: graph_is_def add_edge_def edges_of_add new_edges_def)

lemma new_edges_Un: "new_edges cs cls (A \<union> B) = new_edges cs cls A \<union> new_edges cs cls B"
  by (auto simp: new_edges_def)

lemma graph_is_fold_add:
  "graph_is E g \<Longrightarrow> graph_is (E \<union> new_edges cs cls (f ` set ms)) (fold (\<lambda>m. add_edge cs cls (f m)) ms g)"
proof (induction ms arbitrary: E g)
  case Nil
  then show ?case by (simp add: new_edges_def)
next
  case (Cons m ms)
  from Cons.IH[OF graph_is_add_edge[OF Cons.prems]] show ?case
    using new_edges_Un[of cs cls "{f m}" "f ` set ms"] by (simp add: Un_assoc)
qed

lemma graph_is_class_edges:
  "graph_is E g \<Longrightarrow> graph_is (E \<union> new_edges cs cls (m2o_parent ` set (m2oMeta r cls) \<union>
     o2o_target ` set (o2oMeta r cls))) (class_edges r cs cls g)"
  unfolding class_edges_def new_edges_Un Un_assoc[symmetric] by (intro graph_is_fold_add)

lemma graph_is_fold_class:
  "graph_is E g \<Longrightarrow> graph_is (E \<union> (\<Union>c\<in>set ks. new_edges cs c (m2o_parent ` set (m2oMeta r c) \<union>
     o2o_target ` set (o2oMeta r c)))) (fold (class_edges r cs) ks g)"
proof (induction ks arbitrary: E g)
  case (Cons k ks)
  from Cons.IH[OF graph_is_class_edges[OF Cons.prems]] show ?case by (simp add: Un_assoc)
qed simp

lemma graph_is_build: "graph_is (dep_rel r cs) (build_graph r cs)"
proof -
  have "dep_rel r cs = {} \<union> (\<Union>c\<in>set cs. new_edges cs c (m2o_parent ` set (m2oMeta r c) \<union>
     o2o_target ` set (o2oMeta r c)))"
    by (auto simp: dep_rel_def depends_on_def new_edges_def)
  then show ?thesis
    using graph_is_fold_class[OF graph_is_empty, of cs r cs] by (simp add: build_graph_def)
qed

lemma dep_rel_subset: "dep_rel r cs \<subseteq> set cs \<times> set cs"
  by (auto simp: dep_rel_def depends_on_def)

lemma finite_dep_rel: "finite (dep_rel r cs)"
  by (rule finite_subset[OF dep_rel_subset]) simp

subsection \<open>The invariant of the loop\<close>

abbreviation degree_of :: "'c degrees \<Rightarrow> 'c \<Rightarrow> int" where
  "degree_of m c \<equiv> (case jm_get m c of Some d \<Rightarrow> d | None \<Rightarrow> 0)"

lemma fold_init_degree:
  "distinct cs \<Longrightarrow> set cs \<inter> set (jm_keys m) = {} \<Longrightarrow> fold (init_degree ds) cs (m, q) =
     (m @ map (\<lambda>c. (c, int (length (edges_of ds c)))) cs, q @ filter (\<lambda>c. edges_of ds c = []) cs)"
  by (induction cs arbitrary: m q) (auto simp: init_degree_def Let_def jm_set_new)

lemma fold_relax:
  "distinct xs \<Longrightarrow> fold relax xs (m, q) = (m', q') \<Longrightarrow>
     (\<forall>c. jm_get m' c = (if c \<in> set xs then Some (degree_of m c - 1) else jm_get m c)) \<and>
     q' = q @ filter (\<lambda>c. degree_of m c = 1) xs"
proof (induction xs arbitrary: m q)
  case Nil
  then show ?case by simp
next
  case (Cons x xs)
  let ?m = "jm_set x (degree_of m x - 1) m"
  let ?q = "if degree_of m x = 1 then q @ [x] else q"
  have "relax x (m, q) = (?m, ?q)"
    by (simp add: relax_def Let_def)
  with Cons.prems have f: "fold relax xs (?m, ?q) = (m', q')" and d: "distinct xs" "x \<notin> set xs"
    by auto
  have same: "degree_of ?m c = degree_of m c" if "c \<in> set xs" for c
    using that d(2) by (auto simp: js_simps)
  have "filter (\<lambda>c. degree_of ?m c = 1) xs = filter (\<lambda>c. degree_of m c = 1) xs"
    using same by (intro filter_cong) auto
  with Cons.IH[OF d(1) f] same d(2) show ?case
    by (auto simp: js_simps)
qed

definition topo_prefix :: "('c \<times> 'c) set \<Rightarrow> 'c list \<Rightarrow> bool" where
  "topo_prefix E out \<longleftrightarrow> (\<forall>xs c ys. out = xs @ c # ys \<longrightarrow> {p. (p, c) \<in> E} \<subseteq> set xs)"

lemma topo_prefix_snoc:
  "topo_prefix E out \<Longrightarrow> {p. (p, c) \<in> E} \<subseteq> set out \<Longrightarrow> topo_prefix E (out @ [c])"
  unfolding topo_prefix_def by (auto simp: append_eq_append_conv2 Cons_eq_append_conv append_eq_Cons_conv)

definition kahn_inv :: "('c \<times> 'c) set \<Rightarrow> 'c list \<Rightarrow> 'c degrees \<Rightarrow> 'c list \<Rightarrow> 'c list \<Rightarrow> bool" where
  "kahn_inv E cs inDegree queue out \<longleftrightarrow> distinct (out @ queue) \<and>
     set (out @ queue) = {c \<in> set cs. {p. (p, c) \<in> E} \<subseteq> set out} \<and>
     (\<forall>c\<in>set cs. jm_get inDegree c = Some (int (card ({p. (p, c) \<in> E} - set out)))) \<and>
     topo_prefix E out"

lemma kahn_inv_init:
  assumes g: "graph_is E g" and d: "distinct cs" and E: "finite E"
  shows "case fold (init_degree (deps g)) cs ([], []) of (m, q) \<Rightarrow> kahn_inv E cs m q []"
proof -
  have len: "length (edges_of (deps g) c) = card {p. (p, c) \<in> E}" for c
    using g by (metis distinct_card graph_is_def)
  have emp: "edges_of (deps g) c = [] \<longleftrightarrow> {p. (p, c) \<in> E} = {}" for c
    using g by (metis graph_is_def set_empty)
  have get: "c \<in> set cs \<Longrightarrow> map_of (map (\<lambda>c. (c, f c)) cs) c = Some (f c)" for c and f :: "'a \<Rightarrow> int"
    by (simp add: map_of_map_restrict restrict_map_def)
  show ?thesis
    using fold_init_degree[OF d, of "[]" "deps g" "[]"] d
    by (auto simp: kahn_inv_def topo_prefix_def len emp get)
qed

lemma kahn_inv_step:
  assumes inv: "kahn_inv E cs m (n # q) out" and E: "finite E" "E \<subseteq> set cs \<times> set cs"
    and xs: "distinct xs" "set xs = {d. (n, d) \<in> E}" and f: "fold relax xs (m, q) = (m', q')"
  shows "kahn_inv E cs m' q' (out @ [n])"
proof -
  let ?D = "\<lambda>c. {p. (p, c) \<in> E}"
  from inv have dist: "distinct (out @ n # q)"
    and ready: "set out \<union> insert n (set q) = {c \<in> set cs. ?D c \<subseteq> set out}"
    and deg: "\<And>c. c \<in> set cs \<Longrightarrow> jm_get m c = Some (int (card (?D c - set out)))"
    and topo: "topo_prefix E out"
    by (auto simp: kahn_inv_def)
  have n: "?D n \<subseteq> set out" "n \<notin> set out" using ready dist by auto
  have fin: "finite (?D c)" for c
    using finite_subset[OF _ finite_imageI[OF E(1), of fst], of "?D c"] by force
  note fr = fold_relax[OF xs(1) f]
  have card_eq: "int (card (?D c - insert n (set out))) =
      (if c \<in> set xs then int (card (?D c - set out)) - 1 else int (card (?D c - set out)))" for c
  proof (cases "c \<in> set xs")
    case True
    then have "n \<in> ?D c - set out" using xs(2) n(2) by simp
    then have "Suc (card (?D c - set out - {n})) = card (?D c - set out)"
      using card_Suc_Diff1[OF finite_Diff[OF fin[of c]], of n "set out"] by blast
    moreover have "?D c - set out - {n} = ?D c - insert n (set out)" by blast
    ultimately show ?thesis using True by simp
  next
    case False
    then have "?D c - insert n (set out) = ?D c - set out" using xs(2) by auto
    with False show ?thesis by simp
  qed
  have xs_cs: "c \<in> set cs" if "c \<in> set xs" for c using that xs(2) E(2) by auto
  have one: "degree_of m c = 1 \<longleftrightarrow> ?D c \<subseteq> insert n (set out)" if "c \<in> set xs" for c
  proof -
    have "int (card (?D c - insert n (set out))) = degree_of m c - 1"
      using card_eq[of c] deg[OF xs_cs[OF that]] that by simp
    moreover have "int (card (?D c - insert n (set out))) = 0 \<longleftrightarrow> ?D c \<subseteq> insert n (set out)"
      using fin[of c] by auto
    ultimately show ?thesis by auto
  qed
  have q': "q' = q @ filter (\<lambda>c. ?D c \<subseteq> insert n (set out)) xs"
  proof -
    have "filter (\<lambda>c. degree_of m c = 1) xs = filter (\<lambda>c. ?D c \<subseteq> insert n (set out)) xs"
      by (rule filter_cong[OF refl one])
    with fr show ?thesis by simp
  qed
  have new: "c \<notin> set out \<and> c \<noteq> n \<and> c \<notin> set q" if "c \<in> set xs" for c
  proof -
    have "n \<in> ?D c" using that xs(2) by simp
    then have "\<not> ?D c \<subseteq> set out" using n(2) by auto
    then show ?thesis using ready by auto
  qed
  have "distinct (out @ [n] @ q')" using dist new xs(1) q' by auto
  moreover have "set (out @ [n] @ q') = {c \<in> set cs. ?D c \<subseteq> insert n (set out)}"
  proof (rule set_eqI)
    fix c
    show "c \<in> set (out @ [n] @ q') \<longleftrightarrow> c \<in> {c \<in> set cs. ?D c \<subseteq> insert n (set out)}"
    proof (cases "c \<in> set xs")
      case True
      with new[OF True] xs_cs[OF True] q' show ?thesis by auto
    next
      case False
      then have "?D c \<subseteq> insert n (set out) \<longleftrightarrow> ?D c \<subseteq> set out" using xs(2) by auto
      with False q' ready show ?thesis by auto
    qed
  qed
  moreover have "jm_get m' c = Some (int (card (?D c - insert n (set out))))" if "c \<in> set cs" for c
    using fr card_eq[of c] deg[OF that] by simp
  ultimately show ?thesis
    using topo_prefix_snoc[OF topo n(1)] by (simp add: kahn_inv_def)
qed

lemma kahn_correct:
  "kahn_inv E cs m q out \<Longrightarrow> (\<And>n. distinct (edges_of ds n) \<and> set (edges_of ds n) = {d. (n, d) \<in> E}) \<Longrightarrow>
   finite E \<Longrightarrow> E \<subseteq> set cs \<times> set cs \<Longrightarrow> \<exists>m'. kahn_inv E cs m' [] (kahn ds (m, q) out)"
proof (induction ds "(m, q)" out arbitrary: m q rule: kahn.induct)
  case (1 ds inDegree out)
  then show ?case by auto
next
  case (2 ds inDegree node queue out)
  obtain m' q' where f: "fold relax (edges_of ds node) (inDegree, queue) = (m', q')" by fastforce
  have "kahn_inv E cs m' q' (out @ [node])"
    using kahn_inv_step[OF "2.prems"(1,3,4) _ _ f] "2.prems"(2) by blast
  from "2.hyps"[OF f this "2.prems"(2-4)] f show ?case by simp
qed

lemma topo_prefix_before:
  "topo_prefix E out \<Longrightarrow> c \<in> set out \<Longrightarrow> (p, c) \<in> E \<Longrightarrow> \<exists>xs ys. out = xs @ c # ys \<and> p \<in> set xs"
  by (metis (mono_tags, lifting) in_set_conv_decomp mem_Collect_eq subsetD topo_prefix_def)

lemma takeWhile_pos_less: "p \<in> set xs \<Longrightarrow> length (takeWhile (\<lambda>x. x \<noteq> p) (xs @ ys)) < length xs"
  by (induction xs) auto

lemma takeWhile_pos_eq: "c \<notin> set xs \<Longrightarrow> length (takeWhile (\<lambda>x. x \<noteq> c) (xs @ c # ys)) = length xs"
  by (induction xs) auto

lemma topo_prefix_acyclic:
  assumes t: "topo_prefix E out" and E: "E \<subseteq> set out \<times> set out" and d: "distinct out"
  shows "acyclic E"
proof -
  let ?i = "\<lambda>c. length (takeWhile (\<lambda>x. x \<noteq> c) out)"
  have "?i p < ?i c" if pc: "(p, c) \<in> E" for p c
  proof -
    from pc E have "c \<in> set out" by auto
    from topo_prefix_before[OF t this pc] obtain xs ys where split: "out = xs @ c # ys" "p \<in> set xs"
      by blast
    with d takeWhile_pos_eq[of c xs ys] takeWhile_pos_less[of p xs "c # ys"] show ?thesis by auto
  qed
  then have "E \<subseteq> measure ?i" by auto
  then show ?thesis by (meson acyclic_subset wf_acyclic wf_measure)
qed

lemma kahn_inv_complete:
  assumes inv: "kahn_inv E cs m [] out" and E: "finite E" "E \<subseteq> set cs \<times> set cs"
  shows "acyclic E \<longleftrightarrow> set out = set cs"
proof
  assume "acyclic E"
  with E(1) have "wf E" by (rule finite_acyclic_wf)
  have "c \<in> set cs \<Longrightarrow> c \<in> set out" for c
  proof (induction c rule: wf_induct_rule[OF \<open>wf E\<close>])
    case (1 c)
    then have "{p. (p, c) \<in> E} \<subseteq> set out" using E(2) by blast
    with "1.prems" inv show ?case by (auto simp: kahn_inv_def)
  qed
  with inv show "set out = set cs" by (auto simp: kahn_inv_def)
next
  assume "set out = set cs"
  with inv E(2) show "acyclic E" by (intro topo_prefix_acyclic[of E out]) (auto simp: kahn_inv_def)
qed

text \<open>The part of \<open>topologicalSort\<close> after its shortcut for at most one class.\<close>
lemma kahn_run:
  fixes r :: "'c reflect" and cs :: "'c list"
  assumes d: "distinct cs"
  defines "g \<equiv> build_graph r cs"
  defines "out \<equiv> kahn (dependents g) (fold (init_degree (deps g)) cs ([], [])) []"
  shows "distinct out" "set out \<subseteq> set cs" "acyclic (dep_rel r cs) \<longleftrightarrow> length out = length cs"
    "topo_prefix (dep_rel r cs) out"
proof -
  obtain m q where mq: "fold (init_degree (deps g)) cs ([], []) = (m, q)" by fastforce
  note gi = graph_is_build[of r cs, folded g_def]
  have "kahn_inv (dep_rel r cs) cs m q []"
    using kahn_inv_init[OF gi d finite_dep_rel] mq by simp
  from kahn_correct[OF this _ finite_dep_rel dep_rel_subset, of "dependents g"] gi
  obtain m' where inv: "kahn_inv (dep_rel r cs) cs m' [] out"
    by (auto simp: graph_is_def out_def mq)
  then show dd: "distinct out" and ss: "set out \<subseteq> set cs" and "topo_prefix (dep_rel r cs) out"
    by (auto simp: kahn_inv_def)
  have "set out = set cs \<longleftrightarrow> length out = length cs"
    using dd d ss by (metis card_subset_eq distinct_card finite_set)
  then show "acyclic (dep_rel r cs) \<longleftrightarrow> length out = length cs"
    using kahn_inv_complete[OF inv finite_dep_rel dep_rel_subset] by simp
qed

lemma dep_rel_single: "length es \<le> 1 \<Longrightarrow> dep_rel r (js_set es) = {}"
proof -
  assume a: "length es \<le> 1"
  then have "es = [] \<or> (\<exists>x. es = [x])" by (cases es) auto
  then show ?thesis by (auto simp: dep_rel_def depends_on_def)
qed

lemma topologicalSort_acyclic:
  assumes "acyclic (dep_rel r (js_set es))"
  shows "distinct (topologicalSort r es)" "set (topologicalSort r es) = set es"
    "topo_prefix (dep_rel r (js_set es)) (topologicalSort r es)"
proof -
  note run = kahn_run[of "js_set es" r, OF js_set_distinct]
  have "distinct (topologicalSort r es) \<and> set (topologicalSort r es) = set es \<and>
    topo_prefix (dep_rel r (js_set es)) (topologicalSort r es)"
  proof (cases "length es \<le> 1")
    case True
    then have "distinct es" by (cases es) auto
    with True show ?thesis
      using dep_rel_single[OF True] by (simp add: topologicalSort_def topo_prefix_def)
  next
    case False
    let ?out = "kahn (dependents (build_graph r (js_set es)))
      (fold (init_degree (deps (build_graph r (js_set es)))) (js_set es) ([], [])) []"
    from assms run(3) have len: "length ?out = length (js_set es)" by simp
    with run(1,2) have "set ?out = set es"
      by (metis card_subset_eq distinct_card finite_set js_set_distinct js_set_set)
    with False len run(1,4) show ?thesis by (simp add: topologicalSort_def Let_def)
  qed
  then show "distinct (topologicalSort r es)" "set (topologicalSort r es) = set es"
    "topo_prefix (dep_rel r (js_set es)) (topologicalSort r es)" by auto
qed

lemma depends_on_js_set [simp]: "depends_on r (js_set es) = depends_on r es"
  and dep_rel_js_set [simp]: "dep_rel r (js_set es) = dep_rel r es"
  by (auto simp: depends_on_def dep_rel_def fun_eq_iff)

subsection \<open>The index map and the two sorts\<close>

abbreviation position :: "'c list \<Rightarrow> 'c \<Rightarrow> nat" where
  "position xs c \<equiv> length (takeWhile (\<lambda>x. x \<noteq> c) xs)"

lemma index_fold:
  "distinct order \<Longrightarrow> jm_get (fold (\<lambda>(i, cls). jm_set cls (int i)) (enumerate n order) m) c =
     (if c \<in> set order then Some (int (n + position order c)) else jm_get m c)"
  by (induction order arbitrary: n m) (auto simp: js_simps)

lemma buildTopologicalIndexMap_get:
  assumes "acyclic (dep_rel r es)"
  shows "jm_get (buildTopologicalIndexMap r es) c =
    (if c \<in> set es then Some (int (position (topologicalSort r es) c)) else None)"
  using topologicalSort_acyclic[of r es] assms
  by (simp add: buildTopologicalIndexMap_def Let_def index_fold)

lemma position_less:
  assumes "acyclic (dep_rel r es)" and dep: "depends_on r es c p"
  shows "position (topologicalSort r es) p < position (topologicalSort r es) c"
proof -
  note ts = topologicalSort_acyclic[of r es, unfolded dep_rel_js_set, OF assms(1)]
  have "(p, c) \<in> dep_rel r es" "c \<in> set es" using dep by (auto simp: dep_rel_def depends_on_def)
  with topo_prefix_before[OF ts(3)] ts(2) obtain xs ys
    where "topologicalSort r es = xs @ c # ys" "p \<in> set xs" by blast
  with ts(1) takeWhile_pos_eq[of c xs ys] takeWhile_pos_less[of p xs "c # ys"] show ?thesis by auto
qed

lemma sorted_wrt_sort_key:
  fixes f :: "'e \<Rightarrow> int"
  assumes "\<And>a b. f a \<le> f b \<Longrightarrow> P a b"
  shows "sorted_wrt P (sort_key f xs)"
proof -
  have "sorted_wrt (\<lambda>a b. f a \<le> f b) (sort_key f xs)"
    using sorted_sort_key[of f xs] by (simp add: sorted_wrt_map)
  then show ?thesis using assms by (rule sorted_wrt_mono_rel[rotated])
qed

lemma stable_sort_key_class:
  "(\<And>e. entity e = c \<Longrightarrow> f e = k) \<Longrightarrow>
     filter (\<lambda>e. entity e = c) (sort_key f xs) = filter (\<lambda>e. entity e = c) xs" for f :: "'e \<Rightarrow> int"
proof -
  assume k: "\<And>e. entity e = c \<Longrightarrow> f e = k"
  have narrow: "filter (\<lambda>e. entity e = c) ys = filter (\<lambda>e. entity e = c) (filter (\<lambda>e. f e = k) ys)" for ys
    using k by (auto intro: filter_cong)
  show ?thesis
    by (subst narrow, subst (2) narrow) (simp only: sort_key_stable)
qed

subsection \<open>Properties\<close>

text \<open>When the registered classes have no circular foreign-key dependency, the topological
  order holds every registered class once, and a class that references another comes after it.\<close>
theorem toposort_parents_first:
  assumes "acyclic (dep_rel r es)" and "depends_on r es c p"
  shows "distinct (topologicalSort r es) \<and> set (topologicalSort r es) = set es \<and>
    (\<exists>xs ys. topologicalSort r es = xs @ c # ys \<and> p \<in> set xs)"
proof -
  note ts = topologicalSort_acyclic[of r es, unfolded dep_rel_js_set, OF assms(1)]
  have "(p, c) \<in> dep_rel r es" "c \<in> set es" using assms(2) by (auto simp: dep_rel_def depends_on_def)
  with ts topo_prefix_before[OF ts(3)] show ?thesis by blast
qed

text \<open>On a circular dependency the sort gives back the registration order exactly as
  it was given, duplicates included, so that a flush still has an order to follow.\<close>
theorem toposort_cycle_fallback:
  assumes "\<not> acyclic (dep_rel r es)"
  shows "topologicalSort r es = es"
  using assms kahn_run(3)[of "js_set es" r] by (simp add: topologicalSort_def Let_def)

text \<open>Sorting for INSERT keeps every entry, never puts an entry before one its class depends
  on, and keeps the entries of one class in the order they were queued.\<close>
theorem sortForInsert_respects_fk:
  assumes "acyclic (dep_rel r registered)"
  shows "mset (sortForInsert r entity entries registered) = mset entries \<and>
    sorted_wrt (\<lambda>a b. \<not> depends_on r registered (entity a) (entity b))
      (sortForInsert r entity entries registered) \<and>
    filter (\<lambda>e. entity e = c) (sortForInsert r entity entries registered) =
      filter (\<lambda>e. entity e = c) entries"
proof -
  let ?key = "index_key (buildTopologicalIndexMap r registered) False"
  have "\<not> depends_on r registered (entity a) (entity b)" if "?key (entity a) \<le> ?key (entity b)" for a b
    using that position_less[OF assms, of "entity a" "entity b"]
    by (auto simp: index_key_def buildTopologicalIndexMap_get[OF assms] depends_on_def split: if_splits)
  then show ?thesis
    by (simp add: sortForInsert_def sortByIndex_def Let_def sorted_wrt_sort_key stable_sort_key_class)
qed

text \<open>Sorting for DELETE keeps every entry and never puts a parent before an entry that
  depends on it, so children are deleted first.\<close>
theorem sortForDelete_respects_fk:
  assumes "acyclic (dep_rel r registered)"
  shows "mset (sortForDelete r entity entries registered) = mset entries \<and>
    sorted_wrt (\<lambda>a b. \<not> depends_on r registered (entity b) (entity a))
      (sortForDelete r entity entries registered)"
proof -
  let ?key = "index_key (buildTopologicalIndexMap r registered) True"
  have "\<not> depends_on r registered (entity b) (entity a)" if "- ?key (entity a) \<le> - ?key (entity b)" for a b
    using that position_less[OF assms, of "entity b" "entity a"]
    by (auto simp: index_key_def buildTopologicalIndexMap_get[OF assms] depends_on_def split: if_splits)
  then show ?thesis
    by (simp add: sortForDelete_def sortByIndex_def Let_def sorted_wrt_sort_key)
qed

subsection \<open>Witnesses\<close>

text \<open>Class 1 references class 2 by a many-to-one, class 2 references class 3 by an owning one-to-one.\<close>
definition chain_meta :: "nat reflect" where
  "chain_meta = \<lparr>
     m2oMeta = (\<lambda>c. if c = 1 then [\<lparr>getMappingEntity = Some (Some 2), m2o_type = None\<rparr>] else []),
     o2oMeta = (\<lambda>c. if c = 2 then [\<lparr>o2o_joinColumn = Some ''profile_id'', getRelatedEntity = Some (Some 3)\<rparr>] else [])\<rparr>"

definition cycle_meta :: "nat reflect" where
  "cycle_meta = \<lparr>
     m2oMeta = (\<lambda>c. if c = 1 then [\<lparr>getMappingEntity = Some (Some 2), m2o_type = None\<rparr>]
                    else if c = 2 then [\<lparr>getMappingEntity = Some (Some 1), m2o_type = None\<rparr>] else []),
     o2oMeta = (\<lambda>c. [])\<rparr>"

lemma chain_meta_acyclic: "acyclic (dep_rel chain_meta [1, 2, 3])"
proof -
  have "dep_rel chain_meta [1, 2, 3] \<subseteq> measure (\<lambda>c. 3 - c)"
    by (auto simp: dep_rel_def depends_on_def chain_meta_def m2o_parent_def o2o_target_def)
  then show ?thesis by (meson acyclic_subset wf_acyclic wf_measure)
qed

lemma cycle_meta_cyclic: "\<not> acyclic (dep_rel cycle_meta [1, 2])"
proof -
  have "(1, 2) \<in> dep_rel cycle_meta [1, 2]" "(2, 1) \<in> dep_rel cycle_meta [1, 2]"
    by (auto simp: dep_rel_def depends_on_def cycle_meta_def m2o_parent_def)
  then show ?thesis unfolding acyclic_def by (meson trancl.r_into_trancl trancl_trans)
qed

lemma chain_meta_depends: "depends_on chain_meta [1, 2, 3] 1 2"
  by (simp add: depends_on_def chain_meta_def m2o_parent_def)

theorem toposort_parents_first_witness:
  "topologicalSort chain_meta [1, 2, 3] = [3, 2, 1] \<and>
   (\<exists>xs ys. topologicalSort chain_meta [1, 2, 3] = xs @ 1 # ys \<and> 2 \<in> set xs)"
proof -
  have "topologicalSort chain_meta [1, 2, 3] = [3, 2, 1]" by code_simp
  then show ?thesis using toposort_parents_first[OF chain_meta_acyclic chain_meta_depends] by blast
qed

theorem toposort_cycle_fallback_witness: "topologicalSort cycle_meta [1, 2] = [1, 2]"
  by (rule toposort_cycle_fallback[OF cycle_meta_cyclic])

theorem sortForInsert_respects_fk_witness:
  "sortForInsert chain_meta id [1, 3, 2, 1] [1, 2, 3] = [3, 2, 1, 1] \<and>
   mset (sortForInsert chain_meta id [1, 3, 2, 1] [1, 2, 3]) = mset [1, 3, 2, 1]"
  using sortForInsert_respects_fk[OF chain_meta_acyclic, of id "[1, 3, 2, 1]"] by (auto, code_simp)

theorem sortForDelete_respects_fk_witness:
  "sortForDelete chain_meta id [3, 2, 1] [1, 2, 3] = [1, 2, 3] \<and>
   mset (sortForDelete chain_meta id [3, 2, 1] [1, 2, 3]) = mset [3, 2, 1]"
  using sortForDelete_respects_fk[OF chain_meta_acyclic, of id "[3, 2, 1]"] by (auto, code_simp)

end
