(* ===== verification/TextUtils.thy ===== *)
theory TextUtils
  imports Prelude Complex_Main "HOL-Library.Sublist" "HOL-Library.Char_ord"
begin

section \<open>Text utilities: escaping, identifier checks, edit distance\<close>

text \<open>
  \<^verbatim>\<open>src/core/expressions/likeEscape.ts\<close>, \<^verbatim>\<open>src/utils/escapeSqlLiteral.ts\<close>,
  \<^verbatim>\<open>src/utils/validateSavepointName.ts\<close>, \<^verbatim>\<open>src/utils/validateIsolationLevel.ts\<close>,
  \<^verbatim>\<open>src/utils/camelToSnakeCase.ts\<close>, \<^verbatim>\<open>src/utils/closestIdentifier.ts\<close> and
  \<^verbatim>\<open>src/core/generators/columnRenameMatch.ts\<close>. Strings are lists of characters; letter case and
  white space are those of ASCII, so the functions that fold case are modelled on ASCII text.
\<close>

subsection \<open>Characters\<close>

definition is_lower :: "char \<Rightarrow> bool" where
  "is_lower c \<longleftrightarrow> CHR ''a'' \<le> c \<and> c \<le> CHR ''z''"

definition is_upper :: "char \<Rightarrow> bool" where
  "is_upper c \<longleftrightarrow> CHR ''A'' \<le> c \<and> c \<le> CHR ''Z''"

definition is_digit :: "char \<Rightarrow> bool" where
  "is_digit c \<longleftrightarrow> CHR ''0'' \<le> c \<and> c \<le> CHR ''9''"

definition lower_char :: "char \<Rightarrow> char" where
  "lower_char c = (if is_upper c then char_of (of_char c + 32 :: nat) else c)"

definition toLowerCase :: "string \<Rightarrow> string" where
  "toLowerCase s = map lower_char s"

subsection \<open>Quoted identifiers\<close>

datatype dialect = Mysql | Postgres | Sqlite

definition quote_with :: "char \<Rightarrow> string \<Rightarrow> string" where
  "quote_with q name = q # concat (map (\<lambda>c. if c = q then [q, q] else [c]) name) @ [q]"

text \<open>\<^verbatim>\<open>wrap\<close> of the drivers and of \<^verbatim>\<open>EntityManager\<close>.\<close>
definition quote_char :: "dialect \<Rightarrow> char" where
  "quote_char d = (if d = Mysql then CHR 0x60 else CHR 0x22)"

definition wrap_identifier :: "dialect \<Rightarrow> string \<Rightarrow> string" where
  "wrap_identifier d name = quote_with (quote_char d) name"

text \<open>Reading a quoted name back.\<close>
fun unquote :: "char \<Rightarrow> string \<Rightarrow> string" where
  "unquote q (a # b # cs) = (if a = q \<and> b = q then q # unquote q cs
     else if a = q then [] else a # unquote q (b # cs))"
| "unquote q [a] = (if a = q then [] else [a])"
| "unquote q [] = []"

lemma unquote_quoted: "unquote q (concat (map (\<lambda>c. if c = q then [q, q] else [c]) name) @ [q]) = name"
proof (induction name)
  case (Cons c name)
  have "unquote q (c # xs @ [q]) = c # unquote q (xs @ [q])" if "c \<noteq> q" for xs
    using that by (cases xs) auto
  then show ?case using Cons by auto
qed simp

lemma unquote_wrapped: "unquote (quote_char d) (tl (wrap_identifier d name)) = name"
  by (simp add: wrap_identifier_def quote_with_def unquote_quoted)

subsection \<open>LIKE patterns\<close>

definition LIKE_ESCAPE_CHAR :: char where
  "LIKE_ESCAPE_CHAR = CHR 0x5C"

definition escapeLikeValue :: "string \<Rightarrow> string" where
  "escapeLikeValue value = concat (map (\<lambda>m.
     if m = CHR 0x5C \<or> m = CHR ''%'' \<or> m = CHR ''_'' then [LIKE_ESCAPE_CHAR, m] else [m]) value)"

text \<open>
  \<^verbatim>\<open>likeEscaped(column, pattern)\<close>: the pieces of the template, with the values that are bound.
\<close>
datatype sql_piece = Raw string | Bind string

definition likeEscaped :: "string \<Rightarrow> string \<Rightarrow> sql_piece list" where
  "likeEscaped column pattern =
     [Raw column, Raw '' LIKE '', Bind pattern, Raw '' ESCAPE '', Bind [LIKE_ESCAPE_CHAR]]"

subsection \<open>Literals in DDL\<close>

definition escapeSqlLiteral :: "string \<Rightarrow> OrmErrorCode + string" where
  "escapeSqlLiteral value =
     (if CHR 0x00 \<in> set value then Inl VALIDATION_ERROR
      else Inr (concat (map (\<lambda>c. if c = CHR 0x27 then [c, c] else [c])
             (concat (map (\<lambda>c. if c = CHR 0x5C then [c, c] else [c]) value)))))"

text \<open>
  \<^verbatim>\<open>toSqlLiteral\<close> and \<^verbatim>\<open>inlineSql\<close> of \<^verbatim>\<open>ComputedColumnExpression.ts\<close>: the bound values of a
  generated-column expression are spliced into the DDL. A finite number and a bigint carry their
  JavaScript text; \<open>VOther\<close> is a value of any other kind.
\<close>

datatype bind_value = VNull | VNumber string | VNonFinite | VBigint string | VBool bool | VString string | VOther

fun toSqlLiteral :: "bind_value \<Rightarrow> dialect \<Rightarrow> OrmErrorCode + string" where
  "toSqlLiteral VNull d = Inr ''NULL''"
| "toSqlLiteral VNonFinite d = Inl VALIDATION_ERROR"
| "toSqlLiteral (VNumber t) d = Inr t"
| "toSqlLiteral (VBigint t) d = Inr t"
| "toSqlLiteral (VBool b) d =
     Inr (if d = Mysql then (if b then ''1'' else ''0'') else if b then ''TRUE'' else ''FALSE'')"
| "toSqlLiteral (VString v) d = (case escapeSqlLiteral v of
      Inl e \<Rightarrow> Inl e
    | Inr t \<Rightarrow> Inr (CHR 0x27 # t @ [CHR 0x27]))"
| "toSqlLiteral VOther d = Inl VALIDATION_ERROR"

definition is_space :: "char \<Rightarrow> bool" where
  "is_space c \<longleftrightarrow> c \<in> {CHR '' '', CHR 0x09, CHR 0x0A, CHR 0x0B, CHR 0x0C, CHR 0x0D}"

definition trim :: "string \<Rightarrow> string" where
  "trim s = rev (dropWhile is_space (rev (dropWhile is_space s)))"

text \<open>The loop over \<^verbatim>\<open>values\<close>: \<open>strings\<close> has one more element, the text after the last value.\<close>
fun inline_loop :: "string list \<Rightarrow> bind_value list \<Rightarrow> dialect \<Rightarrow> string \<Rightarrow> OrmErrorCode + string" where
  "inline_loop (s # strings) (v # values) d out = (case toSqlLiteral v d of
      Inl e \<Rightarrow> Inl e
    | Inr t \<Rightarrow> inline_loop strings values d (out @ t @ s))"
| "inline_loop strings _ d out = Inr out"

definition inlineSql :: "string list \<Rightarrow> bind_value list \<Rightarrow> dialect \<Rightarrow> OrmErrorCode + string" where
  "inlineSql strings values d = (case strings of
      [] \<Rightarrow> Inr []
    | s # rest \<Rightarrow> (case inline_loop rest values d s of Inl e \<Rightarrow> Inl e | Inr out \<Rightarrow> Inr (trim out)))"

subsection \<open>Savepoint names and isolation levels\<close>

definition is_name_start :: "char \<Rightarrow> bool" where
  "is_name_start c \<longleftrightarrow> is_lower c \<or> is_upper c \<or> c = CHR ''_''"

definition is_name_char :: "char \<Rightarrow> bool" where
  "is_name_char c \<longleftrightarrow> is_name_start c \<or> is_digit c"

text \<open>The pattern \<^verbatim>\<open>/^[a-zA-Z_][a-zA-Z0-9_]*$/\<close>.\<close>
fun savepoint_pattern :: "string \<Rightarrow> bool" where
  "savepoint_pattern [] = False"
| "savepoint_pattern (c # cs) = (is_name_start c \<and> list_all is_name_char cs)"

definition validateSavepointName :: "string \<Rightarrow> OrmErrorCode + unit" where
  "validateSavepointName name =
     (if savepoint_pattern name then Inr () else Inl INVALID_SAVEPOINT_NAME)"

definition VALID_LEVELS :: "string list" where
  "VALID_LEVELS = [''READ UNCOMMITTED'', ''READ COMMITTED'', ''REPEATABLE READ'', ''SERIALIZABLE'']"

definition validateIsolationLevel :: "string \<Rightarrow> OrmErrorCode + unit" where
  "validateIsolationLevel level = (if level \<in> set VALID_LEVELS then Inr () else Inl INVALID_CONFIG)"

subsection \<open>Snake case\<close>

text \<open>\<^verbatim>\<open>str.replace(/([a-z])([A-Z])/g, "$1_$2")\<close>: matches do not overlap.\<close>
fun insert_underscores :: "string \<Rightarrow> string" where
  "insert_underscores (a # b # cs) =
     (if is_lower a \<and> is_upper b then a # CHR ''_'' # b # insert_underscores cs
      else a # insert_underscores (b # cs))"
| "insert_underscores cs = cs"

definition camelToSnakeCase :: "string \<Rightarrow> string" where
  "camelToSnakeCase str = toLowerCase (insert_underscores str)"

subsection \<open>Edit distance\<close>

text \<open>
  One row of the two-row table: \<open>prev\<close> starts at \<^verbatim>\<open>prev[j-1]\<close>, \<open>left\<close> is \<^verbatim>\<open>curr[j-1]\<close>; the
  result is \<^verbatim>\<open>curr[j..]\<close>.
\<close>
fun edit_row :: "char \<Rightarrow> string \<Rightarrow> nat list \<Rightarrow> nat \<Rightarrow> nat list" where
  "edit_row c (y # ys) (diag # up # prev) left =
     (let cost = (if c = y then 0 else 1);
          cell = min (min (up + 1) (left + 1)) (diag + cost)
      in cell # edit_row c ys (up # prev) cell)"
| "edit_row c _ _ _ = []"

text \<open>The outer loop over \<^verbatim>\<open>a\<close>, with \<open>i\<close> the index of the row and \<open>prev\<close> the row before it.\<close>
fun edit_rows :: "string \<Rightarrow> string \<Rightarrow> nat \<Rightarrow> nat list \<Rightarrow> nat list" where
  "edit_rows [] b i prev = prev"
| "edit_rows (c # cs) b i prev = edit_rows cs b (Suc i) (Suc i # edit_row c b prev (Suc i))"

text \<open>\<^verbatim>\<open>editDistance\<close> of \<^verbatim>\<open>closestIdentifier.ts\<close>.\<close>
definition editDistance :: "string \<Rightarrow> string \<Rightarrow> nat" where
  "editDistance a b = edit_rows a b 0 [0..<length b + 1] ! length b"

text \<open>\<^verbatim>\<open>editDistance\<close> of \<^verbatim>\<open>columnRenameMatch.ts\<close>, which has three shortcuts first.\<close>
definition editDistance_short :: "string \<Rightarrow> string \<Rightarrow> nat" where
  "editDistance_short a b =
     (if a = b then 0 else if length a = 0 then length b else if length b = 0 then length a
      else edit_rows a b 0 [0..<length b + 1] ! length b)"

subsection \<open>Closest identifier\<close>

text \<open>
  The loop over the candidates, with the best candidate so far and its distance (\<open>None\<close> stands
  for infinity); the result is \<open>Inl\<close> for the early return of a case-only mismatch.
\<close>
fun closest_loop :: "string \<Rightarrow> string list \<Rightarrow> (string \<times> nat) option \<Rightarrow> string + (string \<times> nat) option" where
  "closest_loop lowered [] best = Inr best"
| "closest_loop lowered (candidate # cs) best =
     (if length candidate = 0 then closest_loop lowered cs best
      else if toLowerCase candidate = lowered then Inl candidate
      else let distance = editDistance lowered (toLowerCase candidate)
           in closest_loop lowered cs
                (case best of
                   None \<Rightarrow> Some (candidate, distance)
                 | Some (b, bd) \<Rightarrow> if distance < bd then Some (candidate, distance) else Some (b, bd)))"

definition closestIdentifier :: "string \<Rightarrow> string list \<Rightarrow> string option" where
  "closestIdentifier name candidates =
     (case closest_loop (toLowerCase name) candidates None of
        Inl candidate \<Rightarrow> Some candidate
      | Inr None \<Rightarrow> None
      | Inr (Some (best, bestDistance)) \<Rightarrow>
          if bestDistance \<le> max 1 (length name div 3) then Some best else None)"

subsection \<open>Column renames\<close>

definition RENAME_SIMILARITY_THRESHOLD :: rat where
  "RENAME_SIMILARITY_THRESHOLD = 7 / 10"

definition MIN_CONTAINMENT_LENGTH :: nat where
  "MIN_CONTAINMENT_LENGTH = 3"

definition is_separator :: "char \<Rightarrow> bool" where
  "is_separator c \<longleftrightarrow> c \<in> {CHR '' '', CHR 0x09, CHR 0x0A, CHR 0x0B, CHR 0x0C, CHR 0x0D, CHR ''_'', CHR ''-''}"

definition normalizeColumnName :: "string \<Rightarrow> string" where
  "normalizeColumnName name = filter (\<lambda>c. \<not> is_separator c) (toLowerCase name)"

definition columnNameSimilarity :: "string \<Rightarrow> string \<Rightarrow> rat" where
  "columnNameSimilarity a b =
     (let na = normalizeColumnName a; nb = normalizeColumnName b
      in if na = nb then 1
         else let longest = max (length na) (length nb)
              in if longest = 0 then 1
                 else 1 - of_nat (editDistance_short na nb) / of_nat longest)"

definition columnNamesLookRenamed :: "string \<Rightarrow> string \<Rightarrow> bool" where
  "columnNamesLookRenamed a b =
     (let na = normalizeColumnName a; nb = normalizeColumnName b
      in if na = nb then True
         else let (shorter, longer) = (if length na \<le> length nb then (na, nb) else (nb, na))
              in if MIN_CONTAINMENT_LENGTH \<le> length shorter \<and> sublist shorter longer then True
                 else RENAME_SIMILARITY_THRESHOLD \<le> columnNameSimilarity a b)"

subsection \<open>What a database reads back\<close>

text \<open>
  SQL's LIKE with an ESCAPE character \<open>e\<close>: the escape takes the next character literally, a
  percent sign matches any text, an underscore any one character.
\<close>
fun like_match :: "char \<Rightarrow> string \<Rightarrow> string \<Rightarrow> bool" where
  "like_match e [] s = (s = [])"
| "like_match e (p # ps) [] =
     (if p = e then False else if p = CHR ''%'' then like_match e ps [] else False)"
| "like_match e (p # ps) (c # cs) =
     (if p = e then (case ps of [] \<Rightarrow> False | q # qs \<Rightarrow> q = c \<and> like_match e qs cs)
      else if p = CHR ''%'' then like_match e ps (c # cs) \<or> like_match e (p # ps) cs
      else if p = CHR ''_'' then like_match e ps cs
      else p = c \<and> like_match e ps cs)"

lemma escapeLikeValue_Nil [simp]: "escapeLikeValue [] = []"
  and escapeLikeValue_Cons: "escapeLikeValue (c # v) =
    (if c = CHR 0x5C \<or> c = CHR ''%'' \<or> c = CHR ''_'' then LIKE_ESCAPE_CHAR # c # escapeLikeValue v
     else c # escapeLikeValue v)"
  by (simp_all add: escapeLikeValue_def)

lemma like_match_escaped:
  "like_match LIKE_ESCAPE_CHAR (escapeLikeValue v @ p) s \<longleftrightarrow>
     (\<exists>t. s = v @ t \<and> like_match LIKE_ESCAPE_CHAR p t)"
proof (induction v arbitrary: s)
  case Nil
  then show ?case by simp
next
  case (Cons c v)
  show ?case
    by (cases s) (auto simp: escapeLikeValue_Cons LIKE_ESCAPE_CHAR_def Cons.IH[unfolded LIKE_ESCAPE_CHAR_def])
qed

lemma like_match_percent:
  "like_match LIKE_ESCAPE_CHAR (CHR ''%'' # p) s \<longleftrightarrow> (\<exists>u t. s = u @ t \<and> like_match LIKE_ESCAPE_CHAR p t)"
proof (induction s)
  case Nil
  then show ?case by (simp add: LIKE_ESCAPE_CHAR_def)
next
  case (Cons c s)
  have "like_match LIKE_ESCAPE_CHAR (CHR ''%'' # p) (c # s) \<longleftrightarrow>
     like_match LIKE_ESCAPE_CHAR p (c # s) \<or> like_match LIKE_ESCAPE_CHAR (CHR ''%'' # p) s"
    by (simp add: LIKE_ESCAPE_CHAR_def)
  also have "\<dots> \<longleftrightarrow> (\<exists>u t. c # s = u @ t \<and> like_match LIKE_ESCAPE_CHAR p t)"
    unfolding Cons.IH by (metis Cons_eq_append_conv append_Cons append_Nil)
  finally show ?case .
qed

lemma like_match_all: "like_match LIKE_ESCAPE_CHAR ''%'' s"
  using like_match_percent[of "[]" s] by simp

text \<open>
  A quoted literal as MySQL reads it (backslash escapes on), after its opening quote: the value
  and the text that follows the closing quote.
\<close>
definition mysql_unescape :: "char \<Rightarrow> char" where
  "mysql_unescape c = (if c = CHR ''n'' then CHR 0x0A else if c = CHR ''t'' then CHR 0x09
     else if c = CHR ''r'' then CHR 0x0D else if c = CHR ''b'' then CHR 0x08
     else if c = CHR ''0'' then CHR 0x00 else if c = CHR ''Z'' then CHR 0x1A else c)"

fun read_mysql :: "string \<Rightarrow> (string \<times> string) option" where
  "read_mysql [] = None"
| "read_mysql (c # cs) =
     (if c = CHR 0x27 then (case cs of
          [] \<Rightarrow> Some ([], [])
        | d # ds \<Rightarrow> if d = CHR 0x27 then map_option (\<lambda>(v, r). (CHR 0x27 # v, r)) (read_mysql ds)
                    else Some ([], d # ds))
      else if c = CHR 0x5C then (case cs of
          [] \<Rightarrow> None
        | d # ds \<Rightarrow> map_option (\<lambda>(v, r). (mysql_unescape d # v, r)) (read_mysql ds))
      else map_option (\<lambda>(v, r). (c # v, r)) (read_mysql cs))"

text \<open>The same literal where a backslash is an ordinary character (PostgreSQL, SQLite).\<close>
fun read_standard :: "string \<Rightarrow> (string \<times> string) option" where
  "read_standard [] = None"
| "read_standard (c # cs) =
     (if c = CHR 0x27 then (case cs of
          [] \<Rightarrow> Some ([], [])
        | d # ds \<Rightarrow> if d = CHR 0x27 then map_option (\<lambda>(v, r). (CHR 0x27 # v, r)) (read_standard ds)
                    else Some ([], d # ds))
      else map_option (\<lambda>(v, r). (c # v, r)) (read_standard cs))"

definition escape_chars :: "string \<Rightarrow> string" where
  "escape_chars v = concat (map (\<lambda>c. if c = CHR 0x27 \<or> c = CHR 0x5C then [c, c] else [c]) v)"

definition double_backslashes :: "string \<Rightarrow> string" where
  "double_backslashes v = concat (map (\<lambda>c. if c = CHR 0x5C then [c, c] else [c]) v)"

lemma escapeSqlLiteral_eq:
  "escapeSqlLiteral v = (if CHR 0x00 \<in> set v then Inl VALIDATION_ERROR else Inr (escape_chars v))"
proof -
  have "concat (map (\<lambda>c. if c = CHR 0x27 then [c, c] else [c])
          (concat (map (\<lambda>c. if c = CHR 0x5C then [c, c] else [c]) v))) = escape_chars v"
    by (induction v) (auto simp: escape_chars_def)
  then show ?thesis by (simp add: escapeSqlLiteral_def)
qed

lemma read_mysql_escaped:
  "(rest = [] \<or> hd rest \<noteq> CHR 0x27) \<Longrightarrow> read_mysql (escape_chars v @ CHR 0x27 # rest) = Some (v, rest)"
  by (induction v) (auto simp: escape_chars_def mysql_unescape_def split: list.splits)

lemma read_standard_escaped:
  "(rest = [] \<or> hd rest \<noteq> CHR 0x27) \<Longrightarrow>
     read_standard (escape_chars v @ CHR 0x27 # rest) = Some (double_backslashes v, rest)"
  by (induction v) (auto simp: escape_chars_def double_backslashes_def split: list.splits)

subsection \<open>Edit scripts\<close>

text \<open>
  The reference for the edit distance: \<open>align a b n\<close> says that \<open>n\<close> single-character insertions,
  deletions and substitutions turn \<open>a\<close> into \<open>b\<close>.
\<close>
inductive align :: "string \<Rightarrow> string \<Rightarrow> nat \<Rightarrow> bool" where
  align_empty: "align [] [] 0"
| align_delete: "align a b n \<Longrightarrow> align (x # a) b (Suc n)"
| align_insert: "align a b n \<Longrightarrow> align a (y # b) (Suc n)"
| align_pair: "align a b n \<Longrightarrow> align (x # a) (y # b) (n + (if x = y then 0 else 1))"

inductive_cases align_NilNilE: "align [] [] n"
inductive_cases align_NilE: "align [] (y # b) n"
inductive_cases align_ConsNilE: "align (x # a) [] n"
inductive_cases align_ConsConsE: "align (x # a) (y # b) n"

text \<open>The distance by recursion, and that it is the least script length.\<close>
fun lev :: "string \<Rightarrow> string \<Rightarrow> nat" where
  "lev [] b = length b"
| "lev (x # a) [] = Suc (length a)"
| "lev (x # a) (y # b) =
     min (min (lev (x # a) b + 1) (lev a (y # b) + 1)) (lev a b + (if x = y then 0 else 1))"

lemma align_all_insert: "align [] b (length b)"
  by (induction b) (auto intro: align.intros)

lemma align_all_delete: "align a [] (length a)"
  by (induction a) (auto intro: align.intros)

lemma align_lev: "align a b (lev a b)"
proof (induction a b rule: lev.induct)
  case (1 b)
  then show ?case by (simp add: align_all_insert)
next
  case (2 x a)
  then show ?case using align_all_delete[of "x # a"] by simp
next
  case (3 x a y b)
  show ?case
    using align_insert[OF "3.IH"(1), of y] align_delete[OF "3.IH"(2), of x] align_pair[OF "3.IH"(3), of x y]
    by (auto simp: min_def)
qed

lemma lev_Nil_right [simp]: "lev a [] = length a"
  by (cases a) auto

lemma lev_Cons_le: "lev (x # a) b \<le> Suc (lev a b)"
  by (cases b) auto

lemma lev_Cons_le2: "lev a (y # b) \<le> Suc (lev a b)"
  by (cases a) auto

lemma lev_least: "align a b n \<Longrightarrow> lev a b \<le> n"
proof (induction rule: align.induct)
  case (align_delete a b n x)
  then show ?case using lev_Cons_le[of x a b] by linarith
next
  case (align_insert a b n y)
  then show ?case using lev_Cons_le2[of a y b] by linarith
qed (auto simp: min_def)

lemma align_sym: "align a b n \<Longrightarrow> align b a n"
proof (induction rule: align.induct)
  case (align_pair a b n x y)
  then show ?case using align.align_pair[of b a n y x] by (simp add: eq_commute)
qed (auto intro: align.intros)

lemma align_snoc_delete: "align a b n \<Longrightarrow> align (a @ [x]) b (Suc n)"
proof (induction rule: align.induct)
  case align_empty
  then show ?case using align.align_delete[OF align.align_empty, of x] by simp
next
  case (align_pair a b n u v)
  then show ?case using align.align_pair[OF align_pair.IH, of u v] by simp
qed (auto intro: align.intros)

lemma align_snoc_pair: "align a b n \<Longrightarrow> align (a @ [x]) (b @ [y]) (n + (if x = y then 0 else 1))"
proof (induction rule: align.induct)
  case align_empty
  then show ?case using align.align_pair[OF align.align_empty, of x y] by simp
next
  case (align_delete a b n z)
  then show ?case using align.align_delete[OF align_delete.IH, of z] by simp
next
  case (align_insert a b n z)
  then show ?case using align.align_insert[OF align_insert.IH, of z] by simp
next
  case (align_pair a b n u v)
  then show ?case using align.align_pair[OF align_pair.IH, of u v] by (simp add: ac_simps)
qed

lemma align_rev: "align a b n \<Longrightarrow> align (rev a) (rev b) n"
proof (induction rule: align.induct)
  case align_empty
  then show ?case by (simp add: align.align_empty)
next
  case (align_delete a b n x)
  then show ?case by (simp add: align_snoc_delete)
next
  case (align_insert a b n y)
  then show ?case using align_snoc_delete[OF align_sym[OF align_insert.IH], of y] align_sym by fastforce
next
  case (align_pair a b n x y)
  then show ?case using align_snoc_pair[OF align_pair.IH] by simp
qed

lemma lev_unique: "align a b n \<Longrightarrow> (\<And>m. align a b m \<Longrightarrow> n \<le> m) \<Longrightarrow> lev a b = n"
  using align_lev lev_least by (meson le_antisym)

lemma lev_sym: "lev a b = lev b a"
  by (rule lev_unique) (auto intro: align_sym align_lev lev_least)

lemma lev_rev: "lev (rev a) (rev b) = lev a b"
proof (rule lev_unique)
  show "align (rev a) (rev b) (lev a b)" by (rule align_rev[OF align_lev])
  fix m assume "align (rev a) (rev b) m"
  from align_rev[OF this] show "lev a b \<le> m" by (simp add: lev_least)
qed

lemma lev_same [simp]: "lev a a = 0"
  by (induction a) auto

lemma lev_zero: "lev a b = 0 \<Longrightarrow> a = b"
  by (induction a b rule: lev.induct) (auto simp: min_def split: if_splits)

lemma lev_le_max: "lev a b \<le> max (length a) (length b)"
  by (induction a b rule: lev.induct) (auto simp: min_def max_def)

subsection \<open>The two-row table computes the distance\<close>

text \<open>The table is over prefixes: cell \<open>(i, j)\<close> is the distance of the first \<open>i\<close> and \<open>j\<close> characters.\<close>
definition cell :: "string \<Rightarrow> string \<Rightarrow> nat" where
  "cell a b = lev (rev a) (rev b)"

lemma cell_snoc: "cell (a @ [x]) (b @ [y]) =
    min (min (cell a (b @ [y]) + 1) (cell (a @ [x]) b + 1)) (cell a b + (if x = y then 0 else 1))"
  by (auto simp: cell_def min_def)

lemma cell_Nil_right: "cell a [] = length a"
  by (simp add: cell_def)

lemma edit_row_cells:
  "edit_row x ys (map (\<lambda>k. cell a (zs @ take k ys)) [0..<Suc (length ys)]) (cell (a @ [x]) zs) =
     map (\<lambda>k. cell (a @ [x]) (zs @ take k ys)) [1..<Suc (length ys)]"
proof (induction ys arbitrary: zs)
  case Nil
  then show ?case by simp
next
  case (Cons y ys)
  have shift: "map (\<lambda>k. f (take k (y # ys))) [1..<Suc (Suc (length ys))] =
      map (\<lambda>k. f (y # take k ys)) [0..<Suc (length ys)]" for f :: "string \<Rightarrow> nat"
    by (simp only: map_Suc_upt[symmetric, of 0, unfolded One_nat_def[symmetric]] map_map) simp
  have head: "map (\<lambda>k. cell a (zs @ take k (y # ys))) [0..<Suc (length (y # ys))] =
      cell a zs # map (\<lambda>k. cell a ((zs @ [y]) @ take k ys)) [0..<Suc (length ys)]"
    using shift[of "\<lambda>t. cell a (zs @ t)"] by (simp add: upt_conv_Cons del: upt_Suc)
  define M where "M = map (\<lambda>k. cell a ((zs @ [y]) @ take k ys)) [0..<Suc (length ys)]"
  obtain M' where M': "M = cell a (zs @ [y]) # M'"
    by (simp add: M_def upt_conv_Cons del: upt_Suc)
  have last: "map (\<lambda>k. cell (a @ [x]) (zs @ take k (y # ys))) [1..<Suc (length (y # ys))] =
      cell (a @ [x]) (zs @ [y]) # map (\<lambda>k. cell (a @ [x]) ((zs @ [y]) @ take k ys)) [1..<Suc (length ys)]"
    using shift[of "\<lambda>t. cell (a @ [x]) (zs @ t)"] by (simp add: upt_conv_Cons del: upt_Suc)
  have "edit_row x (y # ys) (cell a zs # M) (cell (a @ [x]) zs) =
      cell (a @ [x]) (zs @ [y]) # edit_row x ys M (cell (a @ [x]) (zs @ [y]))"
    unfolding M' edit_row.simps Let_def cell_snoc by simp
  with Cons.IH[of "zs @ [y]", folded M_def] show ?case
    unfolding head last M_def[symmetric] by simp
qed

lemma edit_rows_cells:
  "edit_rows cs b (length a) (map (\<lambda>k. cell a (take k b)) [0..<Suc (length b)]) =
     map (\<lambda>k. cell (a @ cs) (take k b)) [0..<Suc (length b)]"
proof (induction cs arbitrary: a)
  case Nil
  then show ?case by simp
next
  case (Cons c cs)
  have "Suc (length a) # edit_row c b (map (\<lambda>k. cell a (take k b)) [0..<Suc (length b)]) (Suc (length a)) =
      map (\<lambda>k. cell (a @ [c]) (take k b)) [0..<Suc (length b)]"
    using edit_row_cells[of c b a "[]"]
    by (simp add: cell_Nil_right upt_conv_Cons[of 0] del: upt_Suc)
  with Cons.IH[of "a @ [c]"] show ?case by simp
qed

lemma edit_table: "edit_rows a b 0 [0..<length b + 1] ! length b = lev a b"
proof -
  have "[0..<length b + 1] = map (\<lambda>k. cell [] (take k b)) [0..<Suc (length b)]"
    by (rule nth_equalityI) (auto simp: cell_def simp del: upt_Suc)
  then have "edit_rows a b 0 [0..<length b + 1] = map (\<lambda>k. cell a (take k b)) [0..<Suc (length b)]"
    using edit_rows_cells[of a b "[]"] by (simp only: list.size append_Nil)
  then show ?thesis by (simp add: cell_def lev_rev nth_append)
qed

lemma editDistance_lev: "editDistance a b = lev a b"
  by (simp only: editDistance_def edit_table)

lemma editDistance_short_lev: "editDistance_short a b = lev a b"
  unfolding editDistance_short_def edit_table by auto

subsection \<open>Properties\<close>

text \<open>A LIKE pattern that starts with an escaped value matches exactly the texts that start
  with that value, wildcards and backslashes in it taken literally; so an escaped value alone
  matches only itself, and between two percent signs it matches the texts that contain it.\<close>
theorem escapeLikeValue_literal:
  "like_match LIKE_ESCAPE_CHAR (escapeLikeValue v @ p) s =
     (\<exists>t. s = v @ t \<and> like_match LIKE_ESCAPE_CHAR p t) \<and>
   like_match LIKE_ESCAPE_CHAR (escapeLikeValue v) s = (s = v) \<and>
   like_match LIKE_ESCAPE_CHAR (''%'' @ escapeLikeValue v @ ''%'') s = sublist v s"
proof -
  have "like_match LIKE_ESCAPE_CHAR (escapeLikeValue v) s = (s = v)"
    using like_match_escaped[of v "[]" s] by simp
  moreover have "like_match LIKE_ESCAPE_CHAR (''%'' @ escapeLikeValue v @ ''%'') s = sublist v s"
    by (auto simp: like_match_percent like_match_escaped like_match_all sublist_def)
  ultimately show ?thesis by (simp add: like_match_escaped)
qed

text \<open>A value escaped for a DDL literal is read back by MySQL as the value, and the text after
  the closing quote is untouched, so no value can end the literal early. Where a backslash is an
  ordinary character the literal also ends where it should, but every backslash comes back doubled.\<close>
theorem escapeSqlLiteral_roundtrip:
  assumes "escapeSqlLiteral v = Inr e" and "rest = [] \<or> hd rest \<noteq> CHR 0x27"
  shows "read_mysql (e @ CHR 0x27 # rest) = Some (v, rest) \<and>
    read_standard (e @ CHR 0x27 # rest) = Some (double_backslashes v, rest)"
proof -
  have "e = escape_chars v" using assms(1) by (simp add: escapeSqlLiteral_eq split: if_splits)
  then show ?thesis using read_mysql_escaped[OF assms(2)] read_standard_escaped[OF assms(2)] by simp
qed

text \<open>Both edit-distance routines compute the length of a shortest script of single-character
  insertions, deletions and substitutions.\<close>
theorem editDistance_minimal:
  "align a b (editDistance a b) \<and> (\<forall>n. align a b n \<longrightarrow> editDistance a b \<le> n) \<and>
   editDistance_short a b = editDistance a b"
  by (simp add: editDistance_lev editDistance_short_lev align_lev lev_least)

text \<open>A string bound in a generated-column expression is inlined as one quoted literal. MySQL
  reads the string back; PostgreSQL and SQLite, where the literal has no escape prefix, read it
  with every backslash doubled, so there they see another string whenever it holds a backslash.\<close>
theorem toSqlLiteral_reading:
  assumes "toSqlLiteral (VString v) d = Inr t"
  shows "t = CHR 0x27 # tl t \<and> read_mysql (tl t) = Some (v, []) \<and>
    read_standard (tl t) = Some (double_backslashes v, []) \<and>
    (double_backslashes v = v \<longleftrightarrow> CHR 0x5C \<notin> set v)"
proof -
  obtain e where e: "escapeSqlLiteral v = Inr e" "t = CHR 0x27 # e @ [CHR 0x27]"
    using assms by (auto split: sum.splits)
  have len: "length (double_backslashes w) = length w + length (filter (\<lambda>c. c = CHR 0x5C) w)" for w
    by (induction w) (auto simp: double_backslashes_def)
  have "double_backslashes v = v \<longleftrightarrow> CHR 0x5C \<notin> set v"
  proof
    assume "double_backslashes v = v"
    then have "length (filter (\<lambda>c. c = CHR 0x5C) v) = 0" using len[of v] by simp
    then show "CHR 0x5C \<notin> set v" by (auto simp: filter_empty_conv)
  next
    show "CHR 0x5C \<notin> set v \<Longrightarrow> double_backslashes v = v"
      by (induction v) (auto simp: double_backslashes_def)
  qed
  moreover have "e = escape_chars v" using e(1) by (simp add: escapeSqlLiteral_eq split: if_splits)
  ultimately show ?thesis
    using e(2) read_mysql_escaped[of "[]" v] read_standard_escaped[of "[]" v] by simp
qed

lemma closest_loop_Inl:
  "closest_loop lo cs best = Inl c \<Longrightarrow> c \<in> set cs \<and> toLowerCase c = lo"
  by (induction lo cs best rule: closest_loop.induct) (auto simp: Let_def split: if_splits)

definition best_ok :: "string \<Rightarrow> (string \<times> nat) option \<Rightarrow> bool" where
  "best_ok lo best \<longleftrightarrow> (\<forall>b d. best = Some (b, d) \<longrightarrow> d = editDistance lo (toLowerCase b))"

lemma closest_loop_Inr:
  "closest_loop lo cs best = Inr r \<Longrightarrow> best_ok lo best \<Longrightarrow> best_ok lo r \<and>
     (\<forall>c\<in>set cs. c \<noteq> [] \<longrightarrow> (\<exists>b d. r = Some (b, d) \<and> d \<le> editDistance lo (toLowerCase c))) \<and>
     (\<forall>b d. best = Some (b, d) \<longrightarrow> (\<exists>b' d'. r = Some (b', d') \<and> d' \<le> d)) \<and>
     (\<forall>b d. r = Some (b, d) \<longrightarrow> b \<in> set cs \<or> best = r)"
proof (induction lo cs best rule: closest_loop.induct)
  case (1 lowered best)
  then show ?case by simp
next
  case (2 lowered candidate cs best)
  show ?case
  proof (cases "candidate = []")
    case True
    with 2 show ?thesis by auto
  next
    case False
    let ?d = "editDistance lowered (toLowerCase candidate)"
    let ?best = "case best of None \<Rightarrow> Some (candidate, ?d)
      | Some (b, bd) \<Rightarrow> if ?d < bd then Some (candidate, ?d) else Some (b, bd)"
    from False "2.prems"(1) have neq: "toLowerCase candidate \<noteq> lowered"
      by (auto split: if_splits)
    have ok: "best_ok lowered ?best"
      using "2.prems"(2) by (auto simp: best_ok_def split: option.splits if_splits)
    have step: "closest_loop lowered cs ?best = Inr r"
      using "2.prems"(1) False neq by (simp add: Let_def)
    from "2.IH"(2)[OF _ neq refl step ok] False
    have IH: "best_ok lowered r" "\<forall>c\<in>set cs. c \<noteq> [] \<longrightarrow> (\<exists>b d. r = Some (b, d) \<and> d \<le> editDistance lowered (toLowerCase c))"
      "\<forall>b d. ?best = Some (b, d) \<longrightarrow> (\<exists>b' d'. r = Some (b', d') \<and> d' \<le> d)"
      "\<forall>b d. r = Some (b, d) \<longrightarrow> b \<in> set cs \<or> ?best = r" by auto
    have "\<exists>b d. ?best = Some (b, d) \<and> d \<le> ?d" "\<forall>b d. best = Some (b, d) \<longrightarrow> (\<exists>b' d'. ?best = Some (b', d') \<and> d' \<le> d)"
      by (auto split: option.splits)
    with IH show ?thesis
      by (auto split: option.splits if_splits)
  qed
qed

definition typo_distance :: "string \<Rightarrow> string \<Rightarrow> nat" where
  "typo_distance name c = editDistance (toLowerCase name) (toLowerCase c)"

definition typo_threshold :: "string \<Rightarrow> nat" where
  "typo_threshold name = max 1 (length name div 3)"

text \<open>The suggestion of a misspelt identifier is a non-empty candidate at the least edit distance
  (letter case ignored), and within the typo threshold; there is no suggestion only when every
  candidate is farther away than that.\<close>
theorem closestIdentifier_spec:
  "case closestIdentifier name candidates of
      Some b \<Rightarrow> b \<in> set candidates \<and> typo_distance name b \<le> typo_threshold name \<and>
        (\<forall>c\<in>set candidates. c \<noteq> [] \<longrightarrow> typo_distance name b \<le> typo_distance name c)
    | None \<Rightarrow> (\<forall>c\<in>set candidates. c \<noteq> [] \<longrightarrow> typo_threshold name < typo_distance name c)"
proof (cases "closest_loop (toLowerCase name) candidates None")
  case (Inl c)
  from closest_loop_Inl[OF Inl] have "c \<in> set candidates" "typo_distance name c = 0"
    by (auto simp: typo_distance_def editDistance_lev)
  with Inl show ?thesis by (simp add: closestIdentifier_def)
next
  case (Inr r)
  have "best_ok (toLowerCase name) None" by (simp add: best_ok_def)
  note loop = closest_loop_Inr[OF Inr this]
  show ?thesis
  proof (cases r)
    case None
    with loop Inr show ?thesis by (auto simp: closestIdentifier_def)
  next
    case (Some bd)
    obtain b d where bd: "bd = (b, d)" by fastforce
    with loop Some have "d = typo_distance name b" "b \<in> set candidates"
      "\<forall>c\<in>set candidates. c \<noteq> [] \<longrightarrow> d \<le> typo_distance name c"
      by (auto simp: best_ok_def typo_distance_def)
    with Inr Some bd show ?thesis
      by (auto simp: closestIdentifier_def typo_threshold_def)
  qed
qed

lemma toLowerCase_idem: "lower_char (lower_char c) = lower_char c"
proof (cases "is_upper c")
  case True
  then have "65 \<le> (of_char c :: nat)" "(of_char c :: nat) \<le> 90"
    by (auto simp: is_upper_def less_eq_char_def)
  then have "\<not> is_upper (char_of (of_char c + 32 :: nat))"
    by (simp add: is_upper_def less_eq_char_def)
  with True show ?thesis by (simp add: lower_char_def)
qed (simp add: lower_char_def)

lemma is_separator_code: "is_separator c \<Longrightarrow> (of_char c :: nat) \<in> {32, 9, 10, 11, 12, 13, 95, 45}"
  by (auto simp: is_separator_def)

lemma lower_char_separator: "is_separator (lower_char c) = is_separator c"
proof (cases "is_upper c")
  case True
  then have c: "65 \<le> (of_char c :: nat)" "(of_char c :: nat) \<le> 90"
    by (auto simp: is_upper_def less_eq_char_def)
  have "of_char (char_of (of_char c + 32 :: nat)) = (of_char c + 32 :: nat)"
    using c by simp
  with c have "\<not> is_separator (char_of (of_char c + 32 :: nat))" "\<not> is_separator c"
    by (auto dest!: is_separator_code)
  with True show ?thesis by (simp add: lower_char_def)
qed (simp add: lower_char_def)

lemma normalize_idem: "normalizeColumnName (normalizeColumnName a) = normalizeColumnName a"
  by (induction a) (auto simp: normalizeColumnName_def toLowerCase_def toLowerCase_idem lower_char_separator)

lemma sublist_full_length: "sublist xs ys \<Longrightarrow> length xs = length ys \<Longrightarrow> xs = ys"
  by (auto simp: sublist_def)

lemma columnNameSimilarity_sym: "columnNameSimilarity a b = columnNameSimilarity b a"
  by (auto simp: columnNameSimilarity_def Let_def editDistance_short_lev lev_sym max.commute)

lemma columnNameSimilarity_bounds: "0 \<le> columnNameSimilarity a b \<and> columnNameSimilarity a b \<le> 1"
proof -
  let ?a = "normalizeColumnName a" and ?b = "normalizeColumnName b"
  have "lev ?a ?b \<le> max (length ?a) (length ?b)" by (rule lev_le_max)
  then have "of_nat (lev ?a ?b) \<le> (of_nat (max (length ?a) (length ?b)) :: rat)"
    by (simp only: of_nat_le_iff)
  then show ?thesis
    by (auto simp: columnNameSimilarity_def Let_def editDistance_short_lev divide_le_eq_1 simp del: of_nat_max)
qed

lemma columnNameSimilarity_one:
  "columnNameSimilarity a b = 1 \<longleftrightarrow> normalizeColumnName a = normalizeColumnName b"
  using lev_zero[of "normalizeColumnName a" "normalizeColumnName b"]
  by (auto simp: columnNameSimilarity_def Let_def editDistance_short_lev)

text \<open>Whether two column names read as one renamed column does not depend on which is the old
  one, nor on letter case and separators; the similarity it rests on lies between 0 and 1 and is 1
  exactly for names that differ only in those.\<close>
theorem columnNamesLookRenamed_stable:
  "columnNamesLookRenamed a b = columnNamesLookRenamed b a \<and>
   columnNamesLookRenamed (normalizeColumnName a) b = columnNamesLookRenamed a b \<and>
   0 \<le> columnNameSimilarity a b \<and> columnNameSimilarity a b \<le> 1 \<and>
   (columnNameSimilarity a b = 1) = (normalizeColumnName a = normalizeColumnName b)"
proof -
  have "columnNamesLookRenamed a b = columnNamesLookRenamed b a"
    using columnNameSimilarity_sym[of a b]
    by (auto simp: columnNamesLookRenamed_def Let_def dest: sublist_full_length split: if_splits)
  moreover have "columnNamesLookRenamed (normalizeColumnName a) b = columnNamesLookRenamed a b"
    by (simp add: columnNamesLookRenamed_def columnNameSimilarity_def normalize_idem)
  ultimately show ?thesis
    using columnNameSimilarity_bounds columnNameSimilarity_one by simp
qed

subsection \<open>Witnesses\<close>

theorem escapeSqlLiteral_roundtrip_witness:
  "read_mysql (''it'' @ [CHR 0x27, CHR 0x27, CHR 0x5C, CHR 0x5C] @ [CHR 0x27] @ '', 1'') =
     Some (''it'' @ [CHR 0x27, CHR 0x5C], '', 1'')"
proof -
  have "escapeSqlLiteral (''it'' @ [CHR 0x27, CHR 0x5C]) = Inr (''it'' @ [CHR 0x27, CHR 0x27, CHR 0x5C, CHR 0x5C])"
    by (simp add: escapeSqlLiteral_def)
  from escapeSqlLiteral_roundtrip[OF this, of "'', 1''"] show ?thesis by simp
qed

theorem toSqlLiteral_reading_witness:
  "toSqlLiteral (VString [CHR ''a'', CHR 0x5C]) Postgres = Inr [CHR 0x27, CHR ''a'', CHR 0x5C, CHR 0x5C, CHR 0x27] \<and>
   read_standard [CHR ''a'', CHR 0x5C, CHR 0x5C, CHR 0x27] = Some ([CHR ''a'', CHR 0x5C, CHR 0x5C], [])"
proof -
  have t: "toSqlLiteral (VString [CHR ''a'', CHR 0x5C]) Postgres = Inr [CHR 0x27, CHR ''a'', CHR 0x5C, CHR 0x5C, CHR 0x27]"
    by (simp add: escapeSqlLiteral_def)
  from toSqlLiteral_reading[OF t] t show ?thesis by (simp add: double_backslashes_def)
qed

theorem editDistance_minimal_witness:
  "align ''note'' ''notes'' (editDistance ''note'' ''notes'') \<and> editDistance ''note'' ''notes'' = 1"
  using editDistance_minimal[of "''note''" "''notes''"] by (simp add: editDistance_lev)

theorem closestIdentifier_spec_witness:
  "closestIdentifier ''autor'' [''title'', ''author''] = Some ''author'' \<and>
   typo_distance ''autor'' ''author'' \<le> typo_threshold ''autor''"
proof -
  have "closestIdentifier ''autor'' [''title'', ''author''] = Some ''author''" by code_simp
  with closestIdentifier_spec[where name = "''autor''" and candidates = "[''title'', ''author'']"] show ?thesis by simp
qed

end
