(* ===== verification/TxSession.thy ===== *)
theory TxSession
  imports Prelude TextUtils
begin

section \<open>The transaction session\<close>

text \<open>
  Model of \<^verbatim>\<open>src/dialects/TransactionSessionManager.ts\<close>, the object every unit of work runs
  on, and of \<^verbatim>\<open>src/core/entity-manager/rollback-restore.ts\<close>, which registers the undo actions
  that put a caller's objects back when the database rolls back.

  The state is one record. \<open>database\<close> stands for everything behind the driver, and the driver,
  the connection registry and the caller's closures are the fields of \<open>env\<close>: they are code the
  session only calls. An undo action is a key of type \<open>'u\<close> that \<open>run_undo\<close> performs on the
  caller's memory; a transaction-end callback is a key of type \<open>'cb\<close> that \<open>run_cb\<close> performs on
  the whole session, so a callback may register another one.
\<close>

subsection \<open>State\<close>

record mark =
  mark_name :: string
  undoCount :: nat

text \<open>The data source classes \<^verbatim>\<open>createDataSource\<close> instantiates, each on a connection.\<close>
datatype 'c data_source = PostgresDataSource 'c | SqliteDataSource 'c | MySqlDataSource 'c

text \<open>The calls of \<^verbatim>\<open>IDataSource\<close>.\<close>
datatype ds_call =
    CreateConnection | Query string | QueryWithOptions string string
  | StartTransaction "string option" | Commit | Rollback | Savepoint string | RollbackTo string | CloseConnection

text \<open>
  The errors of the transaction layer. \<open>Driver\<close> holds whatever the driver, a hook or the caller's
  work threw; \<open>RollbackFailed\<close> and \<open>QueryTimeout\<close> are thrown by the transaction runner, with their
  \<^verbatim>\<open>cause\<close>.
\<close>
datatype 'e session_error =
    DatabaseNotConnected | DatabaseConnectionFailed "'e session_error" | Orm OrmErrorCode | Driver 'e
  | RollbackFailed "'e session_error" "'e session_error" | QueryTimeout int "'e session_error"

record ('c, 'd, 'm, 'u, 'cb) session =
  connection :: "'c option"
  dataSource :: "'c data_source option"
  ownedConnector :: "'c option"
  registeredConnection :: "string option"
  transactionEndCallbacks :: "'cb list"
  transactionActive :: bool
  rollbackUndos :: "'u list"
  savepointMarks :: "mark list"
  database :: 'd
  memory :: 'm
  warnings :: nat

record ('c, 'd, 'm, 'u, 'cb, 'e, 'r) env =
  getConnection :: "string option \<Rightarrow> 'd \<Rightarrow> ('e + 'c) \<times> 'd"
  getType :: "string \<Rightarrow> 'd \<Rightarrow> string option"
  defaultType :: "'d \<Rightarrow> string option"
  connectReplicationNode :: "string option \<Rightarrow> string \<Rightarrow> 'd \<Rightarrow> ('e + 'c) \<times> 'd"
  closeConnector :: "'c \<Rightarrow> 'd \<Rightarrow> ('e + unit) \<times> 'd"
  hasQueryWithOptions :: "'c data_source \<Rightarrow> bool"
  driver :: "'c data_source \<Rightarrow> ds_call \<Rightarrow> 'd \<Rightarrow> ('e + 'r) \<times> 'd"
  run_undo :: "'u \<Rightarrow> 'm \<Rightarrow> ('e + unit) \<times> 'm"
  run_cb :: "'cb \<Rightarrow> bool \<Rightarrow> ('c, 'd, 'm, 'u, 'cb) session \<Rightarrow> ('e + unit) \<times> ('c, 'd, 'm, 'u, 'cb) session"

text \<open>The fields of the constructor.\<close>
definition new_session :: "'d \<Rightarrow> 'm \<Rightarrow> ('c, 'd, 'm, 'u, 'cb) session" where
  "new_session d m = \<lparr> connection = None, dataSource = None, ownedConnector = None,
     registeredConnection = None, transactionEndCallbacks = [], transactionActive = False,
     rollbackUndos = [], savepointMarks = [], database = d, memory = m, warnings = 0 \<rparr>"

subsection \<open>Calls to the outside\<close>

text \<open>A call that works on \<open>database\<close>, its error wrapped.\<close>
definition outside :: "('d \<Rightarrow> ('e + 'a) \<times> 'd) \<Rightarrow> (('c, 'd, 'm, 'u, 'cb) session, 'e session_error, 'a) io" where
  "outside f s = (case f (database s) of
      (Inl e, d) \<Rightarrow> (Inl (Driver e), s\<lparr>database := d\<rparr>)
    | (Inr a, d) \<Rightarrow> (Inr a, s\<lparr>database := d\<rparr>))"

text \<open>\<^verbatim>\<open>this.dataSource?.op()\<close>: undefined when there is no data source.\<close>
definition ds_op :: "('c, 'd, 'm, 'u, 'cb, 'e, 'r) env \<Rightarrow> ds_call
    \<Rightarrow> (('c, 'd, 'm, 'u, 'cb) session, 'e session_error, 'r option) io" where
  "ds_op E c s = (case dataSource s of
      None \<Rightarrow> (Inr None, s)
    | Some ds \<Rightarrow> io_bind (outside (driver E ds c)) (\<lambda>r. io_return (Some r)) s)"

subsection \<open>Connecting\<close>

definition createDataSource :: "string option \<Rightarrow> 'c \<Rightarrow> ('w, 'e session_error, 'c data_source) io" where
  "createDataSource dbType conn =
     (if dbType = Some ''postgres'' then io_return (PostgresDataSource conn)
      else if dbType = Some ''sqlite'' then io_return (SqliteDataSource conn)
      else if dbType = Some ''mysql'' \<or> dbType = Some ''mariadb'' then io_return (MySqlDataSource conn)
      else io_throw (Orm UNSUPPORTED_DATABASE))"

text \<open>The common tail of the three \<^verbatim>\<open>connect\<close> methods.\<close>
definition open_source :: "('c, 'd, 'm, 'u, 'cb, 'e, 'r) env \<Rightarrow> string option \<Rightarrow> 'c
    \<Rightarrow> (('c, 'd, 'm, 'u, 'cb) session, 'e session_error, unit) io" where
  "open_source E dbType conn =
     io_bind (createDataSource dbType conn) (\<lambda>ds s.
       io_bind (ds_op E CreateConnection) (\<lambda>_. io_return ()) (s\<lparr>dataSource := Some ds\<rparr>))"

definition connect :: "('c, 'd, 'm, 'u, 'cb, 'e, 'r) env \<Rightarrow> string option
    \<Rightarrow> (('c, 'd, 'm, 'u, 'cb) session, 'e session_error, unit) io" where
  "connect E name s =
     io_catch
       (io_bind (outside (getConnection E name)) (\<lambda>conn s.
          let s = s\<lparr>connection := Some conn\<rparr>;
              dbType = (case name of
                  None \<Rightarrow> defaultType E (database s)
                | Some n \<Rightarrow> (case getType E n (database s) of
                      Some t \<Rightarrow> Some t | None \<Rightarrow> defaultType E (database s)))
          in open_source E dbType conn s))
       (\<lambda>e. io_throw (DatabaseConnectionFailed e))
       (s\<lparr>registeredConnection := Some (case name of Some n \<Rightarrow> n | None \<Rightarrow> ''default'')\<rparr>)"

definition connectWith :: "('c, 'd, 'm, 'u, 'cb, 'e, 'r) env \<Rightarrow> 'c \<Rightarrow> string
    \<Rightarrow> (('c, 'd, 'm, 'u, 'cb) session, 'e session_error, unit) io" where
  "connectWith E connector dbType s =
     io_catch (open_source E (Some dbType) connector)
       (\<lambda>e. io_throw (DatabaseConnectionFailed e))
       (s\<lparr>connection := Some connector\<rparr>)"

definition closeOwnedConnector :: "('c, 'd, 'm, 'u, 'cb, 'e, 'r) env
    \<Rightarrow> (('c, 'd, 'm, 'u, 'cb) session, 'e session_error, unit) io" where
  "closeOwnedConnector E s =
     (let s' = s\<lparr>ownedConnector := None\<rparr>
      in case ownedConnector s of
           None \<Rightarrow> (Inr (), s')
         | Some connector \<Rightarrow>
             io_catch (outside (closeConnector E connector))
               (\<lambda>_ w. (Inr (), w\<lparr>warnings := warnings w + 1\<rparr>)) s')"

definition connectToNode :: "('c, 'd, 'm, 'u, 'cb, 'e, 'r) env \<Rightarrow> string
    \<Rightarrow> (('c, 'd, 'm, 'u, 'cb) session, 'e session_error, unit) io" where
  "connectToNode E node s =
     (let dbType = defaultType E (database s)
      in io_catch
           (io_bind (outside (connectReplicationNode E dbType node)) (\<lambda>connector s.
              open_source E dbType connector
                (s\<lparr>ownedConnector := Some connector, connection := Some connector\<rparr>)))
           (\<lambda>e. io_then (closeOwnedConnector E) (io_throw (DatabaseConnectionFailed e)))
           s)"

subsection \<open>Queries\<close>

definition query :: "('c, 'd, 'm, 'u, 'cb, 'e, 'r) env \<Rightarrow> string
    \<Rightarrow> (('c, 'd, 'm, 'u, 'cb) session, 'e session_error, 'r option) io" where
  "query E sql s =
     (if connection s = None then (Inl DatabaseNotConnected, s) else ds_op E (Query sql) s)"

definition queryWithOptions :: "('c, 'd, 'm, 'u, 'cb, 'e, 'r) env \<Rightarrow> string \<Rightarrow> string
    \<Rightarrow> (('c, 'd, 'm, 'u, 'cb) session, 'e session_error, 'r option) io" where
  "queryWithOptions E sql options s =
     (case (connection s, dataSource s) of
        (Some _, Some ds) \<Rightarrow>
          if \<not> hasQueryWithOptions E ds then (Inl (Orm UNSUPPORTED_OPERATION), s)
          else ds_op E (QueryWithOptions sql options) s
      | _ \<Rightarrow> (Inl DatabaseNotConnected, s))"

subsection \<open>Transactions\<close>

definition startTransaction :: "('c, 'd, 'm, 'u, 'cb, 'e, 'r) env \<Rightarrow> string option
    \<Rightarrow> (('c, 'd, 'm, 'u, 'cb) session, 'e session_error, 'r option) io" where
  "startTransaction E level s =
     (if connection s = None then (Inl DatabaseNotConnected, s)
      else io_bind (ds_op E (StartTransaction level))
             (\<lambda>r s. (Inr r, s\<lparr>transactionActive := True\<rparr>)) s)"

definition onTransactionEnd :: "'cb \<Rightarrow> ('c, 'd, 'm, 'u, 'cb) session \<Rightarrow> ('c, 'd, 'm, 'u, 'cb) session" where
  "onTransactionEnd cb s = s\<lparr>transactionEndCallbacks := transactionEndCallbacks s @ [cb]\<rparr>"

definition onRollback :: "'u \<Rightarrow> ('c, 'd, 'm, 'u, 'cb) session \<Rightarrow> ('c, 'd, 'm, 'u, 'cb) session" where
  "onRollback u s =
     (if \<not> transactionActive s then s else s\<lparr>rollbackUndos := rollbackUndos s @ [u]\<rparr>)"

text \<open>The loop body: an undo that throws is logged.\<close>
definition undo_one :: "('c, 'd, 'm, 'u, 'cb, 'e, 'r) env \<Rightarrow> 'u
    \<Rightarrow> ('c, 'd, 'm, 'u, 'cb) session \<Rightarrow> ('c, 'd, 'm, 'u, 'cb) session" where
  "undo_one E u s = (case run_undo E u (memory s) of
      (Inl _, m) \<Rightarrow> s\<lparr>memory := m, warnings := warnings s + 1\<rparr>
    | (Inr _, m) \<Rightarrow> s\<lparr>memory := m\<rparr>)"

text \<open>\<^verbatim>\<open>for (let i = undos.length - 1; i >= 0; i--)\<close>\<close>
definition runRollbackUndos :: "('c, 'd, 'm, 'u, 'cb, 'e, 'r) env \<Rightarrow> 'u list
    \<Rightarrow> ('c, 'd, 'm, 'u, 'cb) session \<Rightarrow> ('c, 'd, 'm, 'u, 'cb) session" where
  "runRollbackUndos E undos s = fold (undo_one E) (rev undos) s"

definition fire_one :: "('c, 'd, 'm, 'u, 'cb, 'e, 'r) env \<Rightarrow> bool \<Rightarrow> 'cb
    \<Rightarrow> ('c, 'd, 'm, 'u, 'cb) session \<Rightarrow> ('c, 'd, 'm, 'u, 'cb) session" where
  "fire_one E committed cb s = (case run_cb E cb committed s of
      (Inl _, s') \<Rightarrow> s'\<lparr>warnings := warnings s' + 1\<rparr>
    | (Inr _, s') \<Rightarrow> s')"

definition fireTransactionEnd :: "('c, 'd, 'm, 'u, 'cb, 'e, 'r) env \<Rightarrow> bool
    \<Rightarrow> ('c, 'd, 'm, 'u, 'cb) session \<Rightarrow> ('c, 'd, 'm, 'u, 'cb) session" where
  "fireTransactionEnd E committed s =
     fold (fire_one E committed) (rev (transactionEndCallbacks s)) (s\<lparr>transactionEndCallbacks := []\<rparr>)"

text \<open>The code of the \<^verbatim>\<open>finally\<close> of \<^verbatim>\<open>rollback\<close>.\<close>
definition rollback_cleanup :: "('c, 'd, 'm, 'u, 'cb, 'e, 'r) env
    \<Rightarrow> ('c, 'd, 'm, 'u, 'cb) session \<Rightarrow> ('c, 'd, 'm, 'u, 'cb) session" where
  "rollback_cleanup E s =
     (let undos = rollbackUndos s;
          s = s\<lparr>transactionActive := False, rollbackUndos := [], savepointMarks := []\<rparr>;
          s = runRollbackUndos E undos s
      in if transactionEndCallbacks s \<noteq> [] then fireTransactionEnd E False s else s)"

definition rollback :: "('c, 'd, 'm, 'u, 'cb, 'e, 'r) env
    \<Rightarrow> (('c, 'd, 'm, 'u, 'cb) session, 'e session_error, 'r option) io" where
  "rollback E = io_finally (ds_op E Rollback) (\<lambda>s. (Inr (), rollback_cleanup E s))"

definition commit :: "('c, 'd, 'm, 'u, 'cb, 'e, 'r) env
    \<Rightarrow> (('c, 'd, 'm, 'u, 'cb) session, 'e session_error, 'r option) io" where
  "commit E = io_bind (ds_op E Commit) (\<lambda>r s.
     let s = s\<lparr>transactionActive := False, rollbackUndos := [], savepointMarks := []\<rparr>
     in (Inr r, if transactionEndCallbacks s \<noteq> [] then fireTransactionEnd E True s else s))"

definition savepoint :: "('c, 'd, 'm, 'u, 'cb, 'e, 'r) env \<Rightarrow> string
    \<Rightarrow> (('c, 'd, 'm, 'u, 'cb) session, 'e session_error, 'r option) io" where
  "savepoint E name s = (case validateSavepointName name of
      Inl e \<Rightarrow> (Inl (Orm e), s)
    | Inr _ \<Rightarrow> io_bind (ds_op E (Savepoint name)) (\<lambda>r s.
        (Inr r, s\<lparr>savepointMarks := savepointMarks s
                   @ [\<lparr>mark_name = name, undoCount = length (rollbackUndos s)\<rparr>]\<rparr>)) s)"

text \<open>\<^verbatim>\<open>while (index >= 0 && this.savepointMarks[index].name !== name) index--\<close>, from \<^verbatim>\<open>index + 1 = n\<close>.\<close>
fun mark_index :: "mark list \<Rightarrow> string \<Rightarrow> nat \<Rightarrow> nat option" where
  "mark_index marks name 0 = None"
| "mark_index marks name (Suc i) =
     (if mark_name (marks ! i) = name then Some i else mark_index marks name i)"

definition rollbackTo :: "('c, 'd, 'm, 'u, 'cb, 'e, 'r) env \<Rightarrow> string
    \<Rightarrow> (('c, 'd, 'm, 'u, 'cb) session, 'e session_error, 'r option) io" where
  "rollbackTo E name s = (case validateSavepointName name of
      Inl e \<Rightarrow> (Inl (Orm e), s)
    | Inr _ \<Rightarrow> io_bind (ds_op E (RollbackTo name)) (\<lambda>r s.
        (case mark_index (savepointMarks s) name (length (savepointMarks s)) of
           None \<Rightarrow> (Inr r, s)
         | Some index \<Rightarrow>
             let k = undoCount (savepointMarks s ! index);
                 undos = rollbackUndos s
             in (Inr r, runRollbackUndos E (drop k undos)
                   (s\<lparr>savepointMarks := take (index + 1) (savepointMarks s),
                      rollbackUndos := take k undos\<rparr>)))) s)"

definition close :: "('c, 'd, 'm, 'u, 'cb, 'e, 'r) env
    \<Rightarrow> (('c, 'd, 'm, 'u, 'cb) session, 'e session_error, unit) io" where
  "close E s =
     (if connection s = None then (Inl DatabaseNotConnected, s)
      else io_finally (io_bind (ds_op E CloseConnection) (\<lambda>_. io_return ())) (closeOwnedConnector E) s)"

subsection \<open>The caller's objects\<close>

text \<open>
  A value is \<open>'v option\<close>, with \<open>None\<close> for \<^verbatim>\<open>undefined\<close>; an object is its own enumerable
  properties in order, each a data property or an accessor whose value is computed from the data
  properties. The memory is a heap of objects.
\<close>
datatype 'v js_prop = DataProp "'v option" | Getter "(string \<times> 'v option) list \<Rightarrow> 'v option"

type_synonym 'v object = "(string \<times> 'v js_prop) list"
type_synonym 'v heap = "nat \<Rightarrow> 'v object"

fun is_data :: "'v js_prop \<Rightarrow> bool" where
  "is_data (DataProp _) = True"
| "is_data (Getter _) = False"

definition data_of :: "'v object \<Rightarrow> (string \<times> 'v option) list" where
  "data_of obj = concat (map (\<lambda>(k, p). case p of DataProp v \<Rightarrow> [(k, v)] | Getter _ \<Rightarrow> []) obj)"

definition prop_value :: "'v object \<Rightarrow> 'v js_prop \<Rightarrow> 'v option" where
  "prop_value obj p = (case p of DataProp v \<Rightarrow> v | Getter g \<Rightarrow> g (data_of obj))"

text \<open>\<^verbatim>\<open>target[key]\<close>\<close>
definition read_prop :: "'v object \<Rightarrow> string \<Rightarrow> 'v option" where
  "read_prop obj k = (case jm_get obj k of None \<Rightarrow> None | Some p \<Rightarrow> prop_value obj p)"

text \<open>\<^verbatim>\<open>Object.entries(target)\<close>\<close>
definition object_entries :: "'v object \<Rightarrow> (string \<times> 'v option) list" where
  "object_entries obj = map (\<lambda>(k, p). (k, prop_value obj p)) obj"

text \<open>\<^verbatim>\<open>target[key] = value\<close>; on an accessor without a setter it throws a \<^verbatim>\<open>TypeError\<close>.\<close>
definition assign_prop :: "string \<Rightarrow> 'v option \<Rightarrow> 'v object \<Rightarrow> (string + unit) \<times> 'v object" where
  "assign_prop k v obj = (case jm_get obj k of
      Some (Getter _) \<Rightarrow> (Inl ''TypeError'', obj)
    | _ \<Rightarrow> (Inr (), jm_set k (DataProp v) obj))"

subsection \<open>Restoring objects on rollback\<close>

record 'v changed_property =
  key :: string
  had :: bool
  before :: "'v option"
  after :: "'v option"

definition change_of :: "'v object \<Rightarrow> (string \<times> 'v option) list \<Rightarrow> string \<times> 'v option \<Rightarrow> 'v changed_property list" where
  "change_of target bef = (\<lambda>(k, aft).
     let hd = k \<in> set (jm_keys bef); old = (case jm_get bef k of Some v \<Rightarrow> v | None \<Rightarrow> None)
     in if hd \<and> old = aft then []
        else if (case jm_get target k of Some (Getter _) \<Rightarrow> True | _ \<Rightarrow> False) then []
        else [\<lparr>key = k, had = hd, before = old, after = aft\<rparr>])"

definition changesSince :: "'v object \<Rightarrow> (string \<times> 'v option) list \<Rightarrow> 'v changed_property list" where
  "changesSince target bef = concat (map (change_of target bef) (object_entries target))"

fun undo :: "'v changed_property list \<Rightarrow> 'v object \<Rightarrow> (string + unit) \<times> 'v object" where
  "undo [] target = (Inr (), target)"
| "undo (c # cs) target =
     (if read_prop target (key c) \<noteq> after c then undo cs target
      else if had c then
        (case assign_prop (key c) (before c) target of
           (Inl e, target') \<Rightarrow> (Inl e, target')
         | (Inr _, target') \<Rightarrow> undo cs target')
      else undo cs (jm_delete (key c) target))"

text \<open>The closure \<^verbatim>\<open>() => undo(target, changes)\<close>: the object and its changes.\<close>
type_synonym 'v undo_action = "nat \<times> 'v changed_property list"

definition perform_undo :: "'v undo_action \<Rightarrow> 'v heap \<Rightarrow> (string + unit) \<times> 'v heap" where
  "perform_undo = (\<lambda>(target, changes) h.
     case undo changes (h target) of (r, obj) \<Rightarrow> (r, h(target := obj)))"

text \<open>The body of the \<^verbatim>\<open>finally\<close>: one undo action per object that changed.\<close>
definition register_undo :: "(nat \<Rightarrow> (string \<times> 'v option) list) \<Rightarrow> nat
    \<Rightarrow> ('c, 'd, 'v heap, 'v undo_action, 'cb) session \<Rightarrow> ('c, 'd, 'v heap, 'v undo_action, 'cb) session" where
  "register_undo bef target s =
     (let changes = changesSince (memory s target) (bef target)
      in if changes \<noteq> [] then onRollback (target, changes) s else s)"

definition restoreOnRollback :: "bool \<Rightarrow> nat list
    \<Rightarrow> (('c, 'd, 'v heap, 'v undo_action, 'cb) session, 'x, 'a) io
    \<Rightarrow> (('c, 'd, 'v heap, 'v undo_action, 'cb) session, 'x, 'a) io" where
  "restoreOnRollback hasSession targets write s =
     (if \<not> (hasSession \<and> transactionActive s) then write s
      else let bef = (\<lambda>t. object_entries (memory s t))
           in io_finally write (\<lambda>s. (Inr (), fold (register_undo bef) targets s)) s)"

subsection \<open>Undo actions newest first\<close>

text \<open>The memory the undo actions lead to, whatever they throw.\<close>
definition replay :: "('c, 'd, 'm, 'u, 'cb, 'e, 'r) env \<Rightarrow> 'u list \<Rightarrow> 'm \<Rightarrow> 'm" where
  "replay E us m = fold (\<lambda>u m. snd (run_undo E u m)) (rev us) m"

lemma replay_Nil [simp]: "replay E [] m = m"
  by (simp add: replay_def)

lemma replay_append [simp]: "replay E (us @ vs) m = replay E us (replay E vs m)"
  by (simp add: replay_def)

lemma undo_one_fields [simp]:
  "memory (undo_one E u s) = snd (run_undo E u (memory s))"
  "rollbackUndos (undo_one E u s) = rollbackUndos s"
  "savepointMarks (undo_one E u s) = savepointMarks s"
  "transactionActive (undo_one E u s) = transactionActive s"
  "transactionEndCallbacks (undo_one E u s) = transactionEndCallbacks s"
  "database (undo_one E u s) = database s"
  by (auto simp: undo_one_def split: prod.splits sum.splits)

lemma fold_undo_one_fields:
  "memory (fold (undo_one E) us s) = fold (\<lambda>u m. snd (run_undo E u m)) us (memory s)"
  "rollbackUndos (fold (undo_one E) us s) = rollbackUndos s"
  "savepointMarks (fold (undo_one E) us s) = savepointMarks s"
  "transactionActive (fold (undo_one E) us s) = transactionActive s"
  "transactionEndCallbacks (fold (undo_one E) us s) = transactionEndCallbacks s"
  "database (fold (undo_one E) us s) = database s"
  by (induction us arbitrary: s) auto

lemma runRollbackUndos_fields [simp]:
  "memory (runRollbackUndos E us s) = replay E us (memory s)"
  "rollbackUndos (runRollbackUndos E us s) = rollbackUndos s"
  "savepointMarks (runRollbackUndos E us s) = savepointMarks s"
  "transactionActive (runRollbackUndos E us s) = transactionActive s"
  "transactionEndCallbacks (runRollbackUndos E us s) = transactionEndCallbacks s"
  "database (runRollbackUndos E us s) = database s"
  by (simp_all add: runRollbackUndos_def replay_def fold_undo_one_fields)

text \<open>A driver call changes nothing of the session but the database.\<close>
lemma ds_op_fields:
  assumes "ds_op E c s = (r, s')"
  shows "s' = s\<lparr>database := database s'\<rparr>"
  using assms by (auto simp: ds_op_def outside_def io_defs split: option.splits prod.splits sum.splits)

lemma ds_op_frame [simp]:
  "memory (snd (ds_op E c s)) = memory s"
  "rollbackUndos (snd (ds_op E c s)) = rollbackUndos s"
  "savepointMarks (snd (ds_op E c s)) = savepointMarks s"
  "transactionActive (snd (ds_op E c s)) = transactionActive s"
  "transactionEndCallbacks (snd (ds_op E c s)) = transactionEndCallbacks s"
  "ownedConnector (snd (ds_op E c s)) = ownedConnector s"
  "connection (snd (ds_op E c s)) = connection s"
  "dataSource (snd (ds_op E c s)) = dataSource s"
  by (auto simp: ds_op_def outside_def io_defs split: option.splits prod.splits sum.splits)

subsection \<open>The newest savepoint of a name\<close>

lemma mark_index_Some:
  "mark_index marks name n = Some i \<Longrightarrow> i < n \<and> mark_name (marks ! i) = name"
  by (induction marks name n rule: mark_index.induct) (auto split: if_splits)

lemma mark_index_newest:
  "mark_index marks name n = Some i \<Longrightarrow> i < j \<Longrightarrow> j < n \<Longrightarrow> mark_name (marks ! j) \<noteq> name"
  by (induction marks name n rule: mark_index.induct) (auto split: if_splits simp: less_Suc_eq)

lemma mark_index_None:
  "mark_index marks name n = None \<Longrightarrow> j < n \<Longrightarrow> mark_name (marks ! j) \<noteq> name"
  by (induction marks name n rule: mark_index.induct) (auto split: if_splits simp: less_Suc_eq)

subsection \<open>The abstract transaction: a stack of memory snapshots\<close>

text \<open>
  What a transaction promises about the caller's memory: BEGIN and every savepoint take a
  snapshot, ROLLBACK TO goes back to the newest snapshot of its name and forgets the ones taken
  after it, ROLLBACK goes back to the one of BEGIN.
\<close>
record 'm snapshots =
  base :: 'm
  points :: "(string \<times> 'm) list"
  current :: 'm

definition snap_savepoint :: "string \<Rightarrow> 'm snapshots \<Rightarrow> 'm snapshots" where
  "snap_savepoint name a = a\<lparr>points := points a @ [(name, current a)]\<rparr>"

definition snap_rollbackTo :: "string \<Rightarrow> 'm snapshots \<Rightarrow> 'm snapshots" where
  "snap_rollbackTo name a =
     (case dropWhile (\<lambda>p. fst p \<noteq> name) (rev (points a)) of
        [] \<Rightarrow> a
      | p # ps \<Rightarrow> a\<lparr>points := rev ps @ [p], current := snd p\<rparr>)"

definition snap_rollback :: "'m snapshots \<Rightarrow> 'm" where
  "snap_rollback a = base a"

text \<open>The steps of a unit of work inside a transaction. A write is any computation on the session.\<close>
datatype 'w tx_step = Write 'w | TakeSavepoint string | BackTo string

type_synonym ('c, 'd, 'm, 'u, 'cb, 'e) write_code =
  "('c, 'd, 'm, 'u, 'cb) session \<Rightarrow> ('e session_error + unit) \<times> ('c, 'd, 'm, 'u, 'cb) session"

definition void_io :: "('w, 'e, 'a) io \<Rightarrow> ('w, 'e, unit) io" where
  "void_io m = io_bind m (\<lambda>_. io_return ())"

fun do_step :: "('c, 'd, 'm, 'u, 'cb, 'e, 'r) env \<Rightarrow> ('c, 'd, 'm, 'u, 'cb, 'e) write_code tx_step
    \<Rightarrow> (('c, 'd, 'm, 'u, 'cb) session, 'e session_error, unit) io" where
  "do_step E (Write w) = w"
| "do_step E (TakeSavepoint n) = void_io (savepoint E n)"
| "do_step E (BackTo n) = void_io (rollbackTo E n)"

text \<open>The work goes on after an error the caller handles: all steps run.\<close>
definition do_steps :: "('c, 'd, 'm, 'u, 'cb, 'e, 'r) env \<Rightarrow> ('c, 'd, 'm, 'u, 'cb, 'e) write_code tx_step list
    \<Rightarrow> ('c, 'd, 'm, 'u, 'cb) session \<Rightarrow> ('c, 'd, 'm, 'u, 'cb) session" where
  "do_steps E steps s = fold (\<lambda>st s. snd (do_step E st s)) steps s"

text \<open>The abstract effect of a step that has taken the session from \<open>s\<close> to \<open>s'\<close> with outcome \<open>r\<close>.\<close>
fun snap_step :: "('c, 'd, 'm, 'u, 'cb, 'e) write_code tx_step \<Rightarrow> 'x + unit \<Rightarrow> 'm \<Rightarrow> 'm snapshots \<Rightarrow> 'm snapshots" where
  "snap_step (Write w) r m a = a\<lparr>current := m\<rparr>"
| "snap_step (TakeSavepoint n) r m a = (case r of Inr _ \<Rightarrow> snap_savepoint n a | Inl _ \<Rightarrow> a)"
| "snap_step (BackTo n) r m a = (case r of Inr _ \<Rightarrow> snap_rollbackTo n a | Inl _ \<Rightarrow> a)"

text \<open>The abstract run along a concrete one: only a write takes its new memory from the code.\<close>
fun snap_steps :: "('c, 'd, 'm, 'u, 'cb, 'e, 'r) env \<Rightarrow> ('c, 'd, 'm, 'u, 'cb, 'e) write_code tx_step list
    \<Rightarrow> ('c, 'd, 'm, 'u, 'cb) session \<Rightarrow> 'm snapshots \<Rightarrow> 'm snapshots" where
  "snap_steps E [] s a = a"
| "snap_steps E (st # sts) s a =
     (case do_step E st s of (r, s') \<Rightarrow> snap_steps E sts s' (snap_step st r (memory s') a))"

text \<open>
  A write is reversible when undoing what it registered gives back the memory it found; \<open>G\<close> is
  what is known of the memory, and the write keeps it.
\<close>
definition reversible :: "('m \<Rightarrow> bool) \<Rightarrow> ('c, 'd, 'm, 'u, 'cb, 'e, 'r) env \<Rightarrow> ('c, 'd, 'm, 'u, 'cb, 'e) write_code \<Rightarrow> bool" where
  "reversible G E w \<longleftrightarrow> (\<forall>s. transactionActive s \<and> G (memory s) \<longrightarrow>
     (let s' = snd (w s) in transactionActive s' \<and> G (memory s') \<and> savepointMarks s' = savepointMarks s
        \<and> transactionEndCallbacks s' = transactionEndCallbacks s
        \<and> (\<exists>us. rollbackUndos s' = rollbackUndos s @ us \<and> replay E us (memory s') = memory s)))"

definition reversible_step :: "('m \<Rightarrow> bool) \<Rightarrow> ('c, 'd, 'm, 'u, 'cb, 'e, 'r) env \<Rightarrow> ('c, 'd, 'm, 'u, 'cb, 'e) write_code tx_step \<Rightarrow> bool" where
  "reversible_step G E st = (case st of Write w \<Rightarrow> reversible G E w | _ \<Rightarrow> True)"

definition mark_sim :: "('c, 'd, 'm, 'u, 'cb, 'e, 'r) env \<Rightarrow> 'u list \<Rightarrow> 'm \<Rightarrow> mark \<Rightarrow> string \<times> 'm \<Rightarrow> bool" where
  "mark_sim E us m mk p \<longleftrightarrow> mark_name mk = fst p \<and> undoCount mk \<le> length us
     \<and> replay E (drop (undoCount mk) us) m = snd p"

definition session_sim :: "('m \<Rightarrow> bool) \<Rightarrow> ('c, 'd, 'm, 'u, 'cb, 'e, 'r) env \<Rightarrow> ('c, 'd, 'm, 'u, 'cb) session \<Rightarrow> 'm snapshots \<Rightarrow> bool" where
  "session_sim G E s a \<longleftrightarrow> transactionActive s \<and> memory s = current a
     \<and> replay E (rollbackUndos s) (memory s) = base a
     \<and> sorted (map undoCount (savepointMarks s)) \<and> G (base a) \<and> G (current a) \<and> (\<forall>p \<in> set (points a). G (snd p))
     \<and> list_all2 (mark_sim E (rollbackUndos s) (memory s)) (savepointMarks s) (points a)"

lemma mark_sim_append:
  "mark_sim E us m mk p \<Longrightarrow> replay E vs m' = m \<Longrightarrow> mark_sim E (us @ vs) m' mk p"
  by (auto simp: mark_sim_def)

lemma mark_sim_take:
  "mark_sim E us m mk p \<Longrightarrow> undoCount mk \<le> k \<Longrightarrow> k \<le> length us
   \<Longrightarrow> mark_sim E (take k us) (replay E (drop k us) m) mk p"
  unfolding mark_sim_def
  by (metis (no_types, lifting) append_take_drop_id drop_append length_take min.absorb2
      replay_append drop_take diff_is_0_eq' drop_0)

lemma dropWhile_rev_newest:
  assumes "i < length ps" "fst (ps ! i) = name" "\<And>j. i < j \<Longrightarrow> j < length ps \<Longrightarrow> fst (ps ! j) \<noteq> name"
  shows "dropWhile (\<lambda>p. fst p \<noteq> name) (rev ps) = ps ! i # rev (take i ps)"
proof -
  have "ps = take i ps @ ps ! i # drop (Suc i) ps" using assms(1) by (simp add: id_take_nth_drop)
  then have r: "rev ps = rev (drop (Suc i) ps) @ ps ! i # rev (take i ps)"
    by (metis append.assoc append_Cons append_Nil rev.simps(2) rev_append)
  have "\<forall>p \<in> set (rev (drop (Suc i) ps)). fst p \<noteq> name"
  proof
    fix p assume "p \<in> set (rev (drop (Suc i) ps))"
    then obtain j where "j < length ps - Suc i" "p = ps ! (Suc i + j)" by (auto simp: in_set_conv_nth)
    then show "fst p \<noteq> name" using assms(3) [of "Suc i + j"] by simp
  qed
  with assms(2) show ?thesis
    by (subst r, subst dropWhile_append2) auto
qed

subsection \<open>The session refines the stack of snapshots\<close>

lemma session_sim_cong:
  "session_sim G E s a \<Longrightarrow> memory s' = memory s \<Longrightarrow> rollbackUndos s' = rollbackUndos s
   \<Longrightarrow> savepointMarks s' = savepointMarks s \<Longrightarrow> transactionActive s' = transactionActive s
   \<Longrightarrow> session_sim G E s' a"
  by (auto simp: session_sim_def)

lemma write_sim:
  assumes "session_sim G E s a" "reversible G E w"
  shows "session_sim G E (snd (w s)) (a\<lparr>current := memory (snd (w s))\<rparr>)"
proof -
  let ?s' = "snd (w s)"
  have act: "transactionActive s" "G (memory s)" using assms(1) by (auto simp: session_sim_def)
  then obtain us where us: "G (memory ?s')" "rollbackUndos ?s' = rollbackUndos s @ us" "replay E us (memory ?s') = memory s"
      "transactionActive ?s'" "savepointMarks ?s' = savepointMarks s"
    using assms(2) unfolding reversible_def Let_def by blast
  then show ?thesis
    using assms(1) unfolding session_sim_def
    by (auto elim!: list_all2_mono intro: mark_sim_append)
qed

lemma savepoint_sim:
  assumes "session_sim G E s a" "savepoint E n s = (r, s')"
  shows "session_sim G E s' (case r of Inr _ \<Rightarrow> snap_savepoint n a | Inl _ \<Rightarrow> a)"
proof (cases "validateSavepointName n")
  case (Inl e)
  then show ?thesis using assms by (auto simp: savepoint_def)
next
  case (Inr u)
  obtain r0 s0 where d: "ds_op E (Savepoint n) s = (r0, s0)" by fastforce
  have f: "memory s0 = memory s" "rollbackUndos s0 = rollbackUndos s"
      "savepointMarks s0 = savepointMarks s" "transactionActive s0 = transactionActive s"
    using ds_op_frame [of E "Savepoint n" s] d by auto
  have s0: "session_sim G E s0 a" using session_sim_cong [OF assms(1) f] .
  show ?thesis
  proof (cases r0)
    case Inl
    then show ?thesis using assms(2) Inr d s0 by (auto simp: savepoint_def io_defs)
  next
    case r0: (Inr r1)
    have le: "\<forall>mk \<in> set (savepointMarks s0). undoCount mk \<le> length (rollbackUndos s0)"
      using s0 by (auto simp: session_sim_def mark_sim_def in_set_conv_nth list_all2_conv_all_nth)
    have "s' = s0\<lparr>savepointMarks := savepointMarks s0 @ [\<lparr>mark_name = n, undoCount = length (rollbackUndos s0)\<rparr>]\<rparr>"
      "r = Inr r1"
      using assms(2) Inr d r0 by (auto simp: savepoint_def io_defs)
    then show ?thesis
      using s0 le by (auto simp: session_sim_def snap_savepoint_def mark_sim_def sorted_append
          intro!: list_all2_appendI)
  qed
qed

lemma snap_rollbackTo_found:
  assumes "i < length (points a)" "fst (points a ! i) = n"
    "\<And>j. i < j \<Longrightarrow> j < length (points a) \<Longrightarrow> fst (points a ! j) \<noteq> n"
  shows "snap_rollbackTo n a = a\<lparr>points := take (Suc i) (points a), current := snd (points a ! i)\<rparr>"
  using dropWhile_rev_newest [OF assms] assms(1)
  by (simp add: snap_rollbackTo_def take_Suc_conv_app_nth)

lemma snap_rollbackTo_missing:
  assumes "\<And>j. j < length (points a) \<Longrightarrow> fst (points a ! j) \<noteq> n"
  shows "snap_rollbackTo n a = a"
proof -
  have "dropWhile (\<lambda>p. fst p \<noteq> n) (rev (points a)) = []"
    using assms by (auto simp: dropWhile_eq_Nil_conv in_set_conv_nth) (metis fst_conv)
  then show ?thesis unfolding snap_rollbackTo_def by (simp only: list.case)
qed

text \<open>Going back to mark \<open>i\<close>: the undo actions after it run, the marks after it go.\<close>
lemma back_to_mark_sim:
  assumes sim: "session_sim G E s a" and i: "i < length (savepointMarks s)"
    and k: "k = undoCount (savepointMarks s ! i)"
  shows "session_sim G E
           (runRollbackUndos E (drop k (rollbackUndos s))
             (s\<lparr>savepointMarks := take (i + 1) (savepointMarks s), rollbackUndos := take k (rollbackUndos s)\<rparr>))
           (a\<lparr>points := take (Suc i) (points a), current := snd (points a ! i)\<rparr>)"
proof -
  let ?us = "rollbackUndos s" and ?m = "memory s"
  have all: "list_all2 (mark_sim E ?us ?m) (savepointMarks s) (points a)"
    and srt: "sorted (map undoCount (savepointMarks s))"
    and b: "replay E ?us ?m = base a"
    and act: "transactionActive s" "G (base a)" "\<forall>p \<in> set (points a). G (snd p)"
    using sim by (auto simp: session_sim_def)
  have gi: "G (snd (points a ! i))" "\<forall>p \<in> set (take (Suc i) (points a)). G (snd p)"
    using act(3) all i by (auto simp: list_all2_lengthD dest: in_set_takeD)
  have mi: "mark_sim E ?us ?m (savepointMarks s ! i) (points a ! i)"
    using all i by (simp add: list_all2_conv_all_nth)
  have kl: "k \<le> length ?us" and km: "replay E (drop k ?us) ?m = snd (points a ! i)"
    using mi k by (auto simp: mark_sim_def)
  have le: "undoCount mk \<le> k" if "mk \<in> set (take (Suc i) (savepointMarks s))" for mk
  proof -
    from that obtain j where "j \<le> i" "mk = savepointMarks s ! j" by (auto simp: in_set_conv_nth less_Suc_eq_le)
    then show ?thesis using srt i k by (auto simp: sorted_iff_nth_mono)
  qed
  have "list_all2 (mark_sim E ?us ?m) (take (Suc i) (savepointMarks s)) (take (Suc i) (points a))"
    using all by (rule list_all2_takeI)
  then have "list_all2 (mark_sim E (take k ?us) (snd (points a ! i))) (take (Suc i) (savepointMarks s)) (take (Suc i) (points a))"
    by (rule list.rel_mono_strong) (metis le kl km mark_sim_take)
  moreover have "replay E (take k ?us) (snd (points a ! i)) = base a"
    using b km by (metis append_take_drop_id replay_append)
  moreover have "sorted (map undoCount (take (Suc i) (savepointMarks s)))"
    using srt by (simp add: take_map [symmetric] sorted_wrt_take)
  ultimately show ?thesis using act gi km by (simp add: session_sim_def)
qed

lemma rollbackTo_sim:
  assumes "session_sim G E s a" "rollbackTo E n s = (r, s')"
  shows "session_sim G E s' (case r of Inr _ \<Rightarrow> snap_rollbackTo n a | Inl _ \<Rightarrow> a)"
proof (cases "validateSavepointName n")
  case (Inl e)
  then show ?thesis using assms by (auto simp: rollbackTo_def)
next
  case (Inr u)
  obtain r0 s0 where d: "ds_op E (RollbackTo n) s = (r0, s0)" by fastforce
  have f: "memory s0 = memory s" "rollbackUndos s0 = rollbackUndos s"
      "savepointMarks s0 = savepointMarks s" "transactionActive s0 = transactionActive s"
    using ds_op_frame [of E "RollbackTo n" s] d by auto
  have s0: "session_sim G E s0 a" using session_sim_cong [OF assms(1) f] .
  have all: "list_all2 (mark_sim E (rollbackUndos s0) (memory s0)) (savepointMarks s0) (points a)"
    using s0 by (auto simp: session_sim_def)
  then have len: "length (points a) = length (savepointMarks s0)" by (simp add: list_all2_lengthD)
  have names: "fst (points a ! j) = mark_name (savepointMarks s0 ! j)" if "j < length (savepointMarks s0)" for j
    using all that by (auto simp: list_all2_conv_all_nth mark_sim_def)
  show ?thesis
  proof (cases r0)
    case (Inl e)
    then show ?thesis using assms(2) Inr d s0 by (auto simp: rollbackTo_def io_defs)
  next
    case r0: (Inr r1)
    show ?thesis
    proof (cases "mark_index (savepointMarks s0) n (length (savepointMarks s0))")
      case None
      then have "\<And>j. j < length (points a) \<Longrightarrow> fst (points a ! j) \<noteq> n"
        using mark_index_None names len by metis
      then have "snap_rollbackTo n a = a" by (rule snap_rollbackTo_missing)
      then show ?thesis using assms(2) Inr d r0 None s0 by (auto simp: rollbackTo_def io_defs)
    next
      case (Some i)
      have i: "i < length (savepointMarks s0)" "mark_name (savepointMarks s0 ! i) = n"
        using mark_index_Some [OF Some] by auto
      have "snap_rollbackTo n a = a\<lparr>points := take (Suc i) (points a), current := snd (points a ! i)\<rparr>"
        using i names len mark_index_newest [OF Some] by (intro snap_rollbackTo_found) auto
      then show ?thesis
        using back_to_mark_sim [OF s0 i(1) refl] assms(2) Inr d r0 Some
        by (auto simp: rollbackTo_def io_defs Let_def)
    qed
  qed
qed

lemma void_io_result: "void_io m s = (r, s') \<Longrightarrow> \<exists>r0. m s = (r0, s') \<and> (isl r0 \<longleftrightarrow> isl r)"
  by (auto simp: void_io_def io_defs split: prod.splits sum.splits)

lemma do_step_sim:
  assumes "session_sim G E s a" "reversible_step G E st" "do_step E st s = (r, s')"
  shows "session_sim G E s' (snap_step st r (memory s') a)"
proof (cases st)
  case (Write w)
  then show ?thesis using write_sim [OF assms(1), of w] assms(2,3) by (simp add: reversible_step_def)
next
  case (TakeSavepoint n)
  then obtain r0 where "savepoint E n s = (r0, s')" "isl r0 \<longleftrightarrow> isl r"
    using assms(3) void_io_result by fastforce
  then show ?thesis using savepoint_sim [OF assms(1)] TakeSavepoint
    by (cases r; cases r0) (fastforce+)
next
  case (BackTo n)
  then obtain r0 where "rollbackTo E n s = (r0, s')" "isl r0 \<longleftrightarrow> isl r"
    using assms(3) void_io_result by fastforce
  then show ?thesis using rollbackTo_sim [OF assms(1)] BackTo
    by (cases r; cases r0) (fastforce+)
qed

lemma do_steps_sim:
  "session_sim G E s a \<Longrightarrow> (\<And>st. st \<in> set steps \<Longrightarrow> reversible_step G E st)
   \<Longrightarrow> session_sim G E (do_steps E steps s) (snap_steps E steps s a)"
proof (induction steps arbitrary: s a)
  case (Cons st steps)
  obtain r s' where st: "do_step E st s = (r, s')" by fastforce
  have "session_sim G E s' (snap_step st r (memory s') a)"
    using do_step_sim [OF Cons.prems(1) _ st] Cons.prems(2) by simp
  then show ?case using Cons.IH [of s'] Cons.prems(2) st by (simp add: do_steps_def)
qed (simp add: do_steps_def)

lemma snap_step_base: "base (snap_step st r m a) = base a"
  by (cases st) (auto simp: snap_savepoint_def snap_rollbackTo_def split: sum.splits list.splits)

lemma snap_steps_base: "base (snap_steps E steps s a) = base a"
  by (induction E steps s a rule: snap_steps.induct) (auto simp: snap_step_base split: prod.splits)

text \<open>A session right after BEGIN, and the snapshots it starts with.\<close>
definition begun :: "('m \<Rightarrow> bool) \<Rightarrow> ('c, 'd, 'm, 'u, 'cb) session \<Rightarrow> bool" where
  "begun G s \<longleftrightarrow> transactionActive s \<and> G (memory s) \<and> rollbackUndos s = [] \<and> savepointMarks s = []"

definition begin_snapshots :: "('c, 'd, 'm, 'u, 'cb) session \<Rightarrow> 'm snapshots" where
  "begin_snapshots s = \<lparr>base = memory s, points = [], current = memory s\<rparr>"

lemma begun_sim: "begun G s \<Longrightarrow> session_sim G E s (begin_snapshots s)"
  by (simp add: begun_def begin_snapshots_def session_sim_def)

lemma callbacks_frame_step:
  assumes "reversible_step G E st" "session_sim G E s a"
  shows "transactionEndCallbacks (snd (do_step E st s)) = transactionEndCallbacks s"
proof (cases st)
  case (Write w)
  then show ?thesis using assms by (auto simp: reversible_step_def reversible_def Let_def session_sim_def)
next
  case (TakeSavepoint n)
  show ?thesis
    using ds_op_frame [of E "Savepoint n" s] TakeSavepoint
    by (cases "ds_op E (Savepoint n) s")
       (auto simp: void_io_def savepoint_def io_defs split: prod.splits sum.splits)
next
  case (BackTo n)
  show ?thesis
    using ds_op_frame [of E "RollbackTo n" s] BackTo
    by (cases "ds_op E (RollbackTo n) s")
       (auto simp: void_io_def rollbackTo_def io_defs Let_def split: prod.splits sum.splits option.splits)
qed

lemma callbacks_frame_steps:
  "session_sim G E s a \<Longrightarrow> (\<And>st. st \<in> set steps \<Longrightarrow> reversible_step G E st)
   \<Longrightarrow> transactionEndCallbacks (do_steps E steps s) = transactionEndCallbacks s"
proof (induction steps arbitrary: s a)
  case (Cons st steps)
  obtain r s' where st: "do_step E st s = (r, s')" by fastforce
  have "session_sim G E s' (snap_step st r (memory s') a)"
    using do_step_sim [OF Cons.prems(1) _ st] Cons.prems(2) by simp
  then show ?case
    using Cons.IH [of s'] Cons.prems(2) st callbacks_frame_step [OF _ Cons.prems(1), of st]
    by (simp add: do_steps_def)
qed (simp add: do_steps_def)

text \<open>ROLLBACK, with no transaction-end callback waiting, whether or not the statement succeeds.\<close>
lemma rollback_memory:
  assumes "transactionEndCallbacks s = []"
  shows "memory (snd (rollback E s)) = replay E (rollbackUndos s) (memory s)"
  using assms ds_op_frame [of E Rollback s]
  by (simp add: rollback_def io_finally_world rollback_cleanup_def Let_def)

subsection \<open>Undoing the changes of a write gives the object back\<close>

text \<open>What a write by assignment makes of an object: the old properties in their places, new ones at the end.\<close>
definition same_place :: "string \<times> 'v js_prop \<Rightarrow> string \<times> 'v js_prop \<Rightarrow> bool" where
  "same_place q q' \<longleftrightarrow> fst q' = fst q \<and> (snd q' = snd q \<or> is_data (snd q) \<and> is_data (snd q'))"

definition grown :: "'v object \<Rightarrow> 'v object \<Rightarrow> bool" where
  "grown obj obj' \<longleftrightarrow> jm_wf obj' \<and> (\<exists>x y. obj' = x @ y
     \<and> list_all2 same_place obj x
     \<and> (\<forall>q \<in> set y. is_data (snd q)))"

lemma jm_set_append:
  "jm_set k v (x @ y) = (if k \<in> set (jm_keys x) then jm_set k v x @ y else x @ jm_set k v y)"
  by (induction x) auto

lemma is_data_iff: "is_data p \<longleftrightarrow> (\<exists>v. p = DataProp v)"
  by (cases p) auto

lemma grown_refl: "jm_wf obj \<Longrightarrow> grown obj obj"
  unfolding grown_def by (intro conjI exI [of _ obj] exI [of _ "[]"]) (auto intro: list.rel_refl simp: same_place_def)

lemma list_all2_jm_set:
  assumes "list_all2 same_place obj x"
    and "\<forall>p. map_of x k = Some p \<longrightarrow> is_data p"
  shows "list_all2 same_place obj
           (if k \<in> set (jm_keys x) then jm_set k (DataProp v) x else x)"
  using assms by (induction rule: list_all2_induct) (auto simp: same_place_def split: if_splits)

lemma set_jm_set: "q \<in> set (jm_set k v m) \<Longrightarrow> q \<in> set m \<or> q = (k, v)"
  by (induction m) (auto split: if_splits)

lemma grown_assign:
  assumes "grown obj obj'"
  shows "grown obj (snd (assign_prop k v obj'))"
proof (cases "\<forall>p. jm_get obj' k = Some p \<longrightarrow> is_data p")
  case False
  then obtain g where "jm_get obj' k = Some (Getter g)" by (metis is_data.elims(3))
  then show ?thesis using assms by (simp add: assign_prop_def)
next
  case True
  then have a: "snd (assign_prop k v obj') = jm_set k (DataProp v) obj'"
    by (auto simp: assign_prop_def split: option.splits js_prop.splits)
  obtain x y where xy: "obj' = x @ y" "\<forall>q \<in> set y. is_data (snd q)"
    "list_all2 same_place obj x"
    using assms unfolding grown_def by blast
  have wf: "jm_wf (jm_set k (DataProp v) obj')" using assms by (simp add: grown_def js_simps)
  have dx: "\<forall>p. map_of x k = Some p \<longrightarrow> is_data p" using True xy(1) by (auto simp: map_add_def split: option.splits)
  have "\<forall>q \<in> set (if k \<in> set (jm_keys x) then y else jm_set k (DataProp v) y). is_data (snd q)"
    using xy(2) by (auto dest!: set_jm_set split: if_splits)
  moreover have "jm_set k (DataProp v) obj'
      = (if k \<in> set (jm_keys x) then jm_set k (DataProp v) x else x)
        @ (if k \<in> set (jm_keys x) then y else jm_set k (DataProp v) y)"
    by (simp add: xy(1) jm_set_append)
  ultimately show ?thesis
    using list_all2_jm_set [OF xy(3) dx, of v] wf unfolding a grown_def by blast
qed

lemma delete_append: "jm_delete k (xs @ ys) = jm_delete k xs @ jm_delete k ys"
  by (simp add: AList.delete_eq)

lemma jm_delete_absent: "k \<notin> set (jm_keys xs) \<Longrightarrow> jm_delete k xs = xs"
  by (induction xs) auto

lemma undo_had:
  assumes "k \<notin> set (jm_keys xs)"
  shows "undo (\<lparr>key = k, had = True, before = b, after = a\<rparr> # cs) (xs @ (k, DataProp a) # ys)
       = undo cs (xs @ (k, DataProp b) # ys)"
proof -
  have "map_of xs k = None" using assms by (simp add: map_of_eq_None_iff)
  then have "map_of (xs @ (k, DataProp a) # ys) k = Some (DataProp a)" by (simp add: map_add_def)
  then show ?thesis
    using assms by (simp add: read_prop_def prop_value_def assign_prop_def jm_set_append)
qed

lemma undo_new:
  assumes "k \<notin> set (jm_keys xs)" "k \<notin> set (jm_keys ys)"
  shows "undo (\<lparr>key = k, had = False, before = b, after = a\<rparr> # cs) (xs @ (k, DataProp a) # ys)
       = undo cs (xs @ ys)"
proof -
  have "map_of xs k = None" using assms by (simp add: map_of_eq_None_iff)
  then have "map_of (xs @ (k, DataProp a) # ys) k = Some (DataProp a)" by (simp add: map_add_def)
  moreover have "jm_delete k (xs @ (k, DataProp a) # ys) = xs @ ys"
    using assms by (simp add: delete_append jm_delete_absent)
  ultimately show ?thesis by (simp add: read_prop_def prop_value_def)
qed

lemma undo_added:
  assumes "\<forall>q \<in> set y. is_data (snd q)" "jm_wf (x @ y)"
    and "\<And>q. q \<in> set y \<Longrightarrow> jm_get target (fst q) = Some (snd q)"
    and "\<And>q. q \<in> set y \<Longrightarrow> fst q \<notin> set (jm_keys bef)"
  shows "undo (concat (map (change_of target bef) (map (\<lambda>(k, p). (k, prop_value target p)) y))) (x @ y) = (Inr (), x)"
  using assms
proof (induction y)
  case (Cons q y)
  obtain k v where q: "q = (k, DataProp v)" using Cons.prems(1) by (cases q) (auto simp: is_data_iff)
  have nk: "k \<notin> set (jm_keys x)" "k \<notin> set (jm_keys y)" using Cons.prems(2) q by (auto simp: jm_wf_def)
  have "change_of target bef (k, v) = [\<lparr>key = k, had = False, before = None, after = v\<rparr>]"
    using Cons.prems(3) [of q] Cons.prems(4) [of q] q
    by (auto simp: change_of_def Let_def split: option.splits dest!: map_of_SomeD) (force simp: image_iff)
  moreover have "undo (concat (map (change_of target bef) (map (\<lambda>(k, p). (k, prop_value target p)) y))) (x @ y) = (Inr (), x)"
    using Cons.prems by (intro Cons.IH) (auto simp: jm_wf_def)
  ultimately show ?case using undo_new [OF nk] q by (simp add: prop_value_def)
qed simp

text \<open>The changes are undone in the order of the properties: the ones before are the old ones again.\<close>
lemma undo_grown:
  assumes "list_all2 same_place ys y'" "\<forall>q \<in> set b. is_data (snd q)" "jm_wf (x @ y' @ b)"
    and "\<And>q. q \<in> set (y' @ b) \<Longrightarrow> jm_get target (fst q) = Some (snd q)"
    and "\<And>q. q \<in> set b \<Longrightarrow> fst q \<notin> set (jm_keys bef)"
    and "\<And>k v. (k, DataProp v) \<in> set ys \<Longrightarrow> jm_get bef k = Some v"
  shows "undo (concat (map (change_of target bef) (map (\<lambda>(k, p). (k, prop_value target p)) (y' @ b)))) (x @ y' @ b)
       = (Inr (), x @ ys)"
  using assms
proof (induction arbitrary: x rule: list_all2_induct)
  case Nil
  then show ?case using undo_added [of b x target bef] by simp
next
  case (Cons q ys q' y')
  obtain k p p' where q: "q = (k, p)" "q' = (k, p')" and pp: "p' = p \<or> is_data p \<and> is_data p'"
    using Cons.hyps(1) by (cases q; cases q') (auto simp: same_place_def)
  let ?rest = "concat (map (change_of target bef) (map (\<lambda>(k, p). (k, prop_value target p)) (y' @ b)))"
  have IH: "undo ?rest ((x @ [(k, p)]) @ y' @ b) = (Inr (), (x @ [(k, p)]) @ ys)"
    using Cons.prems q by (intro Cons.IH) (auto simp: jm_wf_def)
  have tk: "jm_get target k = Some p'" using Cons.prems(3) [of q'] q by simp
  show ?case
  proof (cases p)
    case (Getter g)
    then have "p' = p" using pp by simp
    then have "change_of target bef (k, prop_value target p') = []"
      using tk Getter by (simp add: change_of_def Let_def)
    then show ?thesis using IH q \<open>p' = p\<close> by simp
  next
    case (DataProp v)
    then obtain v' where p': "p' = DataProp v'" using pp by (auto simp: is_data_iff)
    have bk: "jm_get bef k = Some v" using Cons.prems(5) DataProp q by simp
    then have kb: "k \<in> set (jm_keys bef)" by (metis domI dom_map_of_conv_image_fst set_map)
    show ?thesis
    proof (cases "v' = v")
      case True
      then have "change_of target bef (k, prop_value target p') = []"
        using bk kb p' by (simp add: change_of_def Let_def prop_value_def)
      then show ?thesis using IH q True p' DataProp by simp
    next
      case False
      then have "change_of target bef (k, prop_value target p') = [\<lparr>key = k, had = True, before = v, after = v'\<rparr>]"
        using bk kb p' tk by (auto simp: change_of_def Let_def prop_value_def)
      moreover have "k \<notin> set (jm_keys x)" using Cons.prems(2) q by (auto simp: jm_wf_def)
      ultimately show ?thesis using IH q p' DataProp undo_had [of k x v v' ?rest "y' @ b"] by simp
    qed
  qed
qed

lemma undo_changes:
  assumes "jm_wf obj" "grown obj obj'"
  shows "undo (changesSince obj' (object_entries obj)) obj' = (Inr (), obj)"
proof -
  obtain y b where yb: "obj' = y @ b" "list_all2 same_place obj y" "\<forall>q \<in> set b. is_data (snd q)"
    and wf: "jm_wf obj'" using assms(2) by (auto simp: grown_def)
  have keys: "jm_keys y = jm_keys obj"
    using yb(2) by (induction rule: list_all2_induct) (auto simp: same_place_def)
  have "undo (changesSince obj' (object_entries obj)) ([] @ y @ b) = (Inr (), [] @ obj)"
    unfolding changesSince_def object_entries_def yb(1)
  proof (rule undo_grown [OF yb(2,3)])
    show "jm_wf ([] @ y @ b)" using wf yb(1) by simp
    show "jm_get (y @ b) (fst q) = Some (snd q)" if "q \<in> set (y @ b)" for q
      using that wf yb(1) jm_get_iff [of "y @ b" "fst q" "snd q"] by simp
    show "fst q \<notin> set (jm_keys (map (\<lambda>(k, p). (k, prop_value obj p)) obj))" if "q \<in> set b" for q
      using that wf yb(1) keys by (auto simp: jm_wf_def comp_def split_beta)
    show "jm_get (map (\<lambda>(k, p). (k, prop_value obj p)) obj) k = Some v" if "(k, DataProp v) \<in> set obj" for k v
      using that assms(1) by (subst jm_get_iff) (force simp: jm_wf_def comp_def split_beta prop_value_def)+
  qed
  then show ?thesis using yb(1) by simp
qed

lemma no_changes_same:
  assumes "jm_wf obj" "grown obj obj'" "changesSince obj' (object_entries obj) = []"
  shows "obj' = obj"
  using undo_changes [OF assms(1,2)] assms(3) by simp

subsection \<open>A write by assignment is reversible\<close>

text \<open>A write assigns properties of objects of the heap, in some order.\<close>
definition assign_all :: "(nat \<times> string \<times> 'v option) list \<Rightarrow> 'v heap \<Rightarrow> 'v heap" where
  "assign_all as h = fold (\<lambda>(t, k, v) h. h(t := snd (assign_prop k v (h t)))) as h"

text \<open>
  The write changes the caller's objects among \<open>targets\<close> by assignment and, apart from them, only
  the database; it may fail after any of its assignments.
\<close>
definition in_place :: "nat list \<Rightarrow> (('c, 'd, 'v heap, 'u, 'cb) session, 'x, 'a) io \<Rightarrow> bool" where
  "in_place targets w \<longleftrightarrow> (\<forall>s. \<exists>as. fst ` set as \<subseteq> set targets
     \<and> snd (w s) = s\<lparr>memory := assign_all as (memory s), database := database (snd (w s))\<rparr>)"

definition heap_wf :: "'v heap \<Rightarrow> bool" where
  "heap_wf h \<longleftrightarrow> (\<forall>t. jm_wf (h t))"

lemma assign_all_grown:
  "(\<And>t. grown (h0 t) (h t)) \<Longrightarrow> grown (h0 t) (assign_all as h t)"
  by (induction as arbitrary: h) (auto simp: assign_all_def grown_assign)

lemma assign_all_outside: "t \<notin> fst ` set as \<Longrightarrow> assign_all as h t = h t"
  by (induction as arbitrary: h) (auto simp: assign_all_def)

text \<open>The undo actions registered for a list of objects.\<close>
definition undos_for :: "'v heap \<Rightarrow> 'v heap \<Rightarrow> nat list \<Rightarrow> 'v undo_action list" where
  "undos_for h0 h targets = map (\<lambda>t. (t, changesSince (h t) (object_entries (h0 t))))
     (filter (\<lambda>t. changesSince (h t) (object_entries (h0 t)) \<noteq> []) targets)"

lemma register_undo_active:
  "transactionActive s \<Longrightarrow> fold (register_undo (\<lambda>t. object_entries (h0 t))) targets s
     = s\<lparr>rollbackUndos := rollbackUndos s @ undos_for h0 (memory s) targets\<rparr>"
  by (induction targets arbitrary: s) (auto simp: register_undo_def onRollback_def undos_for_def Let_def)

lemma replay_undos_for:
  assumes "run_undo E = perform_undo" "distinct targets"
    and "\<And>t. jm_wf (h0 t)" "\<And>t. grown (h0 t) (h t)" "\<And>t. t \<notin> set targets \<Longrightarrow> h t = h0 t"
  shows "replay E (undos_for h0 h targets) h = h0"
  using assms(2,4,5)
proof (induction targets arbitrary: h rule: rev_induct)
  case Nil
  then show ?case by (simp add: undos_for_def fun_eq_iff)
next
  case (snoc t ts)
  let ?h = "h(t := h0 t)"
  have same: "undos_for h0 h ts = undos_for h0 ?h ts"
    unfolding undos_for_def using snoc.prems(1) by (intro map_cong filter_cong) auto
  have IH: "replay E (undos_for h0 ?h ts) ?h = h0"
    using snoc.prems assms(3) by (intro snoc.IH) (auto simp: grown_refl)
  have u: "snd (perform_undo (t, changesSince (h t) (object_entries (h0 t))) h) = ?h"
    using undo_changes [OF assms(3) snoc.prems(2)] by (simp add: perform_undo_def)
  show ?case
  proof (cases "changesSince (h t) (object_entries (h0 t)) = []")
    case True
    then have "?h = h" using no_changes_same [OF assms(3) snoc.prems(2)] by (metis fun_upd_idem)
    then show ?thesis using True IH by (simp add: undos_for_def)
  next
    case False
    then have "undos_for h0 h (ts @ [t]) = undos_for h0 h ts @ [(t, changesSince (h t) (object_entries (h0 t)))]"
      by (simp add: undos_for_def)
    then show ?thesis using IH u assms(1) same by (simp add: replay_def)
  qed
qed

lemma restoreOnRollback_reversible:
  fixes w :: "(('c, 'd, 'v heap, 'v undo_action, 'cb) session, string session_error, unit) io"
  assumes "run_undo E = perform_undo" "distinct targets" "in_place targets w"
  shows "reversible heap_wf E (restoreOnRollback True targets w)"
  unfolding reversible_def Let_def
proof (intro allI impI)
  fix s :: "('c, 'd, 'v heap, 'v undo_action, 'cb) session"
  assume s: "transactionActive s \<and> heap_wf (memory s)"
  obtain as where as: "fst ` set as \<subseteq> set targets"
      "snd (w s) = s\<lparr>memory := assign_all as (memory s), database := database (snd (w s))\<rparr>"
    using assms(3) unfolding in_place_def by blast
  let ?h = "assign_all as (memory s)"
  let ?s' = "snd (restoreOnRollback True targets w s)"
  have f: "transactionActive (snd (w s))" "memory (snd (w s)) = ?h"
      "rollbackUndos (snd (w s)) = rollbackUndos s" "savepointMarks (snd (w s)) = savepointMarks s"
      "transactionEndCallbacks (snd (w s)) = transactionEndCallbacks s"
    using s by (subst as(2), simp)+
  have s': "?s' = (snd (w s))\<lparr>rollbackUndos := rollbackUndos s @ undos_for (memory s) ?h targets\<rparr>"
    using s f by (simp add: restoreOnRollback_def io_finally_world register_undo_active)
  have g: "grown (memory s t) (?h t)" for t
    using s by (intro assign_all_grown) (simp add: heap_wf_def grown_refl)
  have out: "?h t = memory s t" if "t \<notin> set targets" for t
    using that as(1) by (intro assign_all_outside) auto
  have "replay E (undos_for (memory s) ?h targets) ?h = memory s"
    using s g out by (intro replay_undos_for [OF assms(1,2)]) (auto simp: heap_wf_def)
  moreover have "heap_wf ?h" using g by (auto simp: heap_wf_def grown_def)
  ultimately show "transactionActive ?s' \<and> heap_wf (memory ?s') \<and> savepointMarks ?s' = savepointMarks s
      \<and> transactionEndCallbacks ?s' = transactionEndCallbacks s
      \<and> (\<exists>us. rollbackUndos ?s' = rollbackUndos s @ us \<and> replay E us (memory ?s') = memory s)"
    unfolding s' using f by simp
qed

subsection \<open>The callbacks of the end of a transaction\<close>

text \<open>The callbacks that have run, where every callback notes its run in the memory and may throw.\<close>
definition notes_runs :: "('c, 'd, ('cb \<times> bool) list, 'u, 'cb, 'e, 'r) env \<Rightarrow> bool" where
  "notes_runs E \<longleftrightarrow> (\<forall>cb b s. snd (run_cb E cb b s) = s\<lparr>memory := memory s @ [(cb, b)]\<rparr>)"

lemma fire_one_notes:
  "notes_runs E \<Longrightarrow> memory (fire_one E b cb s) = memory s @ [(cb, b)]
    \<and> transactionEndCallbacks (fire_one E b cb s) = transactionEndCallbacks s
    \<and> transactionActive (fire_one E b cb s) = transactionActive s"
  unfolding notes_runs_def fire_one_def
  by (cases "run_cb E cb b s") (auto split: sum.splits dest!: spec [of _ cb] spec [of _ b] spec [of _ s])

lemma fold_fire_notes:
  "notes_runs E \<Longrightarrow> memory (fold (fire_one E b) cbs s) = memory s @ map (\<lambda>cb. (cb, b)) cbs
    \<and> transactionEndCallbacks (fold (fire_one E b) cbs s) = transactionEndCallbacks s
    \<and> transactionActive (fold (fire_one E b) cbs s) = transactionActive s"
  by (induction cbs arbitrary: s) (auto simp: fire_one_notes)

lemma fire_notes:
  "notes_runs E \<Longrightarrow> memory (fireTransactionEnd E b s) = memory s @ map (\<lambda>cb. (cb, b)) (rev (transactionEndCallbacks s))
    \<and> transactionEndCallbacks (fireTransactionEnd E b s) = []
    \<and> transactionActive (fireTransactionEnd E b s) = transactionActive s"
  by (simp add: fireTransactionEnd_def fold_fire_notes)

subsection \<open>Properties\<close>

definition tracked_step :: "('c, 'd, 'v heap, 'v undo_action, 'cb, string) write_code tx_step \<Rightarrow> bool" where
  "tracked_step st = (case st of
      Write c \<Rightarrow> \<exists>targets w. distinct targets \<and> in_place targets w \<and> c = restoreOnRollback True targets w
    | _ \<Rightarrow> True)"

lemma tracked_step_reversible:
  "run_undo E = perform_undo \<Longrightarrow> tracked_step st \<Longrightarrow> reversible_step heap_wf E st"
  by (cases st) (auto simp: tracked_step_def reversible_step_def intro: restoreOnRollback_reversible)

lemma commit_failed:
  "commit E s = (Inl e, s') \<Longrightarrow> s' = s\<lparr>database := database s'\<rparr>"
  by (auto simp: commit_def io_defs Let_def split: prod.splits sum.splits dest: ds_op_fields)

text \<open>C15: Inside a transaction the caller's memory, savepoints taken and gone back to included, is
  the top of a stack of snapshots: the marks of the session name the snapshots in order, and
  rolling the session back gives the snapshot BEGIN took.\<close>
theorem session_refines_snapshots:
  assumes "begun G s" "transactionEndCallbacks s = []"
    and "\<And>st. st \<in> set steps \<Longrightarrow> reversible_step G E st"
    and "a = snap_steps E steps s (begin_snapshots s)" "s' = do_steps E steps s"
  shows "memory s' = current a \<and> map mark_name (savepointMarks s') = map fst (points a)
    \<and> memory (snd (rollback E s')) = snap_rollback a \<and> snap_rollback a = memory s"
proof -
  have sim: "session_sim G E s' a"
    using do_steps_sim [OF begun_sim [OF assms(1)], of steps] assms(3,4,5) by blast
  have "list_all2 (mark_sim E (rollbackUndos s') (memory s')) (savepointMarks s') (points a)"
    using sim by (auto simp: session_sim_def)
  then have names: "map mark_name (savepointMarks s') = map fst (points a)"
    by (induction rule: list_all2_induct) (auto simp: mark_sim_def)
  have "transactionEndCallbacks s' = []"
    using callbacks_frame_steps [OF begun_sim [OF assms(1)] assms(3), of steps] assms(2,5) by simp
  then have "memory (snd (rollback E s')) = snap_rollback a"
    using sim rollback_memory [of s' E] by (auto simp: session_sim_def snap_rollback_def)
  moreover have "snap_rollback a = memory s"
    using assms(4) by (simp add: snap_rollback_def snap_steps_base begin_snapshots_def)
  ultimately show ?thesis using sim names by (auto simp: session_sim_def)
qed

text \<open>A run of tracked steps after BEGIN can be undone to the memory of BEGIN.\<close>
lemma tracked_run:
  assumes "run_undo E = perform_undo" "begun heap_wf s"
    and "\<And>st. st \<in> set steps \<Longrightarrow> tracked_step st" "s' = do_steps E steps s"
  shows "replay E (rollbackUndos s') (memory s') = memory s
    \<and> transactionEndCallbacks s' = transactionEndCallbacks s"
proof -
  have st: "\<And>st. st \<in> set steps \<Longrightarrow> reversible_step heap_wf E st"
    using assms(1,3) tracked_step_reversible by blast
  have "session_sim heap_wf E s' (snap_steps E steps s (begin_snapshots s))"
    using do_steps_sim [OF begun_sim [OF assms(2)] st, of steps] assms(4) by simp
  then show ?thesis
    using callbacks_frame_steps [OF begun_sim [OF assms(2)] st, of steps] assms(4)
    by (auto simp: session_sim_def snap_steps_base begin_snapshots_def)
qed

text \<open>C11: Rolling a transaction back puts every object the caller handed to a write back to what
  it was at BEGIN, through any sequence of writes (failed ones included), savepoints and partial
  rollbacks, also when the ROLLBACK statement itself fails, and also after a COMMIT that failed.\<close>
theorem rollback_restores_objects:
  assumes "run_undo E = perform_undo" "begun heap_wf s" "transactionEndCallbacks s = []"
    and "\<And>st. st \<in> set steps \<Longrightarrow> tracked_step st"
    and "s' = do_steps E steps s"
  shows "memory (snd (rollback E s')) = memory s
    \<and> (\<forall>e s''. commit E s' = (Inl e, s'') \<longrightarrow> memory (snd (rollback E s'')) = memory s)"
proof -
  have run: "replay E (rollbackUndos s') (memory s') = memory s" and cbs: "transactionEndCallbacks s' = []"
    using tracked_run [OF assms(1,2,4,5)] assms(3) by auto
  moreover have "memory (snd (rollback E s'')) = replay E (rollbackUndos s') (memory s')"
    if "s'' = s'\<lparr>database := d\<rparr>" for s'' d
    using that cbs by (simp add: rollback_memory)
  ultimately show ?thesis using commit_failed by (metis rollback_memory)
qed

lemma between_points:
  assumes "session_sim G E s a" "\<And>st. st \<in> set steps \<Longrightarrow> reversible_step G E st"
    and "\<And>st. st \<in> set steps \<Longrightarrow> (\<forall>m. st \<noteq> BackTo m) \<and> st \<noteq> TakeSavepoint n"
    and "points a = pre @ [(n, m0)] @ post" "\<forall>p \<in> set post. fst p \<noteq> n"
  shows "\<exists>post'. points (snap_steps E steps s a) = pre @ [(n, m0)] @ post' \<and> (\<forall>p \<in> set post'. fst p \<noteq> n)"
  using assms
proof (induction steps arbitrary: s a post)
  case Nil
  then show ?case by auto
next
  case (Cons st steps)
  obtain r s' where st: "do_step E st s = (r, s')" by fastforce
  let ?a = "snap_step st r (memory s') a"
  have sim: "session_sim G E s' ?a" using do_step_sim [OF Cons.prems(1) _ st] Cons.prems(2) by simp
  have "\<exists>post'. points ?a = pre @ [(n, m0)] @ post' \<and> (\<forall>p \<in> set post'. fst p \<noteq> n)"
    using Cons.prems(3) [of st] Cons.prems(4,5)
    by (cases st; cases r) (auto simp: snap_savepoint_def)
  then show ?case using Cons.IH [OF sim] Cons.prems(2,3) st by auto
qed

lemma dropWhile_newest:
  "\<forall>p \<in> set post. fst p \<noteq> n \<Longrightarrow> dropWhile (\<lambda>p. fst p \<noteq> n) (rev post @ (n, m) # ps) = (n, m) # ps"
  by (subst dropWhile_append2) auto

text \<open>Work between a savepoint and going back to it: it is gone, and what came before can be undone.\<close>
lemma savepoint_scope:
  assumes "session_sim G E s a" "savepoint E n s = (Inr r, s1)"
    and "\<And>st. st \<in> set steps \<Longrightarrow> reversible_step G E st"
    and "\<And>st. st \<in> set steps \<Longrightarrow> (\<forall>m. st \<noteq> BackTo m) \<and> st \<noteq> TakeSavepoint n"
    and "rollbackTo E n (do_steps E steps s1) = (Inr r', s2)"
  shows "memory s2 = memory s" "transactionActive s2" "replay E (rollbackUndos s2) (memory s2) = base a"
proof -
  have sim1: "session_sim G E s1 (snap_savepoint n a)"
    using savepoint_sim [OF assms(1,2)] by simp
  let ?b = "snap_steps E steps s1 (snap_savepoint n a)"
  have sim2: "session_sim G E (do_steps E steps s1) ?b"
    using do_steps_sim [OF sim1 assms(3)] .
  have "points (snap_savepoint n a) = points a @ [(n, current a)] @ []"
    by (simp add: snap_savepoint_def)
  then obtain post where post: "points ?b = points a @ [(n, current a)] @ post" "\<forall>p \<in> set post. fst p \<noteq> n"
    using between_points [OF sim1 assms(3), of steps n "points a" "current a" "[]"] assms(4) by auto
  then have "dropWhile (\<lambda>p. fst p \<noteq> n) (rev (points ?b)) = (n, current a) # rev (points a)"
    by (simp add: dropWhile_newest)
  then have b: "snap_rollbackTo n ?b = ?b\<lparr>points := points a @ [(n, current a)], current := current a\<rparr>"
    by (simp add: snap_rollbackTo_def)
  have "session_sim G E s2 (snap_rollbackTo n ?b)"
    using rollbackTo_sim [OF sim2 assms(5)] by simp
  then have s2: "memory s2 = current a" "transactionActive s2" "replay E (rollbackUndos s2) (memory s2) = base ?b"
    unfolding b by (auto simp: session_sim_def)
  have "memory s = current a" using assms(1) by (simp add: session_sim_def)
  then show "memory s2 = memory s" "transactionActive s2" "replay E (rollbackUndos s2) (memory s2) = base a"
    using s2 by (simp_all add: snap_steps_base snap_savepoint_def)
qed

text \<open>C12: Rolling back to a savepoint puts the caller's objects back to what they were when it was
  taken, whatever writes and inner savepoints came in between, and leaves the work done before the
  savepoint to the undo of the whole transaction.\<close>
theorem rollbackTo_restores_objects:
  assumes "run_undo E = perform_undo" "begun heap_wf s0"
    and "\<And>st. st \<in> set steps0 \<Longrightarrow> tracked_step st" "s = do_steps E steps0 s0"
    and "savepoint E n s = (Inr r, s1)"
    and "\<And>st. st \<in> set steps \<Longrightarrow> tracked_step st \<and> (\<forall>m. st \<noteq> BackTo m) \<and> st \<noteq> TakeSavepoint n"
    and "rollbackTo E n (do_steps E steps s1) = (Inr r', s2)"
  shows "memory s2 = memory s \<and> transactionActive s2 \<and> replay E (rollbackUndos s2) (memory s2) = memory s0"
proof -
  have rev: "\<And>st. st \<in> set steps0 \<Longrightarrow> reversible_step heap_wf E st"
      "\<And>st. st \<in> set steps \<Longrightarrow> reversible_step heap_wf E st"
    using assms(1,3,6) tracked_step_reversible by blast+
  have sim: "session_sim heap_wf E s (snap_steps E steps0 s0 (begin_snapshots s0))"
    using do_steps_sim [OF begun_sim [OF assms(2)] rev(1), of steps0] assms(4) by simp
  show ?thesis
    using savepoint_scope [OF sim assms(5) rev(2) _ assms(7)] assms(6)
    by (simp add: snap_steps_base begin_snapshots_def)
qed

text \<open>The transaction-end callbacks run exactly once, newest first, and none is left: told of a
  commit only after the COMMIT statement succeeded, told of a rollback also when the ROLLBACK
  statement failed, and not run at all by a COMMIT that failed. A callback that throws does not
  stop the others.\<close>
theorem transaction_end_callbacks:
  assumes "notes_runs E" "rollbackUndos s = []"
  shows "(case commit E s of
      (Inr r, s') \<Rightarrow> memory s' = memory s @ map (\<lambda>cb. (cb, True)) (rev (transactionEndCallbacks s))
        \<and> transactionEndCallbacks s' = [] \<and> \<not> transactionActive s'
    | (Inl e, s') \<Rightarrow> memory s' = memory s \<and> transactionEndCallbacks s' = transactionEndCallbacks s
        \<and> transactionActive s' = transactionActive s)
    \<and> (case rollback E s of (r, s') \<Rightarrow>
        memory s' = memory s @ map (\<lambda>cb. (cb, False)) (rev (transactionEndCallbacks s))
        \<and> transactionEndCallbacks s' = [] \<and> \<not> transactionActive s')"
proof
  obtain r s0 where d: "ds_op E Commit s = (r, s0)" by fastforce
  show "case commit E s of
      (Inr r, s') \<Rightarrow> memory s' = memory s @ map (\<lambda>cb. (cb, True)) (rev (transactionEndCallbacks s))
        \<and> transactionEndCallbacks s' = [] \<and> \<not> transactionActive s'
    | (Inl e, s') \<Rightarrow> memory s' = memory s \<and> transactionEndCallbacks s' = transactionEndCallbacks s
        \<and> transactionActive s' = transactionActive s"
    using d ds_op_frame [of E Commit s] fire_notes [OF assms(1), of True]
    by (cases r) (auto simp: commit_def io_defs Let_def)
  obtain r1 s1 where d: "ds_op E Rollback s = (r1, s1)" by fastforce
  show "case rollback E s of (r, s') \<Rightarrow>
        memory s' = memory s @ map (\<lambda>cb. (cb, False)) (rev (transactionEndCallbacks s))
        \<and> transactionEndCallbacks s' = [] \<and> \<not> transactionActive s'"
    using d ds_op_frame [of E Rollback s] fire_notes [OF assms(1), of False] assms(2)
    by (auto simp: rollback_def rollback_cleanup_def io_defs Let_def)
qed

lemma createDataSource_pure: "snd (createDataSource t c s) = s"
  by (simp add: createDataSource_def io_defs)

lemma open_source_frame:
  fixes E :: "('c, 'd, 'm, 'u, 'cb, 'e, 'r) env"
  shows "ownedConnector (snd (open_source E t c s)) = ownedConnector s
    \<and> connection (snd (open_source E t c s)) = connection s"
proof -
  obtain x :: "'e session_error + 'c data_source" where cd: "createDataSource t c s = (x, s)"
    using createDataSource_pure [of t c s] by (metis prod.collapse)
  show ?thesis
  proof (cases x)
    case (Inl e)
    then show ?thesis using cd by (simp add: open_source_def io_simps)
  next
    case (Inr ds)
    obtain r s1 where d: "ds_op E CreateConnection (s\<lparr>dataSource := Some ds\<rparr>) = (r, s1)" by fastforce
    then have "ownedConnector s1 = ownedConnector s" "connection s1 = connection s"
      using ds_op_frame(6,7) [of E CreateConnection "s\<lparr>dataSource := Some ds\<rparr>"] by simp_all
    then show ?thesis using cd Inr d by (cases r) (simp_all add: open_source_def io_defs)
  qed
qed

text \<open>A pool the session opened for a replication node is never left behind: when connecting to
  the node fails after the pool was opened, the pool is closed, and closing the session closes it
  even when the data source fails to close. Either way the session forgets it.\<close>
theorem node_pool_closed:
  assumes "ownedConnector s = None" "connectReplicationNode E (defaultType E (database s)) node (database s) = (Inr c, d)"
  shows "case connectToNode E node s of
      (Inr _, s') \<Rightarrow> ownedConnector s' = Some c \<and> ownedConnector (snd (close E s')) = None
        \<and> (\<exists>d'. database (snd (close E s')) = snd (closeConnector E c d'))
    | (Inl e, s') \<Rightarrow> ownedConnector s' = None \<and> (\<exists>d'. database s' = snd (closeConnector E c d'))
        \<and> (\<exists>e'. e = DatabaseConnectionFailed e')"
proof -
  let ?s = "s\<lparr>database := d, ownedConnector := Some c, connection := Some c\<rparr>"
  have close_owned: "ownedConnector (snd (closeOwnedConnector E w)) = None
      \<and> (\<exists>d'. database (snd (closeOwnedConnector E w)) = snd (closeConnector E c d'))
      \<and> fst (closeOwnedConnector E w) = Inr ()"
    if "ownedConnector w = Some c" for w
    using that by (cases "closeConnector E c (database w)")
      (auto simp: closeOwnedConnector_def outside_def io_defs Let_def split: sum.splits intro!: exI [of _ "database w"])
  obtain r s1 where o: "open_source E (defaultType E (database s)) c ?s = (r, s1)" by fastforce
  have own: "ownedConnector s1 = Some c \<and> connection s1 = Some c"
    using o open_source_frame [of E "defaultType E (database s)" c ?s] by simp
  show ?thesis
  proof (cases r)
    case (Inl e)
    then have "connectToNode E node s = io_then (closeOwnedConnector E) (io_throw (DatabaseConnectionFailed e)) s1"
      using assms o by (simp add: connectToNode_def outside_def io_defs Let_def)
    moreover obtain s2 where "closeOwnedConnector E s1 = (Inr (), s2)"
        "ownedConnector s2 = None" "\<exists>d'. database s2 = snd (closeConnector E c d')"
      using close_owned [of s1] own by (cases "closeOwnedConnector E s1") auto
    ultimately show ?thesis by (simp add: io_defs)
  next
    case (Inr u)
    then have c: "connectToNode E node s = (Inr u, s1)"
      using assms o by (simp add: connectToNode_def outside_def io_defs Let_def)
    have "snd (close E s1) = snd (closeOwnedConnector E (snd (io_bind (ds_op E CloseConnection) (\<lambda>_. io_return ()) s1)))"
      using own by (simp add: close_def io_finally_world)
    moreover have "ownedConnector (snd (io_bind (ds_op E CloseConnection) (\<lambda>_. io_return ()) s1)) = Some c"
      using own ds_op_frame [of E CloseConnection s1]
      by (cases "ds_op E CloseConnection s1") (auto simp: io_defs split: sum.splits)
    ultimately show ?thesis using c own close_owned by simp
  qed
qed

subsection \<open>Witnesses\<close>

text \<open>A driver that accepts everything but ROLLBACK, and notes its calls.\<close>
definition demo_env :: "(nat, ds_call list, nat heap, nat undo_action, nat, string, unit) env" where
  "demo_env = \<lparr> getConnection = \<lambda>_ d. (Inr 0, d), getType = \<lambda>_ _. None, defaultType = \<lambda>_. Some ''mysql'',
     connectReplicationNode = \<lambda>_ _ d. (Inr 7, d), closeConnector = \<lambda>_ d. (Inr (), d @ [CloseConnection]),
     hasQueryWithOptions = \<lambda>_. True,
     driver = \<lambda>_ c d. (if c = Rollback then Inl ''connection lost'' else Inr (), d @ [c]),
     run_undo = perform_undo, run_cb = \<lambda>_ _ s. (Inr (), s) \<rparr>"

definition demo_heap :: "nat heap" where
  "demo_heap = (\<lambda>t. if t = 0 then [(''name'', DataProp (Some 5))] else [])"

definition demo_session :: "(nat, ds_call list, nat heap, nat undo_action, nat) session" where
  "demo_session = (new_session [] demo_heap)\<lparr>connection := Some 0, dataSource := Some (MySqlDataSource 0),
     transactionActive := True\<rparr>"

text \<open>A write that gives object 0 a key and a new name, and then fails.\<close>
definition demo_write :: "(nat, 'd, nat heap, nat undo_action, nat, string) write_code" where
  "demo_write s = (Inl (Driver ''duplicate''), s\<lparr>memory :=
      assign_all [(0, ''id'', Some 1), (0, ''name'', Some 6)] (memory s)\<rparr>)"

lemma demo_tracked: "tracked_step (Write (restoreOnRollback True [0] demo_write))"
proof -
  have "in_place [0] demo_write"
    unfolding in_place_def
    by (intro allI exI [of _ "[(0, ''id'', Some 1), (0, ''name'', Some 6)]"]) (auto simp: demo_write_def)
  moreover have "distinct [0::nat]" by simp
  ultimately show ?thesis unfolding tracked_step_def tx_step.case by blast
qed

lemma demo_begun: "begun heap_wf demo_session" "transactionEndCallbacks demo_session = []"
  by (auto simp: begun_def demo_session_def new_session_def heap_wf_def demo_heap_def jm_wf_def)

lemma demo_undo: "run_undo demo_env = perform_undo"
  by (simp add: demo_env_def)

definition demo_steps :: "(nat, 'd, nat heap, nat undo_action, nat, string) write_code tx_step list" where
  "demo_steps = [Write (restoreOnRollback True [0] demo_write), TakeSavepoint ''a'']"

lemma demo_steps_tracked: "\<And>st. st \<in> set demo_steps \<Longrightarrow> tracked_step st"
  using demo_tracked by (auto simp: demo_steps_def) (simp add: tracked_step_def)

theorem session_refines_snapshots_witness:
  "memory (do_steps demo_env demo_steps demo_session)
     = current (snap_steps demo_env demo_steps demo_session (begin_snapshots demo_session))
   \<and> memory (snd (rollback demo_env (do_steps demo_env demo_steps demo_session))) = memory demo_session"
  using session_refines_snapshots [where G = heap_wf and s = demo_session and steps = demo_steps and E = demo_env,
      OF demo_begun _ refl refl] tracked_step_reversible [OF demo_undo demo_steps_tracked] by simp

theorem rollback_restores_objects_witness:
  "object_entries (memory (do_steps demo_env demo_steps demo_session) 0) = [(''name'', Some 6), (''id'', Some 1)]
   \<and> memory (snd (rollback demo_env (do_steps demo_env demo_steps demo_session))) = memory demo_session
   \<and> fst (rollback demo_env (do_steps demo_env demo_steps demo_session)) = Inl (Driver ''connection lost'')"
proof (intro conjI)
  show "object_entries (memory (do_steps demo_env demo_steps demo_session) 0) = [(''name'', Some 6), (''id'', Some 1)]"
    by code_simp
  show "memory (snd (rollback demo_env (do_steps demo_env demo_steps demo_session))) = memory demo_session"
    using rollback_restores_objects [OF demo_undo demo_begun demo_steps_tracked refl] by blast
  show "fst (rollback demo_env (do_steps demo_env demo_steps demo_session)) = Inl (Driver ''connection lost'')"
    by code_simp
qed

definition demo_saved :: "(nat, ds_call list, nat heap, nat undo_action, nat) session" where
  "demo_saved = snd (savepoint demo_env ''p'' demo_session)"

lemma demo_between:
  "st \<in> set demo_steps \<Longrightarrow> tracked_step st \<and> (\<forall>m. st \<noteq> BackTo m) \<and> st \<noteq> TakeSavepoint ''p''"
  using demo_steps_tracked by (auto simp: demo_steps_def)

theorem rollbackTo_restores_objects_witness:
  "memory (snd (rollbackTo demo_env ''p'' (do_steps demo_env demo_steps demo_saved))) = memory demo_session"
proof -
  have "fst (savepoint demo_env ''p'' demo_session) = Inr (Some ())" by code_simp
  then have s: "savepoint demo_env ''p'' demo_session = (Inr (Some ()), demo_saved)"
    by (simp add: demo_saved_def prod_eq_iff)
  have "fst (rollbackTo demo_env ''p'' (do_steps demo_env demo_steps demo_saved)) = Inr (Some ())" by code_simp
  then have r: "rollbackTo demo_env ''p'' (do_steps demo_env demo_steps demo_saved)
      = (Inr (Some ()), snd (rollbackTo demo_env ''p'' (do_steps demo_env demo_steps demo_saved)))"
    by (simp add: prod_eq_iff)
  have none: "\<And>st :: (nat, ds_call list, nat heap, nat undo_action, nat, string) write_code tx_step.
      st \<in> set [] \<Longrightarrow> tracked_step st" by simp
  have "demo_session = do_steps demo_env [] demo_session" by (simp add: do_steps_def)
  from rollbackTo_restores_objects [OF demo_undo demo_begun(1) none this s demo_between r] show ?thesis by blast
qed

text \<open>Callbacks 1 and 2, of which 2 throws.\<close>
definition noting_env :: "(nat, ds_call list, (nat \<times> bool) list, unit, nat, string, unit) env" where
  "noting_env = \<lparr> getConnection = \<lambda>_ d. (Inr 0, d), getType = \<lambda>_ _. None, defaultType = \<lambda>_. Some ''mysql'',
     connectReplicationNode = \<lambda>_ _ d. (Inr 7, d), closeConnector = \<lambda>_ d. (Inr (), d @ [CloseConnection]),
     hasQueryWithOptions = \<lambda>_. True,
     driver = \<lambda>_ c d. (if c = CreateConnection \<or> c = CloseConnection then Inl ''refused'' else Inr (), d @ [c]),
     run_undo = \<lambda>_ m. (Inr (), m),
     run_cb = \<lambda>cb b s. (if cb = 2 then Inl ''callback'' else Inr (), s\<lparr>memory := memory s @ [(cb, b)]\<rparr>) \<rparr>"

definition noting_session :: "(nat, ds_call list, (nat \<times> bool) list, unit, nat) session" where
  "noting_session = (new_session [] [])\<lparr>connection := Some 0, dataSource := Some (MySqlDataSource 0),
     transactionActive := True, transactionEndCallbacks := [1, 2]\<rparr>"

theorem transaction_end_callbacks_witness:
  "memory (snd (rollback noting_env noting_session)) = [(2, False), (1, False)]
   \<and> memory (snd (commit noting_env noting_session)) = [(2, True), (1, True)]"
proof -
  have h: "notes_runs noting_env" "rollbackUndos noting_session = []"
    by (auto simp: notes_runs_def noting_env_def noting_session_def new_session_def)
  have "isl (fst (commit noting_env noting_session)) = False" by code_simp
  then obtain r s' where c: "commit noting_env noting_session = (Inr r, s')"
    by (cases "commit noting_env noting_session"; cases "fst (commit noting_env noting_session)") auto
  have m: "memory noting_session = []" "transactionEndCallbacks noting_session = [1, 2]"
    by (simp_all add: noting_session_def new_session_def)
  show ?thesis
    using transaction_end_callbacks [OF h] c m by (auto split: prod.splits)
qed

theorem node_pool_closed_witness:
  "fst (connectToNode noting_env ''replica'' noting_session) = Inl (DatabaseConnectionFailed (Driver ''refused''))
   \<and> ownedConnector (snd (connectToNode noting_env ''replica'' noting_session)) = None"
proof -
  have e: "fst (connectToNode noting_env ''replica'' noting_session) = Inl (DatabaseConnectionFailed (Driver ''refused''))"
    by code_simp
  have "ownedConnector noting_session = None"
    "connectReplicationNode noting_env (defaultType noting_env (database noting_session)) ''replica'' (database noting_session)
       = (Inr 7, [])"
    by (simp_all add: noting_session_def noting_env_def new_session_def)
  from node_pool_closed [OF this] e show ?thesis
    by (cases "connectToNode noting_env ''replica'' noting_session") auto
qed

end
