(* ===== verification/DataSource.thy ===== *)
theory DataSource
  imports TxSession "HOL-Library.Multiset"
begin

section \<open>Pooled data sources\<close>

text \<open>
  Models of the MySQL and PostgreSQL data sources (\<^verbatim>\<open>src/dialects/mysql/MySqlDataSource.ts\<close>,
  \<^verbatim>\<open>src/dialects/postgres/PostgresDataSource.ts\<close>) with the transaction methods of their
  connectors (\<^verbatim>\<open>MySqlConnector.ts\<close>, \<^verbatim>\<open>PostgresConnector.ts\<close>). The pool and the server are
  the parameter \<open>wire\<close>: they are the \<^verbatim>\<open>mysql2\<close> and \<^verbatim>\<open>pg\<close> packages. The state keeps the
  connection the data source holds and, for the statements about leaks, the lists of connections
  that were checked out, released and destroyed. Statements run one at a time, so the queue of
  \<^verbatim>\<open>PostgresDataSource\<close>, which orders statements in flight, is always empty.
\<close>

subsection \<open>The wire and the state\<close>

datatype command = Sql string | BeginCmd | CommitCmd | RollbackCmd

record ('k, 'e, 'r, 's) wire =
  pool_acquire :: "'s \<Rightarrow> ('e + 'k) \<times> 's"
  wire_ping :: "'k \<Rightarrow> 's \<Rightarrow> bool \<times> 's"
  wire_send :: "'k \<Rightarrow> command \<Rightarrow> 's \<Rightarrow> ('e + 'r) \<times> 's"
  validateOnBorrow :: bool

datatype 'e ds_error = NoConnection | ConnectorError OrmErrorCode | Wire 'e

record ('k, 's) pool_state =
  held :: "'k option"
  borrowed :: "'k list"
  released :: "'k list"
  destroyed :: "'k list"
  server :: 's

definition acquireRawConnection :: "('k, 'e, 'r, 's) wire \<Rightarrow> (('k, 's, 'z) pool_state_scheme, 'e ds_error, 'k) io" where
  "acquireRawConnection W st = (case pool_acquire W (server st) of
      (Inl e, s) \<Rightarrow> (Inl (Wire e), st\<lparr>server := s\<rparr>)
    | (Inr k, s) \<Rightarrow> (Inr k, st\<lparr>server := s, borrowed := borrowed st @ [k]\<rparr>))"

definition pingConnection :: "('k, 'e, 'r, 's) wire \<Rightarrow> 'k \<Rightarrow> (('k, 's, 'z) pool_state_scheme, 'e ds_error, bool) io" where
  "pingConnection W k st = (case wire_ping W k (server st) of (ok, s) \<Rightarrow> (Inr ok, st\<lparr>server := s\<rparr>))"

definition destroy :: "'k \<Rightarrow> ('k, 's, 'z) pool_state_scheme \<Rightarrow> ('k, 's, 'z) pool_state_scheme" where
  "destroy k st = st\<lparr>destroyed := destroyed st @ [k]\<rparr>"

definition release :: "'k \<Rightarrow> ('k, 's, 'z) pool_state_scheme \<Rightarrow> ('k, 's, 'z) pool_state_scheme" where
  "release k st = st\<lparr>released := released st @ [k]\<rparr>"

text \<open>\<^verbatim>\<open>getConnection\<close>, the same in both connectors: a stale connection is replaced once.\<close>
definition getPooledConnection :: "('k, 'e, 'r, 's) wire \<Rightarrow> (('k, 's, 'z) pool_state_scheme, 'e ds_error, 'k) io" where
  "getPooledConnection W = io_bind (acquireRawConnection W) (\<lambda>conn.
     if \<not> validateOnBorrow W then io_return conn
     else io_bind (pingConnection W conn) (\<lambda>alive.
       if alive then io_return conn
       else (\<lambda>st. io_bind (acquireRawConnection W) (\<lambda>retry.
               io_bind (pingConnection W retry) (\<lambda>alive.
                 if alive then io_return retry
                 else (\<lambda>st. (Inl (ConnectorError CONNECTION_FAILED), destroy retry st)))) (destroy conn st))))"

definition send :: "('k, 'e, 'r, 's) wire \<Rightarrow> 'k \<Rightarrow> command \<Rightarrow> (('k, 's, 'z) pool_state_scheme, 'e ds_error, 'r option) io" where
  "send W k c st = (case wire_send W k c (server st) of
      (Inl e, s) \<Rightarrow> (Inl (Wire e), st\<lparr>server := s\<rparr>)
    | (Inr r, s) \<Rightarrow> (Inr (Some r), st\<lparr>server := s\<rparr>))"

text \<open>The guard \<^verbatim>\<open>if (!this.connection) throw\<close> every method of a data source starts with.\<close>
definition with_conn :: "('k \<Rightarrow> (('k, 's, 'z) pool_state_scheme, 'e ds_error, 'a) io)
    \<Rightarrow> (('k, 's, 'z) pool_state_scheme, 'e ds_error, 'a) io" where
  "with_conn f st = (case held st of None \<Rightarrow> (Inl NoConnection, st) | Some k \<Rightarrow> f k st)"

definition createConnection :: "('k, 'e, 'r, 's) wire \<Rightarrow> (('k, 's, 'z) pool_state_scheme, 'e ds_error, 'r option) io" where
  "createConnection W = io_bind (getPooledConnection W) (\<lambda>k st. (Inr None, st\<lparr>held := Some k\<rparr>))"

text \<open>\<^verbatim>\<open>setTransactionIsolationLevel\<close>: the statement of a valid level.\<close>
definition isolation_sql :: "string \<Rightarrow> string" where
  "isolation_sql level = ''SET TRANSACTION ISOLATION LEVEL '' @ level"

definition setTransactionIsolationLevel :: "('k, 'e, 'r, 's) wire \<Rightarrow> 'k \<Rightarrow> string
    \<Rightarrow> (('k, 's, 'z) pool_state_scheme, 'e ds_error, 'r option) io" where
  "setTransactionIsolationLevel W k level = (case validateIsolationLevel level of
      Inl e \<Rightarrow> io_throw (ConnectorError e)
    | Inr _ \<Rightarrow> send W k (Sql (isolation_sql level)))"

definition checked_name :: "string \<Rightarrow> (('k, 's, 'z) pool_state_scheme, 'e ds_error, 'a) io
    \<Rightarrow> (('k, 's, 'z) pool_state_scheme, 'e ds_error, 'a) io" where
  "checked_name name m = (case validateSavepointName name of
      Inl e \<Rightarrow> io_throw (ConnectorError e) | Inr _ \<Rightarrow> m)"

subsection \<open>MySQL\<close>

definition my_startTransaction :: "('k, 'e, 'r, 's) wire \<Rightarrow> string option \<Rightarrow> 'k
    \<Rightarrow> (('k, 's) pool_state, 'e ds_error, 'r option) io" where
  "my_startTransaction W level k =
     io_then (setTransactionIsolationLevel W k (case level of Some l \<Rightarrow> l | None \<Rightarrow> ''READ COMMITTED''))
       (io_then (send W k BeginCmd) (io_return None))"

definition my_rollback :: "('k, 'e, 'r, 's) wire \<Rightarrow> 'k \<Rightarrow> (('k, 's) pool_state, 'e ds_error, 'r option) io" where
  "my_rollback W k st = (case send W k RollbackCmd st of
      (Inl e, st) \<Rightarrow> (Inl e, destroy k st)
    | (Inr _, st) \<Rightarrow> (Inr None, release k st))"

definition my_commit :: "('k, 'e, 'r, 's) wire \<Rightarrow> 'k \<Rightarrow> (('k, 's) pool_state, 'e ds_error, 'r option) io" where
  "my_commit W k st = (case send W k CommitCmd st of
      (Inl e, st) \<Rightarrow> (case send W k RollbackCmd st of
          (Inl _, st) \<Rightarrow> (Inl e, destroy k st)
        | (Inr _, st) \<Rightarrow> (Inl e, release k st))
    | (Inr _, st) \<Rightarrow> (Inr None, release k st))"

text \<open>\<^verbatim>\<open>try { ... } finally { this.connection = undefined }\<close>\<close>
definition dropping :: "(('k, 's, 'z) pool_state_scheme, 'e, 'a) io \<Rightarrow> (('k, 's, 'z) pool_state_scheme, 'e, 'a) io" where
  "dropping m = io_finally m (\<lambda>st. (Inr (), st\<lparr>held := None\<rparr>))"

fun mysql_call :: "('k, 'e, 'r, 's) wire \<Rightarrow> ds_call \<Rightarrow> (('k, 's) pool_state, 'e ds_error, 'r option) io" where
  "mysql_call W CreateConnection = createConnection W"
| "mysql_call W CloseConnection = (\<lambda>st. (case held st of
      None \<Rightarrow> (Inr None, st) | Some k \<Rightarrow> (Inr None, release k (st\<lparr>held := None\<rparr>))))"
| "mysql_call W (StartTransaction level) = with_conn (my_startTransaction W level)"
| "mysql_call W Rollback = with_conn (\<lambda>k. dropping (my_rollback W k))"
| "mysql_call W Commit = with_conn (\<lambda>k. dropping (my_commit W k))"
| "mysql_call W (Query sql) = with_conn (\<lambda>k. send W k (Sql sql))"
| "mysql_call W (QueryWithOptions sql opts) = with_conn (\<lambda>k. send W k (Sql sql))"
| "mysql_call W (Savepoint name) = with_conn (\<lambda>k. checked_name name
     (io_then (send W k (Sql (''SAVEPOINT '' @ quote_with (CHR 0x60) name))) (io_return None)))"
| "mysql_call W (RollbackTo name) = with_conn (\<lambda>k. checked_name name
     (io_then (send W k (Sql (''ROLLBACK TO '' @ quote_with (CHR 0x60) name))) (io_return None)))"

subsection \<open>PostgreSQL\<close>

text \<open>\<^verbatim>\<open>searchPath\<close>: \<open>None\<close> is \<^verbatim>\<open>undefined\<close> (not followed), \<open>Some None\<close> is \<^verbatim>\<open>null\<close> (unknown).\<close>
record ('k, 's) pg_state = "('k, 's) pool_state" +
  searchPath :: "string option option"
  savepointPaths :: "(string \<times> string option) list"

record pg_config =
  tenantStrategy :: string
  schema :: "string"

definition is_ident_char :: "char \<Rightarrow> bool" where
  "is_ident_char c \<longleftrightarrow> is_lower c \<or> is_upper c \<or> is_digit c \<or> c = CHR ''_'' \<or> c = CHR ''-'' \<or> c = CHR ''$''"

definition isValidPgIdentifier :: "string \<Rightarrow> bool" where
  "isValidPgIdentifier name \<longleftrightarrow> (case name of [] \<Rightarrow> False | c # cs \<Rightarrow> is_name_start c \<and> list_all is_ident_char cs)"

definition searchPathFor :: "pg_config \<Rightarrow> string \<Rightarrow> string option" where
  "searchPathFor cfg tenant =
     (if tenantStrategy cfg = ''tenant_column'' \<or> tenantStrategy cfg = ''database'' then None
      else if tenant = ''public'' then Some (schema cfg)
      else if \<not> isValidPgIdentifier tenant then Some (schema cfg)
      else Some tenant)"

definition set_path_sql :: "string \<Rightarrow> string" where
  "set_path_sql sch = ''SET LOCAL search_path TO '' @ quote_with (CHR 0x22) sch"

definition setLocalSearchPath :: "('k, 'e, 'r, 's) wire \<Rightarrow> 'k \<Rightarrow> string
    \<Rightarrow> (('k, 's) pg_state, 'e ds_error, 'r option) io" where
  "setLocalSearchPath W k sch =
     (if \<not> isValidPgIdentifier sch then io_throw (ConnectorError INVALID_QUERY)
      else send W k (Sql (set_path_sql sch)))"

definition pg_connector_start :: "('k, 'e, 'r, 's) wire \<Rightarrow> pg_config \<Rightarrow> string \<Rightarrow> string option \<Rightarrow> 'k
    \<Rightarrow> (('k, 's) pg_state, 'e ds_error, unit) io" where
  "pg_connector_start W cfg tenant level k =
     io_then (send W k (Sql ''BEGIN''))
       (io_then (case level of None \<Rightarrow> io_return None | Some l \<Rightarrow> setTransactionIsolationLevel W k l)
          (case searchPathFor cfg tenant of
             Some sch \<Rightarrow> if sch \<noteq> ''public'' then io_then (setLocalSearchPath W k sch) (io_return ()) else io_return ()
           | None \<Rightarrow> io_return ()))"

definition pg_startTransaction :: "('k, 'e, 'r, 's) wire \<Rightarrow> pg_config \<Rightarrow> string \<Rightarrow> string option \<Rightarrow> 'k
    \<Rightarrow> (('k, 's) pg_state, 'e ds_error, 'r option) io" where
  "pg_startTransaction W cfg tenant level k =
     io_then (pg_connector_start W cfg tenant level k)
       (\<lambda>st. (Inr None, st\<lparr>searchPath := map_option Some (searchPathFor cfg tenant), savepointPaths := []\<rparr>))"

definition pg_rollback :: "('k, 'e, 'r, 's) wire \<Rightarrow> 'k \<Rightarrow> (('k, 's) pg_state, 'e ds_error, 'r option) io" where
  "pg_rollback W k st = (case send W k (Sql ''ROLLBACK'') st of
      (Inl e, st) \<Rightarrow> (Inl e, destroy k st)
    | (Inr _, st) \<Rightarrow> (Inr None, release k st))"

definition pg_commit :: "('k, 'e, 'r, 's) wire \<Rightarrow> 'k \<Rightarrow> (('k, 's) pg_state, 'e ds_error, 'r option) io" where
  "pg_commit W k st = (case send W k (Sql ''COMMIT'') st of
      (Inl e, st) \<Rightarrow> (case send W k (Sql ''ROLLBACK'') st of
          (Inl _, st) \<Rightarrow> (Inl e, destroy k st)
        | (Inr _, st) \<Rightarrow> (Inl e, release k st))
    | (Inr _, st) \<Rightarrow> (Inr None, release k st))"

definition endTransaction :: "('k, 's) pg_state \<Rightarrow> ('k, 's) pg_state" where
  "endTransaction st = st\<lparr>searchPath := None, savepointPaths := []\<rparr>"

definition pg_ending :: "(('k, 's) pg_state, 'e, 'a) io \<Rightarrow> (('k, 's) pg_state, 'e, 'a) io" where
  "pg_ending m = io_finally m (\<lambda>st. (Inr (), endTransaction (st\<lparr>held := None\<rparr>)))"

definition inTenantSchema :: "('k, 'e, 'r, 's) wire \<Rightarrow> pg_config \<Rightarrow> string \<Rightarrow> 'k
    \<Rightarrow> (('k, 's) pg_state, 'e ds_error, 'r option) io \<Rightarrow> (('k, 's) pg_state, 'e ds_error, 'r option) io" where
  "inTenantSchema W cfg tenant k statement st =
     (if searchPath st = None then statement st
      else let sch = searchPathFor cfg tenant
        in if map_option Some sch = searchPath st then statement st
           else case sch of
             None \<Rightarrow> statement st
           | Some sch \<Rightarrow> io_then (setLocalSearchPath W k sch)
               (\<lambda>st. statement (st\<lparr>searchPath := Some (Some sch)\<rparr>)) (st\<lparr>searchPath := Some None\<rparr>))"

definition pg_savepoint :: "('k, 'e, 'r, 's) wire \<Rightarrow> string \<Rightarrow> 'k \<Rightarrow> (('k, 's) pg_state, 'e ds_error, 'r option) io" where
  "pg_savepoint W name k st =
     io_then (send W k (Sql (''SAVEPOINT '' @ quote_with (CHR 0x22) name))) (io_return None)
       (case searchPath st of
          None \<Rightarrow> st
        | Some p \<Rightarrow> st\<lparr>savepointPaths := savepointPaths st @ [(name, p)]\<rparr>)"

text \<open>The search from the newest mark down, from \<^verbatim>\<open>index + 1 = n\<close>.\<close>
fun path_index :: "(string \<times> 'a) list \<Rightarrow> string \<Rightarrow> nat \<Rightarrow> nat option" where
  "path_index marks name 0 = None"
| "path_index marks name (Suc i) = (if fst (marks ! i) = name then Some i else path_index marks name i)"

definition pg_back :: "string \<Rightarrow> ('k, 's) pg_state \<Rightarrow> ('k, 's) pg_state" where
  "pg_back name st =
     (if searchPath st = None then st
      else case path_index (savepointPaths st) name (length (savepointPaths st)) of
             Some i \<Rightarrow> st\<lparr>searchPath := Some (snd (savepointPaths st ! i)), savepointPaths := take (i + 1) (savepointPaths st)\<rparr>
           | None \<Rightarrow> st\<lparr>searchPath := Some None\<rparr>)"

definition pg_rollbackTo :: "('k, 'e, 'r, 's) wire \<Rightarrow> string \<Rightarrow> 'k \<Rightarrow> (('k, 's) pg_state, 'e ds_error, 'r option) io" where
  "pg_rollbackTo W name k st =
     (case send W k (Sql (''ROLLBACK TO SAVEPOINT '' @ quote_with (CHR 0x22) name)) (pg_back name st) of
        (Inl e, st) \<Rightarrow> (Inl e, if searchPath st \<noteq> None then st\<lparr>searchPath := Some None\<rparr> else st)
      | (Inr _, st) \<Rightarrow> (Inr None, st))"

text \<open>A call made while \<open>tenant\<close> is the current tenant.\<close>
fun pg_call :: "('k, 'e, 'r, 's) wire \<Rightarrow> pg_config \<Rightarrow> string \<Rightarrow> ds_call \<Rightarrow> (('k, 's) pg_state, 'e ds_error, 'r option) io" where
  "pg_call W cfg tenant CreateConnection = createConnection W"
| "pg_call W cfg tenant CloseConnection = (\<lambda>st. (case held st of
      None \<Rightarrow> (Inr None, st)
    | Some k \<Rightarrow> (Inr None, endTransaction ((release k st)\<lparr>held := None\<rparr>))))"
| "pg_call W cfg tenant (StartTransaction level) = with_conn (pg_startTransaction W cfg tenant level)"
| "pg_call W cfg tenant Rollback = with_conn (\<lambda>k. pg_ending (pg_rollback W k))"
| "pg_call W cfg tenant Commit = with_conn (\<lambda>k. pg_ending (pg_commit W k))"
| "pg_call W cfg tenant (Query sql) = with_conn (\<lambda>k. inTenantSchema W cfg tenant k (send W k (Sql sql)))"
| "pg_call W cfg tenant (QueryWithOptions sql opts) = with_conn (\<lambda>k. inTenantSchema W cfg tenant k (send W k (Sql sql)))"
| "pg_call W cfg tenant (Savepoint name) = with_conn (\<lambda>k. checked_name name (pg_savepoint W name k))"
| "pg_call W cfg tenant (RollbackTo name) = with_conn (\<lambda>k. checked_name name (pg_rollbackTo W name k))"

subsection \<open>Every connection goes back to the pool exactly once\<close>

text \<open>A connection that was checked out is held, released or destroyed, and only one of them.\<close>
definition accounted :: "('k, 's, 'z) pool_state_scheme \<Rightarrow> bool" where
  "accounted st \<longleftrightarrow> mset (borrowed st) = mset (released st) + mset (destroyed st)
     + (case held st of None \<Rightarrow> {#} | Some k \<Rightarrow> {#k#})"

text \<open>The books apart from what is held: \<open>out\<close> are the connections on their way.\<close>
definition books :: "('k, 's, 'z) pool_state_scheme \<Rightarrow> 'k multiset \<Rightarrow> bool" where
  "books st out \<longleftrightarrow> mset (borrowed st) = mset (released st) + mset (destroyed st) + out"

lemma accounted_books: "accounted st \<longleftrightarrow> books st (case held st of None \<Rightarrow> {#} | Some k \<Rightarrow> {#k#})"
  by (simp add: accounted_def books_def)

definition same_books :: "('k, 's, 'z) pool_state_scheme \<Rightarrow> ('k, 's, 'z) pool_state_scheme \<Rightarrow> bool" where
  "same_books st st' \<longleftrightarrow> held st' = held st \<and> borrowed st' = borrowed st
     \<and> released st' = released st \<and> destroyed st' = destroyed st"

lemma same_books_refl [simp]: "same_books st st"
  by (simp add: same_books_def)

lemma same_books_trans: "same_books a b \<Longrightarrow> same_books b c \<Longrightarrow> same_books a c"
  by (simp add: same_books_def)

lemma same_books_accounted: "same_books st st' \<Longrightarrow> accounted st' = accounted st"
  by (simp add: same_books_def accounted_def)

text \<open>A computation that only talks to the server.\<close>
definition talks :: "(('k, 's, 'z) pool_state_scheme, 'e, 'a) io \<Rightarrow> bool" where
  "talks m \<longleftrightarrow> (\<forall>st. same_books st (snd (m st)))"

lemma talks_send [intro]: "talks (send W k c)"
  by (auto simp: talks_def send_def same_books_def split: prod.splits sum.splits)

lemma talks_return [intro]: "talks (io_return x)" "talks (io_throw e)"
  by (simp_all add: talks_def io_defs)

lemma talks_bind [intro]: "talks m \<Longrightarrow> (\<And>a. talks (f a)) \<Longrightarrow> talks (io_bind m f)"
  unfolding talks_def
proof
  fix st
  assume m: "\<forall>st. same_books st (snd (m st))" and f: "\<And>a. \<forall>st. same_books st (snd (f a st))"
  obtain r st1 where r: "m st = (r, st1)" by fastforce
  then have s1: "same_books st st1" using m by (metis snd_conv)
  show "same_books st (snd (io_bind m f st))"
    using r f s1 same_books_trans [OF s1] by (cases r) (auto simp: io_simps)
qed

lemma talks_then [intro]: "talks m \<Longrightarrow> talks k \<Longrightarrow> talks (io_then m k)"
  by (simp add: io_then_def talks_bind)

lemma talks_checked [intro]: "talks m \<Longrightarrow> talks (checked_name name m)"
  by (auto simp: checked_name_def split: sum.splits)

lemma talks_isolation [intro]: "talks (setTransactionIsolationLevel W k l)"
  by (auto simp: setTransactionIsolationLevel_def split: sum.splits)

lemma talks_setLocal [intro]: "talks (setLocalSearchPath W k sch)"
  by (auto simp: setLocalSearchPath_def)

lemma accounted_with_conn:
  assumes "accounted st" "\<And>k. held st = Some k \<Longrightarrow> accounted (snd (f k st))"
  shows "accounted (snd (with_conn f st))"
  using assms by (auto simp: with_conn_def split: option.splits)

lemma talks_accounted: "talks m \<Longrightarrow> accounted st \<Longrightarrow> accounted (snd (m st))"
  using same_books_accounted unfolding talks_def by blast

lemma accounted_send_return:
  assumes "accounted st" "held st = Some k" "same_books st st'"
  shows "books st' {#k#}" "held st' = Some k"
  using assms by (auto simp: same_books_def accounted_def books_def)

lemma books_return: "books st (add_mset k out) \<Longrightarrow> books (release k st) out"
  "books st (add_mset k out) \<Longrightarrow> books (destroy k st) out"
  by (simp_all add: books_def release_def destroy_def)

lemma getPooledConnection_books:
  assumes "getPooledConnection W st = (r, st')" "books st out"
  shows "books st' (case r of Inr k \<Rightarrow> add_mset k out | Inl _ \<Rightarrow> out) \<and> held st' = held st"
  using assms
  by (auto simp: getPooledConnection_def acquireRawConnection_def pingConnection_def io_defs destroy_def books_def
      split: prod.splits sum.splits if_splits)

lemma createConnection_accounted:
  assumes "accounted st" "held st = None"
  shows "accounted (snd (createConnection W st))"
proof -
  obtain r st' where g: "getPooledConnection W st = (r, st')" by fastforce
  show ?thesis
    using getPooledConnection_books [OF g, of "{#}"] assms g
    by (cases r) (auto simp: createConnection_def io_defs accounted_books books_def)
qed

lemma my_rollback_books: "books st {#k#} \<Longrightarrow> books (snd (my_rollback W k st)) {#}"
  using talks_send [of W k RollbackCmd]
  by (auto simp: my_rollback_def talks_def same_books_def books_def release_def destroy_def
      split: prod.splits sum.splits dest!: spec [of _ st])

lemma pg_rollback_books: "books st {#k#} \<Longrightarrow> books (snd (pg_rollback W k st)) {#}"
  using talks_send [of W k "Sql ''ROLLBACK''"]
  by (auto simp: pg_rollback_def talks_def same_books_def books_def release_def destroy_def
      split: prod.splits sum.splits dest!: spec [of _ st])

lemma send_books: "send W k c st = (r, st') \<Longrightarrow> books st out \<Longrightarrow> books st' out"
  using talks_send [of W k c] unfolding talks_def same_books_def books_def by (metis snd_conv)

lemma my_commit_books: "books st {#k#} \<Longrightarrow> books (snd (my_commit W k st)) {#}"
  unfolding my_commit_def
  by (auto split: prod.splits sum.splits intro!: books_return dest: send_books)

lemma pg_commit_books: "books st {#k#} \<Longrightarrow> books (snd (pg_commit W k st)) {#}"
  unfolding pg_commit_def
  by (auto split: prod.splits sum.splits intro!: books_return dest: send_books)

lemma talks_after: "talks m \<Longrightarrow> (\<And>st. same_books st (f st)) \<Longrightarrow> same_books st (snd (m (f st)))"
  unfolding talks_def by (blast intro: same_books_trans)

lemma talks_set [intro]: "(\<And>st. same_books st (f st)) \<Longrightarrow> talks (\<lambda>st. (r, f st))"
  by (simp add: talks_def)

lemma talks_pg_start: "talks (pg_startTransaction W cfg tenant level k)"
  unfolding pg_startTransaction_def pg_connector_start_def
  by (intro talks_then) (auto split: option.splits simp: same_books_def)

lemma talks_inTenantSchema:
  assumes "talks statement"
  shows "talks (inTenantSchema W cfg tenant k statement)"
proof -
  have t: "talks (io_then (setLocalSearchPath W k sch) (\<lambda>st. statement (st\<lparr>searchPath := p\<rparr>)))" for sch p
    using talks_after [OF assms, of "\<lambda>st. st\<lparr>searchPath := p\<rparr>"]
    by (intro talks_then talks_setLocal) (auto simp: talks_def same_books_def)
  have "same_books st (snd (io_then (setLocalSearchPath W k sch)
      (\<lambda>st. statement (st\<lparr>searchPath := p\<rparr>)) (st\<lparr>searchPath := q\<rparr>)))" for sch p q st
    using t [of sch p] unfolding talks_def
    by (elim allE [of _ "st\<lparr>searchPath := q\<rparr>"]) (simp add: same_books_def)
  then show ?thesis
    using assms by (auto simp: talks_def inTenantSchema_def Let_def split: option.splits)
qed

lemma talks_pg_savepoint: "talks (pg_savepoint W name k)"
proof -
  have t: "talks (io_then (send W k c) (io_return None))" for c by blast
  show ?thesis
    using t [of "Sql (''SAVEPOINT '' @ quote_with (CHR 0x22) name)"]
    by (auto simp: talks_def pg_savepoint_def same_books_def split: option.splits)
qed

lemma talks_pg_rollbackTo: "talks (pg_rollbackTo W name k)"
proof -
  have b: "same_books st (pg_back name st)" for st :: "('k, 's) pg_state"
    by (auto simp: pg_back_def same_books_def split: option.splits)
  have "same_books st (snd (send W k c (pg_back name st)))" for c st
    by (rule talks_after [OF talks_send b])
  then show ?thesis
    unfolding talks_def pg_rollbackTo_def
    by (auto simp: same_books_def split: prod.splits sum.splits)
       (metis snd_conv)+
qed

lemma talks_with_conn: "(\<And>k. talks (f k)) \<Longrightarrow> talks (with_conn f)"
  by (auto simp: talks_def with_conn_def split: option.splits)

lemma dropping_accounted: "books (snd (m st)) {#} \<Longrightarrow> accounted (snd (dropping m st))"
  by (simp add: dropping_def io_finally_world accounted_def books_def)

lemma pg_ending_accounted: "books (snd (m st)) {#} \<Longrightarrow> accounted (snd (pg_ending m st))"
  by (simp add: pg_ending_def io_finally_world accounted_def books_def endTransaction_def)

lemma held_books: "accounted st \<Longrightarrow> held st = Some k \<Longrightarrow> books st {#k#}"
  by (simp add: accounted_books)

lemma mysql_accounted:
  assumes "accounted st" "c = CreateConnection \<Longrightarrow> held st = None"
  shows "accounted (snd (mysql_call W c st))"
proof (cases c)
  case CreateConnection
  then show ?thesis using assms createConnection_accounted by simp
next
  case CloseConnection
  then show ?thesis using assms(1) by (auto simp: accounted_def release_def split: option.splits)
next
  case Commit
  then show ?thesis
    using assms(1) by (auto intro!: accounted_with_conn dropping_accounted my_commit_books held_books)
next
  case Rollback
  then show ?thesis
    using assms(1) by (auto intro!: accounted_with_conn dropping_accounted my_rollback_books held_books)
qed (use assms(1) in \<open>auto intro!: talks_accounted talks_with_conn talks_then talks_isolation talks_send
       talks_return talks_checked simp: my_startTransaction_def\<close>)

lemma pg_accounted:
  assumes "accounted st" "c = CreateConnection \<Longrightarrow> held st = None"
  shows "accounted (snd (pg_call W cfg tenant c st))"
proof (cases c)
  case CreateConnection
  then show ?thesis using assms createConnection_accounted by simp
next
  case CloseConnection
  then show ?thesis using assms(1) by (auto simp: accounted_def release_def endTransaction_def split: option.splits)
next
  case Commit
  then show ?thesis
    using assms(1) by (auto intro!: accounted_with_conn pg_ending_accounted pg_commit_books held_books)
next
  case Rollback
  then show ?thesis
    using assms(1) by (auto intro!: accounted_with_conn pg_ending_accounted pg_rollback_books held_books)
qed (use assms(1) in \<open>auto intro!: talks_accounted talks_with_conn talks_checked talks_pg_start
       talks_inTenantSchema talks_pg_savepoint talks_pg_rollbackTo talks_send\<close>)

subsection \<open>What a session may rely on\<close>

text \<open>
  The contract of a pooled data source towards its session: COMMIT, ROLLBACK and close drop the
  connection whatever happens, and without one every call but the first and the last fails.
\<close>
locale pooled_data_source =
  fixes call :: "ds_call \<Rightarrow> 'd \<Rightarrow> ('e ds_error + 'r option) \<times> 'd"
    and has_conn :: "'d \<Rightarrow> bool"
  assumes commit_drops: "\<not> has_conn (snd (call Commit d))"
    and rollback_drops: "\<not> has_conn (snd (call Rollback d))"
    and close_drops: "\<not> has_conn (snd (call CloseConnection d))"
    and no_conn: "\<not> has_conn d \<Longrightarrow> c \<notin> {CreateConnection, CloseConnection} \<Longrightarrow> fst (call c d) = Inl NoConnection"
    and close_returns: "fst (call CloseConnection d) = Inr None"
begin

text \<open>Rolling back after a COMMIT that failed fails too: the connection is gone already.\<close>
lemma rollback_after_commit:
  "fst (call Rollback (snd (call Commit d))) = Inl NoConnection"
  using commit_drops [of d] no_conn [of "snd (call Commit d)" Rollback] by simp

lemma commit_after_rollback:
  "fst (call Commit (snd (call Rollback d))) = Inl NoConnection"
  using rollback_drops [of d] no_conn [of "snd (call Rollback d)" Commit] by simp

lemma nothing_after_close:
  "c \<notin> {CreateConnection, CloseConnection} \<Longrightarrow> fst (call c (snd (call CloseConnection d))) = Inl NoConnection"
  using close_drops [of d] no_conn [of "snd (call CloseConnection d)" c] by simp

end

lemma dropping_held: "held (snd (dropping m st)) = None"
  by (simp add: dropping_def io_finally_world)

lemma pg_ending_held: "held (snd (pg_ending m st)) = None"
  by (simp add: pg_ending_def io_finally_world endTransaction_def)

interpretation mysql: pooled_data_source "mysql_call W" "\<lambda>st. held st \<noteq> None"
proof (unfold_locales, goal_cases)
  case (4 d c)
  then show ?case by (cases c) (simp_all add: with_conn_def)
qed (auto simp: with_conn_def dropping_held release_def split: option.splits)

interpretation pg: pooled_data_source "pg_call W cfg tenant" "\<lambda>st. held st \<noteq> None"
proof (unfold_locales, goal_cases)
  case (4 d c)
  then show ?case by (cases c) (simp_all add: with_conn_def)
qed (auto simp: with_conn_def pg_ending_held release_def endTransaction_def split: option.splits)

subsection \<open>The search path the data source follows is the server's\<close>

text \<open>
  What PostgreSQL documents of \<^verbatim>\<open>SET LOCAL\<close> and savepoints, over the search path in effect on a
  connection and the open savepoints with theirs; \<open>plain\<close> statements are those that touch neither.
\<close>
definition pg_server_laws :: "('k, 'e, 'r, 's) wire \<Rightarrow> ('k \<Rightarrow> 's \<Rightarrow> string)
    \<Rightarrow> ('k \<Rightarrow> 's \<Rightarrow> (string \<times> string) list) \<Rightarrow> (string \<Rightarrow> bool) \<Rightarrow> bool" where
  "pg_server_laws W path saves plain \<longleftrightarrow>
     (\<forall>k s r s'. wire_send W k (Sql ''BEGIN'') s = (Inr r, s') \<longrightarrow> path k s' = ''public'' \<and> saves k s' = [])
   \<and> (\<forall>k s r s' sch. wire_send W k (Sql (set_path_sql sch)) s = (Inr r, s') \<longrightarrow> path k s' = sch)
   \<and> (\<forall>k s r s' sch. wire_send W k (Sql (set_path_sql sch)) s = (r, s') \<longrightarrow> saves k s' = saves k s)
   \<and> (\<forall>k s r s' n. wire_send W k (Sql (''SAVEPOINT '' @ quote_with (CHR 0x22) n)) s = (Inr r, s') \<longrightarrow>
        path k s' = path k s \<and> saves k s' = saves k s @ [(n, path k s)])
   \<and> (\<forall>k s r s' n. wire_send W k (Sql (''ROLLBACK TO SAVEPOINT '' @ quote_with (CHR 0x22) n)) s = (Inr r, s') \<longrightarrow>
        (\<exists>i < length (saves k s). fst (saves k s ! i) = n \<and> (\<forall>j. i < j \<and> j < length (saves k s) \<longrightarrow> fst (saves k s ! j) \<noteq> n)
          \<and> path k s' = snd (saves k s ! i) \<and> saves k s' = take (Suc i) (saves k s)))
   \<and> (\<forall>k s r s' q. plain q \<and> wire_send W k (Sql q) s = (r, s') \<longrightarrow> path k s' = path k s \<and> saves k s' = saves k s)"

text \<open>The data source knows the path of the open transaction, or that it does not know it.\<close>
definition mirrors :: "('k \<Rightarrow> 's \<Rightarrow> string) \<Rightarrow> ('k \<Rightarrow> 's \<Rightarrow> (string \<times> string) list) \<Rightarrow> ('k, 's) pg_state \<Rightarrow> bool" where
  "mirrors path saves st \<longleftrightarrow> (case held st of
      None \<Rightarrow> True
    | Some k \<Rightarrow> (case searchPath st of
        None \<Rightarrow> True
      | Some p \<Rightarrow> (\<forall>x. p = Some x \<longrightarrow> path k (server st) = x)
          \<and> list_all2 (\<lambda>m sv. fst m = fst sv \<and> (\<forall>x. snd m = Some x \<longrightarrow> snd sv = x))
              (savepointPaths st) (saves k (server st))))"

lemma path_index_Some:
  "path_index marks name n = Some i \<Longrightarrow> i < n \<and> fst (marks ! i) = name
    \<and> (\<forall>j. i < j \<and> j < n \<longrightarrow> fst (marks ! j) \<noteq> name)"
  by (induction marks name n rule: path_index.induct) (auto split: if_splits simp: less_Suc_eq)

lemma path_index_None:
  "path_index marks name n = None \<Longrightarrow> j < n \<Longrightarrow> fst (marks ! j) \<noteq> name"
  by (induction marks name n rule: path_index.induct) (auto split: if_splits simp: less_Suc_eq)

lemma newest_unique:
  assumes "list_all2 (\<lambda>m sv. fst m = fst sv \<and> P m sv) ms svs"
    and "i < length svs" "fst (svs ! i) = n" "\<forall>j. i < j \<and> j < length svs \<longrightarrow> fst (svs ! j) \<noteq> n"
  shows "path_index ms n (length ms) = Some i"
proof -
  have len: "length ms = length svs" and nm: "\<And>j. j < length ms \<Longrightarrow> fst (ms ! j) = fst (svs ! j)"
    using assms(1) by (auto simp: list_all2_conv_all_nth)
  show ?thesis
  proof (cases "path_index ms n (length ms)")
    case None
    then show ?thesis using path_index_None [OF None, of i] assms(2,3) len nm by simp
  next
    case (Some i')
    from path_index_Some [OF Some] have i': "i' < length ms" "fst (ms ! i') = n"
      "\<forall>j. i' < j \<and> j < length ms \<longrightarrow> fst (ms ! j) \<noteq> n" by auto
    have "\<not> i' < i" using i'(3) assms(2,3) len nm by auto
    moreover have "\<not> i < i'" using assms(4) i'(1,2) len nm by auto
    ultimately show ?thesis using Some by simp
  qed
qed

lemma law_begin:
  "pg_server_laws W path saves plain \<Longrightarrow> wire_send W k (Sql ''BEGIN'') s = (Inr r, s')
   \<Longrightarrow> path k s' = ''public'' \<and> saves k s' = []"
  by (simp add: pg_server_laws_def)

lemma law_set:
  "pg_server_laws W path saves plain \<Longrightarrow> wire_send W k (Sql (set_path_sql sch)) s = (Inr r, s')
   \<Longrightarrow> path k s' = sch"
  by (simp add: pg_server_laws_def)

lemma law_set_saves:
  "pg_server_laws W path saves plain \<Longrightarrow> wire_send W k (Sql (set_path_sql sch)) s = (w, s')
   \<Longrightarrow> saves k s' = saves k s"
  unfolding pg_server_laws_def by (elim conjE) metis

lemma law_savepoint:
  "pg_server_laws W path saves plain \<Longrightarrow> wire_send W k (Sql (''SAVEPOINT '' @ quote_with (CHR 0x22) n)) s = (Inr r, s')
   \<Longrightarrow> path k s' = path k s \<and> saves k s' = saves k s @ [(n, path k s)]"
  by (simp add: pg_server_laws_def)

lemma law_back:
  "pg_server_laws W path saves plain \<Longrightarrow> wire_send W k (Sql (''ROLLBACK TO SAVEPOINT '' @ quote_with (CHR 0x22) n)) s = (Inr r, s')
   \<Longrightarrow> \<exists>i < length (saves k s). fst (saves k s ! i) = n \<and> (\<forall>j. i < j \<and> j < length (saves k s) \<longrightarrow> fst (saves k s ! j) \<noteq> n)
       \<and> path k s' = snd (saves k s ! i) \<and> saves k s' = take (Suc i) (saves k s)"
  by (simp add: pg_server_laws_def)

lemma law_plain:
  "pg_server_laws W path saves plain \<Longrightarrow> plain q \<Longrightarrow> wire_send W k (Sql q) s = (w, s')
   \<Longrightarrow> path k s' = path k s \<and> saves k s' = saves k s"
  unfolding pg_server_laws_def by (elim conjE) metis

lemma send_result:
  assumes "send W k c st = (r, st')"
  obtains w s' where "wire_send W k c (server st) = (w, s')" "st' = st\<lparr>server := s'\<rparr>"
    "(\<exists>e. w = Inl e \<and> r = Inl (Wire e)) \<or> (\<exists>x. w = Inr x \<and> r = Inr (Some x))"
  using assms by (auto simp: send_def split: prod.splits sum.splits)

lemma mirrors_Some:
  "held st = Some k \<Longrightarrow> mirrors path saves st \<longleftrightarrow> (case searchPath st of
        None \<Rightarrow> True
      | Some p \<Rightarrow> (\<forall>x. p = Some x \<longrightarrow> path k (server st) = x)
          \<and> list_all2 (\<lambda>m sv. fst m = fst sv \<and> (\<forall>x. snd m = Some x \<longrightarrow> snd sv = x))
              (savepointPaths st) (saves k (server st)))"
  by (simp add: mirrors_def)

lemma mirrors_None: "held st = None \<Longrightarrow> mirrors path saves st"
  by (simp add: mirrors_def)

lemma send_plain_mirrors:
  assumes "pg_server_laws W path saves plain" "plain q" "held st = Some k" "mirrors path saves st"
    and "send W k (Sql q) st = (r, st')"
  shows "mirrors path saves st' \<and> held st' = Some k \<and> searchPath st' = searchPath st"
proof -
  obtain w s' where w: "wire_send W k (Sql q) (server st) = (w, s')" "st' = st\<lparr>server := s'\<rparr>"
    using assms(5) send_result by metis
  have "path k s' = path k (server st)" "saves k s' = saves k (server st)"
    using law_plain [OF assms(1,2) w(1)] by auto
  then show ?thesis using assms(3,4) w(2) by (simp add: mirrors_Some split: option.splits)
qed

text \<open>Switching to a schema: on success the server is there, on failure the data source does not know.\<close>
lemma setLocal_switches:
  assumes "pg_server_laws W path saves plain" "held st = Some k" "mirrors path saves st" "searchPath st \<noteq> None"
    and "setLocalSearchPath W k sch (st\<lparr>searchPath := Some None\<rparr>) = (r, st1)"
  shows "held st1 = Some k \<and> mirrors path saves st1 \<and> searchPath st1 = Some None
    \<and> (case r of
         Inr _ \<Rightarrow> path k (server st1) = sch \<and> mirrors path saves (st1\<lparr>searchPath := Some (Some sch)\<rparr>)
       | Inl e \<Rightarrow> e = ConnectorError INVALID_QUERY
           \<or> (\<exists>s w. e = Wire w \<and> wire_send W k (Sql (set_path_sql sch)) s = (Inl w, server st1)))"
proof (cases "isValidPgIdentifier sch")
  case False
  then show ?thesis
    using assms(2-5) by (auto simp: setLocalSearchPath_def io_defs mirrors_Some split: option.splits)
next
  case True
  let ?st = "st\<lparr>searchPath := Some None\<rparr>"
  have "send W k (Sql (set_path_sql sch)) ?st = (r, st1)"
    using assms(5) True by (simp add: setLocalSearchPath_def)
  then obtain w s' where w: "wire_send W k (Sql (set_path_sql sch)) (server st) = (w, s')" "st1 = ?st\<lparr>server := s'\<rparr>"
    "(\<exists>e. w = Inl e \<and> r = Inl (Wire e)) \<or> (\<exists>x. w = Inr x \<and> r = Inr (Some x))"
    by (rule send_result) auto
  have sv: "saves k s' = saves k (server st)" by (rule law_set_saves [OF assms(1) w(1)])
  have pa: "\<And>x. w = Inr x \<Longrightarrow> path k s' = sch" using law_set [OF assms(1)] w(1) by simp
  show ?thesis
    using w sv pa assms(2-4) by (auto simp: mirrors_Some split: option.splits)
qed

lemma inTenantSchema_mirrors:
  assumes "pg_server_laws W path saves plain" "mirrors path saves st" "plain sql" "held st = Some k"
    and "inTenantSchema W cfg tenant k (send W k (Sql sql)) st = (r, st')"
  shows "mirrors path saves st'"
proof (cases "searchPath st = None \<or> map_option Some (searchPathFor cfg tenant) = searchPath st
    \<or> searchPathFor cfg tenant = None")
  case True
  then have "send W k (Sql sql) st = (r, st')"
    using assms(5) by (auto simp: inTenantSchema_def split: if_splits)
  then show ?thesis using send_plain_mirrors [OF assms(1,3,4,2)] by blast
next
  case False
  then obtain sch where sch: "searchPathFor cfg tenant = Some sch" by auto
  obtain r1 st1 where sl: "setLocalSearchPath W k sch (st\<lparr>searchPath := Some None\<rparr>) = (r1, st1)" by fastforce
  have sw: "held st1 = Some k" "mirrors path saves st1"
    "\<And>x. r1 = Inr x \<Longrightarrow> mirrors path saves (st1\<lparr>searchPath := Some (Some sch)\<rparr>)"
    using setLocal_switches [OF assms(1,4,2) _ sl] False by auto
  show ?thesis
  proof (cases r1)
    case (Inl e)
    then show ?thesis using assms(5) False sch sl sw by (auto simp: inTenantSchema_def io_defs)
  next
    case (Inr x)
    then have "send W k (Sql sql) (st1\<lparr>searchPath := Some (Some sch)\<rparr>) = (r, st')"
      using assms(5) False sch sl by (auto simp: inTenantSchema_def io_defs)
    then show ?thesis using send_plain_mirrors [OF assms(1,3) _ sw(3) [OF Inr]] sw(1) by simp
  qed
qed

lemma send_plain_frame:
  assumes "pg_server_laws W path saves plain" "plain q" "send W k (Sql q) st = (r, st')"
  shows "path k (server st') = path k (server st)" "saves k (server st') = saves k (server st)"
    "held st' = held st" "searchPath st' = searchPath st" "savepointPaths st' = savepointPaths st"
  using assms(3) law_plain [OF assms(1,2)] by (auto elim!: send_result)

lemma pg_connector_start_server:
  assumes "pg_server_laws W path saves plain" "\<And>l. plain (isolation_sql l)"
    and "pg_connector_start W cfg tenant level k st = (Inr u, st')"
  shows "saves k (server st') = [] \<and> held st' = held st
    \<and> (\<forall>sch. searchPathFor cfg tenant = Some sch \<longrightarrow> path k (server st') = sch)"
proof -
  obtain r1 st1 where b: "send W k (Sql ''BEGIN'') st = (r1, st1)" by fastforce
  then obtain x1 where r1: "r1 = Inr x1" using assms(3) by (cases r1) (auto simp: pg_connector_start_def io_defs)
  have s1: "path k (server st1) = ''public'' \<and> saves k (server st1) = [] \<and> held st1 = held st"
    using b r1 law_begin [OF assms(1)] by (auto elim!: send_result)
  let ?iso = "case level of None \<Rightarrow> io_return None | Some l \<Rightarrow> setTransactionIsolationLevel W k l"
  obtain r2 st2 where i: "?iso st1 = (r2, st2)" by fastforce
  then obtain x2 where r2: "r2 = Inr x2"
    using assms(3) b r1 by (cases r2) (auto simp: pg_connector_start_def io_defs split: option.splits)
  have s2: "path k (server st2) = ''public'' \<and> saves k (server st2) = [] \<and> held st2 = held st"
  proof (cases level)
    case None
    then show ?thesis using i s1 by (simp add: io_defs)
  next
    case (Some l)
    then have "send W k (Sql (isolation_sql l)) st1 = (r2, st2)"
      using i r2 by (auto simp: setTransactionIsolationLevel_def io_defs split: sum.splits)
    then show ?thesis using send_plain_frame [OF assms(1,2)] s1 by metis
  qed
  show ?thesis
  proof (cases "\<exists>sch. searchPathFor cfg tenant = Some sch \<and> sch \<noteq> ''public''")
    case False
    then have "st' = st2" using assms(3) b r1 i r2 by (auto simp: pg_connector_start_def io_defs split: option.splits)
    then show ?thesis using s2 False by auto
  next
    case True
    then obtain sch where sch: "searchPathFor cfg tenant = Some sch" "sch \<noteq> ''public''" by blast
    obtain r3 st3 where t: "setLocalSearchPath W k sch st2 = (r3, st3)" by fastforce
    then have st3: "st' = st3" "\<exists>x. r3 = Inr x"
      using assms(3) b r1 i r2 sch by (auto simp: pg_connector_start_def io_defs split: sum.splits)
    then obtain x where snd3: "send W k (Sql (set_path_sql sch)) st2 = (Inr x, st3)"
      using t by (auto simp: setLocalSearchPath_def io_defs split: if_splits)
    have "path k (server st3) = sch" "saves k (server st3) = saves k (server st2)" "held st3 = held st2"
      using snd3 law_set [OF assms(1)] law_set_saves [OF assms(1)] by (auto elim!: send_result)
    then show ?thesis using st3 s2 sch by simp
  qed
qed

text \<open>C20: Inside a PostgreSQL transaction every statement runs under the schema of the tenant that is
  current when it is issued: the server's search path at that moment is the tenant's schema, or
  the switch to it failed and the statement was not sent. Afterwards the data source still knows
  the server's search path and that of every open savepoint, or knows that it does not.\<close>
theorem pg_statement_runs_in_tenant_schema:
  assumes "pg_server_laws W path saves plain" "mirrors path saves st" "plain sql"
    and "held st = Some k" "searchPath st \<noteq> None" "searchPathFor cfg tenant = Some sch"
    and "pg_call W cfg tenant (Query sql) st = (r, st')"
  shows "mirrors path saves st'
    \<and> ((\<exists>s w. path k s = sch \<and> wire_send W k (Sql sql) s = (w, server st') \<and> (isl w \<longleftrightarrow> isl r))
       \<or> (\<exists>s w. wire_send W k (Sql (set_path_sql sch)) s = (Inl w, server st') \<and> r = Inl (Wire w))
       \<or> r = Inl (ConnectorError INVALID_QUERY))"
proof -
  have c: "inTenantSchema W cfg tenant k (send W k (Sql sql)) st = (r, st')"
    using assms(4,7) by (simp add: with_conn_def)
  show ?thesis
  proof (cases "searchPath st = Some (Some sch)")
    case True
    then have s: "send W k (Sql sql) st = (r, st')" using c assms(6) by (simp add: inTenantSchema_def)
    moreover have "path k (server st) = sch" using assms(2,4) True by (simp add: mirrors_Some)
    ultimately show ?thesis
      using send_plain_mirrors [OF assms(1,3,4,2) s] by (auto elim!: send_result)
  next
    case False
    obtain r1 st1 where sl: "setLocalSearchPath W k sch (st\<lparr>searchPath := Some None\<rparr>) = (r1, st1)" by fastforce
    note sw = setLocal_switches [OF assms(1,4,2,5) sl]
    show ?thesis
    proof (cases r1)
      case (Inl e)
      then have "r = Inl e" "st' = st1"
        using c assms(5,6) False sl by (auto simp: inTenantSchema_def io_defs)
      then show ?thesis using sw Inl by auto
    next
      case (Inr x)
      let ?st = "st1\<lparr>searchPath := Some (Some sch)\<rparr>"
      have s: "send W k (Sql sql) ?st = (r, st')"
        using c assms(5,6) False sl Inr by (auto simp: inTenantSchema_def io_defs)
      have "held ?st = Some k" "mirrors path saves ?st" "path k (server ?st) = sch" using sw Inr by auto
      moreover obtain w where "wire_send W k (Sql sql) (server ?st) = (w, server st')" "isl w \<longleftrightarrow> isl r"
        using s by (auto elim!: send_result)
      ultimately show ?thesis
        using send_plain_mirrors [OF assms(1,3) _ _ s] by blast
    qed
  qed
qed

lemma pg_start_mirrors:
  assumes "pg_server_laws W path saves plain" "\<And>l. plain (isolation_sql l)"
    and "held st = Some k" "searchPath st = None"
    and "pg_startTransaction W cfg tenant level k st = (r, st')"
  shows "mirrors path saves st'"
proof -
  obtain r1 st1 where c: "pg_connector_start W cfg tenant level k st = (r1, st1)" by fastforce
  show ?thesis
  proof (cases r1)
    case (Inl e)
    have f: "searchPath (snd (send W k q x)) = searchPath x" for q and x :: "('a, 'd) pg_state"
      by (simp add: send_def split: prod.splits sum.splits)
    have "searchPath (snd (pg_connector_start W cfg tenant level k st)) = searchPath st"
      unfolding pg_connector_start_def
      by (auto simp: io_defs setTransactionIsolationLevel_def setLocalSearchPath_def f
          split: prod.splits sum.splits option.splits) (metis f snd_conv)+
    then have "searchPath st1 = None" using c assms(4) by simp
    moreover have "st' = st1" using assms(5) c Inl by (simp add: pg_startTransaction_def io_defs)
    ultimately show ?thesis by (simp add: mirrors_def split: option.splits)
  next
    case (Inr u)
    then have st': "st' = st1\<lparr>searchPath := map_option Some (searchPathFor cfg tenant), savepointPaths := []\<rparr>"
      using assms(5) c by (simp add: pg_startTransaction_def io_defs)
    have "saves k (server st1) = [] \<and> held st1 = held st
        \<and> (\<forall>sch. searchPathFor cfg tenant = Some sch \<longrightarrow> path k (server st1) = sch)"
      using pg_connector_start_server [OF assms(1,2)] c Inr by blast
    then show ?thesis using st' assms(3) by (auto simp: mirrors_Some split: option.splits)
  qed
qed

lemma pg_savepoint_mirrors:
  assumes "pg_server_laws W path saves plain" "mirrors path saves st" "held st = Some k"
    and "pg_savepoint W n k st = (Inr r, st')"
  shows "mirrors path saves st'"
proof -
  let ?st = "case searchPath st of None \<Rightarrow> st | Some p \<Rightarrow> st\<lparr>savepointPaths := savepointPaths st @ [(n, p)]\<rparr>"
  obtain x st1 where snd1: "send W k (Sql (''SAVEPOINT '' @ quote_with (CHR 0x22) n)) ?st = (Inr x, st1)" "st' = st1"
    using assms(4) by (auto simp: pg_savepoint_def io_defs split: prod.splits sum.splits)
  have sv: "server ?st = server st" "held ?st = held st" "searchPath ?st = searchPath st"
    by (auto split: option.splits)
  obtain s' where s': "st1 = ?st\<lparr>server := s'\<rparr>" "path k s' = path k (server st)"
      "saves k s' = saves k (server st) @ [(n, path k (server st))]"
    using snd1(1) law_savepoint [OF assms(1)] sv(1) by (auto elim!: send_result)
  then show ?thesis
    using assms(2,3) snd1(2) by (auto simp: mirrors_Some split: option.splits intro!: list_all2_appendI)
qed

lemma pg_rollbackTo_mirrors:
  assumes "pg_server_laws W path saves plain" "mirrors path saves st" "held st = Some k"
    and "pg_rollbackTo W n k st = (Inr r, st')"
  shows "mirrors path saves st'"
proof -
  obtain x st1 where snd1: "send W k (Sql (''ROLLBACK TO SAVEPOINT '' @ quote_with (CHR 0x22) n)) (pg_back n st) = (Inr x, st1)"
      "st' = st1"
    using assms(4) by (auto simp: pg_rollbackTo_def split: prod.splits sum.splits)
  have sv: "server (pg_back n st) = server st" "held (pg_back n st) = held st"
    by (auto simp: pg_back_def split: option.splits)
  obtain s' where s': "st1 = (pg_back n st)\<lparr>server := s'\<rparr>"
    and bk: "\<exists>i < length (saves k (server st)). fst (saves k (server st) ! i) = n
       \<and> (\<forall>j. i < j \<and> j < length (saves k (server st)) \<longrightarrow> fst (saves k (server st) ! j) \<noteq> n)
       \<and> path k s' = snd (saves k (server st) ! i) \<and> saves k s' = take (Suc i) (saves k (server st))"
    using snd1(1) law_back [OF assms(1)] sv(1) by (auto elim!: send_result)
  then obtain i where i: "i < length (saves k (server st))" "fst (saves k (server st) ! i) = n"
      "\<forall>j. i < j \<and> j < length (saves k (server st)) \<longrightarrow> fst (saves k (server st) ! j) \<noteq> n"
      "path k s' = snd (saves k (server st) ! i)" "saves k s' = take (Suc i) (saves k (server st))"
    by blast
  show ?thesis
  proof (cases "searchPath st")
    case None
    then show ?thesis using s' snd1(2) assms(3) sv(2) by (simp add: mirrors_Some pg_back_def)
  next
    case (Some p)
    then have all: "list_all2 (\<lambda>m sv. fst m = fst sv \<and> (\<forall>x. snd m = Some x \<longrightarrow> snd sv = x))
        (savepointPaths st) (saves k (server st))"
      using assms(2,3) by (simp add: mirrors_Some)
    then have "path_index (savepointPaths st) n (length (savepointPaths st)) = Some i"
      using i(1-3) by (rule newest_unique)
    then show ?thesis
      using s' snd1(2) assms(3) sv(2) Some i(1,4,5) all
      by (auto simp: mirrors_Some pg_back_def list_all2_conv_all_nth intro: list_all2_takeI)
  qed
qed

lemma pg_ending_mirrors: "pg_ending m st = (r, st') \<Longrightarrow> mirrors path saves st'"
  using pg_ending_held [of m st] by (simp add: mirrors_def)

text \<open>Through any sequence of calls on the data source it keeps knowing the server's search path,
  savepoints and partial rollbacks included, as long as the statements it is given change neither
  by themselves and the savepoint statements succeed.\<close>
theorem pg_search_path_mirrored:
  assumes "pg_server_laws W path saves plain" "\<And>l. plain (isolation_sql l)" "mirrors path saves st"
    and "pg_call W cfg tenant c st = (r, st')"
    and "case c of
        Query q \<Rightarrow> plain q | QueryWithOptions q opts \<Rightarrow> plain q
      | Savepoint n \<Rightarrow> \<not> isl r | RollbackTo n \<Rightarrow> \<not> isl r
      | StartTransaction l \<Rightarrow> searchPath st = None | CreateConnection \<Rightarrow> searchPath st = None | _ \<Rightarrow> True"
  shows "mirrors path saves st'"
proof (cases c)
  case CreateConnection
  have "searchPath (snd (createConnection W st)) = searchPath st"
    by (auto simp: createConnection_def getPooledConnection_def acquireRawConnection_def pingConnection_def
        destroy_def io_defs split: prod.splits sum.splits)
  then have "searchPath (snd (createConnection W st)) = None" using assms(5) CreateConnection by simp
  then show ?thesis using assms(4) CreateConnection by (simp add: mirrors_def split: option.splits)
next
  case CloseConnection
  then show ?thesis
    using assms(3,4) by (auto simp: mirrors_def endTransaction_def split: option.splits)
next
  case Commit
  then show ?thesis
    using assms(3,4) pg_ending_mirrors by (fastforce simp: with_conn_def split: option.splits)
next
  case Rollback
  then show ?thesis
    using assms(3,4) pg_ending_mirrors by (fastforce simp: with_conn_def split: option.splits)
next
  case (Query q)
  then show ?thesis
    using assms(3,4,5) inTenantSchema_mirrors [OF assms(1,3)] by (auto simp: with_conn_def split: option.splits)
next
  case (QueryWithOptions q opts)
  then show ?thesis
    using assms(3,4,5) inTenantSchema_mirrors [OF assms(1,3)] by (auto simp: with_conn_def split: option.splits)
next
  case (StartTransaction l)
  then show ?thesis
    using assms(3,4,5) pg_start_mirrors [OF assms(1,2)] by (auto simp: with_conn_def split: option.splits)
next
  case (Savepoint n)
  then obtain x where "r = Inr x" using assms(5) by (cases r) auto
  then show ?thesis
    using assms(3,4) Savepoint pg_savepoint_mirrors [OF assms(1,3)]
    by (auto simp: with_conn_def checked_name_def io_defs split: option.splits sum.splits)
next
  case (RollbackTo n)
  then obtain x where "r = Inr x" using assms(5) by (cases r) auto
  then show ?thesis
    using assms(3,4) RollbackTo pg_rollbackTo_mirrors [OF assms(1,3)]
    by (auto simp: with_conn_def checked_name_def io_defs split: option.splits sum.splits)
qed

text \<open>Whatever calls a session makes on a MySQL or PostgreSQL data source, in any order and with
  any of them failing, every connection taken from the pool is held by the data source, released
  to the pool or destroyed, and exactly one of the three, so none is leaked and none is given
  back twice. The only condition is not to open a second connection while one is held.\<close>
theorem connections_accounted:
  assumes "accounted st" "accounted pst"
    and "c = CreateConnection \<Longrightarrow> held st = None \<and> held pst = None"
  shows "accounted (snd (mysql_call W c st)) \<and> accounted (snd (pg_call W cfg tenant c pst))"
  using mysql_accounted pg_accounted assms by blast

text \<open>After a COMMIT, even one that failed and was rolled back by the connector, the data source
  has no connection, so a ROLLBACK sent after it cannot succeed on MySQL or PostgreSQL.\<close>
theorem rollback_after_commit_fails:
  "fst (mysql_call W Rollback (snd (mysql_call W Commit st))) = Inl NoConnection
    \<and> fst (pg_call W cfg tenant Rollback (snd (pg_call W cfg tenant Commit pst))) = Inl NoConnection"
  using mysql.rollback_after_commit pg.rollback_after_commit by blast

subsection \<open>Witnesses\<close>

definition read_name :: "string \<Rightarrow> string" where
  "read_name s = unquote (CHR 0x22) (tl s)"

lemma read_name_quoted: "read_name (quote_with (CHR 0x22) n) = n"
  by (simp add: read_name_def quote_with_def unquote_quoted)

definition starts :: "string \<Rightarrow> string \<Rightarrow> bool" where
  "starts p s \<longleftrightarrow> take (length p) s = p"

text \<open>A server that follows search paths and savepoints.\<close>
definition demo_serve :: "string \<Rightarrow> string \<times> (string \<times> string) list \<Rightarrow> (string + unit) \<times> string \<times> (string \<times> string) list" where
  "demo_serve q = (\<lambda>(p, sv).
     if q = ''BEGIN'' then (Inr (), ''public'', [])
     else if starts ''SET LOCAL search_path TO '' q then (Inr (), read_name (drop 25 q), sv)
     else if starts ''SAVEPOINT '' q then (Inr (), p, sv @ [(read_name (drop 10 q), p)])
     else if starts ''ROLLBACK TO SAVEPOINT '' q then
       (case path_index sv (read_name (drop 22 q)) (length sv) of
          None \<Rightarrow> (Inl ''no such savepoint'', p, sv)
        | Some i \<Rightarrow> (Inr (), snd (sv ! i), take (Suc i) sv))
     else (Inr (), p, sv))"

definition demo_plain :: "string \<Rightarrow> bool" where
  "demo_plain q \<longleftrightarrow> q \<noteq> ''BEGIN'' \<and> \<not> starts ''SET LOCAL search_path TO '' q \<and> \<not> starts ''SAVEPOINT '' q
     \<and> \<not> starts ''ROLLBACK TO SAVEPOINT '' q"

definition demo_wire :: "(nat, string, unit, string \<times> (string \<times> string) list) wire" where
  "demo_wire = \<lparr> pool_acquire = \<lambda>s. (Inr 1, s), wire_ping = \<lambda>_ s. (True, s),
     wire_send = \<lambda>_ c s. (case c of Sql q \<Rightarrow> demo_serve q s | CommitCmd \<Rightarrow> (Inl ''deadlock'', s) | _ \<Rightarrow> (Inr (), s)),
     validateOnBorrow = True \<rparr>"

lemma demo_laws: "pg_server_laws demo_wire (\<lambda>_. fst) (\<lambda>_. snd) demo_plain"
  unfolding pg_server_laws_def
  by (auto simp: demo_wire_def demo_serve_def demo_plain_def starts_def set_path_sql_def read_name_quoted
      split: if_splits option.splits dest!: path_index_Some)

lemma demo_plain_isolation: "demo_plain (isolation_sql l)"
  by (simp add: demo_plain_def starts_def isolation_sql_def)

definition demo_pg :: "(nat, string \<times> (string \<times> string) list) pg_state" where
  "demo_pg = \<lparr>held = Some 1, borrowed = [1], released = [], destroyed = [], server = (''public'', []),
     searchPath = Some (Some ''public''), savepointPaths = []\<rparr>"

definition demo_cfg :: pg_config where
  "demo_cfg = \<lparr>tenantStrategy = ''search_path'', schema = ''public''\<rparr>"

lemma demo_mirrors: "mirrors (\<lambda>_. fst) (\<lambda>_. snd) demo_pg"
  by (simp add: mirrors_def demo_pg_def)

theorem pg_statement_runs_in_tenant_schema_witness:
  "fst (server (snd (pg_call demo_wire demo_cfg ''acme'' (Query ''SELECT 1'') demo_pg))) = ''acme''
   \<and> mirrors (\<lambda>_. fst) (\<lambda>_. snd) (snd (pg_call demo_wire demo_cfg ''acme'' (Query ''SELECT 1'') demo_pg))"
proof
  show "fst (server (snd (pg_call demo_wire demo_cfg ''acme'' (Query ''SELECT 1'') demo_pg))) = ''acme''"
    by code_simp
  have p: "demo_plain ''SELECT 1''" and h: "held demo_pg = Some 1" "searchPath demo_pg \<noteq> None"
    and s: "searchPathFor demo_cfg ''acme'' = Some ''acme''"
    by code_simp+
  show "mirrors (\<lambda>_. fst) (\<lambda>_. snd) (snd (pg_call demo_wire demo_cfg ''acme'' (Query ''SELECT 1'') demo_pg))"
    using pg_statement_runs_in_tenant_schema [OF demo_laws demo_mirrors p h s] by (metis prod.collapse)
qed

theorem pg_search_path_mirrored_witness:
  "mirrors (\<lambda>_. fst) (\<lambda>_. snd) (snd (pg_call demo_wire demo_cfg ''acme'' (Savepoint ''a'') demo_pg))"
proof -
  have l: "\<not> isl (fst (pg_call demo_wire demo_cfg ''acme'' (Savepoint ''a'') demo_pg))" by code_simp
  obtain r st' where e: "pg_call demo_wire demo_cfg ''acme'' (Savepoint ''a'') demo_pg = (r, st')" by fastforce
  then have "\<not> isl r" using l by simp
  then have "case Savepoint ''a'' of
        Query q \<Rightarrow> demo_plain q | QueryWithOptions q opts \<Rightarrow> demo_plain q
      | Savepoint n \<Rightarrow> \<not> isl r | RollbackTo n \<Rightarrow> \<not> isl r
      | StartTransaction l \<Rightarrow> searchPath demo_pg = None | CreateConnection \<Rightarrow> searchPath demo_pg = None | _ \<Rightarrow> True"
    by simp
  from pg_search_path_mirrored [OF demo_laws demo_plain_isolation demo_mirrors e this] e
  show ?thesis by (metis snd_conv)
qed

theorem connections_accounted_witness:
  "accounted (snd (mysql_call demo_wire Commit (pool_state.truncate demo_pg)))
   \<and> destroyed (snd (mysql_call demo_wire Commit (pool_state.truncate demo_pg))) = []
   \<and> released (snd (mysql_call demo_wire Commit (pool_state.truncate demo_pg))) = [1]"
proof -
  have a: "accounted (pool_state.truncate demo_pg)" "accounted demo_pg"
    by (simp_all add: accounted_def demo_pg_def pool_state.truncate_def)
  have "destroyed (snd (mysql_call demo_wire Commit (pool_state.truncate demo_pg))) = []"
    "released (snd (mysql_call demo_wire Commit (pool_state.truncate demo_pg))) = [1]"
    by (simp_all add: demo_wire_def demo_pg_def pool_state.truncate_def with_conn_def dropping_def my_commit_def
        send_def release_def io_defs)
  moreover have "accounted (snd (mysql_call demo_wire Commit (pool_state.truncate demo_pg)))"
    using connections_accounted [OF a, where c = Commit and W = demo_wire] by blast
  ultimately show ?thesis by blast
qed

end
