(* ===== verification/TxRunner.thy ===== *)
theory TxRunner
  imports DataSource
begin

section \<open>Running work in transactions\<close>

text \<open>
  Model of \<^verbatim>\<open>src/core/entity-manager/TransactionRunner.ts\<close>, \<^verbatim>\<open>src/decorators/Transactional.ts\<close>,
  \<^verbatim>\<open>src/dialects/TransactionFlow.ts\<close> and the transaction notifications of
  \<^verbatim>\<open>SubscriberRegistry.ts\<close> and \<^verbatim>\<open>PluginManager.ts\<close>.

  The world holds every session of the process by number, the async-local stores (the ambient
  session, the chain of frames, the chain of transaction flows), the counters of the savepoint
  names, and what the sessions share: the outside \<open>'d\<close> and the caller's memory \<open>'m\<close>. A session's
  own \<open>database\<close> is a pair: the private state of its data source and the shared outside.
\<close>

subsection \<open>The world\<close>

type_synonym ('c, 'p, 'd, 'm, 'u, 'cb) sess = "('c, 'p \<times> 'd, 'm, 'u, 'cb) session"

record ('c, 'p, 'd, 'm, 'u, 'cb) world =
  sessions :: "nat \<Rightarrow> ('c, 'p, 'd, 'm, 'u, 'cb) sess"
  nextSession :: nat
  transactionStorage :: "nat option"
  ambientFrames :: "(nat \<times> nat option) list"
  flows :: "nat list"
  nextFlow :: nat
  savepointCounter :: nat
  txSavepointCounter :: nat
  shared :: 'd
  objects :: 'm
  logged :: nat

type_synonym ('c, 'p, 'd, 'm, 'u, 'cb, 'e, 'a) work =
  "(('c, 'p, 'd, 'm, 'u, 'cb) world, 'e session_error, 'a) io"

text \<open>An operation of session \<open>i\<close>, on the shared part as it is now.\<close>
definition on_session :: "nat \<Rightarrow> (('c, 'p, 'd, 'm, 'u, 'cb) sess, 'e session_error, 'a) io
    \<Rightarrow> ('c, 'p, 'd, 'm, 'u, 'cb, 'e, 'a) work" where
  "on_session i m w =
     (let s = (sessions w i)\<lparr>database := (fst (database (sessions w i)), shared w), memory := objects w\<rparr>
      in case m s of (r, s') \<Rightarrow>
           (r, w\<lparr>sessions := (sessions w)(i := s'), shared := snd (database s'), objects := memory s'\<rparr>))"

text \<open>\<^verbatim>\<open>new TransactionSessionManager()\<close>, with the private state of a fresh data source.\<close>
definition newSession :: "'p \<Rightarrow> ('c, 'p, 'd, 'm, 'u, 'cb) world \<Rightarrow> nat \<times> ('c, 'p, 'd, 'm, 'u, 'cb) world" where
  "newSession p w = (nextSession w, w\<lparr>nextSession := nextSession w + 1,
     sessions := (sessions w)(nextSession w := new_session (p, shared w) (objects w))\<rparr>)"

definition log_error :: "('c, 'p, 'd, 'm, 'u, 'cb) world \<Rightarrow> ('c, 'p, 'd, 'm, 'u, 'cb) world" where
  "log_error w = w\<lparr>logged := logged w + 1\<rparr>"

subsection \<open>Hooks\<close>

datatype tx_event =
    BeforeTransactionStart | AfterTransactionStart | BeforeTransactionCommit | AfterTransactionCommit
  | BeforeTransactionRollback | AfterTransactionRollback

type_synonym ('m, 'e) hook = "'m \<Rightarrow> ('e + unit) \<times> 'm"

text \<open>A subscriber implements some of the transaction methods; a plugin may implement either hook.\<close>
record ('m, 'e) plugin =
  beforeTransaction :: "(string option \<Rightarrow> ('m, 'e) hook) option"
  afterTransaction :: "(bool \<Rightarrow> ('m, 'e) hook) option"

record error_info =
  is_error :: bool
  errno :: "int option"
  err_code :: "string option"
  err_message :: string

record ('c, 'p, 'd, 'm, 'u, 'cb, 'e) host =
  subscribers :: "(tx_event \<Rightarrow> ('m, 'e) hook option) list"
  plugins :: "('m, 'e) plugin list"
  clearTxDirtyEntities :: "nat \<Rightarrow> 'm \<Rightarrow> 'm"
  connectToReadNode :: "string \<Rightarrow> (('c, 'p, 'd, 'm, 'u, 'cb) sess, 'e session_error, unit) io"
  getConnectionName :: string
  manager_id :: nat
  setQueryTimeout :: "(int \<Rightarrow> string) option"
  getDefaultQueryTimeout :: "int option"
  isSqlite :: bool
  isPostgres :: bool
  currentTenant :: string
  needsTransactionForTenantRead :: bool
  freshSource :: 'p
  info_of :: "'e \<Rightarrow> error_info"

text \<open>A list of hooks, awaited one after the other: the first that throws ends it.\<close>
fun run_hooks :: "('m, 'e) hook list \<Rightarrow> ('c, 'p, 'd, 'm, 'u, 'cb, 'e, unit) work" where
  "run_hooks [] w = (Inr (), w)"
| "run_hooks (h # hs) w = (case h (objects w) of
      (Inl e, m) \<Rightarrow> (Inl (Driver e), w\<lparr>objects := m\<rparr>)
    | (Inr _, m) \<Rightarrow> run_hooks hs (w\<lparr>objects := m\<rparr>))"

definition notifyTransaction :: "('c, 'p, 'd, 'm, 'u, 'cb, 'e) host \<Rightarrow> tx_event
    \<Rightarrow> ('c, 'p, 'd, 'm, 'u, 'cb, 'e, unit) work" where
  "notifyTransaction H ev = run_hooks (List.map_filter (\<lambda>sub. sub ev) (subscribers H))"

definition notifyBeforeTransaction :: "('c, 'p, 'd, 'm, 'u, 'cb, 'e) host \<Rightarrow> string option
    \<Rightarrow> ('c, 'p, 'd, 'm, 'u, 'cb, 'e, unit) work" where
  "notifyBeforeTransaction H level =
     run_hooks (List.map_filter (\<lambda>p. map_option (\<lambda>h. h level) (beforeTransaction p)) (plugins H))"

definition notifyAfterTransaction :: "('c, 'p, 'd, 'm, 'u, 'cb, 'e) host \<Rightarrow> bool
    \<Rightarrow> ('c, 'p, 'd, 'm, 'u, 'cb, 'e, unit) work" where
  "notifyAfterTransaction H committed =
     run_hooks (List.map_filter (\<lambda>p. map_option (\<lambda>h. h committed) (afterTransaction p)) (plugins H))"

subsection \<open>Ambient sessions and flows\<close>

text \<open>\<^verbatim>\<open>currentFrame\<close>: the chain from the ambient frame outwards, if the ambient session has one.\<close>
definition currentFrame :: "('c, 'p, 'd, 'm, 'u, 'cb) world \<Rightarrow> (nat \<times> nat option) list" where
  "currentFrame w = (case ambientFrames w of
      [] \<Rightarrow> []
    | f # fs \<Rightarrow> if Some (fst f) = transactionStorage w then f # fs else [])"

text \<open>\<^verbatim>\<open>runInSession\<close>: the async-local stores are the caller's again when \<open>fn\<close> is done.\<close>
definition runInSession :: "nat \<Rightarrow> ('c, 'p, 'd, 'm, 'u, 'cb, 'e, 'a) work \<Rightarrow> nat option
    \<Rightarrow> ('c, 'p, 'd, 'm, 'u, 'cb, 'e, 'a) work" where
  "runInSession i fn mgr w =
     (case fn (w\<lparr>ambientFrames := (i, mgr) # currentFrame w, transactionStorage := Some i\<rparr>) of
        (r, w') \<Rightarrow> (r, w'\<lparr>ambientFrames := ambientFrames w, transactionStorage := transactionStorage w\<rparr>))"

definition joins :: "('c, 'p, 'd, 'm, 'u, 'cb) world \<Rightarrow> string \<Rightarrow> nat option \<Rightarrow> nat \<Rightarrow> nat option \<Rightarrow> bool" where
  "joins w name mgr i frameMgr \<longleftrightarrow>
     registeredConnection (sessions w i) = None \<or> registeredConnection (sessions w i) = Some name
     \<or> (mgr \<noteq> None \<and> frameMgr = mgr)"

definition ambientSessionFor :: "string option \<Rightarrow> nat option \<Rightarrow> ('c, 'p, 'd, 'm, 'u, 'cb) world \<Rightarrow> nat option" where
  "ambientSessionFor connectionName mgr w =
     (let name = (case connectionName of Some n \<Rightarrow> n | None \<Rightarrow> ''default'')
      in case transactionStorage w of
           None \<Rightarrow> None
         | Some t \<Rightarrow>
             (case currentFrame w of
                [] \<Rightarrow> if joins w name mgr t None then Some t else None
              | fs \<Rightarrow> map_option fst (List.find (\<lambda>f. joins w name mgr (fst f) (snd f)) fs)))"

text \<open>\<^verbatim>\<open>runInTransactionFlow\<close>, \<^verbatim>\<open>currentTransactionFlow\<close> and \<^verbatim>\<open>runsInFlow\<close>: the flow and its outer ones.\<close>
definition runInTransactionFlow :: "('c, 'p, 'd, 'm, 'u, 'cb, 'e, 'a) work \<Rightarrow> ('c, 'p, 'd, 'm, 'u, 'cb, 'e, 'a) work" where
  "runInTransactionFlow fn w =
     (case fn (w\<lparr>flows := nextFlow w # flows w, nextFlow := nextFlow w + 1\<rparr>) of
        (r, w') \<Rightarrow> (r, w'\<lparr>flows := flows w\<rparr>))"

definition currentTransactionFlow :: "('c, 'p, 'd, 'm, 'u, 'cb) world \<Rightarrow> nat option" where
  "currentTransactionFlow w = (case flows w of [] \<Rightarrow> None | f # _ \<Rightarrow> Some f)"

definition runsInFlow :: "nat \<Rightarrow> ('c, 'p, 'd, 'm, 'u, 'cb) world \<Rightarrow> bool" where
  "runsInFlow f w \<longleftrightarrow> f \<in> set (flows w)"

subsection \<open>Which errors are deadlocks and timeouts\<close>

fun has_substring :: "string \<Rightarrow> string \<Rightarrow> bool" where
  "has_substring [] pat = (pat = [])"
| "has_substring (c # cs) pat = (take (length pat) (c # cs) = pat \<or> has_substring cs pat)"

text \<open>
  \<^verbatim>\<open>errno\<close>, \<^verbatim>\<open>code\<close> and \<^verbatim>\<open>message\<close> of what is thrown. The errors the ORM builds are \<^verbatim>\<open>Error\<close>s
  without \<^verbatim>\<open>errno\<close>, whose \<^verbatim>\<open>code\<close>, if any, is an \<^verbatim>\<open>OrmErrorCode\<close>, which is none of the driver
  codes tested below; two of them quote the message of their cause.
\<close>
fun error_view :: "('e \<Rightarrow> error_info) \<Rightarrow> 'e session_error \<Rightarrow> error_info" where
  "error_view I (Driver e) = I e"
| "error_view I DatabaseNotConnected =
     \<lparr>is_error = True, errno = None, err_code = None, err_message = ''Database is not connected.''\<rparr>"
| "error_view I (DatabaseConnectionFailed e) =
     \<lparr>is_error = True, errno = None, err_code = None,
      err_message = (if err_message (error_view I e) = [] then ''Failed to connect to the database.''
                     else ''Failed to connect to the database: '' @ err_message (error_view I e))\<rparr>"
| "error_view I (Orm c) = \<lparr>is_error = True, errno = None, err_code = None, err_message = []\<rparr>"
| "error_view I (RollbackFailed e _) =
     \<lparr>is_error = True, errno = None, err_code = None,
      err_message = ''Transaction failed and rollback also failed: '' @ err_message (error_view I e)\<rparr>"
| "error_view I (QueryTimeout t _) =
     \<lparr>is_error = True, errno = None, err_code = None, err_message = ''Query execution exceeded the timeout''\<rparr>"

definition isDeadlockError :: "error_info \<Rightarrow> bool" where
  "isDeadlockError e =
     (if \<not> is_error e then False
      else if errno e = Some 1213 \<or> err_code e = Some ''ER_LOCK_DEADLOCK'' then True
      else if err_code e = Some ''40P01'' then True
      else if err_code e = Some ''SQLITE_BUSY'' \<or> has_substring (err_message e) ''database is locked'' then True
      else False)"

definition isStatementTimeoutError :: "error_info \<Rightarrow> bool" where
  "isStatementTimeoutError e =
     (if \<not> is_error e then False
      else if err_code e = Some ''57014'' then True
      else if errno e = Some 3024 \<or> err_code e = Some ''ER_QUERY_TIMEOUT'' then True
      else if errno e = Some 1969 \<or> err_code e = Some ''ER_STATEMENT_TIMEOUT'' then True
      else False)"

subsection \<open>One transaction on a session of its own\<close>

type_synonym ('c, 'p, 'd, 'm, 'u, 'cb, 'e, 'r) tx_env = "('c, 'p \<times> 'd, 'm, 'u, 'cb, 'e, 'r) env"

record tx_options =
  isolationLevel :: "string option"
  connectionName :: "string option"
  forceNew :: bool

definition no_options :: tx_options where
  "no_options = \<lparr>isolationLevel = None, connectionName = None, forceNew = False\<rparr>"

text \<open>Up to the commit, and up to \<^verbatim>\<open>committed = true\<close>.\<close>
definition before_commit :: "('c, 'p, 'd, 'm, 'u, 'cb, 'e, 'r) tx_env \<Rightarrow> ('c, 'p, 'd, 'm, 'u, 'cb, 'e) host
    \<Rightarrow> nat \<Rightarrow> (nat \<Rightarrow> ('c, 'p, 'd, 'm, 'u, 'cb, 'e, 'a) work) \<Rightarrow> string option \<Rightarrow> tx_options
    \<Rightarrow> ('c, 'p, 'd, 'm, 'u, 'cb, 'e, 'a) work" where
  "before_commit E H i fn node opts =
     io_then (case node of
          Some n \<Rightarrow> on_session i (connectToReadNode H n)
        | None \<Rightarrow> on_session i (connect E (Some (case connectionName opts of Some n \<Rightarrow> n | None \<Rightarrow> getConnectionName H))))
    (io_then (notifyTransaction H BeforeTransactionStart)
    (io_then (notifyBeforeTransaction H (isolationLevel opts))
    (io_then (on_session i (startTransaction E (isolationLevel opts)))
    (io_then (notifyTransaction H AfterTransactionStart)
    (io_bind (fn i) (\<lambda>result.
     io_then (notifyTransaction H BeforeTransactionCommit) (io_return result)))))))"

definition until_commit :: "('c, 'p, 'd, 'm, 'u, 'cb, 'e, 'r) tx_env \<Rightarrow> ('c, 'p, 'd, 'm, 'u, 'cb, 'e) host
    \<Rightarrow> nat \<Rightarrow> (nat \<Rightarrow> ('c, 'p, 'd, 'm, 'u, 'cb, 'e, 'a) work) \<Rightarrow> string option \<Rightarrow> tx_options
    \<Rightarrow> ('c, 'p, 'd, 'm, 'u, 'cb, 'e, 'a) work" where
  "until_commit E H i fn node opts =
     io_bind (before_commit E H i fn node opts) (\<lambda>result.
       io_then (on_session i (commit E)) (io_return result))"

definition after_commit :: "('c, 'p, 'd, 'm, 'u, 'cb, 'e) host \<Rightarrow> ('c, 'p, 'd, 'm, 'u, 'cb, 'e, unit) work" where
  "after_commit H = io_then (notifyAfterTransaction H True) (notifyTransaction H AfterTransactionCommit)"

definition rollback_steps :: "('c, 'p, 'd, 'm, 'u, 'cb, 'e, 'r) tx_env \<Rightarrow> ('c, 'p, 'd, 'm, 'u, 'cb, 'e) host
    \<Rightarrow> nat \<Rightarrow> ('c, 'p, 'd, 'm, 'u, 'cb, 'e, unit) work" where
  "rollback_steps E H i =
     io_then (notifyTransaction H BeforeTransactionRollback)
    (io_then (on_session i (rollback E))
    (io_then (notifyAfterTransaction H False)
             (notifyTransaction H AfterTransactionRollback)))"

text \<open>The \<^verbatim>\<open>catch\<close> of an error before the commit.\<close>
definition on_failure :: "('c, 'p, 'd, 'm, 'u, 'cb, 'e, 'r) tx_env \<Rightarrow> ('c, 'p, 'd, 'm, 'u, 'cb, 'e) host
    \<Rightarrow> nat \<Rightarrow> 'e session_error \<Rightarrow> ('c, 'p, 'd, 'm, 'u, 'cb, 'e, 'a) work" where
  "on_failure E H i e w = (case rollback_steps E H i w of
      (Inl rollbackError, w) \<Rightarrow> (Inl (RollbackFailed e rollbackError), log_error w)
    | (Inr _, w) \<Rightarrow> (Inl e, w))"

text \<open>The \<^verbatim>\<open>finally\<close>: an error of \<^verbatim>\<open>close\<close> is logged.\<close>
definition close_logged :: "('c, 'p, 'd, 'm, 'u, 'cb, 'e, 'r) tx_env \<Rightarrow> nat \<Rightarrow> ('c, 'p, 'd, 'm, 'u, 'cb, 'e, unit) work" where
  "close_logged E i w = (case on_session i (close E) w of
      (Inl _, w) \<Rightarrow> (Inr (), log_error w) | (Inr _, w) \<Rightarrow> (Inr (), w))"

definition cleanup :: "('c, 'p, 'd, 'm, 'u, 'cb, 'e, 'r) tx_env \<Rightarrow> ('c, 'p, 'd, 'm, 'u, 'cb, 'e) host
    \<Rightarrow> nat \<Rightarrow> ('c, 'p, 'd, 'm, 'u, 'cb, 'e, unit) work" where
  "cleanup E H i w = close_logged E i (w\<lparr>objects := clearTxDirtyEntities H i (objects w)\<rparr>)"

definition runInNewSession :: "('c, 'p, 'd, 'm, 'u, 'cb, 'e, 'r) tx_env \<Rightarrow> ('c, 'p, 'd, 'm, 'u, 'cb, 'e) host
    \<Rightarrow> (nat \<Rightarrow> ('c, 'p, 'd, 'm, 'u, 'cb, 'e, 'a) work) \<Rightarrow> string option \<Rightarrow> tx_options
    \<Rightarrow> ('c, 'p, 'd, 'm, 'u, 'cb, 'e, 'a) work" where
  "runInNewSession E H fn node opts w =
     (case newSession (freshSource H) w of (i, w) \<Rightarrow>
        io_finally
          (\<lambda>w. case until_commit E H i fn node opts w of
              (Inl e, w) \<Rightarrow> on_failure E H i e w
            | (Inr result, w) \<Rightarrow> io_then (after_commit H) (io_return result) w)
          (cleanup E H i) w)"

text \<open>\<^verbatim>\<open>this.ctx.ambientSession()\<close>\<close>
definition ambientSession :: "('c, 'p, 'd, 'm, 'u, 'cb, 'e) host \<Rightarrow> ('c, 'p, 'd, 'm, 'u, 'cb) world \<Rightarrow> nat option" where
  "ambientSession H w = ambientSessionFor (Some (getConnectionName H)) (Some (manager_id H)) w"

definition executeInTransaction :: "('c, 'p, 'd, 'm, 'u, 'cb, 'e, 'r) tx_env \<Rightarrow> ('c, 'p, 'd, 'm, 'u, 'cb, 'e) host
    \<Rightarrow> (nat \<Rightarrow> ('c, 'p, 'd, 'm, 'u, 'cb, 'e, 'a) work) \<Rightarrow> nat option \<Rightarrow> string option \<Rightarrow> tx_options
    \<Rightarrow> ('c, 'p, 'd, 'm, 'u, 'cb, 'e, 'a) work" where
  "executeInTransaction E H fn existingSession node opts w =
     (let reusable =
        (if forceNew opts then None
         else case existingSession of
                Some s \<Rightarrow> Some s
              | None \<Rightarrow> (case connectionName opts of
                    Some n \<Rightarrow> ambientSessionFor (Some n) None w
                  | None \<Rightarrow> ambientSession H w))
      in case reusable of
           Some s \<Rightarrow> fn s w
         | None \<Rightarrow> runInTransactionFlow (runInNewSession E H fn node opts) w)"

subsection \<open>Reads\<close>

definition withQueryTimeout :: "('c, 'p, 'd, 'm, 'u, 'cb, 'e, 'r) tx_env \<Rightarrow> ('c, 'p, 'd, 'm, 'u, 'cb, 'e) host
    \<Rightarrow> nat \<Rightarrow> int option \<Rightarrow> (nat \<Rightarrow> ('c, 'p, 'd, 'm, 'u, 'cb, 'e, 'a) work)
    \<Rightarrow> ('c, 'p, 'd, 'm, 'u, 'cb, 'e, 'a) work" where
  "withQueryTimeout E H i timeout fn =
     (case (timeout, setQueryTimeout H) of
        (Some t, Some sql) \<Rightarrow>
          if t \<le> 0 then fn i
          else io_then (on_session i (query E (sql t)))
            (io_finally
              (io_catch (fn i) (\<lambda>e. if isStatementTimeoutError (error_view (info_of H) e)
                                    then io_throw (QueryTimeout t e) else io_throw e))
              (let fallback = (case getDefaultQueryTimeout H of Some f \<Rightarrow> f | None \<Rightarrow> 0)
               in if fallback \<noteq> t \<and> \<not> isSqlite H
                  then (\<lambda>w. case on_session i (query E (sql fallback)) w of
                          (Inl _, w) \<Rightarrow> (Inr (), log_error w) | (Inr _, w) \<Rightarrow> (Inr (), w))
                  else io_return ()))
      | _ \<Rightarrow> fn i)"

definition executeReadOnly :: "('c, 'p, 'd, 'm, 'u, 'cb, 'e, 'r) tx_env \<Rightarrow> ('c, 'p, 'd, 'm, 'u, 'cb, 'e) host
    \<Rightarrow> (nat \<Rightarrow> ('c, 'p, 'd, 'm, 'u, 'cb, 'e, 'a) work) \<Rightarrow> nat option \<Rightarrow> string option \<Rightarrow> int option
    \<Rightarrow> ('c, 'p, 'd, 'm, 'u, 'cb, 'e, 'a) work" where
  "executeReadOnly E H fn existingSession node timeout w =
     (let run = (\<lambda>i. withQueryTimeout E H i timeout fn);
          reusable = (case existingSession of Some s \<Rightarrow> Some s | None \<Rightarrow> ambientSession H w)
      in case reusable of
           Some s \<Rightarrow> run s w
         | None \<Rightarrow>
             let tenant = (if isPostgres H then currentTenant H else ''public'');
                 needsTxForTenant = (isPostgres H \<and> tenant \<noteq> ''public'' \<and> needsTransactionForTenantRead H)
             in if isPostgres H \<and> (needsTxForTenant \<or> (case timeout of Some t \<Rightarrow> t > 0 | None \<Rightarrow> False))
                then executeInTransaction E H run existingSession node no_options w
                else case newSession (freshSource H) w of (i, w) \<Rightarrow>
                  io_finally
                    (io_then (case node of
                          Some n \<Rightarrow> on_session i (connectToReadNode H n)
                        | None \<Rightarrow> on_session i (connect E (Some (getConnectionName H))))
                      (run i))
                    (close_logged E i) w)"

subsection \<open>The public transaction API\<close>

datatype TransactionPropagation = REQUIRED | REQUIRES_NEW | NESTED

definition PROPAGATIONS :: "(string \<times> TransactionPropagation) list" where
  "PROPAGATIONS = [(''REQUIRED'', REQUIRED), (''REQUIRES_NEW'', REQUIRES_NEW), (''NESTED'', NESTED)]"

text \<open>The options of \<^verbatim>\<open>em.transaction()\<close>; \<^verbatim>\<open>maxRetries\<close> and the delay are integers here.\<close>
record transaction_options =
  opt_isolationLevel :: "string option"
  opt_propagation :: "string option"
  opt_connectionName :: "string option"
  retryOnDeadlock :: bool
  maxRetries :: "int option"
  retryDelayMs :: "int option"

text \<open>An option that is given and negative.\<close>
definition negative :: "int option \<Rightarrow> bool" where
  "negative opt = (case opt of Some n \<Rightarrow> n < 0 | None \<Rightarrow> False)"

definition validateTransactionOptions :: "transaction_options \<Rightarrow> OrmErrorCode + unit" where
  "validateTransactionOptions opts =
     (if negative (maxRetries opts) \<or> negative (retryDelayMs opts) then Inl INVALID_CONFIG
      else case (case opt_isolationLevel opts of Some l \<Rightarrow> validateIsolationLevel l | None \<Rightarrow> Inr ()) of
             Inl e \<Rightarrow> Inl e
           | Inr _ \<Rightarrow> (case opt_propagation opts of
                 None \<Rightarrow> Inr ()
               | Some p \<Rightarrow> if p \<in> fst ` set PROPAGATIONS then Inr () else Inl INVALID_CONFIG))"

definition propagation_of :: "string option \<Rightarrow> TransactionPropagation" where
  "propagation_of opt = (case opt of
      None \<Rightarrow> REQUIRED
    | Some p \<Rightarrow> (case map_of PROPAGATIONS p of Some r \<Rightarrow> r | None \<Rightarrow> REQUIRED))"

text \<open>Work inside a savepoint of session \<open>i\<close>: the NESTED branch, for both entry points.\<close>
definition in_savepoint :: "('c, 'p, 'd, 'm, 'u, 'cb, 'e, 'r) tx_env \<Rightarrow> nat \<Rightarrow> string
    \<Rightarrow> ('c, 'p, 'd, 'm, 'u, 'cb, 'e, 'a) work \<Rightarrow> ('c, 'p, 'd, 'm, 'u, 'cb, 'e, 'a) work" where
  "in_savepoint E i name fn =
     io_then (on_session i (savepoint E name))
       (io_catch fn (\<lambda>e. io_then (on_session i (rollbackTo E name)) (io_throw e)))"

text \<open>
  The attempts of \<^verbatim>\<open>transaction\<close>: \<open>left\<close> is \<^verbatim>\<open>maxRetries - attempt\<close>. The wait between attempts
  has no effect on the state.
\<close>
fun attempts :: "('e session_error \<Rightarrow> bool) \<Rightarrow> nat \<Rightarrow> ('c, 'p, 'd, 'm, 'u, 'cb, 'e, 'a) work
    \<Rightarrow> ('c, 'p, 'd, 'm, 'u, 'cb, 'e, 'a) work" where
  "attempts deadlock left body w = (case body w of
      (Inr a, w) \<Rightarrow> (Inr a, w)
    | (Inl e, w) \<Rightarrow>
        (case left of
           0 \<Rightarrow> (Inl e, w)
         | Suc left' \<Rightarrow> if deadlock e then attempts deadlock left' body (log_error w) else (Inl e, w)))"

definition transaction :: "('c, 'p, 'd, 'm, 'u, 'cb, 'e, 'r) tx_env \<Rightarrow> ('c, 'p, 'd, 'm, 'u, 'cb, 'e) host
    \<Rightarrow> ('c, 'p, 'd, 'm, 'u, 'cb, 'e, 'a) work \<Rightarrow> transaction_options option
    \<Rightarrow> ('c, 'p, 'd, 'm, 'u, 'cb, 'e, 'a) work" where
  "transaction E H callback options w =
     (case (case options of Some q \<Rightarrow> validateTransactionOptions q | None \<Rightarrow> Inr ()) of
        Inl c \<Rightarrow> (Inl (Orm c), w)
      | Inr _ \<Rightarrow>
          let maxR = (case options of
                 Some q \<Rightarrow> if retryOnDeadlock q then (case maxRetries q of Some n \<Rightarrow> nat n | None \<Rightarrow> 3) else 0
               | None \<Rightarrow> 0);
              propagation = propagation_of (Option.bind options opt_propagation);
              conn = Option.bind options opt_connectionName;
              redirected = (case conn of
                 Some n \<Rightarrow> if n \<noteq> getConnectionName H then Some (manager_id H) else None
               | None \<Rightarrow> None);
              ambient = (case conn of Some n \<Rightarrow> ambientSessionFor (Some n) None w | None \<Rightarrow> ambientSession H w)
          in case (propagation, ambient) of
               (NESTED, Some i) \<Rightarrow>
                 let k = txSavepointCounter w + 1; w = w\<lparr>txSavepointCounter := k\<rparr>
                 in in_savepoint E i (''sp_em_'' @ decimal_digits k) (runInSession i callback redirected) w
             | _ \<Rightarrow>
                 let txOptions = \<lparr>isolationLevel = Option.bind options opt_isolationLevel,
                                  connectionName = conn, forceNew = (propagation = REQUIRES_NEW)\<rparr>
                 in attempts (\<lambda>e. isDeadlockError (error_view (info_of H) e)) maxR
                      (executeInTransaction E H (\<lambda>i. runInSession i callback redirected) None None txOptions) w)"

subsection \<open>The @Transactional decorator\<close>

text \<open>\<^verbatim>\<open>openTransaction\<close>: unlike the runner it has no hooks, and an error of ROLLBACK or close wins.\<close>
definition openTransaction :: "('c, 'p, 'd, 'm, 'u, 'cb, 'e, 'r) tx_env \<Rightarrow> 'p \<Rightarrow> string option \<Rightarrow> string option
    \<Rightarrow> ('c, 'p, 'd, 'm, 'u, 'cb, 'e, 'a) work \<Rightarrow> ('c, 'p, 'd, 'm, 'u, 'cb, 'e, 'a) work" where
  "openTransaction E p connName level fn w =
     (case newSession p w of (i, w) \<Rightarrow>
        io_then (on_session i (connect E connName))
       (io_then
          (io_catch (void_io (on_session i (startTransaction E level)))
             (\<lambda>e. io_then (on_session i (close E)) (io_throw e)))
          (io_finally
             (io_catch
                (io_bind (runInSession i fn None) (\<lambda>result.
                   io_then (on_session i (commit E)) (io_return result)))
                (\<lambda>e. io_then (on_session i (rollback E)) (io_throw e)))
             (on_session i (close E)))) w)"

definition runInNewTransaction :: "('c, 'p, 'd, 'm, 'u, 'cb, 'e, 'r) tx_env \<Rightarrow> 'p \<Rightarrow> string option \<Rightarrow> string option
    \<Rightarrow> ('c, 'p, 'd, 'm, 'u, 'cb, 'e, 'a) work \<Rightarrow> ('c, 'p, 'd, 'm, 'u, 'cb, 'e, 'a) work" where
  "runInNewTransaction E p connName level fn = runInTransactionFlow (openTransaction E p connName level fn)"

text \<open>The decorated method, after \<^verbatim>\<open>validateTransactionOptions\<close> accepted the options at decoration.\<close>
definition Transactional :: "('c, 'p, 'd, 'm, 'u, 'cb, 'e, 'r) tx_env \<Rightarrow> 'p \<Rightarrow> transaction_options
    \<Rightarrow> ('c, 'p, 'd, 'm, 'u, 'cb, 'e, 'a) work \<Rightarrow> ('c, 'p, 'd, 'm, 'u, 'cb, 'e, 'a) work" where
  "Transactional E p opts method w =
     (let conn = opt_connectionName opts; level = opt_isolationLevel opts;
          existing = ambientSessionFor conn None w
      in case propagation_of (opt_propagation opts) of
           REQUIRES_NEW \<Rightarrow> runInNewTransaction E p conn level method w
         | prop \<Rightarrow> (case existing of
               Some i \<Rightarrow>
                 if prop = NESTED
                 then let k = savepointCounter w + 1
                      in in_savepoint E i (''sp_'' @ decimal_digits k) method (w\<lparr>savepointCounter := k\<rparr>)
                 else method w
             | None \<Rightarrow> runInNewTransaction E p conn level method w))"

subsection \<open>Retries\<close>

text \<open>\<open>k\<close> runs of the body in a row, each ending in a deadlock that is logged.\<close>
inductive deadlocks :: "('e session_error \<Rightarrow> bool) \<Rightarrow> ('c, 'p, 'd, 'm, 'u, 'cb, 'e, 'a) work
    \<Rightarrow> nat \<Rightarrow> ('c, 'p, 'd, 'm, 'u, 'cb) world \<Rightarrow> ('c, 'p, 'd, 'm, 'u, 'cb) world \<Rightarrow> bool"
  for deadlock body where
  deadlocks_0: "deadlocks deadlock body 0 w w"
| deadlocks_Suc: "body w = (Inl e, w1) \<Longrightarrow> deadlock e \<Longrightarrow> deadlocks deadlock body k (log_error w1) w2
    \<Longrightarrow> deadlocks deadlock body (Suc k) w w2"

declare attempts.simps [simp del]

lemma attempts_spec:
  "attempts deadlock left body w = (r, w') \<Longrightarrow>
     \<exists>k w1. k \<le> left \<and> deadlocks deadlock body k w w1 \<and> body w1 = (r, w')
       \<and> (\<forall>e. r = Inl e \<longrightarrow> k = left \<or> \<not> deadlock e)"
proof (induction left arbitrary: w)
  case 0
  then have "body w = (r, w')" by (auto simp: attempts.simps [of _ 0] split: prod.splits sum.splits)
  then show ?case using deadlocks_0 by fastforce
next
  case (Suc left)
  obtain r1 w1 where b: "body w = (r1, w1)" by fastforce
  show ?case
  proof (cases "\<exists>e. r1 = Inl e \<and> deadlock e")
    case True
    then obtain e where e: "r1 = Inl e" "deadlock e" by blast
    then have "attempts deadlock left body (log_error w1) = (r, w')"
      using Suc.prems b by (simp add: attempts.simps [of _ "Suc left"])
    from Suc.IH [OF this] obtain k w2 where k: "k \<le> left" "deadlocks deadlock body k (log_error w1) w2"
        "body w2 = (r, w')" "\<forall>e. r = Inl e \<longrightarrow> k = left \<or> \<not> deadlock e" by blast
    have "deadlocks deadlock body (Suc k) w w2" using b e k(2) by (auto intro: deadlocks_Suc)
    then show ?thesis using k by (intro exI [of _ "Suc k"] exI [of _ w2]) auto
  next
    case False
    then have "r1 = r \<and> w1 = w'"
      using Suc.prems b by (auto simp: attempts.simps [of _ "Suc left"] split: sum.splits)
    then show ?thesis
      using False b deadlocks_0 [of deadlock body w] by (intro exI [of _ 0] exI [of _ w]) auto
  qed
qed

text \<open>C37: A transaction with retries runs at most \<^verbatim>\<open>maxRetries + 1\<close> times: every run but the last ended in
  a deadlock, and the result of the last is the result of the call. An error is only given up on
  when it is not a deadlock or the retries are used up; invalid options fail before any run.\<close>
theorem transaction_retries_deadlocks:
  assumes "transaction E H callback (Some opts) w = (r, w')" "propagation_of (opt_propagation opts) \<noteq> NESTED"
    and "retryOnDeadlock opts" "maxRetries opts = Some n"
    and "deadlock = (\<lambda>e. isDeadlockError (error_view (info_of H) e))"
  shows "case validateTransactionOptions opts of
      Inl c \<Rightarrow> r = Inl (Orm c) \<and> w' = w
    | Inr _ \<Rightarrow> \<exists>body k w1. k \<le> nat n \<and> deadlocks deadlock body k w w1 \<and> body w1 = (r, w')
        \<and> (\<forall>e. r = Inl e \<longrightarrow> k = nat n \<or> \<not> deadlock e)
        \<and> (\<exists>redirected. body = executeInTransaction E H (\<lambda>i. runInSession i callback redirected) None None
              \<lparr>isolationLevel = opt_isolationLevel opts, connectionName = opt_connectionName opts,
               forceNew = (propagation_of (opt_propagation opts) = REQUIRES_NEW)\<rparr>)"
proof (cases "validateTransactionOptions opts")
  case (Inl c)
  then show ?thesis using assms(1) by (simp add: transaction_def)
next
  case (Inr u)
  obtain redirected where "attempts deadlock (nat n)
      (executeInTransaction E H (\<lambda>i. runInSession i callback redirected) None None
         \<lparr>isolationLevel = opt_isolationLevel opts, connectionName = opt_connectionName opts,
          forceNew = (propagation_of (opt_propagation opts) = REQUIRES_NEW)\<rparr>) w = (r, w')"
    using assms Inr by (cases "propagation_of (opt_propagation opts)") (auto simp: transaction_def Let_def)
  from attempts_spec [OF this] show ?thesis unfolding Inr sum.case by blast
qed

subsection \<open>What a session operation does to the world\<close>

lemma on_session_run:
  assumes "m ((sessions w i)\<lparr>database := (fst (database (sessions w i)), shared w), memory := objects w\<rparr>) = (r, s')"
  shows "on_session i m w = (r, w\<lparr>sessions := (sessions w)(i := s'), shared := snd (database s'), objects := memory s'\<rparr>)"
  using assms by (simp add: on_session_def)

subsection \<open>Failures before the commit\<close>

lemma newSession_world:
  assumes "newSession p w = (i, w1)"
  shows "i = nextSession w" "sessions w1 i = new_session (p, shared w) (objects w)"
    "objects w1 = objects w" "shared w1 = shared w"
  using assms by (auto simp: newSession_def)

lemma on_failure_outcome: "\<exists>x w'. on_failure E H i e w = (Inl x, w') \<and> (x = e \<or> (\<exists>y. x = RollbackFailed e y))"
  by (auto simp: on_failure_def split: prod.splits sum.splits)

lemma close_logged_Inr: "fst (close_logged E i w) = Inr ()"
  by (auto simp: close_logged_def split: prod.splits sum.splits)

lemma cleanup_Inr: "fst (cleanup E H i w) = Inr ()"
  by (simp add: cleanup_def close_logged_Inr)

lemma runInNewSession_outcome:
  assumes "newSession (freshSource H) w = (i, w1)" "until_commit E H i fn node opts w1 = (r, w2)"
  shows "runInNewSession E H fn node opts w =
     (case (case r of Inl e \<Rightarrow> on_failure E H i e w2
            | Inr a \<Rightarrow> io_then (after_commit H) (io_return a) w2) of
        (x, w3) \<Rightarrow> (x, snd (cleanup E H i w3)))"
  using assms cleanup_Inr [of E H i]
  by (auto simp: runInNewSession_def io_finally_def split: prod.splits sum.splits) (metis fst_conv Inl_Inr_False)+

lemma run_hooks_frame:
  "run_hooks hs w = (r, w') \<Longrightarrow> sessions w' = sessions w \<and> shared w' = shared w \<and> nextSession w' = nextSession w"
  by (induction hs w rule: run_hooks.induct) (auto split: prod.splits sum.splits)

lemma closeOwned_frame:
  "transactionActive (snd (closeOwnedConnector E s)) = transactionActive s
    \<and> rollbackUndos (snd (closeOwnedConnector E s)) = rollbackUndos s
    \<and> memory (snd (closeOwnedConnector E s)) = memory s
    \<and> transactionEndCallbacks (snd (closeOwnedConnector E s)) = transactionEndCallbacks s"
  by (auto simp: closeOwnedConnector_def outside_def io_defs Let_def split: option.splits prod.splits sum.splits)

lemma io_bind_return_world: "snd (io_bind m (\<lambda>_. io_return x) w) = snd (m w)"
  by (auto simp: io_defs split: prod.splits sum.splits)

lemma close_frame:
  "transactionActive (snd (close E s)) = transactionActive s \<and> rollbackUndos (snd (close E s)) = rollbackUndos s
    \<and> memory (snd (close E s)) = memory s \<and> transactionEndCallbacks (snd (close E s)) = transactionEndCallbacks s"
  by (simp add: close_def io_finally_world closeOwned_frame io_bind_return_world)

lemma cleanup_frame:
  "transactionActive (sessions (snd (cleanup E H i w)) i) = transactionActive (sessions w i)
    \<and> rollbackUndos (sessions (snd (cleanup E H i w)) i) = rollbackUndos (sessions w i)
    \<and> objects (snd (cleanup E H i w)) = clearTxDirtyEntities H i (objects w)"
proof -
  let ?w = "w\<lparr>objects := clearTxDirtyEntities H i (objects w)\<rparr>"
  let ?s = "(sessions ?w i)\<lparr>database := (fst (database (sessions ?w i)), shared ?w), memory := objects ?w\<rparr>"
  obtain r s' where c: "close E ?s = (r, s')" by fastforce
  then have "snd (cleanup E H i w) = (if isl r then log_error else id)
      (?w\<lparr>sessions := (sessions ?w)(i := s'), shared := snd (database s'), objects := memory s'\<rparr>)"
    by (auto simp: cleanup_def close_logged_def on_session_def split: sum.splits)
  moreover have "transactionActive s' = transactionActive (sessions w i)" "rollbackUndos s' = rollbackUndos (sessions w i)"
      "memory s' = clearTxDirtyEntities H i (objects w)"
    using close_frame [of E ?s] c by simp_all
  ultimately show ?thesis by (simp add: log_error_def)
qed

text \<open>A subscriber that throws in \<^verbatim>\<open>beforeTransactionRollback\<close> keeps the transaction from being
  rolled back: ROLLBACK is not sent, the undo actions and end-of-transaction callbacks do not run
  and the session is closed while it still counts its transaction as active, so the connection
  goes back to the pool with the transaction open.\<close>
theorem throwing_hook_skips_rollback:
  assumes "newSession (freshSource H) w = (i, w1)" "until_commit E H i fn node opts w1 = (Inl e, w2)"
    and "notifyTransaction H BeforeTransactionRollback w2 = (Inl h, w3)"
    and "runInNewSession E H fn node opts w = (r, w')"
  shows "r = Inl (RollbackFailed e h) \<and> w' = snd (cleanup E H i (log_error w3))
    \<and> sessions w3 = sessions w2 \<and> shared w3 = shared w2
    \<and> transactionActive (sessions w' i) = transactionActive (sessions w2 i)
    \<and> rollbackUndos (sessions w' i) = rollbackUndos (sessions w2 i)"
proof -
  have "r = Inl (RollbackFailed e h)" "w' = snd (cleanup E H i (log_error w3))"
    using assms(3,4) runInNewSession_outcome [OF assms(1,2)]
    by (simp_all add: on_failure_def rollback_steps_def io_simps)
  moreover have "sessions w3 = sessions w2" "shared w3 = shared w2"
    using run_hooks_frame assms(3) unfolding notifyTransaction_def by blast+
  ultimately show ?thesis using cleanup_frame [of E H i "log_error w3"] by (simp add: log_error_def)
qed

lemma quiet_hooks: "subscribers H = [] \<Longrightarrow> notifyTransaction H ev w = (Inr (), w)"
  "plugins H = [] \<Longrightarrow> notifyAfterTransaction H b w = (Inr (), w)"
  "plugins H = [] \<Longrightarrow> notifyBeforeTransaction H l w = (Inr (), w)"
  by (simp_all add: notifyTransaction_def notifyAfterTransaction_def notifyBeforeTransaction_def List.map_filter_def)

lemma ds_op_Some:
  "dataSource s = Some ds \<Longrightarrow> ds_op E c s = (case driver E ds c (database s) of
      (Inl e, d) \<Rightarrow> (Inl (Driver e), s\<lparr>database := d\<rparr>) | (Inr r, d) \<Rightarrow> (Inr (Some r), s\<lparr>database := d\<rparr>))"
  by (auto simp: ds_op_def outside_def io_defs split: prod.splits sum.splits)

text \<open>On a pooled data source (MySQL, PostgreSQL) a COMMIT that fails, for whatever reason, is
  reported as a failed rollback: the connector has rolled the transaction back and dropped the
  connection, and the runner's own ROLLBACK then fails for want of one. The error the caller and
  the retry loop see is not a deadlock, unless its text happens to say so.\<close>
theorem failed_commit_masked:
  assumes "pooled_data_source (driver E ds) has_conn"
    and "newSession (freshSource H) w = (i, w1)" "before_commit E H i fn node opts w1 = (Inr a, w2)"
    and "dataSource (sessions w2 i) = Some ds"
    and "fst (driver E ds Commit (fst (database (sessions w2 i)), shared w2)) = Inl x"
    and "subscribers H = []"
  shows "fst (runInNewSession E H fn node opts w) = Inl (RollbackFailed (Driver x) (Driver NoConnection))
    \<and> (isDeadlockError (error_view (info_of H) (RollbackFailed (Driver x) (Driver NoConnection)))
        \<longleftrightarrow> has_substring (''Transaction failed and rollback also failed: '' @ err_message (info_of H x)) ''database is locked'')"
proof -
  let ?s = "(sessions w2 i)\<lparr>database := (fst (database (sessions w2 i)), shared w2), memory := objects w2\<rparr>"
  obtain d where d: "driver E ds Commit (database ?s) = (Inl x, d)" using assms(5) by (cases "driver E ds Commit (database ?s)") auto
  have ds: "dataSource ?s = Some ds" using assms(4) by simp
  let ?s' = "?s\<lparr>database := d\<rparr>"
  let ?w3 = "w2\<lparr>sessions := (sessions w2)(i := ?s'), shared := snd d, objects := objects w2\<rparr>"
  have "commit E ?s = (Inl (Driver x), ?s')"
    using d ds by (simp add: commit_def ds_op_Some io_simps)
  then have c: "on_session i (commit E) w2 = (Inl (Driver x), ?w3)"
    by (subst on_session_run) auto
  have u: "until_commit E H i fn node opts w1 = (Inl (Driver x), ?w3)"
    using assms(3) c by (simp add: until_commit_def io_simps)
  have "fst (driver E ds Rollback d) = Inl NoConnection"
    using pooled_data_source.rollback_after_commit [OF assms(1), of "database ?s"] d by simp
  then have "fst (rollback E (?s'\<lparr>database := d, memory := objects w2\<rparr>)) = Inl (Driver NoConnection)"
    using ds by (auto simp: rollback_def io_finally_def ds_op_Some split: prod.splits sum.splits)
  then have "fst (on_session i (rollback E) ?w3) = Inl (Driver NoConnection)"
    by (auto simp: on_session_def split: prod.splits)
  then obtain w4 where "on_session i (rollback E) ?w3 = (Inl (Driver NoConnection), w4)"
    by (metis prod.collapse)
  then have "rollback_steps E H i ?w3 = (Inl (Driver NoConnection), w4)"
    using assms(6) by (simp add: rollback_steps_def io_simps quiet_hooks)
  then show ?thesis
    using runInNewSession_outcome [OF assms(2) u] by (simp add: on_failure_def isDeadlockError_def)
qed

subsection \<open>A failed transaction leaves the caller's objects as they were\<close>

text \<open>What a call to the outside leaves alone.\<close>
definition same_tx :: "('c, 'd, 'm, 'u, 'cb) session \<Rightarrow> ('c, 'd, 'm, 'u, 'cb) session \<Rightarrow> bool" where
  "same_tx s s' \<longleftrightarrow> memory s' = memory s \<and> rollbackUndos s' = rollbackUndos s \<and> savepointMarks s' = savepointMarks s
    \<and> transactionEndCallbacks s' = transactionEndCallbacks s \<and> transactionActive s' = transactionActive s"

lemma same_tx_trans: "same_tx a b \<Longrightarrow> same_tx b c \<Longrightarrow> same_tx a c"
  by (simp add: same_tx_def)

lemma same_tx_outside: "outside f s = (r, s') \<Longrightarrow> same_tx s s'"
  by (auto simp: outside_def same_tx_def split: prod.splits sum.splits)

lemma same_tx_ds_op: "ds_op E c s = (r, s') \<Longrightarrow> same_tx s s'"
  using ds_op_frame [of E c s] by (simp add: same_tx_def)

lemma same_tx_open_source:
  fixes E :: "('c, 'd, 'm, 'u, 'cb, 'e, 'r) env"
  shows "same_tx s (snd (open_source E t c s))"
proof -
  obtain x :: "'e session_error + 'c data_source" where cd: "createDataSource t c s = (x, s)"
    using createDataSource_pure [of t c s] by (metis prod.collapse)
  show ?thesis
  proof (cases x)
    case (Inl e)
    then show ?thesis using cd by (simp add: open_source_def io_simps same_tx_def)
  next
    case (Inr ds)
    obtain r s1 where d: "ds_op E CreateConnection (s\<lparr>dataSource := Some ds\<rparr>) = (r, s1)" by fastforce
    then have "same_tx s s1" using same_tx_ds_op [OF d] by (simp add: same_tx_def)
    then show ?thesis using cd Inr d by (cases r) (simp_all add: open_source_def io_defs)
  qed
qed

lemma connect_frame:
  assumes "connect E nm s = (r, s')"
  shows "same_tx s s'"
proof -
  let ?s = "s\<lparr>registeredConnection := Some (case nm of Some n \<Rightarrow> n | None \<Rightarrow> ''default'')\<rparr>"
  obtain r1 s1 where o1: "outside (getConnection E nm) ?s = (r1, s1)" by fastforce
  have s1: "same_tx s s1" using same_tx_outside [OF o1] by (simp add: same_tx_def)
  show ?thesis
  proof (cases r1)
    case (Inl e)
    then show ?thesis using assms o1 s1 by (simp add: connect_def io_defs)
  next
    case (Inr c)
    let ?s1 = "s1\<lparr>connection := Some c\<rparr>"
    let ?t = "case nm of None \<Rightarrow> defaultType E (database ?s1)
      | Some n \<Rightarrow> (case getType E n (database ?s1) of Some t \<Rightarrow> Some t | None \<Rightarrow> defaultType E (database ?s1))"
    obtain x s2 where o2: "open_source E ?t c (s1\<lparr>connection := Some c\<rparr>) = (x, s2)" by fastforce
    then have "s' = snd (open_source E ?t c (s1\<lparr>connection := Some c\<rparr>))"
      using assms o1 Inr by (cases x) (auto simp: connect_def io_defs Let_def)
    then have "same_tx (s1\<lparr>connection := Some c\<rparr>) s'" using same_tx_open_source by simp
    then show ?thesis using s1 by (simp add: same_tx_def)
  qed
qed

lemma startTransaction_frame:
  assumes "startTransaction E level s = (r, s')"
  shows "memory s' = memory s \<and> rollbackUndos s' = rollbackUndos s \<and> savepointMarks s' = savepointMarks s
    \<and> transactionEndCallbacks s' = transactionEndCallbacks s \<and> ((\<exists>x. r = Inr x) \<longrightarrow> transactionActive s')"
proof -
  obtain r1 s1 where d: "ds_op E (StartTransaction level) s = (r1, s1)" by fastforce
  then show ?thesis
    using assms ds_op_frame [of E "StartTransaction level" s]
    by (cases r1) (auto simp: startTransaction_def io_defs split: if_splits)
qed

text \<open>Undoing session \<open>i\<close> now gives the memory \<open>m\<close>.\<close>
definition undoable :: "('c, 'p, 'd, 'm, 'u, 'cb, 'e, 'r) tx_env \<Rightarrow> 'm \<Rightarrow> nat \<Rightarrow> ('c, 'p, 'd, 'm, 'u, 'cb) world \<Rightarrow> bool" where
  "undoable E m i w \<longleftrightarrow> replay E (rollbackUndos (sessions w i)) (objects w) = m
     \<and> transactionEndCallbacks (sessions w i) = []"

lemma undoable_rollback:
  assumes "undoable E m i w"
  shows "objects (snd (on_session i (rollback E) w)) = m"
proof -
  let ?s = "(sessions w i)\<lparr>database := (fst (database (sessions w i)), shared w), memory := objects w\<rparr>"
  have "memory (snd (rollback E ?s)) = m"
    using assms by (simp add: undoable_def rollback_memory)
  then show ?thesis by (auto simp: on_session_def split: prod.splits)
qed

lemma on_failure_objects:
  assumes "undoable E m i w" "subscribers H = []" "plugins H = []"
  shows "objects (snd (on_failure E H i e w)) = m"
proof -
  obtain r w1 where r: "on_session i (rollback E) w = (r, w1)" by fastforce
  then have "objects w1 = m" using undoable_rollback [OF assms(1)] by simp
  then show ?thesis
    using r assms(2,3) by (cases r) (auto simp: on_failure_def rollback_steps_def io_defs quiet_hooks log_error_def)
qed

text \<open>The work: tracked steps on the session, and any outcome.\<close>
definition tracked_work :: "('c, 'p, 'd, 'v heap, 'v undo_action, 'cb, string, 'r) tx_env
    \<Rightarrow> ('c, 'p \<times> 'd, 'v heap, 'v undo_action, 'cb, string) write_code tx_step list
    \<Rightarrow> (('c, 'p, 'd, 'v heap, 'v undo_action, 'cb) sess \<Rightarrow> string session_error + 'a)
    \<Rightarrow> nat \<Rightarrow> ('c, 'p, 'd, 'v heap, 'v undo_action, 'cb, string, 'a) work" where
  "tracked_work E steps outcome i = on_session i (\<lambda>s. (outcome s, do_steps E steps s))"

lemma on_session_cases:
  assumes "on_session i m w = (r, w')"
  obtains s s' where "s = (sessions w i)\<lparr>database := (fst (database (sessions w i)), shared w), memory := objects w\<rparr>"
    "m s = (r, s')" "sessions w' i = s'" "objects w' = memory s'"
  using assms by (auto simp: on_session_def Let_def split: prod.splits)

lemma undoable_same_tx:
  assumes "undoable E m i w" "on_session i f w = (r, w')"
    and "\<And>s s'. f s = (r, s') \<Longrightarrow> same_tx s s'"
  shows "undoable E m i w'"
proof -
  obtain s s' where s: "s = (sessions w i)\<lparr>database := (fst (database (sessions w i)), shared w), memory := objects w\<rparr>"
    "f s = (r, s')" "sessions w' i = s'" "objects w' = memory s'"
    using assms(2) by (rule on_session_cases)
  have "same_tx s s'" using assms(3) s(2) .
  then show ?thesis using assms(1) s by (simp add: undoable_def same_tx_def)
qed

lemma commit_same_tx: "commit E s = (Inl e, s') \<Longrightarrow> same_tx s s'"
proof -
  assume "commit E s = (Inl e, s')"
  then obtain d where "s' = s\<lparr>database := d\<rparr>" using commit_failed by blast
  then show ?thesis by (simp add: same_tx_def)
qed

text \<open>Wherever the run stops before the commit is through, what it did can be undone.\<close>
lemma until_commit_undoable:
  assumes "run_undo E = perform_undo" "\<And>st. st \<in> set steps \<Longrightarrow> tracked_step st"
    and "subscribers H = []" "plugins H = []"
    and "newSession p w = (i, w1)" "heap_wf (objects w)"
    and "until_commit E H i (tracked_work E steps outcome) None opts w1 = (Inl e, w2)"
  shows "undoable E (objects w) i w2"
proof -
  let ?nm = "Some (case connectionName opts of Some n \<Rightarrow> n | None \<Rightarrow> getConnectionName H)"
  have w1: "sessions w1 i = new_session (p, shared w) (objects w)" "objects w1 = objects w"
    using newSession_world [OF assms(5)] by auto
  then have u1: "undoable E (objects w) i w1" by (simp add: undoable_def new_session_def)
  obtain r3 w3 where c: "on_session i (connect E ?nm) w1 = (r3, w3)" by fastforce
  have u3: "undoable E (objects w) i w3"
    by (rule undoable_same_tx [OF u1 c connect_frame])
  obtain s1 s3 where s3: "s1 = (sessions w1 i)\<lparr>database := (fst (database (sessions w1 i)), shared w1), memory := objects w1\<rparr>"
      "connect E ?nm s1 = (r3, s3)" "sessions w3 i = s3" "objects w3 = memory s3"
    using c by (rule on_session_cases)
  have t3: "rollbackUndos s3 = [] \<and> savepointMarks s3 = [] \<and> transactionEndCallbacks s3 = [] \<and> memory s3 = objects w"
    using connect_frame [OF s3(2)] s3(1) w1 by (simp add: same_tx_def new_session_def)
  show ?thesis
  proof (cases r3)
    case (Inl e1)
    then have "w2 = w3" using assms(7) c by (simp add: until_commit_def before_commit_def io_simps)
    then show ?thesis using u3 by simp
  next
    case (Inr x3)
    obtain r4 w4 where st: "on_session i (startTransaction E (isolationLevel opts)) w3 = (r4, w4)" by fastforce
    then obtain s s4 where s4: "s = (sessions w3 i)\<lparr>database := (fst (database (sessions w3 i)), shared w3), memory := objects w3\<rparr>"
        "startTransaction E (isolationLevel opts) s = (r4, s4)" "sessions w4 i = s4" "objects w4 = memory s4"
      by (rule on_session_cases)
    have t4: "rollbackUndos s4 = [] \<and> savepointMarks s4 = [] \<and> transactionEndCallbacks s4 = [] \<and> memory s4 = objects w
        \<and> ((\<exists>x. r4 = Inr x) \<longrightarrow> transactionActive s4)"
      using startTransaction_frame [OF s4(2)] s4(1) s3 t3 by simp
    show ?thesis
    proof (cases r4)
      case (Inl e1)
      then have "w2 = w4"
        using assms(3,4,7) c Inr st by (simp add: until_commit_def before_commit_def io_simps quiet_hooks)
      then show ?thesis using t4 s4 by (simp add: undoable_def)
    next
      case r4: (Inr x4)
      obtain r5 w5 where f: "tracked_work E steps outcome i w4 = (r5, w5)" by fastforce
      then obtain s s5 where s5: "s = (sessions w4 i)\<lparr>database := (fst (database (sessions w4 i)), shared w4), memory := objects w4\<rparr>"
          "(outcome s, do_steps E steps s) = (r5, s5)" "sessions w5 i = s5" "objects w5 = memory s5"
        unfolding tracked_work_def by (rule on_session_cases)
      have "begun heap_wf s" "transactionEndCallbacks s = []" "memory s = objects w"
        using s5(1) s4 t4 r4 assms(6) by (auto simp: begun_def)
      then have u5: "undoable E (objects w) i w5"
        using tracked_run [OF assms(1), of s steps s5] assms(2) s5 by (simp add: undoable_def)
      show ?thesis
      proof (cases r5)
        case (Inl e1)
        then have "w2 = w5"
          using assms(3,4,7) c Inr st r4 f by (simp add: until_commit_def before_commit_def io_simps quiet_hooks)
        then show ?thesis using u5 by simp
      next
        case r5: (Inr a)
        then have "before_commit E H i (tracked_work E steps outcome) None opts w1 = (Inr a, w5)"
          using assms(3,4) c Inr st r4 f by (simp add: before_commit_def io_simps quiet_hooks)
        then obtain e' where cm: "on_session i (commit E) w5 = (Inl e', w2)"
          using assms(7) by (cases "on_session i (commit E) w5"; cases "fst (on_session i (commit E) w5)")
            (auto simp: until_commit_def io_simps)
        show ?thesis
          by (rule undoable_same_tx [OF u5 cm commit_same_tx])
      qed
    qed
  qed
qed


lemma in_savepoint_failed:
  assumes "on_session i (savepoint E n) w = (Inr x, w1)" "fn w1 = (Inl e, w2)"
    and "on_session i (rollbackTo E n) w2 = (Inr y, w3)"
  shows "in_savepoint E i n fn w = (Inl e, w3)"
  using assms by (simp add: in_savepoint_def io_defs)

text \<open>C32: A NESTED unit of work that fails inside an open transaction puts the caller's objects back to
  what they were when it started, hands its error on, and leaves the outer transaction active
  with its own work still undoable to the state of BEGIN.\<close>
theorem nested_failure_undone:
  assumes "run_undo E = perform_undo" "session_sim heap_wf E s a"
    and "s = (sessions w i)\<lparr>database := (fst (database (sessions w i)), shared w), memory := objects w\<rparr>"
    and "\<And>st. st \<in> set steps \<Longrightarrow> tracked_step st \<and> (\<forall>m. st \<noteq> BackTo m) \<and> st \<noteq> TakeSavepoint n"
    and "on_session i (savepoint E n) w = (Inr x, w1)" "tracked_work E steps outcome i w1 = (Inl e, w2)"
    and "on_session i (rollbackTo E n) w2 = (Inr y, w3)"
    and "in_savepoint E i n (tracked_work E steps outcome i) w = (r, w')"
  shows "r = Inl e \<and> objects w' = objects w \<and> transactionActive (sessions w' i)
    \<and> replay E (rollbackUndos (sessions w' i)) (objects w') = base a"
proof -
  have rw: "r = Inl e" "w' = w3" using in_savepoint_failed [of i E n w x w1 "tracked_work E steps outcome i", OF assms(5-7)] assms(8) by auto
  obtain s1 where s1: "savepoint E n s = (Inr x, s1)" "sessions w1 i = s1" "objects w1 = memory s1"
      "s1\<lparr>database := (fst (database s1), shared w1), memory := objects w1\<rparr> = s1"
    using assms(5) unfolding assms(3) by (auto simp: on_session_def Let_def split: prod.splits)
  obtain s2 where s2: "s2 = do_steps E steps s1" "sessions w2 i = s2" "objects w2 = memory s2"
      "s2\<lparr>database := (fst (database s2), shared w2), memory := objects w2\<rparr> = s2"
    using assms(6) s1 by (auto simp: tracked_work_def on_session_def Let_def split: prod.splits)
  obtain s3 where s3: "rollbackTo E n s2 = (Inr y, s3)" "sessions w3 i = s3" "objects w3 = memory s3"
    using assms(7) s2 by (auto simp: on_session_def Let_def split: prod.splits)
  have "memory s3 = memory s" "transactionActive s3" "replay E (rollbackUndos s3) (memory s3) = base a"
    using savepoint_scope [OF assms(2) s1(1) _ _ s3(1) [unfolded s2(1)]] assms(1,4) tracked_step_reversible
    by blast+
  then show ?thesis using rw s3 assms(3) by simp
qed

text \<open>A per-query timeout is set before the work and undone after it, whatever the work does: on a
  database other than SQLite the last statement on the session is the one restoring the default,
  and its failure is only logged. A cancellation by the database is reported as a timeout with
  its cause; every other outcome of the work is handed on.\<close>
theorem query_timeout_restored:
  assumes "setQueryTimeout H = Some sql" "0 < t" "on_session i (query E (sql t)) w = (Inr x, w1)"
    and "fn i w1 = (r, w2)"
  shows "withQueryTimeout E H i (Some t) fn w =
    (case r of Inl e \<Rightarrow> Inl (if isStatementTimeoutError (error_view (info_of H) e) then QueryTimeout t e else e)
             | Inr a \<Rightarrow> Inr a,
     let fallback = (case getDefaultQueryTimeout H of Some f \<Rightarrow> f | None \<Rightarrow> 0)
     in if fallback \<noteq> t \<and> \<not> isSqlite H
        then (case on_session i (query E (sql fallback)) w2 of (Inl _, w3) \<Rightarrow> log_error w3 | (Inr _, w3) \<Rightarrow> w3)
        else w2)"
proof -
  let ?restore = "let fallback = (case getDefaultQueryTimeout H of Some f \<Rightarrow> f | None \<Rightarrow> 0)
      in if fallback \<noteq> t \<and> \<not> isSqlite H
         then (\<lambda>w. case on_session i (query E (sql fallback)) w of
                 (Inl _, w) \<Rightarrow> (Inr (), log_error w) | (Inr _, w) \<Rightarrow> (Inr (), w))
         else io_return ()"
  let ?work = "io_catch (fn i) (\<lambda>e. if isStatementTimeoutError (error_view (info_of H) e)
      then io_throw (QueryTimeout t e) else io_throw e)"
  have "withQueryTimeout E H i (Some t) fn w = io_finally ?work ?restore w1"
    using assms by (simp add: withQueryTimeout_def io_simps)
  moreover have "?work w1 = (case r of Inl e \<Rightarrow> Inl (if isStatementTimeoutError (error_view (info_of H) e) then QueryTimeout t e else e)
             | Inr a \<Rightarrow> Inr a, w2)"
    using assms(4) by (cases r) (simp_all add: io_simps)
  ultimately show ?thesis
    by (auto simp: io_finally_def io_return_def Let_def split: prod.splits sum.splits)
qed

subsection \<open>The connection is given back\<close>

text \<open>
  \<open>hp\<close> says of a data source's private state that it holds a connection. A session without a data
  source holds none, and one without a connection has no data source.
\<close>
definition session_ok :: "('p \<Rightarrow> bool) \<Rightarrow> ('c, 'p, 'd, 'm, 'u, 'cb) sess \<Rightarrow> bool" where
  "session_ok hp s \<longleftrightarrow> (dataSource s = None \<longrightarrow> \<not> hp (fst (database s))) \<and> (connection s = None \<longrightarrow> dataSource s = None)"

definition keeps_ok :: "('p \<Rightarrow> bool) \<Rightarrow> (('c, 'p, 'd, 'm, 'u, 'cb) sess, 'x, 'a) io \<Rightarrow> bool" where
  "keeps_ok hp m \<longleftrightarrow> (\<forall>s. session_ok hp s \<longrightarrow> session_ok hp (snd (m s)))"

definition work_ok :: "('p \<Rightarrow> bool) \<Rightarrow> nat \<Rightarrow> ('c, 'p, 'd, 'm, 'u, 'cb, 'e, 'a) work \<Rightarrow> bool" where
  "work_ok hp i m \<longleftrightarrow> (\<forall>w. session_ok hp (sessions w i) \<longrightarrow> session_ok hp (sessions (snd (m w)) i))"

text \<open>The registry and the callbacks do not touch a data source's private state.\<close>
definition outside_ok :: "('p \<Rightarrow> bool) \<Rightarrow> ('c, 'p, 'd, 'm, 'u, 'cb, 'e, 'r) tx_env \<Rightarrow> bool" where
  "outside_ok hp E \<longleftrightarrow> (\<forall>n d. fst (snd (getConnection E n d)) = fst d) \<and> (\<forall>c d. fst (snd (closeConnector E c d)) = fst d)
     \<and> (\<forall>cb b. keeps_ok hp (run_cb E cb b))"

lemma work_ok_on_session:
  fixes m :: "(('c, 'p, 'd, 'm, 'u, 'cb) sess, 'e session_error, 'a) io"
  assumes "keeps_ok hp m"
  shows "work_ok hp i (on_session i m)"
  unfolding work_ok_def
proof (intro allI impI)
  fix w :: "('c, 'p, 'd, 'm, 'u, 'cb) world"
  assume ok: "session_ok hp (sessions w i)"
  let ?s = "(sessions w i)\<lparr>database := (fst (database (sessions w i)), shared w), memory := objects w\<rparr>"
  obtain r s' where m: "m ?s = (r, s')" by fastforce
  have "session_ok hp ?s" using ok by (simp add: session_ok_def)
  then have "session_ok hp s'" using assms m unfolding keeps_ok_def by (metis snd_conv)
  then show "session_ok hp (sessions (snd (on_session i m w)) i)"
    using m by (simp add: on_session_def Let_def)
qed

lemma work_ok_bind: "work_ok hp i m \<Longrightarrow> (\<And>a. work_ok hp i (f a)) \<Longrightarrow> work_ok hp i (io_bind m f)"
  unfolding work_ok_def io_bind_def by (fastforce split: prod.splits sum.splits)

lemma work_ok_then: "work_ok hp i m \<Longrightarrow> work_ok hp i k \<Longrightarrow> work_ok hp i (io_then m k)"
  by (simp add: io_then_def work_ok_bind)

lemma work_ok_return: "work_ok hp i (io_return a)"
  by (simp add: work_ok_def io_defs)

lemma work_ok_hooks: "work_ok hp i (run_hooks hs)"
  unfolding work_ok_def using run_hooks_frame by (metis prod.collapse)

lemma work_ok_notify: "work_ok hp i (notifyTransaction H ev)" "work_ok hp i (notifyBeforeTransaction H l)"
  "work_ok hp i (notifyAfterTransaction H b)"
  by (simp_all add: notifyTransaction_def notifyBeforeTransaction_def notifyAfterTransaction_def work_ok_hooks)

lemma ds_op_ok: "session_ok hp s \<Longrightarrow> ds_op E c s = (r, s') \<Longrightarrow> session_ok hp s'"
  using ds_op_frame [of E c s]
  by (cases "dataSource s") (auto simp: session_ok_def ds_op_def)

lemma keeps_ds_op: "keeps_ok hp (ds_op E c)"
  unfolding keeps_ok_def using ds_op_ok by (metis prod.collapse)

lemma undo_fields_ok:
  "dataSource (runRollbackUndos E us s) = dataSource s \<and> connection (runRollbackUndos E us s) = connection s
    \<and> database (runRollbackUndos E us s) = database s"
proof -
  have o: "dataSource (undo_one E u s) = dataSource s \<and> connection (undo_one E u s) = connection s
    \<and> database (undo_one E u s) = database s" for u s
    by (auto simp: undo_one_def split: prod.splits sum.splits)
  have "dataSource (fold (undo_one E) us s) = dataSource s \<and> connection (fold (undo_one E) us s) = connection s
    \<and> database (fold (undo_one E) us s) = database s" for us
    by (induction us arbitrary: s) (auto simp: o)
  then show ?thesis by (simp add: runRollbackUndos_def)
qed

lemma fire_ok:
  assumes "outside_ok hp E" "session_ok hp s"
  shows "session_ok hp (fireTransactionEnd E b s)"
proof -
  have f1: "session_ok hp (fire_one E b cb s)" if "session_ok hp s" for cb s
  proof -
    have "session_ok hp (snd (run_cb E cb b s))"
      using assms(1) that unfolding outside_ok_def keeps_ok_def by blast
    then show ?thesis by (auto simp: fire_one_def session_ok_def split: prod.splits sum.splits)
  qed
  have "session_ok hp (fold (fire_one E b) cbs s)" if "session_ok hp s" for cbs s
    using that by (induction cbs arbitrary: s) (auto simp: f1)
  then show ?thesis using assms(2) by (simp add: fireTransactionEnd_def session_ok_def)
qed

lemma rollback_ok:
  assumes E: "outside_ok hp E" and ok: "session_ok hp s"
  shows "session_ok hp (snd (rollback E s))"
proof -
  obtain r s1 where d: "ds_op E Rollback s = (r, s1)" by fastforce
  have ok1: "session_ok hp s1" using ds_op_ok [OF ok d] .
  let ?s2 = "runRollbackUndos E (rollbackUndos s1) (s1\<lparr>transactionActive := False, rollbackUndos := [], savepointMarks := []\<rparr>)"
  have "session_ok hp ?s2" using ok1 by (simp add: session_ok_def undo_fields_ok)
  then have "session_ok hp (rollback_cleanup E s1)"
    using fire_ok [OF E] by (simp add: rollback_cleanup_def Let_def)
  then show ?thesis using d by (simp add: rollback_def io_finally_world)
qed

lemma commit_ok:
  assumes E: "outside_ok hp E" and ok: "session_ok hp s"
  shows "session_ok hp (snd (commit E s))"
proof -
  obtain r s1 where d: "ds_op E Commit s = (r, s1)" by fastforce
  have ok1: "session_ok hp s1" using ds_op_ok [OF ok d] .
  then have "session_ok hp (s1\<lparr>transactionActive := False, rollbackUndos := [], savepointMarks := []\<rparr>)"
    by (simp add: session_ok_def)
  then show ?thesis
    using d ok1 fire_ok [OF E] by (cases r) (simp_all add: commit_def io_defs Let_def)
qed

lemma start_ok:
  assumes ok: "session_ok hp s"
  shows "session_ok hp (snd (startTransaction E l s))"
proof -
  obtain r s1 where d: "ds_op E (StartTransaction l) s = (r, s1)" by fastforce
  have "session_ok hp s1" using ds_op_ok [OF ok d] .
  then show ?thesis
    using d ok by (cases r) (simp_all add: startTransaction_def io_defs session_ok_def)
qed

lemma open_source_ok:
  fixes E :: "('c, 'p, 'd, 'm, 'u, 'cb, 'e, 'r) tx_env"
  assumes "connection s \<noteq> None" "session_ok hp s"
  shows "session_ok hp (snd (open_source E t c s))"
proof -
  obtain x :: "'e session_error + 'c data_source" where cd: "createDataSource t c s = (x, s)"
    using createDataSource_pure [of t c s] by (metis prod.collapse)
  show ?thesis
  proof (cases x)
    case (Inl e)
    then show ?thesis using cd assms by (simp add: open_source_def io_simps)
  next
    case (Inr ds)
    obtain r s1 where d: "ds_op E CreateConnection (s\<lparr>dataSource := Some ds\<rparr>) = (r, s1)" by fastforce
    have "session_ok hp (s\<lparr>dataSource := Some ds\<rparr>)" using assms by (simp add: session_ok_def)
    then have "session_ok hp s1" using ds_op_ok d by blast
    then show ?thesis using cd Inr d by (cases r) (simp_all add: open_source_def io_defs)
  qed
qed

lemma connect_ok:
  assumes "outside_ok hp E" and ok: "session_ok hp s"
  shows "session_ok hp (snd (connect E nm s))"
proof -
  let ?s = "s\<lparr>registeredConnection := Some (case nm of Some n \<Rightarrow> n | None \<Rightarrow> ''default'')\<rparr>"
  obtain r1 s1 where o1: "outside (getConnection E nm) ?s = (r1, s1)" by fastforce
  have f: "fst (database s1) = fst (database s) \<and> dataSource s1 = dataSource s \<and> connection s1 = connection s"
  proof -
    have "fst (snd (getConnection E nm (database s))) = fst (database s)"
      using assms(1) unfolding outside_ok_def by blast
    then show ?thesis using o1 by (auto simp: outside_def split: prod.splits sum.splits)
  qed
  then have ok1: "session_ok hp s1" "\<And>c. session_ok hp (s1\<lparr>connection := Some c\<rparr>)"
    using ok by (auto simp: session_ok_def)
  show ?thesis
  proof (cases r1)
    case (Inl e)
    then show ?thesis using ok1 o1 by (simp add: connect_def io_defs)
  next
    case (Inr c)
    let ?s1 = "s1\<lparr>connection := Some c\<rparr>"
    let ?t = "case nm of None \<Rightarrow> defaultType E (database ?s1)
      | Some n \<Rightarrow> (case getType E n (database ?s1) of Some t \<Rightarrow> Some t | None \<Rightarrow> defaultType E (database ?s1))"
    obtain x s2 where o2: "open_source E ?t c ?s1 = (x, s2)" by fastforce
    have "session_ok hp s2" using open_source_ok [OF _ ok1(2) [of c], of E ?t c] o2 by simp
    then show ?thesis using o1 o2 Inr by (cases x) (auto simp: connect_def io_defs Let_def)
  qed
qed

lemma until_commit_ok:
  assumes "outside_ok hp E" "work_ok hp i (fn i)"
  shows "work_ok hp i (until_commit E H i fn None opts)"
  unfolding until_commit_def before_commit_def option.case
  by (intro work_ok_bind work_ok_then work_ok_return work_ok_on_session work_ok_notify assms(2))
     (simp_all add: keeps_ok_def connect_ok commit_ok start_ok assms(1))

lemma close_releases:
  assumes "\<And>ds. pooled_data_source (driver E ds) (\<lambda>d. hp (fst d))" "outside_ok hp E" "session_ok hp s"
  shows "\<not> hp (fst (database (snd (close E s))))"
proof (cases "connection s")
  case None
  then show ?thesis using assms(3) by (simp add: close_def session_ok_def)
next
  case (Some c)
  obtain r s1 where d: "ds_op E CloseConnection s = (r, s1)" by fastforce
  have "\<not> hp (fst (database s1))"
  proof (cases "dataSource s")
    case None
    then show ?thesis using d assms(3) by (simp add: ds_op_def session_ok_def)
  next
    case (Some ds)
    then show ?thesis
      using d pooled_data_source.close_drops [OF assms(1), of ds "database s"]
      by (auto simp: ds_op_Some split: prod.splits sum.splits)
  qed
  moreover have "fst (database (snd (closeOwnedConnector E s1))) = fst (database s1)"
  proof (cases "ownedConnector s1")
    case None
    then show ?thesis by (simp add: closeOwnedConnector_def)
  next
    case (Some x)
    obtain r2 d2 where c2: "closeConnector E x (database s1) = (r2, d2)" by (metis surj_pair)
    have "fst (snd (closeConnector E x (database s1))) = fst (database s1)"
      using assms(2) unfolding outside_ok_def by blast
    then show ?thesis
      using Some c2 by (cases r2) (simp_all add: closeOwnedConnector_def outside_def io_defs Let_def)
  qed
  moreover have "snd (close E s) = snd (closeOwnedConnector E s1)"
    using Some d by (simp add: close_def io_finally_world io_bind_return_world)
  ultimately show ?thesis by simp
qed

text \<open>C9: However a transaction on a session of its own ends, an error at any point included, its data
  source has given its connection back when the call is over, on any pooled data source and for
  any work that leaves the opening and closing of its session to the runner.\<close>
theorem session_releases_connection:
  assumes "\<And>ds. pooled_data_source (driver E ds) (\<lambda>d. hp (fst d))" "outside_ok hp E" "\<not> hp (freshSource H)"
    and "\<And>i. work_ok hp i (fn i)" "runInNewSession E H fn None opts w = (r, w')"
  shows "\<not> hp (fst (database (sessions w' (nextSession w))))"
proof -
  obtain i w1 where n: "newSession (freshSource H) w = (i, w1)" by fastforce
  obtain r2 w2 where u: "until_commit E H i fn None opts w1 = (r2, w2)" by fastforce
  let ?rest = "case r2 of Inl e \<Rightarrow> on_failure E H i e w2 | Inr a \<Rightarrow> io_then (after_commit H) (io_return a) w2"
  obtain x w3 where rest: "?rest = (x, w3)" by fastforce
  have "session_ok hp (sessions w1 i)"
    using newSession_world [OF n] assms(3) by (simp add: session_ok_def new_session_def)
  then have ok2: "session_ok hp (sessions w2 i)"
    using until_commit_ok [OF assms(2), of i fn H opts] assms(4) u unfolding work_ok_def by (metis snd_conv)
  have "work_ok hp i (rollback_steps E H i)"
    unfolding rollback_steps_def
    by (intro work_ok_then work_ok_on_session work_ok_notify) (simp add: keeps_ok_def rollback_ok assms(2))
  then have "session_ok hp (sessions (snd (rollback_steps E H i w2)) i)"
    using ok2 unfolding work_ok_def by blast
  moreover have "work_ok hp i (after_commit H)"
    unfolding after_commit_def by (intro work_ok_then work_ok_notify)
  then have "session_ok hp (sessions (snd (after_commit H w2)) i)"
    using ok2 unfolding work_ok_def by blast
  ultimately have ok3: "session_ok hp (sessions w3 i)"
    using rest by (auto simp: on_failure_def log_error_def io_defs split: sum.splits prod.splits)
  let ?w = "w3\<lparr>objects := clearTxDirtyEntities H i (objects w3)\<rparr>"
  let ?s = "(sessions ?w i)\<lparr>database := (fst (database (sessions ?w i)), shared ?w), memory := objects ?w\<rparr>"
  obtain rc s' where c: "close E ?s = (rc, s')" by fastforce
  have "session_ok hp ?s" using ok3 by (simp add: session_ok_def)
  then have "\<not> hp (fst (database s'))" using close_releases [OF assms(1,2)] c by (metis snd_conv)
  moreover have "sessions (snd (cleanup E H i w3)) i = s'"
    using c by (auto simp: cleanup_def close_logged_def on_session_def log_error_def split: sum.splits)
  moreover have "w' = snd (cleanup E H i w3)"
    using runInNewSession_outcome [OF n u] rest assms(5) by simp
  ultimately show ?thesis using newSession_world(1) [OF n] by simp
qed

subsection \<open>Ambient sessions\<close>

text \<open>Inside \<^verbatim>\<open>runInSession\<close> the ambient session of a connection is the new one if that one joins
  it, and otherwise whatever it was outside, through any depth of nesting; when the work is over
  the ambient session is the caller's again. So work never joins a transaction on another
  connection, unless the manager itself redirected it there.\<close>
theorem ambient_session_innermost:
  "\<exists>wi. runInSession i fn mgr w = (fst (fn wi), (snd (fn wi))\<lparr>ambientFrames := ambientFrames w, transactionStorage := transactionStorage w\<rparr>)
    \<and> ambientSessionFor conn m wi =
        (if joins w (case conn of Some n \<Rightarrow> n | None \<Rightarrow> ''default'') m i mgr then Some i
         else if currentFrame w = [] then None else ambientSessionFor conn m w)"
proof (intro exI conjI)
  let ?wi = "w\<lparr>ambientFrames := (i, mgr) # currentFrame w, transactionStorage := Some i\<rparr>"
  show "runInSession i fn mgr w = (fst (fn ?wi), (snd (fn ?wi))\<lparr>ambientFrames := ambientFrames w, transactionStorage := transactionStorage w\<rparr>)"
    by (simp add: runInSession_def split: prod.splits)
  let ?name = "case conn of Some n \<Rightarrow> n | None \<Rightarrow> ''default''"
  have j: "joins ?wi ?name m a b = joins w ?name m a b" for a b by (simp add: joins_def)
  have "currentFrame ?wi = (i, mgr) # currentFrame w" by (simp add: currentFrame_def)
  moreover have "\<exists>t. transactionStorage w = Some t" if "currentFrame w \<noteq> []"
    using that by (cases "transactionStorage w") (auto simp: currentFrame_def split: list.splits if_splits)
  ultimately show "ambientSessionFor conn m ?wi =
        (if joins w ?name m i mgr then Some i
         else if currentFrame w = [] then None else ambientSessionFor conn m w)"
    by (auto simp: ambientSessionFor_def Let_def j split: list.splits)
qed

subsection \<open>Witnesses\<close>

text \<open>
  A data source whose connection is the private part of the pair and whose pool is the shared
  part: the MySQL data source serves several sessions of one pool.
\<close>
definition split_driver :: "(ds_call \<Rightarrow> (('k, 's) pool_state, 'e ds_error, 'r option) io)
    \<Rightarrow> ds_call \<Rightarrow> 'k option \<times> ('k, 's) pool_state \<Rightarrow> ('e ds_error + 'r option) \<times> 'k option \<times> ('k, 's) pool_state" where
  "split_driver call c = (\<lambda>(p, d). case call c (d\<lparr>held := p\<rparr>) of (r, st) \<Rightarrow> (r, held st, st\<lparr>held := None\<rparr>))"

lemma split_driver_run:
  "fst (split_driver call c d) = fst (call c ((snd d)\<lparr>held := fst d\<rparr>))"
  "fst (snd (split_driver call c d)) = held (snd (call c ((snd d)\<lparr>held := fst d\<rparr>)))"
  by (simp_all add: split_driver_def split: prod.splits)

interpretation mysql_split: pooled_data_source "split_driver (mysql_call W)" "\<lambda>d. fst d \<noteq> None"
proof (unfold_locales, goal_cases)
  case (1 d)
  show ?case using mysql.commit_drops [of W "(snd d)\<lparr>held := fst d\<rparr>"] by (simp only: split_driver_run) simp
next
  case (2 d)
  show ?case using mysql.rollback_drops [of W "(snd d)\<lparr>held := fst d\<rparr>"] by (simp only: split_driver_run) simp
next
  case (3 d)
  show ?case using mysql.close_drops [of W "(snd d)\<lparr>held := fst d\<rparr>"] by (simp only: split_driver_run) simp
next
  case (4 d c)
  then show ?case using mysql.no_conn [of "(snd d)\<lparr>held := fst d\<rparr>" c W] by (simp only: split_driver_run) simp
next
  case (5 d)
  show ?case using mysql.close_returns [of W "(snd d)\<lparr>held := fst d\<rparr>"] by (simp only: split_driver_run)
qed

lemma mysql_pooled: "pooled_data_source (split_driver (mysql_call W)) (\<lambda>d. fst d \<noteq> None)"
  by (rule mysql_split.pooled_data_source_axioms)

text \<open>A MySQL server whose COMMIT reports a deadlock, and one connection name.\<close>
definition deadlock_env :: "(nat, nat option, (nat, string \<times> (string \<times> string) list) pool_state, nat heap,
    nat undo_action, nat, string ds_error, unit option) tx_env" where
  "deadlock_env = \<lparr> getConnection = \<lambda>_ d. (Inr 0, d), getType = \<lambda>_ _. Some ''mysql'', defaultType = \<lambda>_. Some ''mysql'',
     connectReplicationNode = \<lambda>_ _ d. (Inr 7, d), closeConnector = \<lambda>_ d. (Inr (), d),
     hasQueryWithOptions = \<lambda>_. True, driver = \<lambda>_. split_driver (mysql_call demo_wire),
     run_undo = \<lambda>_ m. (Inr (), m), run_cb = \<lambda>_ _ s. (Inr (), s) \<rparr>"

definition deadlock_info :: "string ds_error \<Rightarrow> error_info" where
  "deadlock_info e = \<lparr>is_error = True, errno = None,
     err_code = (if e = Wire ''deadlock'' then Some ''ER_LOCK_DEADLOCK'' else None), err_message = ''deadlock''\<rparr>"

definition deadlock_host :: "(nat, nat option, (nat, string \<times> (string \<times> string) list) pool_state, nat heap,
    nat undo_action, nat, string ds_error) host" where
  "deadlock_host = \<lparr> subscribers = [], plugins = [], clearTxDirtyEntities = \<lambda>_ m. m,
     connectToReadNode = \<lambda>_ s. (Inr (), s), getConnectionName = ''default'', manager_id = 1,
     setQueryTimeout = Some (\<lambda>_. ''SET timeout''), getDefaultQueryTimeout = Some 9, isSqlite = False,
     isPostgres = False, currentTenant = ''public'', needsTransactionForTenantRead = False,
     freshSource = None, info_of = deadlock_info \<rparr>"

definition start_pool :: "(nat, string \<times> (string \<times> string) list) pool_state" where
  "start_pool = \<lparr>held = None, borrowed = [], released = [], destroyed = [], server = (''public'', [])\<rparr>"

definition start_world :: "(nat, nat option, (nat, string \<times> (string \<times> string) list) pool_state, nat heap,
    nat undo_action, nat) world" where
  "start_world = \<lparr> sessions = \<lambda>_. new_session (None, start_pool) demo_heap, nextSession = 3,
     transactionStorage = None, ambientFrames = [], flows = [], nextFlow = 0, savepointCounter = 0,
     txSavepointCounter = 0, shared = start_pool, objects = demo_heap, logged = 0 \<rparr>"

definition retry_options :: transaction_options where
  "retry_options = \<lparr>opt_isolationLevel = None, opt_propagation = Some ''REQUIRES_NEW'', opt_connectionName = None,
     retryOnDeadlock = True, maxRetries = Some 2, retryDelayMs = None\<rparr>"

theorem transaction_retries_deadlocks_witness:
  "fst (transaction deadlock_env deadlock_host (io_return (5::nat)) (Some retry_options) start_world)
     = Inl (RollbackFailed (Driver (Wire ''deadlock'')) (Driver NoConnection))
   \<and> (\<exists>k \<le> 2. \<exists>body w1. deadlocks (\<lambda>e. isDeadlockError (error_view deadlock_info e)) body k start_world w1
        \<and> body w1 = transaction deadlock_env deadlock_host (io_return (5::nat)) (Some retry_options) start_world)"
proof -
  obtain r w' where t: "transaction deadlock_env deadlock_host (io_return (5::nat)) (Some retry_options) start_world = (r, w')"
    by (metis surj_pair)
  have "fst (transaction deadlock_env deadlock_host (io_return (5::nat)) (Some retry_options) start_world)
     = Inl (RollbackFailed (Driver (Wire ''deadlock'')) (Driver NoConnection))"
    by code_simp
  moreover have v: "validateTransactionOptions retry_options = Inr ()" and p: "propagation_of (opt_propagation retry_options) \<noteq> NESTED"
    and n: "retryOnDeadlock retry_options" "maxRetries retry_options = Some 2"
    by code_simp+
  have "info_of deadlock_host = deadlock_info" by (simp add: deadlock_host_def)
  then show ?thesis
    using transaction_retries_deadlocks [OF t p n refl] v t calculation by auto
qed

lemma demo_no_sp:
  "st \<in> set demo_steps \<Longrightarrow> tracked_step st \<and> (\<forall>m. st \<noteq> BackTo m) \<and> st \<noteq> TakeSavepoint ''p''"
  using demo_steps_tracked by (auto simp: demo_steps_def)

text \<open>A driver that takes everything but ROLLBACK and undoes objects.\<close>
definition undo_env :: "(nat, unit, ds_call list, nat heap, nat undo_action, nat, string, unit) tx_env" where
  "undo_env = \<lparr> getConnection = \<lambda>_ d. (Inr 0, d), getType = \<lambda>_ _. Some ''mysql'', defaultType = \<lambda>_. Some ''mysql'',
     connectReplicationNode = \<lambda>_ _ d. (Inr 7, d), closeConnector = \<lambda>_ d. (Inr (), d),
     hasQueryWithOptions = \<lambda>_. True,
     driver = \<lambda>_ c d. (if c = Rollback then Inl ''connection lost'' else Inr (), (), snd d @ [c]),
     run_undo = perform_undo, run_cb = \<lambda>_ _ s. (Inr (), s) \<rparr>"

definition timeout_sql :: "int \<Rightarrow> string" where
  "timeout_sql t = (if t = 9 then ''SET 9'' else ''SET t'')"

definition undo_host :: "(nat, unit, ds_call list, nat heap, nat undo_action, nat, string) host" where
  "undo_host = \<lparr> subscribers = [], plugins = [], clearTxDirtyEntities = \<lambda>_ m. m,
     connectToReadNode = \<lambda>_ s. (Inr (), s), getConnectionName = ''default'', manager_id = 1,
     setQueryTimeout = Some timeout_sql, getDefaultQueryTimeout = Some 9, isSqlite = False,
     isPostgres = False, currentTenant = ''public'', needsTransactionForTenantRead = False,
     freshSource = (), info_of = (\<lambda>m. \<lparr>is_error = True, errno = Some 3024, err_code = None, err_message = m\<rparr>) \<rparr>"

definition undo_world :: "(nat, unit, ds_call list, nat heap, nat undo_action, nat) world" where
  "undo_world = \<lparr> sessions = \<lambda>_. (new_session ((), []) demo_heap)\<lparr>connection := Some 0,
       dataSource := Some (MySqlDataSource 0), transactionActive := True\<rparr>, nextSession = 3,
     transactionStorage = None, ambientFrames = [], flows = [], nextFlow = 0, savepointCounter = 0,
     txSavepointCounter = 0, shared = [], objects = demo_heap, logged = 0 \<rparr>"

definition failing :: "(nat, unit, ds_call list, nat heap, nat undo_action, nat) sess \<Rightarrow> string session_error + nat" where
  "failing s = Inl (Driver ''work failed'')"

lemma demo_heap_wf: "heap_wf demo_heap"
  by (auto simp: heap_wf_def demo_heap_def jm_wf_def)


theorem nested_failure_undone_witness:
  "objects (snd (in_savepoint undo_env 0 ''p'' (tracked_work undo_env demo_steps failing 0) undo_world)) = demo_heap"
proof -
  let ?w1 = "snd (on_session 0 (savepoint undo_env ''p'') undo_world)"
  let ?w2 = "snd (tracked_work undo_env demo_steps failing 0 ?w1)"
  have "fst (on_session 0 (savepoint undo_env ''p'') undo_world) = Inr (Some ())" by code_simp
  then have e1: "on_session 0 (savepoint undo_env ''p'') undo_world = (Inr (Some ()), ?w1)" by (metis prod.collapse)
  have "fst (tracked_work undo_env demo_steps failing 0 ?w1) = Inl (Driver ''work failed'')" by code_simp
  then have e2: "tracked_work undo_env demo_steps failing 0 ?w1 = (Inl (Driver ''work failed''), ?w2)" by (metis prod.collapse)
  have "fst (on_session 0 (rollbackTo undo_env ''p'') ?w2) = Inr (Some ())" by code_simp
  then have e3: "on_session 0 (rollbackTo undo_env ''p'') ?w2 = (Inr (Some ()), snd (on_session 0 (rollbackTo undo_env ''p'') ?w2))"
    by (metis prod.collapse)
  let ?s = "(sessions undo_world 0)\<lparr>database := (fst (database (sessions undo_world 0)), shared undo_world), memory := objects undo_world\<rparr>"
  have b: "begun heap_wf ?s" and o: "objects undo_world = demo_heap"
    using demo_heap_wf by (simp_all add: begun_def undo_world_def new_session_def)
  have u: "run_undo undo_env = perform_undo" by (simp add: undo_env_def)
  obtain r w' where t: "in_savepoint undo_env 0 ''p'' (tracked_work undo_env demo_steps failing 0) undo_world = (r, w')"
    by (metis surj_pair)
  show ?thesis
    using nested_failure_undone [OF u begun_sim [OF b] refl demo_no_sp e1 e2 e3 t] t o by simp
qed

theorem query_timeout_restored_witness:
  "fst (withQueryTimeout undo_env undo_host 0 (Some 5) (\<lambda>_. io_throw (Driver ''cancelled'')) undo_world)
     = (Inl (QueryTimeout 5 (Driver ''cancelled'')) :: string session_error + nat)
   \<and> shared (snd (withQueryTimeout undo_env undo_host 0 (Some 5) (\<lambda>_. io_throw (Driver ''cancelled'') :: (_, _, nat) io) undo_world))
     = [Query ''SET t'', Query ''SET 9'']"
proof -
  let ?w1 = "snd (on_session 0 (query undo_env (timeout_sql 5)) undo_world)"
  have q: "setQueryTimeout undo_host = Some timeout_sql" by (simp add: undo_host_def)
  have "fst (on_session 0 (query undo_env (timeout_sql 5)) undo_world) = Inr (Some ())" by code_simp
  then have e: "on_session 0 (query undo_env (timeout_sql 5)) undo_world = (Inr (Some ()), ?w1)"
    by (metis prod.collapse)
  have f: "(\<lambda>_. io_throw (Driver ''cancelled'') :: (_, _, nat) io) (0::nat) ?w1 = (Inl (Driver ''cancelled''), ?w1)"
    by (simp add: io_defs)
  have r: "shared (case on_session 0 (query undo_env (timeout_sql 9)) ?w1 of (Inl _, w3) \<Rightarrow> log_error w3 | (Inr _, w3) \<Rightarrow> w3)
      = [Query ''SET t'', Query ''SET 9'']" by code_simp
  have t: "isStatementTimeoutError (error_view (info_of undo_host) (Driver ''cancelled''))" by code_simp
  have g: "getDefaultQueryTimeout undo_host = Some 9" "isSqlite undo_host = False" by (simp_all add: undo_host_def)
  have "withQueryTimeout undo_env undo_host 0 (Some 5) (\<lambda>_. io_throw (Driver ''cancelled'') :: (_, _, nat) io) undo_world
      = (Inl (QueryTimeout 5 (Driver ''cancelled'')),
         case on_session 0 (query undo_env (timeout_sql 9)) ?w1 of (Inl _, w3) \<Rightarrow> log_error w3 | (Inr _, w3) \<Rightarrow> w3)"
    using query_timeout_restored [where fn = "\<lambda>_. io_throw (Driver ''cancelled'') :: (_, _, nat) io", OF q _ e f] t g
    by (simp only: Let_def sum.case option.case simp_thms if_True) simp
  then show ?thesis using r by simp
qed

theorem failed_commit_masked_witness:
  "fst (runInNewSession deadlock_env deadlock_host (\<lambda>_. io_return (5::nat)) None no_options start_world)
     = Inl (RollbackFailed (Driver (Wire ''deadlock'')) (Driver NoConnection))
   \<and> isDeadlockError (error_view deadlock_info (Driver (Wire ''deadlock'')))
   \<and> \<not> isDeadlockError (error_view deadlock_info (RollbackFailed (Driver (Wire ''deadlock'')) (Driver NoConnection)))"
proof -
  let ?w1 = "snd (newSession (freshSource deadlock_host) start_world)"
  let ?b = "before_commit deadlock_env deadlock_host 3 (\<lambda>_. io_return (5::nat)) None no_options ?w1"
  have n: "newSession (freshSource deadlock_host) start_world = (3, ?w1)"
    by (simp add: newSession_def start_world_def)
  have "fst ?b = Inr 5" by code_simp
  then have b: "?b = (Inr 5, snd ?b)" by (metis prod.collapse)
  have ds: "dataSource (sessions (snd ?b) 3) = Some (MySqlDataSource 0)" by code_simp
  have c: "fst (driver deadlock_env (MySqlDataSource 0) Commit (fst (database (sessions (snd ?b) 3)), shared (snd ?b))) = Inl (Wire ''deadlock'')"
    by code_simp
  have p: "pooled_data_source (driver deadlock_env (MySqlDataSource 0)) (\<lambda>d. fst d \<noteq> None)"
    using mysql_pooled by (simp add: deadlock_env_def)
  have s: "subscribers deadlock_host = []" "info_of deadlock_host = deadlock_info"
    by (simp_all add: deadlock_host_def)
  have d: "isDeadlockError (error_view deadlock_info (Driver (Wire ''deadlock'')))"
    "\<not> has_substring (''Transaction failed and rollback also failed: '' @ err_message (deadlock_info (Wire ''deadlock''))) ''database is locked''"
    by code_simp+
  show ?thesis
    using failed_commit_masked [OF p n b ds c s(1)] s(2) d by simp
qed

text \<open>A subscriber that throws before the rollback, on a server with a COMMIT that works.\<close>
definition throwing_host :: "(nat, nat option, (nat, string \<times> (string \<times> string) list) pool_state, nat heap,
    nat undo_action, nat, string ds_error) host" where
  "throwing_host = deadlock_host\<lparr>subscribers :=
     [\<lambda>ev. if ev = BeforeTransactionRollback then Some (\<lambda>m. (Inl (Wire ''hook''), m)) else None]\<rparr>"

theorem throwing_hook_skips_rollback_witness:
  "released (shared (snd (runInNewSession deadlock_env throwing_host
      (\<lambda>_. io_throw (Driver (Wire ''work failed'')) :: (_, _, nat) io) None no_options start_world))) = [1]
   \<and> transactionActive (sessions (snd (runInNewSession deadlock_env throwing_host
      (\<lambda>_. io_throw (Driver (Wire ''work failed'')) :: (_, _, nat) io) None no_options start_world)) 3)"
proof -
  let ?fn = "\<lambda>_. io_throw (Driver (Wire ''work failed'')) :: (_, _, nat) io"
  let ?w1 = "snd (newSession (freshSource throwing_host) start_world)"
  let ?u = "until_commit deadlock_env throwing_host 3 ?fn None no_options ?w1"
  let ?h = "notifyTransaction throwing_host BeforeTransactionRollback (snd ?u)"
  have n: "newSession (freshSource throwing_host) start_world = (3, ?w1)"
    by (simp add: newSession_def start_world_def)
  have "fst ?u = Inl (Driver (Wire ''work failed''))" by code_simp
  then have u: "?u = (Inl (Driver (Wire ''work failed'')), snd ?u)" by (metis prod.collapse)
  have "fst ?h = Inl (Driver (Wire ''hook''))" by code_simp
  then have h: "?h = (Inl (Driver (Wire ''hook'')), snd ?h)" by (metis prod.collapse)
  obtain r w' where t: "runInNewSession deadlock_env throwing_host ?fn None no_options start_world = (r, w')"
    by (metis surj_pair)
  have a: "transactionActive (sessions (snd ?u) 3)" by code_simp
  have r: "released (shared (snd (runInNewSession deadlock_env throwing_host ?fn None no_options start_world))) = [1]"
    by code_simp
  have "transactionActive (sessions w' 3)" using throwing_hook_skips_rollback [OF n u h t] a by blast
  then show ?thesis using r unfolding t by simp
qed

theorem session_releases_connection_witness:
  "fst (database (sessions (snd (runInNewSession deadlock_env deadlock_host (\<lambda>_. io_return (5::nat)) None no_options start_world)) 3)) = None
   \<and> released (shared (snd (runInNewSession deadlock_env deadlock_host (\<lambda>_. io_return (5::nat)) None no_options start_world))) = [1]"
proof -
  obtain r w' where t: "runInNewSession deadlock_env deadlock_host (\<lambda>_. io_return (5::nat)) None no_options start_world = (r, w')"
    by (metis surj_pair)
  have p: "\<And>ds. pooled_data_source (driver deadlock_env ds) (\<lambda>d. fst d \<noteq> None)"
    using mysql_pooled by (simp add: deadlock_env_def)
  have o: "outside_ok (\<lambda>p. p \<noteq> None) deadlock_env" "\<not> freshSource deadlock_host \<noteq> None" "nextSession start_world = 3"
    by (simp_all add: outside_ok_def keeps_ok_def deadlock_env_def deadlock_host_def start_world_def)
  have "released (shared (snd (runInNewSession deadlock_env deadlock_host (\<lambda>_. io_return (5::nat)) None no_options start_world))) = [1]"
    by code_simp
  then show ?thesis
    using session_releases_connection [OF p o(1,2) work_ok_return t] o(3) t by simp
qed

end
