(* ===== verification/TrackedRuns.thy ===== *)
theory TrackedRuns
  imports Prelude TextUtils
begin

section \<open>Runs recorded in a tracking table\<close>

text \<open>
  What \<^verbatim>\<open>src/migration/MigrationRunner.ts\<close> and \<^verbatim>\<open>src/seeding/SeederRunner.ts\<close> share:
  \<^item> thrown values, results, driver-specific query results and their normalisation;
  \<^item> the loop that runs a list of units and stops at the first result that is not a success;
  \<^item> the locale \<open>tracked_units\<close>: what a unit promises about the tracking table. Its laws are
    discharged for \<^verbatim>\<open>runUp\<close>, \<^verbatim>\<open>runDown\<close> and \<^verbatim>\<open>executeSeeder\<close> in the theories of these, and its lemmas say
    which units ran and what the table holds afterwards.

  The database, the migrations, the seeders and the hooks are code outside the repository: they are
  parameters. What the runners rely on is the predicate \<open>tracking_laws\<close>: the four statements on the
  tracking table create, list, insert and delete, or fail and change nothing. A world is left
  unspecified (\<open>'w\<close>), the rows of the tracking table are a function \<open>names\<close> of it.
\<close>

subsection \<open>Thrown values\<close>

text \<open>A \<^verbatim>\<open>catch\<close> clause sees an \<^verbatim>\<open>Error\<close> (with an ORM code or without) or any other value.\<close>
datatype thrown = Error_Object "OrmErrorCode option" string | Other_Value string

text \<open>\<^verbatim>\<open>e instanceof Error ? e.message : String(e)\<close>\<close>
fun error_message :: "thrown \<Rightarrow> string" where
  "error_message (Error_Object _ m) = m"
| "error_message (Other_Value s) = s"

text \<open>\<^verbatim>\<open>e instanceof Error ? e : new Error(error)\<close>\<close>
fun as_error :: "thrown \<Rightarrow> thrown" where
  "as_error (Error_Object c m) = Error_Object c m"
| "as_error (Other_Value s) = Error_Object None s"

definition AdvisoryLockError :: "string \<Rightarrow> thrown" where
  "AdvisoryLockError m = Error_Object (Some ADVISORY_LOCK_FAILED) m"

subsection \<open>Results\<close>

record 'd run_result =
  result_name :: string
  direction :: 'd
  success :: bool
  error :: "string option"

text \<open>
  A query result: a falsy value, an array of rows, or an object that may carry arrays under
  \<^verbatim>\<open>results\<close> and \<^verbatim>\<open>rows\<close>. A row is given by its \<^verbatim>\<open>name\<close> column.
\<close>
datatype query_result = Falsy | Row_Array "string list" | Result_Object "string list option" "string list option"

fun normalizeRows :: "query_result \<Rightarrow> string list" where
  "normalizeRows Falsy = []"
| "normalizeRows (Row_Array rs) = rs"
| "normalizeRows (Result_Object (Some rs) _) = rs"
| "normalizeRows (Result_Object None (Some rs)) = rs"
| "normalizeRows (Result_Object None None) = []"

text \<open>\<^verbatim>\<open>name.replace(/c/g, "cc")\<close>\<close>
definition double_char :: "char \<Rightarrow> string \<Rightarrow> string" where
  "double_char c s = concat (map (\<lambda>x. if x = c then [c, c] else [x]) s)"

text \<open>\<^verbatim>\<open>await f?.(...)\<close>\<close>
definition optional_call :: "('w, thrown, unit) io option \<Rightarrow> ('w, thrown, unit) io" where
  "optional_call h = (case h of None \<Rightarrow> io_return () | Some f \<Rightarrow> f)"

text \<open>The computation without its value.\<close>
definition io_void :: "('w, 'e, 'a) io \<Rightarrow> ('w, 'e, unit) io" where
  "io_void m = io_then m (io_return ())"

subsection \<open>The loop\<close>

text \<open>
  \<^verbatim>\<open>for (const u of units) { const result = await step(u); results.push(result);
  if (!result.success) break; }\<close>
\<close>
fun run_until_failure :: "('i \<Rightarrow> ('w, thrown, 'd run_result) io) \<Rightarrow> 'i list \<Rightarrow> ('w, thrown, 'd run_result list) io" where
  "run_until_failure step [] = io_return []"
| "run_until_failure step (u # us) = io_bind (step u) (\<lambda>r.
     if \<not> success r then io_return [r]
     else io_bind (run_until_failure step us) (\<lambda>rs. io_return (r # rs)))"

subsection \<open>What the runners rely on\<close>

definition keeps :: "('w \<Rightarrow> 'b) \<Rightarrow> ('w, 'e, 'a) io \<Rightarrow> bool" where
  "keeps view m \<longleftrightarrow> (\<forall>w. view (snd (m w)) = view w)"

text \<open>
  The four statements on a tracking table whose rows, in the order of their \<^verbatim>\<open>id\<close>, are \<open>names w\<close>
  (no rows while the table does not exist).
\<close>
definition tracking_laws :: "('w \<Rightarrow> string list) \<Rightarrow> ('w, thrown, query_result) io \<Rightarrow>
    ('w, thrown, query_result) io \<Rightarrow> (string \<Rightarrow> ('w, thrown, query_result) io) \<Rightarrow>
    (string \<Rightarrow> ('w, thrown, query_result) io) \<Rightarrow> bool" where
  "tracking_laws names create select insert_row delete_row \<longleftrightarrow>
     keeps names create \<and> keeps names select \<and>
     (\<forall>w res w'. select w = (Inr res, w') \<longrightarrow> normalizeRows res = names w) \<and>
     (\<forall>n w res w'. insert_row n w = (Inr res, w') \<longrightarrow> names w' = names w @ [n]) \<and>
     (\<forall>n w e w'. insert_row n w = (Inl e, w') \<longrightarrow> names w' = names w) \<and>
     (\<forall>n w res w'. delete_row n w = (Inr res, w') \<longrightarrow> names w' = filter (\<lambda>x. x \<noteq> n) (names w)) \<and>
     (\<forall>n w e w'. delete_row n w = (Inl e, w') \<longrightarrow> names w' = names w)"

lemma keepsI: "(\<And>w r w'. m w = (r, w') \<Longrightarrow> view w' = view w) \<Longrightarrow> keeps view m"
  unfolding keeps_def by (metis prod.collapse)

lemma keepsD: "keeps view m \<Longrightarrow> m w = (r, w') \<Longrightarrow> view w' = view w"
  unfolding keeps_def by (metis snd_conv)

lemma keeps_return [simp, intro]: "keeps view (io_return a)"
  by (simp add: keeps_def io_return_def)

lemma keeps_throw [simp, intro]: "keeps view (io_throw e)"
  by (simp add: keeps_def io_throw_def)

lemma keeps_bind [intro]:
  assumes "keeps view m" "\<And>a. keeps view (f a)"
  shows "keeps view (io_bind m f)"
  using assms by (auto simp: keeps_def io_bind_def split: prod.splits sum.splits) (metis snd_conv)+

lemma keeps_then [intro]: "keeps view m \<Longrightarrow> keeps view k \<Longrightarrow> keeps view (io_then m k)"
  by (auto simp: io_then_def)

lemma keeps_void [intro]: "keeps view m \<Longrightarrow> keeps view (io_void m)"
  by (auto simp: io_void_def io_then_def)

lemma keeps_optional [intro]: "(\<And>f. h = Some f \<Longrightarrow> keeps view f) \<Longrightarrow> keeps view (optional_call h)"
  by (auto simp: optional_call_def split: option.split)

lemma keeps_catch [intro]:
  assumes "keeps view m" "\<And>e. keeps view (h e)"
  shows "keeps view (io_catch m h)"
  using assms by (auto simp: keeps_def io_catch_def split: prod.splits sum.splits) (metis snd_conv)+

lemma keeps_finally [intro]:
  assumes "keeps view m" "keeps view f"
  shows "keeps view (io_finally m f)"
  using assms by (auto simp: keeps_def io_finally_world)

lemma io_bind_Inr_iff: "io_bind m f w = (Inr b, w'') \<longleftrightarrow> (\<exists>a w'. m w = (Inr a, w') \<and> f a w' = (Inr b, w''))"
  by (auto simp: io_bind_def split: prod.splits sum.splits)

lemma io_then_Inr_iff: "io_then m k w = (Inr b, w'') \<longleftrightarrow> (\<exists>a w'. m w = (Inr a, w') \<and> k w' = (Inr b, w''))"
  by (simp add: io_then_def io_bind_Inr_iff)

lemma io_finally_Inr_iff: "io_finally m f w = (Inr b, w'') \<longleftrightarrow> (\<exists>c w'. m w = (Inr b, w') \<and> f w' = (Inr c, w''))"
  by (auto simp: io_finally_def split: prod.splits sum.splits)

lemma io_return_Inr_iff: "io_return a w = (Inr b, w') \<longleftrightarrow> b = a \<and> w' = w"
  by (auto simp: io_return_def)

lemmas io_Inr_iffs = io_bind_Inr_iff io_then_Inr_iff io_finally_Inr_iff io_return_Inr_iff

subsection \<open>Units that record themselves\<close>

text \<open>
  \<open>step e u\<close> runs the unit \<open>u\<close> of the runner \<open>e\<close>. A success has changed the table by \<open>upd u\<close>; anything
  else has either done that or nothing (a unit that fails after it was recorded stays recorded);
  the result carries the unit's name.
\<close>
locale tracked_units =
  fixes ok :: "'e \<Rightarrow> 'i \<Rightarrow> ('w \<Rightarrow> string list) \<Rightarrow> bool"
    and step :: "'e \<Rightarrow> 'i \<Rightarrow> ('w, thrown, 'd run_result) io"
    and upd :: "'i \<Rightarrow> string list \<Rightarrow> string list"
    and label :: "'i \<Rightarrow> string"
  assumes step_success: "ok e u names \<Longrightarrow> step e u w = (Inr r, w') \<Longrightarrow> success r \<Longrightarrow> names w' = upd u (names w)"
    and step_any: "ok e u names \<Longrightarrow> step e u w = (q, w') \<Longrightarrow> names w' \<in> {names w, upd u (names w)}"
    and step_name: "ok e u names \<Longrightarrow> step e u w = (Inr r, w') \<Longrightarrow> result_name r = label u"
begin

lemma run_names:
  assumes "\<And>u. u \<in> set us \<Longrightarrow> ok e u names" "run_until_failure (step e) us w = (Inr rs, w')"
  shows "map result_name rs = take (length rs) (map label us)"
  using assms
proof (induction us arbitrary: w rs)
  case (Cons u us)
  then obtain r w1 where r: "step e u w = (Inr r, w1)"
    by (auto simp: io_Inr_iffs)
  show ?case
  proof (cases "success r")
    case True
    with Cons.prems r obtain rs' where "run_until_failure (step e) us w1 = (Inr rs', w')" "rs = r # rs'"
      by (auto simp: io_Inr_iffs)
    with Cons.IH [of w1 rs'] Cons.prems(1) step_name [OF _ r, of names] show ?thesis by simp
  next
    case False
    with Cons.prems r show ?thesis using step_name [OF _ r, of names] by (auto simp: io_Inr_iffs)
  qed
qed (auto simp: io_Inr_iffs)

lemma run_prefix:
  assumes "run_until_failure (step e) us w = (Inr rs, w')"
  shows "length rs \<le> length us \<and> (\<forall>r\<in>set (butlast rs). success r) \<and>
    (length rs < length us \<longrightarrow> rs \<noteq> [] \<and> \<not> success (last rs))"
  using assms
proof (induction us arbitrary: w rs)
  case (Cons u us)
  then obtain r w1 where r: "step e u w = (Inr r, w1)"
    by (auto simp: io_Inr_iffs)
  show ?case
  proof (cases "success r")
    case True
    with Cons.prems r obtain rs' where rs': "run_until_failure (step e) us w1 = (Inr rs', w')" "rs = r # rs'"
      by (auto simp: io_Inr_iffs)
    from Cons.IH [OF rs'(1)] rs'(2) True show ?thesis by auto
  next
    case False
    with Cons.prems r show ?thesis by (auto simp: io_Inr_iffs)
  qed
qed (auto simp: io_Inr_iffs)

lemma run_table_success:
  assumes "\<And>u. u \<in> set us \<Longrightarrow> ok e u names" "run_until_failure (step e) us w = (Inr rs, w')"
    "\<forall>r\<in>set rs. success r"
  shows "length rs = length us \<and> names w' = fold upd us (names w)"
  using assms
proof (induction us arbitrary: w rs)
  case (Cons u us)
  then obtain r w1 where r: "step e u w = (Inr r, w1)"
    by (auto simp: io_Inr_iffs)
  with Cons.prems have "success r"
    by (auto simp: io_Inr_iffs split: if_splits)
  with Cons.prems r obtain rs' where rs': "run_until_failure (step e) us w1 = (Inr rs', w')" "rs = r # rs'"
    by (auto simp: io_Inr_iffs)
  have "names w1 = upd u (names w)"
    using step_success [OF _ r \<open>success r\<close>] Cons.prems(1) by simp
  with Cons.IH [OF _ rs'(1)] Cons.prems rs'(2) show ?case by simp
qed (auto simp: io_Inr_iffs)

lemma run_table_any:
  assumes "\<And>u. u \<in> set us \<Longrightarrow> ok e u names" "run_until_failure (step e) us w = (q, w')"
  shows "\<exists>k\<le>length us. names w' = fold upd (take k us) (names w)"
  using assms
proof (induction us arbitrary: w q w')
  case Nil
  then show ?case by (simp add: io_return_def)
next
  case (Cons u us)
  obtain s w1 where s: "step e u w = (s, w1)" by (metis surj_pair)
  from step_any [OF _ s] Cons.prems(1) have one: "names w1 \<in> {names w, upd u (names w)}" by simp
  show ?case
  proof (cases "\<exists>r. s = Inr r \<and> success r")
    case True
    then obtain r where r: "s = Inr r" "success r" by blast
    obtain q' w2 where q': "run_until_failure (step e) us w1 = (q', w2)" by (metis surj_pair)
    have "w2 = w'"
      using Cons.prems(2) s r q' by (cases q') (auto simp: io_defs)
    moreover have "names w1 = upd u (names w)"
      using step_success [OF _ s [unfolded r(1)] r(2)] Cons.prems(1) by simp
    moreover obtain k where "k \<le> length us" "names w2 = fold upd (take k us) (names w1)"
      using Cons.IH [OF _ q'] Cons.prems(1) by auto
    ultimately show ?thesis by (intro exI [of _ "Suc k"]) simp
  next
    case False
    then have "w' = w1"
      using Cons.prems(2) s by (cases s) (auto simp: io_defs)
    with one show ?thesis
      by (metis (no_types, lifting) One_nat_def fold_simps insertE length_Cons not_less_eq_eq singletonD
          take0 take_Suc_Cons zero_le)
  qed
qed

end

subsection \<open>Text of the statements\<close>

lemma double_char_simps [simp]:
  "double_char c [] = []"
  "double_char c (x # xs) = (if x = c then [c, c] else [x]) @ double_char c xs"
  by (simp_all add: double_char_def)

text \<open>A quoted name is read back, in the standard reading of a literal (\<open>read_standard\<close>), as the name.\<close>
lemma read_standard_double:
  assumes "rest = [] \<or> hd rest \<noteq> CHR 0x27"
  shows "read_standard (double_char CHR 0x27 s @ CHR 0x27 # rest) = Some (s, rest)"
  using assms by (induction s) (auto split: list.splits)

end
