(* ===== verification/MigrationRunner.thy ===== *)
theory MigrationRunner
  imports TrackedRuns
begin

section \<open>Migrations (src/migration/MigrationRunner.ts)\<close>

text \<open>
  \<^verbatim>\<open>MigrationRunner\<close> and its subclasses for MySQL, PostgreSQL and SQLite. A runner is a record of the
  fields of the class: the registered migrations, the advisory-lock operations of the driver, the
  query function, the options and the lifecycle hooks, with the two methods a subclass provides.
  Every public method is a computation on the world. The clock (\<^verbatim>\<open>Date.now\<close>) is a reading of the
  world, console logging is left out.

  An \<^verbatim>\<open>await\<close> is a sequential step, except where the source does not await: \<open>revertLast\<close> returns the
  promise of \<^verbatim>\<open>runDown\<close> from inside its \<^verbatim>\<open>try\<close> block, so the \<^verbatim>\<open>finally\<close> clause runs as soon as
  \<^verbatim>\<open>runDown\<close> first waits, which is after the call of the \<^verbatim>\<open>beforeEach\<close> hook; the rest of \<^verbatim>\<open>runDown\<close>
  follows (\<open>resume_down\<close>).
\<close>

subsection \<open>State of a runner\<close>

datatype migration_direction = Up | Down

type_synonym migration_result = "migration_direction run_result"

record 'w lock_driver =
  acquireAdvisoryLock :: "string \<Rightarrow> int \<Rightarrow> ('w, thrown, bool) io"
  releaseAdvisoryLock :: "string \<Rightarrow> ('w, thrown, unit) io"

record 'w migration_context =
  ctx_driver :: "'w lock_driver"
  ctx_query :: "string \<Rightarrow> ('w, thrown, query_result) io"

record 'w migration =
  m_name :: string
  m_up :: "'w migration_context \<Rightarrow> ('w, thrown, unit) io"
  m_down :: "'w migration_context \<Rightarrow> ('w, thrown, unit) io"

record 'w migration_hooks =
  beforeAll :: "('w migration_context \<Rightarrow> ('w, thrown, unit) io) option"
  afterAll :: "('w migration_context \<Rightarrow> migration_result list \<Rightarrow> ('w, thrown, unit) io) option"
  beforeEach :: "('w migration \<Rightarrow> 'w migration_context \<Rightarrow> ('w, thrown, unit) io) option"
  afterEach :: "('w migration \<Rightarrow> 'w migration_context \<Rightarrow> int \<Rightarrow> ('w, thrown, unit) io) option"
  onError :: "('w migration \<Rightarrow> thrown \<Rightarrow> 'w migration_context \<Rightarrow> ('w, thrown, unit) io) option"

record 'w migration_runner =
  migrations :: "'w migration list"
  driver :: "'w lock_driver"
  queryRunner :: "string \<Rightarrow> ('w, thrown, query_result) io"
  tableName :: string
  lockId :: string
  lockTimeoutMs :: int
  hooks :: "'w migration_hooks"
  wrapIdentifier :: "string \<Rightarrow> string"
  autoIncrementPkDefinition :: string
  clock :: "'w \<Rightarrow> int"

record 'w migration_options =
  opt_lockId :: "string option"
  opt_lockTimeoutMs :: "int option"
  opt_tableName :: "string option"
  opt_hooks :: "'w migration_hooks option"

definition no_hooks :: "'w migration_hooks" where
  "no_hooks = \<lparr>beforeAll = None, afterAll = None, beforeEach = None, afterEach = None, onError = None\<rparr>"

text \<open>The constructor of the abstract class, with what the subclass provides.\<close>
definition newMigrationRunner :: "(string \<Rightarrow> string) \<Rightarrow> string \<Rightarrow> ('w \<Rightarrow> int) \<Rightarrow> 'w migration list \<Rightarrow> 'w lock_driver \<Rightarrow>
    (string \<Rightarrow> ('w, thrown, query_result) io) \<Rightarrow> 'w migration_options option \<Rightarrow> 'w migration_runner" where
  "newMigrationRunner wrap pk now ms drv q opts =
     (let opt = (\<lambda>sel d. case Option.bind opts sel of None \<Rightarrow> d | Some v \<Rightarrow> v) in
      \<lparr>migrations = ms, driver = drv, queryRunner = q,
       tableName = opt opt_tableName ''__migrations'',
       lockId = opt opt_lockId ''stingerloom_migration_lock'',
       lockTimeoutMs = (case Option.bind opts opt_lockTimeoutMs of None \<Rightarrow> 10000 | Some v \<Rightarrow> v),
       hooks = (case Option.bind opts opt_hooks of None \<Rightarrow> no_hooks | Some h \<Rightarrow> h),
       wrapIdentifier = wrap, autoIncrementPkDefinition = pk, clock = now\<rparr>)"

definition backtick_wrap :: "string \<Rightarrow> string" where
  "backtick_wrap n = [CHR 0x60] @ double_char CHR 0x60 n @ [CHR 0x60]"

definition quote_wrap :: "string \<Rightarrow> string" where
  "quote_wrap n = [CHR 0x22] @ double_char CHR 0x22 n @ [CHR 0x22]"

definition MySqlMigrationRunner :: "('w \<Rightarrow> int) \<Rightarrow> 'w migration list \<Rightarrow> 'w lock_driver \<Rightarrow>
    (string \<Rightarrow> ('w, thrown, query_result) io) \<Rightarrow> 'w migration_options option \<Rightarrow> 'w migration_runner" where
  "MySqlMigrationRunner = newMigrationRunner backtick_wrap ''INT AUTO_INCREMENT PRIMARY KEY''"

definition PostgresMigrationRunner :: "('w \<Rightarrow> int) \<Rightarrow> 'w migration list \<Rightarrow> 'w lock_driver \<Rightarrow>
    (string \<Rightarrow> ('w, thrown, query_result) io) \<Rightarrow> 'w migration_options option \<Rightarrow> 'w migration_runner" where
  "PostgresMigrationRunner = newMigrationRunner quote_wrap ''SERIAL PRIMARY KEY''"

definition SqliteMigrationRunner :: "('w \<Rightarrow> int) \<Rightarrow> 'w migration list \<Rightarrow> 'w lock_driver \<Rightarrow>
    (string \<Rightarrow> ('w, thrown, query_result) io) \<Rightarrow> 'w migration_options option \<Rightarrow> 'w migration_runner" where
  "SqliteMigrationRunner = newMigrationRunner quote_wrap ''INTEGER PRIMARY KEY AUTOINCREMENT''"

subsection \<open>The tracking table\<close>

definition ensure_sql :: "'w migration_runner \<Rightarrow> string" where
  "ensure_sql R = ''CREATE TABLE IF NOT EXISTS '' @ wrapIdentifier R (tableName R) @ '' ('' @
     wrapIdentifier R ''id'' @ '' '' @ autoIncrementPkDefinition R @ '', '' @
     wrapIdentifier R ''name'' @ '' VARCHAR(255) NOT NULL UNIQUE, '' @
     wrapIdentifier R ''executed_at'' @ '' TIMESTAMP DEFAULT CURRENT_TIMESTAMP'' @ '')''"

definition select_sql :: "'w migration_runner \<Rightarrow> string" where
  "select_sql R = ''SELECT '' @ wrapIdentifier R ''name'' @ '' FROM '' @ wrapIdentifier R (tableName R) @
     '' ORDER BY '' @ wrapIdentifier R ''id'' @ '' ASC''"

definition record_sql :: "'w migration_runner \<Rightarrow> string \<Rightarrow> string" where
  "record_sql R n = ''INSERT INTO '' @ wrapIdentifier R (tableName R) @ '' ('' @ wrapIdentifier R ''name'' @
     '') VALUES ('' @ [CHR 0x27] @ double_char CHR 0x27 n @ [CHR 0x27] @ '')''"

definition remove_sql :: "'w migration_runner \<Rightarrow> string \<Rightarrow> string" where
  "remove_sql R n = ''DELETE FROM '' @ wrapIdentifier R (tableName R) @ '' WHERE '' @ wrapIdentifier R ''name'' @
     '' = '' @ [CHR 0x27] @ double_char CHR 0x27 n @ [CHR 0x27]"

definition ensureMigrationTable :: "'w migration_runner \<Rightarrow> ('w, thrown, unit) io" where
  "ensureMigrationTable R = io_void (queryRunner R (ensure_sql R))"

definition getExecutedMigrations :: "'w migration_runner \<Rightarrow> ('w, thrown, string list) io" where
  "getExecutedMigrations R = io_bind (queryRunner R (select_sql R)) (\<lambda>res. io_return (normalizeRows res))"

definition recordMigration :: "'w migration_runner \<Rightarrow> string \<Rightarrow> ('w, thrown, unit) io" where
  "recordMigration R n = io_void (queryRunner R (record_sql R n))"

definition removeMigrationRecord :: "'w migration_runner \<Rightarrow> string \<Rightarrow> ('w, thrown, unit) io" where
  "removeMigrationRecord R n = io_void (queryRunner R (remove_sql R n))"

definition createContext :: "'w migration_runner \<Rightarrow> 'w migration_context" where
  "createContext R = \<lparr>ctx_driver = driver R, ctx_query = queryRunner R\<rparr>"

subsection \<open>One migration\<close>

definition succeeded :: "migration_direction \<Rightarrow> string \<Rightarrow> migration_result" where
  "succeeded d n = \<lparr>result_name = n, direction = d, success = True, error = None\<rparr>"

definition failed :: "migration_direction \<Rightarrow> string \<Rightarrow> string \<Rightarrow> migration_result" where
  "failed d n m = \<lparr>result_name = n, direction = d, success = False, error = Some m\<rparr>"

definition call_beforeEach :: "'w migration_runner \<Rightarrow> 'w migration \<Rightarrow> ('w, thrown, unit) io" where
  "call_beforeEach R m = optional_call (map_option (\<lambda>h. h m (createContext R)) (beforeEach (hooks R)))"

text \<open>
  The body of the \<^verbatim>\<open>try\<close> block after \<^verbatim>\<open>beforeEach\<close>: the migration's own code, the tracking statement with
  its own \<^verbatim>\<open>catch\<close> that returns the failure, the \<^verbatim>\<open>afterEach\<close> hook with the duration.
\<close>
definition apply_and_track :: "'w migration_runner \<Rightarrow> migration_direction \<Rightarrow> 'w migration \<Rightarrow> ('w, thrown, unit) io \<Rightarrow>
    ('w, thrown, unit) io \<Rightarrow> ('w, thrown, migration_result) io" where
  "apply_and_track R d m act track = (\<lambda>w0.
     io_then act (\<lambda>w1. let durationMs = clock R w1 - clock R w0 in
       io_bind (io_catch (io_then track (io_return None))
                 (\<lambda>e. io_return (Some (failed d (m_name m) (''Tracking failed: '' @ error_message e)))))
         (\<lambda>tracking. case tracking of
            Some r \<Rightarrow> io_return r
          | None \<Rightarrow> io_then (optional_call (map_option (\<lambda>h. h m (createContext R) durationMs) (afterEach (hooks R))))
                     (io_return (succeeded d (m_name m)))) w1) w0)"

definition report_failure :: "'w migration_runner \<Rightarrow> migration_direction \<Rightarrow> 'w migration \<Rightarrow> thrown \<Rightarrow>
    ('w, thrown, migration_result) io" where
  "report_failure R d m e =
     io_then (optional_call (map_option (\<lambda>h. h m (as_error e) (createContext R)) (onError (hooks R))))
       (io_return (failed d (m_name m) (error_message e)))"

definition runUp :: "'w migration_runner \<Rightarrow> 'w migration \<Rightarrow> ('w, thrown, migration_result) io" where
  "runUp R m = io_catch
     (io_then (call_beforeEach R m)
       (apply_and_track R Up m (m_up m (createContext R)) (recordMigration R (m_name m))))
     (report_failure R Up m)"

definition runDown :: "'w migration_runner \<Rightarrow> 'w migration \<Rightarrow> ('w, thrown, migration_result) io" where
  "runDown R m = io_catch
     (io_then (call_beforeEach R m)
       (apply_and_track R Down m (m_down m (createContext R)) (removeMigrationRecord R (m_name m))))
     (report_failure R Down m)"

text \<open>What is left of \<^verbatim>\<open>runDown\<close> once the \<^verbatim>\<open>beforeEach\<close> hook has been called with the outcome given.\<close>
definition resume_down :: "'w migration_runner \<Rightarrow> 'w migration \<Rightarrow> thrown + unit \<Rightarrow> ('w, thrown, migration_result) io" where
  "resume_down R m started = io_catch
     (io_then (\<lambda>w. (started, w))
       (apply_and_track R Down m (m_down m (createContext R)) (removeMigrationRecord R (m_name m))))
     (report_failure R Down m)"

subsection \<open>Batches under the advisory lock\<close>

definition lock_failure :: "'w migration_runner \<Rightarrow> thrown" where
  "lock_failure R = AdvisoryLockError (''Failed to acquire migration lock '' @ [CHR 0x22] @ lockId R @ [CHR 0x22] @
     '' within '' @ decimal_int (lockTimeoutMs R) @ ''ms. Another migration may be running.'')"

definition with_lock :: "'w migration_runner \<Rightarrow> ('w, thrown, 'a) io \<Rightarrow> ('w, thrown, 'a) io" where
  "with_lock R body = io_bind (acquireAdvisoryLock (driver R) (lockId R) (lockTimeoutMs R)) (\<lambda>acquired.
     if \<not> acquired then io_throw (lock_failure R)
     else io_finally body (releaseAdvisoryLock (driver R) (lockId R)))"

definition pending_of :: "'w migration_runner \<Rightarrow> string list \<Rightarrow> 'w migration list" where
  "pending_of R executed = filter (\<lambda>m. m_name m \<notin> set executed) (migrations R)"

definition runAll :: "'w migration_runner \<Rightarrow> ('w, thrown, migration_result list) io" where
  "runAll R = with_lock R
     (io_then (ensureMigrationTable R)
       (io_bind (getExecutedMigrations R) (\<lambda>executed.
          io_then (optional_call (map_option (\<lambda>h. h (createContext R)) (beforeAll (hooks R))))
           (io_bind (run_until_failure (runUp R) (pending_of R executed)) (\<lambda>results.
              io_then (optional_call (map_option (\<lambda>h. h (createContext R) results) (afterAll (hooks R))))
               (io_return results))))))"

text \<open>The list given replaces the registered one until \<^verbatim>\<open>runAll\<close> has ended.\<close>
definition run :: "'w migration list option \<Rightarrow> 'w migration_runner \<Rightarrow> ('w, thrown, migration_result list) io" where
  "run ms R = (case ms of Some l \<Rightarrow> runAll (R\<lparr>migrations := l\<rparr>) | None \<Rightarrow> runAll R)"

definition not_registered :: "string \<Rightarrow> migration_result" where
  "not_registered n = failed Down n (''Migration '' @ [CHR 0x22] @ n @ [CHR 0x22] @ '' not found in registered migrations.'')"

definition find_migration :: "'w migration_runner \<Rightarrow> string \<Rightarrow> 'w migration option" where
  "find_migration R n = find (\<lambda>m. m_name m = n) (migrations R)"

text \<open>
  \<^verbatim>\<open>return this.runDown(migration)\<close> inside \<^verbatim>\<open>try\<close> with \<^verbatim>\<open>finally { await release }\<close>: the hook is called,
  the lock is released, then the rest of \<^verbatim>\<open>runDown\<close> happens; a failing release is what the caller sees.
\<close>
definition return_unawaited :: "'w migration_runner \<Rightarrow> 'w migration \<Rightarrow> ('w, thrown, migration_result option) io" where
  "return_unawaited R m = (\<lambda>w.
     case call_beforeEach R m w of (started, w1) \<Rightarrow>
     (case releaseAdvisoryLock (driver R) (lockId R) w1 of (released, w2) \<Rightarrow>
     (case resume_down R m started w2 of (r, w3) \<Rightarrow>
       (case released of Inl e \<Rightarrow> Inl e | Inr _ \<Rightarrow> (case r of Inl e \<Rightarrow> Inl e | Inr x \<Rightarrow> Inr (Some x)), w3))))"

definition revertLast :: "'w migration_runner \<Rightarrow> ('w, thrown, migration_result option) io" where
  "revertLast R = io_bind (acquireAdvisoryLock (driver R) (lockId R) (lockTimeoutMs R)) (\<lambda>acquired.
     if \<not> acquired then io_throw (lock_failure R)
     else (\<lambda>w. let unlock = releaseAdvisoryLock (driver R) (lockId R) in
       case io_then (ensureMigrationTable R) (getExecutedMigrations R) w of
         (Inl e, w1) \<Rightarrow> io_finally (io_throw e) unlock w1
       | (Inr executed, w1) \<Rightarrow>
           (if executed = [] then io_finally (io_return None) unlock w1
            else (case find_migration R (last executed) of
                None \<Rightarrow> io_finally (io_return (Some (not_registered (last executed)))) unlock w1
              | Some m \<Rightarrow> return_unawaited R m w1))))"

text \<open>\<^verbatim>\<open>xs.slice(k)\<close>: from the position, counted from the end for a negative one.\<close>
definition js_slice_from :: "int \<Rightarrow> 'a list \<Rightarrow> 'a list" where
  "js_slice_from k xs = (if k < 0 then drop (length xs - nat (- k)) xs else drop (nat k) xs)"

definition rollback_one :: "'w migration_runner \<Rightarrow> string \<Rightarrow> ('w, thrown, migration_result) io" where
  "rollback_one R n = (case find_migration R n of
     None \<Rightarrow> io_return (not_registered n)
   | Some m \<Rightarrow> runDown R m)"

definition rollbackMigrations :: "int \<Rightarrow> 'w migration_runner \<Rightarrow> ('w, thrown, migration_result list) io" where
  "rollbackMigrations n R = with_lock R
     (io_then (ensureMigrationTable R)
       (io_bind (getExecutedMigrations R) (\<lambda>executed.
          run_until_failure (rollback_one R) (rev (js_slice_from (- n) executed)))))"

definition status :: "'w migration_runner \<Rightarrow> ('w, thrown, string list \<times> string list) io" where
  "status R = io_then (ensureMigrationTable R)
     (io_bind (getExecutedMigrations R) (\<lambda>executed. io_return (executed, map m_name (pending_of R executed))))"

definition getPendingMigrations :: "'w migration_runner \<Rightarrow> ('w, thrown, 'w migration list) io" where
  "getPendingMigrations R = io_then (ensureMigrationTable R)
     (io_bind (getExecutedMigrations R) (\<lambda>executed. io_return (pending_of R executed)))"

subsection \<open>What the migrations and hooks keep\<close>

definition hooks_keep :: "'w migration_runner \<Rightarrow> 'w migration \<Rightarrow> ('w \<Rightarrow> 'b) \<Rightarrow> bool" where
  "hooks_keep R m view \<longleftrightarrow>
     (\<forall>h. beforeEach (hooks R) = Some h \<longrightarrow> keeps view (h m (createContext R))) \<and>
     (\<forall>h d. afterEach (hooks R) = Some h \<longrightarrow> keeps view (h m (createContext R) d)) \<and>
     (\<forall>h e. onError (hooks R) = Some h \<longrightarrow> keeps view (h m e (createContext R)))"

definition runner_tracks :: "'w migration_runner \<Rightarrow> ('w \<Rightarrow> string list) \<Rightarrow> bool" where
  "runner_tracks R names \<longleftrightarrow> tracking_laws names (queryRunner R (ensure_sql R)) (queryRunner R (select_sql R))
     (\<lambda>n. queryRunner R (record_sql R n)) (\<lambda>n. queryRunner R (remove_sql R n))"

text \<open>A migration and the per-migration hooks leave the tracking table to the runner.\<close>
definition migration_ok :: "'w migration_runner \<Rightarrow> 'w migration \<Rightarrow> ('w \<Rightarrow> string list) \<Rightarrow> bool" where
  "migration_ok R m names \<longleftrightarrow> runner_tracks R names \<and> keeps names (m_up m (createContext R)) \<and>
     keeps names (m_down m (createContext R)) \<and> hooks_keep R m names"

definition named_ok :: "'w migration_runner \<Rightarrow> string \<Rightarrow> ('w \<Rightarrow> string list) \<Rightarrow> bool" where
  "named_ok R n names \<longleftrightarrow> (\<forall>m\<in>set (migrations R). migration_ok R m names)"

definition runner_ok :: "'w migration_runner \<Rightarrow> ('w \<Rightarrow> string list) \<Rightarrow> bool" where
  "runner_ok R names \<longleftrightarrow> runner_tracks R names \<and> (\<forall>m\<in>set (migrations R). migration_ok R m names) \<and>
     keeps names (acquireAdvisoryLock (driver R) (lockId R) (lockTimeoutMs R)) \<and>
     keeps names (releaseAdvisoryLock (driver R) (lockId R)) \<and>
     (\<forall>h. beforeAll (hooks R) = Some h \<longrightarrow> keeps names (h (createContext R))) \<and>
     (\<forall>h rs. afterAll (hooks R) = Some h \<longrightarrow> keeps names (h (createContext R) rs))"

definition never_throws :: "('w, thrown, 'a) io \<Rightarrow> bool" where
  "never_throws m \<longleftrightarrow> (\<forall>w. \<not> isl (fst (m w)))"

text \<open>The lock is granted, the table can be created and read, and no hook that ends a run throws.\<close>
definition runner_available :: "'w migration_runner \<Rightarrow> bool" where
  "runner_available R \<longleftrightarrow> (\<forall>w. fst (acquireAdvisoryLock (driver R) (lockId R) (lockTimeoutMs R) w) = Inr True) \<and>
     never_throws (releaseAdvisoryLock (driver R) (lockId R)) \<and>
     never_throws (queryRunner R (ensure_sql R)) \<and> never_throws (queryRunner R (select_sql R)) \<and>
     (\<forall>h. beforeAll (hooks R) = Some h \<longrightarrow> never_throws (h (createContext R))) \<and>
     (\<forall>h rs. afterAll (hooks R) = Some h \<longrightarrow> never_throws (h (createContext R) rs)) \<and>
     (\<forall>h m e. onError (hooks R) = Some h \<longrightarrow> never_throws (h m e (createContext R)))"

subsection \<open>One migration and the tracking table\<close>

lemma runner_tracksD:
  assumes "runner_tracks R names"
  shows "keeps names (ensureMigrationTable R)"
    and "keeps names (getExecutedMigrations R)"
    and "getExecutedMigrations R w = (Inr xs, w') \<Longrightarrow> xs = names w"
    and "recordMigration R n w = (Inr u, w') \<Longrightarrow> names w' = names w @ [n]"
    and "recordMigration R n w = (Inl e, w') \<Longrightarrow> names w' = names w"
    and "removeMigrationRecord R n w = (Inr u, w') \<Longrightarrow> names w' = filter (\<lambda>x. x \<noteq> n) (names w)"
    and "removeMigrationRecord R n w = (Inl e, w') \<Longrightarrow> names w' = names w"
proof -
  show "keeps names (ensureMigrationTable R)" "keeps names (getExecutedMigrations R)"
    using assms by (auto simp: runner_tracks_def tracking_laws_def ensureMigrationTable_def getExecutedMigrations_def)
qed (use assms in \<open>auto simp: runner_tracks_def tracking_laws_def getExecutedMigrations_def
      recordMigration_def removeMigrationRecord_def io_void_def io_defs split: prod.splits sum.splits\<close>)

lemma call_beforeEach_keeps: "hooks_keep R m view \<Longrightarrow> keeps view (call_beforeEach R m)"
  by (auto simp: call_beforeEach_def hooks_keep_def)

lemma report_failure_keeps: "hooks_keep R m view \<Longrightarrow> keeps view (report_failure R d m e)"
  unfolding report_failure_def hooks_keep_def by (intro keeps_then keeps_optional) auto

lemma report_failure_result: "report_failure R d m e w = (Inr r, w') \<Longrightarrow> r = failed d (m_name m) (error_message e)"
  by (auto simp: report_failure_def io_Inr_iffs)

lemma afterEach_keeps:
  "hooks_keep R m view \<Longrightarrow> keeps view (optional_call (map_option (\<lambda>h. h m (createContext R) d) (afterEach (hooks R))))"
  by (auto simp: hooks_keep_def)

text \<open>
  The tracked body: with a tracking statement that changes the view by \<open>g\<close> or fails and keeps it, a
  success has changed it by \<open>g\<close>, and no outcome has done anything but that or nothing.
\<close>
lemma apply_and_track_view:
  assumes "keeps view act" "hooks_keep R m view"
    and track: "\<And>w u w'. track w = (Inr u, w') \<Longrightarrow> view w' = g (view w)"
    "\<And>w e w'. track w = (Inl e, w') \<Longrightarrow> view w' = view w"
    and run: "apply_and_track R d m act track w = (q, w')"
  shows "view w' \<in> {view w, g (view w)} \<and>
    (\<forall>r. q = Inr r \<longrightarrow> result_name r = m_name m \<and> (success r \<longrightarrow> view w' = g (view w)))"
proof -
  obtain a w1 where a: "act w = (a, w1)" by (metis surj_pair)
  have v1: "view w1 = view w" using keepsD [OF assms(1) a] .
  obtain t w2 where t: "track w1 = (t, w2)" by (metis surj_pair)
  show ?thesis
  proof (cases a)
    case Inl
    then show ?thesis using run a v1 by (auto simp: apply_and_track_def io_defs)
  next
    case (Inr u)
    show ?thesis
    proof (cases t)
      case (Inl e)
      then show ?thesis
        using run a Inr t v1 track(2) [OF t [unfolded Inl]]
        by (auto simp: apply_and_track_def io_defs failed_def Let_def)
    next
      case (Inr v)
      have v2: "view w2 = g (view w)" using track(1) [OF t [unfolded Inr]] v1 by simp
      let ?h = "optional_call (map_option (\<lambda>h. h m (createContext R) (clock R w1 - clock R w)) (afterEach (hooks R)))"
      obtain x w3 where x: "?h w2 = (x, w3)" by (metis surj_pair)
      have "view w3 = view w2" using keepsD [OF afterEach_keeps [OF assms(2)] x] .
      then show ?thesis
        using run a \<open>a = Inr u\<close> t Inr x v2
        by (cases x) (auto simp: apply_and_track_def io_defs succeeded_def Let_def)
    qed
  qed
qed

lemma tracked_migration:
  assumes "keeps view act" "hooks_keep R m view"
    and "\<And>w u w'. track w = (Inr u, w') \<Longrightarrow> view w' = g (view w)"
    "\<And>w e w'. track w = (Inl e, w') \<Longrightarrow> view w' = view w"
    and run: "io_catch (io_then (call_beforeEach R m) (apply_and_track R d m act track)) (report_failure R d m) w = (q, w')"
  shows "view w' \<in> {view w, g (view w)} \<and>
    (\<forall>r. q = Inr r \<longrightarrow> result_name r = m_name m \<and> (success r \<longrightarrow> view w' = g (view w)))"
proof -
  obtain b w1 where b: "call_beforeEach R m w = (b, w1)" by (metis surj_pair)
  have v1: "view w1 = view w" using keepsD [OF call_beforeEach_keeps [OF assms(2)] b] .
  note rep = keepsD [OF report_failure_keeps [OF assms(2)]]
  show ?thesis
  proof (cases b)
    case (Inl e)
    then have "report_failure R d m e w1 = (q, w')" using run b by (simp add: io_defs)
    from rep [OF this] v1 report_failure_result [of R d m e w1 _ w'] this show ?thesis by (auto simp: failed_def)
  next
    case (Inr u)
    obtain p w2 where p: "apply_and_track R d m act track w1 = (p, w2)" by (metis surj_pair)
    note body = apply_and_track_view [where view = view and g = g and act = act and track = track, OF assms(1-4) p]
    show ?thesis
    proof (cases p)
      case (Inl e)
      then have "report_failure R d m e w2 = (q, w')" using run b Inr p by (simp add: io_defs)
      from rep [OF this] body v1 report_failure_result [of R d m e w2 _ w'] this show ?thesis by (auto simp: failed_def)
    next
      case (Inr r)
      then show ?thesis using run b \<open>b = Inr u\<close> p body v1 by (auto simp: io_defs)
    qed
  qed
qed

lemma runUp_tracked:
  assumes "migration_ok R m names" "runUp R m w = (q, w')"
  shows "names w' \<in> {names w, names w @ [m_name m]} \<and>
    (\<forall>r. q = Inr r \<longrightarrow> result_name r = m_name m \<and> (success r \<longrightarrow> names w' = names w @ [m_name m]))"
  by (rule tracked_migration [where view = names and g = "\<lambda>xs. xs @ [m_name m]" and R = R and m = m, OF _ _ _ _ assms(2) [unfolded runUp_def]])
    (use assms(1) in \<open>auto simp: migration_ok_def runner_tracksD(4,5)\<close>)

lemma runDown_tracked:
  assumes "migration_ok R m names" "runDown R m w = (q, w')"
  shows "names w' \<in> {names w, filter (\<lambda>x. x \<noteq> m_name m) (names w)} \<and>
    (\<forall>r. q = Inr r \<longrightarrow> result_name r = m_name m \<and> (success r \<longrightarrow> names w' = filter (\<lambda>x. x \<noteq> m_name m) (names w)))"
  by (rule tracked_migration [where view = names and g = "filter (\<lambda>x. x \<noteq> m_name m)" and R = R and m = m, OF _ _ _ _ assms(2) [unfolded runDown_def]])
    (use assms(1) in \<open>auto simp: migration_ok_def runner_tracksD(6,7)\<close>)

lemma find_migration_Some: "find_migration R n = Some m \<Longrightarrow> m \<in> set (migrations R) \<and> m_name m = n"
  by (auto simp: find_migration_def find_Some_iff)

lemma rollback_one_tracked:
  assumes "named_ok R n names" "rollback_one R n w = (q, w')"
  shows "names w' \<in> {names w, filter (\<lambda>x. x \<noteq> n) (names w)} \<and>
    (\<forall>r. q = Inr r \<longrightarrow> result_name r = n \<and> (success r \<longrightarrow> names w' = filter (\<lambda>x. x \<noteq> n) (names w)))"
proof (cases "find_migration R n")
  case None
  then show ?thesis using assms(2) by (auto simp: rollback_one_def io_return_def not_registered_def failed_def)
next
  case (Some m)
  then show ?thesis
    using runDown_tracked [of R m names w q w'] assms find_migration_Some [OF Some]
    by (auto simp: rollback_one_def named_ok_def)
qed

interpretation up: tracked_units "migration_ok" runUp "\<lambda>m xs. xs @ [m_name m]" m_name
proof (unfold_locales, goal_cases)
  case (1 R m names w r w')
  then show ?case using runUp_tracked [of R m names w "Inr r" w'] by simp
next
  case (2 R m names w q w')
  then show ?case using runUp_tracked [of R m names w q w'] by simp
next
  case (3 R m names w r w')
  then show ?case using runUp_tracked [of R m names w "Inr r" w'] by simp
qed

interpretation down: tracked_units "named_ok" rollback_one "\<lambda>n. filter (\<lambda>x. x \<noteq> n)" "\<lambda>n. n"
proof (unfold_locales, goal_cases)
  case (1 R m names w r w')
  then show ?case using rollback_one_tracked [of R m names w "Inr r" w'] by simp
next
  case (2 R m names w q w')
  then show ?case using rollback_one_tracked [of R m names w q w'] by simp
next
  case (3 R m names w r w')
  then show ?case using rollback_one_tracked [of R m names w "Inr r" w'] by simp
qed

subsection \<open>Runs and rollbacks\<close>

lemma fold_snoc_names: "fold (\<lambda>m xs. xs @ [f m]) ms ys = ys @ map f ms"
  by (induction ms arbitrary: ys) auto

lemma fold_filter_names: "fold (\<lambda>n. filter (\<lambda>x. x \<noteq> n)) ns ys = filter (\<lambda>x. x \<notin> set ns) ys"
  by (induction ns arbitrary: ys) (auto intro: filter_cong)

lemma never_throwsE: "never_throws m \<Longrightarrow> \<exists>a w'. m w = (Inr a, w')"
  unfolding never_throws_def by (metis prod.collapse sum.collapse(2))

lemma never_throws_bind: "never_throws m \<Longrightarrow> (\<And>a. never_throws (f a)) \<Longrightarrow> never_throws (io_bind m f)"
  by (auto simp: never_throws_def io_bind_def split: prod.splits sum.splits) (metis fst_conv sum.disc)+

lemma never_throws_then: "never_throws m \<Longrightarrow> never_throws k \<Longrightarrow> never_throws (io_then m k)"
  by (simp add: io_then_def never_throws_bind)

lemma never_throws_return [simp]: "never_throws (io_return a)"
  by (simp add: never_throws_def io_return_def)

lemma never_throws_optional: "(\<And>f. h = Some f \<Longrightarrow> never_throws f) \<Longrightarrow> never_throws (optional_call h)"
  by (auto simp: optional_call_def split: option.split)

lemma never_throws_catch: "(\<And>e. never_throws (h e)) \<Longrightarrow> never_throws (io_catch m h)"
  by (auto simp: never_throws_def io_catch_def split: prod.splits sum.splits)

lemma never_throws_run: "(\<And>u. never_throws (step u)) \<Longrightarrow> never_throws (run_until_failure step us)"
  by (induction us) (auto intro!: never_throws_bind split: if_splits)

lemma never_throws_finally: "never_throws m \<Longrightarrow> never_throws f \<Longrightarrow> never_throws (io_finally m f)"
  by (auto simp: never_throws_def io_finally_def split: prod.splits sum.splits) (metis fst_conv sum.disc)+

lemma one_migration_never_throws:
  assumes "runner_available R"
  shows "never_throws (runUp R m)" "never_throws (rollback_one R n)"
proof -
  have rep: "never_throws (report_failure R d m' e)" for d m' e
    using assms unfolding report_failure_def runner_available_def
    by (intro never_throws_then never_throws_optional) auto
  then show "never_throws (runUp R m)" "never_throws (rollback_one R n)"
    by (auto simp: runUp_def rollback_one_def runDown_def intro!: never_throws_catch split: option.split)
qed

lemma table_never_throws:
  "runner_available R \<Longrightarrow> never_throws (ensureMigrationTable R)"
  "runner_available R \<Longrightarrow> never_throws (getExecutedMigrations R)"
  by (auto simp: runner_available_def ensureMigrationTable_def io_void_def getExecutedMigrations_def
      intro!: never_throws_bind never_throws_then)

lemma with_lock_never_throws:
  assumes "runner_available R" "never_throws body"
  shows "never_throws (with_lock R body)"
proof -
  have "never_throws (io_finally body (releaseAdvisoryLock (driver R) (lockId R)))"
    using assms by (auto simp: runner_available_def intro!: never_throws_finally)
  moreover have "fst (acquireAdvisoryLock (driver R) (lockId R) (lockTimeoutMs R) w) = Inr True" for w
    using assms(1) by (simp add: runner_available_def)
  ultimately show ?thesis
    by (auto simp: with_lock_def never_throws_def io_bind_def split: prod.splits sum.splits)
      (metis fst_conv sum.disc Inl_Inr_False sum.inject(2))+
qed

lemma runAll_never_throws: "runner_available R \<Longrightarrow> never_throws (runAll R)"
  unfolding runAll_def
  by (intro with_lock_never_throws never_throws_then never_throws_bind never_throws_run table_never_throws
      one_migration_never_throws never_throws_optional never_throws_return) (auto simp: runner_available_def)

lemma rollback_never_throws: "runner_available R \<Longrightarrow> never_throws (rollbackMigrations n R)"
  unfolding rollbackMigrations_def
  by (intro with_lock_never_throws never_throws_then never_throws_bind never_throws_run table_never_throws
      one_migration_never_throws) auto

text \<open>What happens to the table between the acquisition and the release of the lock.\<close>
lemma runAll_cases:
  assumes "runner_ok R names" "runAll R w = (Inr rs, w')"
  shows "\<exists>w1 w2. names w1 = names w \<and> names w' = names w2 \<and>
    run_until_failure (runUp R) (pending_of R (names w)) w1 = (Inr rs, w2)"
proof -
  note ok = assms(1) [unfolded runner_ok_def]
  let ?all = "\<lambda>rs. optional_call (map_option (\<lambda>h. h (createContext R) rs) (afterAll (hooks R)))"
  let ?before = "optional_call (map_option (\<lambda>h. h (createContext R)) (beforeAll (hooks R)))"
  obtain w1 u w2 xs w3 v w4 w5 x w6 y w7 where steps:
    "acquireAdvisoryLock (driver R) (lockId R) (lockTimeoutMs R) w = (Inr True, w1)"
    "ensureMigrationTable R w1 = (Inr u, w2)" "getExecutedMigrations R w2 = (Inr xs, w3)"
    "?before w3 = (Inr v, w4)" "run_until_failure (runUp R) (pending_of R xs) w4 = (Inr rs, w5)"
    "?all rs w5 = (Inr x, w6)" "releaseAdvisoryLock (driver R) (lockId R) w6 = (Inr y, w7)" "w7 = w'"
    using assms(2) by (auto simp: runAll_def with_lock_def io_Inr_iffs io_throw_def split: if_splits)
  have keep: "keeps names ?before" "keeps names (?all rs)"
    using ok by auto
  note hook = keepsD [OF keep(1) steps(4)] keepsD [OF keep(2) steps(6)]
  have "names w1 = names w" "names w' = names w6"
    using ok steps(1,7,8) by (auto dest: keepsD)
  moreover have "names w2 = names w1" "names w3 = names w2" "xs = names w2"
    using runner_tracksD [of R names] ok steps(2,3) by (auto dest: keepsD)
  ultimately show ?thesis using steps(5) hook by (intro exI [of _ w4] exI [of _ w5]) simp
qed

lemma rollback_cases:
  assumes "runner_ok R names" "rollbackMigrations n R w = (Inr rs, w')"
  shows "\<exists>w1 w2. names w1 = names w \<and> names w' = names w2 \<and>
    run_until_failure (rollback_one R) (rev (js_slice_from (- n) (names w))) w1 = (Inr rs, w2)"
proof -
  note ok = assms(1) [unfolded runner_ok_def]
  obtain w1 u w2 xs w3 w5 y where steps:
    "acquireAdvisoryLock (driver R) (lockId R) (lockTimeoutMs R) w = (Inr True, w1)"
    "ensureMigrationTable R w1 = (Inr u, w2)" "getExecutedMigrations R w2 = (Inr xs, w3)"
    "run_until_failure (rollback_one R) (rev (js_slice_from (- n) xs)) w3 = (Inr rs, w5)"
    "releaseAdvisoryLock (driver R) (lockId R) w5 = (Inr y, w')"
    using assms(2) by (auto simp: rollbackMigrations_def with_lock_def io_Inr_iffs io_throw_def split: if_splits)
  have "names w1 = names w" "names w' = names w5"
    using ok steps(1,5) by (auto dest: keepsD)
  moreover have "names w2 = names w1" "names w3 = names w2" "xs = names w2"
    using runner_tracksD [of R names] ok steps(2,3) by (auto dest: keepsD)
  ultimately show ?thesis using steps(4) by (intro exI [of _ w3] exI [of _ w5]) simp
qed

lemma runner_ok_units: "runner_ok R names \<Longrightarrow> m \<in> set (migrations R) \<Longrightarrow> migration_ok R m names"
  "runner_ok R names \<Longrightarrow> named_ok R n names"
  by (auto simp: runner_ok_def named_ok_def)

lemma set_pending: "m \<in> set (pending_of R xs) \<Longrightarrow> m \<in> set (migrations R)"
  by (simp add: pending_of_def)

lemma runAll_all_success:
  assumes "runner_ok R names" "runAll R w = (Inr rs, w')" "\<forall>r\<in>set rs. success r"
  shows "length rs = length (pending_of R (names w)) \<and> names w' = names w @ map m_name (pending_of R (names w))"
proof -
  obtain w1 w2 where w: "names w1 = names w" "names w' = names w2"
    "run_until_failure (runUp R) (pending_of R (names w)) w1 = (Inr rs, w2)"
    using runAll_cases [OF assms(1,2)] by blast
  have "length rs = length (pending_of R (names w)) \<and>
    names w2 = fold (\<lambda>m xs. xs @ [m_name m]) (pending_of R (names w)) (names w1)"
    by (rule up.run_table_success [OF _ w(3) assms(3)])
      (use runner_ok_units(1) [OF assms(1)] set_pending in blast)
  with w show ?thesis by (simp add: fold_snoc_names)
qed

lemma rollback_all_success:
  assumes "runner_ok R names" "rollbackMigrations n R w = (Inr rs, w')" "\<forall>r\<in>set rs. success r"
  shows "map result_name rs = rev (js_slice_from (- n) (names w)) \<and>
    names w' = filter (\<lambda>x. x \<notin> set (js_slice_from (- n) (names w))) (names w)"
proof -
  let ?ns = "rev (js_slice_from (- n) (names w))"
  obtain w1 w2 where w: "names w1 = names w" "names w' = names w2"
    "run_until_failure (rollback_one R) ?ns w1 = (Inr rs, w2)"
    using rollback_cases [OF assms(1,2)] by blast
  have ok: "\<And>u. u \<in> set ?ns \<Longrightarrow> named_ok R u names"
    using runner_ok_units(2) [OF assms(1)] by blast
  have "length rs = length ?ns \<and> names w2 = fold (\<lambda>n. filter (\<lambda>x. x \<noteq> n)) ?ns (names w1)"
    by (rule down.run_table_success [OF ok w(3) assms(3)])
  moreover have "map result_name rs = take (length rs) (map (\<lambda>n. n) ?ns)"
    by (rule down.run_names [OF ok w(3)])
  ultimately show ?thesis using w by (simp add: fold_filter_names)
qed



text \<open>C26: Rolling back as many migrations as a successful run executed, when every step of the rollback
  succeeds, reverts exactly those, last first, and leaves the tracking table as it was before the run.\<close>
theorem rollback_undoes_runAll:
  assumes "runner_ok R names"
    and "runAll R w = (Inr rs, w')" "rs \<noteq> []" "\<forall>r\<in>set rs. success r"
    and "rollbackMigrations (int (length rs)) R w' = (Inr rs', w'')" "\<forall>r\<in>set rs'. success r"
  shows "names w'' = names w \<and> map result_name rs' = rev (map m_name (pending_of R (names w)))"
proof -
  let ?ns = "map m_name (pending_of R (names w))"
  have run: "length rs = length ?ns" "names w' = names w @ ?ns"
    using runAll_all_success [OF assms(1,2,4)] by simp_all
  have slice: "js_slice_from (- int (length rs)) (names w') = ?ns"
  proof -
    have "0 < length rs" using assms(3) by simp
    then show ?thesis using run by (simp add: js_slice_from_def)
  qed
  have "filter (\<lambda>x. x \<notin> set ?ns) (names w @ ?ns) = names w"
    by (auto simp: filter_empty_conv pending_of_def intro!: filter_True)
  moreover have "map result_name rs' = rev ?ns \<and> names w'' = filter (\<lambda>x. x \<notin> set ?ns) (names w')"
    using rollback_all_success [OF assms(1,5,6)] by (simp only: slice)
  ultimately show ?thesis by (simp only: run(2) simp_thms)
qed

text \<open>\<^verbatim>\<open>rollback(0)\<close> does not revert zero migrations: when it ends without a failure it has reverted every
  executed migration, and the tracking table is empty.\<close>
theorem rollback_zero_reverts_all:
  assumes "runner_ok R names" "rollbackMigrations 0 R w = (Inr rs, w')" "\<forall>r\<in>set rs. success r"
  shows "map result_name rs = rev (names w) \<and> names w' = []"
  using rollback_all_success [OF assms] by (simp add: js_slice_from_def)

subsection \<open>Witness runs\<close>

text \<open>
  A concrete database for the witnesses: the rows of the tracking table and whether the lock is held.
  It reads the statements the SQLite runner writes: the name of an INSERT or a DELETE is the literal
  that starts at the position where the fixed text of the statement ends.
\<close>
type_synonym small_db = "string list \<times> bool"

definition small_query :: "string \<Rightarrow> (small_db, thrown, query_result) io" where
  "small_query sql = (\<lambda>(rows, held).
     if hd sql = CHR ''S'' then (Inr (Result_Object None (Some rows)), (rows, held))
     else if hd sql = CHR ''I'' then
       (case read_standard (drop 45 sql) of
          None \<Rightarrow> (Inl (Error_Object None ''syntax error''), (rows, held))
        | Some (n, _) \<Rightarrow> if n \<in> set rows then (Inl (Error_Object None ''not unique''), (rows, held))
                         else (Inr Falsy, (rows @ [n], held)))
     else if hd sql = CHR ''D'' then
       (case read_standard (drop 43 sql) of
          None \<Rightarrow> (Inl (Error_Object None ''syntax error''), (rows, held))
        | Some (n, _) \<Rightarrow> (Inr Falsy, (filter (\<lambda>x. x \<noteq> n) rows, held)))
     else (Inr Falsy, (rows, held)))"

definition small_driver :: "small_db lock_driver" where
  "small_driver = \<lparr>acquireAdvisoryLock = (\<lambda>_ _ (rows, held). (Inr True, (rows, True))),
     releaseAdvisoryLock = (\<lambda>_ (rows, held). (Inr (), (rows, False)))\<rparr>"

definition small_migration :: "string \<Rightarrow> (small_db, thrown, unit) io \<Rightarrow> small_db migration" where
  "small_migration n up = \<lparr>m_name = n, m_up = (\<lambda>_. up),
     m_down = (\<lambda>_ w. (if snd w then Inr () else Inl (Error_Object None ''not locked''), w))\<rparr>"

definition small_runner :: "small_db migration list \<Rightarrow> small_db migration_runner" where
  "small_runner ms = SqliteMigrationRunner (\<lambda>_. 0) ms small_driver small_query None"

definition two_migrations :: "small_db migration list" where
  "two_migrations = [small_migration ''Init'' (io_return ()), small_migration ''It's'' (io_return ())]"

definition three_migrations :: "small_db migration list" where
  "three_migrations = two_migrations @ [small_migration ''Bad'' (io_throw (Other_Value ''boom'')), small_migration ''Last'' (io_return ())]"

lemmas small_defs = small_runner_def SqliteMigrationRunner_def newMigrationRunner_def no_hooks_def

lemma small_runner_sel [simp]:
  "migrations (small_runner ms) = ms" "driver (small_runner ms) = small_driver"
  "queryRunner (small_runner ms) = small_query" "hooks (small_runner ms) = no_hooks"
  "wrapIdentifier (small_runner ms) = quote_wrap"
  by (simp_all add: small_defs)

lemma small_record: "hd (record_sql (small_runner ms) n) = CHR ''I'' \<and>
    drop 45 (record_sql (small_runner ms) n) = double_char CHR 0x27 n @ CHR 0x27 # '')''"
  by (simp add: record_sql_def small_defs quote_wrap_def)

lemma small_remove: "hd (remove_sql (small_runner ms) n) = CHR ''D'' \<and>
    drop 43 (remove_sql (small_runner ms) n) = double_char CHR 0x27 n @ CHR 0x27 # []"
  by (simp add: remove_sql_def small_defs quote_wrap_def)

lemma small_others: "hd (ensure_sql (small_runner ms)) = CHR ''C''" "hd (select_sql (small_runner ms)) = CHR ''S''"
  by (simp_all add: ensure_sql_def select_sql_def)

lemma small_tracks: "runner_tracks (small_runner ms) fst"
  unfolding runner_tracks_def tracking_laws_def
  by (auto simp: small_query_def small_others small_record small_remove read_standard_double keeps_def
      split: if_splits)

lemma small_runner_ok:
  assumes "\<forall>m\<in>set ms. keeps fst (m_up m (createContext (small_runner ms))) \<and> keeps fst (m_down m (createContext (small_runner ms)))"
  shows "runner_ok (small_runner ms) fst"
  using assms small_tracks [of ms]
  by (auto simp: runner_ok_def migration_ok_def hooks_keep_def no_hooks_def small_driver_def keeps_def)

lemma small_available: "runner_available (small_runner ms)"
  by (auto simp: runner_available_def never_throws_def no_hooks_def small_driver_def small_query_def small_others)

lemma small_lists_ok: "runner_ok (small_runner two_migrations) fst" "runner_ok (small_runner three_migrations) fst"
  by (rule small_runner_ok, auto simp: two_migrations_def three_migrations_def small_migration_def keeps_def io_defs)+


theorem rollback_undoes_runAll_witness:
  "runAll (small_runner two_migrations) ([''Old''], False) =
     (Inr [succeeded Up ''Init'', succeeded Up ''It's''], ([''Old'', ''Init'', ''It's''], False)) \<and>
   rollbackMigrations 2 (small_runner two_migrations) ([''Old'', ''Init'', ''It's''], False) =
     (Inr [succeeded Down ''It's'', succeeded Down ''Init''], ([''Old''], False)) \<and>
   map result_name [succeeded Down ''It's'', succeeded Down ''Init''] =
     rev (map m_name (pending_of (small_runner two_migrations) [''Old'']))"
proof -
  let ?R = "small_runner two_migrations" and ?rs = "[succeeded Up ''Init'', succeeded Up ''It's'']"
  and ?rs' = "[succeeded Down ''It's'', succeeded Down ''Init'']"
  have 1: "runAll ?R ([''Old''], False) = (Inr ?rs, ([''Old'', ''Init'', ''It's''], False))" by code_simp
  have 2: "rollbackMigrations 2 ?R ([''Old'', ''Init'', ''It's''], False) = (Inr ?rs', ([''Old''], False))" by code_simp
  have 3: "\<forall>r\<in>set ?rs. success r" "\<forall>r\<in>set ?rs'. success r" by (simp_all add: succeeded_def)
  have "rollbackMigrations (int (length ?rs)) ?R ([''Old'', ''Init'', ''It's''], False) = (Inr ?rs', ([''Old''], False))"
    using 2 by simp
  from rollback_undoes_runAll [OF small_lists_ok(1) 1 _ 3(1) this 3(2)] 1 2 show ?thesis by simp
qed

theorem rollback_zero_reverts_all_witness:
  "\<exists>rs w'. rollbackMigrations 0 (small_runner two_migrations) ([''Init'', ''It's''], False) = (Inr rs, w') \<and>
     map result_name rs = [''It's'', ''Init''] \<and> fst w' = []"
proof -
  let ?R = "small_runner two_migrations" and ?rs = "[succeeded Down ''It's'', succeeded Down ''Init'']"
  have 1: "rollbackMigrations 0 ?R ([''Init'', ''It's''], False) = (Inr ?rs, ([], False))" by code_simp
  have 2: "\<forall>r\<in>set ?rs. success r" by (simp add: succeeded_def)
  from rollback_zero_reverts_all [OF small_lists_ok(1) 1 2] 1 show ?thesis by auto
qed

subsection \<open>The advisory lock\<close>

lemma with_lock_world:
  assumes "acquireAdvisoryLock (driver R) (lockId R) (lockTimeoutMs R) w = (Inr True, w1)"
  shows "snd (with_lock R body w) = snd (releaseAdvisoryLock (driver R) (lockId R) (snd (body w1)))"
  using assms by (simp add: with_lock_def io_bind_def io_finally_world)

lemma with_lock_refused:
  assumes "acquireAdvisoryLock (driver R) (lockId R) (lockTimeoutMs R) w = (Inr False, w1)"
  shows "with_lock R body w = (Inl (lock_failure R), w1)"
  using assms by (simp add: with_lock_def io_bind_def io_throw_def)

text \<open>C35: Once the lock was granted, \<^verbatim>\<open>runAll\<close> and \<^verbatim>\<open>rollback\<close> leave it released whatever the migrations, the
  hooks and the database do; a run, a rollback or a revert that is refused the lock throws the advisory
  lock error and does nothing else.\<close>
theorem advisory_lock_released:
  assumes "\<And>w. \<not> held (snd (releaseAdvisoryLock (driver R) (lockId R) w))"
    and "acquireAdvisoryLock (driver R) (lockId R) (lockTimeoutMs R) w = (Inr granted, w1)"
  shows "if granted then \<not> held (snd (runAll R w)) \<and> \<not> held (snd (rollbackMigrations n R w))
    else runAll R w = (Inl (lock_failure R), w1) \<and> rollbackMigrations n R w = (Inl (lock_failure R), w1) \<and>
      revertLast R w = (Inl (lock_failure R), w1)"
  using assms
  by (cases granted) (simp_all add: runAll_def rollbackMigrations_def with_lock_world with_lock_refused
      revertLast_def io_bind_def io_throw_def)

theorem advisory_lock_released_witness:
  "\<not> snd (snd (runAll (small_runner three_migrations) ([''Init''], False))) \<and>
   \<not> snd (snd (rollbackMigrations 5 (small_runner three_migrations) ([''Init''], False)))"
  using advisory_lock_released [of snd "small_runner three_migrations" "([''Init''], False)" True "([''Init''], True)" 5]
  by (simp add: small_driver_def split: prod.splits)

text \<open>\<^verbatim>\<open>revertLast\<close> hands back the promise of \<^verbatim>\<open>runDown\<close> without awaiting it, so the \<^verbatim>\<open>down\<close> of the last
  migration runs after the lock was released: a \<^verbatim>\<open>down\<close> that needs the lock to be held fails, although
  the lock had been granted.\<close>
theorem revertLast_runs_unlocked:
  assumes "acquireAdvisoryLock (driver R) (lockId R) (lockTimeoutMs R) w = (Inr True, w1)"
    and "ensureMigrationTable R w1 = (Inr (), w2)" "getExecutedMigrations R w2 = (Inr (ns @ [n]), w3)"
    and "find_migration R n = Some m" "beforeEach (hooks R) = None" "onError (hooks R) = None"
    and "releaseAdvisoryLock (driver R) (lockId R) w3 = (Inr (), w4)" "\<not> held w4"
    and "\<And>w'. \<not> held w' \<Longrightarrow> m_down m (createContext R) w' = (Inl e, w')"
  shows "revertLast R w = (Inr (Some (failed Down n (error_message e))), w4)"
proof -
  have "m_name m = n" using find_migration_Some [OF assms(4)] by simp
  moreover have "m_down m (createContext R) w4 = (Inl e, w4)" using assms(8,9) by blast
  ultimately show ?thesis
    using assms(1-7)
    by (simp add: revertLast_def return_unawaited_def call_beforeEach_def optional_call_def resume_down_def
        apply_and_track_def report_failure_def io_defs)
qed

theorem revertLast_runs_unlocked_witness:
  "revertLast (small_runner two_migrations) ([''Init''], False) =
     (Inr (Some (failed Down ''Init'' ''not locked'')), ([''Init''], False)) \<and>
   rollbackMigrations 1 (small_runner two_migrations) ([''Init''], False) = (Inr [succeeded Down ''Init''], ([], False))"
proof -
  let ?R = "small_runner two_migrations" and ?m = "small_migration ''Init'' (io_return ())"
  have 1: "acquireAdvisoryLock (driver ?R) (lockId ?R) (lockTimeoutMs ?R) ([''Init''], False) = (Inr True, ([''Init''], True))"
    by (simp add: small_driver_def)
  have 2: "ensureMigrationTable ?R ([''Init''], True) = (Inr (), ([''Init''], True))"
    and 3: "getExecutedMigrations ?R ([''Init''], True) = (Inr ([] @ [''Init'']), ([''Init''], True))"
    by code_simp+
  have 4: "find_migration ?R ''Init'' = Some ?m"
    by (simp add: find_migration_def two_migrations_def small_migration_def)
  have "revertLast ?R ([''Init''], False) =
     (Inr (Some (failed Down ''Init'' (error_message (Error_Object None ''not locked'')))), ([''Init''], False))"
    by (rule revertLast_runs_unlocked [where held = snd, OF 1 2 3 4])
      (auto simp: small_driver_def small_migration_def no_hooks_def)
  moreover have "rollbackMigrations 1 ?R ([''Init''], False) = (Inr [succeeded Down ''Init''], ([], False))" by code_simp
  ultimately show ?thesis by simp
qed

end
