(* ===== verification/SeederRunner.thy ===== *)
theory SeederRunner
  imports TrackedRuns
begin

section \<open>Seeders (src/seeding/SeederRunner.ts)\<close>

text \<open>
  \<^verbatim>\<open>SeederRunner\<close>: the same shape as the migration runner, with tracking that can be switched off, an
  optional driver and an optional lock, and the statements written out per dialect. A runner is a
  record of the fields of the class; of the entity manager it reads the driver and the dialect.
  Console logging is left out, an \<^verbatim>\<open>await\<close> is a sequential step.
\<close>

subsection \<open>State of a runner\<close>

datatype seed_direction = Run | Revert

type_synonym seeder_result = "seed_direction run_result"

text \<open>What the runner uses of a driver; the lock operations may be missing.\<close>
record 'w seed_driver =
  isMySqlFamily :: bool
  seed_acquire :: "(string \<Rightarrow> int \<Rightarrow> ('w, thrown, bool) io) option"
  seed_release :: "(string \<Rightarrow> ('w, thrown, unit) io) option"

text \<open>\<^verbatim>\<open>em.getDriver()\<close> and, when the internals are there, \<^verbatim>\<open>_ctx.getDialect()\<close>.\<close>
record 'w seed_em =
  getDriver :: "'w seed_driver option"
  ctx_getDialect :: "dialect option"

record 'w seeder =
  s_name :: string
  s_run :: "'w seed_em \<Rightarrow> ('w, thrown, unit) io"
  s_revert :: "('w seed_em \<Rightarrow> ('w, thrown, unit) io) option"

record 'w seeder_runner =
  seeders :: "'w seeder list"
  em :: "'w seed_em"
  seed_query :: "string \<Rightarrow> ('w, thrown, query_result) io"
  trackExecution :: bool
  seed_table :: string

definition newSeederRunner :: "'w seeder list \<Rightarrow> 'w seed_em \<Rightarrow> (string \<Rightarrow> ('w, thrown, query_result) io) \<Rightarrow>
    bool option \<Rightarrow> string option \<Rightarrow> 'w seeder_runner" where
  "newSeederRunner ss e q track tab =
     \<lparr>seeders = ss, em = e, seed_query = q, trackExecution = (case track of None \<Rightarrow> True | Some b \<Rightarrow> b),
      seed_table = (case tab of None \<Rightarrow> ''__seeds'' | Some t \<Rightarrow> t)\<rparr>"

definition isMySql :: "'w seeder_runner \<Rightarrow> ('w, thrown, bool) io" where
  "isMySql R = (case getDriver (em R) of
     None \<Rightarrow> io_throw (Error_Object (Some NOT_CONNECTED) ''SeederRunner: EntityManager has no driver connected.'')
   | Some d \<Rightarrow> io_return (isMySqlFamily d))"

definition seed_dialect :: "'w seeder_runner \<Rightarrow> ('w, thrown, dialect) io" where
  "seed_dialect R = io_bind (isMySql R) (\<lambda>my. io_return
     (if my then Mysql else case ctx_getDialect (em R) of Some d \<Rightarrow> d | None \<Rightarrow> Postgres))"

definition quoted_table :: "'w seeder_runner \<Rightarrow> bool \<Rightarrow> string" where
  "quoted_table R my = (let q = (if my then CHR 0x60 else CHR 0x22) in [q] @ double_char q (seed_table R) @ [q])"

definition quotedTableName :: "'w seeder_runner \<Rightarrow> ('w, thrown, string) io" where
  "quotedTableName R = io_bind (isMySql R) (\<lambda>my. io_return (quoted_table R my))"

subsection \<open>The tracking table\<close>

definition quoted :: "bool \<Rightarrow> string \<Rightarrow> string" where
  "quoted my n = (let q = (if my then CHR 0x60 else CHR 0x22) in [q] @ n @ [q])"

text \<open>The statement that creates the table: the three branches differ in the quotes and the key column.\<close>
definition seed_ensure_sql :: "dialect \<Rightarrow> string \<Rightarrow> string" where
  "seed_ensure_sql d table = (let my = (d = Mysql) in
     ''CREATE TABLE IF NOT EXISTS '' @ table @ '' ('' @ quoted my ''id'' @
       (case d of Mysql \<Rightarrow> '' INT AUTO_INCREMENT PRIMARY KEY, ''
        | Sqlite \<Rightarrow> '' INTEGER PRIMARY KEY AUTOINCREMENT, ''
        | Postgres \<Rightarrow> '' SERIAL PRIMARY KEY, '') @
       quoted my ''name'' @ '' VARCHAR(255) NOT NULL UNIQUE, '' @
       quoted my ''executed_at'' @ '' TIMESTAMP DEFAULT CURRENT_TIMESTAMP'' @ '')'')"

definition seed_select_sql :: "'w seeder_runner \<Rightarrow> bool \<Rightarrow> string" where
  "seed_select_sql R my = ''SELECT '' @ quoted my ''name'' @ '' FROM '' @ quoted_table R my @
     '' ORDER BY '' @ quoted my ''id'' @ '' ASC''"

definition seed_record_sql :: "'w seeder_runner \<Rightarrow> bool \<Rightarrow> string \<Rightarrow> string" where
  "seed_record_sql R my n = ''INSERT INTO '' @ quoted_table R my @ '' ('' @ quoted my ''name'' @
     '') VALUES ('' @ [CHR 0x27] @ double_char CHR 0x27 n @ [CHR 0x27] @ '')''"

definition seed_remove_sql :: "'w seeder_runner \<Rightarrow> bool \<Rightarrow> string \<Rightarrow> string" where
  "seed_remove_sql R my n = ''DELETE FROM '' @ quoted_table R my @ '' WHERE '' @ quoted my ''name'' @
     '' = '' @ [CHR 0x27] @ double_char CHR 0x27 n @ [CHR 0x27]"

definition ensureSeedTable :: "'w seeder_runner \<Rightarrow> ('w, thrown, unit) io" where
  "ensureSeedTable R = io_bind (seed_dialect R) (\<lambda>d. io_bind (quotedTableName R) (\<lambda>table.
     io_void (seed_query R (seed_ensure_sql d table))))"

definition getExecutedSeeds :: "'w seeder_runner \<Rightarrow> ('w, thrown, string list) io" where
  "getExecutedSeeds R = io_bind (isMySql R) (\<lambda>my.
     io_bind (seed_query R (seed_select_sql R my)) (\<lambda>res. io_return (normalizeRows res)))"

definition recordSeed :: "'w seeder_runner \<Rightarrow> string \<Rightarrow> ('w, thrown, unit) io" where
  "recordSeed R n = io_bind (isMySql R) (\<lambda>my. io_void (seed_query R (seed_record_sql R my n)))"

definition removeSeedRecord :: "'w seeder_runner \<Rightarrow> string \<Rightarrow> ('w, thrown, unit) io" where
  "removeSeedRecord R n = io_bind (isMySql R) (\<lambda>my. io_void (seed_query R (seed_remove_sql R my n)))"

subsection \<open>One seeder\<close>

definition seeded :: "seed_direction \<Rightarrow> string \<Rightarrow> seeder_result" where
  "seeded d n = \<lparr>result_name = n, direction = d, success = True, error = None\<rparr>"

definition seed_failed :: "seed_direction \<Rightarrow> string \<Rightarrow> string \<Rightarrow> seeder_result" where
  "seed_failed d n m = \<lparr>result_name = n, direction = d, success = False, error = Some m\<rparr>"

text \<open>
  The \<^verbatim>\<open>try\<close> block that \<^verbatim>\<open>executeSeeder\<close> and \<^verbatim>\<open>revertLast\<close> have in common: the seeder's own code, the
  tracking statement (with a \<^verbatim>\<open>catch\<close> of its own that returns the failure) when tracking is on.
\<close>
definition seed_and_track :: "'w seeder_runner \<Rightarrow> seed_direction \<Rightarrow> string \<Rightarrow> ('w, thrown, unit) io \<Rightarrow>
    ('w, thrown, unit) io \<Rightarrow> ('w, thrown, seeder_result) io" where
  "seed_and_track R d n act track = io_catch
     (io_then act
       (if trackExecution R
        then io_catch (io_then track (io_return (seeded d n)))
               (\<lambda>e. io_return (seed_failed d n (''Tracking failed: '' @ error_message e)))
        else io_return (seeded d n)))
     (\<lambda>e. io_return (seed_failed d n (error_message e)))"

definition executeSeeder :: "'w seeder_runner \<Rightarrow> 'w seeder \<Rightarrow> ('w, thrown, seeder_result) io" where
  "executeSeeder R s = seed_and_track R Run (s_name s) (s_run s (em R)) (recordSeed R (s_name s))"

subsection \<open>Public operations\<close>

definition ensure_if_tracking :: "'w seeder_runner \<Rightarrow> ('w, thrown, unit) io" where
  "ensure_if_tracking R = (if trackExecution R then ensureSeedTable R else io_return ())"

definition executed_if_tracking :: "'w seeder_runner \<Rightarrow> ('w, thrown, string list) io" where
  "executed_if_tracking R = (if trackExecution R then getExecutedSeeds R else io_return [])"

definition pending_seeders :: "'w seeder_runner \<Rightarrow> string list \<Rightarrow> 'w seeder list" where
  "pending_seeders R executed = filter (\<lambda>s. s_name s \<notin> set executed) (seeders R)"

definition seed_lock_id :: string where
  "seed_lock_id = ''stingerloom_seed_lock''"

text \<open>The lock is taken when tracking is on and the driver has an \<^verbatim>\<open>acquireAdvisoryLock\<close>.\<close>
definition take_seed_lock :: "'w seeder_runner \<Rightarrow> ('w, thrown, bool) io" where
  "take_seed_lock R = (case (trackExecution R, Option.bind (getDriver (em R)) seed_acquire) of
     (True, Some acquire) \<Rightarrow> io_bind (acquire seed_lock_id 10000) (\<lambda>acquired.
        if acquired then io_return True
        else io_throw (AdvisoryLockError (''Failed to acquire seed lock '' @ [CHR 0x22] @ seed_lock_id @ [CHR 0x22] @
               ''. Another seeder may be running.'')))
   | _ \<Rightarrow> io_return False)"

definition drop_seed_lock :: "'w seeder_runner \<Rightarrow> bool \<Rightarrow> ('w, thrown, unit) io" where
  "drop_seed_lock R acquired = (case (acquired, Option.bind (getDriver (em R)) seed_release) of
     (True, Some release) \<Rightarrow> release seed_lock_id
   | _ \<Rightarrow> io_return ())"

definition seed_runAll :: "'w seeder_runner \<Rightarrow> ('w, thrown, seeder_result list) io" where
  "seed_runAll R = io_then (ensure_if_tracking R)
     (io_bind (take_seed_lock R) (\<lambda>acquired. io_finally
        (io_bind (executed_if_tracking R) (\<lambda>executed.
           run_until_failure (executeSeeder R) (pending_seeders R executed)))
        (drop_seed_lock R acquired)))"

definition runOne :: "'w seeder_runner \<Rightarrow> 'w seeder \<Rightarrow> ('w, thrown, seeder_result) io" where
  "runOne R s = io_then (ensure_if_tracking R) (executeSeeder R s)"

definition seed_revertLast :: "'w seeder_runner \<Rightarrow> ('w, thrown, seeder_result option) io" where
  "seed_revertLast R = io_then (ensure_if_tracking R) (io_bind (executed_if_tracking R) (\<lambda>executed.
     if executed = [] then io_return None
     else let lastName = last executed in
       (case find (\<lambda>s. s_name s = lastName) (seeders R) of
          None \<Rightarrow> io_return (Some (seed_failed Revert lastName
            (''Seeder '' @ [CHR 0x22] @ lastName @ [CHR 0x22] @ '' not found in registered seeders.'')))
        | Some s \<Rightarrow> (case s_revert s of
            None \<Rightarrow> io_return (Some (seed_failed Revert lastName
              (''Seeder '' @ [CHR 0x22] @ lastName @ [CHR 0x22] @ '' does not implement revert().'')))
          | Some undo \<Rightarrow> io_bind (seed_and_track R Revert (s_name s) (undo (em R)) (removeSeedRecord R (s_name s)))
              (\<lambda>r. io_return (Some r))))))"

definition seed_status :: "'w seeder_runner \<Rightarrow> ('w, thrown, string list \<times> string list) io" where
  "seed_status R = io_then (ensure_if_tracking R) (io_bind (executed_if_tracking R) (\<lambda>executed.
     io_return (executed, map s_name (pending_seeders R executed))))"

subsection \<open>What the runner relies on\<close>

definition seeder_tracks :: "'w seeder_runner \<Rightarrow> ('w \<Rightarrow> string list) \<Rightarrow> bool" where
  "seeder_tracks R names \<longleftrightarrow> trackExecution R \<and> (case getDriver (em R) of None \<Rightarrow> False | Some d \<Rightarrow>
     let my = isMySqlFamily d;
         dia = (if my then Mysql else case ctx_getDialect (em R) of Some d \<Rightarrow> d | None \<Rightarrow> Postgres) in
     tracking_laws names (seed_query R (seed_ensure_sql dia (quoted_table R my))) (seed_query R (seed_select_sql R my))
       (\<lambda>n. seed_query R (seed_record_sql R my n)) (\<lambda>n. seed_query R (seed_remove_sql R my n)))"

definition seeder_ok :: "'w seeder_runner \<Rightarrow> 'w seeder \<Rightarrow> ('w \<Rightarrow> string list) \<Rightarrow> bool" where
  "seeder_ok R s names \<longleftrightarrow> seeder_tracks R names \<and> keeps names (s_run s (em R))"

definition seeder_runner_ok :: "'w seeder_runner \<Rightarrow> ('w \<Rightarrow> string list) \<Rightarrow> bool" where
  "seeder_runner_ok R names \<longleftrightarrow> seeder_tracks R names \<and> (\<forall>s\<in>set (seeders R). seeder_ok R s names) \<and>
     keeps names (take_seed_lock R) \<and> (\<forall>b. keeps names (drop_seed_lock R b))"

subsection \<open>Seeders and the tracking table\<close>

lemma seeder_tracksD:
  assumes "seeder_tracks R names"
  shows "trackExecution R" "keeps names (ensureSeedTable R)" "keeps names (getExecutedSeeds R)"
    and "getExecutedSeeds R w = (Inr xs, w') \<Longrightarrow> xs = names w"
    and "recordSeed R n w = (Inr u, w') \<Longrightarrow> names w' = names w @ [n]"
    and "recordSeed R n w = (Inl e, w') \<Longrightarrow> names w' = names w"
proof -
  obtain d where d: "getDriver (em R) = Some d"
    using assms by (auto simp: seeder_tracks_def split: option.splits)
  have my: "isMySql R = io_return (isMySqlFamily d)"
    using d by (simp add: isMySql_def)
  note laws = assms [unfolded seeder_tracks_def d, simplified, unfolded tracking_laws_def Let_def]
  show "trackExecution R" using laws by blast
  show "keeps names (ensureSeedTable R)" "keeps names (getExecutedSeeds R)"
    using laws by (auto simp: ensureSeedTable_def seed_dialect_def quotedTableName_def getExecutedSeeds_def my io_bind_def
        io_return_def io_void_def io_then_def keeps_def split: prod.splits sum.splits) (metis snd_conv)+
  show "getExecutedSeeds R w = (Inr xs, w') \<Longrightarrow> xs = names w"
    using laws by (auto simp: getExecutedSeeds_def my io_Inr_iffs)
  show "recordSeed R n w = (Inr u, w') \<Longrightarrow> names w' = names w @ [n]"
    "recordSeed R n w = (Inl e, w') \<Longrightarrow> names w' = names w"
    using laws by (auto simp: recordSeed_def my io_void_def io_defs split: prod.splits sum.splits)
qed

lemma executeSeeder_tracked:
  assumes "seeder_ok R s names" "executeSeeder R s w = (q, w')"
  shows "names w' \<in> {names w, names w @ [s_name s]} \<and>
    (\<exists>r. q = Inr r \<and> result_name r = s_name s \<and> (success r \<longrightarrow> names w' = names w @ [s_name s]))"
proof -
  have tr: "seeder_tracks R names" and run: "keeps names (s_run s (em R))"
    using assms(1) by (auto simp: seeder_ok_def)
  obtain a w1 where a: "s_run s (em R) w = (a, w1)" by (metis surj_pair)
  obtain t w2 where t: "recordSeed R (s_name s) w1 = (t, w2)" by (metis surj_pair)
  have 1: "names w1 = names w" using keepsD [OF run a] .
  have 2: "names w2 = (if isl t then names w1 else names w1 @ [s_name s])"
    using seeder_tracksD(5,6) [OF tr, of "s_name s" w1] t by (cases t) auto
  show ?thesis
    using assms(2) a t 1 2 seeder_tracksD(1) [OF tr]
    by (cases a; cases t) (auto simp: executeSeeder_def seed_and_track_def io_defs seeded_def seed_failed_def)
qed

interpretation seeding: tracked_units seeder_ok executeSeeder "\<lambda>s xs. xs @ [s_name s]" s_name
proof (unfold_locales, goal_cases)
  case (1 R s names w r w')
  then show ?case using executeSeeder_tracked [of R s names w "Inr r" w'] by simp
next
  case (2 R s names w q w')
  then show ?case using executeSeeder_tracked [of R s names w q w'] by blast
next
  case (3 R s names w r w')
  then show ?case using executeSeeder_tracked [of R s names w "Inr r" w'] by simp
qed

lemma fold_snoc_seeds: "fold (\<lambda>s xs. xs @ [f s]) ss ys = ys @ map f ss"
  by (induction ss arbitrary: ys) auto

lemma seed_runAll_cases:
  assumes "seeder_runner_ok R names" "seed_runAll R w = (Inr rs, w')"
  shows "\<exists>w1 w2. names w1 = names w \<and> names w' = names w2 \<and>
    run_until_failure (executeSeeder R) (pending_seeders R (names w)) w1 = (Inr rs, w2)"
proof -
  note ok = assms(1) [unfolded seeder_runner_ok_def]
  have tr: "seeder_tracks R names" using ok by blast
  obtain u w1 b w2 xs w3 w4 v where steps:
    "ensureSeedTable R w = (Inr u, w1)" "take_seed_lock R w1 = (Inr b, w2)"
    "getExecutedSeeds R w2 = (Inr xs, w3)"
    "run_until_failure (executeSeeder R) (pending_seeders R xs) w3 = (Inr rs, w4)"
    "drop_seed_lock R b w4 = (Inr v, w')"
    using assms(2) seeder_tracksD(1) [OF tr]
    by (auto simp: seed_runAll_def ensure_if_tracking_def executed_if_tracking_def io_Inr_iffs)
  have "names w1 = names w" "names w3 = names w2" "xs = names w2"
    using seeder_tracksD(2-4) [OF tr] steps(1,3) by (auto dest: keepsD)
  moreover have "names w2 = names w1" "names w' = names w4"
    using ok steps(2,5) by (auto dest: keepsD)
  ultimately show ?thesis using steps(4) by (intro exI [of _ w3] exI [of _ w4]) simp
qed

lemma pending_seeders_ok: "seeder_runner_ok R names \<Longrightarrow> s \<in> set (pending_seeders R xs) \<Longrightarrow> seeder_ok R s names"
  by (auto simp: seeder_runner_ok_def pending_seeders_def)

text \<open>A tracked run executes the pending seeders in registration order up to the first failure and
  records each success; run again after a run without failures, it executes none and changes nothing in
  the table.\<close>
theorem seeders_run_once:
  assumes "seeder_runner_ok R names" "seed_runAll R w = (Inr rs, w')"
  shows "map result_name rs = take (length rs) (map s_name (pending_seeders R (names w))) \<and>
    (\<forall>r\<in>set (butlast rs). success r) \<and>
    (length rs < length (pending_seeders R (names w)) \<longrightarrow> rs \<noteq> [] \<and> \<not> success (last rs)) \<and>
    ((\<forall>r\<in>set rs. success r) \<longrightarrow>
       names w' = names w @ map s_name (pending_seeders R (names w)) \<and>
       (\<forall>rs' w''. seed_runAll R w' = (Inr rs', w'') \<longrightarrow> rs' = [] \<and> names w'' = names w'))"
proof -
  let ?ss = "pending_seeders R (names w)"
  obtain w1 w2 where w: "names w1 = names w" "names w' = names w2"
    "run_until_failure (executeSeeder R) ?ss w1 = (Inr rs, w2)"
    using seed_runAll_cases [OF assms] by blast
  have ok: "\<And>s. s \<in> set ?ss \<Longrightarrow> seeder_ok R s names"
    using pending_seeders_ok [OF assms(1)] by blast
  have again: "rs' = [] \<and> names w'' = names w'"
    if "names w' = names w @ map s_name ?ss" "seed_runAll R w' = (Inr rs', w'')" for rs' w''
  proof -
    have "pending_seeders R (names w') = []"
      by (auto simp: that(1) pending_seeders_def filter_empty_conv)
    then show ?thesis using seed_runAll_cases [OF assms(1) that(2)] by (auto simp: io_Inr_iffs)
  qed
  have "\<forall>r\<in>set rs. success r \<Longrightarrow> names w' = names w @ map s_name ?ss"
    using seeding.run_table_success [OF ok w(3)] w(1,2) by (simp add: fold_snoc_seeds)
  then show ?thesis
    using seeding.run_names [OF ok w(3)] seeding.run_prefix [OF w(3)] again by blast
qed

text \<open>A table that reads the statements of the PostgreSQL branch, for the witness.\<close>
definition seed_db :: "string \<Rightarrow> (string list, thrown, query_result) io" where
  "seed_db sql = (\<lambda>rows.
     if hd sql = CHR ''S'' then (Inr (Row_Array rows), rows)
     else if hd sql = CHR ''I'' then
       (case read_standard (drop 40 sql) of
          None \<Rightarrow> (Inl (Error_Object None ''syntax error''), rows)
        | Some (n, _) \<Rightarrow> (Inr Falsy, rows @ [n]))
     else if hd sql = CHR ''D'' then
       (case read_standard (drop 38 sql) of
          None \<Rightarrow> (Inl (Error_Object None ''syntax error''), rows)
        | Some (n, _) \<Rightarrow> (Inr Falsy, filter (\<lambda>x. x \<noteq> n) rows))
     else (Inr Falsy, rows))"

definition three_seeders :: "(string list) seeder_runner" where
  "three_seeders = newSeederRunner
     [\<lparr>s_name = ''A'', s_run = (\<lambda>_. io_return ()), s_revert = None\<rparr>,
      \<lparr>s_name = ''B'', s_run = (\<lambda>_. io_return ()), s_revert = None\<rparr>,
      \<lparr>s_name = ''C'', s_run = (\<lambda>_. io_return ()), s_revert = None\<rparr>]
     \<lparr>getDriver = Some \<lparr>isMySqlFamily = False, seed_acquire = None, seed_release = None\<rparr>, ctx_getDialect = None\<rparr>
     seed_db None None"

lemma three_seeders_texts:
  "hd (seed_ensure_sql Postgres (quoted_table three_seeders False)) = CHR ''C''"
  "hd (seed_select_sql three_seeders False) = CHR ''S''"
  "hd (seed_record_sql three_seeders False n) = CHR ''I''"
  "hd (seed_remove_sql three_seeders False n) = CHR ''D''"
  "drop 40 (seed_record_sql three_seeders False n) = double_char CHR 0x27 n @ CHR 0x27 # '')''"
  "drop 38 (seed_remove_sql three_seeders False n) = double_char CHR 0x27 n @ CHR 0x27 # []"
  by (simp_all add: seed_ensure_sql_def seed_select_sql_def seed_record_sql_def seed_remove_sql_def quoted_table_def
      quoted_def Let_def three_seeders_def newSeederRunner_def)

lemma three_seeders_ok: "seeder_runner_ok three_seeders (\<lambda>rows. rows)"
proof -
  have q: "seed_query three_seeders = seed_db"
    and d: "em three_seeders = \<lparr>getDriver = Some \<lparr>isMySqlFamily = False, seed_acquire = None, seed_release = None\<rparr>, ctx_getDialect = None\<rparr>"
    and t: "trackExecution three_seeders"
    and s: "s \<in> set (seeders three_seeders) \<Longrightarrow> s_run s e = io_return ()" for s e
    by (auto simp: three_seeders_def newSeederRunner_def)
  have "seeder_tracks three_seeders (\<lambda>rows. rows)"
    unfolding seeder_tracks_def tracking_laws_def
    by (simp add: q d t seed_db_def three_seeders_texts read_standard_double keeps_def)
  then show ?thesis
    by (auto simp: seeder_runner_ok_def seeder_ok_def s take_seed_lock_def drop_seed_lock_def d t split: bool.split)
qed

theorem seeders_run_once_witness:
  "seed_runAll three_seeders [''B''] = (Inr [seeded Run ''A'', seeded Run ''C''], [''B'', ''A'', ''C'']) \<and>
   map result_name [seeded Run ''A'', seeded Run ''C''] = map s_name (pending_seeders three_seeders [''B'']) \<and>
   seed_runAll three_seeders [''B'', ''A'', ''C''] = (Inr [], [''B'', ''A'', ''C''])"
proof -
  have 1: "seed_runAll three_seeders [''B''] = (Inr [seeded Run ''A'', seeded Run ''C''], [''B'', ''A'', ''C''])"
    by code_simp
  have 2: "map s_name (pending_seeders three_seeders [''B'']) = [''A'', ''C'']" by code_simp
  have 3: "seed_runAll three_seeders [''B'', ''A'', ''C''] = (Inr [], [''B'', ''A'', ''C''])" by code_simp
  from seeders_run_once [OF three_seeders_ok 1, unfolded 2] 1 3 show ?thesis by (simp add: seeded_def 2)
qed

end
