(* ===== verification/QueryTracker.thy ===== *)
theory QueryTracker
  imports Prelude
begin

section \<open>Query log and N+1 detection (src/core/QueryTracker.ts)\<close>

text \<open>
  \<^verbatim>\<open>QueryTracker\<close> keeps the recent queries, in a circular buffer of \<^verbatim>\<open>maxLogEntries\<close> slots or, without a
  limit, in a plain array; it warns about slow queries and about an entity queried too often within a
  window, and counts the queries in flight. The record \<open>tracker\<close> has the fields of the class. The
  clock is an argument of the operations that read it. Listeners are identified by a value; an
  operation that emits returns the calls of the listeners in order. A listener that throws is caught
  and logged, so it does not change what follows; console output is left out. The limit is an
  integer or not a finite number.
\<close>

subsection \<open>State\<close>

record entry =
  entityName :: string
  sql :: string
  durationMs :: int
  timestamp :: int

datatype log_limit = Finite_Limit int | Not_Finite

datatype event = SlowQuery | NPlusOne

text \<open>A listener as registered: the caller's own, or the wrapper made by one call of \<^verbatim>\<open>once\<close>.\<close>
datatype 'l listener = Listener 'l | Once nat 'l

datatype payload = Slow_Payload entry | NPlusOne_Payload string "entry list"

record 'l tracker =
  buffer :: "entry option list"
  head :: nat
  used :: nat
  unboundedLog :: "entry list"
  unbounded :: bool
  windowMs :: int
  threshold :: int
  slowQueryMs :: "int option"
  maxLogEntries :: log_limit
  enabled :: bool
  ttlMs :: int
  warned :: "string list"
  activeQueryCount :: nat
  listeners :: "(event \<times> 'l listener list) list"
  wrappers :: nat

record tracker_options =
  opt_windowMs :: "int option"
  opt_threshold :: "int option"
  opt_slowQueryMs :: "int option"
  opt_maxLogEntries :: "log_limit option"
  opt_enabled :: "bool option"
  opt_ttlMs :: "int option"

fun is_unbounded :: "log_limit \<Rightarrow> bool" where
  "is_unbounded (Finite_Limit n) = (n \<le> 0)"
| "is_unbounded Not_Finite = True"

fun capacity :: "log_limit \<Rightarrow> nat" where
  "capacity (Finite_Limit n) = nat n"
| "capacity Not_Finite = 0"

definition or_default :: "'a \<Rightarrow> 'a option \<Rightarrow> 'a" where
  "or_default d v = (case v of None \<Rightarrow> d | Some x \<Rightarrow> x)"

definition newTracker :: "tracker_options \<Rightarrow> 'l tracker" where
  "newTracker opts = (let limit = or_default (Finite_Limit 1000) (opt_maxLogEntries opts) in
     \<lparr>buffer = (if is_unbounded limit then [] else replicate (capacity limit) None), head = 0, used = 0,
      unboundedLog = [], unbounded = is_unbounded limit, windowMs = or_default 100 (opt_windowMs opts),
      threshold = or_default 10 (opt_threshold opts), slowQueryMs = opt_slowQueryMs opts, maxLogEntries = limit,
      enabled = or_default True (opt_enabled opts), ttlMs = or_default 0 (opt_ttlMs opts), warned = [],
      activeQueryCount = 0, listeners = [], wrappers = 0\<rparr>)"

subsection \<open>Listeners\<close>

definition listeners_of :: "'l tracker \<Rightarrow> event \<Rightarrow> 'l listener list" where
  "listeners_of t ev = or_default [] (jm_get (listeners t) ev)"

definition on_listener :: "event \<Rightarrow> 'l listener \<Rightarrow> 'l tracker \<Rightarrow> 'l tracker" where
  "on_listener ev l t = t\<lparr>listeners := jm_set ev (listeners_of t ev @ [l]) (listeners t)\<rparr>"

definition off_listener :: "event \<Rightarrow> 'l listener \<Rightarrow> 'l tracker \<Rightarrow> 'l tracker" where
  "off_listener ev l t = (case jm_get (listeners t) ev of
     None \<Rightarrow> t
   | Some arr \<Rightarrow> t\<lparr>listeners := jm_set ev (remove1 l arr) (listeners t)\<rparr>)"

definition once_listener :: "event \<Rightarrow> 'l \<Rightarrow> 'l tracker \<Rightarrow> 'l tracker" where
  "once_listener ev l t = on_listener ev (Once (wrappers t) l) (t\<lparr>wrappers := wrappers t + 1\<rparr>)"

definition removeAllListeners :: "event option \<Rightarrow> 'l tracker \<Rightarrow> 'l tracker" where
  "removeAllListeners ev t = (case ev of
     Some e \<Rightarrow> t\<lparr>listeners := jm_delete e (listeners t)\<rparr>
   | None \<Rightarrow> t\<lparr>listeners := []\<rparr>)"

text \<open>The loop of \<^verbatim>\<open>emit\<close> over a copy of the list; a wrapper removes itself before it calls its listener.\<close>
fun emit_loop :: "event \<Rightarrow> payload \<Rightarrow> 'l listener list \<Rightarrow> 'l tracker \<Rightarrow> ('l \<times> payload) list \<times> 'l tracker" where
  "emit_loop ev p [] t = ([], t)"
| "emit_loop ev p (Listener l # ls) t = (case emit_loop ev p ls t of (calls, t') \<Rightarrow> ((l, p) # calls, t'))"
| "emit_loop ev p (Once n l # ls) t =
     (case emit_loop ev p ls (off_listener ev (Once n l) t) of (calls, t') \<Rightarrow> ((l, p) # calls, t'))"

definition emit :: "event \<Rightarrow> payload \<Rightarrow> 'l tracker \<Rightarrow> ('l \<times> payload) list \<times> 'l tracker" where
  "emit ev p t = emit_loop ev p (listeners_of t ev) t"

subsection \<open>The log\<close>

definition slot :: "'l tracker \<Rightarrow> nat \<Rightarrow> nat" where
  "slot t i = (head t + i) mod capacity (maxLogEntries t)"

text \<open>A slot read with the non-null assertion; it is filled for every position below \<open>used\<close>.\<close>
definition entry_at :: "'l tracker \<Rightarrow> nat \<Rightarrow> entry" where
  "entry_at t i = (case buffer t ! slot t i of Some e \<Rightarrow> e
     | None \<Rightarrow> \<lparr>entityName = [], sql = [], durationMs = 0, timestamp = 0\<rparr>)"

definition getLog :: "'l tracker \<Rightarrow> entry list" where
  "getLog t = (if unbounded t then unboundedLog t else map (entry_at t) [0..<used t])"

text \<open>The \<^verbatim>\<open>while\<close> loop of \<^verbatim>\<open>evictExpired\<close> on the circular buffer: only the head moves.\<close>
fun evict_loop :: "nat \<Rightarrow> int \<Rightarrow> 'l tracker \<Rightarrow> 'l tracker" where
  "evict_loop 0 cutoff t = t"
| "evict_loop (Suc n) cutoff t = (case buffer t ! head t of
     Some e \<Rightarrow> if timestamp e < cutoff
       then evict_loop n cutoff (t\<lparr>head := (head t + 1) mod capacity (maxLogEntries t), used := n\<rparr>)
       else t
   | None \<Rightarrow> t)"

definition evictExpired :: "int \<Rightarrow> 'l tracker \<Rightarrow> 'l tracker" where
  "evictExpired now t = (let cutoff = now - ttlMs t in
     if unbounded t
     then (let removeCount = length (takeWhile (\<lambda>e. timestamp e < cutoff) (unboundedLog t)) in
           if removeCount > 0 then t\<lparr>unboundedLog := drop removeCount (unboundedLog t)\<rparr> else t)
     else evict_loop (used t) cutoff t)"

definition insert_entry :: "entry \<Rightarrow> 'l tracker \<Rightarrow> 'l tracker" where
  "insert_entry e t = (if unbounded t then t\<lparr>unboundedLog := unboundedLog t @ [e]\<rparr>
     else (let cap = capacity (maxLogEntries t); t' = t\<lparr>buffer := (buffer t)[(head t + used t) mod cap := Some e]\<rparr> in
       if used t < cap then t'\<lparr>used := used t + 1\<rparr> else t'\<lparr>head := (head t + 1) mod cap\<rparr>))"

subsection \<open>Detection\<close>

text \<open>The scan from the newest entry back: it stops at the first entry before the window.\<close>
fun scan_back :: "string \<Rightarrow> int \<Rightarrow> entry list \<Rightarrow> entry list" where
  "scan_back name start [] = []"
| "scan_back name start (e # es) = (if timestamp e < start then []
     else if entityName e = name then e # scan_back name start es else scan_back name start es)"

definition newest_first :: "'l tracker \<Rightarrow> entry list" where
  "newest_first t = (if unbounded t then rev (unboundedLog t) else map (entry_at t) (rev [0..<used t]))"

definition detectNPlusOne :: "string \<Rightarrow> int \<Rightarrow> 'l tracker \<Rightarrow> ('l \<times> payload) list \<times> 'l tracker" where
  "detectNPlusOne name now t = (if name \<in> set (warned t) then ([], t)
     else (let samples = scan_back name (now - windowMs t) (newest_first t) in
       if int (length samples) \<ge> threshold t
       then emit NPlusOne (NPlusOne_Payload name (rev samples)) (t\<lparr>warned := js_add name (warned t)\<rparr>)
       else ([], t)))"

definition report_slow :: "entry \<Rightarrow> 'l tracker \<Rightarrow> ('l \<times> payload) list \<times> 'l tracker" where
  "report_slow e t = (case slowQueryMs t of
     Some limit \<Rightarrow> if durationMs e > limit then emit SlowQuery (Slow_Payload e) t else ([], t)
   | None \<Rightarrow> ([], t))"

text \<open>The log after the eviction and the insertion of one call of \<^verbatim>\<open>track\<close>.\<close>
definition log_entry :: "int \<Rightarrow> entry \<Rightarrow> 'l tracker \<Rightarrow> 'l tracker" where
  "log_entry now e t = insert_entry e (if ttlMs t > 0 then evictExpired now t else t)"

definition track :: "int \<Rightarrow> string \<Rightarrow> string \<Rightarrow> int \<Rightarrow> 'l tracker \<Rightarrow> ('l \<times> payload) list \<times> 'l tracker" where
  "track now name sqlText duration t = (if \<not> enabled t then ([], t)
     else (let e = \<lparr>entityName = name, sql = sqlText, durationMs = duration, timestamp = now\<rparr> in
       case report_slow e (log_entry now e t) of (slow, t') \<Rightarrow>
       (case detectNPlusOne name now t' of (warnings, t'') \<Rightarrow> (slow @ warnings, t''))))"

definition reset_log :: "'l tracker \<Rightarrow> 'l tracker" where
  "reset_log t = (if unbounded t then t\<lparr>unboundedLog := [], warned := []\<rparr> else t\<lparr>head := 0, used := 0, warned := []\<rparr>)"

subsection \<open>Queries in flight\<close>

definition beginQuery :: "'l tracker \<Rightarrow> 'l tracker" where
  "beginQuery t = t\<lparr>activeQueryCount := activeQueryCount t + 1\<rparr>"

definition endQuery :: "'l tracker \<Rightarrow> 'l tracker" where
  "endQuery t = (if activeQueryCount t > 0 then t\<lparr>activeQueryCount := activeQueryCount t - 1\<rparr> else t)"

text \<open>
  \<^verbatim>\<open>waitForQueries\<close>: the check, repeated by a timer. \<open>clock k\<close> and \<open>count k\<close> are what the \<open>k\<close>-th check
  reads; the first argument bounds the number of checks, and the result is \<open>None\<close> when they are used up.
\<close>
fun poll :: "nat \<Rightarrow> (nat \<Rightarrow> int) \<Rightarrow> (nat \<Rightarrow> nat) \<Rightarrow> int \<Rightarrow> int \<Rightarrow> nat \<Rightarrow> bool option" where
  "poll 0 clock count start timeout k = None"
| "poll (Suc fuel) clock count start timeout k =
     (if count k = 0 then Some True
      else if clock k - start \<ge> timeout then Some False
      else poll fuel clock count start timeout (k + 1))"

definition waitForQueries :: "nat \<Rightarrow> int \<Rightarrow> (nat \<Rightarrow> int) \<Rightarrow> (nat \<Rightarrow> nat) \<Rightarrow> int \<Rightarrow> 'l tracker \<Rightarrow> bool option" where
  "waitForQueries fuel timeout clock count start t =
     (if activeQueryCount t = 0 then Some True else poll fuel clock count start timeout 0)"

subsection \<open>The buffer stands for a list\<close>

definition tracker_wf :: "'l tracker \<Rightarrow> bool" where
  "tracker_wf t \<longleftrightarrow> unbounded t = is_unbounded (maxLogEntries t) \<and>
     (\<not> unbounded t \<longrightarrow> length (buffer t) = capacity (maxLogEntries t) \<and> head t < capacity (maxLogEntries t) \<and>
        used t \<le> capacity (maxLogEntries t) \<and> (\<forall>i<used t. buffer t ! slot t i \<noteq> None))"

text \<open>The newest \<open>n\<close> elements.\<close>
definition take_last :: "nat \<Rightarrow> 'a list \<Rightarrow> 'a list" where
  "take_last n xs = drop (length xs - n) xs"

text \<open>What one call of \<open>track\<close> does to the log, as a list: expired entries go, the new one comes last, and
  of a bounded log only the newest entries stay.\<close>
definition log_spec :: "'l tracker \<Rightarrow> int \<Rightarrow> entry \<Rightarrow> entry list \<Rightarrow> entry list" where
  "log_spec t now e xs =
     (let kept = (if ttlMs t > 0 then dropWhile (\<lambda>x. timestamp x < now - ttlMs t) xs else xs) in
      if is_unbounded (maxLogEntries t) then kept @ [e] else take_last (capacity (maxLogEntries t)) (kept @ [e]))"

lemma mod_add_inj:
  assumes "(a + i) mod n = (a + j) mod n" "i < n" "j < n"
  shows "i = (j::nat)"
proof -
  have wlog: "i = j" if "i \<le> j" "(a + i) mod n = (a + j) mod n" "j < n" for i j
  proof -
    have "n dvd (a + j) - (a + i)"
      using that by (subst mod_eq_dvd_iff_nat [symmetric]) auto
    then show ?thesis using that by (auto dest: dvd_imp_le)
  qed
  show ?thesis using wlog [of i j] wlog [of j i] assms by (cases "i \<le> j") auto
qed

lemma insert_bounded:
  assumes wf: "tracker_wf t" and b: "\<not> unbounded t"
  shows "tracker_wf (insert_entry e t) \<and>
    getLog (insert_entry e t) = take_last (capacity (maxLogEntries t)) (getLog t @ [e])"
proof -
  define cap where "cap = capacity (maxLogEntries t)"
  have w: "length (buffer t) = cap" "head t < cap" "used t \<le> cap" "\<And>i. i < used t \<Longrightarrow> buffer t ! slot t i \<noteq> None"
    using wf b by (auto simp: tracker_wf_def cap_def)
  have cap: "0 < cap" using w(2) by simp
  have slot: "slot t i = (head t + i) mod cap" for i by (simp add: slot_def cap_def)
  have log: "getLog t = map (entry_at t) [0..<used t]" using b by (simp add: getLog_def)
  let ?t = "insert_entry e t"
  show ?thesis
  proof (cases "used t < cap")
    case True
    have t: "?t = t\<lparr>buffer := (buffer t)[slot t (used t) := Some e], used := used t + 1\<rparr>"
      using True b by (simp add: insert_entry_def Let_def slot cap_def)
    have other: "slot t i \<noteq> slot t (used t)" if "i < used t" for i
      using mod_add_inj [of "head t" i cap "used t"] that True by (auto simp: slot)
    have buf: "buffer ?t ! slot t i = (if i = used t then Some e else buffer t ! slot t i)" if "i \<le> used t" for i
      using that other [of i] w(1) cap by (auto simp: t slot nth_list_update)
    have sl: "slot ?t = slot t" by (auto simp: t slot_def)
    have "entry_at ?t i = (if i = used t then e else entry_at t i)" if "i \<le> used t" for i
      using buf [OF that] by (simp add: entry_at_def sl)
    then have "getLog ?t = getLog t @ [e]"
      using b by (simp add: getLog_def t)
    moreover have "tracker_wf ?t"
      using wf b w True buf by (auto simp: tracker_wf_def t slot_def cap_def less_Suc_eq_le)
    ultimately show ?thesis
      using True b by (simp add: take_last_def log cap_def)
  next
    case False
    then have full: "used t = cap" using w(3) by simp
    have s0: "(head t + used t) mod cap = head t" using full w(2) by simp
    have t: "?t = t\<lparr>buffer := (buffer t)[head t := Some e], head := (head t + 1) mod cap\<rparr>"
      using False b s0 by (simp add: insert_entry_def Let_def cap_def)
    have sl: "slot ?t i = slot t (i + 1)" for i
      by (simp add: t slot_def cap_def mod_add_left_eq)
    have other: "slot t (i + 1) \<noteq> head t" if "i + 1 < cap" for i
      using mod_add_inj [of "head t" "i + 1" cap 0] that w(2) by (auto simp: slot)
    have last: "slot t cap = head t" using w(2) by (simp add: slot)
    have buf: "buffer ?t ! slot ?t i = (if i + 1 = cap then Some e else buffer t ! slot t (i + 1))" if "i < cap" for i
    proof -
      have "buffer ?t = (buffer t)[head t := Some e]" by (simp add: t)
      then show ?thesis unfolding sl using that other [of i] w(1,2) last by (auto simp: nth_list_update)
    qed
    have at: "entry_at ?t i = (if i + 1 = cap then e else entry_at t (i + 1))" if "i < cap" for i
      using buf [OF that] by (simp add: entry_at_def sl)
    obtain c where c: "cap = Suc c" using cap by (cases cap) auto
    have "getLog ?t = map (entry_at ?t) [0..<Suc c]"
      using b full c by (simp add: getLog_def t)
    also have "\<dots> = map (\<lambda>i. entry_at t (i + 1)) [0..<c] @ [e]"
      using at c by simp
    also have "map (\<lambda>i. entry_at t (i + 1)) [0..<c] = drop 1 (getLog t)"
      using full c by (simp add: log upt_conv_Cons map_Suc_upt [symmetric] del: upt_Suc)
    finally have "getLog ?t = drop 1 (getLog t) @ [e]" .
    moreover have "tracker_wf ?t"
    proof -
      have "buffer ?t ! slot ?t i \<noteq> None" if "i < cap" for i
        using buf [OF that] w(4) [of "i + 1"] that full by auto
      moreover have "unbounded ?t = unbounded t" "maxLogEntries ?t = maxLogEntries t" "used ?t = used t"
        "length (buffer ?t) = cap" "head ?t < cap"
        using w(1) cap by (simp_all add: t)
      ultimately show ?thesis using wf b full by (simp add: tracker_wf_def cap_def)
    qed
    moreover have "length (getLog t) = cap" using full by (simp add: log)
    ultimately show ?thesis using cap by (simp add: take_last_def cap_def)
  qed
qed

lemma insert_refines:
  assumes "tracker_wf t"
  shows "tracker_wf (insert_entry e t) \<and> getLog (insert_entry e t) =
    (if is_unbounded (maxLogEntries t) then getLog t @ [e] else take_last (capacity (maxLogEntries t)) (getLog t @ [e]))"
proof (cases "unbounded t")
  case True
  then show ?thesis using assms by (auto simp: insert_entry_def tracker_wf_def getLog_def)
next
  case False
  then show ?thesis using insert_bounded [OF assms False] assms by (auto simp: tracker_wf_def)
qed

lemma evict_loop_refines:
  assumes "tracker_wf t" "\<not> unbounded t" "used t = n"
  shows "tracker_wf (evict_loop n cutoff t) \<and>
    getLog (evict_loop n cutoff t) = dropWhile (\<lambda>e. timestamp e < cutoff) (getLog t)"
  using assms
proof (induction n cutoff t rule: evict_loop.induct)
  case (1 cutoff t)
  then show ?case by (simp add: getLog_def)
next
  case (2 n cutoff t)
  let ?cap = "capacity (maxLogEntries t)" and ?t = "t\<lparr>head := Suc (head t) mod capacity (maxLogEntries t), used := n\<rparr>"
  have w: "length (buffer t) = ?cap" "head t < ?cap" "used t \<le> ?cap" "\<And>i. i < used t \<Longrightarrow> buffer t ! slot t i \<noteq> None"
    using "2.prems" by (auto simp: tracker_wf_def)
  have s0: "slot t 0 = head t" using w(2) by (simp add: slot_def)
  obtain e where e: "buffer t ! head t = Some e" using w(4) [of 0] "2.prems"(3) s0 by auto
  have sl: "slot ?t i = slot t (Suc i)" for i
    by (simp add: slot_def mod_add_left_eq [of "Suc (head t)" _ i, simplified])
  have at: "entry_at ?t i = entry_at t (Suc i)" for i unfolding entry_at_def sl by simp
  have "getLog t = entry_at t 0 # map (\<lambda>i. entry_at t (Suc i)) [0..<n]"
    using "2.prems"(2,3) by (simp add: getLog_def upt_conv_Cons map_Suc_upt [symmetric] del: upt_Suc)
  then have log: "getLog t = e # getLog ?t"
    using "2.prems"(2) by (simp add: getLog_def at) (simp add: entry_at_def s0 e)
  have wf: "tracker_wf ?t"
    using "2.prems" w sl by (auto simp: tracker_wf_def)
  show ?case
  proof (cases "timestamp e < cutoff")
    case True
    then show ?thesis using "2.IH" [OF e True] wf "2.prems"(2) e log by simp
  next
    case False
    then show ?thesis using "2.prems"(1) e log by simp
  qed
qed

lemma evict_refines:
  assumes "tracker_wf t"
  shows "tracker_wf (evictExpired now t) \<and>
    getLog (evictExpired now t) = dropWhile (\<lambda>e. timestamp e < now - ttlMs t) (getLog t)"
proof (cases "unbounded t")
  case True
  then show ?thesis
    using assms by (auto simp: evictExpired_def Let_def tracker_wf_def getLog_def dropWhile_eq_drop)
next
  case False
  then show ?thesis using evict_loop_refines [OF assms False refl] by (simp add: evictExpired_def)
qed

lemma evict_loop_fields [simp]:
  "maxLogEntries (evict_loop n c t) = maxLogEntries t" "warned (evict_loop n c t) = warned t"
  "windowMs (evict_loop n c t) = windowMs t" "threshold (evict_loop n c t) = threshold t"
  "listeners (evict_loop n c t) = listeners t" "slowQueryMs (evict_loop n c t) = slowQueryMs t"
  "unbounded (evict_loop n c t) = unbounded t"
  by (induction n c t rule: evict_loop.induct) (auto split: option.splits)

lemma log_entry_fields [simp]:
  "maxLogEntries (log_entry now e t) = maxLogEntries t" "warned (log_entry now e t) = warned t"
  "windowMs (log_entry now e t) = windowMs t" "threshold (log_entry now e t) = threshold t"
  "listeners (log_entry now e t) = listeners t" "slowQueryMs (log_entry now e t) = slowQueryMs t"
  "unbounded (log_entry now e t) = unbounded t"
  by (auto simp: log_entry_def insert_entry_def evictExpired_def Let_def)

lemma log_entry_refines:
  assumes "tracker_wf t"
  shows "tracker_wf (log_entry now e t) \<and> getLog (log_entry now e t) = log_spec t now e (getLog t)"
proof -
  have m: "maxLogEntries (evictExpired now t) = maxLogEntries t"
    by (simp add: evictExpired_def Let_def)
  show ?thesis
    using insert_refines [of "evictExpired now t" e] insert_refines [of t e] evict_refines [of t now] assms
    by (auto simp: log_entry_def log_spec_def m)
qed

subsection \<open>Events\<close>

fun target :: "'l listener \<Rightarrow> 'l" where
  "target (Listener l) = l"
| "target (Once n l) = l"

text \<open>An emission calls every registered listener once, in order, and changes the listeners of that event only.\<close>
lemma emit_loop_calls:
  "fst (emit_loop ev p ls t) = map (\<lambda>l. (target l, p)) ls \<and>
   (\<exists>L. snd (emit_loop ev p ls t) = t\<lparr>listeners := L\<rparr> \<and> (\<forall>ev'. ev' \<noteq> ev \<longrightarrow> jm_get L ev' = jm_get (listeners t) ev'))"
proof (induction ev p ls t rule: emit_loop.induct)
  case (1 ev p t)
  show ?case by (auto intro: exI [of _ "listeners t"])
next
  case (2 ev p l ls t)
  then show ?case by (auto split: prod.splits)
next
  case (3 ev p n l ls t)
  obtain L where L: "off_listener ev (Once n l) t = t\<lparr>listeners := L\<rparr>"
    "\<forall>ev'. ev' \<noteq> ev \<longrightarrow> jm_get L ev' = jm_get (listeners t) ev'"
  proof (cases "jm_get (listeners t) ev")
    case None
    then show ?thesis using that [of "listeners t"] by (simp add: off_listener_def)
  next
    case (Some arr)
    then show ?thesis using that [of "jm_set ev (remove1 (Once n l) arr) (listeners t)"]
      by (simp add: off_listener_def js_simps)
  qed
  then show ?case using 3 by (auto split: prod.splits)
qed

lemma emit_calls: "fst (emit ev p t) = map (\<lambda>l. (target l, p)) (listeners_of t ev)"
  using emit_loop_calls [of ev p "listeners_of t ev" t] by (simp add: emit_def)

lemma listeners_irrelevant [simp]:
  "getLog (t\<lparr>listeners := L\<rparr>) = getLog t" "tracker_wf (t\<lparr>listeners := L\<rparr>) = tracker_wf t"
  "getLog (t\<lparr>warned := W\<rparr>) = getLog t" "tracker_wf (t\<lparr>warned := W\<rparr>) = tracker_wf t"
  by (auto simp: getLog_def tracker_wf_def entry_at_def slot_def)

lemma emit_keeps [simp]:
  "getLog (snd (emit ev p t)) = getLog t" "tracker_wf (snd (emit ev p t)) = tracker_wf t"
  "warned (snd (emit ev p t)) = warned t" "windowMs (snd (emit ev p t)) = windowMs t"
  "threshold (snd (emit ev p t)) = threshold t"
  "ev' \<noteq> ev \<Longrightarrow> listeners_of (snd (emit ev p t)) ev' = listeners_of t ev'"
proof -
  obtain L where L: "snd (emit ev p t) = t\<lparr>listeners := L\<rparr>" "\<forall>ev'. ev' \<noteq> ev \<longrightarrow> jm_get L ev' = jm_get (listeners t) ev'"
    using emit_loop_calls [of ev p "listeners_of t ev" t] by (auto simp: emit_def)
  then show "getLog (snd (emit ev p t)) = getLog t" "tracker_wf (snd (emit ev p t)) = tracker_wf t"
    "warned (snd (emit ev p t)) = warned t" "windowMs (snd (emit ev p t)) = windowMs t"
    "threshold (snd (emit ev p t)) = threshold t"
    "ev' \<noteq> ev \<Longrightarrow> listeners_of (snd (emit ev p t)) ev' = listeners_of t ev'"
    by (simp_all add: listeners_of_def)
qed

lemma report_slow_keeps [simp]:
  "getLog (snd (report_slow e t)) = getLog t" "tracker_wf (snd (report_slow e t)) = tracker_wf t"
  "warned (snd (report_slow e t)) = warned t" "windowMs (snd (report_slow e t)) = windowMs t"
  "threshold (snd (report_slow e t)) = threshold t"
  "listeners_of (snd (report_slow e t)) NPlusOne = listeners_of t NPlusOne"
  by (simp_all add: report_slow_def split: option.split)

lemma detect_keeps [simp]:
  "getLog (snd (detectNPlusOne name now t)) = getLog t" "tracker_wf (snd (detectNPlusOne name now t)) = tracker_wf t"
  by (simp_all add: detectNPlusOne_def Let_def)

lemma track_steps:
  assumes "enabled t" "e = \<lparr>entityName = name, sql = q, durationMs = d, timestamp = now\<rparr>"
    "t' = snd (report_slow e (log_entry now e t))"
  shows "fst (track now name q d t) = fst (report_slow e (log_entry now e t)) @ fst (detectNPlusOne name now t')"
    "snd (track now name q d t) = snd (detectNPlusOne name now t')"
  using assms by (simp_all add: track_def Let_def split: prod.splits)

text \<open>The circular buffer, or the unbounded array, stands for a list: after every call of \<^verbatim>\<open>track\<close> the log
  read by \<^verbatim>\<open>getLog\<close> is the former one without the entries that expired, followed by the new entry, cut
  to the newest \<^verbatim>\<open>maxLogEntries\<close>; its length never exceeds that bound.\<close>
theorem tracker_refines_log:
  assumes "tracker_wf t" "enabled t"
  shows "tracker_wf (snd (track now name q d t)) \<and>
    getLog (snd (track now name q d t)) =
      log_spec t now \<lparr>entityName = name, sql = q, durationMs = d, timestamp = now\<rparr> (getLog t) \<and>
    (is_unbounded (maxLogEntries t) \<or> length (getLog (snd (track now name q d t))) \<le> capacity (maxLogEntries t))"
  using log_entry_refines [OF assms(1), of now] by (auto simp: track_steps [OF assms(2) refl refl] log_spec_def Let_def take_last_def)

subsection \<open>The N+1 window\<close>

lemma newest_first_rev: "newest_first t = rev (getLog t)"
  by (simp add: newest_first_def getLog_def rev_map)

lemma scan_back_filter:
  assumes "sorted (map timestamp (rev es))"
  shows "scan_back name start es = filter (\<lambda>e. entityName e = name \<and> start \<le> timestamp e) es"
  using assms
proof (induction es)
  case (Cons e es)
  have "filter (\<lambda>x. entityName x = name \<and> start \<le> timestamp x) es = []" if "timestamp e < start"
    using Cons.prems that by (auto simp: filter_empty_conv sorted_append)
  then show ?case using Cons by (auto simp: sorted_append)
qed simp

definition window_samples :: "'l tracker \<Rightarrow> string \<Rightarrow> int \<Rightarrow> entry list" where
  "window_samples t name now = filter (\<lambda>e. entityName e = name \<and> now - windowMs t \<le> timestamp e) (getLog t)"

lemma detect_calls:
  assumes "sorted (map timestamp (getLog t))"
  shows "fst (detectNPlusOne name now t) =
    (if name \<notin> set (warned t) \<and> threshold t \<le> int (length (window_samples t name now))
     then map (\<lambda>l. (target l, NPlusOne_Payload name (window_samples t name now))) (listeners_of t NPlusOne) else [])"
    "warned (snd (detectNPlusOne name now t)) =
    (if name \<notin> set (warned t) \<and> threshold t \<le> int (length (window_samples t name now)) then warned t @ [name] else warned t)"
proof -
  have scan: "scan_back name (now - windowMs t) (newest_first t) = rev (window_samples t name now)"
    using scan_back_filter [of "rev (getLog t)" name "now - windowMs t"] assms
    by (simp add: newest_first_rev window_samples_def rev_filter)
  have lst: "listeners_of (t\<lparr>warned := W\<rparr>) = listeners_of t" for W by (auto simp: listeners_of_def)
  show "warned (snd (detectNPlusOne name now t)) =
    (if name \<notin> set (warned t) \<and> threshold t \<le> int (length (window_samples t name now)) then warned t @ [name] else warned t)"
    by (auto simp: detectNPlusOne_def scan js_add_def)
  show "fst (detectNPlusOne name now t) =
    (if name \<notin> set (warned t) \<and> threshold t \<le> int (length (window_samples t name now))
     then map (\<lambda>l. (target l, NPlusOne_Payload name (window_samples t name now))) (listeners_of t NPlusOne) else [])"
    by (auto simp: detectNPlusOne_def scan emit_calls lst)
qed

lemma sorted_log_spec:
  assumes "sorted (map timestamp (xs @ [e]))"
  shows "sorted (map timestamp (log_spec t now e xs))"
proof -
  have suffix: "\<exists>k. log_spec t now e xs = drop k (xs @ [e])"
  proof -
    have kept: "dropWhile P xs @ [e] = drop (length (takeWhile P xs)) (xs @ [e])" for P
      by (simp add: dropWhile_eq_drop length_takeWhile_le)
    have none: "xs @ [e] = drop 0 (xs @ [e])" by simp
    show ?thesis
      unfolding log_spec_def Let_def take_last_def
      by (cases "ttlMs t > 0"; cases "is_unbounded (maxLogEntries t)")
        (simp_all only: if_True if_False kept drop_drop, use none in \<open>blast+\<close>)
  qed
  then show ?thesis using assms by (metis drop_map sorted_wrt_drop)
qed

text \<open>While the clock does not run backwards, a query is reported to the \<^verbatim>\<open>nPlusOne\<close> listeners exactly when its
  entity was not reported before and the log then holds at least \<^verbatim>\<open>threshold\<close> queries for it that are
  not older than the window; the listeners get those, oldest first, and the entity is not reported
  again. The slow-query listeners are called first, for a duration above the limit.\<close>
theorem nplusone_reported_once:
  fixes t :: "'l tracker"
  assumes "tracker_wf t" "enabled t" "sorted (map timestamp (getLog t))" "\<forall>x\<in>set (getLog t). timestamp x \<le> now"
  shows "let e = \<lparr>entityName = name, sql = q, durationMs = d, timestamp = now\<rparr>;
      samples = filter (\<lambda>x. entityName x = name \<and> now - windowMs t \<le> timestamp x) (log_spec t now e (getLog t));
      reported = (name \<notin> set (warned t) \<and> threshold t \<le> int (length samples));
      slow = (case slowQueryMs t of None \<Rightarrow> False | Some limit \<Rightarrow> limit < d)
    in fst (track now name q d t) =
         (if slow then map (\<lambda>l. (target l, Slow_Payload e)) (listeners_of t SlowQuery) else []) @
         (if reported then map (\<lambda>l. (target l, NPlusOne_Payload name samples)) (listeners_of t NPlusOne) else []) \<and>
       warned (snd (track now name q d t)) = (if reported then warned t @ [name] else warned t)"
proof -
  define e where "e = \<lparr>entityName = name, sql = q, durationMs = d, timestamp = now\<rparr>"
  define t1 where "t1 = log_entry now e t"
  have log1: "getLog t1 = log_spec t now e (getLog t)"
    using log_entry_refines [OF assms(1)] by (simp add: t1_def)
  have "sorted (map timestamp (getLog t @ [e]))"
    using assms(3,4) by (auto simp: sorted_append e_def)
  from sorted_log_spec [OF this] have srt: "sorted (map timestamp (getLog t1))"
    unfolding log1 .
  have f: "warned t1 = warned t" "windowMs t1 = windowMs t" "threshold t1 = threshold t"
    "listeners_of t1 = listeners_of t" "slowQueryMs t1 = slowQueryMs t"
    by (auto simp: t1_def listeners_of_def)
  define t2 where "t2 = snd (report_slow e t1)"
  have t2: "getLog t2 = getLog t1" "warned t2 = warned t" "windowMs t2 = windowMs t" "threshold t2 = threshold t"
    "listeners_of t2 NPlusOne = listeners_of t NPlusOne"
    by (simp_all add: t2_def f)
  have slow: "fst (report_slow e t1) = (if (case slowQueryMs t of None \<Rightarrow> False | Some limit \<Rightarrow> limit < d)
      then map (\<lambda>l. (target l, Slow_Payload e)) (listeners_of t SlowQuery) else [])"
    by (auto simp: report_slow_def emit_calls f e_def split: option.split)
  have w: "window_samples t2 name now =
      filter (\<lambda>x. entityName x = name \<and> now - windowMs t \<le> timestamp x) (log_spec t now e (getLog t))"
    by (simp add: window_samples_def t2 log1)
  note steps = track_steps [OF assms(2) e_def t2_def [unfolded t1_def]]
  note det = detect_calls [of t2 name now, unfolded t2(1), OF srt, unfolded w t2]
  show ?thesis
    unfolding e_def [symmetric] Let_def steps slow [unfolded t1_def] det by simp
qed

text \<open>A tracker of two slots that reports from two queries on, after three queries.\<close>
definition small_tracker :: "string tracker" where
  "small_tracker = on_listener NPlusOne (Listener ''log'') (newTracker
     \<lparr>opt_windowMs = None, opt_threshold = Some 2, opt_slowQueryMs = None, opt_maxLogEntries = Some (Finite_Limit 2),
      opt_enabled = None, opt_ttlMs = Some 500\<rparr>)"

definition used_tracker :: "string tracker" where
  "used_tracker = snd (track 70 ''User'' ''q3'' 1 (snd (track 40 ''Post'' ''q2'' 1 (snd (track 0 ''User'' ''q1'' 1 small_tracker)))))"

lemma newTracker_wf: "tracker_wf (newTracker opts)"
  by (auto simp: tracker_wf_def newTracker_def Let_def not_le elim: is_unbounded.elims)

lemma used_tracker_wf: "tracker_wf used_tracker"
proof -
  have t0: "tracker_wf small_tracker"
    by (simp add: small_tracker_def on_listener_def newTracker_wf)
  have "tracker_wf (snd (track now name q d t))" if "tracker_wf t" for now name q d and t :: "string tracker"
  proof (cases "enabled t")
    case True
    then show ?thesis using that log_entry_refines [OF that] by (simp add: track_steps [OF True refl refl])
  qed (use that in \<open>simp add: track_def\<close>)
  then show ?thesis using t0 by (simp add: used_tracker_def)
qed

lemma used_tracker_log: "getLog used_tracker =
    [\<lparr>entityName = ''Post'', sql = ''q2'', durationMs = 1, timestamp = 40\<rparr>,
     \<lparr>entityName = ''User'', sql = ''q3'', durationMs = 1, timestamp = 70\<rparr>]" "enabled used_tracker"
  by code_simp+

theorem tracker_refines_log_witness:
  "getLog (snd (track 90 ''User'' ''q4'' 1 used_tracker)) =
    [\<lparr>entityName = ''User'', sql = ''q3'', durationMs = 1, timestamp = 70\<rparr>,
     \<lparr>entityName = ''User'', sql = ''q4'', durationMs = 1, timestamp = 90\<rparr>]"
proof -
  have "log_spec used_tracker 90 \<lparr>entityName = ''User'', sql = ''q4'', durationMs = 1, timestamp = 90\<rparr> (getLog used_tracker) =
    [\<lparr>entityName = ''User'', sql = ''q3'', durationMs = 1, timestamp = 70\<rparr>,
     \<lparr>entityName = ''User'', sql = ''q4'', durationMs = 1, timestamp = 90\<rparr>]" by code_simp
  with tracker_refines_log [OF used_tracker_wf used_tracker_log(2), of 90 "''User''" "''q4''" 1] show ?thesis by simp
qed

theorem nplusone_reported_once_witness:
  "fst (track 90 ''User'' ''q4'' 1 used_tracker) =
    [(''log'', NPlusOne_Payload ''User'' [\<lparr>entityName = ''User'', sql = ''q3'', durationMs = 1, timestamp = 70\<rparr>,
       \<lparr>entityName = ''User'', sql = ''q4'', durationMs = 1, timestamp = 90\<rparr>])]"
proof -
  have spec: "log_spec used_tracker 90 \<lparr>entityName = ''User'', sql = ''q4'', durationMs = 1, timestamp = 90\<rparr> (getLog used_tracker) =
    [\<lparr>entityName = ''User'', sql = ''q3'', durationMs = 1, timestamp = 70\<rparr>,
     \<lparr>entityName = ''User'', sql = ''q4'', durationMs = 1, timestamp = 90\<rparr>]" by code_simp
  have f: "warned used_tracker = []" "threshold used_tracker = 2" "windowMs used_tracker = 100"
    "slowQueryMs used_tracker = None" "listeners_of used_tracker NPlusOne = [Listener ''log'']"
    by code_simp+
  have "sorted (map timestamp (getLog used_tracker))" "\<forall>x\<in>set (getLog used_tracker). timestamp x \<le> 90"
    by (simp_all add: used_tracker_log)
  from nplusone_reported_once [OF used_tracker_wf used_tracker_log(2) this, of "''User''" "''q4''" 1]
  show ?thesis unfolding Let_def spec f by simp
qed

subsection \<open>Waiting for the queries in flight\<close>

lemma poll_decides:
  assumes "timeout \<le> clock (k + fuel) - start"
  shows "\<exists>b. poll (Suc fuel) clock count start timeout k = Some b \<and>
    (b \<longleftrightarrow> (\<exists>m\<ge>k. count m = 0 \<and> (\<forall>j. k \<le> j \<and> j < m \<longrightarrow> clock j - start < timeout)))"
  using assms
proof (induction fuel arbitrary: k)
  case 0
  then show ?case by (auto simp: dest: leD) (metis le_neq_implies_less leD order_refl)
next
  case (Suc fuel)
  show ?case
  proof (cases "count k = 0 \<or> timeout \<le> clock k - start")
    case True
    then show ?thesis by (auto dest: leD) (metis le_neq_implies_less leD order_refl)+
  next
    case False
    with Suc.IH [of "k + 1"] Suc.prems obtain b where b:
      "poll (Suc fuel) clock count start timeout (k + 1) = Some b"
      "b \<longleftrightarrow> (\<exists>m\<ge>k + 1. count m = 0 \<and> (\<forall>j. k + 1 \<le> j \<and> j < m \<longrightarrow> clock j - start < timeout))"
      by auto
    have "(\<exists>m\<ge>k + 1. count m = 0 \<and> (\<forall>j. k + 1 \<le> j \<and> j < m \<longrightarrow> clock j - start < timeout)) \<longleftrightarrow>
      (\<exists>m\<ge>k. count m = 0 \<and> (\<forall>j. k \<le> j \<and> j < m \<longrightarrow> clock j - start < timeout))"
      using False by (metis Suc_eq_plus1 Suc_leI le_antisym linorder_not_le nat_less_le not_less_eq_eq)
    then show ?thesis using b False by (subst poll.simps) auto
  qed
qed

lemma clock_advances: "(\<And>k. clock k + 50 \<le> clock (k + 1)) \<Longrightarrow> clock 0 + 50 * int n \<le> (clock n :: int)"
proof (induction n)
  case (Suc n)
  then have "clock 0 + 50 * int n \<le> clock n" "clock n + 50 \<le> clock (n + 1)" by blast+
  then show ?case by simp
qed simp

text \<open>\<^verbatim>\<open>waitForQueries\<close> always resolves: with the timer firing every 50 ms or later, after at most
  \<^verbatim>\<open>timeout / 50 + 2\<close> checks; it resolves to true exactly when no query is in flight at the call or at a check
  before which no check had found the time used up.\<close>
theorem waitForQueries_resolves:
  assumes "\<And>k. clock k + 50 \<le> clock (k + 1)" "start \<le> clock 0" "nat timeout div 50 + 2 \<le> fuel"
  shows "\<exists>b. waitForQueries fuel timeout clock count start t = Some b \<and>
    (b \<longleftrightarrow> activeQueryCount t = 0 \<or> (\<exists>m. count m = 0 \<and> (\<forall>j<m. clock j - start < timeout)))"
proof (cases "activeQueryCount t = 0")
  case True
  then show ?thesis by (intro exI [of _ True]) (simp add: waitForQueries_def)
next
  case False
  obtain n where n: "fuel = Suc n" "nat timeout div 50 + 1 \<le> n" using assms(3) by (cases fuel) auto
  have "clock 0 + 50 * int n \<le> clock n" using clock_advances [of clock n] assms(1) by blast
  moreover have "timeout \<le> 50 * int n" using n(2) by linarith
  ultimately have "timeout \<le> clock (0 + n) - start" using assms(2) by simp
  from poll_decides [of timeout clock 0 n start count, OF this] show ?thesis using False by (simp add: waitForQueries_def n)
qed

theorem waitForQueries_resolves_witness:
  "\<exists>b. waitForQueries 5 120 (\<lambda>k. 50 * int k) (\<lambda>k. if k = 2 then 0 else 1) 0 (beginQuery used_tracker) = Some b"
  using waitForQueries_resolves [of "\<lambda>k. 50 * int k" 0 120 5 "\<lambda>k. if k = 2 then 0 else 1" "beginQuery used_tracker"] by auto

end
