(* ===== verification/SqliteGate.thy ===== *)
theory SqliteGate
  imports Prelude TextUtils
begin

section \<open>Turns on the SQLite connection (src/dialects/sqlite/SqliteTransactionGate.ts)\<close>

text \<open>
  \<^verbatim>\<open>SqliteTransactionGate\<close> gives the single connection to one transaction at a time. The record \<open>gate\<close>
  has its fields (\<open>holder\<close>, \<open>taken\<close>, \<open>waiters\<close>); \<open>resumed\<close> holds the waiters that were granted the turn
  and whose continuation has not run yet, which in the code is the queue of the event loop; \<open>granted\<close>
  and \<open>executed\<close> record what was granted and executed, for the properties. Every waiter object is a
  new one: it gets a ticket. Flows are numbers, the async context of a caller is the list of the flows
  it runs in, innermost first. What runs between two waits is one step; \<open>gate_step\<close> interleaves them in
  any order, the timers of waiting callers included.
\<close>

subsection \<open>State and operations\<close>

type_synonym flow = nat

datatype 's purpose = Statement 's "flow list" | Transaction flow

record 's waiter =
  ticket :: nat
  purpose_of :: "'s purpose"

record 's executed =
  statement :: 's
  in_flows :: "flow list"
  during :: "flow option"

record 's gate =
  holder :: "flow option"
  taken :: bool
  waiters :: "'s waiter list"
  resumed :: "'s waiter list"
  tickets :: nat
  granted :: "nat list"
  executed :: "'s executed list"

definition new_gate :: "'s gate" where
  "new_gate = \<lparr>holder = None, taken = False, waiters = [], resumed = [], tickets = 0, granted = [], executed = []\<rparr>"

definition heldByCurrentFlow :: "flow list \<Rightarrow> 's gate \<Rightarrow> bool" where
  "heldByCurrentFlow ctx g = (case holder g of None \<Rightarrow> False | Some f \<Rightarrow> f \<in> set ctx)"

definition waitForTurn :: "'s purpose \<Rightarrow> 's gate \<Rightarrow> 's gate" where
  "waitForTurn p g = g\<lparr>waiters := waiters g @ [\<lparr>ticket = tickets g, purpose_of = p\<rparr>], tickets := tickets g + 1\<rparr>"

definition passTurn :: "'s gate \<Rightarrow> 's gate" where
  "passTurn g = (case waiters g of
     [] \<Rightarrow> g\<lparr>taken := False\<rparr>
   | w # ws \<Rightarrow> g\<lparr>waiters := ws, resumed := resumed g @ [w], granted := granted g @ [ticket w]\<rparr>)"

definition execute :: "'s \<Rightarrow> flow list \<Rightarrow> 's gate \<Rightarrow> 's gate" where
  "execute s ctx g = g\<lparr>executed := executed g @ [\<lparr>statement = s, in_flows = ctx, during = holder g\<rparr>]\<rparr>"

definition gate_run :: "flow list \<Rightarrow> 's \<Rightarrow> 's gate \<Rightarrow> 's gate" where
  "gate_run ctx s g = (if \<not> taken g \<or> heldByCurrentFlow ctx g then execute s ctx g
     else waitForTurn (Statement s ctx) g)"

definition gate_begin :: "flow list \<Rightarrow> flow \<Rightarrow> 's gate \<Rightarrow> OrmErrorCode + 's gate" where
  "gate_begin ctx f g = (if heldByCurrentFlow ctx g then Inl UNSUPPORTED_OPERATION
     else Inr (if taken g then waitForTurn (Transaction f) g else g\<lparr>taken := True, holder := Some f\<rparr>))"

text \<open>A granted waiter continues after its \<^verbatim>\<open>await this.waitForTurn(...)\<close>.\<close>
definition continue_waiter :: "'s waiter \<Rightarrow> 's gate \<Rightarrow> 's gate" where
  "continue_waiter w g = (let g' = g\<lparr>resumed := remove1 w (resumed g)\<rparr> in
     case purpose_of w of
       Statement s ctx \<Rightarrow> passTurn (execute s ctx g')
     | Transaction f \<Rightarrow> g'\<lparr>holder := Some f\<rparr>)"

definition gate_end :: "flow \<Rightarrow> 's gate \<Rightarrow> 's gate" where
  "gate_end f g = (if holder g \<noteq> Some f then g else passTurn (g\<lparr>holder := None\<rparr>))"

text \<open>The timer of a waiter: it leaves the queue and its caller gets \<^verbatim>\<open>CONNECTION_FAILED\<close>.\<close>
definition time_out :: "'s waiter \<Rightarrow> 's gate \<Rightarrow> 's gate" where
  "time_out w g = g\<lparr>waiters := remove1 w (waiters g)\<rparr>"

inductive gate_step :: "'s gate \<Rightarrow> 's gate \<Rightarrow> bool" where
  run: "gate_step g (gate_run ctx s g)"
| begin_turn: "gate_begin ctx f g = Inr g' \<Longrightarrow> gate_step g g'"
| go_on: "w \<in> set (resumed g) \<Longrightarrow> gate_step g (continue_waiter w g)"
| end_turn: "gate_step g (gate_end f g)"
| time_out: "w \<in> set (waiters g) \<Longrightarrow> gate_step g (time_out w g)"

inductive gate_reachable :: "'s gate \<Rightarrow> bool" where
  start: "gate_reachable new_gate"
| step: "gate_reachable g \<Longrightarrow> gate_step g g' \<Longrightarrow> gate_reachable g'"

subsection \<open>Invariant\<close>

text \<open>
  A free gate has nothing pending; a taken one has exactly one owner of the turn, the transaction that
  holds it or one granted waiter.
\<close>
definition one_turn :: "'s gate \<Rightarrow> bool" where
  "one_turn g \<longleftrightarrow> (if taken g then length (resumed g) + (if holder g = None then 0 else 1) = 1
     else holder g = None \<and> resumed g = [] \<and> waiters g = [])"

text \<open>A statement executed while a transaction held the connection ran in its flow.\<close>
definition own_flow :: "'s gate \<Rightarrow> bool" where
  "own_flow g \<longleftrightarrow> (\<forall>x\<in>set (executed g). case during x of None \<Rightarrow> True | Some f \<Rightarrow> f \<in> set (in_flows x))"

text \<open>The tickets granted, then the waiting ones, are in the order of the requests.\<close>
definition request_order :: "'s gate \<Rightarrow> bool" where
  "request_order g \<longleftrightarrow> sorted_wrt (<) (granted g @ map ticket (waiters g) @ [tickets g])"

definition gate_inv :: "'s gate \<Rightarrow> bool" where
  "gate_inv g \<longleftrightarrow> one_turn g \<and> own_flow g \<and> request_order g"

lemmas gate_inv_defs = gate_inv_def one_turn_def own_flow_def request_order_def

lemma gate_inv_new: "gate_inv new_gate"
  by (simp add: gate_inv_defs new_gate_def)

lemma gate_inv_owner:
  assumes "gate_inv g" "w \<in> set (resumed g)"
  shows "taken g" "resumed g = [w]" "holder g = None"
proof -
  have "one_turn g" using assms(1) by (simp add: gate_inv_def)
  then show "taken g" "holder g = None" "resumed g = [w]"
    using assms(2) unfolding one_turn_def
    by (cases "taken g"; cases "resumed g"; cases "holder g"; simp)+
qed

lemma gate_inv_holder: "gate_inv g \<Longrightarrow> holder g = Some f \<Longrightarrow> taken g \<and> resumed g = []"
  by (cases "taken g") (simp_all add: gate_inv_def one_turn_def)

lemma passTurn_inv:
  assumes "own_flow g" "request_order g" "taken g" "holder g = None" "resumed g = []"
  shows "gate_inv (passTurn g)"
  using assms by (cases "waiters g") (simp_all add: gate_inv_defs passTurn_def)

lemma waitForTurn_inv: "gate_inv g \<Longrightarrow> taken g \<Longrightarrow> gate_inv (waitForTurn p g)"
  by (auto simp: gate_inv_defs waitForTurn_def sorted_wrt_append less_Suc_eq)

lemma execute_inv:
  assumes "gate_inv g" "\<not> taken g \<or> heldByCurrentFlow ctx g"
  shows "gate_inv (execute s ctx g)"
proof -
  have "case holder g of None \<Rightarrow> True | Some f \<Rightarrow> f \<in> set ctx"
    using assms by (auto simp: gate_inv_def one_turn_def heldByCurrentFlow_def split: option.splits)
  then have "own_flow (execute s ctx g)"
    using assms(1) by (cases "holder g") (simp_all add: gate_inv_def own_flow_def execute_def)
  then show ?thesis using assms(1) by (simp add: gate_inv_def one_turn_def request_order_def execute_def)
qed

lemma sorted_remove1: "sorted_wrt (<) (xs @ map f ys @ [n]) \<Longrightarrow> sorted_wrt (<) (xs @ map f (remove1 y ys) @ [n::nat])"
  by (induction ys) (auto simp: sorted_wrt_append dest: notin_set_remove1)

lemma gate_step_inv: "gate_step g g' \<Longrightarrow> gate_inv g \<Longrightarrow> gate_inv g'"
proof (induction rule: gate_step.induct)
  case (run g ctx s)
  then show ?case
    using execute_inv [of g ctx s] waitForTurn_inv [of g "Statement s ctx"] by (simp add: gate_run_def)
next
  case (begin_turn ctx f g g')
  show ?case
  proof (cases "taken g")
    case True
    then show ?thesis using begin_turn waitForTurn_inv [of g "Transaction f"] by (auto simp: gate_begin_def split: if_splits)
  next
    case False
    then show ?thesis using begin_turn by (auto simp: gate_begin_def gate_inv_defs split: if_splits)
  qed
next
  case (go_on w g)
  note own = gate_inv_owner [OF go_on.prems go_on.hyps]
  show ?case
  proof (cases "purpose_of w")
    case (Statement s ctx)
    have "gate_inv (passTurn (execute s ctx (g\<lparr>resumed := []\<rparr>)))"
      by (rule passTurn_inv) (use go_on.prems own in \<open>simp_all add: gate_inv_defs execute_def\<close>)
    then show ?thesis using Statement own by (simp add: continue_waiter_def)
  next
    case (Transaction f)
    then show ?thesis using go_on.prems own by (simp add: continue_waiter_def gate_inv_defs)
  qed
next
  case (end_turn g f)
  show ?case
  proof (cases "holder g = Some f")
    case True
    then have "gate_inv (passTurn (g\<lparr>holder := None\<rparr>))"
      using gate_inv_holder [OF end_turn True] end_turn by (intro passTurn_inv) (simp_all add: gate_inv_defs)
    then show ?thesis using True by (simp add: gate_end_def)
  qed (use end_turn in \<open>simp add: gate_end_def\<close>)
next
  case (time_out w g)
  then have "request_order (time_out w g)"
    using sorted_remove1 [of "granted g" ticket "waiters g" "tickets g" w]
    by (simp add: gate_inv_def request_order_def time_out_def)
  then show ?case using time_out by (auto simp: gate_inv_def one_turn_def own_flow_def time_out_def split: if_splits)
qed

lemma gate_reachable_inv: "gate_reachable g \<Longrightarrow> gate_inv g"
  by (induction rule: gate_reachable.induct) (auto intro: gate_inv_new gate_step_inv)

text \<open>C14: In every interleaving of statements, transactions, waits that end and timers: the turn has at most
  one owner, and a free gate has no waiter; every statement executed while a transaction held the
  connection belongs to that transaction's flow; turns are granted in the order they were asked for.\<close>
theorem gate_serialises:
  assumes "gate_reachable g"
  shows "(if taken g then length (resumed g) + (if holder g = None then 0 else 1) = 1
      else holder g = None \<and> resumed g = [] \<and> waiters g = []) \<and>
    (\<forall>x\<in>set (executed g). during x = None \<or> the (during x) \<in> set (in_flows x)) \<and>
    sorted_wrt (<) (granted g @ map ticket (waiters g))"
proof -
  have inv: "one_turn g" "own_flow g" "request_order g"
    using gate_reachable_inv [OF assms] by (simp_all add: gate_inv_def)
  have "during x = None \<or> the (during x) \<in> set (in_flows x)" if "x \<in> set (executed g)" for x
    using inv(2) that by (cases "during x") (auto simp: own_flow_def)
  then show ?thesis using inv(1,3) by (simp add: one_turn_def request_order_def sorted_wrt_append)
qed

text \<open>A transaction of flow 1 holds the connection; a statement of another flow and a second transaction
  wait; the first commits.\<close>
definition busy_gate :: "string gate" where
  "busy_gate = gate_end 1 (waitForTurn (Transaction 2) (gate_run [] ''SELECT'' (gate_run [1] ''INSERT''
     (new_gate\<lparr>taken := True, holder := Some 1\<rparr>))))"

lemma busy_gate_reachable: "gate_reachable busy_gate"
proof -
  have "gate_reachable (new_gate\<lparr>taken := True, holder := Some 1\<rparr> :: string gate)"
    by (rule gate_reachable.step [OF gate_reachable.start], rule gate_step.begin_turn [of "[1]" 1])
      (simp add: gate_begin_def heldByCurrentFlow_def new_gate_def)
  from gate_reachable.step [OF gate_reachable.step [OF this gate_step.run [of _ "[1]" "''INSERT''"]] gate_step.run [of _ "[]" "''SELECT''"]]
  have 2: "gate_reachable (gate_run [] ''SELECT'' (gate_run [1] ''INSERT''
     (new_gate\<lparr>taken := True, holder := Some 1\<rparr>)))" .
  have "gate_begin [2] 2 (gate_run [] ''SELECT'' (gate_run [1] ''INSERT'' (new_gate\<lparr>taken := True, holder := Some 1\<rparr>))) =
      Inr (waitForTurn (Transaction 2) (gate_run [] ''SELECT'' (gate_run [1] ''INSERT'' (new_gate\<lparr>taken := True, holder := Some 1\<rparr>))))"
    by (simp add: gate_begin_def gate_run_def heldByCurrentFlow_def execute_def waitForTurn_def)
  from gate_reachable.step [OF gate_reachable.step [OF 2 gate_step.begin_turn [OF this]] gate_step.end_turn [of _ 1]]
  show ?thesis by (simp add: busy_gate_def)
qed

theorem gate_serialises_witness:
  "taken busy_gate \<and> length (resumed busy_gate) = 1 \<and> map ticket (waiters busy_gate) = [1] \<and> granted busy_gate = [0] \<and>
   length (resumed busy_gate) + (if holder busy_gate = None then 0 else 1) = 1"
proof -
  have 1: "taken busy_gate" "map ticket (waiters busy_gate) = [1]" "granted busy_gate = [0]" "length (resumed busy_gate) = 1"
    by code_simp+
  from gate_serialises [OF busy_gate_reachable] 1 show ?thesis by simp
qed

subsection \<open>Every waiter gets its turn\<close>

text \<open>The turn comes to its end: the granted waiter continues, and a transaction ends.\<close>
definition settle :: "'s gate \<Rightarrow> 's gate" where
  "settle g = (let g' = (case resumed g of [] \<Rightarrow> g | w # _ \<Rightarrow> continue_waiter w g) in
     case holder g' of None \<Rightarrow> g' | Some f \<Rightarrow> gate_end f g')"

fun settle_all :: "nat \<Rightarrow> 's gate \<Rightarrow> 's gate" where
  "settle_all 0 g = g"
| "settle_all (Suc n) g = settle_all n (settle g)"

lemma settle_passes:
  assumes "gate_inv g" "taken g"
  shows "\<exists>g'. settle g = passTurn g' \<and> taken g' \<and> waiters g' = waiters g \<and> granted g' = granted g \<and> holder g' = None \<and> resumed g' = []"
proof (cases "resumed g")
  case Nil
  then obtain f where "holder g = Some f"
    using assms by (cases "holder g") (auto simp: gate_inv_def one_turn_def)
  then show ?thesis using Nil assms(2) by (auto simp: settle_def gate_end_def)
next
  case (Cons w ws)
  have own: "resumed g = [w]" "holder g = None"
    using gate_inv_owner [OF assms(1), of w] Cons by auto
  show ?thesis
  proof (cases "purpose_of w")
    case (Statement s ctx)
    let ?g = "execute s ctx (g\<lparr>resumed := []\<rparr>)"
    have "holder (passTurn ?g) = None"
      using own by (simp add: passTurn_def execute_def split: list.split)
    then have "settle g = passTurn ?g"
      using own Statement by (simp add: settle_def continue_waiter_def)
    then show ?thesis using own assms(2) by (intro exI [of _ ?g]) (simp add: execute_def)
  next
    case (Transaction f)
    then show ?thesis using own assms(2)
      by (intro exI [of _ "g\<lparr>resumed := [], holder := None\<rparr>"])
        (simp add: settle_def continue_waiter_def gate_end_def)
  qed
qed

lemma settle_reachable: "gate_reachable g \<Longrightarrow> gate_reachable (settle g)"
proof -
  assume g: "gate_reachable g"
  then have "gate_reachable (case resumed g of [] \<Rightarrow> g | w # _ \<Rightarrow> continue_waiter w g)"
    by (cases "resumed g") (simp_all, metis gate_reachable.step gate_step.go_on list.set_intros(1))
  then show ?thesis
    by (auto simp: settle_def Let_def intro: gate_reachable.step gate_step.end_turn split: option.split)
qed

text \<open>C39: No waiter is lost: from any reachable state whose gate is taken, when each turn comes to its end and
  nothing new is asked for, one turn more than there are waiters frees the gate, and the waiters have
  been granted their turns in their order.\<close>
theorem gate_serves_all_waiters:
  assumes "gate_reachable g" "taken g"
  shows "\<not> taken (settle_all (length (waiters g) + 1) g) \<and>
    granted (settle_all (length (waiters g) + 1) g) = granted g @ map ticket (waiters g) \<and>
    gate_reachable (settle_all (length (waiters g) + 1) g)"
  using assms
proof (induction "waiters g" arbitrary: g)
  case Nil
  from settle_passes [OF gate_reachable_inv [OF Nil.prems(1)] Nil.prems(2)] obtain g' where
    "settle g = passTurn g'" "taken g'" "waiters g' = waiters g" "granted g' = granted g" by blast
  then show ?case using Nil settle_reachable [OF Nil.prems(1)] by (simp flip: Nil.hyps add: passTurn_def)
next
  case (Cons w ws)
  from settle_passes [OF gate_reachable_inv [OF Cons.prems(1)] Cons.prems(2)] obtain g' where
    g': "settle g = passTurn g'" "taken g'" "waiters g' = waiters g" "granted g' = granted g" by blast
  have "waiters g' = w # ws" using g'(3) Cons.hyps(2) by simp
  then have s: "waiters (settle g) = ws" "granted (settle g) = granted g @ [ticket w]" "taken (settle g)"
    unfolding g'(1) passTurn_def using g'(2,4) by simp_all
  from Cons.hyps(1) [OF s(1) [symmetric] settle_reachable [OF Cons.prems(1)] s(3)]
  show ?case using s Cons.hyps(2) [symmetric] by simp
qed

theorem gate_serves_all_waiters_witness:
  "\<not> taken (settle_all 2 busy_gate) \<and> granted (settle_all 2 busy_gate) = [0, 1] \<and>
   map statement (executed (settle_all 2 busy_gate)) = [''INSERT'', ''SELECT'']"
proof -
  have 1: "taken busy_gate" "length (waiters busy_gate) = 1" "map ticket (waiters busy_gate) = [1]" "granted busy_gate = [0]"
    and 2: "map statement (executed (settle_all 2 busy_gate)) = [''INSERT'', ''SELECT'']"
    by code_simp+
  from gate_serves_all_waiters [OF busy_gate_reachable 1(1)] 1 2 show ?thesis by (simp add: numeral_2_eq_2)
qed

section \<open>Sessions on the SQLite connection (src/dialects/sqlite/SqliteDataSource.ts)\<close>

text \<open>
  \<^verbatim>\<open>SqliteDataSource\<close> and the transaction methods of \<^verbatim>\<open>SqliteConnector\<close>. A session is a record of the
  fields of the class; the connector's handle, the statements and the turns of the gate act on a world
  \<open>'w\<close> and are parameters (the gate itself is modelled above). \<open>turns\<close> records what the session asked
  of the gate.
\<close>

datatype 'e sq_error = No_Connection | Bad_Savepoint OrmErrorCode | Sq_Error 'e

datatype turn_event = Taken flow | Ended flow

record 'w sq_session =
  world :: 'w
  connection :: bool
  sflow :: "flow option"
  turn :: "flow option"
  inTransaction :: bool
  turns :: "turn_event list"

text \<open>
  The handle: \<^verbatim>\<open>db.exec\<close> of a transaction command, a statement through the gate, whether a connection is
  there, the ambient flow, and the two calls on the gate.
\<close>
record ('w, 'e, 'r) sq_env =
  exec_begin :: "('w, 'e, unit) io"
  exec_commit :: "('w, 'e, unit) io"
  exec_rollback :: "('w, 'e, unit) io"
  run_statement :: "string \<Rightarrow> ('w, 'e, 'r) io"
  run_with_options :: "string \<Rightarrow> ('w, 'e, 'r) io"
  has_connection :: "'w \<Rightarrow> bool"
  current_flow :: "'w \<Rightarrow> flow option"
  gate_take :: "flow \<Rightarrow> ('w, 'e, unit) io"
  gate_give :: "flow \<Rightarrow> 'w \<Rightarrow> 'w"

definition on_world :: "('w, 'e, 'a) io \<Rightarrow> ('w sq_session, 'e sq_error, 'a) io" where
  "on_world m s = (case m (world s) of
     (Inl e, w) \<Rightarrow> (Inl (Sq_Error e), s\<lparr>world := w\<rparr>) | (Inr a, w) \<Rightarrow> (Inr a, s\<lparr>world := w\<rparr>))"

definition update_session :: "('w sq_session \<Rightarrow> 'w sq_session) \<Rightarrow> ('w sq_session, 'e sq_error, unit) io" where
  "update_session f s = (Inr (), f s)"

definition needs_connection :: "('w sq_session, 'e sq_error, 'a) io \<Rightarrow> ('w sq_session, 'e sq_error, 'a) io" where
  "needs_connection m s = (if connection s then m s else (Inl No_Connection, s))"

text \<open>\<^verbatim>\<open>SqliteConnector.commit\<close>: a failed COMMIT is rolled back and rethrown.\<close>
definition connector_commit :: "('w, 'e, 'r) sq_env \<Rightarrow> ('w, 'e, unit) io" where
  "connector_commit E = io_catch (exec_commit E) (\<lambda>e. io_then (exec_rollback E) (io_throw e))"

definition endTurn :: "('w, 'e, 'r) sq_env \<Rightarrow> 'w sq_session \<Rightarrow> 'w sq_session" where
  "endTurn E s = (case turn s of None \<Rightarrow> s
     | Some f \<Rightarrow> s\<lparr>turn := None, world := gate_give E f (world s), turns := turns s @ [Ended f]\<rparr>)"

definition sq_createConnection :: "('w, 'e, 'r) sq_env \<Rightarrow> ('w sq_session, 'e sq_error, unit) io" where
  "sq_createConnection E s = (let s' = s\<lparr>connection := has_connection E (world s)\<rparr> in
     if \<not> connection s' then (Inl No_Connection, s')
     else (Inr (), s'\<lparr>sflow := current_flow E (world s)\<rparr>))"

text \<open>\<^verbatim>\<open>if (this.flow) { await this.gate().begin(this.flow); this.turn = this.flow; }\<close>\<close>
definition take_turn :: "('w, 'e, 'r) sq_env \<Rightarrow> ('w sq_session, 'e sq_error, unit) io" where
  "take_turn E s = (case sflow s of
     None \<Rightarrow> (Inr (), s)
   | Some f \<Rightarrow> io_then (on_world (gate_take E f))
       (update_session (\<lambda>s. s\<lparr>turn := Some f, turns := turns s @ [Taken f]\<rparr>)) s)"

definition begin_in_turn :: "('w, 'e, 'r) sq_env \<Rightarrow> ('w sq_session, 'e sq_error, unit) io" where
  "begin_in_turn E = io_catch
     (io_then (on_world (exec_begin E)) (update_session (\<lambda>s. s\<lparr>inTransaction := True\<rparr>)))
     (\<lambda>e. io_then (update_session (endTurn E)) (io_throw e))"

definition sq_startTransaction :: "('w, 'e, 'r) sq_env \<Rightarrow> ('w sq_session, 'e sq_error, unit) io" where
  "sq_startTransaction E = needs_connection (io_then (take_turn E) (begin_in_turn E))"

definition leave_transaction :: "('w, 'e, 'r) sq_env \<Rightarrow> ('w sq_session, 'e sq_error, unit) io" where
  "leave_transaction E = update_session (\<lambda>s. endTurn E (s\<lparr>inTransaction := False\<rparr>))"

definition sq_rollback :: "('w, 'e, 'r) sq_env \<Rightarrow> ('w sq_session, 'e sq_error, unit) io" where
  "sq_rollback E = needs_connection (\<lambda>s.
     if sflow s \<noteq> None \<and> \<not> inTransaction s then (Inr (), s)
     else io_finally (on_world (exec_rollback E)) (leave_transaction E) s)"

definition sq_commit :: "('w, 'e, 'r) sq_env \<Rightarrow> ('w sq_session, 'e sq_error, unit) io" where
  "sq_commit E = needs_connection (io_finally (on_world (connector_commit E)) (leave_transaction E))"

definition sq_close :: "('w, 'e, 'r) sq_env \<Rightarrow> ('w sq_session, 'e sq_error, unit) io" where
  "sq_close E = io_finally
     (\<lambda>s. if inTransaction s then sq_rollback E s else (Inr (), s))
     (update_session (\<lambda>s. (endTurn E s)\<lparr>connection := False\<rparr>))"

definition sq_query :: "('w, 'e, 'r) sq_env \<Rightarrow> string \<Rightarrow> ('w sq_session, 'e sq_error, 'r) io" where
  "sq_query E sql = needs_connection (on_world (run_statement E sql))"

definition sq_queryWithOptions :: "('w, 'e, 'r) sq_env \<Rightarrow> string \<Rightarrow> ('w sq_session, 'e sq_error, 'r) io" where
  "sq_queryWithOptions E sql = needs_connection (on_world (run_with_options E sql))"

definition double_quote :: "string \<Rightarrow> string" where
  "double_quote n = [CHR 0x22] @ concat (map (\<lambda>c. if c = CHR 0x22 then [c, c] else [c]) n) @ [CHR 0x22]"

definition savepoint_command :: "('w, 'e, 'r) sq_env \<Rightarrow> string \<Rightarrow> string \<Rightarrow> ('w sq_session, 'e sq_error, unit) io" where
  "savepoint_command E cmd name = needs_connection (case validateSavepointName name of
     Inl c \<Rightarrow> io_throw (Bad_Savepoint c)
   | Inr _ \<Rightarrow> io_then (sq_query E (cmd @ double_quote name)) (io_return ()))"

definition sq_savepoint :: "('w, 'e, 'r) sq_env \<Rightarrow> string \<Rightarrow> ('w sq_session, 'e sq_error, unit) io" where
  "sq_savepoint E = savepoint_command E ''SAVEPOINT ''"

definition sq_rollbackTo :: "('w, 'e, 'r) sq_env \<Rightarrow> string \<Rightarrow> ('w sq_session, 'e sq_error, unit) io" where
  "sq_rollbackTo E = savepoint_command E ''ROLLBACK TO SAVEPOINT ''"

datatype sq_call = Sq_Create | Sq_Start | Sq_Commit | Sq_Rollback | Sq_Close | Sq_Query string
  | Sq_QueryWithOptions string | Sq_Savepoint string | Sq_RollbackTo string

fun sq_run :: "('w, 'e, 'r) sq_env \<Rightarrow> sq_call \<Rightarrow> 'w sq_session \<Rightarrow> 'w sq_session" where
  "sq_run E Sq_Create s = snd (sq_createConnection E s)"
| "sq_run E Sq_Start s = snd (sq_startTransaction E s)"
| "sq_run E Sq_Commit s = snd (sq_commit E s)"
| "sq_run E Sq_Rollback s = snd (sq_rollback E s)"
| "sq_run E Sq_Close s = snd (sq_close E s)"
| "sq_run E (Sq_Query q) s = snd (sq_query E q s)"
| "sq_run E (Sq_QueryWithOptions q) s = snd (sq_queryWithOptions E q s)"
| "sq_run E (Sq_Savepoint n) s = snd (sq_savepoint E n s)"
| "sq_run E (Sq_RollbackTo n) s = snd (sq_rollbackTo E n s)"

definition new_session :: "'w \<Rightarrow> 'w sq_session" where
  "new_session w = \<lparr>world = w, connection = False, sflow = None, turn = None, inTransaction = False, turns = []\<rparr>"

subsection \<open>A session gives back every turn it took\<close>

text \<open>
  What the session relies on, with \<open>held w\<close> the flow the gate holds the connection for on behalf of this
  session: the gate does not grant a turn before the session has given back the one it has, and neither
  a refusal nor a statement changes who holds it.
\<close>
definition gate_laws :: "('w, 'e, 'r) sq_env \<Rightarrow> ('w \<Rightarrow> flow option) \<Rightarrow> bool" where
  "gate_laws E held \<longleftrightarrow>
     (\<forall>f w w'. gate_take E f w = (Inr (), w') \<longrightarrow> held w = None \<and> held w' = Some f) \<and>
     (\<forall>f w e w'. gate_take E f w = (Inl e, w') \<longrightarrow> held w' = held w) \<and>
     (\<forall>w. held (snd (exec_begin E w)) = held w) \<and> (\<forall>w. held (snd (exec_commit E w)) = held w) \<and>
     (\<forall>w. held (snd (exec_rollback E w)) = held w) \<and> (\<forall>q w. held (snd (run_statement E q w)) = held w) \<and>
     (\<forall>q w. held (snd (run_with_options E q w)) = held w)"

text \<open>Turns taken and ended alternate; the result is the turn left open, or \<open>None\<close> for a history that does not alternate.\<close>
fun open_turn :: "turn_event list \<Rightarrow> flow option \<Rightarrow> flow option option" where
  "open_turn [] cur = Some cur"
| "open_turn (Taken f # es) cur = (if cur = None then open_turn es (Some f) else None)"
| "open_turn (Ended f # es) cur = (if cur = Some f then open_turn es None else None)"

lemma open_turn_append: "open_turn (es @ es') cur = (case open_turn es cur of None \<Rightarrow> None | Some c \<Rightarrow> open_turn es' c)"
  by (induction es cur rule: open_turn.induct) auto

definition session_inv :: "('w \<Rightarrow> flow option) \<Rightarrow> 'w sq_session \<Rightarrow> bool" where
  "session_inv held s \<longleftrightarrow> open_turn (turns s) None = Some (turn s) \<and>
     (turn s = None \<or> held (world s) = turn s)"

lemma session_inv_endTurn: "session_inv held s \<Longrightarrow> session_inv held (endTurn E s) \<and> turn (endTurn E s) = None"
  by (auto simp: session_inv_def endTurn_def open_turn_append split: option.split)

lemma session_inv_fields [simp]:
  "session_inv held (s\<lparr>inTransaction := b\<rparr>) = session_inv held s"
  "session_inv held (s\<lparr>connection := c\<rparr>) = session_inv held s"
  by (simp_all add: session_inv_def)

lemma on_world_inv:
  assumes "\<And>w. held (snd (m w)) = held w" "session_inv held s"
  shows "session_inv held (snd (on_world m s))"
  using assms(2) assms(1) [of "world s"]
  by (auto simp: on_world_def session_inv_def split: prod.splits sum.splits)

lemma on_world_cases: "on_world m s = (r, s') \<Longrightarrow> \<exists>w. s' = s\<lparr>world := w\<rparr>"
  by (auto simp: on_world_def split: prod.splits sum.splits)

lemma connector_commit_held:
  "gate_laws E held \<Longrightarrow> held (snd (connector_commit E w)) = held w"
  by (auto simp: connector_commit_def io_defs gate_laws_def split: prod.splits sum.splits) (metis snd_conv)+

lemma leave_inv:
  "session_inv held s \<Longrightarrow> session_inv held (snd (leave_transaction E s)) \<and> turn (snd (leave_transaction E s)) = None"
  using session_inv_endTurn [of held "s\<lparr>inTransaction := False\<rparr>" E]
  by (simp add: leave_transaction_def update_session_def)

lemma finally_leave_inv:
  assumes "\<And>w. held (snd (m w)) = held w" "session_inv held s"
  shows "session_inv held (snd (io_finally (on_world m) (leave_transaction E) s)) \<and>
    turn (snd (io_finally (on_world m) (leave_transaction E) s)) = None"
  by (simp only: io_finally_world) (rule leave_inv [OF on_world_inv [OF assms]])

lemma sq_rollback_inv: "gate_laws E held \<Longrightarrow> session_inv held s \<Longrightarrow> session_inv held (snd (sq_rollback E s))"
  using finally_leave_inv [of held "exec_rollback E" s E]
  by (auto simp: sq_rollback_def needs_connection_def gate_laws_def)

lemma sq_commit_inv: "gate_laws E held \<Longrightarrow> session_inv held s \<Longrightarrow> session_inv held (snd (sq_commit E s))"
  using finally_leave_inv [of held "connector_commit E" s E] connector_commit_held [of E held]
  by (auto simp: sq_commit_def needs_connection_def)

lemma sq_close_inv:
  assumes "gate_laws E held" "session_inv held s"
  shows "session_inv held (snd (sq_close E s)) \<and> turn (snd (sq_close E s)) = None \<and> \<not> connection (snd (sq_close E s))"
proof -
  let ?b = "\<lambda>s. if inTransaction s then sq_rollback E s else (Inr (), s)"
  have "session_inv held (snd (?b s))" using sq_rollback_inv [OF assms] assms(2) by simp
  then show ?thesis
    using session_inv_endTurn [of held "snd (?b s)" E]
    by (simp add: sq_close_def io_finally_world update_session_def)
qed

lemma begin_in_turn_inv:
  assumes "gate_laws E held" "session_inv held s"
  shows "session_inv held (snd (begin_in_turn E s))"
proof -
  obtain r s1 where 1: "on_world (exec_begin E) s = (r, s1)" by (metis surj_pair)
  have "session_inv held s1"
    using on_world_inv [of held "exec_begin E" s] assms 1 by (simp add: gate_laws_def)
  then show ?thesis using 1 session_inv_endTurn [of held s1 E]
    by (cases r) (simp_all add: begin_in_turn_def io_defs update_session_def)
qed

lemma take_turn_inv:
  assumes "gate_laws E held" "session_inv held s"
  shows "session_inv held (snd (take_turn E s))"
proof (cases "sflow s")
  case None
  then show ?thesis using assms(2) by (simp add: take_turn_def)
next
  case (Some f)
  obtain r w where r: "gate_take E f (world s) = (r, w)" by (metis surj_pair)
  show ?thesis
  proof (cases r)
    case (Inl e)
    then show ?thesis using assms r Some
      by (auto simp: take_turn_def io_defs on_world_def session_inv_def gate_laws_def)
  next
    case (Inr u)
    have "held (world s) = None" "held w = Some f"
      using assms(1) r Inr by (auto simp: gate_laws_def)
    then show ?thesis using assms(2) r Inr Some
      by (auto simp: take_turn_def io_defs on_world_def update_session_def session_inv_def open_turn_append)
  qed
qed

lemma sq_start_inv:
  assumes "gate_laws E held" "session_inv held s"
  shows "session_inv held (snd (sq_startTransaction E s))"
proof -
  obtain r s1 where 1: "take_turn E s = (r, s1)" by (metis surj_pair)
  have "session_inv held s1" using take_turn_inv [OF assms] 1 by simp
  then show ?thesis using assms begin_in_turn_inv [OF assms(1), of s1] 1
    by (cases r) (simp_all add: sq_startTransaction_def needs_connection_def io_defs)
qed

lemma statement_inv:
  assumes "gate_laws E held" "session_inv held s"
  shows "session_inv held (snd (sq_query E q s))" "session_inv held (snd (sq_queryWithOptions E q s))"
    "session_inv held (snd (savepoint_command E cmd name s))"
proof -
  have q: "session_inv held (snd (sq_query E q s))" for q
    using on_world_inv [of held "run_statement E q" s] assms
    by (simp add: sq_query_def needs_connection_def gate_laws_def)
  then show "session_inv held (snd (sq_query E q s))" .
  show "session_inv held (snd (sq_queryWithOptions E q s))"
    using on_world_inv [of held "run_with_options E q" s] assms
    by (simp add: sq_queryWithOptions_def needs_connection_def gate_laws_def)
  obtain r s1 where 1: "sq_query E (cmd @ double_quote name) s = (r, s1)" by (metis surj_pair)
  show "session_inv held (snd (savepoint_command E cmd name s))"
    using q [of "cmd @ double_quote name"] assms(2) 1
    by (cases r) (auto simp: savepoint_command_def needs_connection_def io_defs split: sum.split)
qed

lemma sq_create_inv: "session_inv held s \<Longrightarrow> session_inv held (snd (sq_createConnection E s))"
  by (simp add: sq_createConnection_def Let_def session_inv_def)

lemma sq_run_inv: "gate_laws E held \<Longrightarrow> session_inv held s \<Longrightarrow> session_inv held (sq_run E c s)"
  by (cases c) (simp_all add: sq_create_inv sq_start_inv sq_commit_inv sq_rollback_inv sq_close_inv statement_inv
      sq_savepoint_def sq_rollbackTo_def)

lemma sq_runs_inv: "gate_laws E held \<Longrightarrow> session_inv held s \<Longrightarrow> session_inv held (fold (sq_run E) cs s)"
  by (induction cs arbitrary: s) (simp_all add: sq_run_inv)

text \<open>Whatever the calls and whatever fails, a session gives the turns it took at the gate back one by one
  before it takes another, and an attempt to commit or close leaves it without a turn.\<close>
theorem session_turns_balanced:
  assumes "gate_laws E held"
  shows "(let s = fold (sq_run E) cs (new_session w) in open_turn (turns s) None = Some (turn s) \<and>
    open_turn (turns (sq_run E Sq_Close s)) None = Some None \<and> \<not> connection (sq_run E Sq_Close s) \<and>
    (\<not> connection s \<or> open_turn (turns (sq_run E Sq_Commit s)) None = Some None))"
proof -
  let ?s = "fold (sq_run E) cs (new_session w)"
  have inv: "session_inv held ?s"
    by (rule sq_runs_inv [OF assms]) (simp add: session_inv_def new_session_def)
  have close: "session_inv held (sq_run E Sq_Close ?s)" "turn (sq_run E Sq_Close ?s) = None" "\<not> connection (sq_run E Sq_Close ?s)"
    using sq_close_inv [OF assms inv] by simp_all
  have commit: "connection ?s \<Longrightarrow> session_inv held (sq_run E Sq_Commit ?s) \<and> turn (sq_run E Sq_Commit ?s) = None"
    using finally_leave_inv [of held "connector_commit E" ?s E] connector_commit_held [OF assms] inv
    by (simp add: sq_commit_def needs_connection_def)
  show ?thesis using inv close commit by (auto simp: Let_def session_inv_def)
qed

text \<open>A handle whose COMMIT always fails, over a world that is the flow the gate holds the connection for.\<close>
definition failing_env :: "(flow option, string, unit) sq_env" where
  "failing_env = \<lparr>exec_begin = io_return (), exec_commit = io_throw ''disk full'', exec_rollback = io_return (),
     run_statement = (\<lambda>_. io_return ()), run_with_options = (\<lambda>_. io_return ()), has_connection = (\<lambda>_. True),
     current_flow = (\<lambda>_. Some 7),
     gate_take = (\<lambda>f w. case w of None \<Rightarrow> (Inr (), Some f) | Some _ \<Rightarrow> (Inl ''timeout'', w)), gate_give = (\<lambda>f w. None)\<rparr>"

theorem session_turns_balanced_witness:
  "turns (fold (sq_run failing_env) [Sq_Create, Sq_Start, Sq_Query ''INSERT'', Sq_Commit, Sq_Start, Sq_Close] (new_session None)) =
     [Taken 7, Ended 7, Taken 7, Ended 7] \<and>
   open_turn (turns (sq_run failing_env Sq_Close (fold (sq_run failing_env) [Sq_Create, Sq_Start] (new_session None)))) None = Some None"
proof -
  have laws: "gate_laws failing_env (\<lambda>w. w)"
    by (auto simp: gate_laws_def failing_env_def io_defs split: option.splits)
  have 1: "turns (fold (sq_run failing_env) [Sq_Create, Sq_Start, Sq_Query ''INSERT'', Sq_Commit, Sq_Start, Sq_Close] (new_session None)) =
     [Taken 7, Ended 7, Taken 7, Ended 7]" by code_simp
  show ?thesis using session_turns_balanced [OF laws, of "[Sq_Create, Sq_Start]" None] 1 by (simp only: Let_def simp_thms)
qed

end
