(* ===== verification/Replication.thy ===== *)
theory Replication
  imports Prelude "HOL-Library.Multiset"
begin

section \<open>Read replicas (src/dialects/ReplicationRouter.ts)\<close>

text \<open>
  \<^verbatim>\<open>ReplicationRouter\<close> decides which node a read goes to and keeps the health of the slaves. The record
  \<open>router\<close> has the fields of the class; a node is any value, the slaves are compared by identity, a
  counter that is missing in its map counts as 0. A health-check cycle is the list of its checks in the
  order they ended, each with its outcome; the timer and the query of the check are left out. The
  random choice is an argument. Console output is left out.
\<close>

datatype strategy = Round_Robin | Random_Choice

record health_config =
  hc_enabled :: bool
  failureThreshold :: "nat option"
  recoveryThreshold :: "nat option"

record 'n router =
  master :: 'n
  slaves :: "'n list"
  slaveIndex :: nat
  failedSlaves :: "nat list"
  strategy :: strategy
  healthCheckConfig :: "health_config option"
  health_checking :: bool
  consecutiveFailures :: "(nat \<times> nat) list"
  consecutiveSuccesses :: "(nat \<times> nat) list"

record 'n replication_config =
  cfg_master :: "'n option"
  cfg_slaves :: "'n list option"
  cfg_healthCheck :: "health_config option"
  cfg_strategy :: "strategy option"

definition newRouter :: "'n replication_config \<Rightarrow> OrmErrorCode + 'n router" where
  "newRouter c = (case (cfg_master c, cfg_slaves c) of
     (None, _) \<Rightarrow> Inl VALIDATION_FAILED
   | (Some m, None) \<Rightarrow> Inl VALIDATION_FAILED
   | (Some m, Some ss) \<Rightarrow> if ss = [] then Inl VALIDATION_FAILED
       else Inr \<lparr>master = m, slaves = ss, slaveIndex = 0, failedSlaves = [],
         strategy = (case cfg_strategy c of None \<Rightarrow> Round_Robin | Some s \<Rightarrow> s),
         healthCheckConfig = cfg_healthCheck c, health_checking = False, consecutiveFailures = [], consecutiveSuccesses = []\<rparr>)"

definition startHealthCheck :: "'n router \<Rightarrow> 'n router" where
  "startHealthCheck r = (case healthCheckConfig r of
     None \<Rightarrow> r | Some c \<Rightarrow> if hc_enabled c then r\<lparr>health_checking := True\<rparr> else r)"

definition stopHealthCheck :: "'n router \<Rightarrow> 'n router" where
  "stopHealthCheck r = r\<lparr>health_checking := False\<rparr>"

definition threshold_of :: "(health_config \<Rightarrow> nat option) \<Rightarrow> nat \<Rightarrow> 'n router \<Rightarrow> nat" where
  "threshold_of sel d r = (case Option.bind (healthCheckConfig r) sel of None \<Rightarrow> d | Some n \<Rightarrow> n)"

definition count_of :: "(nat \<times> nat) list \<Rightarrow> nat \<Rightarrow> nat" where
  "count_of m i = (case jm_get m i of None \<Rightarrow> 0 | Some n \<Rightarrow> n)"

text \<open>The end of the check of slave \<open>i\<close>: the branch of \<^verbatim>\<open>try\<close> for a success, of \<^verbatim>\<open>catch\<close> for a failure.\<close>
definition check_done :: "nat \<Rightarrow> bool \<Rightarrow> 'n router \<Rightarrow> 'n router" where
  "check_done i ok r = (if ok
     then (let successes = count_of (consecutiveSuccesses r) i + 1;
               r' = r\<lparr>consecutiveFailures := jm_set i 0 (consecutiveFailures r),
                      consecutiveSuccesses := jm_set i successes (consecutiveSuccesses r)\<rparr> in
           if i \<in> set (failedSlaves r) \<and> threshold_of recoveryThreshold 2 r \<le> successes
           then r'\<lparr>failedSlaves := js_delete i (failedSlaves r),
                   consecutiveSuccesses := jm_set i 0 (consecutiveSuccesses r')\<rparr>
           else r')
     else (let failures = count_of (consecutiveFailures r) i + 1;
               r' = r\<lparr>consecutiveSuccesses := jm_set i 0 (consecutiveSuccesses r),
                      consecutiveFailures := jm_set i failures (consecutiveFailures r)\<rparr> in
           if i \<notin> set (failedSlaves r) \<and> threshold_of failureThreshold 3 r \<le> failures
           then r'\<lparr>failedSlaves := js_add i (failedSlaves r)\<rparr>
           else r'))"

definition runHealthChecks :: "(nat \<times> bool) list \<Rightarrow> 'n router \<Rightarrow> 'n router" where
  "runHealthChecks outcomes r = (if health_checking r then fold (\<lambda>(i, ok). check_done i ok) outcomes r else r)"

definition getWriteNode :: "'n router \<Rightarrow> 'n" where
  "getWriteNode r = master r"

text \<open>The loop over the slaves from \<open>start\<close>; \<open>left\<close> is \<^verbatim>\<open>slaves.length - i\<close>.\<close>
fun round_robin :: "nat \<Rightarrow> nat \<Rightarrow> nat \<Rightarrow> 'n router \<Rightarrow> 'n \<times> 'n router" where
  "round_robin start i 0 r = (master r, r)"
| "round_robin start i (Suc left) r = (let idx = (start + i) mod length (slaves r) in
     if idx \<notin> set (failedSlaves r)
     then (slaves r ! idx, r\<lparr>slaveIndex := (idx + 1) mod length (slaves r)\<rparr>)
     else round_robin start (i + 1) left r)"

definition getReadNodeRoundRobin :: "'n router \<Rightarrow> 'n \<times> 'n router" where
  "getReadNodeRoundRobin r = round_robin (slaveIndex r) 0 (length (slaves r)) r"

definition healthy_indices :: "'n router \<Rightarrow> nat list" where
  "healthy_indices r = filter (\<lambda>i. i \<notin> set (failedSlaves r)) [0..<length (slaves r)]"

text \<open>\<open>pick n\<close> is \<^verbatim>\<open>Math.floor(Math.random() * n)\<close>, a position below \<open>n\<close>.\<close>
definition getReadNodeRandom :: "(nat \<Rightarrow> nat) \<Rightarrow> 'n router \<Rightarrow> 'n" where
  "getReadNodeRandom pick r = (let healthy = healthy_indices r in
     if healthy = [] then master r else slaves r ! (healthy ! pick (length healthy)))"

definition getReadNode :: "(nat \<Rightarrow> nat) \<Rightarrow> 'n router \<Rightarrow> 'n \<times> 'n router" where
  "getReadNode pick r = (if length (failedSlaves r) \<ge> length (slaves r) then (master r, r)
     else if strategy r = Random_Choice then (getReadNodeRandom pick r, r)
     else getReadNodeRoundRobin r)"

fun index_of :: "'n \<Rightarrow> 'n list \<Rightarrow> nat option" where
  "index_of x [] = None"
| "index_of x (y # ys) = (if y = x then Some 0 else map_option Suc (index_of x ys))"

definition markSlaveFailed :: "'n \<Rightarrow> 'n router \<Rightarrow> 'n router" where
  "markSlaveFailed node r = (case index_of node (slaves r) of
     None \<Rightarrow> r | Some i \<Rightarrow> r\<lparr>failedSlaves := js_add i (failedSlaves r)\<rparr>)"

definition markSlaveRecovered :: "'n \<Rightarrow> 'n router \<Rightarrow> 'n router" where
  "markSlaveRecovered node r = (case index_of node (slaves r) of
     None \<Rightarrow> r | Some i \<Rightarrow> r\<lparr>failedSlaves := js_delete i (failedSlaves r)\<rparr>)"

definition resetFailedSlaves :: "'n router \<Rightarrow> 'n router" where
  "resetFailedSlaves r = r\<lparr>failedSlaves := []\<rparr>"

definition isMaster :: "'n \<Rightarrow> 'n router \<Rightarrow> bool" where
  "isMaster node r \<longleftrightarrow> node = master r"

definition slaveCount :: "'n router \<Rightarrow> nat" where
  "slaveCount r = length (slaves r)"

definition healthySlaveCount :: "'n router \<Rightarrow> nat" where
  "healthySlaveCount r = length (slaves r) - length (failedSlaves r)"

subsection \<open>Invariant\<close>

definition router_wf :: "'n router \<Rightarrow> bool" where
  "router_wf r \<longleftrightarrow> slaves r \<noteq> [] \<and> slaveIndex r < length (slaves r) \<and> distinct (failedSlaves r) \<and>
     set (failedSlaves r) \<subseteq> {..<length (slaves r)}"

lemma index_of_bound: "index_of x xs = Some i \<Longrightarrow> i < length xs \<and> xs ! i = x"
  by (induction xs arbitrary: i) (auto split: if_splits)

lemma check_done_wf: "router_wf r \<Longrightarrow> i < length (slaves r) \<Longrightarrow> router_wf (check_done i ok r)"
  by (auto simp: router_wf_def check_done_def Let_def distinct_js_delete)

lemma mark_wf: "router_wf r \<Longrightarrow> router_wf (markSlaveFailed n r)" "router_wf r \<Longrightarrow> router_wf (markSlaveRecovered n r)"
  "router_wf r \<Longrightarrow> router_wf (resetFailedSlaves r)"
  by (auto simp: router_wf_def markSlaveFailed_def markSlaveRecovered_def resetFailedSlaves_def distinct_js_delete
      dest: index_of_bound split: option.splits)

lemma length_healthy: "router_wf r \<Longrightarrow> length (healthy_indices r) = healthySlaveCount r"
proof -
  assume wf: "router_wf r"
  have "length (healthy_indices r) = card (set (healthy_indices r))"
    by (rule distinct_card [symmetric]) (simp add: healthy_indices_def)
  also have "set (healthy_indices r) = {..<length (slaves r)} - set (failedSlaves r)"
    by (auto simp: healthy_indices_def)
  also have "card \<dots> = length (slaves r) - length (failedSlaves r)"
    using wf by (simp add: card_Diff_subset router_wf_def distinct_card)
  finally show ?thesis by (simp add: healthySlaveCount_def)
qed

subsection \<open>Round robin\<close>

text \<open>The healthy slaves in the cyclic order that starts at the index of the next read.\<close>
definition cycle :: "'n router \<Rightarrow> nat list" where
  "cycle r = filter (\<lambda>i. i \<notin> set (failedSlaves r)) ([slaveIndex r..<length (slaves r)] @ [0..<slaveIndex r])"

lemma cycle_positions:
  assumes "s < n"
  shows "[s..<n] @ [0..<s] = map (\<lambda>i. (s + i) mod n) [0..<n]"
proof (rule nth_equalityI)
  fix i assume "i < length ([s..<n] @ [0..<s])"
  then show "([s..<n] @ [0..<s]) ! i = map (\<lambda>i. (s + i) mod n) [0..<n] ! i"
    using assms by (auto simp: nth_append mod_if)
qed (use assms in simp)

lemma round_robin_first:
  "round_robin start i left r = (case filter (\<lambda>j. j \<notin> set (failedSlaves r)) (map (\<lambda>k. (start + k) mod length (slaves r)) [i..<i + left]) of
     [] \<Rightarrow> (master r, r)
   | idx # _ \<Rightarrow> (slaves r ! idx, r\<lparr>slaveIndex := (idx + 1) mod length (slaves r)\<rparr>))"
proof (induction start i left r rule: round_robin.induct)
  case (2 start i left r)
  then show ?case by (auto simp: Let_def upt_conv_Cons simp del: upt_Suc)
qed simp

lemma getReadNodeRoundRobin_cycle:
  assumes "slaveIndex r < length (slaves r)" "cycle r = idx # rest"
  shows "getReadNodeRoundRobin r = (slaves r ! idx, r\<lparr>slaveIndex := (idx + 1) mod length (slaves r)\<rparr>)"
  using assms(2) round_robin_first [of "slaveIndex r" 0 "length (slaves r)" r]
  by (simp add: getReadNodeRoundRobin_def cycle_def cycle_positions [OF assms(1)])

lemma rotate_cycle:
  assumes "s < n"
  shows "rotate m ([s..<n] @ [0..<s]) = [(s + m) mod n..<n] @ [0..<(s + m) mod n]"
proof -
  have n: "0 < n" using assms by simp
  have "rotate m (map (\<lambda>i. (s + i) mod n) [0..<n]) = map (\<lambda>i. ((s + m) mod n + i) mod n) [0..<n]"
    by (rule nth_equalityI) (simp_all add: nth_rotate mod_add_left_eq mod_add_right_eq n add.assoc)
  then show ?thesis by (simp add: cycle_positions [OF assms] cycle_positions [of "(s + m) mod n" n] n)
qed

lemma cycle_after_read:
  assumes "slaveIndex r < length (slaves r)" "cycle r = idx # rest"
  shows "cycle (r\<lparr>slaveIndex := (idx + 1) mod length (slaves r)\<rparr>) = rest @ [idx]"
proof -
  let ?n = "length (slaves r)" and ?P = "\<lambda>i. i \<notin> set (failedSlaves r)"
  let ?L = "[slaveIndex r..<?n] @ [0..<slaveIndex r]"
  obtain us vs where split: "?L = us @ idx # vs" "\<forall>u\<in>set us. \<not> ?P u" "?P idx" "rest = filter ?P vs"
    using assms(2) unfolding cycle_def filter_eq_Cons_iff by auto
  have "?L ! length us = idx" using split(1) by (metis nth_append_length)
  moreover have "length us < ?n" using arg_cong [OF split(1), of length] assms(1) by simp
  ultimately have idx: "idx = (slaveIndex r + length us) mod ?n"
    using cycle_positions [OF assms(1)] by simp
  have "[(idx + 1) mod ?n..<?n] @ [0..<(idx + 1) mod ?n] = rotate (Suc (length us)) ?L"
    using rotate_cycle [OF assms(1), of "Suc (length us)"] idx by (simp add: mod_Suc_eq)
  also have "\<dots> = vs @ us @ [idx]"
    using rotate_append [of "us @ [idx]" vs] by (simp add: split(1) del: rotate_Suc)
  finally show ?thesis using split(2-4) by (simp add: cycle_def)
qed

fun reads :: "(nat \<Rightarrow> nat) \<Rightarrow> nat \<Rightarrow> 'n router \<Rightarrow> 'n list \<times> 'n router" where
  "reads pick 0 r = ([], r)"
| "reads pick (Suc k) r = (case getReadNode pick r of (n, r') \<Rightarrow> (case reads pick k r' of (ns, r'') \<Rightarrow> (n # ns, r'')))"

lemma healthy_cycle: "mset (cycle r) = mset (healthy_indices r)" if "slaveIndex r < length (slaves r)"
proof -
  have "mset ([slaveIndex r..<length (slaves r)] @ [0..<slaveIndex r]) = mset [0..<length (slaves r)]"
    using that by (metis add_diff_inverse_nat le0 less_imp_le mset_append not_less union_commute upt_add_eq_append)
  then show ?thesis unfolding cycle_def healthy_indices_def mset_filter by (rule arg_cong)
qed

lemma reads_rotate:
  assumes "router_wf r" "strategy r = Round_Robin" "k \<le> length (cycle r)"
  shows "\<exists>r'. reads pick k r = (map (\<lambda>i. slaves r ! i) (take k (cycle r)), r') \<and> router_wf r' \<and>
    slaves r' = slaves r \<and> failedSlaves r' = failedSlaves r \<and> cycle r' = rotate k (cycle r)"
  using assms
proof (induction k arbitrary: r)
  case (Suc k)
  then obtain idx rest where c: "cycle r = idx # rest" by (cases "cycle r") auto
  have idx: "slaveIndex r < length (slaves r)" using Suc.prems(1) by (simp add: router_wf_def)
  let ?r = "r\<lparr>slaveIndex := (idx + 1) mod length (slaves r)\<rparr>"
  have "length (cycle r) = length (healthy_indices r)"
    using healthy_cycle [OF idx] by (metis size_mset)
  then have "length (failedSlaves r) < length (slaves r)"
    using length_healthy [OF Suc.prems(1)] c by (simp add: healthySlaveCount_def)
  then have get: "getReadNode pick r = (slaves r ! idx, ?r)"
    using getReadNodeRoundRobin_cycle [OF idx c] Suc.prems(2) by (simp add: getReadNode_def)
  have wf: "router_wf ?r" using Suc.prems(1) by (simp add: router_wf_def)
  have cyc: "cycle ?r = rest @ [idx]" by (rule cycle_after_read [OF idx c])
  from Suc.IH [OF wf, unfolded cyc] Suc.prems(2,3) c obtain r' where
    r': "reads pick k ?r = (map (\<lambda>i. slaves r ! i) (take k (rest @ [idx])), r')" "router_wf r'"
    "slaves r' = slaves r" "failedSlaves r' = failedSlaves r" "cycle r' = rotate k (rest @ [idx])"
    by auto
  moreover have "take k (rest @ [idx]) = take k rest" using Suc.prems(3) c by simp
  moreover have "rotate k (rest @ [idx]) = rotate (Suc k) (cycle r)" by (simp add: c rotate1_rotate_swap rotate_def funpow_swap1)
  ultimately show ?case using get c by simp
qed simp

text \<open>While the set of failed slaves does not change and some slave is healthy, as many round-robin reads as
  there are healthy slaves go to each healthy slave once, never to a failed one or to the master, and
  leave the rotation where it was, so the next round is the same.\<close>
theorem round_robin_fair:
  assumes "router_wf r" "strategy r = Round_Robin" "0 < healthySlaveCount r"
  shows "\<exists>order r'. mset order = mset (healthy_indices r) \<and>
    reads pick (healthySlaveCount r) r = (map (\<lambda>i. slaves r ! i) order, r') \<and> router_wf r' \<and>
    cycle r = order \<and> cycle r' = order"
proof -
  have idx: "slaveIndex r < length (slaves r)" using assms(1) by (simp add: router_wf_def)
  have len: "length (cycle r) = healthySlaveCount r"
    using healthy_cycle [OF idx] length_healthy [OF assms(1)] by (metis size_mset)
  obtain r' where "reads pick (healthySlaveCount r) r = (map (\<lambda>i. slaves r ! i) (cycle r), r')" "router_wf r'" "cycle r' = cycle r"
    using reads_rotate [OF assms(1,2), of "healthySlaveCount r" pick] len by auto
  then show ?thesis using healthy_cycle [OF idx] by (intro exI conjI) (assumption | rule refl)+
qed

definition small_router :: "string router" where
  "small_router = \<lparr>master = ''m'', slaves = [''a'', ''b'', ''c'', ''d''], slaveIndex = 2, failedSlaves = [3],
     strategy = Round_Robin, healthCheckConfig = None, health_checking = True, consecutiveFailures = [], consecutiveSuccesses = [(1, 5)]\<rparr>"

theorem round_robin_fair_witness:
  "\<exists>order r'. mset order = mset [0, 1, 2] \<and> reads (\<lambda>_. 0) 3 small_router = (map (\<lambda>i. [''a'', ''b'', ''c'', ''d''] ! i) order, r') \<and>
     cycle r' = order"
proof -
  have 1: "router_wf small_router" "healthySlaveCount small_router = 3" "strategy small_router = Round_Robin"
    "healthy_indices small_router = [0, 1, 2]" "slaves small_router = [''a'', ''b'', ''c'', ''d'']"
    by (auto simp: router_wf_def small_router_def healthySlaveCount_def healthy_indices_def upt_rec)
  from round_robin_fair [OF 1(1,3), of "\<lambda>_. 0"] show ?thesis unfolding 1(2,4,5) by force
qed

subsection \<open>Health checks\<close>

lemma check_done_counts:
  "count_of (consecutiveFailures (check_done i ok r)) j =
     (if j = i then if ok then 0 else count_of (consecutiveFailures r) i + 1 else count_of (consecutiveFailures r) j)"
  by (simp add: check_done_def count_of_def Let_def js_simps)

lemma check_done_others [simp]:
  "slaves (check_done i ok r) = slaves r" "healthCheckConfig (check_done i ok r) = healthCheckConfig r"
  "threshold_of sel d (check_done i ok r) = threshold_of sel d r"
  by (simp_all add: check_done_def Let_def threshold_of_def)

lemma check_fail_failed: "i \<in> set (failedSlaves (check_done i False r)) \<longleftrightarrow>
    i \<in> set (failedSlaves r) \<or> threshold_of failureThreshold 3 r \<le> count_of (consecutiveFailures r) i + 1"
  by (auto simp: check_done_def Let_def)

lemma failures_in_a_row:
  "count_of (consecutiveFailures (fold (\<lambda>(i, ok). check_done i ok) (replicate n (i, False)) r)) i =
     count_of (consecutiveFailures r) i + n \<and>
   (i \<in> set (failedSlaves (fold (\<lambda>(i, ok). check_done i ok) (replicate n (i, False)) r)) \<longleftrightarrow>
     i \<in> set (failedSlaves r) \<or> (0 < n \<and> threshold_of failureThreshold 3 r \<le> count_of (consecutiveFailures r) i + n))"
proof (induction n arbitrary: r)
  case (Suc n)
  show ?case
    using Suc [of "check_done i False r"] check_fail_failed [of i r] by (auto simp: check_done_counts)
qed simp

text \<open>C99: After a successful check, a slave that is not marked is marked as failed exactly when \<^verbatim>\<open>failureThreshold\<close>
  checks of it fail in a row.\<close>
theorem failure_threshold_exact:
  assumes "i \<notin> set (failedSlaves r)" "health_checking r" "0 < threshold_of failureThreshold 3 r"
  shows "i \<in> set (failedSlaves (runHealthChecks ((i, True) # replicate n (i, False)) r)) \<longleftrightarrow>
    threshold_of failureThreshold 3 r \<le> n"
proof -
  have "i \<notin> set (failedSlaves (check_done i True r))" "count_of (consecutiveFailures (check_done i True r)) i = 0"
    using assms(1) by (simp_all add: check_done_def Let_def count_of_def js_simps)
  then show ?thesis
    using failures_in_a_row [of n i "check_done i True r"] assms(2,3) by (auto simp: runHealthChecks_def)
qed

theorem failure_threshold_exact_witness:
  "1 \<notin> set (failedSlaves (runHealthChecks ((1, True) # replicate 2 (1, False)) small_router)) \<and>
   1 \<in> set (failedSlaves (runHealthChecks ((1, True) # replicate 3 (1, False)) small_router))"
proof -
  have 1: "1 \<notin> set (failedSlaves small_router)" "health_checking small_router" "threshold_of failureThreshold 3 small_router = 3"
    by (simp_all add: small_router_def threshold_of_def)
  show ?thesis using failure_threshold_exact [OF 1(1,2), of 2] failure_threshold_exact [OF 1(1,2), of 3] 1(3) by simp
qed

text \<open>\<^verbatim>\<open>markSlaveFailed\<close> leaves the success counter of the slave as it was: a slave whose earlier checks had reached
  the recovery threshold is put back into rotation by the first check after it was marked.\<close>
theorem marked_slave_back_after_one_check:
  assumes "index_of node (slaves r) = Some i" "health_checking r"
    and "threshold_of recoveryThreshold 2 r \<le> count_of (consecutiveSuccesses r) i"
  shows "i \<in> set (failedSlaves (markSlaveFailed node r)) \<and>
    i \<notin> set (failedSlaves (runHealthChecks [(i, True)] (markSlaveFailed node r)))"
  using assms by (auto simp: markSlaveFailed_def runHealthChecks_def check_done_def Let_def threshold_of_def count_of_def)

theorem marked_slave_back_after_one_check_witness:
  "1 \<in> set (failedSlaves (markSlaveFailed ''b'' small_router)) \<and>
   1 \<notin> set (failedSlaves (runHealthChecks [(1, True)] (markSlaveFailed ''b'' small_router)))"
  by (rule marked_slave_back_after_one_check) (simp_all add: small_router_def threshold_of_def count_of_def)

section \<open>Node pools (src/core/ReplicationManager.ts, src/dialects/connectReplicationNode.ts)\<close>

text \<open>
  \<^verbatim>\<open>ReplicationManager\<close> owns the router and one connection pool per node. A pool is the promise of a
  connector: a number, whose state is in \<open>pools\<close>. \<open>Opening True\<close> is a pool still opening that \<^verbatim>\<open>release\<close>
  waits for, to close it. The operations may come in any order, with pools opening or failing in
  between (\<open>pool_settled\<close>).
\<close>

datatype pool_status = Opening bool | Open_Pool | Open_Failed | Closed_Pool

record ('n, 'o) manager =
  mrouter :: "'n router option"
  connectionOptions :: "'o option"
  nodePools :: "('n \<times> nat) list"
  pools :: "nat \<Rightarrow> pool_status option"
  next_pool :: nat

definition new_manager :: "('n, 'o) manager" where
  "new_manager = \<lparr>mrouter = None, connectionOptions = None, nodePools = [], pools = Map.empty, next_pool = 0\<rparr>"

definition assertReplicationSupported :: "string option \<Rightarrow> OrmErrorCode + unit" where
  "assertReplicationSupported t = (if t \<in> {Some ''postgres'', Some ''mysql'', Some ''mariadb''} then Inr ()
     else Inl UNSUPPORTED_DATABASE)"

text \<open>What \<^verbatim>\<open>release\<close> does to a pool: an open one is closed, one still opening will be.\<close>
fun release_pool :: "pool_status \<Rightarrow> pool_status" where
  "release_pool (Opening _) = Opening True"
| "release_pool Open_Pool = Closed_Pool"
| "release_pool st = st"

definition release_manager :: "('n, 'o) manager \<Rightarrow> ('n, 'o) manager" where
  "release_manager M = M\<lparr>mrouter := None, connectionOptions := None, nodePools := [],
     pools := (\<lambda>p. if p \<in> set (map snd (nodePools M)) then map_option release_pool (pools M p) else pools M p)\<rparr>"

definition initialize :: "('o \<Rightarrow> string option) \<Rightarrow> 'n replication_config \<Rightarrow> 'o \<Rightarrow> ('n, 'o) manager \<Rightarrow>
    (OrmErrorCode + unit) \<times> ('n, 'o) manager" where
  "initialize type_of cfg opts M = (case assertReplicationSupported (type_of opts) of
     Inl e \<Rightarrow> (Inl e, M)
   | Inr _ \<Rightarrow> (let M' = release_manager M in case newRouter cfg of
       Inl e \<Rightarrow> (Inl e, M')
     | Inr r \<Rightarrow> (Inr (), M'\<lparr>mrouter := Some (startHealthCheck r), connectionOptions := Some opts\<rparr>)))"

definition manager_read_node :: "bool \<Rightarrow> (nat \<Rightarrow> nat) \<Rightarrow> ('n, 'o) manager \<Rightarrow> 'n option \<times> ('n, 'o) manager" where
  "manager_read_node useMaster pick M = (case mrouter M of
     None \<Rightarrow> (None, M)
   | Some r \<Rightarrow> if useMaster then (Some (getWriteNode r), M)
       else (case getReadNode pick r of (n, r') \<Rightarrow> (Some n, M\<lparr>mrouter := Some r'\<rparr>)))"

definition manager_write_node :: "('n, 'o) manager \<Rightarrow> 'n option" where
  "manager_write_node M = map_option getWriteNode (mrouter M)"

definition isEnabled :: "('n, 'o) manager \<Rightarrow> bool" where
  "isEnabled M \<longleftrightarrow> mrouter M \<noteq> None"

definition nodePool :: "'n \<Rightarrow> ('n, 'o) manager \<Rightarrow> nat \<times> ('n, 'o) manager" where
  "nodePool node M = (case jm_get (nodePools M) node of
     Some p \<Rightarrow> (p, M)
   | None \<Rightarrow> (let p = next_pool M in
       (p, M\<lparr>nodePools := jm_set node p (nodePools M), pools := (pools M)(p \<mapsto> Opening False), next_pool := p + 1\<rparr>)))"

definition connectSession :: "'n \<Rightarrow> ('n, 'o) manager \<Rightarrow> (OrmErrorCode + nat) \<times> ('n, 'o) manager" where
  "connectSession node M = (case connectionOptions M of
     None \<Rightarrow> (Inl NOT_CONNECTED, M)
   | Some _ \<Rightarrow> (case nodePool node M of (p, M') \<Rightarrow> (Inr p, M')))"

text \<open>The promise of a pool settles: a failed one leaves the map (if it is still there), one that was released closes.\<close>
definition pool_settled :: "nat \<Rightarrow> bool \<Rightarrow> ('n, 'o) manager \<Rightarrow> ('n, 'o) manager" where
  "pool_settled p ok M = (case pools M p of
     Some (Opening released) \<Rightarrow>
       (if ok then M\<lparr>pools := (pools M)(p \<mapsto> (if released then Closed_Pool else Open_Pool))\<rparr>
        else M\<lparr>pools := (pools M)(p \<mapsto> Open_Failed), nodePools := filter (\<lambda>(n, q). q \<noteq> p) (nodePools M)\<rparr>)
   | _ \<Rightarrow> M)"

datatype ('n, 'o) manager_call = Initialize "'n replication_config" 'o | Shutdown | Read_Node bool "nat \<Rightarrow> nat"
  | Connect 'n | Settled nat bool

fun manager_run :: "('o \<Rightarrow> string option) \<Rightarrow> ('n, 'o) manager_call \<Rightarrow> ('n, 'o) manager \<Rightarrow> ('n, 'o) manager" where
  "manager_run ty (Initialize c opts) M = snd (initialize ty c opts M)"
| "manager_run ty Shutdown M = release_manager M"
| "manager_run ty (Read_Node m pick) M = snd (manager_read_node m pick M)"
| "manager_run ty (Connect n) M = snd (connectSession n M)"
| "manager_run ty (Settled p ok) M = pool_settled p ok M"

text \<open>Every pool that is open, or opening and not released, is the pool of exactly one node.\<close>
definition pools_owned :: "('n, 'o) manager \<Rightarrow> bool" where
  "pools_owned M \<longleftrightarrow> jm_wf (nodePools M) \<and> distinct (map snd (nodePools M)) \<and>
     (\<forall>p. p \<in> set (map snd (nodePools M)) \<longleftrightarrow> pools M p \<in> {Some (Opening False), Some Open_Pool}) \<and>
     (\<forall>p\<ge>next_pool M. pools M p = None)"

lemma release_owned: "pools_owned M \<Longrightarrow> pools_owned (release_manager M)"
  by (auto simp: pools_owned_def release_manager_def split: if_splits) 

lemma connect_owned:
  assumes "pools_owned M"
  shows "pools_owned (snd (nodePool n M))"
proof (cases "jm_get (nodePools M) n")
  case None
  then have new: "n \<notin> set (jm_keys (nodePools M))" by (simp add: map_of_eq_None_iff image_iff)
  have fresh: "next_pool M \<notin> set (map snd (nodePools M))"
    using assms unfolding pools_owned_def by (metis insertE le_refl option.distinct(1) singletonD)
  then show ?thesis
    using assms new by (auto simp: nodePool_def None Let_def jm_set_new pools_owned_def jm_wf_def)
qed (use assms in \<open>simp add: nodePool_def\<close>)

lemma connect_owned_pair: "nodePool n M = (p, M') \<Longrightarrow> pools_owned M \<Longrightarrow> pools_owned M'"
  by (metis connect_owned snd_conv)

lemma settled_owned:
  assumes "pools_owned M"
  shows "pools_owned (pool_settled p ok M)"
proof (cases "\<exists>b. pools M p = Some (Opening b)")
  case True
  then obtain b where b: "pools M p = Some (Opening b)" by blast
  have sub: "set (map snd (filter (\<lambda>(n, q). q \<noteq> p) (nodePools M))) = set (map snd (nodePools M)) - {p}"
    by force
  have d: "distinct (map fst (filter (\<lambda>(n, q). q \<noteq> p) (nodePools M)))" "distinct (map snd (filter (\<lambda>(n, q). q \<noteq> p) (nodePools M)))"
    using assms by (simp_all add: pools_owned_def jm_wf_def distinct_map_filter)
  have "p < next_pool M" using assms b by (metis not_le option.distinct(1) pools_owned_def)
  then show ?thesis
    using assms b sub d unfolding pools_owned_def pool_settled_def jm_wf_def by (cases ok) auto
next
  case False
  then have "pool_settled p ok M = M"
    by (auto simp: pool_settled_def split: option.splits pool_status.splits)
  then show ?thesis using assms by simp
qed

lemma router_change_owned [simp]: "pools_owned (M\<lparr>mrouter := r\<rparr>) = pools_owned M"
  "pools_owned (M\<lparr>connectionOptions := c\<rparr>) = pools_owned M"
  by (simp_all add: pools_owned_def)

lemma manager_run_owned: "pools_owned M \<Longrightarrow> pools_owned (manager_run ty c M)"
  by (cases c) (auto simp: initialize_def manager_read_node_def connectSession_def Let_def release_owned settled_owned
      split: sum.split option.split prod.split intro: connect_owned_pair)

lemma manager_runs_owned: "pools_owned M \<Longrightarrow> pools_owned (fold (manager_run ty) cs M)"
  by (induction cs arbitrary: M) (simp_all add: manager_run_owned)

text \<open>However registrations, reads, shutdowns and pools that open or fail are interleaved, no pool leaks: a pool
  that is open, or opening and not being released, belongs to exactly one node, and after a shutdown no
  pool is left open, those still opening being closed when they open.\<close>
theorem replication_pools_owned:
  "pools_owned (fold (manager_run ty) cs new_manager) \<and>
   (let M = manager_run ty Shutdown (fold (manager_run ty) cs new_manager) in
     nodePools M = [] \<and> (\<forall>p. pools M p \<notin> {Some (Opening False), Some Open_Pool}) \<and>
     (\<forall>p ok. pools (pool_settled p ok M) p \<noteq> Some Open_Pool))"
proof -
  let ?M = "fold (manager_run ty) cs new_manager"
  have start: "pools_owned new_manager" by (simp add: pools_owned_def new_manager_def)
  have inv: "pools_owned ?M" by (rule manager_runs_owned [OF start])
  have "pools_owned (release_manager ?M)" by (rule release_owned [OF inv])
  then have none: "\<forall>p. pools (release_manager ?M) p \<notin> {Some (Opening False), Some Open_Pool}"
    by (auto simp: pools_owned_def release_manager_def)
  then have "pools (pool_settled p ok (release_manager ?M)) p \<noteq> Some Open_Pool" for p ok
    by (auto simp: pool_settled_def split: option.splits pool_status.splits)
  then show ?thesis using inv none by (simp add: Let_def) (simp add: release_manager_def)
qed

end
