(* ===== verification/QueryCache.thy ===== *)
theory QueryCache
  imports Prelude TextUtils
begin

section \<open>Query result cache (src/core/cache/QueryResultCache.ts)\<close>

text \<open>
  First the built-in store, an LRU map with expiry and a tag index; then \<^verbatim>\<open>QueryResultCache\<close> over any
  store that satisfies the locale \<open>cache_store\<close>, with the built-in one as its interpretation. The clock is
  an argument, values are opaque, an entry that is missing or expired is \<open>None\<close>.
\<close>

subsection \<open>The in-memory store\<close>

record 'v cache_entry =
  entry_value :: 'v
  expiresAt :: int
  entry_tags :: "string list"

record 'v lru_store =
  entries :: "(string \<times> 'v cache_entry) list"
  tagIndex :: "(string \<times> string list) list"
  maxEntries :: nat

definition new_store :: "nat \<Rightarrow> 'v lru_store" where
  "new_store n = \<lparr>entries = [], tagIndex = [], maxEntries = n\<rparr>"

text \<open>One iteration of the loop of \<^verbatim>\<open>remove\<close>: the key leaves the set of the tag, an empty set leaves the index.\<close>
definition untag :: "string \<Rightarrow> string \<Rightarrow> (string \<times> string list) list \<Rightarrow> (string \<times> string list) list" where
  "untag key tag idx = (case jm_get idx tag of
     None \<Rightarrow> idx
   | Some keys \<Rightarrow> (let keys' = js_delete key keys in
       if keys' = [] then jm_delete tag idx else jm_set tag keys' idx))"

definition store_remove :: "string \<Rightarrow> 'v cache_entry \<Rightarrow> 'v lru_store \<Rightarrow> 'v lru_store" where
  "store_remove key e s = s\<lparr>entries := jm_delete key (entries s), tagIndex := fold (untag key) (entry_tags e) (tagIndex s)\<rparr>"

definition store_get :: "string \<Rightarrow> int \<Rightarrow> 'v lru_store \<Rightarrow> 'v option \<times> 'v lru_store" where
  "store_get key now s = (case jm_get (entries s) key of
     None \<Rightarrow> (None, s)
   | Some e \<Rightarrow> if expiresAt e \<le> now then (None, store_remove key e s)
       else (Some (entry_value e), s\<lparr>entries := jm_set key e (jm_delete key (entries s))\<rparr>))"

text \<open>\<^verbatim>\<open>while (this.entries.size >= this.maxEntries)\<close>: the oldest entry goes, until there is none.\<close>
function evict :: "'v lru_store \<Rightarrow> 'v lru_store" where
  "evict s = (if length (entries s) \<ge> maxEntries s
     then (case entries s of [] \<Rightarrow> s | (k, e) # _ \<Rightarrow> evict (store_remove k e s))
     else s)"
  by pat_completeness auto
termination
  by (relation "measure (\<lambda>s. length (entries s))")
    (auto simp: store_remove_def le_imp_less_Suc length_delete_le)

declare evict.simps [simp del]

text \<open>One iteration of the loop that indexes a new entry.\<close>
definition tag_with :: "string \<Rightarrow> string \<Rightarrow> (string \<times> string list) list \<Rightarrow> (string \<times> string list) list" where
  "tag_with key tag idx = (case jm_get idx tag of
     None \<Rightarrow> jm_set tag [key] idx
   | Some keys \<Rightarrow> jm_set tag (js_add key keys) idx)"

definition store_set :: "string \<Rightarrow> 'v \<Rightarrow> int \<Rightarrow> string list \<Rightarrow> int \<Rightarrow> 'v lru_store \<Rightarrow> 'v lru_store" where
  "store_set key v ttl tags now s =
     (let s1 = (case jm_get (entries s) key of None \<Rightarrow> s | Some prev \<Rightarrow> store_remove key prev s);
          s2 = evict s1;
          e = \<lparr>entry_value = v, expiresAt = now + ttl, entry_tags = tags\<rparr> in
      s2\<lparr>entries := jm_set key e (entries s2), tagIndex := fold (tag_with key) tags (tagIndex s2)\<rparr>)"

definition drop_key :: "string \<Rightarrow> 'v lru_store \<Rightarrow> 'v lru_store" where
  "drop_key key s = (case jm_get (entries s) key of None \<Rightarrow> s | Some e \<Rightarrow> store_remove key e s)"

definition invalidateTag :: "string \<Rightarrow> 'v lru_store \<Rightarrow> 'v lru_store" where
  "invalidateTag tag s = (case jm_get (tagIndex s) tag of
     None \<Rightarrow> s
   | Some keys \<Rightarrow> fold drop_key keys s)"

definition store_invalidateTags :: "string list \<Rightarrow> 'v lru_store \<Rightarrow> 'v lru_store" where
  "store_invalidateTags tags s = fold invalidateTag tags s"

definition store_clear :: "'v lru_store \<Rightarrow> 'v lru_store" where
  "store_clear s = s\<lparr>entries := [], tagIndex := []\<rparr>"

definition store_size :: "'v lru_store \<Rightarrow> nat" where
  "store_size s = length (entries s)"

subsection \<open>The tag index\<close>

definition indexed :: "(string \<times> string list) list \<Rightarrow> string \<Rightarrow> string list" where
  "indexed idx t = (case jm_get idx t of None \<Rightarrow> [] | Some ks \<Rightarrow> ks)"

text \<open>Every entry is indexed under each of its tags, and the index names nothing else.\<close>
definition store_wf :: "'v lru_store \<Rightarrow> bool" where
  "store_wf s \<longleftrightarrow> jm_wf (entries s) \<and>
     (\<forall>t k. k \<in> set (indexed (tagIndex s) t) \<longleftrightarrow> (\<exists>e. jm_get (entries s) k = Some e \<and> t \<in> set (entry_tags e)))"

lemma indexed_untag: "set (indexed (untag key tag idx) t) = (if t = tag then set (indexed idx t) - {key} else set (indexed idx t))"
proof (cases "jm_get idx tag")
  case None
  then show ?thesis by (auto simp: untag_def indexed_def)
next
  case (Some keys)
  then have "set (js_delete key keys) = set keys - {key}" by simp
  then show ?thesis using Some
    by (cases "js_delete key keys = []") (auto simp: untag_def indexed_def Let_def js_simps)
qed

lemma indexed_untags: "set (indexed (fold (untag key) ts idx) t) =
    (if t \<in> set ts then set (indexed idx t) - {key} else set (indexed idx t))"
  by (induction ts arbitrary: idx) (auto simp: indexed_untag)

lemma indexed_tag_with: "set (indexed (tag_with key tag idx) t) = (if t = tag then insert key (set (indexed idx t)) else set (indexed idx t))"
  by (auto simp: tag_with_def indexed_def js_simps split: option.split)

lemma indexed_tags_with: "set (indexed (fold (tag_with key) ts idx) t) =
    (if t \<in> set ts then insert key (set (indexed idx t)) else set (indexed idx t))"
  by (induction ts arbitrary: idx) (auto simp: indexed_tag_with)

lemma new_store_wf: "store_wf (new_store n)"
  by (simp add: store_wf_def new_store_def indexed_def)

lemma store_remove_wf:
  assumes "store_wf s" "jm_get (entries s) key = Some e"
  shows "store_wf (store_remove key e s)"
  using assms by (auto simp: store_wf_def store_remove_def indexed_untags js_simps)

lemma store_remove_get [simp]:
  "jm_get (entries (store_remove key e s)) k = (if k = key then None else jm_get (entries s) k)"
  by (simp add: store_remove_def js_simps)

lemma store_get_wf: "store_wf s \<Longrightarrow> store_wf (snd (store_get key now s))"
proof -
  assume wf: "store_wf s"
  show ?thesis
  proof (cases "jm_get (entries s) key")
    case (Some e)
    have "store_wf (s\<lparr>entries := jm_set key e (jm_delete key (entries s))\<rparr>)"
      using wf Some by (auto simp: store_wf_def js_simps)
    then show ?thesis using store_remove_wf [OF wf Some] Some by (simp add: store_get_def)
  qed (use wf in \<open>simp add: store_get_def\<close>)
qed

lemma evict_wf: "store_wf s \<Longrightarrow> store_wf (evict s)"
proof (induction s rule: evict.induct)
  case (1 s)
  then show ?case
    by (subst evict.simps) (auto split: list.split simp: store_remove_wf)
qed

lemma maxEntries_remove [simp]: "maxEntries (store_remove k e s) = maxEntries s"
  by (simp add: store_remove_def)

lemma evict_room: "entries (evict s) = [] \<or> length (entries (evict s)) < maxEntries s"
proof (induction s rule: evict.induct)
  case (1 s)
  then show ?case
    by (subst (1 2) evict.simps) (auto split: list.split)
qed

lemma evict_max [simp]: "maxEntries (evict s) = maxEntries s"
proof (induction s rule: evict.induct)
  case (1 s)
  then show ?case by (subst evict.simps) (auto split: list.split)
qed

lemma evict_subset: "jm_get (entries (evict s)) k = Some e \<Longrightarrow> jm_get (entries s) k = Some e"
proof (induction s rule: evict.induct)
  case (1 s)
  show ?case
  proof (cases "length (entries s) \<ge> maxEntries s \<and> entries s \<noteq> []")
    case True
    then obtain k' e' rest where c: "entries s = (k', e') # rest" by (cases "entries s") auto
    then have "evict s = evict (store_remove k' e' s)" using True by (subst evict.simps) simp
    then show ?thesis using "1.IH" [OF _ c refl] True "1.prems" by (auto split: if_splits)
  next
    case False
    then have "evict s = s" by (subst evict.simps) (auto split: list.split)
    then show ?thesis using "1.prems" by simp
  qed
qed

lemma drop_key_wf: "store_wf s \<Longrightarrow> store_wf (drop_key k s)"
  by (auto simp: drop_key_def store_remove_wf split: option.split)

lemma drop_key_get: "jm_get (entries (drop_key key s)) k = (if k = key then None else jm_get (entries s) k)"
  by (auto simp: drop_key_def split: option.split)

lemma drop_keys_wf: "store_wf s \<Longrightarrow> store_wf (fold drop_key ks s)"
  by (induction ks arbitrary: s) (simp_all add: drop_key_wf)

lemma drop_keys_get: "jm_get (entries (fold drop_key ks s)) k = (if k \<in> set ks then None else jm_get (entries s) k)"
  by (induction ks arbitrary: s) (auto simp: drop_key_get)

lemma invalidateTag_wf: "store_wf s \<Longrightarrow> store_wf (invalidateTag t s)"
  by (auto simp: invalidateTag_def drop_keys_wf split: option.split)

lemma invalidateTag_get:
  assumes "store_wf s"
  shows "jm_get (entries (invalidateTag t s)) k = (case jm_get (entries s) k of
     None \<Rightarrow> None | Some e \<Rightarrow> if t \<in> set (entry_tags e) then None else Some e)"
proof -
  have "jm_get (entries (invalidateTag t s)) k = (if k \<in> set (indexed (tagIndex s) t) then None else jm_get (entries s) k)"
    by (auto simp: invalidateTag_def indexed_def drop_keys_get split: option.split)
  then show ?thesis using assms by (auto simp: store_wf_def split: option.split)
qed

lemma invalidateTags_wf: "store_wf s \<Longrightarrow> store_wf (store_invalidateTags ts s)"
  unfolding store_invalidateTags_def by (induction ts arbitrary: s) (simp_all add: invalidateTag_wf)

lemma invalidateTags_get:
  assumes "store_wf s"
  shows "jm_get (entries (store_invalidateTags ts s)) k = (case jm_get (entries s) k of
     None \<Rightarrow> None | Some e \<Rightarrow> if set ts \<inter> set (entry_tags e) \<noteq> {} then None else Some e)"
  using assms unfolding store_invalidateTags_def
proof (induction ts arbitrary: s)
  case (Cons t ts)
  show ?case
    using Cons.IH [OF invalidateTag_wf [OF Cons.prems], of t] invalidateTag_get [OF Cons.prems, of t k]
    by (auto split: option.splits)
qed (auto split: option.split)

lemma store_set_wf:
  assumes "store_wf s"
  shows "store_wf (store_set key v ttl tags now s)"
proof -
  define s1 where "s1 = (case jm_get (entries s) key of None \<Rightarrow> s | Some prev \<Rightarrow> store_remove key prev s)"
  have s1: "store_wf s1" "jm_get (entries s1) key = None"
    using assms by (auto simp: s1_def store_remove_wf split: option.split)
  have s2: "store_wf (evict s1)" "jm_get (entries (evict s1)) key = None"
    using evict_wf [OF s1(1)] evict_subset [of s1 key] s1(2) by (auto, metis not_None_eq)
  then show ?thesis
    by (auto simp: store_set_def s1_def [symmetric] Let_def store_wf_def indexed_tags_with js_simps)
qed

subsection \<open>The cache over a store\<close>

text \<open>
  \<^verbatim>\<open>QueryCacheStore\<close>: the operations of a store on its state \<open>'st\<close>; \<open>Inl ()\<close> is a store that threw.
\<close>
record ('st, 'v) store_ops =
  sget :: "string \<Rightarrow> int \<Rightarrow> 'st \<Rightarrow> (unit + 'v option) \<times> 'st"
  sset :: "string \<Rightarrow> 'v \<Rightarrow> int \<Rightarrow> string list \<Rightarrow> int \<Rightarrow> 'st \<Rightarrow> (unit + unit) \<times> 'st"
  sinvalidate :: "string list \<Rightarrow> 'st \<Rightarrow> (unit + unit) \<times> 'st"
  sclear :: "'st \<Rightarrow> (unit + unit) \<times> 'st"

definition lru_ops :: "('v lru_store, 'v) store_ops" where
  "lru_ops = \<lparr>sget = (\<lambda>k now s. case store_get k now s of (v, s') \<Rightarrow> (Inr v, s')),
     sset = (\<lambda>k v ttl tags now s. (Inr (), store_set k v ttl tags now s)),
     sinvalidate = (\<lambda>tags s. (Inr (), store_invalidateTags tags s)),
     sclear = (\<lambda>s. (Inr (), store_clear s))\<rparr>"

record in_flight =
  read_tags :: "string list"
  stale :: bool

record held_invalidation =
  held_tags :: "string list"
  held_all :: bool

record 'st query_cache =
  store :: 'st
  defaultTtl :: int
  hitCount :: nat
  missCount :: nat
  storeErrorWarned :: bool
  inFlight :: "(nat \<times> in_flight) list"
  next_read :: nat
  held_by :: "(nat \<times> held_invalidation) list"

definition new_cache :: "'st \<Rightarrow> int option \<Rightarrow> 'st query_cache" where
  "new_cache st ttl = \<lparr>store = st, defaultTtl = (case ttl of None \<Rightarrow> 1000 | Some t \<Rightarrow> t), hitCount = 0, missCount = 0,
     storeErrorWarned = False, inFlight = [], next_read = 0, held_by = []\<rparr>"

text \<open>\<^verbatim>\<open>QueryCacheOption\<close> and what it is resolved to; \<open>None\<close> is a query that must not be cached.\<close>
datatype cache_option = Use bool | Ttl int | Ttl_Tag "int option" "string option"

definition normalizeOption :: "cache_option option \<Rightarrow> 'st query_cache \<Rightarrow> (int \<times> string option) option" where
  "normalizeOption opt C = (case opt of
     None \<Rightarrow> None
   | Some (Use b) \<Rightarrow> if b then Some (defaultTtl C, None) else None
   | Some (Ttl t) \<Rightarrow> if t > 0 then Some (t, None) else None
   | Some (Ttl_Tag t tag) \<Rightarrow> (let ttl = (case t of None \<Rightarrow> defaultTtl C | Some x \<Rightarrow> x) in
       if ttl > 0 then Some (ttl, tag) else None))"

definition is_word :: "char \<Rightarrow> bool" where
  "is_word c \<longleftrightarrow> is_name_char c"

definition starts_word :: "string \<Rightarrow> string \<Rightarrow> bool" where
  "starts_word w text \<longleftrightarrow> toLowerCase (take (length w) text) = w \<and>
     (case drop (length w) text of [] \<Rightarrow> True | c # _ \<Rightarrow> \<not> is_word c)"

text \<open>\<^verbatim>\<open>/^\s*(select|with)\b/i\<close>\<close>
definition is_cacheable :: "string \<Rightarrow> bool" where
  "is_cacheable text = (let t = dropWhile is_space text in starts_word ''select'' t \<or> starts_word ''with'' t)"

definition warnStoreError :: "'st query_cache \<Rightarrow> 'st query_cache" where
  "warnStoreError C = C\<lparr>storeErrorWarned := True\<rparr>"

record policy =
  policy_ttl :: int
  policy_tags :: "string list"

text \<open>
  \<^verbatim>\<open>runQuery\<close> up to the call of \<^verbatim>\<open>exec\<close>: a hit, or a read in flight. A store that throws is a miss.
\<close>
datatype 'v lookup = Hit 'v | Miss nat

definition cache_lookup :: "('st, 'v) store_ops \<Rightarrow> policy \<Rightarrow> string \<Rightarrow> int \<Rightarrow> 'st query_cache \<Rightarrow> 'v lookup \<times> 'st query_cache" where
  "cache_lookup ops p key now C = (case sget ops key now (store C) of
     (Inr (Some v), st) \<Rightarrow> (Hit v, C\<lparr>store := st, hitCount := hitCount C + 1\<rparr>)
   | (r, st) \<Rightarrow>
       (let C1 = (if isl r then warnStoreError (C\<lparr>store := st\<rparr>) else C\<lparr>store := st\<rparr>); i = next_read C in
        (Miss i, C1\<lparr>missCount := missCount C + 1, next_read := i + 1,
           inFlight := inFlight C @ [(i, \<lparr>read_tags = policy_tags p, stale = False\<rparr>)]\<rparr>)))"

text \<open>
  The rest of \<^verbatim>\<open>runQuery\<close>: \<^verbatim>\<open>exec\<close> has failed (\<open>None\<close>), or returned rows whose snapshot is given (\<open>Some None\<close>
  when they cannot be copied). A read marked stale is not stored.
\<close>
definition cache_fetched :: "('st, 'v) store_ops \<Rightarrow> policy \<Rightarrow> string \<Rightarrow> nat \<Rightarrow> 'v option option \<Rightarrow> int \<Rightarrow> 'st query_cache \<Rightarrow> 'st query_cache" where
  "cache_fetched ops p key i outcome now C = (let read = jm_get (inFlight C) i; C1 = C\<lparr>inFlight := jm_delete i (inFlight C)\<rparr> in
     case outcome of
       None \<Rightarrow> C1
     | Some snapshot \<Rightarrow>
         if (case read of None \<Rightarrow> False | Some r \<Rightarrow> stale r) then C1
         else (case snapshot of
             None \<Rightarrow> C1
           | Some v \<Rightarrow> (case sset ops key v (policy_ttl p) (policy_tags p) now (store C) of
               (r, st) \<Rightarrow> if isl r then warnStoreError (C1\<lparr>store := st\<rparr>) else C1\<lparr>store := st\<rparr>)))"

definition markInFlightStale :: "string list option \<Rightarrow> 'st query_cache \<Rightarrow> 'st query_cache" where
  "markInFlightStale tags C = C\<lparr>inFlight := map (\<lambda>(i, r).
     (i, if (case tags of None \<Rightarrow> True | Some ts \<Rightarrow> \<exists>t\<in>set (read_tags r). t \<in> set ts) then r\<lparr>stale := True\<rparr> else r)) (inFlight C)\<rparr>"

definition dropTags :: "('st, 'v) store_ops \<Rightarrow> string list \<Rightarrow> 'st query_cache \<Rightarrow> 'st query_cache" where
  "dropTags ops tags C = (if tags = [] then C
     else (let C1 = markInFlightStale (Some tags) C in
       case sinvalidate ops tags (store C1) of
         (r, st) \<Rightarrow> if isl r then warnStoreError (C1\<lparr>store := st\<rparr>) else C1\<lparr>store := st\<rparr>))"

definition dropAll :: "('st, 'v) store_ops \<Rightarrow> 'st query_cache \<Rightarrow> 'st query_cache" where
  "dropAll ops C = (let C1 = markInFlightStale None C in
     case sclear ops (store C1) of
       (r, st) \<Rightarrow> if isl r then warnStoreError (C1\<lparr>store := st\<rparr>) else C1\<lparr>store := st\<rparr>)"

text \<open>\<^verbatim>\<open>holdUntilTransactionEnd\<close>: \<open>None\<close> is \<^verbatim>\<open>"all"\<close>. The callback is registered with the first call.\<close>
definition holdUntilTransactionEnd :: "nat \<Rightarrow> string list option \<Rightarrow> 'st query_cache \<Rightarrow> 'st query_cache" where
  "holdUntilTransactionEnd session tags C =
     (let held = (case jm_get (held_by C) session of None \<Rightarrow> \<lparr>held_tags = [], held_all = False\<rparr> | Some h \<Rightarrow> h);
          held' = (case tags of None \<Rightarrow> held\<lparr>held_all := True\<rparr>
                   | Some ts \<Rightarrow> held\<lparr>held_tags := fold js_add ts (held_tags held)\<rparr>) in
      C\<lparr>held_by := jm_set session held' (held_by C)\<rparr>)"

text \<open>The callback \<^verbatim>\<open>holdUntilTransactionEnd\<close> registers with the session.\<close>
definition transaction_ended :: "('st, 'v) store_ops \<Rightarrow> nat \<Rightarrow> 'st query_cache \<Rightarrow> 'st query_cache" where
  "transaction_ended ops session C = (case jm_get (held_by C) session of
     None \<Rightarrow> C
   | Some h \<Rightarrow> (let C1 = C\<lparr>held_by := jm_delete session (held_by C)\<rparr> in
       if held_all h then dropAll ops C1 else dropTags ops (held_tags h) C1))"

text \<open>\<open>session\<close> is the session of the write, with whether its transaction is active.\<close>
definition invalidateEntity :: "('st, 'v) store_ops \<Rightarrow> string list option \<Rightarrow> (nat \<times> bool) option \<Rightarrow> 'st query_cache \<Rightarrow> 'st query_cache" where
  "invalidateEntity ops tags session C = (case tags of
     None \<Rightarrow> warnStoreError C
   | Some ts \<Rightarrow> (case session of
       Some (s, True) \<Rightarrow> holdUntilTransactionEnd s (Some ts) C
     | _ \<Rightarrow> dropTags ops ts C))"

definition hold_if_active :: "(nat \<times> bool) option \<Rightarrow> string list option \<Rightarrow> 'st query_cache \<Rightarrow> 'st query_cache" where
  "hold_if_active ambient tags C = (case ambient of
     Some (s, True) \<Rightarrow> holdUntilTransactionEnd s tags C
   | _ \<Rightarrow> C)"

text \<open>A target of \<^verbatim>\<open>invalidate\<close>: a name, or an entity given by its write tags.\<close>
datatype invalidation_target = Named string | Entity_Tags "string list"

fun target_tags :: "invalidation_target \<Rightarrow> string list" where
  "target_tags (Named n) = [''t:'' @ n, ''u:'' @ n]"
| "target_tags (Entity_Tags ts) = ts"

definition cache_invalidate :: "('st, 'v) store_ops \<Rightarrow> invalidation_target list \<Rightarrow> (nat \<times> bool) option \<Rightarrow> 'st query_cache \<Rightarrow> 'st query_cache" where
  "cache_invalidate ops targets ambient C = (let tags = concat (map target_tags targets) in
     if tags = [] then C else hold_if_active ambient (Some tags) (dropTags ops tags C))"

definition cache_clear :: "('st, 'v) store_ops \<Rightarrow> (nat \<times> bool) option \<Rightarrow> 'st query_cache \<Rightarrow> 'st query_cache" where
  "cache_clear ops ambient C = hold_if_active ambient None (dropAll ops C)"

subsection \<open>Bind values in the key\<close>

text \<open>What a bind value is when \<^verbatim>\<open>JSON.stringify\<close> calls the replacer.\<close>
datatype bind = Null_Bind | Bool_Bind bool | Number_Bind string | Not_Finite_Bind | Text_Bind string | Bigint_Bind int | Undefined_Bind

text \<open>A JSON string literal: quotes, backslashes and the short escapes (other control characters are left out).\<close>
definition json_char :: "char \<Rightarrow> string" where
  "json_char c = (if c = CHR 0x22 then [CHR 0x5C, CHR 0x22] else if c = CHR 0x5C then [CHR 0x5C, CHR 0x5C]
     else if c = CHR 0x0A then [CHR 0x5C, CHR ''n''] else if c = CHR 0x0D then [CHR 0x5C, CHR ''r'']
     else if c = CHR 0x09 then [CHR 0x5C, CHR ''t''] else [c])"

definition json_string :: "string \<Rightarrow> string" where
  "json_string s = [CHR 0x22] @ concat (map json_char s) @ [CHR 0x22]"

fun json_bind :: "bind \<Rightarrow> string" where
  "json_bind Null_Bind = ''null''"
| "json_bind (Bool_Bind b) = (if b then ''true'' else ''false'')"
| "json_bind (Number_Bind n) = n"
| "json_bind Not_Finite_Bind = ''null''"
| "json_bind (Text_Bind s) = json_string s"
| "json_bind (Bigint_Bind i) = json_string (''bi:'' @ decimal_int i)"
| "json_bind Undefined_Bind = json_string ''undef''"

fun join_with :: "string \<Rightarrow> string list \<Rightarrow> string" where
  "join_with sep [] = []"
| "join_with sep [x] = x"
| "join_with sep (x # y # ys) = x @ sep @ join_with sep (y # ys)"

definition serializeBindValues :: "bind list \<Rightarrow> string" where
  "serializeBindValues vs = ''['' @ join_with '','' (map json_bind vs) @ '']''"

definition cache_namespace :: "string option \<Rightarrow> string \<Rightarrow> string option \<Rightarrow> string \<Rightarrow> string" where
  "cache_namespace db conn schema tenant =
     (case db of None \<Rightarrow> [] | Some d \<Rightarrow> d) @ ''|'' @ conn @ ''|'' @ (case schema of None \<Rightarrow> [] | Some s \<Rightarrow> s) @ ''|'' @ tenant"

definition buildKey :: "string \<Rightarrow> string \<Rightarrow> bind list \<Rightarrow> string" where
  "buildKey ns text vs = ns @ [CHR 0x00] @ text @ [CHR 0x00] @ serializeBindValues vs"

subsection \<open>What the cache relies on\<close>

text \<open>
  A store may forget entries at any time, but returns what was stored last under a key, and nothing
  that was invalidated since. A store that throws may have done anything of this or nothing.
\<close>
locale cache_store =
  fixes ops :: "('st, 'v) store_ops"
    and sinv :: "'st \<Rightarrow> bool"
    and contents :: "'st \<Rightarrow> string \<Rightarrow> ('v \<times> string list) option"
  assumes get_inv: "sinv s \<Longrightarrow> sget ops k now s = (g, s') \<Longrightarrow> sinv s'"
    and get_hit: "sinv s \<Longrightarrow> sget ops k now s = (Inr (Some v), s') \<Longrightarrow> \<exists>tags. contents s k = Some (v, tags)"
    and get_keeps: "sinv s \<Longrightarrow> sget ops k now s = (g, s') \<Longrightarrow> contents s' x = Some e \<Longrightarrow> contents s x = Some e"
    and set_inv: "sinv s \<Longrightarrow> sset ops k v ttl tags now s = (r, s') \<Longrightarrow> sinv s'"
    and set_keeps: "sinv s \<Longrightarrow> sset ops k v ttl tags now s = (r, s') \<Longrightarrow> contents s' x = Some e \<Longrightarrow>
      x = k \<and> e = (v, tags) \<or> contents s x = Some e"
    and invalidate_inv: "sinv s \<Longrightarrow> sinvalidate ops ts s = (r, s') \<Longrightarrow> sinv s'"
    and invalidate_keeps: "sinv s \<Longrightarrow> sinvalidate ops ts s = (r, s') \<Longrightarrow> contents s' x = Some e \<Longrightarrow> contents s x = Some e"
    and invalidate_drops: "sinv s \<Longrightarrow> sinvalidate ops ts s = (Inr u, s') \<Longrightarrow> contents s' x = Some (v, tags) \<Longrightarrow>
      set ts \<inter> set tags = {}"
    and clear_inv: "sinv s \<Longrightarrow> sclear ops s = (r, s') \<Longrightarrow> sinv s'"
    and clear_keeps: "sinv s \<Longrightarrow> sclear ops s = (r, s') \<Longrightarrow> contents s' x = Some e \<Longrightarrow> contents s x = Some e"
    and clear_drops: "sinv s \<Longrightarrow> sclear ops s = (Inr u, s') \<Longrightarrow> contents s' x = None"

definition lru_contents :: "'v lru_store \<Rightarrow> string \<Rightarrow> ('v \<times> string list) option" where
  "lru_contents s k = map_option (\<lambda>e. (entry_value e, entry_tags e)) (jm_get (entries s) k)"

lemma lru_contents_get: "fst (store_get k now s) = Some v \<Longrightarrow> \<exists>tags. lru_contents s k = Some (v, tags)"
  by (auto simp: store_get_def lru_contents_def split: option.splits if_splits)

lemma lru_contents_after_get: "lru_contents (snd (store_get k now s)) x = Some e \<Longrightarrow> lru_contents s x = Some e"
  by (auto simp: store_get_def lru_contents_def js_simps split: option.splits if_splits)

lemma lru_contents_after_set:
  assumes "lru_contents (store_set k v ttl tags now s) x = Some e"
  shows "x = k \<and> e = (v, tags) \<or> lru_contents s x = Some e"
proof -
  define s1 where "s1 = (case jm_get (entries s) k of None \<Rightarrow> s | Some prev \<Rightarrow> store_remove k prev s)"
  have s1: "jm_get (entries s1) x = Some a \<Longrightarrow> jm_get (entries s) x = Some a" for a
    by (auto simp: s1_def split: option.splits if_splits)
  show ?thesis
    using assms s1 evict_subset [of s1 x]
    by (auto simp: store_set_def s1_def [symmetric] Let_def lru_contents_def js_simps split: if_splits)
qed

interpretation lru: cache_store lru_ops store_wf lru_contents
proof (unfold_locales, goal_cases)
  case (1 s k now r s') then show ?case using store_get_wf [of s k now] by (auto simp: lru_ops_def split: prod.splits)
next
  case (2 s k now v s') then show ?case using lru_contents_get [of k now s v] by (auto simp: lru_ops_def split: prod.splits)
next
  case (3 s k now r s' x e) then show ?case using lru_contents_after_get [of k now s x e] by (auto simp: lru_ops_def split: prod.splits)
next
  case (4 s k v ttl tags now r s') then show ?case using store_set_wf by (auto simp: lru_ops_def)
next
  case (5 s k v ttl tags now r s' x e) then show ?case using lru_contents_after_set [of k v ttl tags now s x e] by (auto simp: lru_ops_def)
next
  case (6 s ts r s') then show ?case using invalidateTags_wf by (auto simp: lru_ops_def)
next
  case (7 s ts r s' x e)
  then show ?case using invalidateTags_get [of s ts x] by (auto simp: lru_ops_def lru_contents_def split: option.splits if_splits)
next
  case (8 s ts u s' x v tags)
  then show ?case using invalidateTags_get [of s ts x] by (auto simp: lru_ops_def lru_contents_def split: option.splits if_splits)
next
  case (9 s r s') then show ?case by (auto simp: lru_ops_def store_clear_def store_wf_def indexed_def)
next
  case (10 s r s' x e) then show ?case by (auto simp: lru_ops_def store_clear_def lru_contents_def)
next
  case (11 s u s' x) then show ?case by (auto simp: lru_ops_def store_clear_def lru_contents_def)
qed

subsection \<open>Reads, writes and invalidations interleaved\<close>

text \<open>
  The cache beside a database in which every table (tag) has a version. \<open>reads k d\<close> is what the query of key
  \<open>k\<close> returns on the versions \<open>d\<close>. \<open>pending\<close> are the tags whose tables have been changed by a committed
  write without their invalidation having run; \<open>jobs\<close> are the reads in flight, with the rows once the
  database has produced them. Copying rows is the identity here. Any number of reads, writes,
  transactions and invalidations run interleaved, and a store operation may fail.
\<close>
record 'v job =
  job_key :: string
  job_policy :: policy
  job_rows :: "'v option"

record ('st, 'v) sys =
  cache :: "'st query_cache"
  db :: "string \<Rightarrow> nat"
  pending :: "string list"
  jobs :: "nat \<Rightarrow> 'v job option"

definition covers :: "(string \<Rightarrow> (string \<Rightarrow> nat) \<Rightarrow> 'v) \<Rightarrow> string list \<Rightarrow> string \<Rightarrow> bool" where
  "covers reads tags k \<longleftrightarrow> (\<forall>d d'. (\<forall>t\<in>set tags. d t = d' t) \<longrightarrow> reads k d = reads k d')"

definition settled :: "unit + unit \<Rightarrow> string list \<Rightarrow> string list \<Rightarrow> string list" where
  "settled outcome ts pend = (if isl outcome then pend else filter (\<lambda>t. t \<notin> set ts) pend)"

inductive sys_step :: "('st, 'v) store_ops \<Rightarrow> (string \<Rightarrow> (string \<Rightarrow> nat) \<Rightarrow> 'v) \<Rightarrow> ('st, 'v) sys \<Rightarrow> ('st, 'v) sys \<Rightarrow> bool"
  for ops reads where
  written: "sys_step ops reads S (S\<lparr>db := (\<lambda>t. if t \<in> set ts then db S t + 1 else db S t), pending := pending S @ ts\<rparr>)"
| dropped: "sys_step ops reads S (S\<lparr>cache := dropTags ops ts (cache S),
     pending := settled (fst (sinvalidate ops ts (store (cache S)))) ts (pending S)\<rparr>)"
| cleared: "sys_step ops reads S (S\<lparr>cache := dropAll ops (cache S),
     pending := settled (fst (sclear ops (store (cache S)))) (pending S) (pending S)\<rparr>)"
| held: "sys_step ops reads S (S\<lparr>cache := holdUntilTransactionEnd s ts (cache S)\<rparr>)"
| forgotten: "sys_step ops reads S (S\<lparr>cache := (cache S)\<lparr>held_by := jm_delete s (held_by (cache S))\<rparr>\<rparr>)"
| hit: "cache_lookup ops p k now (cache S) = (Hit v, C) \<Longrightarrow> sys_step ops reads S (S\<lparr>cache := C\<rparr>)"
| missed: "cache_lookup ops p k now (cache S) = (Miss i, C) \<Longrightarrow> covers reads (policy_tags p) k \<Longrightarrow>
     sys_step ops reads S (S\<lparr>cache := C, jobs := (jobs S)(i \<mapsto> \<lparr>job_key = k, job_policy = p, job_rows = None\<rparr>)\<rparr>)"
| rows_read: "jobs S i = Some j \<Longrightarrow> job_rows j = None \<Longrightarrow>
     sys_step ops reads S (S\<lparr>jobs := (jobs S)(i \<mapsto> j\<lparr>job_rows := Some (reads (job_key j) (db S))\<rparr>)\<rparr>)"
| fetched: "jobs S i = Some j \<Longrightarrow> job_rows j = Some v \<Longrightarrow> outcome \<in> {None, Some None, Some (Some v)} \<Longrightarrow>
     sys_step ops reads S (S\<lparr>cache := cache_fetched ops (job_policy j) (job_key j) i outcome now (cache S), jobs := (jobs S)(i := None)\<rparr>)"
| read_failed: "jobs S i = Some j \<Longrightarrow>
     sys_step ops reads S (S\<lparr>cache := cache_fetched ops (job_policy j) (job_key j) i None now (cache S), jobs := (jobs S)(i := None)\<rparr>)"

text \<open>The end of a transaction, as the callback does it: a \<open>forgotten\<close> step and the drop of what was held.\<close>
lemma transaction_ended_steps:
  assumes "jm_get (held_by (cache S)) s = Some h"
  shows "\<exists>S1. sys_step ops reads S S1 \<and> sys_step ops reads S1 (S1\<lparr>cache := transaction_ended ops s (cache S),
     pending := settled (fst (if held_all h then sclear ops (store (cache S)) else sinvalidate ops (held_tags h) (store (cache S))))
       (if held_all h then pending S else held_tags h) (pending S)\<rparr>)"
proof -
  let ?S1 = "S\<lparr>cache := (cache S)\<lparr>held_by := jm_delete s (held_by (cache S))\<rparr>\<rparr>"
  have "sys_step ops reads ?S1 (?S1\<lparr>cache := transaction_ended ops s (cache S),
     pending := settled (fst (if held_all h then sclear ops (store (cache S)) else sinvalidate ops (held_tags h) (store (cache S))))
       (if held_all h then pending S else held_tags h) (pending S)\<rparr>)"
  proof (cases "held_all h")
    case True
    then show ?thesis using sys_step.cleared [of ops reads ?S1] assms by (simp add: transaction_ended_def Let_def)
  next
    case False
    then show ?thesis using sys_step.dropped [of ops reads ?S1 "held_tags h"] assms by (simp add: transaction_ended_def Let_def)
  qed
  then show ?thesis using sys_step.forgotten by blast
qed

inductive sys_reachable :: "('st, 'v) store_ops \<Rightarrow> (string \<Rightarrow> (string \<Rightarrow> nat) \<Rightarrow> 'v) \<Rightarrow> 'st \<Rightarrow> ('st, 'v) sys \<Rightarrow> bool"
  for ops reads st where
  start: "sys_reachable ops reads st \<lparr>cache = new_cache st ttl, db = d, pending = [], jobs = (\<lambda>_. None)\<rparr>"
| step: "sys_reachable ops reads st S \<Longrightarrow> sys_step ops reads S S' \<Longrightarrow> sys_reachable ops reads st S'"

text \<open>
  The invariant: an entry all of whose tags have no write pending holds what the query returns now; a read
  in flight that has its rows and is not stale has current rows in the same sense.
\<close>
definition entries_current :: "('st \<Rightarrow> string \<Rightarrow> ('v \<times> string list) option) \<Rightarrow> (string \<Rightarrow> (string \<Rightarrow> nat) \<Rightarrow> 'v) \<Rightarrow> ('st, 'v) sys \<Rightarrow> bool" where
  "entries_current contents reads S \<longleftrightarrow> (\<forall>k v tags. contents (store (cache S)) k = Some (v, tags) \<longrightarrow>
     covers reads tags k \<and> (set tags \<inter> set (pending S) = {} \<longrightarrow> v = reads k (db S)))"

definition job_ok :: "(string \<Rightarrow> (string \<Rightarrow> nat) \<Rightarrow> 'v) \<Rightarrow> ('st, 'v) sys \<Rightarrow> 'v job \<Rightarrow> in_flight \<Rightarrow> bool" where
  "job_ok reads S j r \<longleftrightarrow> covers reads (policy_tags (job_policy j)) (job_key j) \<and> read_tags r = policy_tags (job_policy j) \<and>
     (case job_rows j of None \<Rightarrow> True | Some v \<Rightarrow>
        \<not> stale r \<and> set (read_tags r) \<inter> set (pending S) = {} \<longrightarrow> v = reads (job_key j) (db S))"

definition jobs_current :: "(string \<Rightarrow> (string \<Rightarrow> nat) \<Rightarrow> 'v) \<Rightarrow> ('st, 'v) sys \<Rightarrow> bool" where
  "jobs_current reads S \<longleftrightarrow> (\<forall>i j. jobs S i = Some j \<longrightarrow> (\<exists>r. jm_get (inFlight (cache S)) i = Some r \<and> job_ok reads S j r)) \<and>
     (\<forall>i\<ge>next_read (cache S). jobs S i = None \<and> jm_get (inFlight (cache S)) i = None)"

lemma covers_same: "covers reads tags k \<Longrightarrow> (\<And>t. t \<in> set tags \<Longrightarrow> d t = d' t) \<Longrightarrow> reads k d = reads k d'"
  unfolding covers_def by blast

lemma mark_get: "jm_get (inFlight (markInFlightStale tags C)) i = map_option (\<lambda>r.
     if (case tags of None \<Rightarrow> True | Some ts \<Rightarrow> \<exists>t\<in>set (read_tags r). t \<in> set ts) then r\<lparr>stale := True\<rparr> else r) (jm_get (inFlight C) i)"
proof -
  have "jm_get (map (\<lambda>(i, r). (i, f r)) m) i = map_option f (jm_get m i)" for f :: "in_flight \<Rightarrow> in_flight" and m
    by (induction m) auto
  then show ?thesis by (simp add: markInFlightStale_def)
qed

lemma mark_fields [simp]: "store (markInFlightStale tags C) = store C" "next_read (markInFlightStale tags C) = next_read C"
  by (simp_all add: markInFlightStale_def)

lemma warn_fields [simp]: "store (warnStoreError C) = store C" "next_read (warnStoreError C) = next_read C"
  "inFlight (warnStoreError C) = inFlight C"
  by (simp_all add: warnStoreError_def)

lemma dropTags_parts: "inFlight (dropTags ops ts C) = (if ts = [] then inFlight C else inFlight (markInFlightStale (Some ts) C))"
  "next_read (dropTags ops ts C) = next_read C"
  "store (dropTags ops ts C) = (if ts = [] then store C else snd (sinvalidate ops ts (store C)))"
  by (auto simp: dropTags_def Let_def split: prod.split)

lemma dropAll_parts: "inFlight (dropAll ops C) = inFlight (markInFlightStale None C)"
  "next_read (dropAll ops C) = next_read C" "store (dropAll ops C) = snd (sclear ops (store C))"
  by (auto simp: dropAll_def Let_def split: prod.split)

definition sys_inv :: "('st \<Rightarrow> bool) \<Rightarrow> ('st \<Rightarrow> string \<Rightarrow> ('v \<times> string list) option) \<Rightarrow>
    (string \<Rightarrow> (string \<Rightarrow> nat) \<Rightarrow> 'v) \<Rightarrow> ('st, 'v) sys \<Rightarrow> bool" where
  "sys_inv sinv contents reads S \<longleftrightarrow> sinv (store (cache S)) \<and> entries_current contents reads S \<and> jobs_current reads S"

lemma job_ok_cong:
  assumes "db S' = db S" "set (pending S) \<inter> set (read_tags r) \<subseteq> set (pending S')" "job_ok reads S j r"
  shows "job_ok reads S' j r"
proof -
  have "set (read_tags r) \<inter> set (pending S') = {} \<Longrightarrow> set (read_tags r) \<inter> set (pending S) = {}"
    using assms(2) by blast
  then show ?thesis using assms(1,3) by (simp add: job_ok_def split: option.splits)
qed

lemma entries_current_mono:
  assumes "entries_current contents reads S" "db S' = db S"
    and keep: "\<And>k v tags. contents (store (cache S')) k = Some (v, tags) \<Longrightarrow> contents (store (cache S)) k = Some (v, tags) \<and>
      set (pending S) \<inter> set tags \<subseteq> set (pending S')"
  shows "entries_current contents reads S'"
  unfolding entries_current_def
proof (intro allI impI conjI)
  fix k v tags assume e: "contents (store (cache S')) k = Some (v, tags)"
  show "covers reads tags k" using assms(1) keep [OF e] unfolding entries_current_def by blast
  assume "set tags \<inter> set (pending S') = {}"
  then have "set tags \<inter> set (pending S) = {}" using keep [OF e] by blast
  then show "v = reads k (db S')" using assms(1,2) keep [OF e] unfolding entries_current_def by metis
qed

lemma written_current:
  assumes "entries_current contents reads S" "jobs_current reads S"
    and S': "S' = S\<lparr>db := (\<lambda>t. if t \<in> set ts then db S t + 1 else db S t), pending := pending S @ ts\<rparr>"
  shows "entries_current contents reads S'" "jobs_current reads S'"
proof -
  have same: "reads k (db S') = reads k (db S)" if "covers reads tags k" "set tags \<inter> set ts = {}" for k tags
    by (rule covers_same [OF that(1)]) (use that(2) S' in auto)
  have p: "set (pending S') = set (pending S) \<union> set ts" and c: "cache S' = cache S" and j: "jobs S' = jobs S"
    by (simp_all add: S')
  show "entries_current contents reads S'"
    unfolding entries_current_def
  proof (intro allI impI conjI)
    fix k v tags assume e: "contents (store (cache S')) k = Some (v, tags)"
    then show "covers reads tags k" using assms(1) c unfolding entries_current_def by metis
    assume "set tags \<inter> set (pending S') = {}"
    then have "set tags \<inter> set ts = {}" "set tags \<inter> set (pending S) = {}" using p by blast+
    then show "v = reads k (db S')" using assms(1) e c same unfolding entries_current_def by metis
  qed
  have "job_ok reads S' x r" if "job_ok reads S x r" for x r
  proof -
    have "v = reads (job_key x) (db S')"
      if "job_rows x = Some v" "\<not> stale r" "set (read_tags r) \<inter> set (pending S') = {}" for v
    proof -
      have "set (read_tags r) \<inter> set ts = {}" "set (read_tags r) \<inter> set (pending S) = {}" using that(3) p by blast+
      then show ?thesis using \<open>job_ok reads S x r\<close> that same [of "policy_tags (job_policy x)" "job_key x"]
        by (simp add: job_ok_def)
    qed
    then show ?thesis using that by (auto simp: job_ok_def split: option.split)
  qed
  then show "jobs_current reads S'" using assms(2) unfolding jobs_current_def c j by blast
qed

text \<open>A drop: the entries that stay and the reads that are not marked stale do not touch the tags settled.\<close>
lemma drop_jobs_current:
  assumes "jobs_current reads S" "db S' = db S" "jobs S' = jobs S" "next_read (cache S') = next_read (cache S)"
    and "inFlight (cache S') = inFlight (markInFlightStale tags (cache S))"
    and "case tags of None \<Rightarrow> True | Some ts \<Rightarrow> set (pending S) \<subseteq> set (pending S') \<union> set ts"
  shows "jobs_current reads S'"
proof -
  have "\<exists>r'. jm_get (inFlight (cache S')) i = Some r' \<and> job_ok reads S' j r'"
    if r: "jm_get (inFlight (cache S)) i = Some r" "job_ok reads S j r" for i j r
  proof (cases "case tags of None \<Rightarrow> True | Some ts \<Rightarrow> \<exists>t\<in>set (read_tags r). t \<in> set ts")
    case True
    then show ?thesis using r assms(2,5) by (simp add: mark_get job_ok_def split: option.splits)
  next
    case False
    then have "set (pending S) \<inter> set (read_tags r) \<subseteq> set (pending S')"
      using assms(6) by (auto split: option.splits)
    from job_ok_cong [OF assms(2) this r(2)] show ?thesis using False r(1) assms(5) by (simp add: mark_get)
  qed
  moreover have "jm_get (inFlight (cache S')) i = None" if "i \<ge> next_read (cache S)" for i
    using assms(1,5) that unfolding jobs_current_def by (simp add: mark_get)
  ultimately show ?thesis using assms(1,3,4) unfolding jobs_current_def by metis
qed

context cache_store
begin

lemma dropped_inv:
  assumes "sys_inv sinv contents reads S"
  shows "sys_inv sinv contents reads (S\<lparr>cache := dropTags ops ts (cache S),
     pending := settled (fst (sinvalidate ops ts (store (cache S)))) ts (pending S)\<rparr>)" (is "sys_inv _ _ _ ?S")
proof -
  obtain r st where st: "sinvalidate ops ts (store (cache S)) = (r, st)" by (metis surj_pair)
  have inv: "sinv (store (cache S))" "entries_current contents reads S" "jobs_current reads S"
    using assms by (simp_all add: sys_inv_def)
  show ?thesis
  proof (cases "ts = []")
    case True
    then have "?S = S" by (simp add: dropTags_def settled_def)
    then show ?thesis using assms by simp
  next
    case False
    have store: "store (cache ?S) = st" using False st by (simp add: dropTags_parts)
    have p: "set (pending S) \<subseteq> set (pending ?S) \<union> set ts" by (auto simp: settled_def)
    have "entries_current contents reads ?S"
    proof (rule entries_current_mono [OF inv(2)])
      fix k v tags assume "contents (store (cache ?S)) k = Some (v, tags)"
      then have c: "contents st k = Some (v, tags)" by (simp only: store)
      have "set (pending S) \<inter> set tags \<subseteq> set (pending ?S)"
      proof (cases r)
        case (Inr u)
        then show ?thesis using invalidate_drops [OF inv(1) st [unfolded Inr] c] p by blast
      qed (simp add: st settled_def)
      then show "contents (store (cache S)) k = Some (v, tags) \<and> set (pending S) \<inter> set tags \<subseteq> set (pending ?S)"
        using invalidate_keeps [OF inv(1) st c] by simp
    qed simp
    moreover have "jobs_current reads ?S"
      by (rule drop_jobs_current [OF inv(3), of _ "Some ts"]) (use False p in \<open>simp_all add: dropTags_parts\<close>)
    ultimately show ?thesis using invalidate_inv [OF inv(1) st] store by (simp add: sys_inv_def)
  qed
qed

lemma cleared_inv:
  assumes "sys_inv sinv contents reads S"
  shows "sys_inv sinv contents reads (S\<lparr>cache := dropAll ops (cache S),
     pending := settled (fst (sclear ops (store (cache S)))) (pending S) (pending S)\<rparr>)" (is "sys_inv _ _ _ ?S")
proof -
  obtain r st where st: "sclear ops (store (cache S)) = (r, st)" by (metis surj_pair)
  have inv: "sinv (store (cache S))" "entries_current contents reads S" "jobs_current reads S"
    using assms by (simp_all add: sys_inv_def)
  have store: "store (cache ?S) = st" using st by (simp add: dropAll_parts)
  have "entries_current contents reads ?S"
  proof (rule entries_current_mono [OF inv(2)])
    fix k v tags assume "contents (store (cache ?S)) k = Some (v, tags)"
    then have c: "contents st k = Some (v, tags)" by (simp only: store)
    have "set (pending S) \<subseteq> set (pending ?S)"
    proof (cases r)
      case (Inr u)
      then show ?thesis using clear_drops [OF inv(1) st [unfolded Inr]] c by simp
    qed (simp add: st settled_def)
    then show "contents (store (cache S)) k = Some (v, tags) \<and> set (pending S) \<inter> set tags \<subseteq> set (pending ?S)"
      using clear_keeps [OF inv(1) st c] by auto
  qed simp
  moreover have "jobs_current reads ?S"
    by (rule drop_jobs_current [OF inv(3), of _ None]) (simp_all add: dropAll_parts)
  ultimately show ?thesis using clear_inv [OF inv(1) st] store by (simp add: sys_inv_def)
qed

lemma lookup_inv:
  assumes "sys_inv sinv contents reads S" "cache_lookup ops p k now (cache S) = (l, C)"
  shows "sinv (store C) \<and> (\<forall>x e. contents (store C) x = Some e \<longrightarrow> contents (store (cache S)) x = Some e) \<and>
    (case l of Hit v \<Rightarrow> inFlight C = inFlight (cache S) \<and> next_read C = next_read (cache S) \<and> (\<exists>tags. contents (store (cache S)) k = Some (v, tags))
     | Miss i \<Rightarrow> i = next_read (cache S) \<and> next_read C = i + 1 \<and> inFlight C = inFlight (cache S) @ [(i, \<lparr>read_tags = policy_tags p, stale = False\<rparr>)])"
proof -
  have inv: "sinv (store (cache S))" using assms by (simp add: sys_inv_def)
  obtain g st where g: "sget ops k now (store (cache S)) = (g, st)" by (metis surj_pair)
  have st: "sinv st" "\<And>x e. contents st x = Some e \<Longrightarrow> contents (store (cache S)) x = Some e"
    using get_inv [OF inv g] get_keeps [OF inv g] by blast+
  show ?thesis
  proof (cases "\<exists>v. g = Inr (Some v)")
    case True
    then obtain v where v: "g = Inr (Some v)" by blast
    then show ?thesis using assms(2) g st get_hit [OF inv g [unfolded v]] by (auto simp: cache_lookup_def)
  next
    case False
    then have "(l, C) = (let C1 = (if isl g then warnStoreError ((cache S)\<lparr>store := st\<rparr>) else (cache S)\<lparr>store := st\<rparr>); i = next_read (cache S) in
        (Miss i, C1\<lparr>missCount := missCount (cache S) + 1, next_read := i + 1,
           inFlight := inFlight (cache S) @ [(i, \<lparr>read_tags = policy_tags p, stale = False\<rparr>)]\<rparr>))"
      using assms(2) g by (auto simp: cache_lookup_def split: sum.splits option.splits)
    then show ?thesis using st by (auto simp: Let_def warnStoreError_def)
  qed
qed

end

lemma jobs_current_same:
  assumes "jobs_current reads S" "db S' = db S" "pending S' = pending S" "jobs S' = jobs S"
    "next_read (cache S') = next_read (cache S)" "inFlight (cache S') = inFlight (cache S)"
  shows "jobs_current reads S'"
  by (rule drop_jobs_current [OF assms(1,2,4,5), of "Some []"])
    (use assms(3,6) in \<open>simp_all add: markInFlightStale_def case_prod_beta'\<close>)

lemma lookup_delete_keep: "jm_get (jm_delete i m) k = (if k = i then None else jm_get m k)"
  by (simp add: js_simps)

lemma fetched_parts:
  "inFlight (cache_fetched ops p k i outcome now C) = jm_delete i (inFlight C)"
  "next_read (cache_fetched ops p k i outcome now C) = next_read C"
  by (auto simp: cache_fetched_def Let_def warnStoreError_def split: option.splits prod.splits)

lemma fetched_store:
  "store (cache_fetched ops p k i outcome now C) = store C \<or>
   (\<exists>v. outcome = Some (Some v) \<and> \<not> (case jm_get (inFlight C) i of None \<Rightarrow> False | Some r \<Rightarrow> stale r) \<and>
      store (cache_fetched ops p k i outcome now C) = snd (sset ops k v (policy_ttl p) (policy_tags p) now (store C)))"
  by (auto simp: cache_fetched_def Let_def warnStoreError_def split: option.splits prod.splits)

lemma job_done_current:
  assumes "jobs_current reads S" "db S' = db S" "pending S' = pending S" "jobs S' = (jobs S)(i := None)"
    "next_read (cache S') = next_read (cache S)" "inFlight (cache S') = jm_delete i (inFlight (cache S))"
  shows "jobs_current reads S'"
proof -
  have ok: "job_ok reads S' j r = job_ok reads S j r" for j r
    using assms(2,3) by (cases "job_rows j") (simp_all add: job_ok_def)
  show ?thesis using assms(1) unfolding jobs_current_def assms(4-6) ok
    by (auto simp: lookup_delete_keep split: if_splits)
qed

context cache_store
begin

lemma fetched_inv:
  assumes inv: "sys_inv sinv contents reads S" and j: "jobs S i = Some j"
    and out: "outcome = Some (Some v) \<Longrightarrow> job_rows j = Some v"
    and o: "\<And>x. outcome = Some (Some x) \<Longrightarrow> x = v"
  shows "sys_inv sinv contents reads (S\<lparr>cache := cache_fetched ops (job_policy j) (job_key j) i outcome now (cache S), jobs := (jobs S)(i := None)\<rparr>)"
    (is "sys_inv _ _ _ ?S")
proof -
  have parts: "sinv (store (cache S))" "entries_current contents reads S" "jobs_current reads S"
    using inv by (simp_all add: sys_inv_def)
  have jobs: "jobs_current reads ?S"
    by (rule job_done_current [OF parts(3)]) (simp_all add: fetched_parts)
  obtain r where r: "jm_get (inFlight (cache S)) i = Some r" "job_ok reads S j r"
    using parts(3) j unfolding jobs_current_def by blast
  show ?thesis
  proof (cases "store (cache ?S) = store (cache S)")
    case True
    have "entries_current contents reads ?S"
      by (rule entries_current_mono [OF parts(2)]) (use True in auto)
    then show ?thesis using jobs parts(1) True by (simp add: sys_inv_def)
  next
    case False
    then have f: "outcome = Some (Some v)" "\<not> stale r"
      "store (cache ?S) = snd (sset ops (job_key j) v (policy_ttl (job_policy j)) (policy_tags (job_policy j)) now (store (cache S)))"
      using fetched_store [of ops "job_policy j" "job_key j" i outcome now "cache S"] o r(1) by auto
    obtain g st where g: "sset ops (job_key j) v (policy_ttl (job_policy j)) (policy_tags (job_policy j)) now (store (cache S)) = (g, st)"
      by (metis surj_pair)
    have st: "store (cache ?S) = st" using f(3) g by simp
    have "entries_current contents reads ?S"
      unfolding entries_current_def
    proof (intro allI impI conjI)
      fix k x tags assume "contents (store (cache ?S)) k = Some (x, tags)"
      then have e: "contents st k = Some (x, tags)" by (simp only: st)
      consider (new) "k = job_key j" "x = v" "tags = policy_tags (job_policy j)" | (old) "contents (store (cache S)) k = Some (x, tags)"
        using set_keeps [OF parts(1) g e] by auto
      then have "covers reads tags k \<and> (set tags \<inter> set (pending S) = {} \<longrightarrow> x = reads k (db S))"
      proof cases
        case new
        then show ?thesis using r(2) f(2) out [OF f(1)] by (simp add: job_ok_def)
      next
        case old
        then show ?thesis using parts(2) unfolding entries_current_def by blast
      qed
      then show "covers reads tags k" "set tags \<inter> set (pending ?S) = {} \<Longrightarrow> x = reads k (db ?S)" by simp_all
    qed
    then show ?thesis using jobs set_inv [OF parts(1) g] st by (simp add: sys_inv_def)
  qed
qed

lemma same_entries:
  assumes "sys_inv sinv contents reads S" "db S' = db S" "pending S' = pending S" "sinv (store (cache S'))"
    "\<And>x e. contents (store (cache S')) x = Some e \<Longrightarrow> contents (store (cache S)) x = Some e"
  shows "entries_current contents reads S'"
  by (rule entries_current_mono [of contents reads S]) (use assms in \<open>auto simp: sys_inv_def\<close>)

lemma step_inv: "sys_step ops reads S S' \<Longrightarrow> sys_inv sinv contents reads S \<Longrightarrow> sys_inv sinv contents reads S'"
proof (induction rule: sys_step.induct)
  case (written S ts)
  then show ?case using written_current [of contents reads S, OF _ _ refl, of ts] by (simp add: sys_inv_def)
next
  case (dropped S ts)
  then show ?case by (rule dropped_inv)
next
  case (cleared S)
  then show ?case by (rule cleared_inv)
next
  case (held S s ts)
  have "store (holdUntilTransactionEnd s ts (cache S)) = store (cache S)"
    "inFlight (holdUntilTransactionEnd s ts (cache S)) = inFlight (cache S)"
    "next_read (holdUntilTransactionEnd s ts (cache S)) = next_read (cache S)"
    by (simp_all add: holdUntilTransactionEnd_def Let_def)
  then show ?case using held same_entries [OF held, of "S\<lparr>cache := holdUntilTransactionEnd s ts (cache S)\<rparr>"]
      jobs_current_same [of reads S "S\<lparr>cache := holdUntilTransactionEnd s ts (cache S)\<rparr>"] by (simp add: sys_inv_def)
next
  case (forgotten S s)
  let ?S = "S\<lparr>cache := (cache S)\<lparr>held_by := jm_delete s (held_by (cache S))\<rparr>\<rparr>"
  show ?case using forgotten same_entries [OF forgotten, of ?S] jobs_current_same [of reads S ?S] by (simp add: sys_inv_def)
next
  case (hit p k now S v C)
  from lookup_inv [OF hit.prems hit.hyps]
  have C: "sinv (store C)" "\<And>x e. contents (store C) x = Some e \<Longrightarrow> contents (store (cache S)) x = Some e"
    "inFlight C = inFlight (cache S)" "next_read C = next_read (cache S)" by auto
  have "entries_current contents reads (S\<lparr>cache := C\<rparr>)"
    by (rule same_entries [OF hit.prems]) (use C in auto)
  then show ?case using C(1,3,4) hit.prems jobs_current_same [of reads S "S\<lparr>cache := C\<rparr>"]
    by (simp add: sys_inv_def)
next
  case (missed p k now S i C)
  let ?S = "S\<lparr>cache := C, jobs := (jobs S)(i \<mapsto> \<lparr>job_key = k, job_policy = p, job_rows = None\<rparr>)\<rparr>"
  from lookup_inv [OF missed.prems missed.hyps(1)]
  have C: "sinv (store C)" "\<And>x e. contents (store C) x = Some e \<Longrightarrow> contents (store (cache S)) x = Some e"
    "i = next_read (cache S)" "next_read C = i + 1"
    "inFlight C = inFlight (cache S) @ [(i, \<lparr>read_tags = policy_tags p, stale = False\<rparr>)]" by auto
  have j: "jobs_current reads S" using missed.prems by (simp add: sys_inv_def)
  have ok: "job_ok reads ?S x r = job_ok reads S x r" for x r by (cases "job_rows x") (simp_all add: job_ok_def)
  have none: "jm_get (inFlight (cache S)) i = None" "jobs S i = None"
    using j C(3) unfolding jobs_current_def by auto
  have "\<exists>r. jm_get (inFlight C) i' = Some r \<and> job_ok reads ?S j' r" if "jobs ?S i' = Some j'" for i' j'
  proof (cases "i' = i")
    case True
    then show ?thesis using that none missed.hyps(2) unfolding C(5) by (auto simp: map_add_def job_ok_def)
  next
    case False
    then have "jobs S i' = Some j'" using that by simp
    then obtain r where "jm_get (inFlight (cache S)) i' = Some r" "job_ok reads S j' r"
      using j unfolding jobs_current_def by blast
    then show ?thesis unfolding C(5) ok by (auto simp: map_add_def)
  qed
  moreover have "jobs ?S i' = None \<and> jm_get (inFlight C) i' = None" if "i' \<ge> next_read C" for i'
    using that j C(3,4) unfolding C(5) jobs_current_def by (auto simp: map_add_def)
  ultimately have "jobs_current reads ?S" unfolding jobs_current_def by simp
  moreover have "entries_current contents reads ?S"
    by (rule same_entries [OF missed.prems]) (use C(1,2) in auto)
  ultimately show ?case using C(1) by (simp add: sys_inv_def)
next
  case (rows_read S i j)
  let ?S = "S\<lparr>jobs := (jobs S)(i \<mapsto> j\<lparr>job_rows := Some (reads (job_key j) (db S))\<rparr>)\<rparr>"
  have ok: "job_ok reads ?S x r = job_ok reads S x r" for x r by (cases "job_rows x") (simp_all add: job_ok_def)
  have "job_ok reads S (j\<lparr>job_rows := Some (reads (job_key j) (db S))\<rparr>) r" if "job_ok reads S j r" for r
    using that by (simp add: job_ok_def)
  then have "jobs_current reads ?S"
    using rows_read unfolding sys_inv_def jobs_current_def ok by (auto split: if_splits) (metis option.distinct(1))
  moreover have "entries_current contents reads ?S"
    by (rule same_entries [OF rows_read.prems]) (use rows_read.prems in \<open>auto simp: sys_inv_def\<close>)
  ultimately show ?case using rows_read.prems by (simp add: sys_inv_def)
next
  case (fetched S i j v outcome now)
  show ?case by (rule fetched_inv [OF fetched.prems fetched.hyps(1), of outcome v]) (use fetched.hyps in auto)
next
  case (read_failed S i j now)
  show ?case by (rule fetched_inv [OF read_failed.prems read_failed.hyps]) simp_all
qed

lemma reachable_inv:
  assumes "sys_reachable ops reads st S" "sinv st" "\<And>k. contents st k = None"
  shows "sys_inv sinv contents reads S"
  using assms(1)
proof induction
  case (start ttl d)
  then show ?case using assms(2,3) by (simp add: sys_inv_def entries_current_def jobs_current_def new_cache_def)
next
  case (step S S')
  then show ?case using step_inv by blast
qed

lemma hit_is_current:
  assumes "sys_reachable ops reads st S" "sinv st" "\<And>k. contents st k = None"
    and "cache_lookup ops p k now (cache S) = (Hit v, C)"
  shows "\<exists>tags. contents (store (cache S)) k = Some (v, tags) \<and> covers reads tags k \<and>
    (set tags \<inter> set (pending S) = {} \<longrightarrow> v = reads k (db S))"
proof -
  have inv: "sys_inv sinv contents reads S" by (rule reachable_inv [OF assms(1-3)])
  from lookup_inv [OF inv assms(4)] obtain tags where "contents (store (cache S)) k = Some (v, tags)" by auto
  then show ?thesis using inv unfolding sys_inv_def entries_current_def by blast
qed

end


subsection \<open>What a reader of the cache gets\<close>

text \<open>C22: However reads, writes, transactions and invalidations interleave, and whatever the store throws, a hit
  returns a value stored with tags that cover its query, and it is what the database holds now unless one of
  those tags has a write whose invalidation has not run yet: a row read before a write is never kept after its
  invalidation.\<close>
theorem cache_hit_current:
  assumes "sys_reachable lru_ops reads (new_store n) S"
    and "cache_lookup lru_ops p k now (cache S) = (Hit v, C)"
  shows "\<exists>tags. lru_contents (store (cache S)) k = Some (v, tags) \<and> covers reads tags k \<and>
    (set tags \<inter> set (pending S) = {} \<longrightarrow> v = reads k (db S))"
  by (rule lru.hit_is_current [OF assms(1) new_store_wf _ assms(2)])
    (simp add: lru_contents_def new_store_def)

definition example_reads :: "string \<Rightarrow> (string \<Rightarrow> nat) \<Rightarrow> nat" where
  "example_reads k d = d ''t:a''"

definition example_policy :: policy where
  "example_policy = \<lparr>policy_ttl = 1000, policy_tags = [''t:a'']\<rparr>"

definition example_start :: "(nat lru_store, nat) sys" where
  "example_start = \<lparr>cache = new_cache (new_store 10) None, db = (\<lambda>_. 7), pending = [], jobs = (\<lambda>_. None)\<rparr>"

definition example_job :: "nat job" where
  "example_job = \<lparr>job_key = ''q'', job_policy = example_policy, job_rows = None\<rparr>"

definition example_filled :: "(nat lru_store, nat) sys" where
  "example_filled = (let C = snd (cache_lookup lru_ops example_policy ''q'' 0 (cache example_start)) in
     example_start\<lparr>cache := cache_fetched lru_ops example_policy ''q'' 0 (Some (Some 7)) 5 C\<rparr>)"

lemma example_covers: "covers example_reads [''t:a''] ''q''"
  by (simp add: covers_def example_reads_def)

lemma example_reachable: "sys_reachable lru_ops example_reads (new_store 10) example_filled"
proof -
  let ?C = "snd (cache_lookup lru_ops example_policy ''q'' 0 (cache example_start))"
  let ?S1 = "example_start\<lparr>cache := ?C, jobs := (jobs example_start)(0 \<mapsto> example_job)\<rparr>"
  let ?j = "example_job\<lparr>job_rows := Some 7\<rparr>"
  let ?S2 = "?S1\<lparr>jobs := (jobs ?S1)(0 \<mapsto> ?j)\<rparr>"
  have miss: "fst (cache_lookup lru_ops example_policy ''q'' 0 (cache example_start)) = Miss 0"
    by (simp add: example_start_def new_cache_def cache_lookup_def lru_ops_def store_get_def new_store_def Let_def)
  have s0: "sys_reachable lru_ops example_reads (new_store 10) example_start"
    unfolding example_start_def by (rule sys_reachable.start)
  have "sys_step lru_ops example_reads example_start ?S1"
    unfolding example_job_def
    by (rule sys_step.missed [where now = 0]) (use miss in \<open>auto simp: prod_eq_iff example_policy_def example_covers\<close>)
  then have s1: "sys_reachable lru_ops example_reads (new_store 10) ?S1" by (rule sys_reachable.step [OF s0])
  have "sys_step lru_ops example_reads ?S1 (?S1\<lparr>jobs := (jobs ?S1)(0 \<mapsto> example_job\<lparr>job_rows := Some (example_reads (job_key example_job) (db ?S1))\<rparr>)\<rparr>)"
    by (rule sys_step.rows_read) (simp_all add: example_job_def)
  then have "sys_step lru_ops example_reads ?S1 ?S2" by (simp add: example_reads_def example_start_def)
  then have s2: "sys_reachable lru_ops example_reads (new_store 10) ?S2" by (rule sys_reachable.step [OF s1])
  have "sys_step lru_ops example_reads ?S2 (?S2\<lparr>cache := cache_fetched lru_ops (job_policy ?j) (job_key ?j) 0 (Some (Some 7)) 5 (cache ?S2),
      jobs := (jobs ?S2)(0 := None)\<rparr>)"
    by (rule sys_step.fetched [where v = 7]) simp_all
  moreover have "?S2\<lparr>cache := cache_fetched lru_ops (job_policy ?j) (job_key ?j) 0 (Some (Some 7)) 5 (cache ?S2),
      jobs := (jobs ?S2)(0 := None)\<rparr> = example_filled"
    by (simp add: example_filled_def example_job_def example_start_def Let_def fun_eq_iff)
  ultimately show ?thesis using sys_reachable.step [OF s2] by simp
qed

lemma example_hit: "fst (cache_lookup lru_ops example_policy ''q'' 6 (cache example_filled)) = Hit 7"
  by code_simp

theorem cache_hit_current_witness:
  "\<exists>tags. lru_contents (store (cache example_filled)) ''q'' = Some (7, tags) \<and> covers example_reads tags ''q'' \<and>
    7 = example_reads ''q'' (db example_filled)"
proof -
  have "cache_lookup lru_ops example_policy ''q'' 6 (cache example_filled) =
    (Hit 7, snd (cache_lookup lru_ops example_policy ''q'' 6 (cache example_filled)))"
    using example_hit by (simp add: prod_eq_iff)
  from cache_hit_current [OF example_reachable this] show ?thesis
    by (auto simp: example_filled_def example_start_def Let_def)
qed

subsection \<open>The store by itself\<close>

text \<open>Any sequence of the store's operations.\<close>
datatype 'v store_call = Get_Call string int | Set_Call string 'v int "string list" int | Invalidate_Call "string list" | Clear_Call

fun store_run :: "'v store_call \<Rightarrow> 'v lru_store \<Rightarrow> 'v lru_store" where
  "store_run (Get_Call k now) s = snd (store_get k now s)"
| "store_run (Set_Call k v ttl tags now) s = store_set k v ttl tags now s"
| "store_run (Invalidate_Call tags) s = store_invalidateTags tags s"
| "store_run Clear_Call s = store_clear s"

definition store_ok :: "nat \<Rightarrow> 'v lru_store \<Rightarrow> bool" where
  "store_ok n s \<longleftrightarrow> store_wf s \<and> maxEntries s = n \<and> store_size s \<le> max 1 n"

lemma length_set_le: "length (jm_set k v m) \<le> Suc (length m)"
  by (induction m) auto

lemma get_shrinks: "length (entries (snd (store_get k now s))) \<le> length (entries s)"
proof -
  have "length (jm_set k e (jm_delete k m)) \<le> length m" if "jm_get m k = Some e" for e and m :: "(string \<times> 'a cache_entry) list"
  proof -
    have "k \<in> set (jm_keys m)" using that by (force dest: map_of_SomeD)
    then have "length (jm_delete k m) < length m"
      by (induction m) (auto simp: le_imp_less_Suc length_delete_le)
    then show ?thesis using length_set_le [of k e "jm_delete k m"] by simp
  qed
  then show ?thesis
    by (auto simp: store_get_def store_remove_def length_delete_le split: option.split)
qed

lemma get_max: "maxEntries (snd (store_get k now s)) = maxEntries s"
  by (auto simp: store_get_def split: option.split)

lemma drop_key_shrinks: "length (entries (drop_key k s)) \<le> length (entries s) \<and> maxEntries (drop_key k s) = maxEntries s"
  by (auto simp: drop_key_def store_remove_def length_delete_le split: option.split)

lemma fold_shrinks:
  fixes f :: "'a \<Rightarrow> 'v lru_store \<Rightarrow> 'v lru_store"
  assumes "\<And>x s. length (entries (f x s)) \<le> length (entries s) \<and> maxEntries (f x s) = maxEntries s"
  shows "length (entries (fold f xs s)) \<le> length (entries s) \<and> maxEntries (fold f xs s) = maxEntries s"
proof (induction xs arbitrary: s)
  case (Cons x xs)
  then show ?case using assms [of x s] Cons [of "f x s"] by (simp, linarith)
qed simp

lemma invalidate_shrinks: "length (entries (store_invalidateTags ts s)) \<le> length (entries s) \<and>
    maxEntries (store_invalidateTags ts s) = maxEntries s"
  unfolding store_invalidateTags_def
proof (rule fold_shrinks)
  show "length (entries (invalidateTag t s)) \<le> length (entries s) \<and> maxEntries (invalidateTag t s) = maxEntries s" for t and s :: "'a lru_store"
    by (cases "jm_get (tagIndex s) t") (simp_all add: invalidateTag_def fold_shrinks [of drop_key, OF drop_key_shrinks])
qed

lemma set_bounded: "store_size (store_set k v ttl tags now s) \<le> max 1 (maxEntries s)"
proof -
  let ?s1 = "case jm_get (entries s) k of None \<Rightarrow> s | Some prev \<Rightarrow> store_remove k prev s"
  have m: "maxEntries ?s1 = maxEntries s" by (simp split: option.split)
  have "store_size (store_set k v ttl tags now s) \<le> Suc (length (entries (evict ?s1)))"
    by (simp add: store_set_def store_size_def Let_def length_set_le)
  also have "\<dots> \<le> max 1 (maxEntries s)"
    using evict_room [of ?s1] unfolding m by (elim disjE) auto
  finally show ?thesis .
qed

lemma set_max: "maxEntries (store_set k v ttl tags now s) = maxEntries s"
  by (auto simp: store_set_def Let_def split: option.split)

lemma store_run_ok: "store_ok n s \<Longrightarrow> store_ok n (store_run c s)"
proof (cases c)
  case (Get_Call k now)
  then show "store_ok n s \<Longrightarrow> ?thesis" using get_shrinks [of k now s] store_get_wf [of s k now]
    by (auto simp: store_ok_def get_max store_size_def)
next
  case (Set_Call k v ttl tags now)
  then show "store_ok n s \<Longrightarrow> ?thesis" using set_bounded [of k v ttl tags now s] store_set_wf [of s k v ttl tags now]
    by (simp add: store_ok_def set_max)
next
  case (Invalidate_Call ts)
  then show "store_ok n s \<Longrightarrow> ?thesis" using invalidate_shrinks [of ts s] invalidateTags_wf [of s ts]
    by (auto simp: store_ok_def store_size_def)
next
  case Clear_Call
  then show "store_ok n s \<Longrightarrow> ?thesis"
    by (simp add: store_ok_def store_clear_def store_wf_def store_size_def indexed_def)
qed

lemma store_get_after_set:
  "fst (store_get k now' (store_set k v ttl tags now s)) = (if now + ttl \<le> now' then None else Some v)"
  by (simp add: store_get_def store_set_def Let_def js_simps)

text \<open>Whatever sequence of lookups, insertions, invalidations and clears the built-in store has gone through,
  it never holds more than \<^verbatim>\<open>maxEntries\<close> entries, its tag index names exactly the keys stored under every tag,
  and a value just stored is returned until its time to live has passed and not after.\<close>
theorem store_bounded:
  fixes calls :: "'v store_call list"
  shows "let s = fold store_run calls (new_store (Suc n)) in
    store_size s \<le> Suc n \<and> store_wf s \<and>
    fst (store_get k now' (store_set k v ttl tags now s)) = (if now + ttl \<le> now' then None else Some v)"
proof -
  have "store_ok (Suc n) s \<Longrightarrow> store_ok (Suc n) (fold store_run calls s)" for s :: "'v lru_store"
    by (induction calls arbitrary: s) (simp_all add: store_run_ok)
  moreover have "store_ok (Suc n) (new_store (Suc n) :: 'v lru_store)"
    using new_store_wf [of "Suc n"] by (simp add: store_ok_def store_size_def new_store_def)
  ultimately have "store_ok (Suc n) (fold store_run calls (new_store (Suc n)))" by blast
  then show ?thesis by (simp add: store_ok_def store_get_after_set)
qed

text \<open>The cache key does not separate a bigint bind value from the text it is serialized as, nor an undefined
  value from the text \<^verbatim>\<open>undef\<close>, nor a number that is not finite from null: two different queries share a key.\<close>
theorem cache_keys_collide:
  "buildKey ns text [Bigint_Bind i] = buildKey ns text [Text_Bind (''bi:'' @ decimal_int i)] \<and>
   buildKey ns text [Undefined_Bind] = buildKey ns text [Text_Bind ''undef''] \<and>
   buildKey ns text [Not_Finite_Bind] = buildKey ns text [Null_Bind]"
  by (simp add: buildKey_def serializeBindValues_def)

end
