(* ===== verification/Conditions.thy ===== *)
theory Conditions
  imports Prelude TextUtils
begin

section \<open>SQL conditions (src/core/Conditions.ts)\<close>

text \<open>
  A condition is the tree of the \<^verbatim>\<open>Conditions\<close> calls that built it; \<open>render\<close> is the fragment every call
  returns, \<open>eval\<close> what a database makes of it in three-valued logic. \<open>'b\<close> are the values that are bound.
\<close>

subsection \<open>Fragments\<close>

text \<open>
  A \<^verbatim>\<open>sql\<close> template: text and bound values in order. \<^verbatim>\<open>raw(s)\<close> is text, a nested fragment is
  spliced, \<^verbatim>\<open>join\<close> throws on an empty list (\<open>None\<close>).
\<close>
datatype 'b piece = Sql_Text string | Sql_Bind 'b

type_synonym 'b frag = "'b piece list"

fun frag_join :: "string \<Rightarrow> 'b frag list \<Rightarrow> 'b frag option" where
  "frag_join sep [] = None"
| "frag_join sep [f] = Some f"
| "frag_join sep (f # g # fs) = map_option (\<lambda>r. f @ Sql_Text sep # r) (frag_join sep (g # fs))"

definition frag_text :: "'b frag \<Rightarrow> string" where
  "frag_text f = concat (map (\<lambda>p. case p of Sql_Text t \<Rightarrow> t | Sql_Bind _ \<Rightarrow> ''?'') f)"

definition frag_values :: "'b frag \<Rightarrow> 'b list" where
  "frag_values f = concat (map (\<lambda>p. case p of Sql_Text _ \<Rightarrow> [] | Sql_Bind b \<Rightarrow> [b]) f)"

subsection \<open>Conditions\<close>

datatype 'b cond =
    Equals string 'b | Not_Equals string 'b
  | In_List string "'b list" | Not_In_List string "'b list"
  | Like string 'b | Not_Like string 'b
  | Is_Null string | Is_Not_Null string
  | Between string 'b 'b | Not_Between string 'b 'b
  | Gt string 'b | Gte string 'b | Lt string 'b | Lte string 'b
  | Or_Group "'b cond list" | And_Group "'b cond list"
  | Not_Group "'b cond"
  | Like_Escaped string 'b | Case_Like string 'b | Full_Text string 'b
  | Splice "'b frag"

text \<open>What is left to the dialect: \<^verbatim>\<open>ilike\<close> and the full-text search, which SQLite refuses.\<close>
record 'b dialect_sql =
  ilike_sql :: "string \<Rightarrow> 'b \<Rightarrow> 'b frag"
  search_sql :: "string \<Rightarrow> 'b \<Rightarrow> 'b frag option"
  escape_bind :: 'b

fun those_all :: "'a option list \<Rightarrow> 'a list option" where
  "those_all [] = Some []"
| "those_all (None # xs) = None"
| "those_all (Some x # xs) = map_option (Cons x) (those_all xs)"

definition bind_list :: "'b list \<Rightarrow> 'b frag" where
  "bind_list vs = (case frag_join '', '' (map (\<lambda>v. [Sql_Bind v]) vs) of None \<Rightarrow> [] | Some f \<Rightarrow> f)"

primrec render :: "'b dialect_sql \<Rightarrow> 'b cond \<Rightarrow> 'b frag option" where
  "render d (Equals c v) = Some [Sql_Text c, Sql_Text '' = '', Sql_Bind v]"
| "render d (Not_Equals c v) = Some [Sql_Text c, Sql_Text '' != '', Sql_Bind v]"
| "render d (In_List c vs) = (if vs = [] then Some [Sql_Text ''1 = 0'']
     else Some ([Sql_Text c, Sql_Text '' IN (''] @ bind_list vs @ [Sql_Text '')'']))"
| "render d (Not_In_List c vs) = (if vs = [] then Some [Sql_Text ''1 = 1'']
     else Some ([Sql_Text c, Sql_Text '' NOT IN (''] @ bind_list vs @ [Sql_Text '')'']))"
| "render d (Like c v) = Some [Sql_Text c, Sql_Text '' LIKE '', Sql_Bind v]"
| "render d (Not_Like c v) = Some [Sql_Text c, Sql_Text '' NOT LIKE '', Sql_Bind v]"
| "render d (Is_Null c) = Some [Sql_Text c, Sql_Text '' IS NULL'']"
| "render d (Is_Not_Null c) = Some [Sql_Text c, Sql_Text '' IS NOT NULL'']"
| "render d (Between c x y) = Some [Sql_Text c, Sql_Text '' BETWEEN '', Sql_Bind x, Sql_Text '' AND '', Sql_Bind y]"
| "render d (Not_Between c x y) = Some [Sql_Text c, Sql_Text '' NOT BETWEEN '', Sql_Bind x, Sql_Text '' AND '', Sql_Bind y]"
| "render d (Gt c v) = Some [Sql_Text c, Sql_Text '' > '', Sql_Bind v]"
| "render d (Gte c v) = Some [Sql_Text c, Sql_Text '' >= '', Sql_Bind v]"
| "render d (Lt c v) = Some [Sql_Text c, Sql_Text '' < '', Sql_Bind v]"
| "render d (Lte c v) = Some [Sql_Text c, Sql_Text '' <= '', Sql_Bind v]"
| "render d (Or_Group cs) = (case those_all (map (render d) cs) of None \<Rightarrow> None
     | Some fs \<Rightarrow> map_option (\<lambda>f. [Sql_Text ''(''] @ f @ [Sql_Text '')'']) (frag_join '' OR '' fs))"
| "render d (And_Group cs) = (case those_all (map (render d) cs) of None \<Rightarrow> None
     | Some fs \<Rightarrow> map_option (\<lambda>f. [Sql_Text ''(''] @ f @ [Sql_Text '')'']) (frag_join '' AND '' fs))"
| "render d (Not_Group c) = map_option (\<lambda>f. [Sql_Text ''NOT (''] @ f @ [Sql_Text '')'']) (render d c)"
| "render d (Like_Escaped c v) = Some [Sql_Text c, Sql_Text '' LIKE '', Sql_Bind v, Sql_Text '' ESCAPE '', Sql_Bind (escape_bind d)]"
| "render d (Case_Like c v) = Some (ilike_sql d c v)"
| "render d (Full_Text c v) = search_sql d c v"
| "render d (Splice f) = Some f"

subsection \<open>What a database makes of a condition\<close>

text \<open>\<open>None\<close> is UNKNOWN.\<close>
type_synonym truth = "bool option"

definition t_not :: "truth \<Rightarrow> truth" where
  "t_not t = map_option Not t"

definition t_and :: "truth list \<Rightarrow> truth" where
  "t_and ts = (if Some False \<in> set ts then Some False else if None \<in> set ts then None else Some True)"

definition t_or :: "truth list \<Rightarrow> truth" where
  "t_or ts = (if Some True \<in> set ts then Some True else if None \<in> set ts then None else Some False)"

text \<open>
  One row as the database reads it: the value of a column expression (\<open>None\<close> for NULL), the value a bound
  parameter stands for, its LIKE, and whatever it makes of a fragment given as SQL.
\<close>
record ('b, 'd) row_sem =
  col_value :: "string \<Rightarrow> 'd option"
  bind_value :: "'b \<Rightarrow> 'd option"
  like_sem :: "'d \<Rightarrow> 'd \<Rightarrow> bool"
  escaped_sem :: "'d \<Rightarrow> 'd \<Rightarrow> bool"
  ilike_sem :: "'d \<Rightarrow> 'd \<Rightarrow> bool"
  search_sem :: "string \<Rightarrow> 'd option \<Rightarrow> truth"
  splice_sem :: "'b frag \<Rightarrow> truth"

definition compare_values :: "('d \<Rightarrow> 'd \<Rightarrow> bool) \<Rightarrow> 'd option \<Rightarrow> 'd option \<Rightarrow> truth" where
  "compare_values p x y = (case (x, y) of (Some a, Some b) \<Rightarrow> Some (p a b) | _ \<Rightarrow> None)"

primrec eval :: "('b, 'd::linorder) row_sem \<Rightarrow> 'b cond \<Rightarrow> truth" where
  "eval s (Equals c v) = compare_values (=) (col_value s c) (bind_value s v)"
| "eval s (Not_Equals c v) = t_not (compare_values (=) (col_value s c) (bind_value s v))"
| "eval s (In_List c vs) = t_or (map (\<lambda>v. compare_values (=) (col_value s c) (bind_value s v)) vs)"
| "eval s (Not_In_List c vs) = t_not (t_or (map (\<lambda>v. compare_values (=) (col_value s c) (bind_value s v)) vs))"
| "eval s (Like c v) = compare_values (like_sem s) (col_value s c) (bind_value s v)"
| "eval s (Not_Like c v) = t_not (compare_values (like_sem s) (col_value s c) (bind_value s v))"
| "eval s (Is_Null c) = Some (col_value s c = None)"
| "eval s (Is_Not_Null c) = Some (col_value s c \<noteq> None)"
| "eval s (Between c x y) = t_and [compare_values (\<ge>) (col_value s c) (bind_value s x), compare_values (\<le>) (col_value s c) (bind_value s y)]"
| "eval s (Not_Between c x y) = t_not (t_and [compare_values (\<ge>) (col_value s c) (bind_value s x), compare_values (\<le>) (col_value s c) (bind_value s y)])"
| "eval s (Gt c v) = compare_values (>) (col_value s c) (bind_value s v)"
| "eval s (Gte c v) = compare_values (\<ge>) (col_value s c) (bind_value s v)"
| "eval s (Lt c v) = compare_values (<) (col_value s c) (bind_value s v)"
| "eval s (Lte c v) = compare_values (\<le>) (col_value s c) (bind_value s v)"
| "eval s (Or_Group cs) = t_or (map (eval s) cs)"
| "eval s (And_Group cs) = t_and (map (eval s) cs)"
| "eval s (Not_Group c) = t_not (eval s c)"
| "eval s (Like_Escaped c v) = compare_values (escaped_sem s) (col_value s c) (bind_value s v)"
| "eval s (Case_Like c v) = compare_values (ilike_sem s) (col_value s c) (bind_value s v)"
| "eval s (Full_Text c v) = search_sem s c (bind_value s v)"
| "eval s (Splice f) = splice_sem s f"

text \<open>A row is selected when the WHERE conditions, joined with AND, are true.\<close>
definition selects :: "('b, 'd::linorder) row_sem \<Rightarrow> 'b cond list \<Rightarrow> bool" where
  "selects s cs \<longleftrightarrow> t_and (map (eval s) cs) = Some True"

lemma t_and_True: "t_and ts = Some True \<longleftrightarrow> (\<forall>t\<in>set ts. t = Some True)"
proof -
  have "(t = Some True) = (t \<noteq> Some False \<and> t \<noteq> None)" for t :: truth
    by (cases t) auto
  then show ?thesis unfolding t_and_def by (simp; metis)
qed

lemma t_or_True: "t_or ts = Some True \<longleftrightarrow> (\<exists>t\<in>set ts. t = Some True)"
  by (auto simp: t_or_def)

lemma t_and_Cons [simp]: "t_and (t # ts) = Some True \<longleftrightarrow> t = Some True \<and> t_and ts = Some True"
  and t_or_Cons [simp]: "t_or (t # ts) = Some True \<longleftrightarrow> t = Some True \<or> t_or ts = Some True"
  and t_and_Nil [simp]: "t_and [] = Some True"
  and t_or_Nil [simp]: "t_or [] = Some False"
  by (auto simp: t_and_True t_or_True) (auto simp: t_and_def t_or_def)

lemma selects_iff: "selects s cs \<longleftrightarrow> (\<forall>c\<in>set cs. eval s c = Some True)"
  by (auto simp: selects_def t_and_True)

lemma selects_append [simp]: "selects s (cs @ ds) \<longleftrightarrow> selects s cs \<and> selects s ds"
  by (auto simp: selects_iff)

lemma compare_True [simp]: "compare_values p x y = Some True \<longleftrightarrow> (\<exists>a b. x = Some a \<and> y = Some b \<and> p a b)"
  by (auto simp: compare_values_def split: option.splits)

subsection \<open>Groups that can be rendered\<close>

text \<open>\<^verbatim>\<open>join([])\<close> throws: no group of a condition that reaches it may be empty.\<close>
primrec grouped :: "'b cond \<Rightarrow> bool" where
  "grouped (Equals c v) = True"
| "grouped (Not_Equals c v) = True"
| "grouped (In_List c vs) = True"
| "grouped (Not_In_List c vs) = True"
| "grouped (Like c v) = True"
| "grouped (Not_Like c v) = True"
| "grouped (Is_Null c) = True"
| "grouped (Is_Not_Null c) = True"
| "grouped (Between c x y) = True"
| "grouped (Not_Between c x y) = True"
| "grouped (Gt c v) = True"
| "grouped (Gte c v) = True"
| "grouped (Lt c v) = True"
| "grouped (Lte c v) = True"
| "grouped (Or_Group cs) = (cs \<noteq> [] \<and> list_all (\<lambda>b. b) (map grouped cs))"
| "grouped (And_Group cs) = (cs \<noteq> [] \<and> list_all (\<lambda>b. b) (map grouped cs))"
| "grouped (Not_Group c) = grouped c"
| "grouped (Like_Escaped c v) = True"
| "grouped (Case_Like c v) = True"
| "grouped (Full_Text c v) = True"
| "grouped (Splice f) = True"

lemma frag_join_Some: "fs \<noteq> [] \<Longrightarrow> \<exists>f. frag_join sep fs = Some f"
  by (induction sep fs rule: frag_join.induct) auto

lemma those_all_Some: "(\<And>x. x \<in> set xs \<Longrightarrow> x \<noteq> None) \<Longrightarrow> \<exists>ys. those_all xs = Some ys \<and> length ys = length xs"
  by (induction xs rule: those_all.induct) auto

lemma render_grouped:
  assumes "\<And>c v. search_sql d c v \<noteq> None"
  shows "grouped c \<Longrightarrow> \<exists>f. render d c = Some f"
proof (induction c)
  case (Or_Group cs)
  then obtain fs where fs: "those_all (map (render d) cs) = Some fs" "length fs = length cs"
    using those_all_Some [of "map (render d) cs"] by (fastforce simp: list_all_iff)
  have "fs \<noteq> []" using fs(2) Or_Group.prems by (cases cs) auto
  then obtain f where "frag_join '' OR '' fs = Some f"
    using frag_join_Some [of fs "'' OR ''"] by blast
  then show ?case using fs by simp
next
  case (And_Group cs)
  then obtain fs where fs: "those_all (map (render d) cs) = Some fs" "length fs = length cs"
    using those_all_Some [of "map (render d) cs"] by (fastforce simp: list_all_iff)
  have "fs \<noteq> []" using fs(2) And_Group.prems by (cases cs) auto
  then obtain f where "frag_join '' AND '' fs = Some f"
    using frag_join_Some [of fs "'' AND ''"] by blast
  then show ?case using fs by simp
qed (use assms in auto)

end
