(* ===== verification/WhereResolver.thy ===== *)
theory WhereResolver
  imports Conditions
begin

section \<open>Where clauses (src/core/WhereResolver.ts)\<close>

text \<open>
  \<^verbatim>\<open>resolveWhereClause\<close> turns a \<^verbatim>\<open>where\<close> into conditions. The \<^verbatim>\<open>where\<close> is a JavaScript value; an operand
  the type \<^verbatim>\<open>WhereClause\<close> excludes is the error \<open>Not_A_Where\<close>. Then: what the conditions mean is what the clause
  says, and no value of the clause gets into the SQL text.
\<close>

subsection \<open>Values\<close>

text \<open>\<open>Data\<close> is any other truthy value (dates, buffers, fractions, big integers), \<open>Fragment\<close> a \<^verbatim>\<open>sql\<close> fragment.\<close>
datatype 'v jsv = Undef | Null | Bool bool | Num int | Str string | Data 'v
  | Arr "'v jsv list" | Obj "(string \<times> 'v jsv) list" | Fragment "'v jsv frag"

datatype where_error = Undefined_Operand string string | Undefined_Element string string nat | Empty_Or_Branch string nat
  | Bad_Between string | Not_A_Where

type_synonym 'v where_cond = "'v jsv cond"

fun truthy :: "'v jsv \<Rightarrow> bool" where
  "truthy Undef = False"
| "truthy Null = False"
| "truthy (Bool b) = b"
| "truthy (Num n) = (n \<noteq> 0)"
| "truthy (Str s) = (s \<noteq> [])"
| "truthy _ = True"

text \<open>\<^verbatim>\<open>"sql" in value\<close>\<close>
fun has_sql :: "'v jsv \<Rightarrow> bool" where
  "has_sql (Fragment _) = True"
| "has_sql (Obj fs) = (''sql'' \<in> set (map fst fs))"
| "has_sql _ = False"

definition isUntransformable :: "'v jsv \<Rightarrow> bool" where
  "isUntransformable v \<longleftrightarrow> v = Null \<or> v = Undef \<or> has_sql v"

definition FILTER_OPERATOR_KEYS :: "string list" where
  "FILTER_OPERATOR_KEYS = [''eq'', ''ne'', ''gt'', ''gte'', ''lt'', ''lte'', ''in'', ''notIn'', ''like'', ''notLike'', ''ilike'',
     ''between'', ''isNull'', ''not'', ''contains'', ''startsWith'', ''endsWith'', ''search'']"

fun isFilterObject :: "'v jsv \<Rightarrow> bool" where
  "isFilterObject (Obj fs) = (\<not> has_sql (Obj fs) \<and> fs \<noteq> [] \<and> set (map fst fs) \<subseteq> set FILTER_OPERATOR_KEYS)"
| "isFilterObject _ = False"

definition RELATION_FILTER_KEYS :: "string list" where
  "RELATION_FILTER_KEYS = [''some'', ''none'', ''every'', ''is'', ''isNot'']"

fun isRelationFilter :: "'v jsv \<Rightarrow> bool" where
  "isRelationFilter (Obj fs) = (fs \<noteq> [] \<and> set (map fst fs) \<subseteq> set RELATION_FILTER_KEYS)"
| "isRelationFilter _ = False"

subsection \<open>Options\<close>

record 'v where_opts =
  wrapColumn :: "string \<Rightarrow> string"
  isQualified :: bool
  tableName :: "string option"
  propertyToColumn :: "string \<Rightarrow> string option"
  qualifyColumn :: "(string \<Rightarrow> string) option"
  transformValue :: "(string \<Rightarrow> 'v jsv \<Rightarrow> 'v jsv) option"
  relationFilter :: "(string \<Rightarrow> 'v jsv \<Rightarrow> 'v where_cond option) option"

text \<open>\<^verbatim>\<open>qualified && tableName\<close>: an empty table name is falsy.\<close>
definition where_column :: "'v where_opts \<Rightarrow> string \<Rightarrow> string" where
  "where_column opts key = (let db = (case propertyToColumn opts key of None \<Rightarrow> key | Some c \<Rightarrow> c) in
     (case (isQualified opts, qualifyColumn opts) of
        (True, Some q) \<Rightarrow> q db
      | _ \<Rightarrow> (case (isQualified opts, tableName opts) of
          (True, Some t) \<Rightarrow> if t = [] then wrapColumn opts db else wrapColumn opts t @ ''.'' @ wrapColumn opts db
        | _ \<Rightarrow> wrapColumn opts db)))"

text \<open>The local \<^verbatim>\<open>tv\<close>.\<close>
definition transformed :: "'v where_opts \<Rightarrow> string \<Rightarrow> 'v jsv \<Rightarrow> 'v jsv" where
  "transformed opts field v = (case transformValue opts of
     None \<Rightarrow> v
   | Some f \<Rightarrow> if isUntransformable v then v else f field v)"

subsection \<open>Operators\<close>

fun first_undefined :: "'v jsv list \<Rightarrow> nat \<Rightarrow> nat option" where
  "first_undefined [] i = None"
| "first_undefined (v # vs) i = (if v = Undef then Some i else first_undefined vs (i + 1))"

text \<open>The list of an \<^verbatim>\<open>in\<close> or \<^verbatim>\<open>notIn\<close> after \<^verbatim>\<open>assertNoUndefinedElement\<close>, transformed.\<close>
definition in_values :: "'v where_opts \<Rightarrow> string \<Rightarrow> string \<Rightarrow> 'v jsv \<Rightarrow> where_error + 'v jsv list" where
  "in_values opts field op v = (case v of
     Arr vs \<Rightarrow> (case first_undefined vs 0 of
         Some i \<Rightarrow> Inl (Undefined_Element field op i)
       | None \<Rightarrow> Inr (map (transformed opts field) vs))
   | _ \<Rightarrow> Inl Not_A_Where)"

definition between_bounds :: "string \<Rightarrow> 'v jsv \<Rightarrow> where_error + 'v jsv \<times> 'v jsv" where
  "between_bounds field v = (case v of
     Arr (x # y # _) \<Rightarrow> if x = Undef \<or> y = Undef then Inl (Bad_Between field) else Inr (x, y)
   | _ \<Rightarrow> Inl (Bad_Between field))"

text \<open>The pattern of \<^verbatim>\<open>contains\<close>, \<^verbatim>\<open>startsWith\<close> and \<^verbatim>\<open>endsWith\<close>.\<close>
definition escaped_pattern :: "string \<Rightarrow> 'v jsv \<Rightarrow> string \<Rightarrow> where_error + 'v jsv" where
  "escaped_pattern before v after = (case v of Str s \<Rightarrow> Inr (Str (before @ escapeLikeValue s @ after)) | _ \<Rightarrow> Inl Not_A_Where)"

definition sum_map :: "('a \<Rightarrow> 'b) \<Rightarrow> 'e + 'a \<Rightarrow> 'e + 'b" where
  "sum_map f r = (case r of Inl e \<Rightarrow> Inl e | Inr a \<Rightarrow> Inr (f a))"

definition join_clauses :: "'b cond list \<Rightarrow> 'b cond" where
  "join_clauses cs = (case cs of [c] \<Rightarrow> c | _ \<Rightarrow> And_Group cs)"

text \<open>One case of the \<^verbatim>\<open>switch\<close>, \<^verbatim>\<open>not\<close> apart; an operator outside the list pushes nothing.\<close>
definition plain_operator :: "'v where_opts \<Rightarrow> string \<Rightarrow> string \<Rightarrow> string \<Rightarrow> 'v jsv \<Rightarrow> where_error + 'v where_cond list" where
  "plain_operator opts col field op v = (let tv = transformed opts field in
     if op = ''eq'' then Inr [if v = Null then Is_Null col else Equals col (tv v)]
     else if op = ''ne'' then Inr [if v = Null then Is_Not_Null col else Not_Equals col (tv v)]
     else if op = ''gt'' then Inr [Gt col (tv v)]
     else if op = ''gte'' then Inr [Gte col (tv v)]
     else if op = ''lt'' then Inr [Lt col (tv v)]
     else if op = ''lte'' then Inr [Lte col (tv v)]
     else if op = ''in'' then sum_map (\<lambda>vs. [In_List col vs]) (in_values opts field op v)
     else if op = ''notIn'' then sum_map (\<lambda>vs. [Not_In_List col vs]) (in_values opts field op v)
     else if op = ''like'' then Inr [Like col v]
     else if op = ''notLike'' then Inr [Not_Like col v]
     else if op = ''ilike'' then Inr [Case_Like col v]
     else if op = ''between'' then sum_map (\<lambda>(x, y). [Between col (tv x) (tv y)]) (between_bounds field v)
     else if op = ''isNull'' then Inr [if truthy v then Is_Null col else Is_Not_Null col]
     else if op = ''contains'' then sum_map (\<lambda>p. [Like_Escaped col p]) (escaped_pattern ''%'' v ''%'')
     else if op = ''startsWith'' then sum_map (\<lambda>p. [Like_Escaped col p]) (escaped_pattern [] v ''%'')
     else if op = ''endsWith'' then sum_map (\<lambda>p. [Like_Escaped col p]) (escaped_pattern ''%'' v [])
     else if op = ''search'' then Inr [Full_Text col v]
     else Inr [])"

text \<open>\<^verbatim>\<open>resolveFilterObject\<close>: the clauses of the entries in order; the first error ends it.\<close>
function filter_clauses :: "'v where_opts \<Rightarrow> string \<Rightarrow> string \<Rightarrow> (string \<times> 'v jsv) list \<Rightarrow> where_error + 'v where_cond list" where
  "filter_clauses opts col field [] = Inr []"
| "filter_clauses opts col field ((op, v) # fs) =
     (if v = Undef then Inl (Undefined_Operand field op)
      else (case (if op = ''not''
            then (case v of
                Null \<Rightarrow> Inr [Is_Not_Null col]
              | Obj gs \<Rightarrow> if isFilterObject v
                  then sum_map (\<lambda>cs. [Not_Group (join_clauses cs)]) (filter_clauses opts col field gs)
                  else Inr [Not_Equals col (transformed opts field v)]
              | _ \<Rightarrow> Inr [Not_Equals col (transformed opts field v)])
            else plain_operator opts col field op v) of
          Inl e \<Rightarrow> Inl e
        | Inr cs \<Rightarrow> sum_map (\<lambda>ds. cs @ ds) (filter_clauses opts col field fs)))"
  by pat_completeness auto
termination
  by (relation "measure (\<lambda>(_, _, _, fs). size_list (size_prod (\<lambda>_. 0) size) fs)") auto

definition resolveFilterObject :: "'v where_opts \<Rightarrow> string \<Rightarrow> string \<Rightarrow> (string \<times> 'v jsv) list \<Rightarrow> where_error + 'v where_cond" where
  "resolveFilterObject opts col field fs = sum_map join_clauses (filter_clauses opts col field fs)"


text \<open>A value taken as a \<^verbatim>\<open>Sql\<close>: a fragment is spliced, \<^verbatim>\<open>join\<close> binds anything else.\<close>
definition spliced :: "'v jsv \<Rightarrow> 'v where_cond" where
  "spliced v = (case v of Fragment f \<Rightarrow> Splice f | _ \<Rightarrow> Splice [Sql_Bind v])"

definition resolveWhereValue :: "'v where_opts \<Rightarrow> string \<Rightarrow> 'v jsv \<Rightarrow> string \<Rightarrow> where_error + 'v where_cond" where
  "resolveWhereValue opts col v field =
     (if v = Null then Inr (Is_Null col)
      else if has_sql v then Inr (spliced v)
      else (case v of
          Arr vs \<Rightarrow> sum_map (In_List col) (in_values opts field ''IN'' v)
        | Obj fs \<Rightarrow> if isFilterObject v then resolveFilterObject opts col field fs else Inr (Equals col (transformed opts field v))
        | _ \<Rightarrow> Inr (Equals col (transformed opts field v))))"

definition where_field :: "'v where_opts \<Rightarrow> string \<Rightarrow> 'v jsv \<Rightarrow> where_error + 'v where_cond list" where
  "where_field opts key v =
     (if v = Undef then Inr []
      else (case (if isRelationFilter v then (case relationFilter opts of None \<Rightarrow> None | Some hook \<Rightarrow> hook key v) else None) of
          Some c \<Rightarrow> Inr [c]
        | None \<Rightarrow> sum_map (\<lambda>c. [c]) (resolveWhereValue opts (where_column opts key) v key)))"

text \<open>\<^verbatim>\<open>resolveWhereSingleObject\<close>, with its branches of OR and AND.\<close>
function (sequential) where_object :: "'v where_opts \<Rightarrow> (string \<times> 'v jsv) list \<Rightarrow> where_error + 'v where_cond list"
  and or_branches :: "'v where_opts \<Rightarrow> string \<Rightarrow> nat \<Rightarrow> 'v jsv list \<Rightarrow> where_error + 'v where_cond list"
  and and_branches :: "'v where_opts \<Rightarrow> 'v jsv list \<Rightarrow> where_error + 'v where_cond list" where
  "where_object opts [] = Inr []"
| "where_object opts ((key, v) # fs) =
     (case (if key = ''OR'' then (case v of
              Undef \<Rightarrow> Inr []
            | Arr cs \<Rightarrow> sum_map (\<lambda>ds. if ds = [] then [] else [Or_Group ds]) (or_branches opts ''OR'' 0 cs)
            | _ \<Rightarrow> Inl Not_A_Where)
          else if key = ''AND'' then (case v of
              Undef \<Rightarrow> Inr []
            | Arr cs \<Rightarrow> sum_map (\<lambda>ds. if ds = [] then [] else [And_Group ds]) (and_branches opts cs)
            | _ \<Rightarrow> Inl Not_A_Where)
          else if key = ''NOT'' then (case v of
              Undef \<Rightarrow> Inr []
            | Obj gs \<Rightarrow> sum_map (\<lambda>ds. if ds = [] then [] else [Not_Group (join_clauses ds)]) (where_object opts gs)
            | _ \<Rightarrow> Inl Not_A_Where)
          else where_field opts key v) of
        Inl e \<Rightarrow> Inl e
      | Inr cs \<Rightarrow> sum_map (\<lambda>ds. cs @ ds) (where_object opts fs))"
| "or_branches opts path i [] = Inr []"
| "or_branches opts path i (Obj gs # vs) = (case where_object opts gs of
      Inl e \<Rightarrow> Inl e
    | Inr [] \<Rightarrow> Inl (Empty_Or_Branch path i)
    | Inr ds \<Rightarrow> sum_map (Cons (join_clauses ds)) (or_branches opts path (i + 1) vs))"
| "or_branches opts path i (v # vs) = Inl Not_A_Where"
| "and_branches opts [] = Inr []"
| "and_branches opts (Obj gs # vs) = (case where_object opts gs of
      Inl e \<Rightarrow> Inl e
    | Inr ds \<Rightarrow> sum_map (\<lambda>rest. if ds = [] then rest else join_clauses ds # rest) (and_branches opts vs))"
| "and_branches opts (v # vs) = Inl Not_A_Where"
  by pat_completeness auto
termination
  by (relation "measure (\<lambda>x. case x of
      Inl (_, fs) \<Rightarrow> size_list (size_prod (\<lambda>_. 0) size) fs
    | Inr (Inl (_, _, _, vs)) \<Rightarrow> size_list size vs
    | Inr (Inr (_, vs)) \<Rightarrow> size_list size vs)") auto

definition resolveWhereClause :: "'v where_opts \<Rightarrow> 'v jsv \<Rightarrow> where_error + 'v where_cond list" where
  "resolveWhereClause opts w =
     (if \<not> truthy w then Inr []
      else (case w of
          Arr cs \<Rightarrow> sum_map (\<lambda>ds. case ds of [] \<Rightarrow> [] | [d] \<Rightarrow> [d] | _ \<Rightarrow> [Or_Group ds]) (or_branches opts [] 0 cs)
        | Obj fs \<Rightarrow> where_object opts fs
        | _ \<Rightarrow> Inl Not_A_Where))"

subsection \<open>What a where clause says\<close>

text \<open>
  The meaning of a clause on a row, in three-valued logic, straight from the clause: an operator compares the
  column with the transformed operand, the entries of an object and the branches of AND are ANDed, those of OR
  and of an array ORed; a key that is \<^verbatim>\<open>undefined\<close>, an empty OR, an AND or NOT without conditions say nothing.
\<close>
definition operator_truth :: "('v jsv, 'd::linorder) row_sem \<Rightarrow> 'v where_opts \<Rightarrow> string \<Rightarrow> string \<Rightarrow> string \<Rightarrow> 'v jsv \<Rightarrow> truth" where
  "operator_truth s opts col field op v =
     (let x = col_value s col; as_stored = (\<lambda>v. bind_value s (transformed opts field v));
          is_in = (\<lambda>v. t_or (map (\<lambda>e. compare_values (=) x (as_stored e)) (case v of Arr vs \<Rightarrow> vs | _ \<Rightarrow> [])));
          pattern = (\<lambda>before after. compare_values (escaped_sem s) x (bind_value s (case v of Str t \<Rightarrow> Str (before @ escapeLikeValue t @ after) | _ \<Rightarrow> v))) in
      if op = ''eq'' then (if v = Null then Some (x = None) else compare_values (=) x (as_stored v))
      else if op = ''ne'' then (if v = Null then Some (x \<noteq> None) else t_not (compare_values (=) x (as_stored v)))
      else if op = ''gt'' then compare_values (>) x (as_stored v)
      else if op = ''gte'' then compare_values (\<ge>) x (as_stored v)
      else if op = ''lt'' then compare_values (<) x (as_stored v)
      else if op = ''lte'' then compare_values (\<le>) x (as_stored v)
      else if op = ''in'' then is_in v
      else if op = ''notIn'' then t_not (is_in v)
      else if op = ''like'' then compare_values (like_sem s) x (bind_value s v)
      else if op = ''notLike'' then t_not (compare_values (like_sem s) x (bind_value s v))
      else if op = ''ilike'' then compare_values (ilike_sem s) x (bind_value s v)
      else if op = ''between'' then (case v of
          Arr (lo # hi # _) \<Rightarrow> t_and [compare_values (\<ge>) x (as_stored lo), compare_values (\<le>) x (as_stored hi)] | _ \<Rightarrow> None)
      else if op = ''isNull'' then Some (truthy v = (x = None))
      else if op = ''contains'' then pattern ''%'' ''%''
      else if op = ''startsWith'' then pattern [] ''%''
      else if op = ''endsWith'' then pattern ''%'' []
      else if op = ''search'' then search_sem s col (bind_value s v)
      else Some True)"

function filter_truths :: "('v jsv, 'd::linorder) row_sem \<Rightarrow> 'v where_opts \<Rightarrow> string \<Rightarrow> string \<Rightarrow> (string \<times> 'v jsv) list \<Rightarrow> truth list" where
  "filter_truths s opts col field [] = []"
| "filter_truths s opts col field ((op, v) # fs) =
     (if op = ''not'' then (case v of
          Null \<Rightarrow> Some (col_value s col \<noteq> None)
        | Obj gs \<Rightarrow> t_not (if isFilterObject v then t_and (filter_truths s opts col field gs)
            else compare_values (=) (col_value s col) (bind_value s (transformed opts field v)))
        | _ \<Rightarrow> t_not (compare_values (=) (col_value s col) (bind_value s (transformed opts field v))))
      else operator_truth s opts col field op v) # filter_truths s opts col field fs"
  by pat_completeness auto
termination
  by (relation "measure (\<lambda>(_, _, _, _, fs). size_list (size_prod (\<lambda>_. 0) size) fs)") auto

definition value_truth :: "('v jsv, 'd::linorder) row_sem \<Rightarrow> 'v where_opts \<Rightarrow> string \<Rightarrow> 'v jsv \<Rightarrow> string \<Rightarrow> truth" where
  "value_truth s opts col v field =
     (let equal = (\<lambda>v. compare_values (=) (col_value s col) (bind_value s (transformed opts field v))) in
      if v = Null then Some (col_value s col = None)
      else if has_sql v then splice_sem s (case v of Fragment f \<Rightarrow> f | _ \<Rightarrow> [Sql_Bind v])
      else (case v of
          Arr vs \<Rightarrow> t_or (map equal vs)
        | Obj fs \<Rightarrow> if isFilterObject v then t_and (filter_truths s opts col field fs) else equal v
        | _ \<Rightarrow> equal v))"

definition relation_condition :: "'v where_opts \<Rightarrow> string \<Rightarrow> 'v jsv \<Rightarrow> 'v where_cond option" where
  "relation_condition opts key v = (if isRelationFilter v then (case relationFilter opts of None \<Rightarrow> None | Some hook \<Rightarrow> hook key v) else None)"

definition field_truth :: "('v jsv, 'd::linorder) row_sem \<Rightarrow> 'v where_opts \<Rightarrow> string \<Rightarrow> 'v jsv \<Rightarrow> truth list" where
  "field_truth s opts key v = (if v = Undef then [] else
     [case relation_condition opts key v of Some c \<Rightarrow> eval s c | None \<Rightarrow> value_truth s opts (where_column opts key) v key])"

text \<open>The conditions an object states; none is TRUE.\<close>
function (sequential) object_truths :: "('v jsv, 'd::linorder) row_sem \<Rightarrow> 'v where_opts \<Rightarrow> (string \<times> 'v jsv) list \<Rightarrow> truth list"
  and branch_truths :: "('v jsv, 'd::linorder) row_sem \<Rightarrow> 'v where_opts \<Rightarrow> 'v jsv list \<Rightarrow> truth list list" where
  "object_truths s opts [] = []"
| "object_truths s opts ((key, v) # fs) =
     (if key = ''OR'' then (case v of Arr (c # cs) \<Rightarrow> [t_or (map t_and (branch_truths s opts (c # cs)))] | _ \<Rightarrow> [])
      else if key = ''AND'' then (case v of
          Arr cs \<Rightarrow> (let bs = filter (\<lambda>b. b \<noteq> []) (branch_truths s opts cs) in if bs = [] then [] else [t_and (concat bs)]) | _ \<Rightarrow> [])
      else if key = ''NOT'' then (case v of
          Obj gs \<Rightarrow> (let b = object_truths s opts gs in if b = [] then [] else [t_not (t_and b)]) | _ \<Rightarrow> [])
      else field_truth s opts key v) @ object_truths s opts fs"
| "branch_truths s opts [] = []"
| "branch_truths s opts (v # vs) = (case v of Obj gs \<Rightarrow> object_truths s opts gs | _ \<Rightarrow> []) # branch_truths s opts vs"
  by pat_completeness auto
termination
  by (relation "measure (\<lambda>x. case x of
      Inl (_, _, fs) \<Rightarrow> size_list (size_prod (\<lambda>_. 0) size) fs
    | Inr (_, _, vs) \<Rightarrow> size_list size vs)") auto

definition where_truth :: "('v jsv, 'd::linorder) row_sem \<Rightarrow> 'v where_opts \<Rightarrow> 'v jsv \<Rightarrow> truth" where
  "where_truth s opts w = (case w of
     Arr (c # cs) \<Rightarrow> t_or (map t_and (branch_truths s opts (c # cs)))
   | Obj fs \<Rightarrow> t_and (object_truths s opts fs)
   | _ \<Rightarrow> Some True)"

subsection \<open>The conditions mean what the clause says\<close>

lemma sum_map_Inr: "sum_map f r = Inr y \<longleftrightarrow> (\<exists>x. r = Inr x \<and> y = f x)"
  by (auto simp: sum_map_def split: sum.splits)

lemma t_and_append: "t_and (xs @ ys) = t_and [t_and xs, t_and ys]"
  by (auto simp: t_and_def)

lemma t_and_single [simp]: "t_and [t] = t"
  by (cases t) (auto simp: t_and_def)

lemma t_or_single [simp]: "t_or [t] = t"
  by (cases t) (auto simp: t_or_def)

lemma eval_join: "cs \<noteq> [] \<Longrightarrow> eval s (join_clauses cs) = t_and (map (eval s) cs)"
  by (auto simp: join_clauses_def split: list.split)

lemma plain_operator_truth:
  assumes "plain_operator opts col field op v = Inr cs" "op \<in> set FILTER_OPERATOR_KEYS" "op \<noteq> ''not''"
  shows "map (eval s) cs = [operator_truth s opts col field op v] \<and> list_all grouped cs"
  using assms unfolding plain_operator_def operator_truth_def FILTER_OPERATOR_KEYS_def
  by (auto simp: sum_map_Inr in_values_def between_bounds_def escaped_pattern_def Let_def comp_def
      split: if_splits jsv.splits option.splits list.splits)


lemma filter_clauses_truth:
  "filter_clauses opts col field fs = Inr cs \<Longrightarrow> set (map fst fs) \<subseteq> set FILTER_OPERATOR_KEYS \<Longrightarrow>
   map (eval s) cs = filter_truths s opts col field fs \<and> list_all grouped cs"
proof (induction opts col field fs arbitrary: cs rule: filter_clauses.induct)
  case (2 opts col field op v fs)
  obtain cs1 cs2 where cs: "cs = cs1 @ cs2" "filter_clauses opts col field fs = Inr cs2"
    and first: "(if op = ''not'' then (case v of
                Null \<Rightarrow> Inr [Is_Not_Null col]
              | Obj gs \<Rightarrow> if isFilterObject v
                  then sum_map (\<lambda>cs. [Not_Group (join_clauses cs)]) (filter_clauses opts col field gs)
                  else Inr [Not_Equals col (transformed opts field v)]
              | _ \<Rightarrow> Inr [Not_Equals col (transformed opts field v)])
            else plain_operator opts col field op v) = Inr cs1" and v: "v \<noteq> Undef"
    using "2.prems"(1) by (auto simp: sum_map_Inr split: if_splits sum.splits)
  have rest: "map (eval s) cs2 = filter_truths s opts col field fs \<and> list_all grouped cs2"
    using "2.IH" cs(2) "2.prems"(2) v first by simp
  show ?case
  proof (cases "op = ''not''")
    case False
    have "op \<in> set FILTER_OPERATOR_KEYS" using "2.prems"(2) by simp
    with plain_operator_truth [of opts col field op v cs1 s] first False
    have "map (eval s) cs1 = [operator_truth s opts col field op v] \<and> list_all grouped cs1" by simp
    then show ?thesis using rest False cs(1) by simp
  next
    case True
    have nested: "map (eval s) cs1 = [t_not (t_and (filter_truths s opts col field gs))] \<and> list_all grouped cs1"
      if vo: "v = Obj gs" "isFilterObject v" for gs
    proof -
      obtain ds where ds: "filter_clauses opts col field gs = Inr ds" "cs1 = [Not_Group (join_clauses ds)]"
        using first True vo(2) unfolding vo(1) by (auto simp: sum_map_Inr simp del: isFilterObject.simps)
      have sub: "set (map fst gs) \<subseteq> set FILTER_OPERATOR_KEYS" "gs \<noteq> []" using vo by simp_all
      have IH: "map (eval s) ds = filter_truths s opts col field gs \<and> list_all grouped ds"
        using "2.IH"(1) [OF v True vo] ds(1) sub(1) by blast
      then have "ds \<noteq> []" using sub(2) by (cases gs) auto
      then show ?thesis using IH ds(2) eval_join [of ds s]
        by (auto simp: join_clauses_def list_all_iff split: list.split)
    qed
    show ?thesis
    proof (cases "\<exists>gs. v = Obj gs \<and> isFilterObject v")
      case True
      then show ?thesis using nested rest cs(1) \<open>op = ''not''\<close> by auto
    next
      case False
      then show ?thesis using first rest cs(1) True by (cases v) (auto simp del: isFilterObject.simps)
    qed
  qed
qed simp

lemma resolveWhereValue_truth:
  assumes "resolveWhereValue opts col v field = Inr c" "v \<noteq> Undef"
  shows "eval s c = value_truth s opts col v field \<and> grouped c"
proof (cases "\<exists>fs. v = Obj fs \<and> isFilterObject v")
  case True
  then obtain fs where fs: "v = Obj fs" "isFilterObject v" by blast
  then have "\<not> has_sql v" "fs \<noteq> []" by simp_all
  then obtain cs where cs: "filter_clauses opts col field fs = Inr cs" "c = join_clauses cs"
    using assms fs by (auto simp: resolveWhereValue_def resolveFilterObject_def sum_map_Inr simp del: isFilterObject.simps has_sql.simps)
  have t: "map (eval s) cs = filter_truths s opts col field fs \<and> list_all grouped cs"
    using filter_clauses_truth [OF cs(1)] fs by simp
  then have "cs \<noteq> []" using \<open>fs \<noteq> []\<close> by (cases fs) auto
  then show ?thesis using t cs(2) eval_join [of cs s] \<open>\<not> has_sql v\<close> fs
    by (auto simp: value_truth_def Let_def join_clauses_def list_all_iff simp del: isFilterObject.simps has_sql.simps split: list.split)
next
  case False
  then show ?thesis using assms
    by (cases v) (auto simp: resolveWhereValue_def value_truth_def Let_def sum_map_Inr in_values_def spliced_def comp_def
      simp del: isFilterObject.simps split: option.splits if_splits)
qed

definition hooks_grouped :: "'v where_opts \<Rightarrow> bool" where
  "hooks_grouped opts \<longleftrightarrow> (\<forall>hook key v c. relationFilter opts = Some hook \<longrightarrow> hook key v = Some c \<longrightarrow> grouped c)"

lemma where_field_truth:
  assumes "where_field opts key v = Inr cs" "hooks_grouped opts"
  shows "map (eval s) cs = field_truth s opts key v \<and> list_all grouped cs"
proof (cases "v = Undef")
  case False
  show ?thesis
  proof (cases "relation_condition opts key v")
    case None
    then obtain c where c: "resolveWhereValue opts (where_column opts key) v key = Inr c" "cs = [c]"
      using assms(1) False by (auto simp: where_field_def relation_condition_def [symmetric] sum_map_Inr)
    show ?thesis using resolveWhereValue_truth [OF c(1) False] c(2) False None by (simp add: field_truth_def)
  next
    case (Some c)
    then have "grouped c" using assms(2)
      by (auto simp: relation_condition_def hooks_grouped_def split: if_splits option.splits)
    then show ?thesis using Some assms(1) False by (auto simp: where_field_def relation_condition_def [symmetric] field_truth_def)
  qed
qed (use assms in \<open>auto simp: where_field_def field_truth_def\<close>)

lemma t_and_concat: "t_and (map t_and bs) = t_and (concat bs)"
proof (induction bs)
  case (Cons b bs)
  have "t_and (x # xs) = t_and [x, t_and xs]" for x xs using t_and_append [of "[x]" xs] by simp
  then show ?case using Cons t_and_append [of b "concat bs"] by simp metis
qed simp

lemma grouped_join: "list_all grouped cs \<Longrightarrow> cs \<noteq> [] \<Longrightarrow> grouped (join_clauses cs)"
  by (auto simp: join_clauses_def list_all_iff split: list.split)

lemma grouped_Or: "list_all grouped cs \<Longrightarrow> cs \<noteq> [] \<Longrightarrow> grouped (Or_Group cs)"
  and grouped_And: "list_all grouped cs \<Longrightarrow> cs \<noteq> [] \<Longrightarrow> grouped (And_Group cs)"
  by (auto simp: list_all_iff)

lemma clause_truths:
  assumes hooks: "hooks_grouped opts"
  shows "where_object opts fs = Inr cs \<Longrightarrow> map (eval s) cs = object_truths s opts fs \<and> list_all grouped cs"
    and "or_branches opts path i vs = Inr ds \<Longrightarrow> map (eval s) ds = map t_and (branch_truths s opts vs) \<and> list_all grouped ds \<and> length ds = length vs"
    and "and_branches opts vs = Inr ds \<Longrightarrow> map (eval s) ds = map t_and (filter (\<lambda>b. b \<noteq> []) (branch_truths s opts vs)) \<and> list_all grouped ds"
  using hooks
proof (induction opts fs and opts path i vs and opts vs arbitrary: cs and ds and ds
    rule: where_object_or_branches_and_branches.induct)
  case (2 opts key v fs)
  obtain cs1 cs2 where cs: "cs = cs1 @ cs2" "where_object opts fs = Inr cs2"
    and first: "(if key = ''OR'' then (case v of
              Undef \<Rightarrow> Inr []
            | Arr cs \<Rightarrow> sum_map (\<lambda>ds. if ds = [] then [] else [Or_Group ds]) (or_branches opts ''OR'' 0 cs)
            | _ \<Rightarrow> Inl Not_A_Where)
          else if key = ''AND'' then (case v of
              Undef \<Rightarrow> Inr []
            | Arr cs \<Rightarrow> sum_map (\<lambda>ds. if ds = [] then [] else [And_Group ds]) (and_branches opts cs)
            | _ \<Rightarrow> Inl Not_A_Where)
          else if key = ''NOT'' then (case v of
              Undef \<Rightarrow> Inr []
            | Obj gs \<Rightarrow> sum_map (\<lambda>ds. if ds = [] then [] else [Not_Group (join_clauses ds)]) (where_object opts gs)
            | _ \<Rightarrow> Inl Not_A_Where)
          else where_field opts key v) = Inr cs1"
    using "2.prems"(1) by (auto simp: sum_map_Inr split: sum.splits)
  have rest: "map (eval s) cs2 = object_truths s opts fs \<and> list_all grouped cs2"
    using "2.IH"(4) [OF first cs(2) "2.prems"(2)] .
  have hd: "map (eval s) cs1 = (if key = ''OR'' then (case v of Arr (c # cs) \<Rightarrow> [t_or (map t_and (branch_truths s opts (c # cs)))] | _ \<Rightarrow> [])
      else if key = ''AND'' then (case v of
          Arr cs \<Rightarrow> (let bs = filter (\<lambda>b. b \<noteq> []) (branch_truths s opts cs) in if bs = [] then [] else [t_and (concat bs)]) | _ \<Rightarrow> [])
      else if key = ''NOT'' then (case v of
          Obj gs \<Rightarrow> (let b = object_truths s opts gs in if b = [] then [] else [t_not (t_and b)]) | _ \<Rightarrow> [])
      else field_truth s opts key v) \<and> list_all grouped cs1"
  proof -
    consider (o) "key = ''OR''" | (a) "key = ''AND''" | (n) "key = ''NOT''" | (f) "key \<noteq> ''OR''" "key \<noteq> ''AND''" "key \<noteq> ''NOT''" by blast
    then show ?thesis
    proof cases
      case o
      show ?thesis
      proof (cases "\<exists>vs. v = Arr vs")
        case True
        then obtain vs ds where v: "v = Arr vs" "or_branches opts ''OR'' 0 vs = Inr ds" "cs1 = (if ds = [] then [] else [Or_Group ds])"
          using first o by (auto simp: sum_map_Inr)
        have IH: "map (eval s) ds = map t_and (branch_truths s opts vs) \<and> list_all grouped ds \<and> length ds = length vs"
          using "2.IH"(1) [OF o v(1) v(2) "2.prems"(2)] .
        then show ?thesis using o v by (cases vs) (auto simp: list_all_iff)
      next
        case False
        then show ?thesis using first o by (auto split: jsv.splits)
      qed
    next
      case a
      show ?thesis
      proof (cases "\<exists>vs. v = Arr vs")
        case True
        then obtain vs ds where v: "v = Arr vs" "and_branches opts vs = Inr ds" "cs1 = (if ds = [] then [] else [And_Group ds])"
          using first a by (auto simp: sum_map_Inr)
        let ?bs = "filter (\<lambda>b. b \<noteq> []) (branch_truths s opts vs)"
        have IH: "map (eval s) ds = map t_and ?bs \<and> list_all grouped ds"
          using "2.IH"(2) [OF _ a v(1) v(2) "2.prems"(2)] a by simp
        then have "ds = [] \<longleftrightarrow> ?bs = []" by (metis map_is_Nil_conv)
        then show ?thesis using a v IH t_and_concat [of ?bs] by (auto simp: list_all_iff Let_def)
      next
        case False
        then show ?thesis using first a by (auto split: jsv.splits)
      qed
    next
      case n
      show ?thesis
      proof (cases "\<exists>gs. v = Obj gs")
        case True
        then obtain gs ds where v: "v = Obj gs" "where_object opts gs = Inr ds" "cs1 = (if ds = [] then [] else [Not_Group (join_clauses ds)])"
          using first n by (auto simp: sum_map_Inr)
        have IH: "map (eval s) ds = object_truths s opts gs \<and> list_all grouped ds"
          using "2.IH"(3) [OF _ _ n v(1) v(2) "2.prems"(2)] n by simp
        then have "ds = [] \<longleftrightarrow> object_truths s opts gs = []" by (metis map_is_Nil_conv)
        then show ?thesis using n v IH eval_join [of ds s] grouped_join [of ds] by (auto simp: Let_def)
      next
        case False
        then show ?thesis using first n by (auto split: jsv.splits)
      qed
    next
      case f
      then have "where_field opts key v = Inr cs1" using first by simp
      from where_field_truth [OF this "2.prems"(2)] show ?thesis using f by simp
    qed
  qed
  show ?case using hd rest cs(1) by simp
next
  case (4 opts path i gs vs)
  obtain ds1 ds2 where d: "where_object opts gs = Inr ds1" "ds1 \<noteq> []" "or_branches opts path (i + 1) vs = Inr ds2" "ds = join_clauses ds1 # ds2"
    using "4.prems"(1) by (auto simp: sum_map_Inr split: sum.splits list.splits)
  have "map (eval s) ds1 = object_truths s opts gs \<and> list_all grouped ds1" using "4.IH"(1) [OF d(1) "4.prems"(2)] .
  moreover have "map (eval s) ds2 = map t_and (branch_truths s opts vs) \<and> list_all grouped ds2 \<and> length ds2 = length vs"
    using "4.IH"(2) d "4.prems"(2) by (metis list.exhaust)
  ultimately show ?case using d eval_join [of ds1 s] grouped_join [of ds1] by simp
next
  case (7 opts gs vs)
  obtain ds1 ds2 where d: "where_object opts gs = Inr ds1" "and_branches opts vs = Inr ds2"
    "ds = (if ds1 = [] then ds2 else join_clauses ds1 # ds2)"
    using "7.prems"(1) by (auto simp: sum_map_Inr split: sum.splits)
  have IH: "map (eval s) ds1 = object_truths s opts gs \<and> list_all grouped ds1" using "7.IH"(1) [OF d(1) "7.prems"(2)] .
  have "map (eval s) ds2 = map t_and (filter (\<lambda>b. b \<noteq> []) (branch_truths s opts vs)) \<and> list_all grouped ds2"
    using "7.IH"(2) [OF d(1,2) "7.prems"(2)] .
  moreover have "ds1 = [] \<longleftrightarrow> object_truths s opts gs = []" using IH by (metis map_is_Nil_conv)
  ultimately show ?case using IH d(3) eval_join [of ds1 s] grouped_join [of ds1] by simp
qed simp_all


text \<open>C25: The conditions a where clause resolves to are true, false or unknown on a row exactly as the clause says
  (nested OR, AND and NOT, filter objects, NULLs and empty lists included), and each of them can be rendered: no
  empty group ever reaches \<^verbatim>\<open>join\<close>.\<close>
theorem where_means:
  assumes "resolveWhereClause opts w = Inr cs" "hooks_grouped opts"
  shows "t_and (map (eval s) cs) = where_truth s opts w \<and> list_all grouped cs"
proof (cases "truthy w")
  case False
  then show ?thesis using assms(1) by (cases w) (auto simp: resolveWhereClause_def where_truth_def)
next
  case True
  consider (arr) vs where "w = Arr vs" | (obj) fs where "w = Obj fs"
    using assms(1) True by (cases w) (auto simp: resolveWhereClause_def)
  then show ?thesis
  proof cases
    case obj
    then show ?thesis using assms(1) clause_truths(1) [OF assms(2), of fs cs s]
      by (simp add: resolveWhereClause_def where_truth_def)
  next
    case arr
    then obtain ds where ds: "or_branches opts [] 0 vs = Inr ds" "cs = (case ds of [] \<Rightarrow> [] | [d] \<Rightarrow> [d] | _ \<Rightarrow> [Or_Group ds])"
      using assms(1) by (auto simp: resolveWhereClause_def sum_map_Inr)
    have t: "map (eval s) ds = map t_and (branch_truths s opts vs)" "list_all grouped ds" "length ds = length vs"
      using clause_truths(2) [OF assms(2) ds(1)] by blast+
    show ?thesis
    proof (cases ds)
      case Nil
      then show ?thesis using ds(2) t(3) arr by (simp add: where_truth_def)
    next
      case (Cons d ds')
      then obtain v vs' where vs: "vs = v # vs'" using t(3) by (cases vs) auto
      have "t_and (map (eval s) cs) = t_or (map (eval s) ds) \<and> list_all grouped cs"
        using ds(2) Cons t(2) by (cases ds') (auto simp: list_all_iff)
      then show ?thesis unfolding t(1) arr vs by (simp add: where_truth_def)
    qed
  qed
qed

subsection \<open>No value gets into the text\<close>

text \<open>The same clause with other strings, numbers and data in it; names, fragments and the truth of a value stay.\<close>
primrec revalue :: "(string \<Rightarrow> string) \<Rightarrow> (int \<Rightarrow> int) \<Rightarrow> ('v \<Rightarrow> 'v) \<Rightarrow> 'v jsv \<Rightarrow> 'v jsv" where
  "revalue f g h Undef = Undef"
| "revalue f g h Null = Null"
| "revalue f g h (Bool b) = Bool b"
| "revalue f g h (Num n) = Num (g n)"
| "revalue f g h (Str s) = Str (f s)"
| "revalue f g h (Data x) = Data (h x)"
| "revalue f g h (Arr vs) = Arr (map (revalue f g h) vs)"
| "revalue f g h (Obj fs) = Obj (map (map_prod (\<lambda>a. a) (revalue f g h)) fs)"
| "revalue f g h (Fragment q) = Fragment q"

definition keeps_truth :: "(string \<Rightarrow> string) \<Rightarrow> (int \<Rightarrow> int) \<Rightarrow> bool" where
  "keeps_truth f g \<longleftrightarrow> (\<forall>s. f s = [] \<longleftrightarrow> s = []) \<and> (\<forall>n. g n = 0 \<longleftrightarrow> n = 0)"

text \<open>A condition without its bound values; a fragment that is bound is spliced by the template, so it stays.\<close>
definition kept :: "'v jsv \<Rightarrow> 'v jsv frag option" where
  "kept v = (case v of Fragment q \<Rightarrow> Some q | _ \<Rightarrow> None)"

definition shape :: "'v where_cond \<Rightarrow> 'v jsv frag option cond" where
  "shape = map_cond kept"

definition where_text :: "'v jsv frag \<Rightarrow> string" where
  "where_text f = concat (map (\<lambda>p. case p of Sql_Text t \<Rightarrow> t
     | Sql_Bind v \<Rightarrow> (case kept v of None \<Rightarrow> ''?'' | Some q \<Rightarrow> frag_text q)) f)"

definition dialect_fixed :: "'v jsv dialect_sql \<Rightarrow> bool" where
  "dialect_fixed d \<longleftrightarrow> (\<forall>c v v'. kept v = kept v' \<longrightarrow> where_text (ilike_sql d c v) = where_text (ilike_sql d c v') \<and>
     map_option where_text (search_sql d c v) = map_option where_text (search_sql d c v'))"

definition opts_fixed :: "(string \<Rightarrow> string) \<Rightarrow> (int \<Rightarrow> int) \<Rightarrow> ('v \<Rightarrow> 'v) \<Rightarrow> 'v where_opts \<Rightarrow> bool" where
  "opts_fixed f g h opts \<longleftrightarrow>
     (\<forall>t field v. transformValue opts = Some t \<longrightarrow> kept (t field v) = None) \<and>
     (\<forall>hook key v. relationFilter opts = Some hook \<longrightarrow> map_option shape (hook key (revalue f g h v)) = map_option shape (hook key v))"

lemma first_undefined_revalue [simp]: "first_undefined (map (revalue f g h) vs) i = first_undefined vs i"
proof (induction vs arbitrary: i)
  case (Cons v vs)
  then show ?case by (cases v) simp_all
qed simp

lemma revalue_keeps [simp]:
  "revalue f g h v = Undef \<longleftrightarrow> v = Undef" "revalue f g h v = Null \<longleftrightarrow> v = Null"
  "has_sql (revalue f g h v) = has_sql v" "isFilterObject (revalue f g h v) = isFilterObject v"
  "isRelationFilter (revalue f g h v) = isRelationFilter v" "kept (revalue f g h v) = kept v"
  by (cases v; auto simp: image_comp comp_def kept_def)+

lemma truthy_revalue: "keeps_truth f g \<Longrightarrow> truthy (revalue f g h v) = truthy v"
  by (cases v) (auto simp: keeps_truth_def)

lemma kept_transformed: "opts_fixed f g h opts \<Longrightarrow> kept (transformed opts field (revalue f g h v)) = kept (transformed opts field v)"
  by (auto simp: transformed_def opts_fixed_def isUntransformable_def split: option.split)

lemma shape_simps [simp]:
  "shape (Equals c v) = Equals c (kept v)" "shape (Not_Equals c v) = Not_Equals c (kept v)"
  "shape (In_List c vs) = In_List c (map kept vs)" "shape (Not_In_List c vs) = Not_In_List c (map kept vs)"
  "shape (Like c v) = Like c (kept v)" "shape (Not_Like c v) = Not_Like c (kept v)"
  "shape (Is_Null c) = Is_Null c" "shape (Is_Not_Null c) = Is_Not_Null c"
  "shape (Between c v w) = Between c (kept v) (kept w)"
  "shape (Gt c v) = Gt c (kept v)" "shape (Gte c v) = Gte c (kept v)"
  "shape (Lt c v) = Lt c (kept v)" "shape (Lte c v) = Lte c (kept v)"
  "shape (Or_Group cs) = Or_Group (map shape cs)" "shape (And_Group cs) = And_Group (map shape cs)"
  "shape (Not_Group x) = Not_Group (shape x)" "shape (Like_Escaped c v) = Like_Escaped c (kept v)"
  "shape (Case_Like c v) = Case_Like c (kept v)" "shape (Full_Text c v) = Full_Text c (kept v)"
  "shape (Splice q) = Splice (map (map_piece kept) q)"
  by (simp_all add: shape_def)

lemma sum_map_comp [simp]: "sum_map f (sum_map g r) = sum_map (\<lambda>x. f (g x)) r"
  by (cases r) (simp_all add: sum_map_def)

lemma in_values_shape: "opts_fixed f g h opts \<Longrightarrow>
    sum_map (map kept) (in_values opts field op (revalue f g h v)) = sum_map (map kept) (in_values opts field op v)"
  by (cases v) (auto simp: in_values_def sum_map_def kept_transformed split: option.splits)

lemma between_shape: "sum_map (\<lambda>(x, y). (P (kept (transformed opts field x)) (kept (transformed opts field y)))) (between_bounds field (revalue f g h v)) =
    sum_map (\<lambda>(x, y). (P (kept (transformed opts field x)) (kept (transformed opts field y)))) (between_bounds field v)"
  if "opts_fixed f g h opts"
  using that by (cases v) (auto simp: between_bounds_def sum_map_def kept_transformed split: list.splits)

lemma pattern_shape: "sum_map kept (escaped_pattern b (revalue f g h v) a) = sum_map kept (escaped_pattern b v a)"
  by (cases v) (auto simp: escaped_pattern_def sum_map_def kept_def)

lemma plain_operator_shape:
  assumes "opts_fixed f g h opts" "keeps_truth f g"
  shows "sum_map (map shape) (plain_operator opts col field op (revalue f g h v)) = sum_map (map shape) (plain_operator opts col field op v)"
proof -
  have in_list: "sum_map (\<lambda>vs. [P (map kept vs)]) (in_values opts field k (revalue f g h v)) = sum_map (\<lambda>vs. [P (map kept vs)]) (in_values opts field k v)"
    for P :: "'a jsv frag option list \<Rightarrow> 'a jsv frag option cond" and k
    using arg_cong [OF in_values_shape [OF assms(1)], of "sum_map (\<lambda>vs. [P vs])" field k v] by simp
  have pat: "sum_map (\<lambda>p. [Like_Escaped col (kept p)]) (escaped_pattern b (revalue f g h v) a) = sum_map (\<lambda>p. [Like_Escaped col (kept p)]) (escaped_pattern b v a)" for a b
    using arg_cong [OF pattern_shape, of "sum_map (\<lambda>p. [Like_Escaped col p])" b f g h v a] by simp
  have "sum_map (\<lambda>x. map shape (case x of (x, y) \<Rightarrow> [Between col (transformed opts field x) (transformed opts field y)])) (between_bounds field w) =
    sum_map (\<lambda>(x, y). [Between col (kept (transformed opts field x)) (kept (transformed opts field y))]) (between_bounds field w)" for w
    by (auto simp: sum_map_def split: sum.splits)
  then show ?thesis
    using kept_transformed [OF assms(1)] in_list [of "In_List col"] in_list [of "Not_In_List col"] pat between_shape [OF assms(1), where P = "\<lambda>x y. [Between col x y]"] truthy_revalue [OF assms(2), where h = h]
    by (simp add: plain_operator_def Let_def sum_map_def [of _ "Inr _"])
qed


lemma join_shape: "shape (join_clauses cs) = join_clauses (map shape cs)"
  by (auto simp: join_clauses_def split: list.split)

lemma filter_clauses_shape:
  assumes "opts_fixed f g h opts" "keeps_truth f g"
  shows "sum_map (map shape) (filter_clauses opts col field (map (map_prod (\<lambda>a. a) (revalue f g h)) fs)) =
    sum_map (map shape) (filter_clauses opts col field fs)"
  using assms
proof (induction opts col field fs rule: filter_clauses.induct)
  case (2 opts col field op v fs)
  let ?first = "\<lambda>v. (if op = ''not'' then (case v of
                Null \<Rightarrow> Inr [Is_Not_Null col]
              | Obj gs \<Rightarrow> if isFilterObject v
                  then sum_map (\<lambda>cs. [Not_Group (join_clauses cs)]) (filter_clauses opts col field gs)
                  else Inr [Not_Equals col (transformed opts field v)]
              | _ \<Rightarrow> Inr [Not_Equals col (transformed opts field v)])
            else plain_operator opts col field op v) :: where_error + 'a where_cond list"
  have first: "sum_map (map shape) (?first (revalue f g h v)) = sum_map (map shape) (?first v)" if u: "v \<noteq> Undef"
  proof (cases "op = ''not''")
    case True
    have nested: "sum_map (\<lambda>cs. [Not_Group (join_clauses (map shape cs))]) (filter_clauses opts col field (map (map_prod (\<lambda>a. a) (revalue f g h)) gs)) =
      sum_map (\<lambda>cs. [Not_Group (join_clauses (map shape cs))]) (filter_clauses opts col field gs)"
      if vo: "v = Obj gs" "isFilterObject v" for gs
      using arg_cong [OF "2.IH"(1) [OF u True vo "2.prems"], of "sum_map (\<lambda>cs. [Not_Group (join_clauses cs)])"] by simp
    show ?thesis
    proof (cases v)
      case (Obj gs)
      then show ?thesis using True nested [OF Obj] kept_transformed [OF "2.prems"(1), of field v] revalue_keeps(4) [of f g h v]
        by (auto simp: join_shape sum_map_def [of _ "Inr _"] simp del: isFilterObject.simps revalue_keeps)
    qed (use True kept_transformed [OF "2.prems"(1), of field v] in \<open>simp_all add: sum_map_def\<close>)
  next
    case False
    then show ?thesis using plain_operator_shape [OF "2.prems"] by simp
  qed
  have rest: "sum_map (map shape) (filter_clauses opts col field (map (map_prod (\<lambda>a. a) (revalue f g h)) fs)) =
    sum_map (map shape) (filter_clauses opts col field fs)" if "v \<noteq> Undef" "?first v = Inr cs" for cs
    using "2.IH"(2) [OF that "2.prems"] .
  show ?case
  proof (cases "v = Undef")
    case False
    show ?thesis
    proof (cases "?first v")
      case (Inl e)
      then show ?thesis using first [OF False] False by (cases "?first (revalue f g h v)") (auto simp: sum_map_def)
    next
      case (Inr cs)
      then obtain cs' where "?first (revalue f g h v) = Inr cs'" "map shape cs' = map shape cs"
        using first [OF False] by (cases "?first (revalue f g h v)") (auto simp: sum_map_def)
      then show ?thesis using Inr rest [OF False Inr] False
        by (cases "filter_clauses opts col field fs"; cases "filter_clauses opts col field (map (map_prod (\<lambda>a. a) (revalue f g h)) fs)")
          (auto simp: sum_map_def)
    qed
  qed simp
qed simp


lemma sum_map_cong_Inr: "sum_map f r = sum_map f r' \<Longrightarrow> (\<And>x y. f x = f y \<Longrightarrow> g x = g y) \<Longrightarrow> sum_map g r = sum_map g r'"
proof -
  assume fg: "sum_map f r = sum_map f r'" "\<And>x y. f x = f y \<Longrightarrow> g x = g y"
  consider (l) e where "r = Inl e" "r' = Inl e" | (r) x y where "r = Inr x" "r' = Inr y" "f x = f y"
    using fg(1) by (cases r; cases r') (auto simp: sum_map_def)
  then show ?thesis
  proof cases
    case r
    then show ?thesis using fg(2) [OF r(3)] by (simp add: sum_map_def)
  qed (simp add: sum_map_def)
qed

lemma resolveWhereValue_shape:
  assumes "opts_fixed f g h opts" "keeps_truth f g"
  shows "sum_map shape (resolveWhereValue opts col (revalue f g h v) field) = sum_map shape (resolveWhereValue opts col v field)"
proof (cases "v = Null \<or> has_sql v")
  case True
  have "shape (spliced (revalue f g h v)) = shape (spliced v)"
    by (cases v) (simp_all add: spliced_def kept_def)
  then show ?thesis using True by (elim disjE) (simp_all add: resolveWhereValue_def sum_map_def)
next
  case False
  have eq: "sum_map shape (Inr (Equals col (transformed opts field (revalue f g h v)))) = sum_map shape (Inr (Equals col (transformed opts field v)))"
    using kept_transformed [OF assms(1)] by (simp add: sum_map_def)
  show ?thesis
  proof (cases v)
    case (Arr vs)
    show ?thesis
      using arg_cong [OF in_values_shape [OF assms(1)], of "sum_map (In_List col)" field "''IN''" v] Arr
      by (simp add: resolveWhereValue_def)
  next
    case (Obj fs)
    have flt: "sum_map shape (resolveFilterObject opts col field (map (map_prod (\<lambda>a. a) (revalue f g h)) fs)) =
      sum_map shape (resolveFilterObject opts col field fs)"
      using arg_cong [OF filter_clauses_shape [OF assms], of "sum_map join_clauses"] by (simp add: resolveFilterObject_def join_shape)
    have o: "revalue f g h v = Obj (map (map_prod (\<lambda>a. a) (revalue f g h)) fs)" using Obj by simp
    have n: "revalue f g h v \<noteq> Null" "\<not> has_sql (revalue f g h v)" using False by simp_all
    show ?thesis
    proof (cases "isFilterObject v")
      case True
      then have "isFilterObject (revalue f g h v)" by simp
      then have "resolveWhereValue opts col (revalue f g h v) field = resolveFilterObject opts col field (map (map_prod (\<lambda>a. a) (revalue f g h)) fs)"
        using n unfolding resolveWhereValue_def o by (simp del: isFilterObject.simps has_sql.simps)
      moreover have "resolveWhereValue opts col v field = resolveFilterObject opts col field fs"
        using True False Obj by (simp add: resolveWhereValue_def del: isFilterObject.simps has_sql.simps)
      ultimately show ?thesis using flt by simp
    next
      case nf: False
      then have "\<not> isFilterObject (revalue f g h v)" by simp
      then have "resolveWhereValue opts col (revalue f g h v) field = Inr (Equals col (transformed opts field (revalue f g h v)))"
        using n unfolding resolveWhereValue_def o by (simp del: isFilterObject.simps has_sql.simps)
      moreover have "resolveWhereValue opts col v field = Inr (Equals col (transformed opts field v))"
        using nf False Obj by (simp add: resolveWhereValue_def del: isFilterObject.simps has_sql.simps)
      ultimately show ?thesis using eq by simp
    qed
  qed (use False eq in \<open>simp_all add: resolveWhereValue_def\<close>)
qed

lemma where_field_eq: "where_field opts key v = (if v = Undef then Inr [] else (case relation_condition opts key v of
    Some c \<Rightarrow> Inr [c] | None \<Rightarrow> sum_map (\<lambda>c. [c]) (resolveWhereValue opts (where_column opts key) v key)))"
  by (simp only: where_field_def relation_condition_def)

lemma where_field_shape:
  assumes "opts_fixed f g h opts" "keeps_truth f g"
  shows "sum_map (map shape) (where_field opts key (revalue f g h v)) = sum_map (map shape) (where_field opts key v)"
proof -
  have rel: "map_option shape (relation_condition opts key (revalue f g h v)) = map_option shape (relation_condition opts key v)"
    using assms(1) by (auto simp: relation_condition_def opts_fixed_def split: option.split)
  have val: "sum_map (\<lambda>c. [shape c]) (resolveWhereValue opts col (revalue f g h v) key) = sum_map (\<lambda>c. [shape c]) (resolveWhereValue opts col v key)" for col
    by (rule sum_map_cong_Inr [OF resolveWhereValue_shape [OF assms]]) simp
  show ?thesis
    using rel val [of "where_column opts key"]
    by (cases "relation_condition opts key v"; cases "relation_condition opts key (revalue f g h v)")
      (simp_all add: where_field_eq sum_map_def [of _ "Inr _"])
qed

lemma sum_append:
  assumes "sum_map (map shape) a = sum_map (map shape) a'" "\<And>x. a = Inr x \<Longrightarrow> sum_map (map shape) b = sum_map (map shape) b'"
  shows "sum_map (map shape) (case a of Inl e \<Rightarrow> Inl e | Inr cs \<Rightarrow> sum_map (\<lambda>ds. cs @ ds) b) =
    sum_map (map shape) (case a' of Inl e \<Rightarrow> Inl e | Inr cs \<Rightarrow> sum_map (\<lambda>ds. cs @ ds) b')"
proof (cases a)
  case (Inl e)
  then show ?thesis using assms(1) by (cases a') (simp_all add: sum_map_def)
next
  case (Inr x)
  then obtain x' where x': "a' = Inr x'" "map shape x' = map shape x" using assms(1) by (cases a') (simp_all add: sum_map_def)
  have "sum_map (\<lambda>ds. map shape x @ map shape ds) b = sum_map (\<lambda>ds. map shape x @ map shape ds) b'"
    by (rule sum_map_cong_Inr [OF assms(2) [OF Inr]]) simp
  then show ?thesis using Inr x' by simp
qed

lemma group_shape:
  fixes r r' :: "where_error + 'v where_cond list"
  assumes "sum_map (map shape) r = sum_map (map shape) r'" "\<And>x y. map shape x = map shape y \<Longrightarrow> shape (F x) = shape (F y)"
  shows "sum_map (map shape) (sum_map (\<lambda>ds. if ds = [] then [] else [F ds]) r) = sum_map (map shape) (sum_map (\<lambda>ds. if ds = [] then [] else [F ds]) r')"
  unfolding sum_map_comp
proof (rule sum_map_cong_Inr [OF assms(1)])
  fix x y :: "'v where_cond list"
  assume e: "map shape x = map shape y"
  then have "x = [] \<longleftrightarrow> y = []" by (metis map_is_Nil_conv)
  then show "map shape (if x = [] then [] else [F x]) = map shape (if y = [] then [] else [F y])" using assms(2) [OF e] by simp
qed

lemma clause_shapes:
  assumes "keeps_truth f g"
  shows "opts_fixed f g h opts \<Longrightarrow> sum_map (map shape) (where_object opts (map (map_prod (\<lambda>a. a) (revalue f g h)) fs)) = sum_map (map shape) (where_object opts fs)"
    and "opts_fixed f g h opts \<Longrightarrow> sum_map (map shape) (or_branches opts path i (map (revalue f g h) vs)) = sum_map (map shape) (or_branches opts path i vs)"
    and "opts_fixed f g h opts \<Longrightarrow> sum_map (map shape) (and_branches opts (map (revalue f g h) vs)) = sum_map (map shape) (and_branches opts vs)"
proof (induction opts fs and opts path i vs and opts vs rule: where_object_or_branches_and_branches.induct)
  case (2 opts key v fs)
  let ?e = "\<lambda>v. (if key = ''OR'' then (case v of
              Undef \<Rightarrow> Inr []
            | Arr cs \<Rightarrow> sum_map (\<lambda>ds. if ds = [] then [] else [Or_Group ds]) (or_branches opts ''OR'' 0 cs)
            | _ \<Rightarrow> Inl Not_A_Where)
          else if key = ''AND'' then (case v of
              Undef \<Rightarrow> Inr []
            | Arr cs \<Rightarrow> sum_map (\<lambda>ds. if ds = [] then [] else [And_Group ds]) (and_branches opts cs)
            | _ \<Rightarrow> Inl Not_A_Where)
          else if key = ''NOT'' then (case v of
              Undef \<Rightarrow> Inr []
            | Obj gs \<Rightarrow> sum_map (\<lambda>ds. if ds = [] then [] else [Not_Group (join_clauses ds)]) (where_object opts gs)
            | _ \<Rightarrow> Inl Not_A_Where)
          else where_field opts key v) :: where_error + 'a where_cond list"
  have "sum_map (map shape) (?e (revalue f g h v)) = sum_map (map shape) (?e v)"
  proof -
    consider (o) "key = ''OR''" | (a) "key = ''AND''" | (n) "key = ''NOT''" | (f) "key \<noteq> ''OR''" "key \<noteq> ''AND''" "key \<noteq> ''NOT''" by blast
    then show ?thesis
    proof cases
      case o
      show ?thesis
      proof (cases v)
        case (Arr vs)
        show ?thesis using o Arr group_shape [OF "2.IH"(1) [OF o Arr "2.prems"], of Or_Group] by simp
      qed (use o in simp_all)
    next
      case a
      show ?thesis
      proof (cases v)
        case (Arr vs)
        have "key \<noteq> ''OR''" using a by simp
        show ?thesis using a Arr group_shape [OF "2.IH"(2) [OF \<open>key \<noteq> ''OR''\<close> a Arr "2.prems"], of And_Group] by simp
      qed (use a in simp_all)
    next
      case n
      show ?thesis
      proof (cases v)
        case (Obj gs)
        have k: "key \<noteq> ''OR''" "key \<noteq> ''AND''" using n by simp_all
        show ?thesis using n Obj group_shape [OF "2.IH"(3) [OF k n Obj "2.prems"], of "\<lambda>ds. Not_Group (join_clauses ds)"]
          by (simp add: join_shape)
      qed (use n in simp_all)
    next
      case f
      then show ?thesis using where_field_shape [OF "2.prems" assms] by simp
    qed
  qed
  from sum_append [OF this [symmetric] "2.IH"(4) [OF _ "2.prems", symmetric]] show ?case by simp
next
  case (4 opts path i gs vs)
  note o = "4.IH"(1) [OF "4.prems"]
  show ?case
  proof (cases "where_object opts gs")
    case (Inl e)
    then show ?thesis using o by (cases "where_object opts (map (map_prod (\<lambda>a. a) (revalue f g h)) gs)") (auto simp: sum_map_def)
  next
    case (Inr ds)
    then obtain ds' where ds': "where_object opts (map (map_prod (\<lambda>a. a) (revalue f g h)) gs) = Inr ds'" "map shape ds' = map shape ds"
      using o by (cases "where_object opts (map (map_prod (\<lambda>a. a) (revalue f g h)) gs)") (auto simp: sum_map_def)
    show ?thesis
    proof (cases ds)
      case Nil
      then show ?thesis using Inr ds' by (simp add: sum_map_def)
    next
      case (Cons d ds0)
      then obtain d' ds0' where c': "ds' = d' # ds0'" using ds'(2) by auto
      have "sum_map (map shape) (or_branches opts path (i + 1) (map (revalue f g h) vs)) = sum_map (map shape) (or_branches opts path (i + 1) vs)"
        using "4.IH"(2) [OF Inr Cons "4.prems"] .
      moreover have "shape (join_clauses ds') = shape (join_clauses ds)" using ds'(2) by (simp add: join_shape)
      ultimately show ?thesis using Inr ds' Cons c'
        by (cases "or_branches opts path (i + 1) vs"; cases "or_branches opts path (i + 1) (map (revalue f g h) vs)") (auto simp: sum_map_def)
    qed
  qed
next
  case (7 opts gs vs)
  note o = "7.IH"(1) [OF "7.prems"]
  show ?case
  proof (cases "where_object opts gs")
    case (Inl e)
    then show ?thesis using o by (cases "where_object opts (map (map_prod (\<lambda>a. a) (revalue f g h)) gs)") (auto simp: sum_map_def)
  next
    case (Inr ds)
    then obtain ds' where ds': "where_object opts (map (map_prod (\<lambda>a. a) (revalue f g h)) gs) = Inr ds'" "map shape ds' = map shape ds"
      using o by (cases "where_object opts (map (map_prod (\<lambda>a. a) (revalue f g h)) gs)") (auto simp: sum_map_def)
    have "sum_map (map shape) (and_branches opts (map (revalue f g h) vs)) = sum_map (map shape) (and_branches opts vs)"
      using "7.IH"(2) [OF Inr "7.prems"] .
    moreover have "shape (join_clauses ds') = shape (join_clauses ds)" "ds' = [] \<longleftrightarrow> ds = []" using ds'(2) by (auto simp: join_shape)
    ultimately show ?thesis using Inr ds'
      by (cases "and_branches opts vs"; cases "and_branches opts (map (revalue f g h) vs)") (auto simp: sum_map_def)
  qed
qed simp_all

lemma resolveWhereClause_shape:
  assumes "opts_fixed f g h opts" "keeps_truth f g"
  shows "sum_map (map shape) (resolveWhereClause opts (revalue f g h w)) = sum_map (map shape) (resolveWhereClause opts w)"
proof (cases w)
  case (Arr vs)
  have "sum_map (map shape) (sum_map (\<lambda>ds. case ds of [] \<Rightarrow> [] | [d] \<Rightarrow> [d] | _ \<Rightarrow> [Or_Group ds]) (or_branches opts [] 0 (map (revalue f g h) vs))) =
    sum_map (map shape) (sum_map (\<lambda>ds. case ds of [] \<Rightarrow> [] | [d] \<Rightarrow> [d] | _ \<Rightarrow> [Or_Group ds]) (or_branches opts [] 0 vs))"
    unfolding sum_map_comp by (rule sum_map_cong_Inr [OF clause_shapes(2) [OF assms(2,1)]]) (auto split: list.split)
  then show ?thesis using Arr by (simp add: resolveWhereClause_def)
next
  case (Obj fs)
  then show ?thesis using clause_shapes(1) [OF assms(2,1)] by (simp add: resolveWhereClause_def)
qed (use truthy_revalue [OF assms(2), of h w] in \<open>auto simp: resolveWhereClause_def\<close>)


lemma where_text_append: "where_text (a @ b) = where_text a @ where_text b"
  by (simp add: where_text_def)

lemma where_text_simps: "where_text [] = []" "where_text (Sql_Text t # b) = t @ where_text b"
  "where_text (Sql_Bind v # b) = (case kept v of None \<Rightarrow> ''?'' | Some q \<Rightarrow> frag_text q) @ where_text b"
  by (simp_all add: where_text_def)

text \<open>The text of a condition with its values replaced by \<open>F\<close>, which keeps the fragments.\<close>
lemma join_text: "map where_text fs = map where_text gs \<Longrightarrow> map_option where_text (frag_join sep fs) = map_option where_text (frag_join sep gs)"
proof (induction sep fs arbitrary: gs rule: frag_join.induct)
  case (3 sep a b fs)
  then obtain a' b' gs' where gs: "gs = a' # b' # gs'" by (auto simp: Cons_eq_map_conv)
  have "map_option where_text (frag_join sep (b # fs)) = map_option where_text (frag_join sep (b' # gs'))"
    by (rule "3.IH") (use "3.prems" gs in simp)
  moreover have "where_text a = where_text a'" using "3.prems" gs by simp
  ultimately show ?case using gs
    by (cases "frag_join sep (b # fs)"; cases "frag_join sep (b' # gs')")
      (simp_all add: where_text_append where_text_simps)
qed (auto simp: Cons_eq_map_conv)

lemma those_all_text: "map (map_option where_text) xs = map (map_option where_text) ys \<Longrightarrow>
    map_option (map where_text) (those_all xs) = map_option (map where_text) (those_all ys)"
proof (induction xs arbitrary: ys rule: those_all.induct)
  case (2 xs)
  then show ?case by (cases ys) auto
next
  case (3 x xs)
  then obtain y ys' where ys: "ys = Some y # ys'" "where_text x = where_text y" by (cases ys; cases "hd ys") auto
  then have "map_option (map where_text) (those_all xs) = map_option (map where_text) (those_all ys')" using 3 by simp
  then show ?case using ys by (cases "those_all xs"; cases "those_all ys'") auto
qed simp

lemma bind_list_text:
  assumes "\<And>v. kept (F v) = kept v"
  shows "where_text (bind_list (map F vs)) = where_text (bind_list vs)"
proof -
  have "map where_text (map (\<lambda>v. [Sql_Bind v]) (map F vs)) = map where_text (map (\<lambda>v. [Sql_Bind v]) vs)"
    using assms by (simp add: where_text_def)
  from join_text [OF this, of "'', ''"] show ?thesis
    by (auto simp: bind_list_def split: option.splits)
qed

lemma group_text:
  assumes "map (map_option where_text) xs = map (map_option where_text) ys"
  shows "map_option where_text (case those_all xs of None \<Rightarrow> None | Some fs \<Rightarrow> map_option (\<lambda>f. [Sql_Text a] @ f @ [Sql_Text b]) (frag_join sep fs)) =
    map_option where_text (case those_all ys of None \<Rightarrow> None | Some fs \<Rightarrow> map_option (\<lambda>f. [Sql_Text a] @ f @ [Sql_Text b]) (frag_join sep fs))"
proof (cases "those_all xs")
  case None
  then show ?thesis using those_all_text [OF assms] by (cases "those_all ys") simp_all
next
  case (Some fs)
  then obtain gs where gs: "those_all ys = Some gs" "map where_text fs = map where_text gs"
    using those_all_text [OF assms] by (cases "those_all ys") simp_all
  from join_text [OF gs(2), of sep] Some gs(1) show ?thesis
    by (cases "frag_join sep fs"; cases "frag_join sep gs") (simp_all add: where_text_append where_text_simps)
qed

lemma render_text:
  assumes "dialect_fixed d" "\<And>v. kept (F v) = kept v"
  shows "map_option where_text (render d (map_cond F c)) = map_option where_text (render d c)"
proof (induction c)
  case (Or_Group cs)
  then have "map (map_option where_text) (map (render d) (map (map_cond F) cs)) = map (map_option where_text) (map (render d) cs)"
    by simp
  from group_text [OF this] show ?case by simp
next
  case (And_Group cs)
  then have "map (map_option where_text) (map (render d) (map (map_cond F) cs)) = map (map_option where_text) (map (render d) cs)"
    by simp
  from group_text [OF this] show ?case by simp
next
  case (Not_Group c)
  then show ?case
    by (cases "render d c"; cases "render d (map_cond F c)") (simp_all add: where_text_append where_text_simps)
next
  case (In_List c vs)
  show ?case using bind_list_text [of F vs] assms(2)
    by (simp add: where_text_append where_text_simps)
next
  case (Not_In_List c vs)
  show ?case using bind_list_text [of F vs] assms(2)
    by (simp add: where_text_append where_text_simps)
next
  case (Case_Like c v)
  have "where_text (ilike_sql d c (F v)) = where_text (ilike_sql d c v)"
    using assms unfolding dialect_fixed_def by blast
  then show ?case by simp
next
  case (Full_Text c v)
  have "map_option where_text (search_sql d c (F v)) = map_option where_text (search_sql d c v)"
    using assms unfolding dialect_fixed_def by blast
  then show ?case by simp
next
  case (Splice q)
  have "where_text (map (map_piece F) q) = where_text q"
    using assms(2) by (induction q) (auto simp: where_text_def split: piece.split)
  then show ?case by simp
qed (use assms(2) in \<open>simp_all add: where_text_def\<close>)

lemma shape_text:
  assumes "dialect_fixed d" "shape c = shape c'"
  shows "map_option where_text (render d c) = map_option where_text (render d c')"
proof -
  let ?canon = "\<lambda>x. case x of None \<Rightarrow> Undef | Some q \<Rightarrow> Fragment q"
  have k: "kept (?canon (kept v)) = kept v" for v :: "'a jsv" by (cases v) (simp_all add: kept_def)
  have "map_cond (\<lambda>v. ?canon (kept v)) c = map_cond (\<lambda>v. ?canon (kept v)) c'"
    using arg_cong [OF assms(2), of "map_cond ?canon"] by (simp add: shape_def cond.map_comp comp_def)
  then show ?thesis using render_text [OF assms(1), of "\<lambda>v. ?canon (kept v)", OF k] by metis
qed

text \<open>C27: Whatever strings, numbers and other data stand in a where clause, it is resolved or rejected in the same
  way and every condition is rendered to the same SQL text: the values only ever reach the database as bound
  parameters (fragments the caller wrote as SQL are spliced).\<close>
theorem where_text_fixed:
  assumes "opts_fixed f g h opts" "keeps_truth f g" "dialect_fixed d"
  shows "sum_map (map (\<lambda>c. map_option where_text (render d c))) (resolveWhereClause opts (revalue f g h w)) =
    sum_map (map (\<lambda>c. map_option where_text (render d c))) (resolveWhereClause opts w)"
proof (rule sum_map_cong_Inr [OF resolveWhereClause_shape [OF assms(1,2)]])
  fix x y :: "'a where_cond list"
  assume "map shape x = map shape y"
  then have "list_all2 (\<lambda>c c'. shape c = shape c') x y" by (simp add: list_all2_conv_all_nth list_eq_iff_nth_eq)
  then show "map (\<lambda>c. map_option where_text (render d c)) x = map (\<lambda>c. map_option where_text (render d c)) y"
  proof (induction rule: list_all2_induct)
    case (Cons c cs c' cs')
    then show ?case using shape_text [OF assms(3) Cons(1)] by simp
  qed simp
qed

subsection \<open>A concrete clause\<close>

definition plain_opts :: "unit where_opts" where
  "plain_opts = \<lparr>wrapColumn = wrap_identifier Postgres, isQualified = True, tableName = Some ''user'',
     propertyToColumn = (\<lambda>p. if p = ''createdAt'' then Some ''created_at'' else None), qualifyColumn = None,
     transformValue = None, relationFilter = None\<rparr>"

definition postgres_sql :: "'v jsv dialect_sql" where
  "postgres_sql = \<lparr>ilike_sql = (\<lambda>c v. [Sql_Text c, Sql_Text '' ILIKE '', Sql_Bind v]),
     search_sql = (\<lambda>c v. Some [Sql_Text ''to_tsvector('', Sql_Bind (Str ''english''), Sql_Text '', '', Sql_Text c,
       Sql_Text '') @@ plainto_tsquery('', Sql_Bind (Str ''english''), Sql_Text '', '', Sql_Bind v, Sql_Text '')'']),
     escape_bind = Str [LIKE_ESCAPE_CHAR]\<rparr>"

definition example_where :: "unit jsv" where
  "example_where = Obj [(''OR'', Arr [Obj [(''name'', Obj [(''contains'', Str ''50%'')])], Obj [(''age'', Obj [(''gte'', Num 18), (''lt'', Num 65)])]]),
     (''NOT'', Obj [(''name'', Null)]), (''createdAt'', Undef)]"

lemma plain_opts_fixed: "opts_fixed f g h plain_opts" "hooks_grouped plain_opts"
  by (simp_all add: opts_fixed_def hooks_grouped_def plain_opts_def)

lemma postgres_fixed: "dialect_fixed postgres_sql"
  by (auto simp: dialect_fixed_def postgres_sql_def where_text_def)

definition example_row :: "(unit jsv, int) row_sem" where
  "example_row = \<lparr>col_value = (\<lambda>c. if c = wrap_identifier Postgres ''user'' @ ''.'' @ wrap_identifier Postgres ''age'' then Some 30 else None),
     bind_value = (\<lambda>v. case v of Num n \<Rightarrow> Some n | _ \<Rightarrow> None), like_sem = (\<lambda>_ _. False), escaped_sem = (\<lambda>_ _. False),
     ilike_sem = (\<lambda>_ _. False), search_sem = (\<lambda>_ _. None), splice_sem = (\<lambda>_. None)\<rparr>"

definition resolved_example :: "unit where_cond list" where
  "resolved_example = (case resolveWhereClause plain_opts example_where of Inl _ \<Rightarrow> [] | Inr cs \<Rightarrow> cs)"

lemma resolved_example: "resolveWhereClause plain_opts example_where = Inr resolved_example"
proof -
  have "\<not> isl (resolveWhereClause plain_opts example_where)" by code_simp
  then show ?thesis by (auto simp: resolved_example_def isl_def split: sum.splits)
qed

theorem where_means_witness:
  "t_and (map (eval example_row) resolved_example) = where_truth example_row plain_opts example_where \<and> list_all grouped resolved_example \<and>
   where_truth example_row plain_opts example_where = Some False"
proof -
  have "where_truth example_row plain_opts example_where = Some False" by code_simp
  then show ?thesis using where_means [OF resolved_example plain_opts_fixed(2), of example_row] by simp
qed

theorem where_text_fixed_witness:
  "sum_map (map (\<lambda>c. map_option where_text (render postgres_sql c))) (resolveWhereClause plain_opts (revalue (\<lambda>s. s @ s) (\<lambda>n. 2 * n) (\<lambda>x. x) example_where)) =
    sum_map (map (\<lambda>c. map_option where_text (render postgres_sql c))) (resolveWhereClause plain_opts example_where)"
  by (rule where_text_fixed [OF plain_opts_fixed(1) _ postgres_fixed]) (simp add: keeps_truth_def)

end
