(* ===== verification/Keyset.thy ===== *)
theory Keyset
  imports Conditions "HOL-Library.Multiset"
begin

section \<open>Keyset pagination (src/core/entity-manager/CursorKeyset.ts, src/core/CursorPagination.ts)\<close>

text \<open>
  The predicate, the order and the cursor of a page, the cursor page of \<^verbatim>\<open>findWithCursor\<close> and the batch loop
  of \<^verbatim>\<open>RawPipeline\<close>. \<open>'d\<close> are the values of the database's columns; a bound value is \<open>'d option\<close>, with
  \<open>None\<close> for null. Last, the traversal reads every row once, in order.
\<close>

subsection \<open>The plan and the cursor\<close>

datatype cursor_direction = ASC | DESC

text \<open>The primary-key part of a cursor: absent, one value, or an array.\<close>
datatype 'd pk_part = No_Key | One_Key "'d option" | Many_Keys "'d option list"

record 'd cursor_key =
  cur_order :: "'d option"
  cur_pk :: "'d pk_part"
  cur_sub :: "'d option"

record 'd keyset_plan =
  orderColumn :: string
  pkColumns :: "string list"
  isPkOrder :: bool
  subKeyColumn :: "string option"
  plan_direction :: cursor_direction
  pageSize :: nat
  plan_cursor :: "'d cursor_key option"

type_synonym 'd db_row = "string \<Rightarrow> 'd option"

definition pkPart :: "string list \<Rightarrow> 'd db_row \<Rightarrow> 'd pk_part" where
  "pkPart pks row = (case pks of
     [] \<Rightarrow> No_Key
   | [c] \<Rightarrow> One_Key (row c)
   | _ \<Rightarrow> Many_Keys (map row pks))"

definition cursorFitsKeyset :: "string list \<Rightarrow> 'd cursor_key \<Rightarrow> bool" where
  "cursorFitsKeyset pks cur = (case cur_pk cur of
     No_Key \<Rightarrow> True
   | One_Key _ \<Rightarrow> True
   | Many_Keys vs \<Rightarrow> length pks > 1 \<and> length vs = length pks)"

text \<open>The values \<open>tiebreakKeys\<close> reads by index; past the end an array yields \<^verbatim>\<open>undefined\<close> and the list stops.\<close>
definition pk_values :: "'d keyset_plan \<Rightarrow> 'd cursor_key \<Rightarrow> 'd option list" where
  "pk_values plan cur = (case cur_pk cur of
     No_Key \<Rightarrow> []
   | One_Key v \<Rightarrow> [v]
   | Many_Keys vs \<Rightarrow> if length (pkColumns plan) > 1 then vs else [])"

definition tiebreakKeys :: "'d keyset_plan \<Rightarrow> 'd cursor_key \<Rightarrow> (string \<times> 'd option) list" where
  "tiebreakKeys plan cur = (let vs = pk_values plan cur; keys = zip (pkColumns plan) vs in
     if length vs < length (pkColumns plan) then keys
     else keys @ (case (subKeyColumn plan, cur_sub cur) of (Some c, Some v) \<Rightarrow> [(c, Some v)] | _ \<Rightarrow> []))"

subsection \<open>The predicate\<close>

text \<open>\<^verbatim>\<open>keyAfter\<close>: \<open>k1 > v1 OR (k1 = v1 AND k2 > v2) OR ...\<close>.\<close>
definition key_branch :: "cursor_direction \<Rightarrow> (string \<Rightarrow> string) \<Rightarrow> (string \<times> 'd option) list \<Rightarrow> nat \<Rightarrow> 'd option cond" where
  "key_branch dir wrap keys i =
     (let (column, value) = keys ! i;
          after = (if dir = ASC then Gt (wrap column) value else Lt (wrap column) value) in
      if i = 0 then after
      else And_Group (map (\<lambda>(c, v). Equals (wrap c) v) (take i keys) @ [after]))"

definition keyAfter :: "cursor_direction \<Rightarrow> (string \<Rightarrow> string) \<Rightarrow> (string \<times> 'd option) list \<Rightarrow> 'd option cond" where
  "keyAfter dir wrap keys = (let branches = map (key_branch dir wrap keys) [0..<length keys] in
     if length branches = 1 then branches ! 0 else Or_Group branches)"

definition buildKeysetPredicate :: "'d keyset_plan \<Rightarrow> (string \<Rightarrow> string) \<Rightarrow> 'd option cond option" where
  "buildKeysetPredicate plan wrap = (case plan_cursor plan of
     None \<Rightarrow> None
   | Some cur \<Rightarrow>
     (let dir = plan_direction plan; wCol = wrap (orderColumn plan); keys = tiebreakKeys plan cur in
      if cur_pk cur = No_Key \<or> pkColumns plan = [] then
        (case cur_order cur of
           None \<Rightarrow> None
         | Some v \<Rightarrow> Some (Or_Group [if dir = ASC then Gt wCol (Some v) else Lt wCol (Some v), Is_Null wCol]))
      else if isPkOrder plan then Some (keyAfter dir wrap keys)
      else (case cur_order cur of
          None \<Rightarrow> Some (if dir = ASC then And_Group [Is_Null wCol, keyAfter ASC wrap keys]
            else Or_Group [And_Group [Is_Null wCol, keyAfter DESC wrap keys], Is_Not_Null wCol])
        | Some v \<Rightarrow> Some (if dir = ASC
            then Or_Group [Gt wCol (Some v), And_Group [Equals wCol (Some v), keyAfter ASC wrap keys], Is_Null wCol]
            else Or_Group [Lt wCol (Some v), And_Group [Equals wCol (Some v), keyAfter DESC wrap keys]]))))"

subsection \<open>The order\<close>

text \<open>An ORDER BY key: a column, or \<open>(column IS NULL)\<close>.\<close>
datatype order_key = By_Column string | By_Is_Null string

fun order_text :: "order_key \<Rightarrow> string" where
  "order_text (By_Column c) = c"
| "order_text (By_Is_Null c) = ''('' @ c @ '' IS NULL)''"

definition buildKeysetOrderBy :: "'d keyset_plan \<Rightarrow> (string \<Rightarrow> string) \<Rightarrow> (order_key \<times> cursor_direction) list" where
  "buildKeysetOrderBy plan wrap =
     (let dir = plan_direction plan; wCol = wrap (orderColumn plan);
          key = (\<lambda>c. (By_Column (wrap c), dir));
          subKey = (case subKeyColumn plan of None \<Rightarrow> [] | Some c \<Rightarrow> [key c]) in
      if isPkOrder plan then [(By_Column wCol, dir)] @ map key (drop 1 (pkColumns plan)) @ subKey
      else [(By_Is_Null wCol, dir), (By_Column wCol, dir)] @ map key (pkColumns plan) @ subKey)"

subsection \<open>Pages\<close>

definition sliceCursorPage :: "'r list \<Rightarrow> nat \<Rightarrow> 'r list \<times> bool" where
  "sliceCursorPage rows n = (let hasNextPage = length rows > n in
     (if hasNextPage then take n rows else rows, hasNextPage))"

definition cursorKeyOf :: "'d keyset_plan \<Rightarrow> 'd db_row \<Rightarrow> 'd cursor_key" where
  "cursorKeyOf plan row = \<lparr>cur_order = row (orderColumn plan), cur_pk = pkPart (pkColumns plan) row,
     cur_sub = (case subKeyColumn plan of None \<Rightarrow> None | Some c \<Rightarrow> row c)\<rparr>"

text \<open>\<open>None\<close> is \<^verbatim>\<open>take\<close> left out; an error is a value that is not an integer.\<close>
datatype page_size_arg = Left_Out | Whole int | Not_Whole

definition normalizePageSize :: "page_size_arg \<Rightarrow> unit + nat" where
  "normalizePageSize n = (case n of
     Left_Out \<Rightarrow> Inr 20
   | Not_Whole \<Rightarrow> Inl ()
   | Whole k \<Rightarrow> if k \<le> 0 then Inr 20 else Inr (nat k))"

subsection \<open>What the database answers\<close>

text \<open>
  A query of the page: the rows it selects, in its order, up to its limit. Where NULL sorts is the
  database's choice (\<open>nulls_small\<close>: before every value, as MySQL and SQLite do). Ties may come in any order.
\<close>
record 'd page_query =
  q_where :: "'d option cond list"
  q_order :: "(order_key \<times> cursor_direction) list"
  q_limit :: nat

definition opt_before :: "bool \<Rightarrow> 'd::linorder option \<Rightarrow> 'd option \<Rightarrow> bool" where
  "opt_before nulls_small x y = (case (x, y) of
     (None, Some _) \<Rightarrow> nulls_small
   | (Some _, None) \<Rightarrow> \<not> nulls_small
   | (Some a, Some b) \<Rightarrow> a < b
   | (None, None) \<Rightarrow> False)"

fun key_ascends :: "bool \<Rightarrow> ('d::linorder db_row \<Rightarrow> ('d option, 'd) row_sem) \<Rightarrow> order_key \<Rightarrow> 'd db_row \<Rightarrow> 'd db_row \<Rightarrow> bool" where
  "key_ascends ns sem (By_Column c) r s = opt_before ns (col_value (sem r) c) (col_value (sem s) c)"
| "key_ascends ns sem (By_Is_Null c) r s = (col_value (sem r) c \<noteq> None \<and> col_value (sem s) c = None)"

definition key_before :: "bool \<Rightarrow> ('d::linorder db_row \<Rightarrow> ('d option, 'd) row_sem) \<Rightarrow> order_key \<times> cursor_direction \<Rightarrow> 'd db_row \<Rightarrow> 'd db_row \<Rightarrow> bool" where
  "key_before ns sem k r s = (if snd k = ASC then key_ascends ns sem (fst k) r s else key_ascends ns sem (fst k) s r)"

fun rows_before :: "bool \<Rightarrow> ('d::linorder db_row \<Rightarrow> ('d option, 'd) row_sem) \<Rightarrow> (order_key \<times> cursor_direction) list \<Rightarrow> 'd db_row \<Rightarrow> 'd db_row \<Rightarrow> bool" where
  "rows_before ns sem [] r s = False"
| "rows_before ns sem (k # ks) r s = (key_before ns sem k r s \<or> \<not> key_before ns sem k s r \<and> rows_before ns sem ks r s)"

definition answers :: "bool \<Rightarrow> ('d::linorder db_row \<Rightarrow> ('d option, 'd) row_sem) \<Rightarrow> 'd db_row list \<Rightarrow> 'd page_query \<Rightarrow> 'd db_row list \<Rightarrow> bool" where
  "answers ns sem rows q res \<longleftrightarrow> (\<exists>ys. mset ys = mset (filter (\<lambda>r. selects (sem r) (q_where q)) rows) \<and>
     sorted_wrt (\<lambda>r s. \<not> rows_before ns sem (q_order q) s r) ys \<and> res = take (q_limit q) ys)"

text \<open>A strict weak order: asymmetric, and not being before is transitive.\<close>
definition weak_order :: "('r \<Rightarrow> 'r \<Rightarrow> bool) \<Rightarrow> bool" where
  "weak_order f \<longleftrightarrow> (\<forall>x y. f x y \<longrightarrow> \<not> f y x) \<and> (\<forall>x y z. \<not> f x y \<longrightarrow> \<not> f y z \<longrightarrow> \<not> f x z)"

lemma weak_orderD: "weak_order f \<Longrightarrow> f x y \<Longrightarrow> \<not> f y x" "weak_order f \<Longrightarrow> \<not> f x y \<Longrightarrow> \<not> f y z \<Longrightarrow> \<not> f x z"
  unfolding weak_order_def by blast+

lemma weak_order_trans: "weak_order f \<Longrightarrow> f x y \<Longrightarrow> f y z \<Longrightarrow> f x z"
  unfolding weak_order_def by blast

lemma weak_order_image: "weak_order f \<Longrightarrow> weak_order (\<lambda>r s. f (g r) (g s))"
  unfolding weak_order_def by blast

lemma weak_order_flip: "weak_order f \<Longrightarrow> weak_order (\<lambda>r s. f s r)"
  unfolding weak_order_def by blast

lemma opt_weak: "weak_order (opt_before ns)"
proof -
  have "\<not> opt_before ns y x" if "opt_before ns x y" for x y :: "'a option"
    using that by (cases x; cases y) (simp_all add: opt_before_def)
  moreover have "\<not> opt_before ns x z" if "\<not> opt_before ns x y" "\<not> opt_before ns y z" for x y z :: "'a option"
    using that by (cases x; cases y; cases z) (simp_all add: opt_before_def)
  ultimately show ?thesis unfolding weak_order_def by blast
qed

lemma key_ascends_weak: "weak_order (key_ascends ns sem c)"
proof (cases c)
  case (By_Column x)
  have "key_ascends ns sem c = (\<lambda>r s. opt_before ns (col_value (sem r) x) (col_value (sem s) x))"
    by (intro ext) (simp add: By_Column)
  then show ?thesis using weak_order_image [OF opt_weak] by simp
next
  case (By_Is_Null x)
  then show ?thesis by (auto simp: weak_order_def)
qed

lemma key_weak: "weak_order (key_before ns sem k)"
proof (cases "snd k = ASC")
  case True
  then have "key_before ns sem k = key_ascends ns sem (fst k)" by (intro ext) (simp add: key_before_def)
  then show ?thesis by (simp add: key_ascends_weak)
next
  case False
  then have "key_before ns sem k = (\<lambda>r s. key_ascends ns sem (fst k) s r)" by (intro ext) (simp add: key_before_def)
  then show ?thesis using weak_order_flip [OF key_ascends_weak] by simp
qed

lemma rows_weak: "weak_order (rows_before ns sem ks)"
proof (induction ks)
  case (Cons k ks)
  have "\<not> rows_before ns sem (k # ks) y x" if "rows_before ns sem (k # ks) x y" for x y
    using that weak_orderD(1) [OF Cons.IH, of x y] weak_orderD(1) [OF key_weak [of ns sem k], of x y] by auto
  moreover have "\<not> rows_before ns sem (k # ks) x z"
    if a: "\<not> rows_before ns sem (k # ks) x y" "\<not> rows_before ns sem (k # ks) y z" for x y z
  proof -
    have n: "\<not> key_before ns sem k x y" "\<not> key_before ns sem k y z" using a by auto
    then have xz: "\<not> key_before ns sem k x z" using weak_orderD(2) [OF key_weak] by blast
    have "key_before ns sem k z x" if "rows_before ns sem ks x z"
    proof (rule ccontr)
      assume zx: "\<not> key_before ns sem k z x"
      then have "\<not> key_before ns sem k y x" "\<not> key_before ns sem k z y"
        using n weak_orderD(2) [OF key_weak] by blast+
      then show False using a that weak_orderD(2) [OF Cons.IH, of x y z] by auto
    qed
    then show ?thesis using xz by auto
  qed
  ultimately show ?case unfolding weak_order_def by blast
qed (simp add: weak_order_def)

lemma rows_ties: "\<not> rows_before ns sem ks x y \<Longrightarrow> \<not> rows_before ns sem ks y x \<Longrightarrow> k \<in> set ks \<Longrightarrow>
    \<not> key_before ns sem k x y \<and> \<not> key_before ns sem k y x"
  by (induction ks) auto

text \<open>Two lists sorted by the same strict order hold the same elements only if they are equal.\<close>
lemma strictly_sorted_unique:
  assumes "weak_order f"
  shows "sorted_wrt f xs \<Longrightarrow> sorted_wrt f ys \<Longrightarrow> mset xs = mset ys \<Longrightarrow> xs = ys"
proof (induction xs arbitrary: ys)
  case (Cons x xs)
  then obtain y ys' where ys: "ys = y # ys'" by (cases ys) auto
  have "x = y"
  proof (rule ccontr)
    assume "x \<noteq> y"
    then have "x \<in> set ys'" "y \<in> set xs" using Cons.prems(3) ys by (metis set_ConsD set_mset_mset list.set_intros(1))+
    then have "f y x" "f x y" using Cons.prems(1,2) ys by auto
    then show False using weak_orderD(1) [OF assms] by blast
  qed
  then show ?case using Cons ys by auto
qed simp

lemma filter_after:
  assumes "weak_order f" "sorted_wrt f S" "k < length S"
  shows "filter (f (S ! k)) S = drop (Suc k) S"
proof -
  have irr: "\<not> f x x" for x using weak_orderD(1) [OF assms(1)] by blast
  have S: "S = take k S @ S ! k # drop (Suc k) S" using assms(3) by (rule id_take_nth_drop)
  have "sorted_wrt f (take k S @ S ! k # drop (Suc k) S)" using assms(2) S by simp
  then have before: "\<forall>x\<in>set (take k S). f x (S ! k)" and after: "\<forall>x\<in>set (drop (Suc k) S). f (S ! k) x"
    by (simp_all add: sorted_wrt_append)
  have "filter (f (S ! k)) (take k S) = []"
    using before weak_orderD(1) [OF assms(1)] by (auto simp: filter_empty_conv)
  moreover have "filter (f (S ! k)) (drop (Suc k) S) = drop (Suc k) S" using after by (simp add: filter_True)
  ultimately show ?thesis using irr by (subst S) (simp del: append_take_drop_id)
qed

text \<open>What a plan needs of the rows: a primary key without NULLs that, with the sub key, tells rows apart.\<close>
definition key_columns :: "'d keyset_plan \<Rightarrow> string list" where
  "key_columns plan = pkColumns plan @ (case subKeyColumn plan of None \<Rightarrow> [] | Some c \<Rightarrow> [c])"

definition plan_ok :: "'d keyset_plan \<Rightarrow> 'd db_row list \<Rightarrow> bool" where
  "plan_ok plan rows \<longleftrightarrow> pkColumns plan \<noteq> [] \<and> pageSize plan > 0 \<and> (isPkOrder plan \<longleftrightarrow> orderColumn plan = hd (pkColumns plan)) \<and>
     (\<forall>r\<in>set rows. \<forall>c\<in>set (key_columns plan). r c \<noteq> None) \<and>
     distinct (map (\<lambda>r. map r (key_columns plan)) rows)"

lemma tiebreak_row:
  assumes "pkColumns plan \<noteq> []" "\<forall>c\<in>set (key_columns plan). r c \<noteq> None"
  shows "tiebreakKeys plan (cursorKeyOf plan r) = map (\<lambda>c. (c, r c)) (key_columns plan)"
proof -
  have "pk_values plan (cursorKeyOf plan r) = map r (pkColumns plan)"
    by (auto simp: pk_values_def cursorKeyOf_def pkPart_def split: list.split)
  then show ?thesis using assms(2)
    by (auto simp: tiebreakKeys_def Let_def cursorKeyOf_def key_columns_def zip_map2 map_idI zip_same_conv_map split: option.splits)
qed

lemma tiebreak_cursor [simp]: "tiebreakKeys (plan\<lparr>plan_cursor := x\<rparr>) cur = tiebreakKeys plan cur"
  by (cases "cur_pk cur"; cases "subKeyColumn plan"; cases "cur_sub cur") (simp_all add: tiebreakKeys_def pk_values_def Let_def)

lemma order_cursor [simp]: "buildKeysetOrderBy (plan\<lparr>plan_cursor := x\<rparr>) wrap = buildKeysetOrderBy plan wrap"
  by (cases "subKeyColumn plan") (simp_all add: buildKeysetOrderBy_def Let_def)

locale keyset_database =
  fixes wrap :: "string \<Rightarrow> string"
    and sem :: "'d::linorder db_row \<Rightarrow> ('d option, 'd) row_sem"
    and nulls_small :: bool
  assumes reads_column: "col_value (sem r) (wrap c) = r c"
    and reads_bind: "bind_value (sem r) v = v"
begin

abbreviation before :: "'d keyset_plan \<Rightarrow> 'd db_row \<Rightarrow> 'd db_row \<Rightarrow> bool" where
  "before plan \<equiv> rows_before nulls_small sem (buildKeysetOrderBy plan wrap)"

lemma column_before:
  assumes "r c \<noteq> None" "s c \<noteq> None"
  shows "key_before nulls_small sem (By_Column (wrap c), dir) r s \<longleftrightarrow> (if dir = ASC then the (r c) < the (s c) else the (s c) < the (r c))"
  using assms by (auto simp: key_before_def reads_column opt_before_def)

lemma branch_true:
  assumes "i < length cols" "\<forall>c\<in>set cols. cur c \<noteq> None" "\<forall>c\<in>set cols. r c \<noteq> None"
  shows "eval (sem r) (key_branch dir wrap (map (\<lambda>c. (c, cur c)) cols) i) = Some True \<longleftrightarrow>
    (\<forall>j<i. cur (cols ! j) = r (cols ! j)) \<and> key_before nulls_small sem (By_Column (wrap (cols ! i)), dir) cur r"
proof -
  let ?after = "if dir = ASC then Gt (wrap (cols ! i)) (cur (cols ! i)) else Lt (wrap (cols ! i)) (cur (cols ! i))"
  have nn: "cur (cols ! j) \<noteq> None" "r (cols ! j) \<noteq> None" if "j \<le> i" for j
    using assms that by auto
  have after: "eval (sem r) ?after = Some True \<longleftrightarrow> key_before nulls_small sem (By_Column (wrap (cols ! i)), dir) cur r"
    using nn [of i] by (auto simp: column_before reads_column reads_bind)
  have eqs: "(\<forall>c\<in>set (take i cols). eval (sem r) (Equals (wrap c) (cur c)) = Some True) \<longleftrightarrow> (\<forall>j<i. cur (cols ! j) = r (cols ! j))"
  proof -
    have "eval (sem r) (Equals (wrap (cols ! j)) (cur (cols ! j))) = Some True \<longleftrightarrow> cur (cols ! j) = r (cols ! j)" if "j < i" for j
      using nn [of j] that by (auto simp: reads_column reads_bind)
    then show ?thesis using assms(1) by (auto simp: all_set_conv_all_nth)
  qed
  show ?thesis
  proof (cases "i = 0")
    case True
    then have eq: "key_branch dir wrap (map (\<lambda>c. (c, cur c)) cols) i = ?after"
      using assms(1) by (simp add: key_branch_def)
    show ?thesis unfolding eq after using True by simp
  next
    case False
    have "eval (sem r) (key_branch dir wrap (map (\<lambda>c. (c, cur c)) cols) i) = Some True \<longleftrightarrow>
      (\<forall>c\<in>set (take i cols). eval (sem r) (Equals (wrap c) (cur c)) = Some True) \<and> eval (sem r) ?after = Some True"
      using False assms(1) by (auto simp: key_branch_def t_and_True take_map)
    then show ?thesis unfolding eqs after by simp
  qed
qed

lemma tie_step:
  assumes "cur c \<noteq> None" "r c \<noteq> None"
  shows "rows_before nulls_small sem ((By_Column (wrap c), dir) # ks) cur r \<longleftrightarrow>
    key_before nulls_small sem (By_Column (wrap c), dir) cur r \<or> cur c = r c \<and> rows_before nulls_small sem ks cur r"
  using assms by (auto simp: column_before)

lemma lex_branches:
  assumes "\<forall>c\<in>set cols. cur c \<noteq> None" "\<forall>c\<in>set cols. r c \<noteq> None"
  shows "rows_before nulls_small sem (map (\<lambda>c. (By_Column (wrap c), dir)) cols) cur r \<longleftrightarrow>
    (\<exists>i<length cols. (\<forall>j<i. cur (cols ! j) = r (cols ! j)) \<and> key_before nulls_small sem (By_Column (wrap (cols ! i)), dir) cur r)"
  using assms
proof (induction cols)
  case (Cons c cols)
  let ?P = "\<lambda>cols i. (\<forall>j<i. cur (cols ! j) = r (cols ! j)) \<and> key_before nulls_small sem (By_Column (wrap (cols ! i)), dir) cur r"
  have "(\<exists>i<length (c # cols). ?P (c # cols) i) \<longleftrightarrow>
      key_before nulls_small sem (By_Column (wrap c), dir) cur r \<or> cur c = r c \<and> (\<exists>i<length cols. ?P cols i)"
    by (simp only: length_Cons Ex_less_Suc2 All_less_Suc2 nth_Cons_0 nth_Cons_Suc) auto
  then show ?case using Cons.IH Cons.prems tie_step [of cur c r dir] by (simp only: list.map) auto
qed simp

lemma keyAfter_true:
  assumes "cols \<noteq> []" "\<forall>c\<in>set cols. cur c \<noteq> None" "\<forall>c\<in>set cols. r c \<noteq> None"
  shows "eval (sem r) (keyAfter dir wrap (map (\<lambda>c. (c, cur c)) cols)) = Some True \<longleftrightarrow>
    rows_before nulls_small sem (map (\<lambda>c. (By_Column (wrap c), dir)) cols) cur r"
proof -
  let ?b = "key_branch dir wrap (map (\<lambda>c. (c, cur c)) cols)"
  have "eval (sem r) (keyAfter dir wrap (map (\<lambda>c. (c, cur c)) cols)) = Some True \<longleftrightarrow>
    (\<exists>i<length cols. eval (sem r) (?b i) = Some True)"
  proof (cases "length cols = 1")
    case True
    then show ?thesis by (simp add: keyAfter_def Let_def)
  next
    case False
    then show ?thesis by (auto simp: keyAfter_def Let_def t_or_True image_iff Bex_def)
  qed
  then show ?thesis using branch_true [OF _ assms(2,3)] unfolding lex_branches [OF assms(2,3)] by blast
qed

end


context keyset_database
begin

lemma order_pk: "pkColumns plan \<noteq> [] \<Longrightarrow> isPkOrder plan \<Longrightarrow> orderColumn plan = hd (pkColumns plan) \<Longrightarrow>
    buildKeysetOrderBy plan wrap = map (\<lambda>c. (By_Column (wrap c), plan_direction plan)) (key_columns plan)"
  by (cases "pkColumns plan") (auto simp: buildKeysetOrderBy_def Let_def key_columns_def split: option.split)

lemma order_other: "\<not> isPkOrder plan \<Longrightarrow> buildKeysetOrderBy plan wrap =
    (By_Is_Null (wrap (orderColumn plan)), plan_direction plan) # (By_Column (wrap (orderColumn plan)), plan_direction plan) #
    map (\<lambda>c. (By_Column (wrap c), plan_direction plan)) (key_columns plan)"
  by (auto simp: buildKeysetOrderBy_def Let_def key_columns_def split: option.split)

lemma key_of_ordered:
  assumes "plan_ok plan rows" "c \<in> set (key_columns plan)"
  shows "(By_Column (wrap c), plan_direction plan) \<in> set (buildKeysetOrderBy plan wrap)"
  using assms by (cases "isPkOrder plan") (auto simp: plan_ok_def order_pk order_other)

lemma ties_same_key:
  assumes "plan_ok plan rows" "r \<in> set rows" "s \<in> set rows" "\<not> before plan r s" "\<not> before plan s r"
  shows "map r (key_columns plan) = map s (key_columns plan)"
proof (rule map_cong [OF refl])
  fix c assume c: "c \<in> set (key_columns plan)"
  have "r c \<noteq> None" "s c \<noteq> None" using assms(1-3) c by (simp_all add: plan_ok_def)
  moreover have "\<not> key_before nulls_small sem (By_Column (wrap c), plan_direction plan) r s"
    "\<not> key_before nulls_small sem (By_Column (wrap c), plan_direction plan) s r"
    using rows_ties [OF assms(4,5) key_of_ordered [OF assms(1) c]] by simp_all
  ultimately show "r c = s c" by (auto simp: column_before split: if_splits)
qed

lemma predicate_true:
  assumes ok: "plan_ok plan rows" and cur: "cur \<in> set rows" and r: "r \<in> set rows"
  shows "\<exists>p. buildKeysetPredicate (plan\<lparr>plan_cursor := Some (cursorKeyOf plan cur)\<rparr>) wrap = Some p \<and>
    (eval (sem r) p = Some True \<longleftrightarrow> before plan cur r)"
proof -
  let ?keys = "map (\<lambda>c. (c, cur c)) (key_columns plan)"
  let ?plan = "plan\<lparr>plan_cursor := Some (cursorKeyOf plan cur)\<rparr>"
  have pk: "pkColumns plan \<noteq> []" and nn: "\<forall>c\<in>set (key_columns plan). cur c \<noteq> None" "\<forall>c\<in>set (key_columns plan). r c \<noteq> None"
    using ok cur r by (simp_all add: plan_ok_def)
  have keys: "tiebreakKeys ?plan (cursorKeyOf plan cur) = ?keys"
    using tiebreak_row [OF pk nn(1)] by simp
  have no: "cur_pk (cursorKeyOf plan cur) \<noteq> No_Key"
    using pk by (auto simp: cursorKeyOf_def pkPart_def split: list.split)
  have after: "eval (sem r) (keyAfter dir wrap ?keys) = Some True \<longleftrightarrow>
      rows_before nulls_small sem (map (\<lambda>c. (By_Column (wrap c), dir)) (key_columns plan)) cur r" for dir
    by (rule keyAfter_true) (use pk nn in \<open>simp_all add: key_columns_def\<close>)
  show ?thesis
  proof (cases "isPkOrder plan")
    case True
    then have "orderColumn plan = hd (pkColumns plan)" using ok by (simp add: plan_ok_def)
    then show ?thesis using True pk no keys after by (simp add: buildKeysetPredicate_def Let_def order_pk)
  next
    case False
    have o: "cur_order (cursorKeyOf plan cur) = cur (orderColumn plan)" by (simp add: cursorKeyOf_def)
    show ?thesis
    proof (cases "cur (orderColumn plan)")
      case None
      show ?thesis
      proof (cases "plan_direction plan")
        case ASC
        then show ?thesis using None False pk no keys o after [of ASC]
          by (cases "r (orderColumn plan)") (auto simp: buildKeysetPredicate_def Let_def order_other
            key_before_def reads_column reads_bind opt_before_def)
      next
        case DESC
        then show ?thesis using None False pk no keys o after [of DESC]
          by (cases "r (orderColumn plan)") (auto simp: buildKeysetPredicate_def Let_def order_other
            key_before_def reads_column reads_bind opt_before_def)
      qed
    next
      case (Some v)
      show ?thesis
      proof (cases "plan_direction plan")
        case ASC
        then show ?thesis using Some False pk no keys o after [of ASC]
          by (cases "r (orderColumn plan)") (auto simp: buildKeysetPredicate_def Let_def order_other
            key_before_def reads_column reads_bind opt_before_def)
      next
        case DESC
        then show ?thesis using Some False pk no keys o after [of DESC]
          by (cases "r (orderColumn plan)") (auto simp: buildKeysetPredicate_def Let_def order_other
            key_before_def reads_column reads_bind opt_before_def)
      qed
    qed
  qed
qed

end


subsection \<open>Traversals\<close>

text \<open>\<^verbatim>\<open>buildKeysetQuery\<close>: the WHERE of the scope with the predicate behind it, the order, the limit.\<close>
definition buildKeysetQuery :: "'d option cond list \<Rightarrow> (string \<Rightarrow> string) \<Rightarrow> nat \<Rightarrow> 'd keyset_plan \<Rightarrow> 'd page_query" where
  "buildKeysetQuery scope wrap limit plan =
     \<lparr>q_where = scope @ (case buildKeysetPredicate plan wrap of None \<Rightarrow> [] | Some p \<Rightarrow> [p]),
      q_order = buildKeysetOrderBy plan wrap, q_limit = limit\<rparr>"

text \<open>The loop of \<^verbatim>\<open>keysetBatches\<close>: the batches it yields, \<open>None\<close> when the fuel does not reach its end.\<close>
fun keysetBatches :: "nat \<Rightarrow> ('d page_query \<Rightarrow> 'd db_row list) \<Rightarrow> 'd option cond list \<Rightarrow> (string \<Rightarrow> string) \<Rightarrow> 'd keyset_plan \<Rightarrow>
    'd cursor_key option \<Rightarrow> 'd db_row list list option" where
  "keysetBatches 0 run scope wrap plan cur = None"
| "keysetBatches (Suc fuel) run scope wrap plan cur =
     (let rows = run (buildKeysetQuery scope wrap (pageSize plan) (plan\<lparr>plan_cursor := cur\<rparr>)) in
      if rows = [] then Some []
      else if length rows < pageSize plan then Some [rows]
      else map_option (Cons rows) (keysetBatches fuel run scope wrap plan (Some (cursorKeyOf plan (last rows)))))"

context keyset_database
begin

definition matching :: "'d option cond list \<Rightarrow> 'd db_row list \<Rightarrow> 'd db_row list" where
  "matching scope rows = filter (\<lambda>r. selects (sem r) scope) rows"

definition in_order :: "'d keyset_plan \<Rightarrow> 'd option cond list \<Rightarrow> 'd db_row list \<Rightarrow> 'd db_row list \<Rightarrow> bool" where
  "in_order plan scope rows S \<longleftrightarrow> mset S = mset (matching scope rows) \<and> sorted_wrt (before plan) S"

lemma sorted_strict:
  assumes ok: "plan_ok plan rows" and ms: "mset ys = mset (filter P rows)"
    and s: "sorted_wrt (\<lambda>r s. \<not> before plan s r) ys"
  shows "sorted_wrt (before plan) ys"
proof -
  have "distinct (map (\<lambda>r. map r (key_columns plan)) (filter P rows))"
    using ok by (auto simp: plan_ok_def distinct_map_filter)
  moreover have "mset (map (\<lambda>r. map r (key_columns plan)) ys) = mset (map (\<lambda>r. map r (key_columns plan)) (filter P rows))"
    using ms by simp
  ultimately have d: "distinct (map (\<lambda>r. map r (key_columns plan)) ys)" using mset_eq_imp_distinct_iff by blast
  have sub: "set ys \<subseteq> set rows" using mset_eq_setD [OF ms] by auto
  show ?thesis unfolding sorted_wrt_iff_nth_less
  proof (intro allI impI)
    fix i j assume ij: "i < j" "j < length ys"
    have "\<not> before plan (ys ! j) (ys ! i)" using s ij unfolding sorted_wrt_iff_nth_less by blast
    moreover have "map (ys ! i) (key_columns plan) \<noteq> map (ys ! j) (key_columns plan)"
      using d ij by (auto simp: distinct_conv_nth)
    ultimately show "before plan (ys ! i) (ys ! j)"
      using ties_same_key [OF ok, of "ys ! i" "ys ! j"] sub ij by (meson nth_mem less_trans subsetD)
  qed
qed

lemma in_order_unique: "in_order plan scope rows S \<Longrightarrow> in_order plan scope rows S' \<Longrightarrow> S = S'"
  unfolding in_order_def using strictly_sorted_unique [OF rows_weak] by metis

lemma page_of:
  assumes ok: "plan_ok plan rows" and S: "in_order plan scope rows S" and k: "k \<le> length S"
    and cur: "cur = (if k = 0 then None else Some (cursorKeyOf plan (S ! (k - 1))))"
    and a: "answers nulls_small sem rows (buildKeysetQuery scope wrap n (plan\<lparr>plan_cursor := cur\<rparr>)) res"
  shows "res = take n (drop k S)"
proof -
  let ?q = "buildKeysetQuery scope wrap n (plan\<lparr>plan_cursor := cur\<rparr>)"
  have order: "q_order ?q = buildKeysetOrderBy plan wrap" by (simp add: buildKeysetQuery_def)
  have limit: "q_limit ?q = n" by (simp add: buildKeysetQuery_def)
  have sub: "set S \<subseteq> set rows" using mset_eq_setD [of S "matching scope rows"] S by (auto simp: in_order_def matching_def)
  have sel: "filter (\<lambda>r. selects (sem r) (q_where ?q)) rows =
      (if k = 0 then matching scope rows else filter (before plan (S ! (k - 1))) (matching scope rows))"
  proof (cases "k = 0")
    case True
    then show ?thesis by (simp add: cur matching_def buildKeysetQuery_def buildKeysetPredicate_def)
  next
    case False
    have c: "S ! (k - 1) \<in> set rows" using False k sub by auto
    have "selects (sem r) (q_where ?q) \<longleftrightarrow> selects (sem r) scope \<and> before plan (S ! (k - 1)) r" if "r \<in> set rows" for r
      using predicate_true [OF ok c that] False by (auto simp: buildKeysetQuery_def cur selects_iff)
    then show ?thesis using False by (auto simp: matching_def conj_commute intro: filter_cong)
  qed
  obtain ys where ys: "mset ys = mset (filter (\<lambda>r. selects (sem r) (q_where ?q)) rows)"
    "sorted_wrt (\<lambda>r s. \<not> before plan s r) ys" "res = take n ys"
    using a unfolding answers_def order limit by blast
  have strict: "sorted_wrt (before plan) ys" by (rule sorted_strict [OF ok ys(1,2)])
  have mS: "mset S = mset (matching scope rows)" "sorted_wrt (before plan) S" using S by (simp_all add: in_order_def)
  have "mset (filter (\<lambda>r. selects (sem r) (q_where ?q)) rows) = mset (drop k S)"
  proof (cases "k = 0")
    case False
    then have "filter (before plan (S ! (k - 1))) S = drop k S"
      using filter_after [OF rows_weak mS(2), of "k - 1"] k by simp
    then have "mset (drop k S) = filter_mset (before plan (S ! (k - 1))) (mset S)"
      by (metis mset_filter)
    then show ?thesis using False mS(1) sel by simp
  qed (use mS sel in simp)
  then have "mset ys = mset (drop k S)" using ys(1) by simp
  moreover have "sorted_wrt (before plan) (drop k S)" using mS(2) by (rule sorted_wrt_drop)
  ultimately have "ys = drop k S" using strictly_sorted_unique [OF rows_weak strict] by blast
  then show ?thesis using ys(3) by simp
qed

lemma order_exists:
  assumes "plan_ok plan rows" "answers nulls_small sem rows (buildKeysetQuery scope wrap n (plan\<lparr>plan_cursor := None\<rparr>)) res"
  shows "\<exists>S. in_order plan scope rows S"
proof -
  let ?q = "buildKeysetQuery scope wrap n (plan\<lparr>plan_cursor := None\<rparr>)"
  have "q_order ?q = buildKeysetOrderBy plan wrap" "q_where ?q = scope"
    by (simp_all add: buildKeysetQuery_def buildKeysetPredicate_def)
  then obtain ys where ys: "mset ys = mset (filter (\<lambda>r. selects (sem r) scope) rows)"
    "sorted_wrt (\<lambda>r s. \<not> before plan s r) ys"
    using assms(2) unfolding answers_def by auto
  then show ?thesis using sorted_strict [OF assms(1) ys] unfolding in_order_def matching_def by blast
qed

lemma batches_from:
  assumes ok: "plan_ok plan rows" and S: "in_order plan scope rows S"
    and run: "\<And>q. answers nulls_small sem rows q (run q)"
  shows "k \<le> length S \<Longrightarrow> cur = (if k = 0 then None else Some (cursorKeyOf plan (S ! (k - 1)))) \<Longrightarrow>
    fuel > length S - k \<Longrightarrow>
    \<exists>bs. keysetBatches fuel run scope wrap plan cur = Some bs \<and> concat bs = drop k S \<and> (\<forall>b\<in>set bs. b \<noteq> [] \<and> length b \<le> pageSize plan)"
proof (induction fuel arbitrary: k cur)
  case (Suc fuel)
  let ?n = "pageSize plan"
  let ?rows = "run (buildKeysetQuery scope wrap ?n (plan\<lparr>plan_cursor := cur\<rparr>))"
  have n: "?n > 0" using ok by (simp add: plan_ok_def)
  have rows: "?rows = take ?n (drop k S)" by (rule page_of [OF ok S Suc.prems(1,2) run])
  show ?case
  proof (cases "?rows = [] \<or> length ?rows < ?n")
    case True
    then show ?thesis using rows n by (auto simp: Let_def)
  next
    case False
    then have len: "k + ?n \<le> length S" using rows by auto
    have "length ?rows = ?n" using rows len by simp
    then have "last ?rows = S ! (k + ?n - 1)" using rows len n False by (simp add: last_conv_nth)
    then have "Some (cursorKeyOf plan (last ?rows)) = (if k + ?n = 0 then None else Some (cursorKeyOf plan (S ! (k + ?n - 1))))"
      using n by simp
    moreover have "length S - (k + ?n) < fuel" using Suc.prems(3) n len by linarith
    ultimately obtain bs where "keysetBatches fuel run scope wrap plan (Some (cursorKeyOf plan (last ?rows))) = Some bs"
      "concat bs = drop (k + ?n) S" "\<forall>b\<in>set bs. b \<noteq> [] \<and> length b \<le> ?n"
      using Suc.IH [OF len] by blast
    moreover have "?rows @ drop (k + ?n) S = drop k S"
      using rows append_take_drop_id [of ?n "drop k S"] by (simp add: add.commute)
    ultimately show ?thesis using False rows by (simp add: Let_def)
  qed
qed simp

end


subsection \<open>The cursor page of findWithCursor\<close>

datatype cursor_error = No_Order_Column | Bad_Page_Size | Invalid_Cursor

record cursor_option =
  opt_take :: page_size_arg
  opt_cursor :: "string option"
  opt_orderBy :: "string option"
  opt_direction :: "cursor_direction option"

record 'd cursor_order =
  ord_column :: string
  ord_direction :: cursor_direction
  ord_size :: nat
  ord_cursor :: "'d cursor_key option"

text \<open>\<^verbatim>\<open>option.orderBy ?? pk?.name\<close>; an empty name is falsy.\<close>
definition order_column :: "string list \<Rightarrow> string option \<Rightarrow> string option" where
  "order_column pks orderBy = (let c = (case orderBy of None \<Rightarrow> (case pks of [] \<Rightarrow> None | p # _ \<Rightarrow> Some p) | Some c \<Rightarrow> Some c) in
     if c = Some [] then None else c)"

definition read_cursor :: "(string \<Rightarrow> 'd cursor_key option) \<Rightarrow> string list \<Rightarrow> string option \<Rightarrow> cursor_error + 'd cursor_key option" where
  "read_cursor decode pks c = (case c of
     None \<Rightarrow> Inr None
   | Some [] \<Rightarrow> Inr None
   | Some text \<Rightarrow> (case decode text of
       None \<Rightarrow> Inl Invalid_Cursor
     | Some cur \<Rightarrow> if cursorFitsKeyset pks cur then Inr (Some cur) else Inl Invalid_Cursor))"

definition resolveCursorOrder :: "(string \<Rightarrow> 'd cursor_key option) \<Rightarrow> string list \<Rightarrow> cursor_option \<Rightarrow> cursor_error + 'd cursor_order" where
  "resolveCursorOrder decode pks opt = (case order_column pks (opt_orderBy opt) of
     None \<Rightarrow> Inl No_Order_Column
   | Some col \<Rightarrow> (case normalizePageSize (opt_take opt) of
       Inl _ \<Rightarrow> Inl Bad_Page_Size
     | Inr n \<Rightarrow> (case read_cursor decode pks (opt_cursor opt) of
         Inl e \<Rightarrow> Inl e
       | Inr cur \<Rightarrow> Inr \<lparr>ord_column = col, ord_direction = (case opt_direction opt of None \<Rightarrow> ASC | Some d \<Rightarrow> d),
           ord_size = n, ord_cursor = cur\<rparr>)))"

text \<open>The keyset plan of \<^verbatim>\<open>prepareCursorQuery\<close>; \<open>sub\<close> is the discriminator of a TABLE_PER_CLASS root.\<close>
definition cursor_plan :: "(string \<Rightarrow> string option) \<Rightarrow> string list \<Rightarrow> string option \<Rightarrow> 'd cursor_order \<Rightarrow> 'd keyset_plan" where
  "cursor_plan propToCol pks sub order =
     (let col = (case propToCol (ord_column order) of None \<Rightarrow> ord_column order | Some c \<Rightarrow> c) in
      \<lparr>orderColumn = col, pkColumns = pks, isPkOrder = (pks = [] \<or> col = hd pks), subKeyColumn = sub,
       plan_direction = ord_direction order, pageSize = ord_size order, plan_cursor = ord_cursor order\<rparr>)"

record 'd cursor_page =
  page_data :: "'d db_row list"
  hasNextPage :: bool
  nextCursor :: "string option"
  page_count :: nat

text \<open>\<^verbatim>\<open>hydrateCursorPage\<close>, without the hydration of the rows.\<close>
definition cursor_page_of :: "('d cursor_key \<Rightarrow> string) \<Rightarrow> 'd keyset_plan \<Rightarrow> 'd db_row list \<Rightarrow> 'd cursor_page" where
  "cursor_page_of encode plan results =
     (if results = [] then \<lparr>page_data = [], hasNextPage = False, nextCursor = None, page_count = 0\<rparr>
      else (let (rows, more) = sliceCursorPage results (pageSize plan) in
        \<lparr>page_data = rows, hasNextPage = more,
         nextCursor = (if more \<and> rows \<noteq> [] then Some (encode (cursorKeyOf plan (last rows))) else None),
         page_count = length rows\<rparr>))"

definition findWithCursor :: "(string \<Rightarrow> 'd cursor_key option) \<Rightarrow> ('d cursor_key \<Rightarrow> string) \<Rightarrow> ('d page_query \<Rightarrow> 'd db_row list) \<Rightarrow>
    (string \<Rightarrow> string) \<Rightarrow> (string \<Rightarrow> string option) \<Rightarrow> string list \<Rightarrow> string option \<Rightarrow> 'd option cond list \<Rightarrow> cursor_option \<Rightarrow>
    cursor_error + 'd cursor_page" where
  "findWithCursor decode encode run wrap propToCol pks sub scope opt = (case resolveCursorOrder decode pks opt of
     Inl e \<Rightarrow> Inl e
   | Inr order \<Rightarrow> (let plan = cursor_plan propToCol pks sub order in
       Inr (cursor_page_of encode plan (run (buildKeysetQuery scope wrap (pageSize plan + 1) plan)))))"

text \<open>A client that follows the cursors: the pages it sees, \<open>None\<close> when the fuel ends or a page fails.\<close>
fun cursor_walk :: "nat \<Rightarrow> (string option \<Rightarrow> cursor_error + 'd cursor_page) \<Rightarrow> string option \<Rightarrow> 'd cursor_page list option" where
  "cursor_walk 0 fetch cur = None"
| "cursor_walk (Suc fuel) fetch cur = (case fetch cur of
     Inl _ \<Rightarrow> None
   | Inr page \<Rightarrow> (case nextCursor page of
       None \<Rightarrow> Some [page]
     | Some c \<Rightarrow> map_option (Cons page) (cursor_walk fuel fetch (Some c))))"

subsection \<open>The pipeline's plan\<close>

datatype pipeline_error = Order_By_One_Column | No_Primary_Key

definition planKeyset :: "(string \<times> cursor_direction) list \<Rightarrow> string list \<Rightarrow> string option \<Rightarrow> nat \<Rightarrow> pipeline_error + 'd keyset_plan" where
  "planKeyset order pks sub batchSize = (case order of
     [(col, dir)] \<Rightarrow> (if pks = [] then Inl No_Primary_Key
       else Inr \<lparr>orderColumn = col, pkColumns = pks, isPkOrder = (col = hd pks), subKeyColumn = sub,
         plan_direction = dir, pageSize = batchSize, plan_cursor = None\<rparr>)
   | _ \<Rightarrow> Inl Order_By_One_Column)"

context keyset_database
begin

lemma walk_from:
  assumes ok: "plan_ok plan rows" and S: "in_order plan scope rows S"
    and run: "\<And>q. answers nulls_small sem rows q (run q)"
    and page: "\<And>k. 0 < k \<Longrightarrow> k \<le> length S \<Longrightarrow> fetch (Some (encode (cursorKeyOf plan (S ! (k - 1))))) =
      Inr (cursor_page_of encode plan (run (buildKeysetQuery scope wrap (pageSize plan + 1) (plan\<lparr>plan_cursor := Some (cursorKeyOf plan (S ! (k - 1)))\<rparr>))))"
    and first: "fetch None = Inr (cursor_page_of encode plan (run (buildKeysetQuery scope wrap (pageSize plan + 1) (plan\<lparr>plan_cursor := None\<rparr>))))"
  shows "k \<le> length S \<Longrightarrow> fuel > length S - k \<Longrightarrow>
    \<exists>ps. cursor_walk fuel fetch (if k = 0 then None else Some (encode (cursorKeyOf plan (S ! (k - 1))))) = Some ps \<and>
      concat (map page_data ps) = drop k S"
proof (induction fuel arbitrary: k)
  case (Suc fuel)
  let ?n = "pageSize plan"
  let ?cur = "if k = 0 then None else Some (cursorKeyOf plan (S ! (k - 1)))"
  let ?rows = "run (buildKeysetQuery scope wrap (?n + 1) (plan\<lparr>plan_cursor := ?cur\<rparr>))"
  have n: "?n > 0" using ok by (simp add: plan_ok_def)
  have rows: "?rows = take (?n + 1) (drop k S)" by (rule page_of [OF ok S Suc.prems(1) refl run])
  have fetch: "fetch (if k = 0 then None else Some (encode (cursorKeyOf plan (S ! (k - 1))))) = Inr (cursor_page_of encode plan ?rows)"
    using first page [of k] Suc.prems(1) by simp
  show ?case
  proof (cases "length ?rows > ?n")
    case False
    then have "page_data (cursor_page_of encode plan ?rows) = drop k S" "nextCursor (cursor_page_of encode plan ?rows) = None"
      using rows by (auto simp: cursor_page_of_def sliceCursorPage_def)
    then show ?thesis using fetch by simp
  next
    case True
    then have len: "k + ?n < length S" using rows by auto
    have data: "take ?n ?rows = take ?n (drop k S)" using rows by simp
    have "last (take ?n (drop k S)) = S ! (k + ?n - 1)" using len n by (simp add: last_conv_nth)
    then have "nextCursor (cursor_page_of encode plan ?rows) = Some (encode (cursorKeyOf plan (S ! (k + ?n - 1))))"
      "page_data (cursor_page_of encode plan ?rows) = take ?n (drop k S)"
      using True n data by (auto simp: cursor_page_of_def sliceCursorPage_def)
    moreover have "length S - (k + ?n) < fuel" using Suc.prems(2) n len by linarith
    then obtain ps where "cursor_walk fuel fetch (Some (encode (cursorKeyOf plan (S ! (k + ?n - 1))))) = Some ps"
      "concat (map page_data ps) = drop (k + ?n) S"
      using Suc.IH [of "k + ?n"] len n by auto
    moreover have "take ?n (drop k S) @ drop (k + ?n) S = drop k S"
      using append_take_drop_id [of ?n "drop k S"] by (simp add: add.commute)
    ultimately show ?thesis using fetch by simp
  qed
qed simp

end

text \<open>
  A database of the dialect: it reads a quoted identifier as the column of that name; \<open>base\<close> is the rest of
  its behaviour on a row.
\<close>
definition dialect_row :: "dialect \<Rightarrow> ('d option, 'd) row_sem \<Rightarrow> 'd db_row \<Rightarrow> ('d option, 'd) row_sem" where
  "dialect_row d base r = base\<lparr>col_value := (\<lambda>t. r (unquote (quote_char d) (tl t))), bind_value := (\<lambda>v. v)\<rparr>"

definition nulls_first :: "dialect \<Rightarrow> bool" where
  "nulls_first d \<longleftrightarrow> d \<noteq> Postgres"

interpretation paged: keyset_database "wrap_identifier d" "dialect_row d base" "nulls_first d" for d base
  by unfold_locales (simp_all add: dialect_row_def unquote_wrapped)


subsection \<open>Every row once\<close>

definition keyed_rows :: "string list \<Rightarrow> string option \<Rightarrow> 'd db_row list \<Rightarrow> bool" where
  "keyed_rows pks sub rows \<longleftrightarrow> (let cols = pks @ (case sub of None \<Rightarrow> [] | Some c \<Rightarrow> [c]) in
     (\<forall>r\<in>set rows. \<forall>c\<in>set cols. r c \<noteq> None) \<and> distinct (map (\<lambda>r. map r cols) rows))"

definition row_order :: "dialect \<Rightarrow> ('d::linorder option, 'd) row_sem \<Rightarrow> 'd keyset_plan \<Rightarrow> 'd db_row \<Rightarrow> 'd db_row \<Rightarrow> bool" where
  "row_order d base plan = rows_before (nulls_first d) (dialect_row d base) (buildKeysetOrderBy plan (wrap_identifier d))"

definition scoped :: "dialect \<Rightarrow> ('d::linorder option, 'd) row_sem \<Rightarrow> 'd option cond list \<Rightarrow> 'd db_row list \<Rightarrow> 'd db_row list" where
  "scoped d base scope rows = filter (\<lambda>r. selects (dialect_row d base r) scope) rows"

lemma in_order_length: "paged.in_order d base plan scope rows S \<Longrightarrow> length S \<le> length rows"
  unfolding paged.in_order_def paged.matching_def by (metis length_filter_le size_mset)

text \<open>A keyset traversal of \<^verbatim>\<open>RawPipeline\<close>, of any batch size, direction, ordering column (NULLs included) and
  composite key, on every dialect: it ends within as many queries as there are rows and one, and its batches
  are the selected rows, every row once, in the order the traversal asked for.\<close>
theorem keyset_batches_traverse:
  assumes "planKeyset order pks sub n = Inr plan" "n > 0" "keyed_rows pks sub rows"
    and "\<And>q. answers (nulls_first d) (dialect_row d base) rows q (run q)"
  shows "\<exists>bs. keysetBatches (Suc (length rows)) run scope (wrap_identifier d) plan None = Some bs \<and>
    mset (concat bs) = mset (scoped d base scope rows) \<and> sorted_wrt (row_order d base plan) (concat bs) \<and>
    (\<forall>b\<in>set bs. b \<noteq> [] \<and> length b \<le> n)"
proof -
  have ok: "plan_ok plan rows" and n: "pageSize plan = n"
    using assms(1-3) by (auto simp: planKeyset_def plan_ok_def key_columns_def keyed_rows_def Let_def split: list.splits prod.splits if_splits)
  obtain S where S: "paged.in_order d base plan scope rows S"
    using paged.order_exists [OF ok assms(4) [where q = "buildKeysetQuery scope (wrap_identifier d) n (plan\<lparr>plan_cursor := None\<rparr>)"]] by blast
  from paged.batches_from [OF ok S assms(4), of 0 None "Suc (length rows)"] in_order_length [OF S]
  obtain bs where "keysetBatches (Suc (length rows)) run scope (wrap_identifier d) plan None = Some bs" "concat bs = S"
    "\<forall>b\<in>set bs. b \<noteq> [] \<and> length b \<le> pageSize plan" by auto
  then show ?thesis using S n by (auto simp: paged.in_order_def paged.matching_def scoped_def row_order_def)
qed

lemma cursor_plan_same: "cursor_plan p2c pks sub (order\<lparr>ord_cursor := x\<rparr>) = (cursor_plan p2c pks sub order)\<lparr>plan_cursor := x\<rparr>"
  by (cases "p2c (ord_column order)") (simp_all add: cursor_plan_def Let_def)

lemma cursorKeyOf_cursor [simp]: "cursorKeyOf (plan\<lparr>plan_cursor := x\<rparr>) = cursorKeyOf plan"
  by (intro ext; cases "subKeyColumn plan") (simp_all add: cursorKeyOf_def)

lemma cursor_page_cursor [simp]: "cursor_page_of encode (plan\<lparr>plan_cursor := x\<rparr>) rows = cursor_page_of encode plan rows"
  by (cases "sliceCursorPage rows (pageSize plan)") (simp add: cursor_page_of_def)

lemma cursor_fits_own_key: "cursorFitsKeyset pks (cursorKeyOf (cursor_plan p2c pks sub order) r)"
  by (auto simp: cursorFitsKeyset_def cursorKeyOf_def cursor_plan_def pkPart_def Let_def split: list.split)

lemma resolve_with_cursor:
  assumes "resolveCursorOrder decode pks (opt\<lparr>opt_cursor := None\<rparr>) = Inr order"
    "decode c = Some cur" "c \<noteq> []" "cursorFitsKeyset pks cur"
  shows "resolveCursorOrder decode pks (opt\<lparr>opt_cursor := Some c\<rparr>) = Inr (order\<lparr>ord_cursor := Some cur\<rparr>)"
proof -
  have "read_cursor decode pks (Some c) = Inr (Some cur)" using assms(2-4) by (cases c) (simp_all add: read_cursor_def)
  then show ?thesis using assms(1)
    by (auto simp: resolveCursorOrder_def read_cursor_def split: option.splits sum.splits)
qed

lemma resolve_size: "resolveCursorOrder decode pks opt = Inr order \<Longrightarrow> ord_size order > 0"
  by (auto simp: resolveCursorOrder_def normalizePageSize_def split: option.splits sum.splits page_size_arg.splits if_splits)

text \<open>C19: A client that follows the cursors of \<^verbatim>\<open>findWithCursor\<close> from the first page sees every selected row
  once, in the page's order, and comes to a page without a next cursor: no row is skipped or repeated at a page
  boundary, whatever rows share an order value or have none.\<close>
theorem cursor_pages_cover:
  assumes "resolveCursorOrder decode pks (opt\<lparr>opt_cursor := None\<rparr>) = Inr order" "pks \<noteq> []" "keyed_rows pks sub rows"
    and "\<And>r. r \<in> set rows \<Longrightarrow> decode (encode (cursorKeyOf (cursor_plan p2c pks sub order) r)) = Some (cursorKeyOf (cursor_plan p2c pks sub order) r)"
    and "\<And>r. r \<in> set rows \<Longrightarrow> encode (cursorKeyOf (cursor_plan p2c pks sub order) r) \<noteq> []"
    and "\<And>q. answers (nulls_first d) (dialect_row d base) rows q (run q)"
  shows "\<exists>ps. cursor_walk (Suc (length rows))
      (\<lambda>c. findWithCursor decode encode run (wrap_identifier d) p2c pks sub scope (opt\<lparr>opt_cursor := c\<rparr>)) None = Some ps \<and>
    mset (concat (map page_data ps)) = mset (scoped d base scope rows) \<and>
    sorted_wrt (row_order d base (cursor_plan p2c pks sub order)) (concat (map page_data ps))"
proof -
  let ?plan = "cursor_plan p2c pks sub order"
  let ?fetch = "\<lambda>c. findWithCursor decode encode run (wrap_identifier d) p2c pks sub scope (opt\<lparr>opt_cursor := c\<rparr>)"
  have none: "ord_cursor order = None"
    using assms(1) by (auto simp: resolveCursorOrder_def read_cursor_def split: option.splits sum.splits)
  have ok: "plan_ok ?plan rows"
    using assms(2,3) resolve_size [OF assms(1)] by (auto simp: plan_ok_def cursor_plan_def key_columns_def keyed_rows_def Let_def)
  have same: "cursor_plan p2c pks sub (order\<lparr>ord_cursor := x\<rparr>) = ?plan\<lparr>plan_cursor := x\<rparr>" for x
    by (rule cursor_plan_same)
  have first: "?fetch None = Inr (cursor_page_of encode ?plan (run (buildKeysetQuery scope (wrap_identifier d) (pageSize ?plan + 1) (?plan\<lparr>plan_cursor := None\<rparr>))))"
  proof -
    have "?plan\<lparr>plan_cursor := None\<rparr> = ?plan" using same [of None] none by (cases order) simp
    then show ?thesis using assms(1) by (simp add: findWithCursor_def Let_def)
  qed
  have next_page: "?fetch (Some (encode (cursorKeyOf ?plan r))) = Inr (cursor_page_of encode ?plan
      (run (buildKeysetQuery scope (wrap_identifier d) (pageSize ?plan + 1) (?plan\<lparr>plan_cursor := Some (cursorKeyOf ?plan r)\<rparr>))))" if "r \<in> set rows" for r
    using resolve_with_cursor [OF assms(1) assms(4) [OF that] assms(5) [OF that] cursor_fits_own_key] by (simp add: findWithCursor_def Let_def same)
  obtain S where S: "paged.in_order d base ?plan scope rows S"
    using paged.order_exists [OF ok assms(6) [where q = "buildKeysetQuery scope (wrap_identifier d) 1 (?plan\<lparr>plan_cursor := None\<rparr>)"]] by blast
  have sub: "set S \<subseteq> set rows"
    using S mset_eq_setD [of S "paged.matching d base scope rows"] by (auto simp: paged.in_order_def paged.matching_def)
  then have "S ! (k - 1) \<in> set rows" if "0 < k" "k \<le> length S" for k
    using that by (meson diff_less less_le_trans less_one nth_mem subsetD)
  from paged.walk_from [where fetch = ?fetch and k = 0 and fuel = "Suc (length rows)", OF ok S assms(6) next_page first, OF this] in_order_length [OF S]
  show ?thesis using S by (auto simp: paged.in_order_def paged.matching_def scoped_def row_order_def)
qed

text \<open>Without a primary key the cursor of a row whose order value is NULL positions nothing: the page after it
  is the first page again, so a client that follows the cursors never ends.\<close>
theorem cursor_without_key_restarts:
  assumes "t \<noteq> []" "decode t = Some \<lparr>cur_order = None, cur_pk = No_Key, cur_sub = s\<rparr>"
  shows "findWithCursor decode encode run wrap p2c [] sub scope (opt\<lparr>opt_cursor := Some t\<rparr>) =
    findWithCursor decode encode run wrap p2c [] sub scope (opt\<lparr>opt_cursor := None\<rparr>)"
proof -
  let ?cur = "\<lparr>cur_order = None, cur_pk = No_Key, cur_sub = s\<rparr>"
  have fits: "cursorFitsKeyset [] ?cur" by (simp add: cursorFitsKeyset_def)
  show ?thesis
  proof (cases "resolveCursorOrder decode [] (opt\<lparr>opt_cursor := None\<rparr>)")
    case (Inl e)
    moreover have "read_cursor decode [] (Some t) = Inr (Some ?cur)" using assms fits by (cases t) (simp_all add: read_cursor_def)
    ultimately show ?thesis
      by (auto simp: findWithCursor_def resolveCursorOrder_def read_cursor_def split: option.splits sum.splits)
  next
    case (Inr order)
    have none: "ord_cursor order = None"
      using Inr by (auto simp: resolveCursorOrder_def read_cursor_def split: option.splits sum.splits)
    let ?p = "cursor_plan p2c [] sub order" and ?p' = "cursor_plan p2c [] sub (order\<lparr>ord_cursor := Some ?cur\<rparr>)"
    have p': "?p' = ?p\<lparr>plan_cursor := Some ?cur\<rparr>" "plan_cursor ?p = None" using none cursor_plan_same [of p2c "[]"]
      by (auto simp: cursor_plan_def Let_def)
    have "buildKeysetQuery scope wrap n ?p' = buildKeysetQuery scope wrap n ?p" for n
      unfolding buildKeysetQuery_def p'(1) by (simp add: buildKeysetPredicate_def p'(2) Let_def)
    moreover have "cursor_page_of encode ?p' rs = cursor_page_of encode ?p rs" for rs :: "'a db_row list"
      unfolding p'(1) by simp
    moreover have "pageSize ?p' = pageSize ?p" unfolding p'(1) by simp
    ultimately show ?thesis using resolve_with_cursor [OF Inr assms(2,1) fits] Inr by (simp add: findWithCursor_def Let_def)
  qed
qed


subsection \<open>Concrete traversals\<close>

text \<open>A database that sorts: insertion of every selected row by the query's order.\<close>
fun insert_row :: "('r \<Rightarrow> 'r \<Rightarrow> bool) \<Rightarrow> 'r \<Rightarrow> 'r list \<Rightarrow> 'r list" where
  "insert_row f x [] = [x]"
| "insert_row f x (y # ys) = (if f y x then y # insert_row f x ys else x # y # ys)"

definition sort_rows :: "('r \<Rightarrow> 'r \<Rightarrow> bool) \<Rightarrow> 'r list \<Rightarrow> 'r list" where
  "sort_rows f xs = foldr (insert_row f) xs []"

lemma insert_row_mset [simp]: "mset (insert_row f x ys) = add_mset x (mset ys)"
  by (induction ys) auto

lemma insert_row_sorted:
  assumes "weak_order f"
  shows "sorted_wrt (\<lambda>r s. \<not> f s r) ys \<Longrightarrow> sorted_wrt (\<lambda>r s. \<not> f s r) (insert_row f x ys)"
proof (induction ys)
  case (Cons y ys)
  have e: "set (insert_row f x ys) = insert x (set ys)"
    by (metis insert_row_mset set_mset_add_mset_insert set_mset_mset)
  show ?case
  proof (cases "f y x")
    case True
    then show ?thesis using Cons e weak_orderD(1) [OF assms True] by auto
  next
    case False
    then show ?thesis using Cons weak_orderD(2) [OF assms] by auto
  qed
qed simp

lemma sort_rows_sorts: "weak_order f \<Longrightarrow> mset (sort_rows f xs) = mset xs \<and> sorted_wrt (\<lambda>r s. \<not> f s r) (sort_rows f xs)"
  unfolding sort_rows_def by (induction xs) (simp_all add: insert_row_sorted)

definition sorting_database :: "dialect \<Rightarrow> ('d::linorder option, 'd) row_sem \<Rightarrow> 'd db_row list \<Rightarrow> 'd page_query \<Rightarrow> 'd db_row list" where
  "sorting_database d base rows q = take (q_limit q)
     (sort_rows (rows_before (nulls_first d) (dialect_row d base) (q_order q))
       (filter (\<lambda>r. selects (dialect_row d base r) (q_where q)) rows))"

lemma sorting_database_answers: "answers (nulls_first d) (dialect_row d base) rows q (sorting_database d base rows q)"
  using sort_rows_sorts [OF rows_weak] unfolding answers_def sorting_database_def by metis

definition plain_base :: "(int option, int) row_sem" where
  "plain_base = \<lparr>col_value = (\<lambda>_. None), bind_value = (\<lambda>v. v), like_sem = (\<lambda>_ _. False), escaped_sem = (\<lambda>_ _. False),
     ilike_sem = (\<lambda>_ _. False), search_sem = (\<lambda>_ _. None), splice_sem = (\<lambda>_. None)\<rparr>"

text \<open>Five rows: two share the order value 7 and two have none.\<close>
definition five_rows :: "int db_row list" where
  "five_rows = map (\<lambda>(i, v). [''id'' \<mapsto> i] ++ (case v of None \<Rightarrow> Map.empty | Some x \<Rightarrow> [''at'' \<mapsto> x]))
     [(1, Some 7), (2, None), (3, Some 5), (4, Some 7), (5, None)]"

lemma five_rows_keyed: "keyed_rows [''id''] None five_rows"
  by (simp add: keyed_rows_def five_rows_def)

lemma five_rows_length: "Suc (length five_rows) = 6"
  by (simp add: five_rows_def)

definition five_plan :: "int keyset_plan" where
  "five_plan = \<lparr>orderColumn = ''at'', pkColumns = [''id''], isPkOrder = False, subKeyColumn = None,
     plan_direction = DESC, pageSize = 2, plan_cursor = None\<rparr>"

theorem keyset_batches_traverse_witness:
  "(\<exists>bs. keysetBatches 6 (sorting_database Mysql plain_base five_rows) [] (wrap_identifier Mysql) five_plan None = Some bs \<and>
      mset (concat bs) = mset five_rows) \<and>
   map_option (map (map (\<lambda>r. r ''id''))) (keysetBatches 6 (sorting_database Mysql plain_base five_rows) [] (wrap_identifier Mysql) five_plan None) =
     Some [[Some 5, Some 2], [Some 4, Some 1], [Some 3]]"
proof
  have plan: "planKeyset [(''at'', DESC)] [''id''] None 2 = Inr five_plan"
    by (simp add: planKeyset_def five_plan_def)
  have "scoped Mysql plain_base [] five_rows = five_rows" by (simp add: scoped_def selects_def)
  then show "\<exists>bs. keysetBatches 6 (sorting_database Mysql plain_base five_rows) [] (wrap_identifier Mysql) five_plan None = Some bs \<and>
      mset (concat bs) = mset five_rows"
    using keyset_batches_traverse [where d = Mysql and base = plain_base and scope = "[]", OF plan _ five_rows_keyed sorting_database_answers]
    unfolding five_rows_length by auto
  show "map_option (map (map (\<lambda>r. r ''id''))) (keysetBatches 6 (sorting_database Mysql plain_base five_rows) [] (wrap_identifier Mysql) five_plan None) =
     Some [[Some 5, Some 2], [Some 4, Some 1], [Some 3]]"
    by code_simp
qed

text \<open>A cursor text for the five rows.\<close>
definition row_encode :: "int cursor_key \<Rightarrow> string" where
  "row_encode k = (case cur_pk k of One_Key (Some v) \<Rightarrow> decimal_int v | _ \<Rightarrow> [])"

definition row_decode :: "string \<Rightarrow> int cursor_key option" where
  "row_decode t = map_of (map (\<lambda>r. (row_encode (cursorKeyOf five_plan r), cursorKeyOf five_plan r)) five_rows) t"

definition five_option :: cursor_option where
  "five_option = \<lparr>opt_take = Whole 2, opt_cursor = None, opt_orderBy = Some ''at'', opt_direction = Some DESC\<rparr>"

definition five_order :: "int cursor_order" where
  "five_order = \<lparr>ord_column = ''at'', ord_direction = DESC, ord_size = 2, ord_cursor = None\<rparr>"

lemma five_cursor_plan: "cursor_plan (\<lambda>_. None) [''id''] None five_order = five_plan"
  by (simp add: cursor_plan_def five_order_def five_plan_def)

lemma five_codec: "list_all (\<lambda>r. row_encode (cursorKeyOf five_plan r) \<noteq> []) five_rows"
  "distinct (map (\<lambda>r. row_encode (cursorKeyOf five_plan r)) five_rows)"
  by code_simp+

theorem cursor_pages_cover_witness:
  "\<exists>ps. cursor_walk 6 (\<lambda>c. findWithCursor row_decode row_encode (sorting_database Postgres plain_base five_rows)
      (wrap_identifier Postgres) (\<lambda>_. None) [''id''] None [] (five_option\<lparr>opt_cursor := c\<rparr>)) None = Some ps \<and>
    mset (concat (map page_data ps)) = mset five_rows"
proof -
  have opt: "resolveCursorOrder row_decode [''id''] (five_option\<lparr>opt_cursor := None\<rparr>) = Inr five_order"
    by (simp add: resolveCursorOrder_def five_option_def order_column_def normalizePageSize_def read_cursor_def five_order_def)
  have dec: "row_decode (row_encode (cursorKeyOf five_plan r)) = Some (cursorKeyOf five_plan r)" if "r \<in> set five_rows" for r
    unfolding row_decode_def
    by (rule map_of_is_SomeI) (use that five_codec(2) in \<open>auto simp: comp_def\<close>)
  have enc: "row_encode (cursorKeyOf five_plan r) \<noteq> []" if "r \<in> set five_rows" for r
    using that five_codec(1) by (simp add: list_all_iff)
  have "scoped Postgres plain_base [] five_rows = five_rows" by (simp add: scoped_def selects_def)
  then show ?thesis
    using cursor_pages_cover [where d = Postgres and base = plain_base and scope = "[]" and p2c = "\<lambda>_. None" and encode = row_encode,
        OF opt _ five_rows_keyed, unfolded five_cursor_plan five_rows_length, OF _ dec enc sorting_database_answers]
    by auto
qed

theorem cursor_without_key_restarts_witness:
  "findWithCursor (\<lambda>_. Some \<lparr>cur_order = None, cur_pk = No_Key, cur_sub = None\<rparr>) row_encode
      (sorting_database Mysql plain_base five_rows) (wrap_identifier Mysql) (\<lambda>_. None) [] None [] (five_option\<lparr>opt_cursor := Some ''c''\<rparr>) =
   findWithCursor (\<lambda>_. Some \<lparr>cur_order = None, cur_pk = No_Key, cur_sub = None\<rparr>) row_encode
      (sorting_database Mysql plain_base five_rows) (wrap_identifier Mysql) (\<lambda>_. None) [] None [] (five_option\<lparr>opt_cursor := None\<rparr>)"
  by (rule cursor_without_key_restarts) simp_all

end
