(* ===== verification/CursorCodec.thy ===== *)
theory CursorCodec
  imports Keyset
begin

section \<open>Cursors as text (src/core/CursorPagination.ts)\<close>

text \<open>
  Values as JavaScript holds them, and the JSON values \<^verbatim>\<open>JSON.stringify\<close> and \<^verbatim>\<open>JSON.parse\<close> stand between.
  Printing and parsing the JSON text, UTF-8 and Base64 are the platform's: a pair of functions \<open>print\<close>, \<open>parse\<close>.
\<close>
datatype js_val = J_Null | J_Bool bool | J_Num int | J_Str string | J_Big int | J_List "js_val list" | J_Obj "(string \<times> js_val) list"

datatype json = Json_Null | Json_Bool bool | Json_Num int | Json_Str string | Json_List "json list" | Json_Obj "(string \<times> json) list"

definition BIGINT_TAG :: string where
  "BIGINT_TAG = ''$bigint''"

text \<open>\<^verbatim>\<open>JSON.stringify(value, cursorReplacer)\<close>: the replacer sees every value on the way down.\<close>
fun replaced :: "js_val \<Rightarrow> json" where
  "replaced J_Null = Json_Null"
| "replaced (J_Bool b) = Json_Bool b"
| "replaced (J_Num n) = Json_Num n"
| "replaced (J_Str s) = Json_Str s"
| "replaced (J_Big n) = Json_Obj [(BIGINT_TAG, Json_Str (decimal_int n))]"
| "replaced (J_List vs) = Json_List (map replaced vs)"
| "replaced (J_Obj fs) = Json_Obj (map (\<lambda>(k, v). (k, replaced v)) fs)"

text \<open>\<^verbatim>\<open>BigInt(text)\<close> of a decimal numeral; \<open>None\<close> is the SyntaxError it throws (other numerals are left out).\<close>
fun read_digits :: "nat \<Rightarrow> string \<Rightarrow> nat option" where
  "read_digits acc [] = Some acc"
| "read_digits acc (c # cs) = (if 48 \<le> (of_char c :: nat) \<and> (of_char c :: nat) \<le> 57
     then read_digits (10 * acc + (of_char c - 48)) cs else None)"

definition big_int_of :: "string \<Rightarrow> int option" where
  "big_int_of s = (case s of
     [] \<Rightarrow> Some 0
   | c # cs \<Rightarrow> if c = CHR ''-'' then (if cs = [] then None else map_option (\<lambda>n. - int n) (read_digits 0 cs))
       else map_option int (read_digits 0 s))"

text \<open>\<^verbatim>\<open>cursorReviver\<close>, on a value whose parts have been revived.\<close>
definition revive_object :: "(string \<times> js_val) list \<Rightarrow> js_val option" where
  "revive_object fs = (case map_of fs BIGINT_TAG of
     Some (J_Str s) \<Rightarrow> map_option J_Big (big_int_of s)
   | _ \<Rightarrow> Some (J_Obj fs))"

text \<open>\<^verbatim>\<open>JSON.parse(text, cursorReviver)\<close>: the reviver sees every value on the way up; \<open>None\<close> is an exception.\<close>
fun revived :: "json \<Rightarrow> js_val option"
  and revived_list :: "json list \<Rightarrow> js_val list option"
  and revived_fields :: "(string \<times> json) list \<Rightarrow> (string \<times> js_val) list option" where
  "revived Json_Null = Some J_Null"
| "revived (Json_Bool b) = Some (J_Bool b)"
| "revived (Json_Num n) = Some (J_Num n)"
| "revived (Json_Str s) = Some (J_Str s)"
| "revived (Json_List vs) = map_option J_List (revived_list vs)"
| "revived (Json_Obj fs) = (case revived_fields fs of None \<Rightarrow> None | Some gs \<Rightarrow> revive_object gs)"
| "revived_list [] = Some []"
| "revived_list (v # vs) = (case revived v of None \<Rightarrow> None | Some x \<Rightarrow> map_option (Cons x) (revived_list vs))"
| "revived_fields [] = Some []"
| "revived_fields ((k, v) # fs) = (case revived v of None \<Rightarrow> None | Some x \<Rightarrow> map_option (Cons (k, x)) (revived_fields fs))"

text \<open>A part of a cursor as a value: \<open>None\<close> is null.\<close>
definition js_of :: "js_val option \<Rightarrow> js_val" where
  "js_of v = (case v of None \<Rightarrow> J_Null | Some x \<Rightarrow> x)"

definition js_part :: "js_val \<Rightarrow> js_val option" where
  "js_part v = (if v = J_Null then None else Some v)"

text \<open>A property that is \<^verbatim>\<open>undefined\<close> is left out of the JSON.\<close>
definition cursor_json :: "js_val cursor_key \<Rightarrow> json" where
  "cursor_json k = replaced (J_Obj ([(''v'', js_of (cur_order k))] @
     (case cur_pk k of No_Key \<Rightarrow> [] | One_Key v \<Rightarrow> [(''p'', js_of v)] | Many_Keys vs \<Rightarrow> [(''p'', J_List (map js_of vs))]) @
     (case cur_sub k of None \<Rightarrow> [] | Some d \<Rightarrow> [(''d'', d)])))"

definition encodeCursorKey :: "(json \<Rightarrow> string) \<Rightarrow> js_val cursor_key \<Rightarrow> string" where
  "encodeCursorKey print k = print (cursor_json k)"

definition key_of_json :: "js_val option \<Rightarrow> js_val pk_part" where
  "key_of_json v = (case v of None \<Rightarrow> No_Key | Some (J_List vs) \<Rightarrow> Many_Keys (map js_part vs) | Some x \<Rightarrow> One_Key (js_part x))"

text \<open>\<^verbatim>\<open>parsed.v ?? null\<close> on what is not an object reads \<^verbatim>\<open>undefined\<close>; null is rejected.\<close>
definition decodeCursorKey :: "(string \<Rightarrow> json option) \<Rightarrow> string \<Rightarrow> js_val cursor_key option" where
  "decodeCursorKey parse text = (case parse text of
     None \<Rightarrow> None
   | Some j \<Rightarrow> (case revived j of
       Some (J_Obj fs) \<Rightarrow> Some \<lparr>cur_order = (case map_of fs ''v'' of None \<Rightarrow> None | Some v \<Rightarrow> js_part v),
         cur_pk = key_of_json (map_of fs ''p''), cur_sub = (case map_of fs ''d'' of None \<Rightarrow> None | Some v \<Rightarrow> js_part v)\<rparr>
     | Some (J_List _) \<Rightarrow> Some \<lparr>cur_order = None, cur_pk = No_Key, cur_sub = None\<rparr>
     | _ \<Rightarrow> None))"

subsection \<open>Decoding is the inverse of encoding\<close>

text \<open>A value no object of which carries a string under the tag.\<close>
fun untagged :: "js_val \<Rightarrow> bool" where
  "untagged (J_List vs) = list_all (\<lambda>b. b) (map untagged vs)"
| "untagged (J_Obj fs) = ((\<forall>s. map_of fs BIGINT_TAG \<noteq> Some (J_Str s)) \<and> list_all (\<lambda>b. b) (map (\<lambda>(k, v). untagged v) fs))"
| "untagged v = True"

definition column_value :: "js_val \<Rightarrow> bool" where
  "column_value v \<longleftrightarrow> untagged v \<and> v \<noteq> J_Null \<and> (\<forall>vs. v \<noteq> J_List vs)"

definition cursor_values_ok :: "js_val cursor_key \<Rightarrow> bool" where
  "cursor_values_ok k \<longleftrightarrow> (\<forall>v\<in>set_option (cur_order k). untagged v \<and> v \<noteq> J_Null) \<and>
     (case cur_pk k of No_Key \<Rightarrow> True | One_Key v \<Rightarrow> (\<forall>x\<in>set_option v. column_value x)
      | Many_Keys vs \<Rightarrow> (\<forall>v\<in>set vs. \<forall>x\<in>set_option v. untagged x \<and> x \<noteq> J_Null)) \<and>
     (\<forall>v\<in>set_option (cur_sub k). untagged v \<and> v \<noteq> J_Null)"

lemma read_digits_append: "read_digits acc (xs @ ys) = (case read_digits acc xs of None \<Rightarrow> None | Some n \<Rightarrow> read_digits n ys)"
  by (induction acc xs rule: read_digits.induct) auto

lemma digit_code: "n < 10 \<Longrightarrow> (of_char (char_of (48 + n) :: char) :: nat) = 48 + n" for n :: nat
  by simp

lemma read_decimal: "read_digits 0 (decimal_digits n) = Some n \<and> decimal_digits n \<noteq> [] \<and> hd (decimal_digits n) \<noteq> CHR ''-''"
proof (induction n rule: decimal_digits.induct)
  case (1 n)
  show ?case
  proof (cases "n < 10")
    case True
    then have "char_of (48 + n) \<noteq> CHR ''-''" using digit_code [OF True] by force
    then show ?thesis using True digit_code [OF True] by (subst (1 2 3) decimal_digits.simps) simp
  next
    case False
    have "(of_char (char_of (48 + n mod 10) :: char) :: nat) = 48 + n mod 10" by (rule digit_code) simp
    then show ?thesis using False 1 [OF False] by (subst (1 2 3) decimal_digits.simps) (simp add: read_digits_append)
  qed
qed

lemma big_int_decimal: "big_int_of (decimal_int i) = Some i"
proof (cases "i < 0")
  case True
  then show ?thesis using read_decimal [of "nat (- i)"] by (simp add: big_int_of_def decimal_int_def)
next
  case False
  obtain c cs where "decimal_digits (nat i) = c # cs" using read_decimal [of "nat i"] by (cases "decimal_digits (nat i)") auto
  then show ?thesis using False read_decimal [of "nat i"] by (simp add: big_int_of_def decimal_int_def)
qed

lemma revived_replaced: "untagged v \<Longrightarrow> revived (replaced v) = Some v"
proof (induction v)
  case (J_Big n)
  then show ?case by (simp add: revive_object_def big_int_decimal)
next
  case (J_List vs)
  have "(\<And>v. v \<in> set vs \<Longrightarrow> revived (replaced v) = Some v) \<Longrightarrow> revived_list (map replaced vs) = Some vs" for vs
    by (induction vs) auto
  then show ?case using J_List by (simp add: list_all_iff)
next
  case (J_Obj fs)
  have "(\<And>k v. (k, v) \<in> set fs \<Longrightarrow> revived (replaced v) = Some v) \<Longrightarrow>
    revived_fields (map (\<lambda>(k, v). (k, replaced v)) fs) = Some fs" for fs
  proof (induction fs)
    case (Cons f fs)
    obtain k v where f: "f = (k, v)" by (cases f)
    have "revived (replaced v) = Some v" using Cons.prems [of k v] f by simp
    moreover have "revived_fields (map (\<lambda>(k, v). (k, replaced v)) fs) = Some fs"
      by (rule Cons.IH) (use Cons.prems in auto)
    ultimately show ?case using f by simp
  qed simp
  moreover have "revived (replaced v) = Some v" if "(k, v) \<in> set fs" for k v
    using J_Obj that by (fastforce simp: list_all_iff)
  moreover have "revive_object fs = Some (J_Obj fs)"
    using J_Obj.prems by (auto simp: revive_object_def split: option.split js_val.split)
  ultimately show ?case by simp
qed simp_all

lemma js_part_of: "(\<And>x. v = Some x \<Longrightarrow> x \<noteq> J_Null) \<Longrightarrow> js_part (js_of v) = v"
  by (auto simp: js_part_def js_of_def split: option.splits)

text \<open>Decoding an encoded cursor gives back its order value, every column of its key and its sub key, bigints
  and NULLs included, on any platform that reads the JSON text it writes.\<close>
theorem cursor_roundtrip:
  assumes "parse (print (cursor_json k)) = Some (cursor_json k)" "cursor_values_ok k"
  shows "decodeCursorKey parse (encodeCursorKey print k) = Some k"
proof -
  let ?fs = "[(''v'', js_of (cur_order k))] @
     (case cur_pk k of No_Key \<Rightarrow> [] | One_Key v \<Rightarrow> [(''p'', js_of v)] | Many_Keys vs \<Rightarrow> [(''p'', J_List (map js_of vs))]) @
     (case cur_sub k of None \<Rightarrow> [] | Some d \<Rightarrow> [(''d'', d)])"
  have u: "untagged (js_of v)" if "\<And>x. v = Some x \<Longrightarrow> untagged x" for v
    using that by (cases v) (simp_all add: js_of_def)
  have "untagged (J_Obj ?fs)"
    using assms(2) u by (auto simp: cursor_values_ok_def column_value_def BIGINT_TAG_def list_all_iff split: pk_part.splits option.splits)
  then have rev: "revived (replaced (J_Obj ?fs)) = Some (J_Obj ?fs)" by (rule revived_replaced)
  have order: "js_part (js_of (cur_order k)) = cur_order k"
    by (rule js_part_of) (use assms(2) in \<open>auto simp: cursor_values_ok_def\<close>)
  have pk: "key_of_json (map_of ?fs ''p'') = cur_pk k"
  proof (cases "cur_pk k")
    case (One_Key v)
    then have "js_part (js_of v) = v" "\<And>vs. js_of v \<noteq> J_List vs"
      using assms(2) by (cases v; auto simp: cursor_values_ok_def column_value_def js_part_def js_of_def)+
    then show ?thesis using One_Key by (cases "js_of v") (auto simp: key_of_json_def)
  next
    case (Many_Keys vs)
    have "map (js_part \<circ> js_of) vs = vs"
      by (rule map_idI) (use assms(2) Many_Keys in \<open>auto simp: cursor_values_ok_def js_part_of\<close>)
    then show ?thesis using Many_Keys by (simp add: key_of_json_def)
  qed (auto simp: key_of_json_def split: option.split)
  have sub: "(case map_of ?fs ''d'' of None \<Rightarrow> None | Some v \<Rightarrow> js_part v) = cur_sub k"
    using assms(2) by (auto simp: cursor_values_ok_def js_part_def split: pk_part.split option.split)
  show ?thesis
    unfolding decodeCursorKey_def encodeCursorKey_def assms(1) by (simp add: cursor_json_def rev [simplified] order pk [simplified] sub [simplified])
qed


definition big_key :: "js_val cursor_key" where
  "big_key = \<lparr>cur_order = None, cur_pk = Many_Keys [Some (J_Big (- 90071992547409930)), Some (J_Str ''a'')], cur_sub = Some (J_Str ''Dog'')\<rparr>"

theorem cursor_roundtrip_witness:
  "decodeCursorKey (\<lambda>t. if t = ''x'' then Some (cursor_json big_key) else None) (encodeCursorKey (\<lambda>_. ''x'') big_key) = Some big_key"
  by (rule cursor_roundtrip) (simp_all add: cursor_values_ok_def big_key_def)

end
