(* ===== verification/SchemaDiff.thy ===== *)
theory SchemaDiff
  imports Prelude TextUtils CursorCodec "HOL-Library.Multiset"
begin

section \<open>Schema differences (src/core/generators/SchemaDiff.ts)\<close>

text \<open>
  The comparison of declared columns with those of the database, and the pairing of dropped with added columns
  that turns them into renames. The spelling of a declared type is the column builder's (\<open>ddl\<close>), what the
  database reports comes from its catalogue: both are arguments.
\<close>

subsection \<open>Columns\<close>

record column_option =
  co_type :: string
  co_length :: "int option"
  co_precision :: "int option"
  co_scale :: "int option"
  co_nullable :: bool
  co_primary :: bool
  co_default :: "string option"
  co_renamedFrom :: "string option"
  co_enumValues :: "string list option"
  co_enumName :: "string option"

record db_column =
  column_name :: string
  data_type :: string
  is_nullable :: "string option"
  character_maximum_length :: "int option"
  numeric_precision :: "int option"
  numeric_scale :: "int option"

record column_change =
  cc_table :: string
  cc_schema :: "string option"
  cc_column :: string
  cc_columnType :: "string option"
  cc_comparisonType :: "string option"
  cc_renamedFrom :: "string option"
  cc_default :: "string option"
  cc_currentType :: "string option"
  cc_nullable :: "bool option"
  cc_currentNullable :: "bool option"
  cc_typeChanged :: bool
  cc_expectedLength :: "int option"
  cc_actualLength :: "int option"
  cc_expectedPrecision :: "int option"
  cc_actualPrecision :: "int option"
  cc_expectedScale :: "int option"
  cc_actualScale :: "int option"
  cc_enumValues :: "string list option"

datatype rename_reason = Hint | Similar_Name

record renamed_column =
  rn_table :: string
  rn_schema :: "string option"
  rn_old :: string
  rn_new :: string
  rn_type :: string
  rn_reason :: rename_reason

datatype candidate_reason = Ambiguous | Dissimilar_Names

record rename_candidate =
  ca_table :: string
  ca_schema :: "string option"
  ca_new :: string
  ca_columns :: "string list"
  ca_type :: string
  ca_reason :: candidate_reason

subsection \<open>Types\<close>

definition upper_char :: "char \<Rightarrow> char" where
  "upper_char c = (if is_lower c then char_of ((of_char c :: nat) - 32) else c)"

definition toUpperCase :: "string \<Rightarrow> string" where
  "toUpperCase s = map upper_char s"

text \<open>\<^verbatim>\<open>base.replace(/\[\s*\]\s*$/, "")\<close>\<close>
definition strip_brackets :: "string \<Rightarrow> string" where
  "strip_brackets s = (case dropWhile is_space (rev s) of
     [] \<Rightarrow> s
   | c # cs \<Rightarrow> if c = CHR '']'' then (case dropWhile is_space cs of
         [] \<Rightarrow> s
       | d # ds \<Rightarrow> if d = CHR ''['' then rev ds else s)
     else s)"

definition stripTypeArguments :: "string \<Rightarrow> string" where
  "stripTypeArguments t = toUpperCase (trim (strip_brackets (takeWhile (\<lambda>c. c \<noteq> CHR ''('') t)))"

definition sqliteStorageToken :: "string \<Rightarrow> string" where
  "sqliteStorageToken bare =
     (if bare \<in> {''TEXT'', ''VARCHAR'', ''CHAR'', ''CHARACTER'', ''LONGTEXT'', ''NVARCHAR'', ''CLOB'', ''UUID''} then ''TEXT''
      else if bare \<in> {''INTEGER'', ''INT'', ''TINYINT'', ''BOOLEAN''} then ''INTEGER''
      else if bare = ''BIGINT'' then ''BIGINT''
      else if bare \<in> {''REAL'', ''FLOAT'', ''DOUBLE'', ''NUMERIC'', ''DECIMAL''} then ''REAL''
      else bare)"

definition comparisonToken :: "column_option \<Rightarrow> string \<Rightarrow> dialect \<Rightarrow> string" where
  "comparisonToken opt ddl d =
     (if d = Postgres \<and> co_type opt = ''enum'' then ''USER-DEFINED''
      else if d = Postgres \<and> co_type opt = ''array'' then ''ARRAY''
      else (let bare = stripTypeArguments ddl in if d = Sqlite then sqliteStorageToken bare else bare))"

definition CHARACTER_TYPES :: "string list" where
  "CHARACTER_TYPES = [''CHAR'', ''VARCHAR'', ''CHARACTER'', ''CHARACTER VARYING'', ''NCHAR'', ''NVARCHAR'', ''BINARY'', ''VARBINARY'']"

definition is_letter :: "char \<Rightarrow> bool" where
  "is_letter c \<longleftrightarrow> is_lower c \<or> is_upper c"

text \<open>\<^verbatim>\<open>/^([A-Za-z][A-Za-z ]*)\((\d+)\)$/\<close>: the name and the number.\<close>
definition sized_type :: "string \<Rightarrow> (string \<times> nat) option" where
  "sized_type t = (let name = takeWhile (\<lambda>c. is_letter c \<or> c = CHR '' '') t; rest = dropWhile (\<lambda>c. is_letter c \<or> c = CHR '' '') t in
     if name = [] \<or> \<not> is_letter (hd name) then None
     else (case rest of
         [] \<Rightarrow> None
       | c # cs \<Rightarrow> (let digits = takeWhile is_digit cs in
           if c = CHR ''('' \<and> digits \<noteq> [] \<and> dropWhile is_digit cs = '')''
           then map_option (\<lambda>n. (name, n)) (read_digits 0 digits) else None)))"

definition declaredLength :: "column_option \<Rightarrow> string \<Rightarrow> int option" where
  "declaredLength opt ddl = (case co_length opt of
     Some n \<Rightarrow> if n > 0 then Some n else (case sized_type (trim ddl) of
         None \<Rightarrow> None
       | Some (name, k) \<Rightarrow> if toUpperCase (trim name) \<in> set CHARACTER_TYPES then Some (int k) else None)
   | None \<Rightarrow> (case sized_type (trim ddl) of
         None \<Rightarrow> None
       | Some (name, k) \<Rightarrow> if toUpperCase (trim name) \<in> set CHARACTER_TYPES then Some (int k) else None))"

definition sqlite_aliases :: "(string \<times> string list) list" where
  "sqlite_aliases = [(''TEXT'', [''TEXT'', ''VARCHAR'', ''LONGTEXT'', ''CHAR'', ''UUID'']),
     (''INTEGER'', [''INTEGER'', ''INT'', ''TINYINT'', ''BIGINT'', ''BOOLEAN'']),
     (''BIGINT'', [''BIGINT'', ''INTEGER'', ''INT'', ''INT8'']),
     (''REAL'', [''REAL'', ''FLOAT'', ''DOUBLE'']), (''BLOB'', [''BLOB'', ''BYTEA''])]"

definition type_aliases :: "(string \<times> string list) list" where
  "type_aliases = [(''INT'', [''INT'', ''INTEGER'', ''INT4'']), (''VARCHAR'', [''VARCHAR'', ''CHARACTER VARYING'']),
     (''CHARACTER VARYING'', [''VARCHAR'', ''CHARACTER VARYING'']), (''BOOLEAN'', [''BOOLEAN'', ''BOOL'']),
     (''TINYINT'', [''TINYINT'']), (''TEXT'', [''TEXT'', ''LONGTEXT'']), (''FLOAT'', [''FLOAT'', ''REAL'', ''FLOAT4'']),
     (''REAL'', [''REAL'', ''FLOAT'', ''FLOAT4'']), (''BIGINT'', [''BIGINT'', ''INT8'']),
     (''TIMESTAMP WITHOUT TIME ZONE'', [''TIMESTAMP WITHOUT TIME ZONE'', ''TIMESTAMP'']),
     (''TIMESTAMP'', [''TIMESTAMP'', ''TIMESTAMP WITHOUT TIME ZONE'']),
     (''TIMESTAMP WITH TIME ZONE'', [''TIMESTAMP WITH TIME ZONE'', ''TIMESTAMPTZ'']),
     (''TIMESTAMPTZ'', [''TIMESTAMPTZ'', ''TIMESTAMP WITH TIME ZONE'']),
     (''DECIMAL'', [''DECIMAL'', ''NUMERIC'']), (''NUMERIC'', [''NUMERIC'', ''DECIMAL'']),
     (''BLOB'', [''BLOB'', ''BYTEA'']), (''BYTEA'', [''BYTEA'', ''BLOB'']), (''DATETIME'', [''DATETIME'', ''TIMESTAMP'']),
     (''JSON'', [''JSON'']), (''JSONB'', [''JSONB'']), (''CHARACTER'', [''CHARACTER'', ''CHAR'', ''BPCHAR'']),
     (''CHAR'', [''CHAR'', ''CHARACTER'', ''BPCHAR'']), (''UUID'', [''UUID''])]"

definition typesMatch :: "string \<Rightarrow> string \<Rightarrow> dialect \<Rightarrow> bool" where
  "typesMatch expected actual d =
     (let e = trim (toUpperCase expected); a = trim (toUpperCase actual) in
      e = a \<or> (case map_of (if d = Sqlite then sqlite_aliases else type_aliases) e of None \<Rightarrow> False | Some names \<Rightarrow> a \<in> set names))"

definition lengthsMatch :: "int option \<Rightarrow> column_option option \<Rightarrow> db_column \<Rightarrow> bool" where
  "lengthsMatch expected opt db = (case opt of
     None \<Rightarrow> True
   | Some co \<Rightarrow>
       \<not> (case (expected, character_maximum_length db) of (Some n, Some m) \<Rightarrow> n > 0 \<and> n \<noteq> m | _ \<Rightarrow> False) \<and>
       \<not> (case (co_precision co, numeric_precision db) of (Some n, Some m) \<Rightarrow> n \<noteq> m | _ \<Rightarrow> False) \<and>
       \<not> (case (co_scale co, numeric_scale db) of (Some n, Some m) \<Rightarrow> n \<noteq> m | _ \<Rightarrow> False))"

text \<open>\<^verbatim>\<open>withDeclaredSize\<close>; a width of 0 is falsy.\<close>
definition withDeclaredSize :: "string \<Rightarrow> int option \<Rightarrow> int option \<Rightarrow> int option \<Rightarrow> string" where
  "withDeclaredSize t len prec scale =
     (if CHR ''('' \<in> set t then t
      else (case len of
          Some n \<Rightarrow> if n \<noteq> 0 \<and> toUpperCase (trim t) \<in> set CHARACTER_TYPES then t @ ''('' @ decimal_int n @ '')''
            else (case prec of
                Some p \<Rightarrow> if p \<noteq> 0 then t @ ''('' @ decimal_int p @ (case scale of None \<Rightarrow> [] | Some s \<Rightarrow> '','' @ decimal_int s) @ '')'' else t
              | None \<Rightarrow> t)
        | None \<Rightarrow> (case prec of
                Some p \<Rightarrow> if p \<noteq> 0 then t @ ''('' @ decimal_int p @ (case scale of None \<Rightarrow> [] | Some s \<Rightarrow> '','' @ decimal_int s) @ '')'' else t
              | None \<Rightarrow> t)))"

subsection \<open>Comparing the columns of a table\<close>

text \<open>What \<^verbatim>\<open>declareColumnType\<close> returns; the spelling of the type is the column builder's.\<close>
record declared_type =
  dt_ddl :: string
  dt_compare :: string
  dt_length :: "int option"
  dt_named :: bool

type_synonym column_builder = "string \<Rightarrow> string \<Rightarrow> column_option \<Rightarrow> string"

definition declareColumnType :: "column_option \<Rightarrow> string \<Rightarrow> string \<Rightarrow> dialect \<Rightarrow> column_builder \<Rightarrow> declared_type" where
  "declareColumnType opt table col d builder = (let ddl = builder table col opt in
     \<lparr>dt_ddl = ddl, dt_compare = comparisonToken opt ddl d, dt_length = declaredLength opt ddl,
      dt_named = (d = Postgres \<and> (co_type opt = ''array'' \<or> co_type opt = ''enum''))\<rparr>)"

text \<open>
  An entity as the comparison reads it: the name of its table, the schema it is pinned to, its columns and its
  computed columns. The list of entities holds every table owner once.
\<close>
record table_decl =
  t_name :: string
  t_schema :: "string option"
  t_columns :: "(string \<times> column_option) list"
  t_computed :: "string list"

record enum_change =
  ec_name :: string
  ec_add :: "string list"
  ec_remove :: "string list"
  ec_new :: bool

record schema_diff =
  addTables :: "string list"
  dropTables :: "string list"
  addColumns :: "column_change list"
  dropColumns :: "column_change list"
  alterColumns :: "column_change list"
  renamedColumns :: "renamed_column list"
  renameCandidates :: "rename_candidate list"
  enumChanges :: "enum_change list"
  addComputedColumns :: "(string \<times> string option \<times> string) list"

definition createSchemaDiffResult :: schema_diff where
  "createSchemaDiffResult = \<lparr>addTables = [], dropTables = [], addColumns = [], dropColumns = [], alterColumns = [],
     renamedColumns = [], renameCandidates = [], enumChanges = [], addComputedColumns = []\<rparr>"

text \<open>The schema of the changes: \<^verbatim>\<open>pinnedSchema ? { schema: pinnedSchema } : {}\<close>.\<close>
definition pin_of :: "dialect \<Rightarrow> table_decl \<Rightarrow> string option" where
  "pin_of d t = (if d = Postgres \<and> t_schema t \<noteq> Some [] then t_schema t else None)"

definition unless_named :: "declared_type \<Rightarrow> 'a option \<Rightarrow> 'a option" where
  "unless_named dt x = (if dt_named dt then None else x)"

definition column_added :: "string \<Rightarrow> string option \<Rightarrow> string \<Rightarrow> column_option \<Rightarrow> declared_type \<Rightarrow> column_change" where
  "column_added table pin name opt dt =
     \<lparr>cc_table = table, cc_schema = pin, cc_column = name, cc_columnType = Some (dt_ddl dt),
      cc_comparisonType = Some (dt_compare dt),
      cc_renamedFrom = (if co_renamedFrom opt = Some [] then None else co_renamedFrom opt),
      cc_default = co_default opt, cc_currentType = None, cc_nullable = Some (co_nullable opt),
      cc_currentNullable = None, cc_typeChanged = True,
      cc_expectedLength = unless_named dt (dt_length dt), cc_actualLength = None,
      cc_expectedPrecision = unless_named dt (co_precision opt), cc_actualPrecision = None,
      cc_expectedScale = unless_named dt (co_scale opt), cc_actualScale = None,
      cc_enumValues = co_enumValues opt\<rparr>"

definition db_nullable :: "db_column \<Rightarrow> bool" where
  "db_nullable c = (toUpperCase (case is_nullable c of None \<Rightarrow> [] | Some s \<Rightarrow> s) = ''YES'')"

definition column_altered :: "string \<Rightarrow> string option \<Rightarrow> string \<Rightarrow> column_option \<Rightarrow> declared_type \<Rightarrow> db_column \<Rightarrow> bool \<Rightarrow> column_change" where
  "column_altered table pin name opt dt c changed =
     \<lparr>cc_table = table, cc_schema = pin, cc_column = name, cc_columnType = Some (dt_ddl dt),
      cc_comparisonType = Some (dt_compare dt), cc_renamedFrom = None, cc_default = None,
      cc_currentType = Some (data_type c), cc_nullable = Some (co_nullable opt),
      cc_currentNullable = Some (db_nullable c), cc_typeChanged = changed,
      cc_expectedLength = unless_named dt (dt_length dt), cc_actualLength = character_maximum_length c,
      cc_expectedPrecision = unless_named dt (co_precision opt), cc_actualPrecision = numeric_precision c,
      cc_expectedScale = unless_named dt (co_scale opt), cc_actualScale = numeric_scale c,
      cc_enumValues = co_enumValues opt\<rparr>"

definition column_dropped :: "string \<Rightarrow> string option \<Rightarrow> db_column \<Rightarrow> column_change" where
  "column_dropped table pin c =
     \<lparr>cc_table = table, cc_schema = pin, cc_column = column_name c, cc_columnType = None,
      cc_comparisonType = None, cc_renamedFrom = None, cc_default = None, cc_currentType = Some (data_type c),
      cc_nullable = None, cc_currentNullable = None, cc_typeChanged = True,
      cc_expectedLength = None, cc_actualLength = character_maximum_length c,
      cc_expectedPrecision = None, cc_actualPrecision = numeric_precision c,
      cc_expectedScale = None, cc_actualScale = numeric_scale c, cc_enumValues = None\<rparr>"

text \<open>The three tests on a column that exists; \<open>Some True\<close> rewrites the type, \<open>Some False\<close> only the nullability.\<close>
definition column_drift :: "dialect \<Rightarrow> column_option \<Rightarrow> declared_type \<Rightarrow> db_column \<Rightarrow> bool option" where
  "column_drift d opt dt c =
     (if \<not> typesMatch (dt_compare dt) (toUpperCase (data_type c)) d then Some True
      else if \<not> lengthsMatch (unless_named dt (dt_length dt)) (Some opt) c then Some True
      else if co_nullable opt \<noteq> db_nullable c \<and> \<not> co_primary opt then Some False
      else None)"

definition diff_column :: "dialect \<Rightarrow> column_builder \<Rightarrow> string \<Rightarrow> string option \<Rightarrow> (string \<times> db_column) list \<Rightarrow>
    string \<times> column_option \<Rightarrow> schema_diff \<Rightarrow> schema_diff" where
  "diff_column d builder table pin dbMap col r = (case col of (name, opt) \<Rightarrow>
     (let dt = declareColumnType opt table name d builder in
      case jm_get dbMap (toLowerCase name) of
        None \<Rightarrow> r\<lparr>addColumns := addColumns r @ [column_added table pin name opt dt]\<rparr>
      | Some c \<Rightarrow> (case column_drift d opt dt c of
            None \<Rightarrow> r
          | Some changed \<Rightarrow> r\<lparr>alterColumns := alterColumns r @ [column_altered table pin name opt dt c changed]\<rparr>)))"

definition diff_computed :: "string \<Rightarrow> string option \<Rightarrow> (string \<times> db_column) list \<Rightarrow> string \<Rightarrow> schema_diff \<Rightarrow> schema_diff" where
  "diff_computed table pin dbMap name r =
     (if jm_get dbMap (toLowerCase name) = None
      then r\<lparr>addComputedColumns := addComputedColumns r @ [(table, pin, name)]\<rparr> else r)"

definition diff_dropped :: "string \<Rightarrow> string option \<Rightarrow> string list \<Rightarrow> string \<times> db_column \<Rightarrow> schema_diff \<Rightarrow> schema_diff" where
  "diff_dropped table pin owned kc r =
     (if fst kc \<in> set owned then r
      else r\<lparr>dropColumns := dropColumns r @ [column_dropped table pin (snd kc)]\<rparr>)"

definition dbColumnMap :: "db_column list \<Rightarrow> (string \<times> db_column) list" where
  "dbColumnMap cs = fold (\<lambda>c m. jm_set (toLowerCase (column_name c)) c m) cs []"

definition entityColumnNames :: "table_decl \<Rightarrow> string list" where
  "entityColumnNames t = js_set (map (\<lambda>c. toLowerCase (fst c)) (t_columns t) @ map toLowerCase (t_computed t))"

text \<open>One round of the loop over the entities, on the columns the catalogue reports.\<close>
definition diff_table :: "dialect \<Rightarrow> column_builder \<Rightarrow> (string \<Rightarrow> string option \<Rightarrow> db_column list) \<Rightarrow> string option \<Rightarrow>
    table_decl \<Rightarrow> schema_diff \<Rightarrow> schema_diff" where
  "diff_table d builder getDbColumns schema t r =
     (let table = t_name t; pin = pin_of d t;
          dbColumns = getDbColumns table (case if d = Postgres then t_schema t else None of Some s \<Rightarrow> Some s | None \<Rightarrow> schema) in
      if dbColumns = [] then r\<lparr>addTables := addTables r @ [table]\<rparr>
      else let dbMap = dbColumnMap dbColumns in
        fold (diff_dropped table pin (entityColumnNames t)) dbMap
          (fold (diff_computed table pin dbMap) (t_computed t)
            (fold (diff_column d builder table pin dbMap) (t_columns t) r)))"

subsection \<open>Enum types\<close>

definition enum_name_of :: "string \<Rightarrow> string \<Rightarrow> column_option \<Rightarrow> string" where
  "enum_name_of table col opt = (case co_enumName opt of Some n \<Rightarrow> n | None \<Rightarrow> table @ ''_'' @ col @ ''_enum'')"

definition compare_enum :: "string \<Rightarrow> string list \<Rightarrow> string list \<Rightarrow> enum_change list" where
  "compare_enum name values current =
     (if current = [] then [\<lparr>ec_name = name, ec_add = values, ec_remove = [], ec_new = True\<rparr>]
      else let added = filter (\<lambda>v. v \<notin> set current) values; removed = filter (\<lambda>v. v \<notin> set values) current in
        if added \<noteq> [] \<or> removed \<noteq> []
        then [\<lparr>ec_name = name, ec_add = added, ec_remove = removed, ec_new = False\<rparr>] else [])"

definition detect_enum :: "(string \<Rightarrow> string list) \<Rightarrow> string list \<Rightarrow> string \<Rightarrow> string \<times> column_option \<Rightarrow>
    string list \<times> enum_change list \<Rightarrow> string list \<times> enum_change list" where
  "detect_enum getValues newTables table col acc = (case (col, acc) of ((name, opt), (processed, changes)) \<Rightarrow>
     (case co_enumValues opt of
        None \<Rightarrow> acc
      | Some values \<Rightarrow>
          (let ename = enum_name_of table name opt in
           if co_type opt \<noteq> ''enum'' \<or> values = [] \<or> ename \<in> set processed then acc
           else (js_add ename processed,
                 changes @ (if table \<in> set newTables
                    then [\<lparr>ec_name = ename, ec_add = values, ec_remove = [], ec_new = True\<rparr>]
                    else compare_enum ename values (getValues ename))))))"

definition detectEnumChanges :: "(string \<Rightarrow> string list) \<Rightarrow> table_decl list \<Rightarrow> schema_diff \<Rightarrow> schema_diff" where
  "detectEnumChanges getValues ts r =
     r\<lparr>enumChanges := enumChanges r @
        snd (fold (\<lambda>t. fold (detect_enum getValues (addTables r) (t_name t)) (t_columns t)) ts ([], []))\<rparr>"

subsection \<open>Renames\<close>

text \<open>The positions matched so far, pairwise, with what has been reported for the table.\<close>
record rename_state =
  matchedAddIdx :: "nat list"
  matchedDropIdx :: "nat list"
  confirmed :: "renamed_column list"
  reported :: "rename_candidate list"

definition renameTypesCompatible :: "column_change \<Rightarrow> column_change \<Rightarrow> dialect \<Rightarrow> bool" where
  "renameTypesCompatible a c d =
     (let addType = (case cc_comparisonType a of Some t \<Rightarrow> toUpperCase t
           | None \<Rightarrow> stripTypeArguments (case cc_columnType a of None \<Rightarrow> [] | Some t \<Rightarrow> t));
          dropType = toUpperCase (case cc_currentType c of None \<Rightarrow> [] | Some t \<Rightarrow> t) in
      typesMatch addType dropType d \<and>
      (cc_actualLength c = None \<and> cc_actualPrecision c = None \<or>
       cc_expectedLength a = cc_actualLength c \<and> cc_expectedPrecision a = cc_actualPrecision c \<and>
       cc_expectedScale a = cc_actualScale c))"

definition renamed_entry :: "string \<Rightarrow> column_change \<Rightarrow> column_change \<Rightarrow> rename_reason \<Rightarrow> renamed_column" where
  "renamed_entry table a c reason =
     \<lparr>rn_table = table, rn_schema = (if cc_schema a = Some [] then None else cc_schema a),
      rn_old = cc_column c, rn_new = cc_column a,
      rn_type = (case cc_columnType a of Some t \<Rightarrow> t | None \<Rightarrow> (case cc_currentType c of Some t \<Rightarrow> t | None \<Rightarrow> [])),
      rn_reason = reason\<rparr>"

definition confirm :: "string \<Rightarrow> column_change list \<Rightarrow> column_change list \<Rightarrow> nat \<Rightarrow> nat \<Rightarrow> rename_reason \<Rightarrow> rename_state \<Rightarrow> rename_state" where
  "confirm table adds drops ai di reason st =
     st\<lparr>confirmed := confirmed st @ [renamed_entry table (adds ! ai) (drops ! di) reason],
        matchedAddIdx := matchedAddIdx st @ [ai], matchedDropIdx := matchedDropIdx st @ [di]\<rparr>"

definition hint_step :: "string \<Rightarrow> column_change list \<Rightarrow> column_change list \<Rightarrow> nat \<Rightarrow> rename_state \<Rightarrow> rename_state" where
  "hint_step table adds drops ai st = (case cc_renamedFrom (adds ! ai) of
     None \<Rightarrow> st
   | Some hint \<Rightarrow> if hint = [] then st
       else (case filter (\<lambda>i. i \<notin> set (matchedDropIdx st) \<and> toLowerCase (cc_column (drops ! i)) = toLowerCase hint) [0..<length drops] of
           [] \<Rightarrow> st
         | di # _ \<Rightarrow> confirm table adds drops ai di Hint st))"

definition fits_of :: "dialect \<Rightarrow> column_change list \<Rightarrow> column_change list \<Rightarrow> rename_state \<Rightarrow> nat \<Rightarrow> nat list" where
  "fits_of d adds drops st ai =
     filter (\<lambda>di. di \<notin> set (matchedDropIdx st) \<and> renameTypesCompatible (adds ! ai) (drops ! di) d) [0..<length drops]"

definition rivals_of :: "dialect \<Rightarrow> column_change list \<Rightarrow> column_change list \<Rightarrow> rename_state \<Rightarrow> nat \<Rightarrow> nat \<Rightarrow> nat list" where
  "rivals_of d adds drops st ai di =
     filter (\<lambda>k. k \<noteq> ai \<and> k \<notin> set (matchedAddIdx st) \<and> renameTypesCompatible (adds ! k) (drops ! di) d \<and>
        columnNamesLookRenamed (cc_column (adds ! k)) (cc_column (drops ! di))) [0..<length adds]"

text \<open>The stable sort of the candidates, most similar first.\<close>
definition ranked :: "column_change list \<Rightarrow> column_change list \<Rightarrow> nat \<Rightarrow> nat list \<Rightarrow> nat list" where
  "ranked adds drops ai ds = sort_key (\<lambda>di. - columnNameSimilarity (cc_column (adds ! ai)) (cc_column (drops ! di))) ds"

definition candidate_entry :: "string \<Rightarrow> column_change list \<Rightarrow> column_change list \<Rightarrow> nat \<Rightarrow> nat list \<Rightarrow> nat list \<Rightarrow> rename_candidate" where
  "candidate_entry table adds drops ai fits similar =
     \<lparr>ca_table = table, ca_schema = (if cc_schema (adds ! ai) = Some [] then None else cc_schema (adds ! ai)),
      ca_new = cc_column (adds ! ai),
      ca_columns = map (\<lambda>di. cc_column (drops ! di)) (ranked adds drops ai (if similar \<noteq> [] then similar else fits)),
      ca_type = (case cc_columnType (adds ! ai) of None \<Rightarrow> [] | Some t \<Rightarrow> t),
      ca_reason = (if 1 < length similar then Ambiguous else Dissimilar_Names)\<rparr>"

definition infer_step :: "string \<Rightarrow> dialect \<Rightarrow> column_change list \<Rightarrow> column_change list \<Rightarrow> nat \<Rightarrow> rename_state \<Rightarrow> rename_state" where
  "infer_step table d adds drops ai st =
     (if ai \<in> set (matchedAddIdx st) then st
      else (let fits = fits_of d adds drops st ai;
                similar = filter (\<lambda>di. columnNamesLookRenamed (cc_column (adds ! ai)) (cc_column (drops ! di))) fits in
        if fits = [] then st
        else if length similar = 1 \<and> rivals_of d adds drops st ai (hd similar) = []
        then confirm table adds drops ai (hd similar) Similar_Name st
        else st\<lparr>reported := reported st @ [candidate_entry table adds drops ai fits similar]\<rparr>))"

definition hint_pass :: "string \<Rightarrow> column_change list \<Rightarrow> column_change list \<Rightarrow> rename_state" where
  "hint_pass table adds drops = fold (hint_step table adds drops) [0..<length adds]
     \<lparr>matchedAddIdx = [], matchedDropIdx = [], confirmed = [], reported = []\<rparr>"

definition table_renames :: "string \<Rightarrow> dialect \<Rightarrow> column_change list \<Rightarrow> column_change list \<Rightarrow> rename_state" where
  "table_renames table d adds drops =
     fold (infer_step table d adds drops) [0..<length adds] (hint_pass table adds drops)"

text \<open>\<^verbatim>\<open>filter\<close> over the changes of all tables: those of this table are counted to find their position.\<close>
fun without_matched :: "string \<Rightarrow> nat list \<Rightarrow> nat \<Rightarrow> column_change list \<Rightarrow> column_change list" where
  "without_matched table ms i [] = []"
| "without_matched table ms i (c # cs) =
     (if cc_table c \<noteq> table then c # without_matched table ms i cs
      else if i \<in> set ms then without_matched table ms (Suc i) cs
      else c # without_matched table ms (Suc i) cs)"

definition rename_table :: "dialect \<Rightarrow> string \<Rightarrow> schema_diff \<Rightarrow> schema_diff" where
  "rename_table d table r =
     (let st = table_renames table d (filter (\<lambda>c. cc_table c = table) (addColumns r)) (filter (\<lambda>c. cc_table c = table) (dropColumns r)) in
      r\<lparr>renamedColumns := renamedColumns r @ confirmed st,
        renameCandidates := renameCandidates r @ reported st,
        addColumns := without_matched table (matchedAddIdx st) 0 (addColumns r),
        dropColumns := without_matched table (matchedDropIdx st) 0 (dropColumns r)\<rparr>)"

definition detectRenames :: "dialect \<Rightarrow> schema_diff \<Rightarrow> schema_diff" where
  "detectRenames d r = fold (rename_table d) (js_set (map cc_table (addColumns r) @ map cc_table (dropColumns r))) r"

text \<open>\<^verbatim>\<open>SchemaDiff.diff\<close>; \<open>dbTables\<close> is given when dropped tables are looked for.\<close>
definition schemaDiff :: "dialect \<Rightarrow> column_builder \<Rightarrow> (string \<Rightarrow> string option \<Rightarrow> db_column list) \<Rightarrow> (string \<Rightarrow> string list) \<Rightarrow>
    string option \<Rightarrow> string list option \<Rightarrow> table_decl list \<Rightarrow> schema_diff" where
  "schemaDiff d builder getDbColumns getValues schema dbTables ts =
     (let r1 = fold (diff_table d builder getDbColumns schema) ts createSchemaDiffResult;
          r2 = (if d = Postgres then detectEnumChanges getValues ts r1 else r1);
          r3 = detectRenames d r2 in
      case dbTables of
        None \<Rightarrow> r3
      | Some names \<Rightarrow> r3\<lparr>dropTables := dropTables r3 @
          filter (\<lambda>n. toLowerCase n \<notin> set (map (\<lambda>t. toLowerCase (t_name t)) ts)) names\<rparr>)"

subsection \<open>The renames of a table\<close>

text \<open>Added column \<open>ai\<close> could be dropped column \<open>di\<close>: compatible types and similar names.\<close>
definition suits :: "dialect \<Rightarrow> column_change list \<Rightarrow> column_change list \<Rightarrow> nat \<Rightarrow> nat \<Rightarrow> bool" where
  "suits d adds drops ai di \<longleftrightarrow> renameTypesCompatible (adds ! ai) (drops ! di) d \<and>
     columnNamesLookRenamed (cc_column (adds ! ai)) (cc_column (drops ! di))"

abbreviation rename_pairs :: "rename_state \<Rightarrow> (nat \<times> nat) list" where
  "rename_pairs st \<equiv> zip (matchedAddIdx st) (matchedDropIdx st)"

definition free_adds :: "column_change list \<Rightarrow> rename_state \<Rightarrow> nat set" where
  "free_adds adds st = {..<length adds} - set (matchedAddIdx st)"

definition free_drops :: "column_change list \<Rightarrow> rename_state \<Rightarrow> nat set" where
  "free_drops drops st = {..<length drops} - set (matchedDropIdx st)"

text \<open>Each is the only one the other suits, among the columns no hint has taken.\<close>
definition only_suitors :: "dialect \<Rightarrow> column_change list \<Rightarrow> column_change list \<Rightarrow> rename_state \<Rightarrow> nat \<Rightarrow> nat \<Rightarrow> bool" where
  "only_suitors d adds drops st ai di \<longleftrightarrow>
     {x \<in> free_drops drops st. suits d adds drops ai x} = {di} \<and>
     {x \<in> free_adds adds st. suits d adds drops x di} = {ai}"

definition rename_wf :: "column_change list \<Rightarrow> column_change list \<Rightarrow> rename_state \<Rightarrow> bool" where
  "rename_wf adds drops st \<longleftrightarrow> length (matchedAddIdx st) = length (matchedDropIdx st) \<and>
     distinct (matchedAddIdx st) \<and> distinct (matchedDropIdx st) \<and>
     set (matchedAddIdx st) \<subseteq> {..<length adds} \<and> set (matchedDropIdx st) \<subseteq> {..<length drops} \<and>
     map (\<lambda>r. (rn_new r, rn_old r)) (confirmed st) =
       map (\<lambda>(ai, di). (cc_column (adds ! ai), cc_column (drops ! di))) (rename_pairs st)"

lemma rename_wf_confirm:
  "rename_wf adds drops st \<Longrightarrow> ai < length adds \<Longrightarrow> di < length drops \<Longrightarrow> ai \<notin> set (matchedAddIdx st) \<Longrightarrow>
   di \<notin> set (matchedDropIdx st) \<Longrightarrow> rename_wf adds drops (confirm table adds drops ai di reason st)"
  by (auto simp: rename_wf_def confirm_def renamed_entry_def)

lemma confirm_simps [simp]:
  "matchedAddIdx (confirm table adds drops ai di reason st) = matchedAddIdx st @ [ai]"
  "matchedDropIdx (confirm table adds drops ai di reason st) = matchedDropIdx st @ [di]"
  "reported (confirm table adds drops ai di reason st) = reported st"
  "confirmed (confirm table adds drops ai di reason st) = confirmed st @ [renamed_entry table (adds ! ai) (drops ! di) reason]"
  by (simp_all add: confirm_def)

lemma hint_step_cases:
  obtains "hint_step table adds drops ai st = st"
  | di where "di < length drops" "di \<notin> set (matchedDropIdx st)" "hint_step table adds drops ai st = confirm table adds drops ai di Hint st"
proof (cases "cc_renamedFrom (adds ! ai)")
  case None
  then show ?thesis using that by (simp add: hint_step_def)
next
  case (Some hint)
  let ?l = "filter (\<lambda>i. i \<notin> set (matchedDropIdx st) \<and> toLowerCase (cc_column (drops ! i)) = toLowerCase hint) [0..<length drops]"
  show ?thesis
  proof (cases "hint = [] \<or> ?l = []")
    case True
    then show ?thesis using that Some by (auto simp: hint_step_def)
  next
    case False
    then obtain di l where l: "?l = di # l" by (cases ?l) auto
    then have "di \<in> set ?l" by simp
    moreover have "hint_step table adds drops ai st = confirm table adds drops ai di Hint st"
      using False Some l by (simp add: hint_step_def)
    ultimately show ?thesis using that(2)[of di] by simp
  qed
qed

lemma hint_fold:
  "n \<le> length adds \<Longrightarrow>
   rename_wf adds drops (fold (hint_step table adds drops) [0..<n] \<lparr>matchedAddIdx = [], matchedDropIdx = [], confirmed = [], reported = []\<rparr>) \<and>
   set (matchedAddIdx (fold (hint_step table adds drops) [0..<n] \<lparr>matchedAddIdx = [], matchedDropIdx = [], confirmed = [], reported = []\<rparr>)) \<subseteq> {..<n}"
proof (induction n)
  case 0
  show ?case by (simp add: rename_wf_def)
next
  case (Suc n)
  let ?st = "fold (hint_step table adds drops) [0..<n] \<lparr>matchedAddIdx = [], matchedDropIdx = [], confirmed = [], reported = []\<rparr>"
  from Suc have wf: "rename_wf adds drops ?st" and sub: "set (matchedAddIdx ?st) \<subseteq> {..<n}" by simp_all
  from sub have "n \<notin> set (matchedAddIdx ?st)" by auto
  with wf sub Suc.prems show ?case
    by (cases rule: hint_step_cases[of table adds drops n ?st]) (auto intro: rename_wf_confirm)
qed

lemma hint_pass_wf: "rename_wf adds drops (hint_pass table adds drops)"
  using hint_fold[of "length adds"] by (simp add: hint_pass_def)

text \<open>After the columns before \<open>n\<close>: the hinted pairs and the exclusive ones among them.\<close>
definition inferred :: "dialect \<Rightarrow> column_change list \<Rightarrow> column_change list \<Rightarrow> rename_state \<Rightarrow> nat \<Rightarrow> rename_state \<Rightarrow> bool" where
  "inferred d adds drops h n st \<longleftrightarrow> rename_wf adds drops st \<and>
     set (rename_pairs st) = set (rename_pairs h) \<union> {(ai, di). ai < n \<and> only_suitors d adds drops h ai di}"

lemma matched_pairs: "rename_wf adds drops st \<Longrightarrow> set (matchedAddIdx st) = fst ` set (rename_pairs st)"
  "rename_wf adds drops st \<Longrightarrow> set (matchedDropIdx st) = snd ` set (rename_pairs st)"
  by (simp_all add: rename_wf_def flip: set_map)

lemma inferred_adds:
  assumes "rename_wf adds drops h" "inferred d adds drops h n st"
  shows "set (matchedAddIdx st) = set (matchedAddIdx h) \<union> {ai. ai < n \<and> (\<exists>di. only_suitors d adds drops h ai di)}"
proof -
  have "fst ` {(ai, di). ai < n \<and> only_suitors d adds drops h ai di} = {ai. ai < n \<and> (\<exists>di. only_suitors d adds drops h ai di)}"
    by force
  moreover have "rename_wf adds drops st" and "set (rename_pairs st) = set (rename_pairs h) \<union> {(ai, di). ai < n \<and> only_suitors d adds drops h ai di}"
    using assms(2) by (simp_all add: inferred_def)
  ultimately show ?thesis using matched_pairs(1)[OF assms(1)] matched_pairs(1) by (simp add: image_Un)
qed

lemma inferred_drops:
  assumes "rename_wf adds drops h" "inferred d adds drops h n st"
  shows "set (matchedDropIdx st) = set (matchedDropIdx h) \<union> {di. \<exists>ai<n. only_suitors d adds drops h ai di}"
proof -
  have "snd ` {(ai, di). ai < n \<and> only_suitors d adds drops h ai di} = {di. \<exists>ai<n. only_suitors d adds drops h ai di}"
    by force
  moreover have "rename_wf adds drops st" and "set (rename_pairs st) = set (rename_pairs h) \<union> {(ai, di). ai < n \<and> only_suitors d adds drops h ai di}"
    using assms(2) by (simp_all add: inferred_def)
  ultimately show ?thesis using matched_pairs(2)[OF assms(1)] matched_pairs(2) by (simp add: image_Un)
qed

lemma only_suitorsD:
  "only_suitors d adds drops h ai di \<Longrightarrow> ai \<in> free_adds adds h \<and> di \<in> free_drops drops h \<and> suits d adds drops ai di"
  by (auto simp: only_suitors_def)

lemma only_suitors_unique:
  "only_suitors d adds drops h ai di \<Longrightarrow> x \<in> free_drops drops h \<Longrightarrow> suits d adds drops ai x \<Longrightarrow> x = di"
  "only_suitors d adds drops h ai di \<Longrightarrow> y \<in> free_adds adds h \<Longrightarrow> suits d adds drops y di \<Longrightarrow> y = ai"
  by (auto simp: only_suitors_def)

text \<open>Pairs confirmed before do not change who suits a column that is still free.\<close>
lemma similar_unchanged:
  assumes "rename_wf adds drops h" "inferred d adds drops h n st" "n \<in> free_adds adds h"
  shows "{di. di < length drops \<and> di \<notin> set (matchedDropIdx st) \<and> suits d adds drops n di} =
         {di \<in> free_drops drops h. suits d adds drops n di}"
  using assms only_suitors_unique(2)[of d adds drops h _ _ n]
  by (auto simp: inferred_drops[OF assms(1,2)] free_drops_def)

lemma rivals_unchanged:
  assumes "rename_wf adds drops h" "inferred d adds drops h n st" "di \<in> free_drops drops h" "di \<notin> set (matchedDropIdx st)"
  shows "{k. k < length adds \<and> k \<notin> set (matchedAddIdx st) \<and> suits d adds drops k di} =
         {k \<in> free_adds adds h. suits d adds drops k di}"
proof -
  have "k \<notin> set (matchedAddIdx st)" if k: "k \<in> free_adds adds h" "suits d adds drops k di" for k
  proof
    assume "k \<in> set (matchedAddIdx st)"
    with k obtain di' where di': "k < n" "only_suitors d adds drops h k di'"
      by (auto simp: inferred_adds[OF assms(1,2)] free_adds_def)
    with only_suitors_unique(1)[OF di'(2) assms(3) k(2)] assms(4) show False
      by (auto simp: inferred_drops[OF assms(1,2)])
  qed
  then show ?thesis by (auto simp: free_adds_def inferred_adds[OF assms(1,2)])
qed

lemma distinct_set_single: "distinct xs \<Longrightarrow> set xs = {x} \<longleftrightarrow> xs = [x]"
proof (cases xs)
  case (Cons y ys)
  assume "distinct xs"
  with Cons show ?thesis by (cases ys) auto
qed simp

lemma infer_step_inferred:
  assumes h: "rename_wf adds drops h" and inv: "inferred d adds drops h n st" and n: "n < length adds"
  shows "inferred d adds drops h (Suc n) (infer_step table d adds drops n st)"
proof -
  let ?s = "infer_step table d adds drops n st"
  have wf: "rename_wf adds drops st" using inv by (simp add: inferred_def)
  have same: "inferred d adds drops h (Suc n) st'" if "rename_pairs st' = rename_pairs st" "rename_wf adds drops st'"
    "\<nexists>di. only_suitors d adds drops h n di" for st'
    using inv that by (auto simp: inferred_def less_Suc_eq)
  show ?thesis
  proof (cases "n \<in> set (matchedAddIdx st)")
    case True
    then have "n \<notin> free_adds adds h" by (auto simp: inferred_adds[OF h inv] free_adds_def)
    then show ?thesis using True same[of st] wf by (auto simp: infer_step_def dest: only_suitorsD)
  next
    case False
    then have free: "n \<in> free_adds adds h" using n by (auto simp: inferred_adds[OF h inv] free_adds_def)
    let ?similar = "filter (\<lambda>di. columnNamesLookRenamed (cc_column (adds ! n)) (cc_column (drops ! di))) (fits_of d adds drops st n)"
    have sim: "set ?similar = {di \<in> free_drops drops h. suits d adds drops n di}"
      using similar_unchanged[OF h inv free] by (auto simp: fits_of_def suits_def)
    have dist: "distinct ?similar" by (simp add: fits_of_def)
    let ?c = "length ?similar = 1 \<and> rivals_of d adds drops st n (hd ?similar) = []"
    have conf: "?c \<longleftrightarrow> (\<exists>di. only_suitors d adds drops h n di)" and chd: "?c \<Longrightarrow> only_suitors d adds drops h n (hd ?similar)"
    proof -
      have riv: "set (rivals_of d adds drops st n di) = {k \<in> free_adds adds h. suits d adds drops k di} - {n}" if "di \<in> set ?similar" for di
      proof -
        from that have "di \<in> free_drops drops h" "di \<notin> set (matchedDropIdx st)" using sim by (auto simp: fits_of_def)
        from rivals_unchanged[OF h inv this] show ?thesis by (auto simp: rivals_of_def suits_def)
      qed
      have one: "length ?similar = 1 \<longleftrightarrow> set ?similar = {hd ?similar}"
        using distinct_set_single[OF dist] by (cases ?similar) auto
      show chd: "only_suitors d adds drops h n (hd ?similar)" if c: ?c
      proof -
        have s: "set ?similar = {hd ?similar}" using c one by blast
        then have "hd ?similar \<in> set ?similar" by simp
        from riv[OF this] c have "{k \<in> free_adds adds h. suits d adds drops k (hd ?similar)} \<subseteq> {n}" by simp
        moreover have "suits d adds drops n (hd ?similar)" using sim s by blast
        ultimately show ?thesis using s sim free by (auto simp: only_suitors_def)
      qed
      have "?c" if o: "only_suitors d adds drops h n di" for di
      proof -
        have s: "set ?similar = {di}" using o sim by (simp add: only_suitors_def)
        then have "?similar = [di]" using s distinct_set_single[OF dist] by blast
        then show ?thesis using riv[of di] s o by (simp add: only_suitors_def)
      qed
      then show "?c \<longleftrightarrow> (\<exists>di. only_suitors d adds drops h n di)" using chd by blast
    qed
    show ?thesis
    proof (cases ?c)
      case True
      then have c: "only_suitors d adds drops h n (hd ?similar)" and ne: "?similar \<noteq> []" using chd by auto
      have s: "?s = confirm table adds drops n (hd ?similar) Similar_Name st"
        using True False ne by (auto simp: infer_step_def Let_def)
      have "hd ?similar \<in> set ?similar" using ne by (rule hd_in_set)
      then have "hd ?similar < length drops" "hd ?similar \<notin> set (matchedDropIdx st)" by (auto simp: fits_of_def)
      then have "rename_wf adds drops ?s" using s wf n False by (simp add: rename_wf_confirm)
      moreover have "rename_pairs ?s = rename_pairs st @ [(n, hd ?similar)]" using s wf by (simp add: rename_wf_def)
      ultimately show ?thesis using inv c by (auto simp: inferred_def less_Suc_eq only_suitors_def)
    next
      case False
      have "rename_pairs ?s = rename_pairs st \<and> rename_wf adds drops ?s"
        using False \<open>n \<notin> set (matchedAddIdx st)\<close> wf by (auto simp: infer_step_def Let_def rename_wf_def)
      then show ?thesis using False conf by (intro same) auto
    qed
  qed
qed

lemma infer_fold:
  "n \<le> length adds \<Longrightarrow> rename_wf adds drops h \<Longrightarrow> inferred d adds drops h n (fold (infer_step table d adds drops) [0..<n] h)"
proof (induction n)
  case 0
  then show ?case by (simp add: inferred_def)
next
  case (Suc n)
  then show ?case by (simp add: infer_step_inferred)
qed

lemma table_renames_inferred: "inferred d adds drops (hint_pass table adds drops) (length adds) (table_renames table d adds drops)"
  unfolding table_renames_def by (intro infer_fold hint_pass_wf order_refl)

lemma table_renames_wf: "rename_wf adds drops (table_renames table d adds drops)"
  using table_renames_inferred[of d adds drops table] by (simp add: inferred_def)

text \<open>C24: The renames of a table are the hinted ones and, among the columns no hint took, exactly the pairs of a dropped
  and an added column of compatible type and similar name that have no other partner: the order of the columns does
  not matter. No column takes part in two renames.\<close>
theorem renames_have_no_rival:
  "let h = hint_pass table adds drops; st = table_renames table d adds drops in
     set (zip (matchedAddIdx st) (matchedDropIdx st)) =
       set (zip (matchedAddIdx h) (matchedDropIdx h)) \<union> {(ai, di). only_suitors d adds drops h ai di} \<and>
     distinct (matchedAddIdx st) \<and> distinct (matchedDropIdx st) \<and>
     map (\<lambda>r. (rn_new r, rn_old r)) (confirmed st) =
       map (\<lambda>(ai, di). (cc_column (adds ! ai), cc_column (drops ! di))) (zip (matchedAddIdx st) (matchedDropIdx st))"
proof -
  have "ai < length adds" if "only_suitors d adds drops (hint_pass table adds drops) ai di" for ai di
    using only_suitorsD[OF that] by (simp add: free_adds_def)
  then show ?thesis using table_renames_inferred[of d adds drops table]
    by (auto simp: inferred_def rename_wf_def Let_def)
qed

subsection \<open>No column is lost\<close>

lemma filter_nth_shift:
  "distinct ms \<Longrightarrow> i \<in> set ms \<Longrightarrow> mset (filter (\<lambda>k. i \<le> k) ms) = {#i#} + mset (filter (\<lambda>k. Suc i \<le> k) ms)"
proof (induction ms)
  case (Cons m ms)
  show ?case
  proof (cases "m = i")
    case True
    with Cons.prems have "filter (\<lambda>k. i \<le> k) ms = filter (\<lambda>k. Suc i \<le> k) ms"
      by (intro filter_cong) (auto simp: Suc_le_eq le_less)
    then show ?thesis using True by simp
  next
    case False
    then show ?thesis using Cons by auto
  qed
qed simp

lemma filter_skip: "i \<notin> set ms \<Longrightarrow> filter (\<lambda>k. i \<le> k) ms = filter (\<lambda>k. Suc i \<le> k) ms"
  by (rule filter_cong) (auto simp: Suc_le_eq le_less)

lemmas filter_shift_mset = filter_nth_shift[unfolded mset_filter] filter_skip[THEN arg_cong, where f = mset, unfolded mset_filter]

lemma without_matched_mset:
  "distinct ms \<Longrightarrow> set ms \<subseteq> {..<i + length (filter (\<lambda>c. cc_table c = table) cs)} \<Longrightarrow>
   mset cs = mset (without_matched table ms i cs) +
     image_mset (\<lambda>k. filter (\<lambda>c. cc_table c = table) cs ! (k - i)) (mset (filter (\<lambda>k. i \<le> k) ms))"
proof (induction table ms i cs rule: without_matched.induct)
  case (1 table ms i)
  then have "filter (\<lambda>k. i \<le> k) ms = []" by (auto simp: filter_empty_conv)
  then show ?case by simp
next
  case (2 table ms i c cs)
  have shift: "image_mset (\<lambda>k. (c # xs) ! (k - i)) (mset (filter (\<lambda>k. Suc i \<le> k) ms)) =
      image_mset (\<lambda>k. xs ! (k - Suc i)) (mset (filter (\<lambda>k. Suc i \<le> k) ms))" for xs
    by (rule image_mset_cong) (auto simp: nth_Cons' Suc_le_eq)
  show ?case
  proof (cases "cc_table c = table")
    case True
    then have "set ms \<subseteq> {..<Suc i + length (filter (\<lambda>c. cc_table c = table) cs)}" using 2(5) by simp
    then show ?thesis using 2 True shift
      by (cases "i \<in> set ms") (simp_all add: filter_shift_mset)
  next
    case False
    then show ?thesis using 2 by simp
  qed
qed

lemma without_matched_all:
  assumes "distinct ms" "set ms \<subseteq> {..<length (filter (\<lambda>c. cc_table c = table) cs)}"
  shows "mset (without_matched table ms 0 cs) + image_mset (\<lambda>k. filter (\<lambda>c. cc_table c = table) cs ! k) (mset ms) = mset cs"
  using without_matched_mset[of ms 0 table cs] assms by simp

definition column_id :: "column_change \<Rightarrow> string \<times> string" where
  "column_id c = (cc_table c, cc_column c)"

definition added_ids :: "schema_diff \<Rightarrow> (string \<times> string) multiset" where
  "added_ids r = mset (map column_id (addColumns r)) + mset (map (\<lambda>n. (rn_table n, rn_new n)) (renamedColumns r))"

definition dropped_ids :: "schema_diff \<Rightarrow> (string \<times> string) multiset" where
  "dropped_ids r = mset (map column_id (dropColumns r)) + mset (map (\<lambda>n. (rn_table n, rn_old n)) (renamedColumns r))"

lemma confirmed_ids:
  assumes "rename_wf adds drops st" "\<And>c. c \<in> set adds \<Longrightarrow> cc_table c = table" "\<And>c. c \<in> set drops \<Longrightarrow> cc_table c = table"
  shows "mset (map (\<lambda>n. (table, rn_new n)) (confirmed st)) = image_mset column_id (image_mset (\<lambda>k. adds ! k) (mset (matchedAddIdx st)))"
    and "mset (map (\<lambda>n. (table, rn_old n)) (confirmed st)) = image_mset column_id (image_mset (\<lambda>k. drops ! k) (mset (matchedDropIdx st)))"
proof -
  have len: "length (matchedAddIdx st) = length (matchedDropIdx st)" using assms(1) by (simp add: rename_wf_def)
  have pairs: "map (\<lambda>r. (rn_new r, rn_old r)) (confirmed st) =
      map (\<lambda>(ai, di). (cc_column (adds ! ai), cc_column (drops ! di))) (rename_pairs st)"
    using assms(1) by (simp add: rename_wf_def)
  have "map rn_new (confirmed st) = map (\<lambda>p. cc_column (adds ! fst p)) (rename_pairs st)"
    using arg_cong[OF pairs, of "map fst"] by (simp add: o_def case_prod_beta)
  also have "\<dots> = map (\<lambda>ai. cc_column (adds ! ai)) (map fst (rename_pairs st))" by (simp add: o_def)
  finally have new: "map rn_new (confirmed st) = map (\<lambda>ai. cc_column (adds ! ai)) (matchedAddIdx st)" using len by simp
  have "map rn_old (confirmed st) = map (\<lambda>p. cc_column (drops ! snd p)) (rename_pairs st)"
    using arg_cong[OF pairs, of "map snd"] by (simp add: o_def case_prod_beta)
  also have "\<dots> = map (\<lambda>di. cc_column (drops ! di)) (map snd (rename_pairs st))" by (simp add: o_def)
  finally have old: "map rn_old (confirmed st) = map (\<lambda>di. cc_column (drops ! di)) (matchedDropIdx st)" using len by simp
  have "map (\<lambda>n. (table, rn_new n)) (confirmed st) = map (Pair table) (map rn_new (confirmed st))" by (simp add: o_def)
  also have "\<dots> = map (\<lambda>k. column_id (adds ! k)) (matchedAddIdx st)"
    using assms(1,2) by (auto simp: new column_id_def rename_wf_def)
  finally show "mset (map (\<lambda>n. (table, rn_new n)) (confirmed st)) = image_mset column_id (image_mset (\<lambda>k. adds ! k) (mset (matchedAddIdx st)))"
    by (simp add: image_mset.compositionality o_def)
  have "map (\<lambda>n. (table, rn_old n)) (confirmed st) = map (Pair table) (map rn_old (confirmed st))" by (simp add: o_def)
  also have "\<dots> = map (\<lambda>k. column_id (drops ! k)) (matchedDropIdx st)"
    using assms(1,3) by (auto simp: old column_id_def rename_wf_def)
  finally show "mset (map (\<lambda>n. (table, rn_old n)) (confirmed st)) = image_mset column_id (image_mset (\<lambda>k. drops ! k) (mset (matchedDropIdx st)))"
    by (simp add: image_mset.compositionality o_def)
qed

text \<open>Every entry names the table it was found in.\<close>
lemma confirmed_infer: "\<forall>n \<in> set (confirmed st). rn_table n = table \<Longrightarrow>
    \<forall>n \<in> set (confirmed (infer_step table d adds drops ai st)). rn_table n = table"
  by (simp add: infer_step_def Let_def renamed_entry_def)

lemma confirmed_hint:
  assumes st: "\<forall>n \<in> set (confirmed st). rn_table n = table"
  shows "\<forall>n \<in> set (confirmed (hint_step table adds drops ai st)). rn_table n = table"
proof (cases rule: hint_step_cases[of table adds drops ai st])
  case 1
  show ?thesis unfolding 1 by (rule st)
next
  case (2 di)
  show ?thesis unfolding 2(3) using st by (simp add: renamed_entry_def)
qed

lemma table_renames_table: "n \<in> set (confirmed (table_renames table d adds drops)) \<Longrightarrow> rn_table n = table"
proof -
  have A: "\<forall>n \<in> set (confirmed (fold (infer_step table d adds drops) xs st)). rn_table n = table"
    if "\<forall>n \<in> set (confirmed st). rn_table n = table" for xs st
    by (rule fold_invariant[where Q = "\<lambda>_. True" and P = "\<lambda>st. \<forall>n \<in> set (confirmed st). rn_table n = table"])
       (rule TrueI, rule that, rule confirmed_infer, assumption)
  have B: "\<forall>n \<in> set (confirmed (fold (hint_step table adds drops) xs st)). rn_table n = table"
    if "\<forall>n \<in> set (confirmed st). rn_table n = table" for xs st
    by (rule fold_invariant[where Q = "\<lambda>_. True" and P = "\<lambda>st. \<forall>n \<in> set (confirmed st). rn_table n = table"])
       (rule TrueI, rule that, rule confirmed_hint, assumption)
  have "\<forall>n \<in> set (confirmed (table_renames table d adds drops)). rn_table n = table"
    unfolding table_renames_def hint_pass_def by (rule A, rule B) simp
  then show "n \<in> set (confirmed (table_renames table d adds drops)) \<Longrightarrow> rn_table n = table" by (rule bspec)
qed

lemma rename_table_ids: "added_ids (rename_table d table r) = added_ids r" "dropped_ids (rename_table d table r) = dropped_ids r"
proof -
  let ?adds = "filter (\<lambda>c. cc_table c = table) (addColumns r)" and ?drops = "filter (\<lambda>c. cc_table c = table) (dropColumns r)"
  let ?st = "table_renames table d ?adds ?drops"
  have wf: "rename_wf ?adds ?drops ?st" by (rule table_renames_wf)
  have m: "distinct (matchedAddIdx ?st)" "set (matchedAddIdx ?st) \<subseteq> {..<length ?adds}"
    "distinct (matchedDropIdx ?st)" "set (matchedDropIdx ?st) \<subseteq> {..<length ?drops}"
    using wf by (simp_all add: rename_wf_def)
  have new: "map (\<lambda>n. (rn_table n, rn_new n)) (confirmed ?st) = map (\<lambda>n. (table, rn_new n)) (confirmed ?st)"
    and old: "map (\<lambda>n. (rn_table n, rn_old n)) (confirmed ?st) = map (\<lambda>n. (table, rn_old n)) (confirmed ?st)"
    by (simp_all add: table_renames_table)
  have c: "mset (map (\<lambda>n. (rn_table n, rn_new n)) (confirmed ?st)) = image_mset column_id (image_mset (\<lambda>k. ?adds ! k) (mset (matchedAddIdx ?st)))"
    unfolding new by (rule confirmed_ids(1)[OF wf]) simp_all
  have c': "mset (map (\<lambda>n. (rn_table n, rn_old n)) (confirmed ?st)) = image_mset column_id (image_mset (\<lambda>k. ?drops ! k) (mset (matchedDropIdx ?st)))"
    unfolding old by (rule confirmed_ids(2)[OF wf]) simp_all
  show "added_ids (rename_table d table r) = added_ids r"
    using arg_cong[OF without_matched_all[OF m(1,2)], of "image_mset column_id"] c
    by (simp add: added_ids_def rename_table_def Let_def ac_simps del: image_mset.compositionality)
  show "dropped_ids (rename_table d table r) = dropped_ids r"
    using arg_cong[OF without_matched_all[OF m(3,4)], of "image_mset column_id"] c'
    by (simp add: dropped_ids_def rename_table_def Let_def ac_simps del: image_mset.compositionality)
qed

text \<open>C30: Pairing columns loses none and doubles none: every added column of the comparison is still added or is the new
  name of exactly one rename, and every dropped column is still dropped or is the old name of exactly one.\<close>
theorem renames_conserve_columns:
  "mset (map column_id (addColumns (detectRenames d r))) +
     mset (map (\<lambda>n. (rn_table n, rn_new n)) (renamedColumns (detectRenames d r))) =
   mset (map column_id (addColumns r)) + mset (map (\<lambda>n. (rn_table n, rn_new n)) (renamedColumns r)) \<and>
   mset (map column_id (dropColumns (detectRenames d r))) +
     mset (map (\<lambda>n. (rn_table n, rn_old n)) (renamedColumns (detectRenames d r))) =
   mset (map column_id (dropColumns r)) + mset (map (\<lambda>n. (rn_table n, rn_old n)) (renamedColumns r))"
proof -
  have "added_ids (fold (rename_table d) ts r) = added_ids r \<and> dropped_ids (fold (rename_table d) ts r) = dropped_ids r" for ts
    by (induction ts arbitrary: r) (simp_all add: rename_table_ids)
  then show ?thesis by (simp add: detectRenames_def added_ids_def dropped_ids_def)
qed

subsection \<open>When a table needs no change\<close>

lemma dbColumnMap_distinct:
  "distinct (map (\<lambda>c. toLowerCase (column_name c)) cs) \<Longrightarrow> dbColumnMap cs = map (\<lambda>c. (toLowerCase (column_name c), c)) cs"
proof -
  have "fold (\<lambda>c m. jm_set (toLowerCase (column_name c)) c m) cs m = m @ map (\<lambda>c. (toLowerCase (column_name c), c)) cs"
    if "distinct (map fst m @ map (\<lambda>c. toLowerCase (column_name c)) cs)" for m
    using that
  proof (induction cs arbitrary: m)
    case (Cons c cs)
    then have "jm_set (toLowerCase (column_name c)) c m = m @ [(toLowerCase (column_name c), c)]"
      by (intro jm_set_new) simp
    with Cons show ?case by simp
  qed simp
  from this[of "[]"] show "distinct (map (\<lambda>c. toLowerCase (column_name c)) cs) \<Longrightarrow> ?thesis" by (simp add: dbColumnMap_def)
qed

text \<open>Each pass over a list only appends: what it appends, per element.\<close>
definition column_adds where
  "column_adds d builder table pin dbMap col = (case col of (name, opt) \<Rightarrow>
     if jm_get dbMap (toLowerCase name) = None then [column_added table pin name opt (declareColumnType opt table name d builder)] else [])"

definition column_alters where
  "column_alters d builder table pin dbMap col = (case col of (name, opt) \<Rightarrow>
     (let dt = declareColumnType opt table name d builder in
      case jm_get dbMap (toLowerCase name) of
        None \<Rightarrow> []
      | Some c \<Rightarrow> (case column_drift d opt dt c of None \<Rightarrow> [] | Some ch \<Rightarrow> [column_altered table pin name opt dt c ch])))"

lemma fold_diff_column:
  "fold (diff_column d builder table pin dbMap) cols r =
   r\<lparr>addColumns := addColumns r @ concat (map (column_adds d builder table pin dbMap) cols),
     alterColumns := alterColumns r @ concat (map (column_alters d builder table pin dbMap) cols)\<rparr>"
  by (induction cols arbitrary: r)
     (auto simp: diff_column_def column_adds_def column_alters_def Let_def split: option.splits)

lemma fold_diff_computed:
  "fold (diff_computed table pin dbMap) ns r =
   r\<lparr>addComputedColumns := addComputedColumns r @
      map (\<lambda>n. (table, pin, n)) (filter (\<lambda>n. jm_get dbMap (toLowerCase n) = None) ns)\<rparr>"
  by (induction ns arbitrary: r) (simp_all add: diff_computed_def)

lemma fold_diff_dropped:
  "fold (diff_dropped table pin owned) kcs r =
   r\<lparr>dropColumns := dropColumns r @ map (\<lambda>kc. column_dropped table pin (snd kc)) (filter (\<lambda>kc. fst kc \<notin> set owned) kcs)\<rparr>"
  by (induction kcs arbitrary: r) (simp_all add: diff_dropped_def)

text \<open>Column \<open>c\<close> of the database is what \<open>name\<close> declares.\<close>
definition declared_by :: "dialect \<Rightarrow> column_builder \<Rightarrow> string \<Rightarrow> string \<Rightarrow> column_option \<Rightarrow> db_column \<Rightarrow> bool" where
  "declared_by d builder table name opt c \<longleftrightarrow> toLowerCase (column_name c) = toLowerCase name \<and>
     column_drift d opt (declareColumnType opt table name d builder) c = None"

lemma reported_column:
  assumes "distinct (map (\<lambda>c. toLowerCase (column_name c)) cs)"
  shows "jm_get (dbColumnMap cs) (toLowerCase name) = Some c \<longleftrightarrow> c \<in> set cs \<and> toLowerCase (column_name c) = toLowerCase name"
    and "jm_get (dbColumnMap cs) (toLowerCase name) = None \<longleftrightarrow> (\<forall>c \<in> set cs. toLowerCase (column_name c) \<noteq> toLowerCase name)"
  using assms by (auto simp: dbColumnMap_distinct map_of_eq_None_iff o_def image_iff)

lemma no_column_change:
  assumes "distinct (map (\<lambda>c. toLowerCase (column_name c)) cs)"
  shows "column_adds d builder table pin (dbColumnMap cs) (name, opt) = [] \<and>
         column_alters d builder table pin (dbColumnMap cs) (name, opt) = [] \<longleftrightarrow>
         (\<exists>c \<in> set cs. declared_by d builder table name opt c)"
proof (cases "jm_get (dbColumnMap cs) (toLowerCase name)")
  case None
  then show ?thesis using reported_column(2)[OF assms, of name]
    by (auto simp: column_adds_def declared_by_def)
next
  case (Some c)
  have same: "c' = c" if "c' \<in> set cs" "toLowerCase (column_name c') = toLowerCase name" for c'
    using reported_column(1)[OF assms, of name c'] that Some by simp
  have "c \<in> set cs" "toLowerCase (column_name c) = toLowerCase name"
    using reported_column(1)[OF assms, of name c] Some by simp_all
  then show ?thesis using Some
    by (auto simp: column_adds_def column_alters_def declared_by_def Let_def split: option.splits dest: same)
qed


definition plain_column :: "string \<Rightarrow> column_option" where
  "plain_column t = \<lparr>co_type = t, co_length = None, co_precision = None, co_scale = None, co_nullable = False, co_primary = False,
     co_default = None, co_renamedFrom = None, co_enumValues = None, co_enumName = None\<rparr>"

definition plain_db :: "string \<Rightarrow> string \<Rightarrow> db_column" where
  "plain_db n t = \<lparr>column_name = n, data_type = t, is_nullable = Some ''NO'', character_maximum_length = None,
     numeric_precision = None, numeric_scale = None\<rparr>"


subsection \<open>Where the comparison goes astray\<close>

text \<open>
  The pairing looks at the name of the table alone. With one table name in two schemas, a column dropped in the one and
  a column added in the other become a rename, in the schema of the added one.
\<close>
lemma rename_across_schemas:
  "let a = column_added ''t'' (Some ''a'') ''user_name'' (plain_column ''text'') (declareColumnType (plain_column ''text'') ''t'' ''user_name'' Postgres (\<lambda>_ _ _. ''TEXT''));
       c = column_dropped ''t'' (Some ''b'') (plain_db ''userName'' ''text'');
       r = detectRenames Postgres (createSchemaDiffResult\<lparr>addColumns := [a], dropColumns := [c]\<rparr>) in
   map (\<lambda>n. (rn_schema n, rn_old n, rn_new n)) (renamedColumns r) = [(Some ''a'', ''userName'', ''user_name'')] \<and>
   addColumns r = [] \<and> dropColumns r = []"
  by code_simp

text \<open>Types that the storage classes of SQLite fold but its affinity table does not list are reported as changed for ever.\<close>
lemma sqlite_folded_types_drift:
  "filter (\<lambda>t. \<not> typesMatch (sqliteStorageToken t) t Sqlite)
     [''TEXT'', ''VARCHAR'', ''CHAR'', ''CHARACTER'', ''LONGTEXT'', ''NVARCHAR'', ''CLOB'', ''UUID'', ''INTEGER'', ''INT'', ''TINYINT'',
      ''BOOLEAN'', ''BIGINT'', ''REAL'', ''FLOAT'', ''DOUBLE'', ''NUMERIC'', ''DECIMAL''] =
   [''CHARACTER'', ''NVARCHAR'', ''CLOB'', ''NUMERIC'', ''DECIMAL'']"
  by code_simp

text \<open>The catalogues of PostgreSQL and MySQL give integer columns a precision the entity never declares: not even a column that
  differs in letter case alone is taken for renamed.\<close>
lemma integer_rename_missed:
  "let a = column_added ''t'' None ''userId'' (plain_column ''int'') (declareColumnType (plain_column ''int'') ''t'' ''userId'' Postgres (\<lambda>_ _ _. ''INTEGER''));
       c = column_dropped ''t'' None ((plain_db ''user_id'' ''integer'')\<lparr>numeric_precision := Some 32, numeric_scale := Some 0\<rparr>);
       r = detectRenames Postgres (createSchemaDiffResult\<lparr>addColumns := [a], dropColumns := [c]\<rparr>) in
   renamedColumns r = [] \<and> renameCandidates r = [] \<and> addColumns r = [a] \<and> dropColumns r = [c]"
  by code_simp

text \<open>A rival makes the report say the names are dissimilar.\<close>
lemma rival_reported_dissimilar:
  "let add = (\<lambda>n. column_added ''t'' None n (plain_column ''text'') (declareColumnType (plain_column ''text'') ''t'' n Postgres (\<lambda>_ _ _. ''TEXT'')));
       c = column_dropped ''t'' None (plain_db ''name'' ''text'');
       r = detectRenames Postgres (createSchemaDiffResult\<lparr>addColumns := [add ''fullName'', add ''lastName''], dropColumns := [c]\<rparr>) in
   map ca_reason (renameCandidates r) = [Dissimilar_Names, Dissimilar_Names] \<and>
   columnNamesLookRenamed ''fullName'' ''name'' \<and> columnNamesLookRenamed ''lastName'' ''name''"
  by code_simp

end
