(* ===== verification/UnitValues.thy ===== *)
theory UnitValues
  imports Prelude
begin

section \<open>Column values, snapshots and differences (src/core/plugin/buffer/BufferStrategy.ts)\<close>

text \<open>
  The write buffer compares an instance with the snapshot taken when it was tracked. A snapshot is a deep
  copy (\<^verbatim>\<open>structuredClone\<close>), so the objects of the two never share identity: \<^verbatim>\<open>===\<close> can hold between them for
  primitive values only. Collections are compared by the identity of their items.
\<close>

subsection \<open>Values\<close>

text \<open>\<open>U_Merge_Dirty\<close> is the symbol \<^verbatim>\<open>MERGE_DIRTY_SENTINEL\<close>.\<close>
datatype uval = U_Undef | U_Null | U_Bool bool | U_Num int | U_NaN | U_Str string | U_Big int
  | U_Date int | U_List "uval list" | U_Obj "(string \<times> uval) list" | U_Merge_Dirty

definition nullish :: "uval \<Rightarrow> bool" where
  "nullish v \<longleftrightarrow> v = U_Undef \<or> v = U_Null"

text \<open>\<^verbatim>\<open>===\<close> on values of which the objects are distinct.\<close>
fun strictly_equal :: "uval \<Rightarrow> uval \<Rightarrow> bool" where
  "strictly_equal (U_List xs) b = False"
| "strictly_equal (U_Obj fs) b = False"
| "strictly_equal (U_Date t) b = False"
| "strictly_equal U_NaN b = False"
| "strictly_equal a b = (a = b)"

fun js_typeof :: "uval \<Rightarrow> string" where
  "js_typeof U_Undef = ''undefined''"
| "js_typeof (U_Bool b) = ''boolean''"
| "js_typeof (U_Num n) = ''number''"
| "js_typeof U_NaN = ''number''"
| "js_typeof (U_Str s) = ''string''"
| "js_typeof (U_Big n) = ''bigint''"
| "js_typeof U_Merge_Dirty = ''symbol''"
| "js_typeof v = ''object''"

definition field_of :: "(string \<times> uval) list \<Rightarrow> string \<Rightarrow> uval" where
  "field_of fs k = (case map_of fs k of None \<Rightarrow> U_Undef | Some v \<Rightarrow> v)"

text \<open>\<^verbatim>\<open>Object.keys\<close> with the values; a date has none.\<close>
fun own_fields :: "uval \<Rightarrow> (string \<times> uval) list" where
  "own_fields (U_Obj fs) = fs"
| "own_fields v = []"

function (sequential) deepEquals :: "uval \<Rightarrow> uval \<Rightarrow> bool"
  and every_item :: "uval list \<Rightarrow> uval list \<Rightarrow> bool"
  and every_key :: "(string \<times> uval) list \<Rightarrow> (string \<times> uval) list \<Rightarrow> bool" where
  "deepEquals a b =
     (if strictly_equal a b then True
      else if nullish a \<or> nullish b then False
      else if js_typeof a \<noteq> js_typeof b then False
      else if js_typeof a \<noteq> ''object'' then False
      else (case (a, b) of
          (U_Date s, U_Date t) \<Rightarrow> s = t
        | (U_List xs, U_List ys) \<Rightarrow> length xs = length ys \<and> every_item xs ys
        | (U_List xs, _) \<Rightarrow> False
        | (_, U_List ys) \<Rightarrow> False
        | (U_Obj fs, _) \<Rightarrow> length fs = length (own_fields b) \<and> every_key fs (own_fields b)
        | (_, _) \<Rightarrow> own_fields b = []))"
| "every_item [] ys = True"
| "every_item (x # xs) ys = (deepEquals x (case ys of [] \<Rightarrow> U_Undef | y # _ \<Rightarrow> y) \<and> every_item xs (tl ys))"
| "every_key [] gs = True"
| "every_key ((k, v) # fs) gs = (deepEquals v (field_of gs k) \<and> every_key fs gs)"
  by pat_completeness auto
termination
  by (relation "measure (\<lambda>x. case x of Inl (a, b) \<Rightarrow> 2 * size a
        | Inr (Inl (xs, ys)) \<Rightarrow> 2 * size_list size xs + 1
        | Inr (Inr (fs, gs)) \<Rightarrow> 2 * size_list (size_prod (\<lambda>_. 0) size) fs + 1)") auto

declare deepEquals.simps [simp del]


text \<open>\<^verbatim>\<open>cloneValue\<close>: the copy has the same value; what it does not share is identity, which values do not have.\<close>
definition cloneValue :: "uval \<Rightarrow> uval" where
  "cloneValue v = v"

subsection \<open>Snapshots\<close>

text \<open>An instance or a snapshot, as far as it is read here: its fields.\<close>
type_synonym fields = "(string \<times> uval) list"

definition snapshot :: "fields \<Rightarrow> string list \<Rightarrow> fields" where
  "snapshot inst columnNames = fold (\<lambda>col snap. jm_set col (cloneValue (field_of inst col)) snap) columnNames []"

definition diff_column_value :: "fields \<Rightarrow> fields \<Rightarrow> string list \<Rightarrow> string \<Rightarrow> fields \<Rightarrow> fields" where
  "diff_column_value inst snap pkColumns col changes =
     (if col \<in> set pkColumns then changes
      else if \<not> deepEquals (field_of inst col) (field_of snap col) then jm_set col (field_of inst col) changes
      else changes)"

text \<open>\<^verbatim>\<open>null\<close> for no change.\<close>
definition snapshot_diff :: "fields \<Rightarrow> fields \<Rightarrow> string list \<Rightarrow> string list \<Rightarrow> fields option" where
  "snapshot_diff inst snap columnNames pkColumns =
     (let changes = fold (diff_column_value inst snap pkColumns) columnNames [] in
      if changes = [] then None else Some changes)"

subsection \<open>Collections (src/core/plugin/buffer/CollectionTracker.ts)\<close>

text \<open>
  What a relation property holds: nothing (or something that is not an array), an accessor that has not loaded yet, one
  instance, or an array of instances.
\<close>
datatype 'i relation_value = No_Value | Lazy_Accessor | One 'i | Many "'i list"

text \<open>\<^verbatim>\<open>readLoadedRelationValue\<close>: an accessor is never fired.\<close>
fun loaded_items :: "'i relation_value \<Rightarrow> 'i list" where
  "loaded_items (One i) = [i]"
| "loaded_items (Many is) = is"
| "loaded_items v = []"

record 'i collection_diff =
  added_items :: "'i list"
  removed_items :: "'i list"

definition diffCollection :: "'i relation_value \<Rightarrow> 'i list \<Rightarrow> 'i collection_diff option" where
  "diffCollection current originalItems = (case current of
     Lazy_Accessor \<Rightarrow> None
   | Many items \<Rightarrow>
       (let added = filter (\<lambda>i. i \<notin> set originalItems) items;
            removed = filter (\<lambda>i. i \<notin> set items) originalItems in
        if added = [] \<and> removed = [] then None else Some \<lparr>added_items = added, removed_items = removed\<rparr>)
   | _ \<Rightarrow> if originalItems = [] then None else Some \<lparr>added_items = [], removed_items = originalItems\<rparr>)"

subsection \<open>Deep equality is equality of JSON values\<close>

text \<open>A value up to the order of the keys of its objects.\<close>
datatype canonical = Scalar uval | Items "canonical list" | Fields "string \<Rightarrow> canonical option"

fun canon :: "uval \<Rightarrow> canonical" and canon_list :: "uval list \<Rightarrow> canonical list"
  and canon_fields :: "(string \<times> uval) list \<Rightarrow> string \<Rightarrow> canonical option" where
  "canon (U_List xs) = Items (canon_list xs)"
| "canon (U_Obj fs) = Fields (canon_fields fs)"
| "canon v = Scalar v"
| "canon_list [] = []"
| "canon_list (x # xs) = canon x # canon_list xs"
| "canon_fields [] = (\<lambda>_. None)"
| "canon_fields ((k, v) # fs) = (canon_fields fs)(k \<mapsto> canon v)"

text \<open>A JSON value (of a JSON or array column, or a plain scalar): no date, \<open>NaN\<close> or symbol, no undefined part.\<close>
fun json_value :: "uval \<Rightarrow> bool" and json_list :: "uval list \<Rightarrow> bool" and json_fields :: "(string \<times> uval) list \<Rightarrow> bool" where
  "json_value (U_List xs) = json_list xs"
| "json_value (U_Obj fs) = (distinct (map fst fs) \<and> json_fields fs)"
| "json_value v = (v \<notin> {U_Undef, U_NaN, U_Merge_Dirty} \<and> (\<forall>t. v \<noteq> U_Date t))"
| "json_list [] = True"
| "json_list (x # xs) = (json_value x \<and> json_list xs)"
| "json_fields [] = True"
| "json_fields ((k, v) # fs) = (json_value v \<and> json_fields fs)"

lemma canon_fields_map: "canon_fields fs k = map_option canon (map_of fs k)"
  by (induction fs) auto

lemma canon_list_map: "canon_list xs = map canon xs"
  by (induction xs) auto

lemma json_fields_get: "json_fields fs \<Longrightarrow> map_of fs k = Some v \<Longrightarrow> json_value v"
  by (induction fs) (auto split: if_splits)

lemma json_fields_all: "json_fields fs \<longleftrightarrow> (\<forall>(k, v) \<in> set fs. json_value v)"
  by (induction fs) auto

lemma fields_eq_iff:
  assumes "distinct (map fst fs)" "distinct (map fst gs)" "length fs = length gs"
  shows "canon_fields fs = canon_fields gs \<longleftrightarrow> (\<forall>(k, v) \<in> set fs. \<exists>w. map_of gs k = Some w \<and> canon v = canon w)"
proof
  assume eq: "canon_fields fs = canon_fields gs"
  show "\<forall>(k, v) \<in> set fs. \<exists>w. map_of gs k = Some w \<and> canon v = canon w"
  proof (clarify)
    fix k v assume "(k, v) \<in> set fs"
    then have "map_of fs k = Some v" using assms(1) by simp
    then have "canon_fields gs k = Some (canon v)" using eq by (metis canon_fields_map option.simps(9))
    then show "\<exists>w. map_of gs k = Some w \<and> canon v = canon w" by (auto simp: canon_fields_map)
  qed
next
  assume R: "\<forall>(k, v) \<in> set fs. \<exists>w. map_of gs k = Some w \<and> canon v = canon w"
  have sub: "fst ` set fs \<subseteq> fst ` set gs"
    using R by (force dest: map_of_SomeD)
  have "card (fst ` set fs) = card (fst ` set gs)"
    using assms by (simp add: distinct_card flip: set_map)
  then have keys: "fst ` set fs = fst ` set gs" using sub by (simp add: card_subset_eq)
  show "canon_fields fs = canon_fields gs"
  proof
    fix k
    show "canon_fields fs k = canon_fields gs k"
    proof (cases "map_of fs k")
      case None
      then have "map_of gs k = None" using keys by (simp add: map_of_eq_None_iff)
      with None show ?thesis by (simp add: canon_fields_map)
    next
      case (Some v)
      then have "(k, v) \<in> set fs" by (rule map_of_SomeD)
      with R obtain w where "map_of gs k = Some w" "canon v = canon w" by auto
      with Some show ?thesis by (simp add: canon_fields_map)
    qed
  qed
qed

lemma deepEquals_undef: "json_value v \<Longrightarrow> \<not> deepEquals v U_Undef"
  by (cases v) (simp_all add: deepEquals.simps nullish_def)

lemma deepEquals_scalar:
  assumes "json_value a" "json_value b" "\<And>xs. a \<noteq> U_List xs" "\<And>fs. a \<noteq> U_Obj fs"
  shows "deepEquals a b \<longleftrightarrow> canon a = canon b"
proof (cases a)
  case U_Null
  then show ?thesis using assms by (cases b) (simp_all add: deepEquals.simps nullish_def)
next
  case (U_Bool x)
  then show ?thesis using assms by (cases b) (simp_all add: deepEquals.simps nullish_def)
next
  case (U_Num x)
  then show ?thesis using assms by (cases b) (simp_all add: deepEquals.simps nullish_def)
next
  case (U_Str x)
  then show ?thesis using assms by (cases b) (simp_all add: deepEquals.simps nullish_def)
next
  case (U_Big x)
  then show ?thesis using assms by (cases b) (simp_all add: deepEquals.simps nullish_def)
qed (use assms in simp_all)

lemma deepEquals_lists: "deepEquals (U_List xs) (U_List ys) \<longleftrightarrow> length xs = length ys \<and> every_item xs ys"
  by (simp add: deepEquals.simps nullish_def)

lemma deepEquals_objects: "deepEquals (U_Obj fs) (U_Obj gs) \<longleftrightarrow> length fs = length gs \<and> every_key fs gs"
  by (simp add: deepEquals.simps nullish_def)

lemma deepEquals_list_mixed:
  "json_value b \<Longrightarrow> (\<nexists>ys. b = U_List ys) \<Longrightarrow> \<not> deepEquals (U_List xs) b \<and> canon (U_List xs) \<noteq> canon b"
  by (cases b) (simp_all add: deepEquals.simps[of "U_List xs"] nullish_def)

lemma deepEquals_object_mixed:
  "json_value b \<Longrightarrow> (\<nexists>gs. b = U_Obj gs) \<Longrightarrow> \<not> deepEquals (U_Obj fs) b \<and> canon (U_Obj fs) \<noteq> canon b"
  by (cases b) (simp_all add: deepEquals.simps[of "U_Obj fs"] nullish_def)

lemma canon_fields_length:
  assumes "distinct (map fst fs)" "distinct (map fst gs)" "canon_fields fs = canon_fields gs"
  shows "length fs = length gs"
proof -
  have "map_of fs k = None \<longleftrightarrow> map_of gs k = None" for k
    using assms(3) by (metis canon_fields_map map_option_is_None)
  then have "fst ` set fs = fst ` set gs" by (simp add: map_of_eq_None_iff set_eq_iff)
  then show ?thesis using assms(1,2) by (metis distinct_card length_map set_map)
qed

lemma json_list_all: "json_list xs \<longleftrightarrow> (\<forall>x \<in> set xs. json_value x)"
  by (induction xs) auto

lemma every_item_iff: "length xs = length ys \<Longrightarrow> every_item xs ys \<longleftrightarrow> list_all2 deepEquals xs ys"
  by (induction xs ys rule: list_induct2) auto

lemma every_key_iff: "every_key fs gs \<longleftrightarrow> (\<forall>(k, v) \<in> set fs. deepEquals v (field_of gs k))"
  by (induction fs) auto

lemma deepEquals_json:
  "json_value a \<Longrightarrow> json_value b \<Longrightarrow> deepEquals a b \<longleftrightarrow> canon a = canon b"
proof (induction a arbitrary: b)
  case (U_List xs)
  show ?case
  proof (cases "\<exists>ys. b = U_List ys")
    case True
    then obtain ys where b: "b = U_List ys" by auto
    have item: "deepEquals x y \<longleftrightarrow> canon x = canon y" if "x \<in> set xs" "y \<in> set ys" for x y
      using U_List that b by (simp add: json_list_all)
    have "list_all2 deepEquals xs ys \<longleftrightarrow> list_all2 (\<lambda>x y. canon x = canon y) xs ys"
      by (rule list.rel_cong[OF refl refl]) (rule item)
    also have "\<dots> \<longleftrightarrow> map canon xs = map canon ys"
      by (simp add: list.rel_eq[symmetric] list_all2_map1 list_all2_map2)
    finally have "list_all2 deepEquals xs ys \<longleftrightarrow> map canon xs = map canon ys" .
    then show ?thesis using b every_item_iff[of xs ys] list_all2_lengthD[of deepEquals xs ys]
      by (auto simp: deepEquals_lists canon_list_map)
  next
    case False
    then show ?thesis using deepEquals_list_mixed[of b xs] U_List.prems by blast
  qed
next
  case (U_Obj fs)
  show ?case
  proof (cases "\<exists>gs. b = U_Obj gs")
    case True
    then obtain gs where b: "b = U_Obj gs" by auto
    have d: "distinct (map fst fs)" "distinct (map fst gs)" and j: "json_fields fs" "json_fields gs"
      using U_Obj.prems b by simp_all
    have "deepEquals v (field_of gs k) \<longleftrightarrow> (\<exists>w. map_of gs k = Some w \<and> canon v = canon w)" if "(k, v) \<in> set fs" for k v
    proof (cases "map_of gs k")
      case None
      have "json_value v" using j(1) that by (auto simp: json_fields_all)
      with None show ?thesis using deepEquals_undef by (simp add: field_of_def)
    next
      case (Some w)
      have "json_value v" "json_value w" using j that Some by (auto simp: json_fields_all dest: map_of_SomeD)
      with Some show ?thesis using U_Obj.IH[OF that, of v w] by (simp add: field_of_def)
    qed
    then have "every_key fs gs \<longleftrightarrow> (\<forall>(k, v) \<in> set fs. \<exists>w. map_of gs k = Some w \<and> canon v = canon w)"
      unfolding every_key_iff by (intro ball_cong refl) auto
    then show ?thesis unfolding b deepEquals_objects
      using canon_fields_length[OF d] fields_eq_iff[OF d] by auto
  next
    case False
    then show ?thesis using deepEquals_object_mixed[of b fs] U_Obj.prems by blast
  qed
qed (rule deepEquals_scalar; simp)+

text \<open>C36: On the values of a JSON column (and on scalars), the comparison of the write buffer is equality of JSON values: arrays in
  order, objects whatever the order of their keys. On dates it compares the instants.\<close>
theorem deepEquals_is_equality:
  assumes "json_value a" "json_value b"
  shows "(deepEquals a b \<longleftrightarrow> canon a = canon b) \<and> (deepEquals (U_Date s) (U_Date t) \<longleftrightarrow> s = t)"
proof -
  have "deepEquals (U_Date s) (U_Date t) \<longleftrightarrow> s = t" by (simp add: deepEquals.simps nullish_def)
  with deepEquals_json[OF assms] show ?thesis by blast
qed

theorem deepEquals_is_equality_witness:
  "deepEquals (U_Obj [(''a'', U_Num 1), (''b'', U_List [U_Null, U_Str ''x''])]) (U_Obj [(''b'', U_List [U_Null, U_Str ''x'']), (''a'', U_Num 1)]) \<and>
   \<not> deepEquals (U_Obj [(''a'', U_Num 1)]) (U_Obj [(''a'', U_Num 2)])"
proof
  show "deepEquals (U_Obj [(''a'', U_Num 1), (''b'', U_List [U_Null, U_Str ''x''])]) (U_Obj [(''b'', U_List [U_Null, U_Str ''x'']), (''a'', U_Num 1)])"
    by (subst deepEquals_is_equality[THEN conjunct1]) (auto simp: fun_eq_iff)
  show "\<not> deepEquals (U_Obj [(''a'', U_Num 1)]) (U_Obj [(''a'', U_Num 2)])"
    by (subst deepEquals_is_equality[THEN conjunct1]) (auto simp: fun_eq_iff)
qed

text \<open>Outside JSON values it is coarser: a missing key counts as an undefined one, and a date has no keys.\<close>
lemma deepEquals_undefined_key: "deepEquals (U_Obj [(''a'', U_Undef)]) (U_Obj [(''b'', U_Num 1)])"
  by code_simp

lemma deepEquals_date_object: "deepEquals (U_Date t) (U_Obj [])"
  by (simp add: deepEquals.simps nullish_def)


subsection \<open>What a difference contains\<close>

lemma field_of_set [simp]: "field_of (jm_set c v fs) k = (if k = c then v else field_of fs k)"
  by (simp add: field_of_def jm_get_set)

lemma snapshot_get: "field_of (snapshot inst cols) c = (if c \<in> set cols then field_of inst c else U_Undef)"
proof -
  have "field_of (fold (\<lambda>col snap. jm_set col (cloneValue (field_of inst col)) snap) cols snap) c =
      (if c \<in> set cols then field_of inst c else field_of snap c)" for snap
    by (induction cols arbitrary: snap) (simp_all add: cloneValue_def)
  then show ?thesis by (simp add: snapshot_def field_of_def)
qed

lemma diff_fold_get:
  "map_of (fold (diff_column_value inst snap pks) cols ch) c =
     (if c \<in> set cols \<and> c \<notin> set pks \<and> \<not> deepEquals (field_of inst c) (field_of snap c)
      then Some (field_of inst c) else map_of ch c)"
  by (induction cols arbitrary: ch) (auto simp: diff_column_value_def jm_get_set)

definition changed_columns :: "fields \<Rightarrow> fields \<Rightarrow> string list \<Rightarrow> string list \<Rightarrow> string set" where
  "changed_columns inst snap cols pks = {c \<in> set cols - set pks. \<not> deepEquals (field_of inst c) (field_of snap c)}"

lemma snapshot_diff_None: "snapshot_diff inst snap cols pks = None \<longleftrightarrow> changed_columns inst snap cols pks = {}"
proof -
  have "fold (diff_column_value inst snap pks) cols [] = [] \<longleftrightarrow> map_of (fold (diff_column_value inst snap pks) cols []) = Map.empty"
    by (simp add: map_of_eq_empty_iff)
  also have "\<dots> \<longleftrightarrow> changed_columns inst snap cols pks = {}"
    by (auto simp: fun_eq_iff diff_fold_get changed_columns_def)
  finally show ?thesis by (simp add: snapshot_diff_def Let_def)
qed

lemma snapshot_diff_get:
  "snapshot_diff inst snap cols pks = Some ch \<Longrightarrow>
   map_of ch c = (if c \<in> changed_columns inst snap cols pks then Some (field_of inst c) else None)"
  by (auto simp: snapshot_diff_def Let_def diff_fold_get changed_columns_def split: if_splits)

text \<open>Values for which the comparison is reflexive: all but \<open>NaN\<close> and what contains it or a date or an undefined part.\<close>
definition settled :: "uval \<Rightarrow> bool" where
  "settled v \<longleftrightarrow> json_value v \<or> (\<exists>t. v = U_Date t) \<or> v = U_Undef \<or> v = U_Merge_Dirty"

lemma settled_refl: "settled v \<Longrightarrow> deepEquals v v"
  by (auto simp: settled_def deepEquals_json) (auto simp: deepEquals.simps nullish_def)

lemma snapshot_clean:
  "\<forall>c \<in> set cols. settled (field_of inst c) \<Longrightarrow> snapshot_diff inst (snapshot inst cols) cols pks = None"
  by (auto simp: snapshot_diff_None changed_columns_def snapshot_get settled_refl)



lemma diffCollection_spec:
  "(diffCollection (Many items) originals = None \<longleftrightarrow> set items = set originals) \<and>
   (diffCollection (Many items) originals = Some df \<longrightarrow>
      set (added_items df) = set items - set originals \<and> set (removed_items df) = set originals - set items)"
  by (auto simp: diffCollection_def Let_def filter_empty_conv)

end
