(* ===== verification/IdentityMap.thy ===== *)
theory IdentityMap
  imports UnitValues
begin

section \<open>The identity map of the write buffer (src/core/plugin/buffer/IdentityMapManager.ts)\<close>

text \<open>
  A write buffer holds one instance per row. Instances live in a heap and are compared by address; what the
  buffer knows of an instance is in three maps keyed by it, and the identity map finds it by the text of its primary
  key. The record \<open>uow\<close> is the state of a buffer, that of \<^verbatim>\<open>IdentityMapManager\<close> and \<^verbatim>\<open>WriteBuffer\<close> together: the
  manager works on the buffer's own map of tracked entries.
\<close>

subsection \<open>Metadata and state\<close>

datatype entity_state = NEW | MANAGED | DETACHED | REMOVED

text \<open>What \<^verbatim>\<open>@Column\<close> registers, as the buffer reads it.\<close>
record column_meta =
  propertyKey :: "string option"
  db_name :: string
  primary_key :: bool
  autoIncrement :: bool
  generationStrategy :: "string option"

datatype inheritance = Single_Table | Joined | Table_Per_Class

datatype relation_kind = OneToMany | OneToOne | ManyToMany

text \<open>A class: its columns, its place in a hierarchy, its relations in the order they are walked, and the tokens of its decorators.\<close>
record 'c class_meta =
  class_name :: string
  column_metas :: "column_meta list"
  strategy_of :: "inheritance option"
  hierarchy_root :: "'c option"
  relation_keys :: "(string \<times> relation_kind) list"
  version_token :: "string option"
  create_token :: "string option"
  update_token :: "string option"
  non_tenant :: bool
  tenant_column :: "(string option \<times> string option) option"
  pinned_schema :: bool

text \<open>
  The surroundings: the metadata of every class, the registered ones, and what the entity manager says of tenants. The text
  of a value that is no scalar (\<^verbatim>\<open>String(value)\<close>) is an argument. \<open>plain_object\<close> stands for instances whose constructor is
  \<^verbatim>\<open>Object\<close>.
\<close>
record 'c setting =
  meta_of :: "'c \<Rightarrow> 'c class_meta"
  registered :: "'c list"
  plain_class :: "'c \<Rightarrow> bool"
  tenant_config :: "string option"
  postgres :: bool
  schema_strategy :: bool
  current_tenant :: string
  unscoped :: bool
  other_text :: "uval \<Rightarrow> string"

record 'c instance_obj =
  constructor_of :: 'c
  fields_of :: fields
  relations_of :: "(string \<times> nat relation_value) list"

record 'c tracked_entry =
  te_entity :: 'c
  te_snapshot :: fields
  te_columns :: "string list"
  te_pks :: "string list"
  te_collections :: "(string \<times> nat list) list"
  te_readOnly :: bool
  te_explicitDirty :: bool

record 'c persist_entry =
  pe_entity :: 'c
  pe_instance :: nat
  pe_columns :: "string list"
  pe_pks :: "string list"

record 'c uow =
  instances :: "nat \<Rightarrow> 'c instance_obj"
  identityMap :: "(string \<times> nat) list"
  stateMap :: "(nat \<times> entity_state) list"
  trackedEntries :: "(nat \<times> 'c tracked_entry) list"
  referenceStubs :: "nat list"
  insertQueue :: "('c \<times> fields) list"
  deleteQueue :: "('c \<times> fields) list"
  persistQueue :: "'c persist_entry list"
  bulkUpdateQueue :: "('c \<times> fields \<times> fields) list"
  bulkDeleteQueue :: "('c \<times> fields) list"
  maxIdentityMapSize :: "nat option"

datatype 'e unit_error = Orm OrmErrorCode | Identity_Conflict string | Not_Tracked | Cannot_Remove string | Not_In_Database | Thrown 'e

definition value_at :: "'c uow \<Rightarrow> nat \<Rightarrow> string \<Rightarrow> uval" where
  "value_at u i col = field_of (fields_of (instances u i)) col"

definition set_value :: "nat \<Rightarrow> string \<Rightarrow> uval \<Rightarrow> 'c uow \<Rightarrow> 'c uow" where
  "set_value i col v u = u\<lparr>instances := (instances u)(i := (instances u i)\<lparr>fields_of := jm_set col v (fields_of (instances u i))\<rparr>)\<rparr>"

subsection \<open>Columns\<close>

definition column_key :: "column_meta \<Rightarrow> string" where
  "column_key c = (case propertyKey c of Some p \<Rightarrow> p | None \<Rightarrow> db_name c)"

definition getColumnInfo :: "'c setting \<Rightarrow> 'c \<Rightarrow> string list \<times> string list" where
  "getColumnInfo S c = (let cols = column_metas (meta_of S c) in
     (map column_key cols, map column_key (filter primary_key cols)))"

definition getColumnBindings :: "'c setting \<Rightarrow> 'c \<Rightarrow> (string \<times> string) list" where
  "getColumnBindings S c = map (\<lambda>m. (column_key m, db_name m)) (column_metas (meta_of S c))"

definition resolveColumnName :: "'c setting \<Rightarrow> 'c \<Rightarrow> string \<Rightarrow> string" where
  "resolveColumnName S c p = (case filter (\<lambda>m. column_key m = p) (column_metas (meta_of S c)) of [] \<Rightarrow> p | m # _ \<Rightarrow> db_name m)"

definition hasGeneratedPk :: "'c setting \<Rightarrow> 'c \<Rightarrow> bool" where
  "hasGeneratedPk S c = (let pks = filter primary_key (column_metas (meta_of S c)) in
     pks \<noteq> [] \<and> list_all (\<lambda>m. autoIncrement m \<or> generationStrategy m \<noteq> None) pks)"

definition resolveTokenPropertyKey :: "'c setting \<Rightarrow> 'c \<Rightarrow> string option \<Rightarrow> string option" where
  "resolveTokenPropertyKey S c token = (case token of
     None \<Rightarrow> None
   | Some v \<Rightarrow> if v = [] then None else
      (let cols = column_metas (meta_of S c) in
       if list_ex (\<lambda>m. propertyKey m = Some v) cols then Some v
       else (case filter (\<lambda>m. db_name m = v) cols of
           [] \<Rightarrow> Some v
         | m # _ \<Rightarrow> (case propertyKey m of Some p \<Rightarrow> Some p | None \<Rightarrow> Some v))))"

definition getVersionColumn :: "'c setting \<Rightarrow> 'c \<Rightarrow> string option" where
  "getVersionColumn S c = resolveTokenPropertyKey S c (version_token (meta_of S c))"

definition getCreateTimestampColumn :: "'c setting \<Rightarrow> 'c \<Rightarrow> string option" where
  "getCreateTimestampColumn S c = resolveTokenPropertyKey S c (create_token (meta_of S c))"

definition getUpdateTimestampColumn :: "'c setting \<Rightarrow> 'c \<Rightarrow> string option" where
  "getUpdateTimestampColumn S c = resolveTokenPropertyKey S c (update_token (meta_of S c))"

definition validateEntity :: "'c setting \<Rightarrow> 'c \<Rightarrow> ('c uow, 'e unit_error, unit) io" where
  "validateEntity S c = (if c \<in> set (registered S) then io_return () else io_throw (Orm ENTITY_METADATA_NOT_FOUND))"

subsection \<open>Identity keys\<close>

text \<open>\<^verbatim>\<open>`${value}`\<close>\<close>
fun value_text :: "(uval \<Rightarrow> string) \<Rightarrow> uval \<Rightarrow> string" where
  "value_text T (U_Str s) = s"
| "value_text T (U_Num n) = decimal_int n"
| "value_text T (U_Big n) = decimal_int n"
| "value_text T (U_Bool b) = (if b then ''true'' else ''false'')"
| "value_text T v = T v"

fun comma_join :: "string list \<Rightarrow> string" where
  "comma_join [] = []"
| "comma_join [s] = s"
| "comma_join (s # ss) = s @ '','' @ comma_join ss"

text \<open>\<^verbatim>\<open>instance\<close> is given where there is one; its own constructor is preferred.\<close>
definition resolveIdentityKeyClass :: "'c setting \<Rightarrow> 'c \<Rightarrow> 'c option \<Rightarrow> 'c" where
  "resolveIdentityKeyClass S c ctor = (let cls = (case ctor of Some k \<Rightarrow> if plain_class S k then c else k | None \<Rightarrow> c) in
     if strategy_of (meta_of S cls) \<in> {Some Single_Table, Some Joined}
     then (case hierarchy_root (meta_of S cls) of Some r \<Rightarrow> r | None \<Rightarrow> cls) else cls)"

datatype keying = By_Column string | By_Schema

definition tenantKeying :: "'c setting \<Rightarrow> 'c \<Rightarrow> keying option" where
  "tenantKeying S c =
     (if non_tenant (meta_of S c) then None
      else (case tenant_config S of
          Some n \<Rightarrow> Some (By_Column n)
        | None \<Rightarrow> if \<not> postgres S then None
            else if \<not> schema_strategy S then None
            else if pinned_schema (meta_of S c) then None else Some By_Schema))"

definition schemaTenantPrefix :: "'c setting \<Rightarrow> string" where
  "schemaTenantPrefix S = (if current_tenant S = ''public'' then [] else current_tenant S @ ''|'')"

definition tenant_value :: "'c setting \<Rightarrow> 'c \<Rightarrow> string \<Rightarrow> fields \<Rightarrow> uval" where
  "tenant_value S c config fs =
     (let declared = tenant_column (meta_of S c);
          name = Option.bind declared fst; key = Option.bind declared snd;
          colName = (case name of Some n \<Rightarrow> n | None \<Rightarrow> (case key of Some k \<Rightarrow> k | None \<Rightarrow> config));
          prop = (case key of Some k \<Rightarrow> k | None \<Rightarrow> config) in
      if nullish (field_of fs colName) then field_of fs prop else field_of fs colName)"

definition resolveTenantPrefixFromInstance :: "'c setting \<Rightarrow> 'c \<Rightarrow> fields \<Rightarrow> string" where
  "resolveTenantPrefixFromInstance S c fs = (case tenantKeying S c of
     None \<Rightarrow> []
   | Some By_Schema \<Rightarrow> schemaTenantPrefix S
   | Some (By_Column config) \<Rightarrow>
       (let raw = tenant_value S c config fs in
        (if nullish raw then current_tenant S else value_text (other_text S) raw) @ ''|''))"

definition resolveTenantPrefixFromContext :: "'c setting \<Rightarrow> 'c \<Rightarrow> string option" where
  "resolveTenantPrefixFromContext S c = (case tenantKeying S c of
     None \<Rightarrow> Some []
   | Some By_Schema \<Rightarrow> Some (schemaTenantPrefix S)
   | Some (By_Column config) \<Rightarrow> if unscoped S then None else Some (current_tenant S @ ''|''))"

definition key_text :: "'c setting \<Rightarrow> string \<Rightarrow> 'c \<Rightarrow> (string \<Rightarrow> uval) \<Rightarrow> string list \<Rightarrow> string" where
  "key_text S prefix keyClass val pks =
     prefix @ class_name (meta_of S keyClass) @ '':'' @ comma_join (map (\<lambda>pk. pk @ ''='' @ value_text (other_text S) (val pk)) pks)"

text \<open>\<open>None\<close> is the error \<^verbatim>\<open>PRIMARY_KEY_NOT_FOUND\<close>.\<close>
definition identity_key :: "'c setting \<Rightarrow> 'c \<Rightarrow> 'c instance_obj \<Rightarrow> string list \<Rightarrow> string option" where
  "identity_key S c x pks =
     (if list_ex (\<lambda>pk. nullish (field_of (fields_of x) pk)) pks then None
      else Some (key_text S (resolveTenantPrefixFromInstance S c (fields_of x))
        (resolveIdentityKeyClass S c (Some (constructor_of x))) (field_of (fields_of x)) pks))"

definition buildIdentityKey :: "'c setting \<Rightarrow> 'c \<Rightarrow> nat \<Rightarrow> string list \<Rightarrow> ('c uow, 'e unit_error, string) io" where
  "buildIdentityKey S c i pks = (\<lambda>u. case identity_key S c (instances u i) pks of
     None \<Rightarrow> (Inl (Orm PRIMARY_KEY_NOT_FOUND), u)
   | Some k \<Rightarrow> (Inr k, u))"

text \<open>Without a single-column key, the values of the columns by name.\<close>
definition buildPkWhere :: "fields \<Rightarrow> string list \<Rightarrow> fields" where
  "buildPkWhere fs pks = fold (\<lambda>pk w. jm_set pk (field_of fs pk) w) pks []"

definition extractColumnData :: "fields \<Rightarrow> string list \<Rightarrow> fields" where
  "extractColumnData fs cols = fold (\<lambda>c d. if field_of fs c = U_Undef then d else jm_set c (field_of fs c) d) cols []"

subsection \<open>Matching a WHERE in memory\<close>

definition matchesWhere :: "fields \<Rightarrow> fields \<Rightarrow> bool" where
  "matchesWhere fs w = list_all (\<lambda>(c, v). strictly_equal (field_of fs c) v) w"

fun isComparableScalar :: "uval \<Rightarrow> bool" where
  "isComparableScalar U_Null = True"
| "isComparableScalar (U_Bool b) = True"
| "isComparableScalar (U_Num n) = True"
| "isComparableScalar U_NaN = True"
| "isComparableScalar (U_Str s) = True"
| "isComparableScalar (U_Big n) = True"
| "isComparableScalar v = False"

definition isPureEqualityWhere :: "fields \<Rightarrow> bool" where
  "isPureEqualityWhere w = list_all (\<lambda>(k, v). k \<notin> {''OR'', ''AND'', ''NOT''} \<and> isComparableScalar v) w"

fun is_date :: "uval \<Rightarrow> bool" where
  "is_date (U_Date t) = True"
| "is_date v = False"

definition isPlainSetData :: "fields \<Rightarrow> bool" where
  "isPlainSetData ss = list_all (\<lambda>(k, v). isComparableScalar v \<or> v = U_Undef \<or> is_date v) ss"

definition isLiteralScalar :: "uval \<Rightarrow> bool" where
  "isLiteralScalar v \<longleftrightarrow> v \<noteq> U_Null \<and> (isComparableScalar v \<or> is_date v)"

definition u_truthy :: "uval \<Rightarrow> bool" where
  "u_truthy v \<longleftrightarrow> v \<notin> {U_Undef, U_Null, U_Bool False, U_Num 0, U_NaN, U_Str [], U_Big 0}"

text \<open>
  The read options that keep a lookup away from the identity map are one flag; \<open>where\<close> is absent, a list, or an object.
\<close>
definition tryBuildCacheKey :: "'c setting \<Rightarrow> 'c \<Rightarrow> bool \<Rightarrow> fields option \<Rightarrow> string option" where
  "tryBuildCacheKey S c plainRead whereObj =
     (if \<not> plainRead then None
      else (case whereObj of
        None \<Rightarrow> None
      | Some w \<Rightarrow>
          if list_ex (\<lambda>k. u_truthy (field_of w k)) [''OR'', ''AND'', ''NOT''] then None else
          (let pks = snd (getColumnInfo S c) in
           if pks = [] \<or> length w \<noteq> length pks \<or> \<not> list_all (\<lambda>pk. pk \<in> set (map fst w)) pks then None
           else if \<not> list_all (\<lambda>pk. isLiteralScalar (field_of w pk)) pks then None
           else (case resolveTenantPrefixFromContext S c of
               None \<Rightarrow> None
             | Some prefix \<Rightarrow> Some (key_text S prefix (resolveIdentityKeyClass S c None) (field_of w) pks)))))"

subsection \<open>Least recently used\<close>

definition touch :: "string \<Rightarrow> 'c uow \<Rightarrow> 'c uow" where
  "touch key u = (case maxIdentityMapSize u of
     None \<Rightarrow> u
   | Some _ \<Rightarrow> (case jm_get (identityMap u) key of
       None \<Rightarrow> u
     | Some i \<Rightarrow> u\<lparr>identityMap := jm_set key i (jm_delete key (identityMap u))\<rparr>))"

definition isEvictable :: "'c uow \<Rightarrow> nat \<Rightarrow> bool" where
  "isEvictable u i =
     (if jm_get (stateMap u) i \<in> {Some NEW, Some REMOVED} then False
      else (case jm_get (trackedEntries u) i of
          None \<Rightarrow> True
        | Some e \<Rightarrow> \<not> te_explicitDirty e \<and>
            list_all (\<lambda>c. strictly_equal (field_of (snapshot (fields_of (instances u i)) (te_columns e)) c) (field_of (te_snapshot e) c)) (te_columns e)))"

text \<open>The loop that collects up to \<open>n\<close> keys, oldest first.\<close>
fun keys_to_evict :: "'c uow \<Rightarrow> nat \<Rightarrow> (string \<times> nat) list \<Rightarrow> (string \<times> nat) list" where
  "keys_to_evict u n [] = []"
| "keys_to_evict u n ((key, i) # m) =
     (if n = 0 then [] else if isEvictable u i then (key, i) # keys_to_evict u (n - 1) m else keys_to_evict u n m)"

definition evict_one :: "string \<times> nat \<Rightarrow> 'c uow \<Rightarrow> 'c uow" where
  "evict_one ki u = u\<lparr>identityMap := jm_delete (fst ki) (identityMap u),
     trackedEntries := jm_delete (snd ki) (trackedEntries u), stateMap := jm_delete (snd ki) (stateMap u)\<rparr>"

definition evictIfNeeded :: "'c uow \<Rightarrow> 'c uow" where
  "evictIfNeeded u = (case maxIdentityMapSize u of
     None \<Rightarrow> u
   | Some n \<Rightarrow> if length (identityMap u) \<le> n then u
       else fold evict_one (keys_to_evict u (length (identityMap u) - n) (identityMap u)) u)"

definition detachTracked :: "'c setting \<Rightarrow> nat \<Rightarrow> ('c uow, 'e unit_error, unit) io" where
  "detachTracked S i = io_then
     (\<lambda>u. case jm_get (trackedEntries u) i of
        None \<Rightarrow> (Inr (), u)
      | Some e \<Rightarrow> io_bind (buildIdentityKey S (te_entity e) i (te_pks e))
          (\<lambda>key u. (Inr (), u\<lparr>identityMap := jm_delete key (identityMap u), trackedEntries := jm_delete i (trackedEntries u)\<rparr>)) u)
     (\<lambda>u. (Inr (), u\<lparr>stateMap := jm_delete i (stateMap u)\<rparr>))"


subsection \<open>Keys of different rows\<close>

lemma split_unique: "c \<notin> set xs \<Longrightarrow> c \<notin> set ys \<Longrightarrow> xs @ c # us = ys @ c # vs \<Longrightarrow> xs = ys \<and> us = vs"
proof (induction xs arbitrary: ys)
  case Nil
  then show ?case by (cases ys) auto
next
  case (Cons x xs)
  then show ?case by (cases ys) auto
qed

lemma key_text_injective:
  assumes "key_text S p1 k1 v1 [pk] = key_text S p2 k2 v2 [pk]"
    and "p1 = [] \<and> p2 = [] \<or> (\<exists>t1 t2. p1 = t1 @ ''|'' \<and> p2 = t2 @ ''|'' \<and> CHR ''|'' \<notin> set t1 \<and> CHR ''|'' \<notin> set t2)"
    and "CHR '':'' \<notin> set (class_name (meta_of S k1))" "CHR '':'' \<notin> set (class_name (meta_of S k2))"
  shows "p1 = p2 \<and> class_name (meta_of S k1) = class_name (meta_of S k2) \<and>
         value_text (other_text S) (v1 pk) = value_text (other_text S) (v2 pk)"
proof -
  let ?r1 = "class_name (meta_of S k1) @ CHR '':'' # (pk @ ''='' @ value_text (other_text S) (v1 pk))"
  let ?r2 = "class_name (meta_of S k2) @ CHR '':'' # (pk @ ''='' @ value_text (other_text S) (v2 pk))"
  have eq: "p1 @ ?r1 = p2 @ ?r2" using assms(1) by (simp add: key_text_def)
  have "p1 = p2 \<and> ?r1 = ?r2"
    using assms(2)
  proof
    assume "\<exists>t1 t2. p1 = t1 @ ''|'' \<and> p2 = t2 @ ''|'' \<and> CHR ''|'' \<notin> set t1 \<and> CHR ''|'' \<notin> set t2"
    then obtain t1 t2 where t: "p1 = t1 @ ''|''" "p2 = t2 @ ''|''" "CHR ''|'' \<notin> set t1" "CHR ''|'' \<notin> set t2" by auto
    have "t1 @ CHR ''|'' # ?r1 = t2 @ CHR ''|'' # ?r2" using eq t(1,2) by simp
    from split_unique[OF t(3,4) this] t(1,2) show ?thesis by simp
  qed (use eq in simp)
  moreover from this have "class_name (meta_of S k1) = class_name (meta_of S k2) \<and>
      pk @ ''='' @ value_text (other_text S) (v1 pk) = pk @ ''='' @ value_text (other_text S) (v2 pk)"
    using split_unique[OF assms(3,4)] by blast
  ultimately show ?thesis by simp
qed

text \<open>The tenants that can stand before a key of \<open>x\<close> have no bar in their name.\<close>
definition bar_free :: "'c setting \<Rightarrow> 'c \<Rightarrow> 'c instance_obj \<Rightarrow> bool" where
  "bar_free S c x \<longleftrightarrow> CHR ''|'' \<notin> set (current_tenant S) \<and>
     (\<forall>config. tenantKeying S c = Some (By_Column config) \<longrightarrow> CHR ''|'' \<notin> set (value_text (other_text S) (tenant_value S c config (fields_of x))))"

lemma prefix_shape:
  assumes "bar_free S c x" "bar_free S c y"
  shows "resolveTenantPrefixFromInstance S c (fields_of x) = [] \<and> resolveTenantPrefixFromInstance S c (fields_of y) = [] \<or>
    (\<exists>t1 t2. resolveTenantPrefixFromInstance S c (fields_of x) = t1 @ ''|'' \<and>
       resolveTenantPrefixFromInstance S c (fields_of y) = t2 @ ''|'' \<and> CHR ''|'' \<notin> set t1 \<and> CHR ''|'' \<notin> set t2)"
proof (cases "tenantKeying S c")
  case None
  then show ?thesis by (simp add: resolveTenantPrefixFromInstance_def)
next
  case (Some k)
  then show ?thesis using assms
    by (cases k) (auto simp: resolveTenantPrefixFromInstance_def schemaTenantPrefix_def bar_free_def Let_def)
qed


text \<open>A lookup by primary key asks for the key of the row it would find.\<close>
lemma cache_key_is_identity_key:
  assumes "tryBuildCacheKey S c True (Some w) = Some k" "pks = snd (getColumnInfo S c)"
    and "\<forall>pk \<in> set pks. \<not> nullish (field_of (fields_of x) pk) \<and>
           value_text (other_text S) (field_of (fields_of x) pk) = value_text (other_text S) (field_of w pk)"
    and "resolveIdentityKeyClass S c (Some (constructor_of x)) = resolveIdentityKeyClass S c None"
    and "resolveTenantPrefixFromContext S c = Some (resolveTenantPrefixFromInstance S c (fields_of x))"
  shows "identity_key S c x pks = Some k"
proof -
  have "map (\<lambda>pk. pk @ ''='' @ value_text (other_text S) (field_of (fields_of x) pk)) pks =
        map (\<lambda>pk. pk @ ''='' @ value_text (other_text S) (field_of w pk)) pks"
    using assms(3) by simp
  moreover have "k = key_text S (resolveTenantPrefixFromInstance S c (fields_of x)) (resolveIdentityKeyClass S c None) (field_of w) pks"
    using assms(1,2,5) by (simp add: tryBuildCacheKey_def Let_def split: if_splits)
  ultimately show ?thesis using assms(3,4) by (auto simp: identity_key_def list_ex_iff key_text_def intro!: arg_cong[where f = comma_join])
qed

subsection \<open>Eviction\<close>

lemma keys_to_evict_take: "keys_to_evict u n m = take n (filter (\<lambda>ki. isEvictable u (snd ki)) m)"
  by (induction u n m rule: keys_to_evict.induct) (auto simp: take_Cons')

lemma evict_fold:
  "identityMap (fold evict_one kis u) = filter (\<lambda>ki. fst ki \<notin> fst ` set kis) (identityMap u)"
  "trackedEntries (fold evict_one kis u) = filter (\<lambda>ie. fst ie \<notin> snd ` set kis) (trackedEntries u)"
  "stateMap (fold evict_one kis u) = filter (\<lambda>is. fst is \<notin> snd ` set kis) (stateMap u)"
  by (induction kis arbitrary: u)
     (auto simp: evict_one_def AList.delete_eq intro!: filter_cong)

text \<open>The instances that may go, oldest first, as many as there are too many.\<close>
definition evicted :: "'c uow \<Rightarrow> nat \<Rightarrow> (string \<times> nat) list" where
  "evicted u n = take (length (identityMap u) - n) (filter (\<lambda>ki. isEvictable u (snd ki)) (identityMap u))"


text \<open>A date never equals its copy: an instance with a date column cannot be evicted, changed or not.\<close>
lemma dated_instance_never_evicted:
  assumes "jm_get (trackedEntries u) i = Some e" "te_snapshot e = snapshot (fields_of (instances u i)) (te_columns e)"
    and "c \<in> set (te_columns e)" "value_at u i c = U_Date t"
  shows "\<not> isEvictable u i"
proof -
  have "\<not> strictly_equal (field_of (snapshot (fields_of (instances u i)) (te_columns e)) c) (field_of (te_snapshot e) c)"
    using assms(2,3,4) by (simp add: snapshot_get value_at_def)
  then show ?thesis using assms(1,3) by (auto simp: isEvictable_def list_all_iff)
qed

text \<open>The text of a key of several columns does not tell where one value ends: two rows, one key.\<close>
lemma composite_keys_collide:
  "key_text S p c (field_of [(''a'', U_Str ''1,b=2''), (''b'', U_Str ''3'')]) [''a'', ''b''] =
   key_text S p c (field_of [(''a'', U_Str ''1''), (''b'', U_Str ''2,b=3'')]) [''a'', ''b'']"
  by (simp add: key_text_def field_of_def)


subsection \<open>A concrete setting\<close>

definition user_meta :: "nat class_meta" where
  "user_meta = \<lparr>class_name = ''User'',
     column_metas = [\<lparr>propertyKey = Some ''id'', db_name = ''id'', primary_key = True, autoIncrement = True, generationStrategy = None\<rparr>,
       \<lparr>propertyKey = Some ''name'', db_name = ''name'', primary_key = False, autoIncrement = False, generationStrategy = None\<rparr>],
     strategy_of = None, hierarchy_root = None, relation_keys = [(''posts'', OneToMany)], version_token = None, create_token = None,
     update_token = None, non_tenant = False, tenant_column = None, pinned_schema = False\<rparr>"

definition user_setting :: "nat setting" where
  "user_setting = \<lparr>meta_of = \<lambda>_. user_meta, registered = [0], plain_class = \<lambda>c. c = 99, tenant_config = None, postgres = True,
     schema_strategy = True, current_tenant = ''acme'', unscoped = False, other_text = \<lambda>_. []\<rparr>"

definition user_named :: "uval \<Rightarrow> string \<Rightarrow> nat instance_obj" where
  "user_named i n = \<lparr>constructor_of = 0, fields_of = [(''id'', i), (''name'', U_Str n)], relations_of = []\<rparr>"


definition five_users :: "nat uow" where
  "five_users = \<lparr>instances = \<lambda>i. user_named (U_Num (int i)) ''x'',
     identityMap = map (\<lambda>i. (decimal_int (int i), i)) [1, 2, 3, 4, 5],
     stateMap = [(1, NEW), (2, MANAGED), (3, MANAGED), (4, MANAGED), (5, MANAGED)],
     trackedEntries = [(3, \<lparr>te_entity = 0, te_snapshot = [(''name'', U_Str ''old'')], te_columns = [''name''], te_pks = [], te_collections = [],
        te_readOnly = False, te_explicitDirty = False\<rparr>)],
     referenceStubs = [], insertQueue = [], deleteQueue = [], persistQueue = [], bulkUpdateQueue = [], bulkDeleteQueue = [],
     maxIdentityMapSize = Some 3\<rparr>"


end
