(* ===== verification/WriteBuffer.thy ===== *)
theory WriteBuffer
  imports IdentityMap DependencyGraph
begin

section \<open>The write buffer (src/core/plugin/buffer/WriteBuffer.ts)\<close>

text \<open>
  The operations of a unit of work between flushes: tracking, queueing, detaching, merging, and the lookup that is
  answered from the identity map. Lazy proxies are not installed on tracked instances here: an unloaded relation is
  the value \<open>Lazy_Accessor\<close>. Logging is left out.
\<close>

subsection \<open>Options\<close>

datatype flush_mode = MANUAL | AUTO | ALWAYS | COMMIT

datatype change_tracking = DEFERRED_IMPLICIT | DEFERRED_EXPLICIT

record cascade_options =
  cas_persist :: bool
  cas_merge :: bool
  cas_remove :: bool
  cas_refresh :: bool
  cas_detach :: bool

text \<open>\<^verbatim>\<open>boolean | BufferCascadeOptions\<close>\<close>
datatype cascade_input = Cascade_All bool | Cascade_Each "bool option" "bool option" "bool option" "bool option" "bool option"

definition resolveCascadeOptions :: "cascade_input option \<Rightarrow> cascade_options" where
  "resolveCascadeOptions c = (case c of
     None \<Rightarrow> \<lparr>cas_persist = True, cas_merge = True, cas_remove = True, cas_refresh = True, cas_detach = True\<rparr>
   | Some (Cascade_All b) \<Rightarrow> \<lparr>cas_persist = b, cas_merge = b, cas_remove = b, cas_refresh = b, cas_detach = b\<rparr>
   | Some (Cascade_Each p m r f d) \<Rightarrow> \<lparr>cas_persist = p \<noteq> Some False, cas_merge = m \<noteq> Some False,
       cas_remove = r \<noteq> Some False, cas_refresh = f \<noteq> Some False, cas_detach = d \<noteq> Some False\<rparr>)"

record buffer_options =
  cascade :: cascade_options
  retainAfterFlush :: bool
  flushMode :: flush_mode
  changeTracking :: change_tracking

definition new_uow :: "(nat \<Rightarrow> 'c instance_obj) \<Rightarrow> nat option \<Rightarrow> 'c uow" where
  "new_uow heap n = \<lparr>instances = heap, identityMap = [], stateMap = [], trackedEntries = [], referenceStubs = [],
     insertQueue = [], deleteQueue = [], persistQueue = [], bulkUpdateQueue = [], bulkDeleteQueue = [], maxIdentityMapSize = n\<rparr>"

subsection \<open>Tracking\<close>

definition getState :: "'c uow \<Rightarrow> nat \<Rightarrow> entity_state" where
  "getState u i = (case jm_get (stateMap u) i of Some s \<Rightarrow> s | None \<Rightarrow> DETACHED)"

definition set_state :: "nat \<Rightarrow> entity_state \<Rightarrow> 'c uow \<Rightarrow> 'c uow" where
  "set_state i s u = u\<lparr>stateMap := jm_set i s (stateMap u)\<rparr>"

definition relation_value_of :: "'c uow \<Rightarrow> nat \<Rightarrow> string \<Rightarrow> nat relation_value" where
  "relation_value_of u i p = (case jm_get (relations_of (instances u i)) p of Some v \<Rightarrow> v | None \<Rightarrow> No_Value)"

text \<open>The baseline of every loaded collection; an array in a \<^verbatim>\<open>Set\<close> loses its repetitions.\<close>
definition snapshotCollections :: "'c setting \<Rightarrow> 'c uow \<Rightarrow> nat \<Rightarrow> 'c \<Rightarrow> (string \<times> nat list) list" where
  "snapshotCollections S u i c = concat (map (\<lambda>(p, kind).
     case relation_value_of u i p of Many is \<Rightarrow> if kind \<in> {OneToMany, ManyToMany} then [(p, js_set is)] else [] | _ \<Rightarrow> [])
     (relation_keys (meta_of S c)))"

definition store_entry :: "'c setting \<Rightarrow> nat \<Rightarrow> string \<Rightarrow> 'c uow \<Rightarrow> 'c uow" where
  "store_entry S i key u = (let c = constructor_of (instances u i); info = getColumnInfo S c in
     u\<lparr>trackedEntries := jm_set i \<lparr>te_entity = c, te_snapshot = snapshot (fields_of (instances u i)) (fst info),
          te_columns = fst info, te_pks = snd info, te_collections = snapshotCollections S u i c,
          te_readOnly = False, te_explicitDirty = False\<rparr> (trackedEntries u),
       identityMap := jm_set key i (identityMap u),
       stateMap := jm_set i MANAGED (stateMap u)\<rparr>)"

definition buffer_track :: "'c setting \<Rightarrow> nat \<Rightarrow> ('c uow, 'e unit_error, unit) io" where
  "buffer_track S i = (\<lambda>u. if jm_get (trackedEntries u) i \<noteq> None then (Inr (), u)
     else (let c = constructor_of (instances u i) in
       io_then (validateEntity S c)
         (io_bind (buildIdentityKey S c i (snd (getColumnInfo S c)))
           (\<lambda>key u. case jm_get (identityMap u) key of
              Some j \<Rightarrow> if j \<noteq> i then (Inl (Identity_Conflict key), u)
                else (Inr (), evictIfNeeded (store_entry S i key u))
            | None \<Rightarrow> (Inr (), evictIfNeeded (store_entry S i key u)))) u))"

definition forget :: "nat \<Rightarrow> 'c uow \<Rightarrow> 'c uow" where
  "forget i u = u\<lparr>trackedEntries := jm_delete i (trackedEntries u), stateMap := jm_delete i (stateMap u)\<rparr>"

definition unmap_key :: "string \<Rightarrow> 'c uow \<Rightarrow> 'c uow" where
  "unmap_key key u = u\<lparr>identityMap := jm_delete key (identityMap u)\<rparr>"

definition drop_identity :: "'c setting \<Rightarrow> nat \<Rightarrow> ('c uow, 'e unit_error, unit) io" where
  "drop_identity S i = (\<lambda>u. case jm_get (trackedEntries u) i of
     None \<Rightarrow> (Inr (), u)
   | Some e \<Rightarrow> io_bind (buildIdentityKey S (te_entity e) i (te_pks e)) (\<lambda>key u. (Inr (), unmap_key key u)) u)"

definition untrack :: "'c setting \<Rightarrow> nat \<Rightarrow> ('c uow, 'e unit_error, unit) io" where
  "untrack S i = io_then (drop_identity S i) (\<lambda>u. (Inr (), forget i u))"

definition change_entry :: "nat \<Rightarrow> ('c tracked_entry \<Rightarrow> 'c tracked_entry) \<Rightarrow> ('c uow, 'e unit_error, unit) io" where
  "change_entry i f = (\<lambda>u. case jm_get (trackedEntries u) i of
     None \<Rightarrow> (Inl Not_Tracked, u)
   | Some e \<Rightarrow> (Inr (), u\<lparr>trackedEntries := jm_set i (f e) (trackedEntries u)\<rparr>))"

definition markDirty :: "nat \<Rightarrow> ('c uow, 'e unit_error, unit) io" where
  "markDirty i = change_entry i (\<lambda>e. e\<lparr>te_explicitDirty := True\<rparr>)"

definition markReadOnly :: "nat \<Rightarrow> ('c uow, 'e unit_error, unit) io" where
  "markReadOnly i = change_entry i (\<lambda>e. e\<lparr>te_readOnly := True\<rparr>)"

subsection \<open>Queueing\<close>

definition buffer_save :: "'c setting \<Rightarrow> 'c \<Rightarrow> fields \<Rightarrow> ('c uow, 'e unit_error, unit) io" where
  "buffer_save S c data = io_then (validateEntity S c) (\<lambda>u. (Inr (), u\<lparr>insertQueue := insertQueue u @ [(c, data)]\<rparr>))"

definition buffer_delete :: "'c setting \<Rightarrow> 'c \<Rightarrow> fields \<Rightarrow> ('c uow, 'e unit_error, unit) io" where
  "buffer_delete S c criteria = io_then (validateEntity S c) (\<lambda>u. (Inr (), u\<lparr>deleteQueue := deleteQueue u @ [(c, criteria)]\<rparr>))"

definition updateMany :: "'c setting \<Rightarrow> 'c \<Rightarrow> fields \<Rightarrow> fields \<Rightarrow> ('c uow, 'e unit_error, unit) io" where
  "updateMany S c w ss = io_then (validateEntity S c) (\<lambda>u. (Inr (), u\<lparr>bulkUpdateQueue := bulkUpdateQueue u @ [(c, w, ss)]\<rparr>))"

definition deleteMany :: "'c setting \<Rightarrow> 'c \<Rightarrow> fields \<Rightarrow> ('c uow, 'e unit_error, unit) io" where
  "deleteMany S c w = io_then (validateEntity S c) (\<lambda>u. (Inr (), u\<lparr>bulkDeleteQueue := bulkDeleteQueue u @ [(c, w)]\<rparr>))"

text \<open>A queued delete of exactly this row: its criteria are the key columns with the instance's values.\<close>
definition deletes_row :: "'c \<Rightarrow> fields \<Rightarrow> string list \<Rightarrow> 'c \<times> fields \<Rightarrow> bool" where
  "deletes_row c fs pks d = (fst d = c \<and> length (snd d) = length pks \<and>
     list_all (\<lambda>pk. strictly_equal (field_of (snd d) pk) (field_of fs pk)) pks)"

definition cancelQueuedDelete :: "'c \<Rightarrow> nat \<Rightarrow> string list \<Rightarrow> 'c uow \<Rightarrow> 'c uow" where
  "cancelQueuedDelete c i pks u =
     u\<lparr>deleteQueue := filter (\<lambda>d. \<not> deletes_row c (fields_of (instances u i)) pks d) (deleteQueue u)\<rparr>"

definition persist :: "'c setting \<Rightarrow> nat \<Rightarrow> ('c uow, 'e unit_error, unit) io" where
  "persist S i = (\<lambda>u. let c = constructor_of (instances u i) in
     io_then (validateEntity S c)
       (\<lambda>u. let info = getColumnInfo S c; pks = snd info;
              hasPk = list_all (\<lambda>pk. \<not> nullish (value_at u i pk)) pks;
              known = (jm_get (trackedEntries u) i \<noteq> None \<or> jm_get (stateMap u) i = Some MANAGED) in
          if hasPk \<and> (hasGeneratedPk S c \<or> known) then buffer_track S i (cancelQueuedDelete c i pks u)
          else if i \<in> set (map pe_instance (persistQueue u)) then (Inr (), u)
          else (Inr (), set_state i NEW (u\<lparr>persistQueue := persistQueue u @
                 [\<lparr>pe_entity = c, pe_instance = i, pe_columns = fst info, pe_pks = pks\<rparr>]\<rparr>))) u)"

text \<open>\<^verbatim>\<open>findIndex\<close> and \<^verbatim>\<open>splice\<close>: the first entry of the instance leaves the queue.\<close>
fun remove_persist :: "nat \<Rightarrow> 'c persist_entry list \<Rightarrow> 'c persist_entry list" where
  "remove_persist i [] = []"
| "remove_persist i (p # ps) = (if pe_instance p = i then ps else p # remove_persist i ps)"

definition buffer_remove :: "'c setting \<Rightarrow> nat \<Rightarrow> ('c uow, 'e unit_error, unit) io" where
  "buffer_remove S i = (\<lambda>u. let c = constructor_of (instances u i) in
     io_then (validateEntity S c)
       (\<lambda>u. let pks = snd (getColumnInfo S c) in
          if i \<in> set (map pe_instance (persistQueue u))
          then io_then (if jm_get (trackedEntries u) i \<noteq> None then untrack S i else io_return ())
                 (\<lambda>u. (Inr (), u\<lparr>stateMap := jm_delete i (stateMap u)\<rparr>))
                 (u\<lparr>persistQueue := remove_persist i (persistQueue u)\<rparr>)
          else (case filter (\<lambda>pk. nullish (value_at u i pk)) pks of
              pk # _ \<Rightarrow> (Inl (Cannot_Remove pk), u)
            | [] \<Rightarrow> (let criteria = buildPkWhere (fields_of (instances u i)) pks in
                io_then (if jm_get (trackedEntries u) i \<noteq> None then untrack S i else io_return ())
                 (\<lambda>u. (Inr (), set_state i REMOVED (u\<lparr>deleteQueue := deleteQueue u @ [(c, criteria)]\<rparr>))) u))) u)"

subsection \<open>Detaching and merging\<close>

text \<open>\<^verbatim>\<open>propagateToRelations\<close>: the loaded relations, collections item by item.\<close>
definition related_instances :: "'c setting \<Rightarrow> 'c uow \<Rightarrow> nat \<Rightarrow> nat list" where
  "related_instances S u i = concat (map (\<lambda>(p, kind).
     case relation_value_of u i p of
       Many is \<Rightarrow> if kind = OneToOne then [] else is
     | One j \<Rightarrow> if kind = OneToOne then [j] else []
     | _ \<Rightarrow> []) (relation_keys (meta_of S (constructor_of (instances u i)))))"

definition detach_one :: "'c setting \<Rightarrow> nat \<Rightarrow> ('c uow, 'e unit_error, unit) io" where
  "detach_one S i = io_then (\<lambda>u. (Inr (), u\<lparr>persistQueue := remove_persist i (persistQueue u)\<rparr>)) (untrack S i)"

text \<open>
  The recursion over relations: \<open>visited\<close> is the set the calls share. A nested call is made for a new instance
  only, so the depth is at most the number of instances: that much fuel is enough.
\<close>
fun detach_walk :: "'c setting \<Rightarrow> bool \<Rightarrow> nat \<Rightarrow> nat list \<Rightarrow> nat list \<Rightarrow> ('c uow, 'e unit_error, nat list) io" where
  "detach_walk S cascading n [] visited = io_return visited"
| "detach_walk S cascading n (i # is) visited =
     (if i \<in> set visited then detach_walk S cascading n is visited
      else (case n of 0 \<Rightarrow> io_return visited
        | Suc m \<Rightarrow> io_then (detach_one S i)
            (\<lambda>u. io_bind (detach_walk S cascading m (if cascading then related_instances S u i else []) (js_add i visited))
               (detach_walk S cascading n is) u)))"

definition detach :: "'c setting \<Rightarrow> buffer_options \<Rightarrow> nat \<Rightarrow> nat \<Rightarrow> ('c uow, 'e unit_error, unit) io" where
  "detach S opts n i = io_then (detach_walk S (cas_detach (cascade opts)) n [i] []) (io_return ())"

definition detachAll :: "'c uow \<Rightarrow> 'c uow" where
  "detachAll u = (let gone = map pe_instance (persistQueue u) @ map fst (trackedEntries u) in
     u\<lparr>persistQueue := [], trackedEntries := [], identityMap := [], stateMap := fold jm_delete gone (stateMap u)\<rparr>)"

text \<open>A probe with the given key, in a class without a constructor of its own.\<close>
definition probe :: "'c \<Rightarrow> fields \<Rightarrow> 'c instance_obj" where
  "probe c pk = \<lparr>constructor_of = c, fields_of = pk, relations_of = []\<rparr>"

definition detachByPk :: "'c setting \<Rightarrow> buffer_options \<Rightarrow> nat \<Rightarrow> 'c \<Rightarrow> fields \<Rightarrow> ('c uow, 'e unit_error, unit) io" where
  "detachByPk S opts n c pk = io_then (validateEntity S c)
     (\<lambda>u. case identity_key S c (probe c pk) (snd (getColumnInfo S c)) of
        None \<Rightarrow> (Inr (), u)
      | Some key \<Rightarrow> (case jm_get (identityMap u) key of
          None \<Rightarrow> (Inr (), u)
        | Some i \<Rightarrow> detach S opts n i u))"

definition clear_uow :: "'c uow \<Rightarrow> 'c uow" where
  "clear_uow u = u\<lparr>trackedEntries := [], identityMap := [], insertQueue := [], deleteQueue := [], persistQueue := [],
     bulkUpdateQueue := [], bulkDeleteQueue := [], stateMap := []\<rparr>"

text \<open>The columns the merged instance defines, copied over those of the tracked one.\<close>
definition merge_into :: "string list \<Rightarrow> nat \<Rightarrow> nat \<Rightarrow> 'c uow \<Rightarrow> 'c uow" where
  "merge_into cols i j u = fold (\<lambda>col u. if value_at u i col = U_Undef then u else set_value j col (value_at u i col) u) cols u"

definition forced_snapshot :: "fields \<Rightarrow> string list \<Rightarrow> string list \<Rightarrow> fields" where
  "forced_snapshot fs cols pks = fold (\<lambda>col sn. jm_set col
     (if col \<in> set pks then field_of fs col else if field_of fs col = U_Undef then U_Undef else U_Merge_Dirty) sn) cols []"

definition trackAsMergedDetached :: "'c setting \<Rightarrow> nat \<Rightarrow> string list \<Rightarrow> string list \<Rightarrow> ('c uow, 'e unit_error, unit) io" where
  "trackAsMergedDetached S i cols pks = io_then (buffer_track S i)
     (\<lambda>u. case jm_get (trackedEntries u) i of
        None \<Rightarrow> (Inr (), u)
      | Some e \<Rightarrow> (Inr (), u\<lparr>trackedEntries := jm_set i (e\<lparr>te_snapshot := forced_snapshot (fields_of (instances u i)) cols pks\<rparr>) (trackedEntries u)\<rparr>))"

definition merge_one :: "'c setting \<Rightarrow> nat \<Rightarrow> ('c uow, 'e unit_error, unit) io" where
  "merge_one S i = (\<lambda>u. let c = constructor_of (instances u i); info = getColumnInfo S c; cols = fst info; pks = snd info in
     io_then (validateEntity S c)
       (\<lambda>u. case Option.bind (identity_key S c (instances u i) pks) (jm_get (identityMap u)) of
          Some j \<Rightarrow> if j \<noteq> i then (Inr (), merge_into cols i j u)
            else if pks \<noteq> [] \<and> list_all (\<lambda>pk. \<not> nullish (value_at u i pk)) pks \<and> jm_get (trackedEntries u) i = None
            then trackAsMergedDetached S i cols pks u else buffer_track S i u
        | None \<Rightarrow> if pks \<noteq> [] \<and> list_all (\<lambda>pk. \<not> nullish (value_at u i pk)) pks \<and> jm_get (trackedEntries u) i = None
            then trackAsMergedDetached S i cols pks u else buffer_track S i u) u)"

text \<open>A related instance of an unregistered class is skipped, any other error ends the merge.\<close>
fun merge_walk :: "'c setting \<Rightarrow> bool \<Rightarrow> bool \<Rightarrow> nat \<Rightarrow> nat list \<Rightarrow> nat list \<Rightarrow> ('c uow, 'e unit_error, nat list) io" where
  "merge_walk S cascading top_level n [] visited = io_return visited"
| "merge_walk S cascading top_level n (i # is) visited =
     (if i \<in> set visited then merge_walk S cascading top_level n is visited
      else (case n of 0 \<Rightarrow> io_return visited
        | Suc m \<Rightarrow> io_bind
            (io_catch
              (io_then (merge_one S i)
                (\<lambda>u. merge_walk S cascading False m (if cascading then related_instances S u i else []) (js_add i visited) u))
              (\<lambda>e. if e = Orm ENTITY_METADATA_NOT_FOUND \<and> \<not> top_level then io_return (js_add i visited) else io_throw e))
            (merge_walk S cascading top_level n is)))"

definition merge :: "'c setting \<Rightarrow> buffer_options \<Rightarrow> nat \<Rightarrow> nat \<Rightarrow> ('c uow, 'e unit_error, unit) io" where
  "merge S opts n i = io_then (merge_walk S (cas_merge (cascade opts)) True n [i] []) (io_return ())"


subsection \<open>Looking up, and what is dirty\<close>

text \<open>
  The first part of \<^verbatim>\<open>findOne\<close>: a hit needs a hydrated instance of the class asked for (\<^verbatim>\<open>instanceof\<close> is the argument
  \<open>sub\<close>) and is moved to the end of the map.
\<close>
definition cached_lookup :: "'c setting \<Rightarrow> buffer_options \<Rightarrow> ('c \<Rightarrow> 'c \<Rightarrow> bool) \<Rightarrow> 'c \<Rightarrow> bool \<Rightarrow> fields option \<Rightarrow> 'c uow \<Rightarrow> (nat \<times> 'c uow) option" where
  "cached_lookup S opts sub c plainRead w u =
     (if flushMode opts = ALWAYS then None
      else (case tryBuildCacheKey S c plainRead w of
          None \<Rightarrow> None
        | Some key \<Rightarrow> (case jm_get (identityMap u) key of
            None \<Rightarrow> None
          | Some i \<Rightarrow> if i \<notin> set (referenceStubs u) \<and> sub (constructor_of (instances u i)) c then Some (i, touch key u) else None)))"

definition entry_diff :: "'c uow \<Rightarrow> nat \<Rightarrow> 'c tracked_entry \<Rightarrow> fields option" where
  "entry_diff u i e = snapshot_diff (fields_of (instances u i)) (te_snapshot e) (te_columns e) (te_pks e)"

definition dirty :: "'c uow \<Rightarrow> nat list" where
  "dirty u = map fst (filter (\<lambda>(i, e). entry_diff u i e \<noteq> None) (trackedEntries u))"

definition shouldDirtyCheck :: "buffer_options \<Rightarrow> 'c tracked_entry \<Rightarrow> bool" where
  "shouldDirtyCheck opts e = (case changeTracking opts of DEFERRED_EXPLICIT \<Rightarrow> te_explicitDirty e | DEFERRED_IMPLICIT \<Rightarrow> True)"

definition hasQueuedWork :: "'c uow \<Rightarrow> bool" where
  "hasQueuedWork u \<longleftrightarrow> insertQueue u \<noteq> [] \<or> deleteQueue u \<noteq> [] \<or> persistQueue u \<noteq> [] \<or> bulkUpdateQueue u \<noteq> [] \<or> bulkDeleteQueue u \<noteq> []"

definition hasPendingWork :: "buffer_options \<Rightarrow> 'c uow \<Rightarrow> bool" where
  "hasPendingWork opts u \<longleftrightarrow> hasQueuedWork u \<or>
     list_ex (\<lambda>(i, e). \<not> te_readOnly e \<and>
       (shouldDirtyCheck opts e \<and> entry_diff u i e \<noteq> None \<or>
        list_ex (\<lambda>(p, items). diffCollection (relation_value_of u i p) items \<noteq> None) (te_collections e))) (trackedEntries u)"

definition buffer_size :: "'c uow \<Rightarrow> nat list" where
  "buffer_size u = [length (trackedEntries u), length (insertQueue u), length (deleteQueue u), length (persistQueue u),
     length (bulkUpdateQueue u), length (bulkDeleteQueue u), length (identityMap u)]"

subsection \<open>One instance per row\<close>

text \<open>The calls of a program, and its own edits of the instances.\<close>
datatype 'c buffer_call = Track nat | Untrack nat | Persist nat | Remove nat | Detach nat | Detach_By_Pk 'c fields | Detach_All
  | Clear | Mark_Dirty nat | Mark_Read_Only nat | Save 'c fields | Delete 'c fields | Update_Many 'c fields fields
  | Delete_Many 'c fields | Look_Up 'c fields | Edit nat string uval

fun run_call :: "'c setting \<Rightarrow> buffer_options \<Rightarrow> ('c \<Rightarrow> 'c \<Rightarrow> bool) \<Rightarrow> nat \<Rightarrow> 'c buffer_call \<Rightarrow> ('c uow, 'e unit_error, unit) io" where
  "run_call S opts sub n (Track i) = buffer_track S i"
| "run_call S opts sub n (Untrack i) = untrack S i"
| "run_call S opts sub n (Persist i) = persist S i"
| "run_call S opts sub n (Remove i) = buffer_remove S i"
| "run_call S opts sub n (Detach i) = detach S opts n i"
| "run_call S opts sub n (Detach_By_Pk c pk) = detachByPk S opts n c pk"
| "run_call S opts sub n Detach_All = (\<lambda>u. (Inr (), detachAll u))"
| "run_call S opts sub n Clear = (\<lambda>u. (Inr (), clear_uow u))"
| "run_call S opts sub n (Mark_Dirty i) = markDirty i"
| "run_call S opts sub n (Mark_Read_Only i) = markReadOnly i"
| "run_call S opts sub n (Save c d) = buffer_save S c d"
| "run_call S opts sub n (Delete c d) = buffer_delete S c d"
| "run_call S opts sub n (Update_Many c w d) = updateMany S c w d"
| "run_call S opts sub n (Delete_Many c w) = deleteMany S c w"
| "run_call S opts sub n (Look_Up c w) = (\<lambda>u. (Inr (), case cached_lookup S opts sub c True (Some w) u of None \<Rightarrow> u | Some (i, u') \<Rightarrow> u'))"
| "run_call S opts sub n (Edit i col v) = (\<lambda>u. (Inr (), set_value i col v u))"

text \<open>The key an instance has now.\<close>
definition key_of :: "'c setting \<Rightarrow> 'c uow \<Rightarrow> nat \<Rightarrow> string option" where
  "key_of S u i = (let c = constructor_of (instances u i) in identity_key S c (instances u i) (snd (getColumnInfo S c)))"

text \<open>An edit leaves the key alone: the program does not renumber a tracked row, or move it to another tenant.\<close>
definition keeps_keys :: "'c setting \<Rightarrow> 'c buffer_call \<Rightarrow> 'c uow \<Rightarrow> bool" where
  "keeps_keys S a u = (case a of Edit i col v \<Rightarrow> jm_get (trackedEntries u) i = None \<or> key_of S (set_value i col v u) i = key_of S u i | _ \<Rightarrow> True)"

inductive unit_of_work :: "'c setting \<Rightarrow> buffer_options \<Rightarrow> ('c \<Rightarrow> 'c \<Rightarrow> bool) \<Rightarrow> 'c uow \<Rightarrow> bool" for S opts sub where
  opened: "unit_of_work S opts sub (new_uow heap n)"
| called: "unit_of_work S opts sub u \<Longrightarrow> keeps_keys S a u \<Longrightarrow> run_call S opts sub n a u = (r :: unit unit_error + unit, u') \<Longrightarrow> unit_of_work S opts sub u'"

definition uow_inv :: "'c setting \<Rightarrow> 'c uow \<Rightarrow> bool" where
  "uow_inv S u \<longleftrightarrow> jm_wf (identityMap u) \<and> jm_wf (trackedEntries u) \<and>
     (\<forall>i e. jm_get (trackedEntries u) i = Some e \<longrightarrow>
        te_entity e = constructor_of (instances u i) \<and> te_pks e = snd (getColumnInfo S (te_entity e)) \<and> key_of S u i \<noteq> None) \<and>
     (\<forall>k i. jm_get (identityMap u) k = Some i \<longleftrightarrow> jm_get (trackedEntries u) i \<noteq> None \<and> key_of S u i = Some k)"


definition keeps_inv :: "'c setting \<Rightarrow> ('c uow, 'e unit_error, 'a) io \<Rightarrow> bool" where
  "keeps_inv S m \<longleftrightarrow> (\<forall>u. uow_inv S u \<longrightarrow> uow_inv S (snd (m u)))"

named_theorems keeps_intros \<open>what keeps the invariant\<close>

lemma buffer_keeps_return [keeps_intros]: "keeps_inv S (io_return a)"
  and keeps_throw [keeps_intros]: "keeps_inv S (io_throw e)"
  by (simp_all add: keeps_inv_def io_defs)

lemma buffer_keeps_bind [keeps_intros]: "keeps_inv S m \<Longrightarrow> (\<And>a. keeps_inv S (f a)) \<Longrightarrow> keeps_inv S (io_bind m f)"
  unfolding keeps_inv_def io_bind_def by (auto split: prod.splits sum.splits)

lemma buffer_keeps_then [keeps_intros]: "keeps_inv S m \<Longrightarrow> keeps_inv S k \<Longrightarrow> keeps_inv S (io_then m k)"
  unfolding io_then_def by (rule buffer_keeps_bind)

lemma buffer_keepsI: "(\<And>u. uow_inv S u \<Longrightarrow> uow_inv S (snd (m u))) \<Longrightarrow> keeps_inv S m"
  by (simp add: keeps_inv_def)

lemma buffer_keepsD: "keeps_inv S m \<Longrightarrow> uow_inv S u \<Longrightarrow> uow_inv S (snd (m u))"
  by (simp add: keeps_inv_def)

lemma uow_inv_cong:
  "instances u' = instances u \<Longrightarrow> identityMap u' = identityMap u \<Longrightarrow> trackedEntries u' = trackedEntries u \<Longrightarrow> uow_inv S u' = uow_inv S u"
proof -
  assume eq: "instances u' = instances u" "identityMap u' = identityMap u" "trackedEntries u' = trackedEntries u"
  have "key_of S u' = key_of S u" by (rule ext) (simp only: key_of_def eq)
  then show ?thesis unfolding uow_inv_def eq by simp
qed

lemma keeps_fields [keeps_intros]:
  "(\<And>u. instances (f u) = instances u \<and> identityMap (f u) = identityMap u \<and> trackedEntries (f u) = trackedEntries u) \<Longrightarrow>
   keeps_inv S (\<lambda>u. (Inr a, f u))"
  by (rule buffer_keepsI) (metis snd_conv uow_inv_cong)

lemma keeps_validate [keeps_intros]: "keeps_inv S (validateEntity S' c)"
  by (simp add: validateEntity_def keeps_intros)

lemma keeps_key [keeps_intros]: "keeps_inv S (buildIdentityKey S' c i pks)"
  by (rule buffer_keepsI) (simp add: buildIdentityKey_def split: option.splits)

lemma inv_tracked:
  "uow_inv S u \<Longrightarrow> jm_get (trackedEntries u) i = Some e \<Longrightarrow>
   te_entity e = constructor_of (instances u i) \<and> te_pks e = snd (getColumnInfo S (te_entity e)) \<and>
   (\<exists>k. identity_key S (te_entity e) (instances u i) (te_pks e) = Some k \<and> key_of S u i = Some k \<and> jm_get (identityMap u) k = Some i)"
  by (auto simp: uow_inv_def key_of_def Let_def)

lemma inv_found:
  "uow_inv S u \<Longrightarrow> jm_get (identityMap u) k = Some i \<longleftrightarrow> jm_get (trackedEntries u) i \<noteq> None \<and> key_of S u i = Some k"
  unfolding uow_inv_def by blast

lemma inv_remove:
  assumes "uow_inv S u" "jm_get (trackedEntries u) i \<noteq> None" "key_of S u i = Some k"
    and u': "instances u' = instances u" "identityMap u' = jm_delete k (identityMap u)" "trackedEntries u' = jm_delete i (trackedEntries u)"
  shows "uow_inv S u'"
proof -
  have key: "key_of S u' = key_of S u" using u'(1) by (simp add: key_of_def fun_eq_iff)
  have uniq: "j = i" if "jm_get (trackedEntries u) j \<noteq> None" "key_of S u j = Some k" for j
    using assms(1,2,3) that unfolding uow_inv_def by (metis option.inject)
  have wf: "jm_wf (identityMap u')" "jm_wf (trackedEntries u')"
    using assms(1) u' by (auto simp: uow_inv_def jm_wf_delete)
  have "jm_get (identityMap u') k' = Some j \<longleftrightarrow> jm_get (trackedEntries u') j \<noteq> None \<and> key_of S u' j = Some k'" for k' j
  proof (cases "k' = k")
    case True
    have "\<not> (jm_get (trackedEntries u') j \<noteq> None \<and> key_of S u' j = Some k')"
      using uniq[of j] u'(3) key True by (auto simp: jm_get_delete split: if_splits)
    then show ?thesis using True u'(2) by (simp add: jm_get_delete)
  next
    case False
    then have "jm_get (identityMap u') k' = Some j \<longleftrightarrow> jm_get (trackedEntries u) j \<noteq> None \<and> key_of S u j = Some k'"
      using assms(1) u'(2) by (simp add: jm_get_delete uow_inv_def)
    moreover have "j = i \<Longrightarrow> key_of S u j \<noteq> Some k'" using False assms(3) by simp
    ultimately show ?thesis using u'(3) key by (auto simp: jm_get_delete)
  qed
  then show ?thesis using wf assms(1) key u' by (auto simp: uow_inv_def jm_get_delete split: if_splits)
qed

lemma forget_absent: "jm_get m i = None \<Longrightarrow> jm_delete i m = m"
  by (simp add: delete_idem map_of_eq_None_iff)

lemma keeps_untrack [keeps_intros]: "keeps_inv S (untrack S i)"
proof (rule buffer_keepsI)
  fix u :: "'a uow" assume inv: "uow_inv S u"
  show "uow_inv S (snd (untrack S i u))"
  proof (cases "jm_get (trackedEntries u) i")
    case None
    then have "uow_inv S (forget i u) = uow_inv S u" by (intro uow_inv_cong) (simp_all add: forget_def forget_absent)
    then show ?thesis using None inv by (simp add: untrack_def drop_identity_def io_defs)
  next
    case (Some e)
    from inv_tracked[OF inv Some] obtain k where k: "identity_key S (te_entity e) (instances u i) (te_pks e) = Some k" "key_of S u i = Some k"
      by blast
    have "uow_inv S (forget i (unmap_key k u))"
      by (rule inv_remove[OF inv _ k(2)]) (simp_all add: Some forget_def unmap_key_def)
    then show ?thesis using Some k(1) by (simp add: untrack_def drop_identity_def buildIdentityKey_def io_defs)
  qed
qed

lemma evict_fold_inv:
  "uow_inv S u \<Longrightarrow> set kis \<subseteq> set (identityMap u) \<Longrightarrow> distinct (map fst kis) \<Longrightarrow> uow_inv S (fold evict_one kis u)"
proof (induction kis arbitrary: u)
  case (Cons ki kis)
  obtain k i where ki: "ki = (k, i)" by (cases ki)
  have "jm_get (identityMap u) k = Some i"
    using Cons.prems ki by (auto simp: uow_inv_def jm_get_iff)
  then have "jm_get (trackedEntries u) i \<noteq> None" "key_of S u i = Some k" using Cons.prems(1) by (auto simp: uow_inv_def)
  then have "uow_inv S (evict_one ki u)" by (rule inv_remove[OF Cons.prems(1)]) (simp_all add: evict_one_def ki)
  moreover have "set kis \<subseteq> set (identityMap (evict_one ki u))"
    using Cons.prems(2,3) ki by (force simp: evict_one_def AList.delete_eq)
  ultimately show ?case using Cons.IH Cons.prems(3) by simp
qed simp

lemma evict_inv: "uow_inv S u \<Longrightarrow> uow_inv S (evictIfNeeded u)"
proof -
  assume inv: "uow_inv S u"
  have "distinct (map fst (take n (filter P (identityMap u))))" for n P
    using inv by (simp add: uow_inv_def jm_wf_def distinct_map_filter take_map[symmetric])
  moreover have "set (take n (filter P (identityMap u))) \<subseteq> set (identityMap u)" for n P
    by (rule subset_trans[OF set_take_subset]) auto
  ultimately have step: "uow_inv S (fold evict_one (take n (filter P (identityMap u))) u)" for n P
    by (rule evict_fold_inv[OF inv, rotated])
  show ?thesis using inv by (simp add: evictIfNeeded_def keys_to_evict_take step split: option.splits)
qed

lemma store_inv:
  assumes inv: "uow_inv S u" and new: "jm_get (trackedEntries u) i = None" and key: "key_of S u i = Some k"
    and free: "jm_get (identityMap u) k = None \<or> jm_get (identityMap u) k = Some i"
  shows "uow_inv S (store_entry S i k u)"
proof -
  let ?u = "store_entry S i k u"
  have k: "key_of S ?u = key_of S u" by (simp add: key_of_def store_entry_def Let_def fun_eq_iff)
  have free: "jm_get (identityMap u) k = None" using free new inv by (auto simp: uow_inv_def)
  have "jm_get (identityMap ?u) k' = Some j \<longleftrightarrow> jm_get (trackedEntries ?u) j \<noteq> None \<and> key_of S ?u j = Some k'" for k' j
  proof (cases "k' = k")
    case True
    have "\<not> (jm_get (trackedEntries u) j \<noteq> None \<and> key_of S u j = Some k)"
      using inv free unfolding uow_inv_def by (metis option.distinct(1))
    then show ?thesis using True k key by (auto simp: store_entry_def Let_def jm_get_set)
  next
    case False
    then have "jm_get (identityMap ?u) k' = Some j \<longleftrightarrow> jm_get (trackedEntries u) j \<noteq> None \<and> key_of S u j = Some k'"
      using inv by (simp add: store_entry_def Let_def jm_get_set uow_inv_def)
    then show ?thesis using False k key new by (auto simp: store_entry_def Let_def jm_get_set)
  qed
  moreover have "jm_wf (identityMap ?u)" "jm_wf (trackedEntries ?u)"
    using inv by (simp_all add: uow_inv_def store_entry_def Let_def jm_wf_set)
  moreover have "te_entity e = constructor_of (instances ?u j) \<and> te_pks e = snd (getColumnInfo S (te_entity e)) \<and> key_of S ?u j \<noteq> None"
    if "jm_get (trackedEntries ?u) j = Some e" for j e
    using that inv k key by (auto simp: store_entry_def Let_def jm_get_set uow_inv_def split: if_splits)
  ultimately show ?thesis unfolding uow_inv_def by blast
qed

lemma keeps_track [keeps_intros]: "keeps_inv S (buffer_track S i)"
proof (rule buffer_keepsI)
  fix u :: "'a uow" assume inv: "uow_inv S u"
  let ?c = "constructor_of (instances u i)"
  show "uow_inv S (snd (buffer_track S i u))"
  proof (cases "jm_get (trackedEntries u) i \<noteq> None \<or> ?c \<notin> set (registered S) \<or> key_of S u i = None")
    case True
    then show ?thesis using inv
      by (auto simp: buffer_track_def Let_def io_defs validateEntity_def buildIdentityKey_def key_of_def split: option.splits)
  next
    case False
    then obtain k where k: "key_of S u i = Some k" by auto
    then have id: "identity_key S ?c (instances u i) (snd (getColumnInfo S ?c)) = Some k" by (simp add: key_of_def Let_def)
    show ?thesis
    proof (cases "jm_get (identityMap u) k = None \<or> jm_get (identityMap u) k = Some i")
      case True
      have "uow_inv S (evictIfNeeded (store_entry S i k u))"
        using False by (intro evict_inv store_inv[OF inv _ k True]) simp
      then show ?thesis using False True id
        by (auto simp: buffer_track_def Let_def io_defs validateEntity_def buildIdentityKey_def split: option.splits)
    next
      case other: False
      then show ?thesis using False id inv
        by (auto simp: buffer_track_def Let_def io_defs validateEntity_def buildIdentityKey_def split: option.splits)
    qed
  qed
qed

lemma instances_untrack: "instances (snd (untrack S i u)) = instances u"
  by (simp add: untrack_def drop_identity_def forget_def unmap_key_def buildIdentityKey_def io_defs split: option.splits)

lemma keeps_if [keeps_intros]: "(b \<Longrightarrow> keeps_inv S m) \<Longrightarrow> (\<not> b \<Longrightarrow> keeps_inv S k) \<Longrightarrow> keeps_inv S (if b then m else k)"
  by simp

lemma keeps_at: "(\<And>v. keeps_inv S (f v)) \<Longrightarrow> keeps_inv S (\<lambda>u. f u u)"
  by (simp add: keeps_inv_def)

lemma inv_same: "uow_inv S u \<Longrightarrow> instances u' = instances u \<Longrightarrow> identityMap u' = identityMap u \<Longrightarrow> trackedEntries u' = trackedEntries u \<Longrightarrow> uow_inv S u'"
  using uow_inv_cong by blast

lemma inv_updates [simp]:
  "uow_inv S (u\<lparr>deleteQueue := d\<rparr>) = uow_inv S u" "uow_inv S (u\<lparr>persistQueue := p\<rparr>) = uow_inv S u"
  "uow_inv S (u\<lparr>stateMap := s\<rparr>) = uow_inv S u" "uow_inv S (u\<lparr>insertQueue := q\<rparr>) = uow_inv S u"
  "uow_inv S (u\<lparr>bulkUpdateQueue := bu\<rparr>) = uow_inv S u" "uow_inv S (u\<lparr>bulkDeleteQueue := bd\<rparr>) = uow_inv S u"
  by (rule uow_inv_cong; simp)+

lemma inv_track: "uow_inv S u \<Longrightarrow> uow_inv S (snd (buffer_track S i u))"
  by (rule buffer_keepsD[OF keeps_track])

lemma keeps_persist [keeps_intros]: "keeps_inv S (persist S i)"
  unfolding persist_def Let_def
  by (rule keeps_at, rule buffer_keeps_then[OF keeps_validate], rule buffer_keepsI)
     (simp add: cancelQueuedDelete_def set_state_def inv_track)

lemma inv_untrack_if:
  assumes "uow_inv S u" "\<And>u. uow_inv S u \<Longrightarrow> uow_inv S (f u)"
  shows "uow_inv S (snd (io_then (if b then untrack S i else io_return ()) (\<lambda>u. (Inr a, f u)) u))"
  by (rule buffer_keepsD[OF buffer_keeps_then[OF keeps_if[OF keeps_untrack buffer_keeps_return]]]) (simp_all add: buffer_keepsI assms)

lemmas inv_untrack_then = inv_untrack_if[where b = True, simplified] inv_untrack_if[where b = False, simplified] inv_untrack_if

lemma keeps_remove [keeps_intros]: "keeps_inv S (buffer_remove S i)"
  unfolding buffer_remove_def Let_def
  by (rule keeps_at, rule buffer_keeps_then[OF keeps_validate], rule buffer_keepsI)
     (simp add: inv_untrack_then set_state_def split: list.split)

lemma keeps_detach_one [keeps_intros]: "keeps_inv S (detach_one S i)"
  unfolding detach_one_def by (intro keeps_intros) simp

lemma keeps_detach_walk [keeps_intros]:
  fixes S :: "'a setting"
  shows "keeps_inv S (detach_walk S cascading n is visited :: ('a uow, 'e unit_error, nat list) io)"
proof (induction n arbitrary: "is" visited)
  case 0
  show ?case by (induction "is" arbitrary: visited) (simp_all add: buffer_keeps_return)
next
  case (Suc n)
  let ?walk = "detach_walk S cascading :: nat \<Rightarrow> nat list \<Rightarrow> nat list \<Rightarrow> ('a uow, 'e unit_error, nat list) io"
  show ?case
  proof (induction "is" arbitrary: visited)
    case (Cons i "is")
    have "keeps_inv S (io_bind (?walk n r v) (?walk (Suc n) is))" for r v
      by (rule buffer_keeps_bind) (rule Suc.IH, rule Cons.IH)
    then have "keeps_inv S (io_then (detach_one S i) (\<lambda>u. io_bind (?walk n (rel u) v) (?walk (Suc n) is) u))" for rel v
      by (intro buffer_keeps_then[OF keeps_detach_one] buffer_keepsI) (blast intro: buffer_keepsD)
    then show ?case by (simp add: Cons.IH)
  qed (simp add: buffer_keeps_return)
qed

lemma keeps_detach [keeps_intros]: "keeps_inv S (detach S opts n i)"
  unfolding detach_def by (intro keeps_intros)

lemma keeps_detachByPk [keeps_intros]: "keeps_inv S (detachByPk S opts n c pk)"
  unfolding detachByPk_def
  by (intro buffer_keeps_then[OF keeps_validate] buffer_keepsI) (auto split: option.splits intro: buffer_keepsD[OF keeps_detach])

lemma inv_empty: "uow_inv S u \<Longrightarrow> instances u' = instances u \<Longrightarrow> identityMap u' = [] \<Longrightarrow> trackedEntries u' = [] \<Longrightarrow> uow_inv S u'"
  by (simp add: uow_inv_def jm_wf_def)

lemma keeps_change [keeps_intros]:
  assumes "\<And>e. te_entity (f e) = te_entity e" "\<And>e. te_pks (f e) = te_pks e"
  shows "keeps_inv S (change_entry i f)"
proof (rule buffer_keepsI)
  fix u :: "'a uow" assume inv: "uow_inv S u"
  show "uow_inv S (snd (change_entry i f u))"
  proof (cases "jm_get (trackedEntries u) i")
    case (Some e)
    let ?u = "u\<lparr>trackedEntries := jm_set i (f e) (trackedEntries u)\<rparr>"
    have key: "key_of S ?u = key_of S u" by (rule ext) (simp add: key_of_def)
    have "uow_inv S ?u"
      unfolding uow_inv_def key
      using inv Some by (auto simp: uow_inv_def jm_wf_set jm_get_set assms split: if_splits)
    then show ?thesis by (simp add: change_entry_def Some)
  qed (simp add: change_entry_def inv)
qed

lemma touch_inv:
  assumes inv: "uow_inv S u"
  shows "uow_inv S (touch k u)"
proof (cases "jm_get (identityMap u) k")
  case (Some i)
  have key: "key_of S (touch k u) = key_of S u" by (rule ext) (simp add: key_of_def touch_def split: option.splits)
  have "jm_get (identityMap (touch k u)) k' = jm_get (identityMap u) k'" for k'
    using Some by (simp add: touch_def jm_get_set jm_get_delete split: option.splits)
  moreover have "jm_wf (identityMap (touch k u))" using inv by (simp add: touch_def uow_inv_def jm_wf_set jm_wf_delete split: option.splits)
  moreover have "trackedEntries (touch k u) = trackedEntries u" "instances (touch k u) = instances u" by (simp_all add: touch_def split: option.splits)
  ultimately show ?thesis using inv unfolding uow_inv_def key by simp
qed (simp add: touch_def inv split: option.splits)

lemma edit_inv:
  assumes inv: "uow_inv S u" and same: "jm_get (trackedEntries u) i = None \<or> key_of S (set_value i col v u) i = key_of S u i"
  shows "uow_inv S (set_value i col v u)"
proof -
  let ?u = "set_value i col v u"
  have fields: "identityMap ?u = identityMap u" "trackedEntries ?u = trackedEntries u" by (simp_all add: set_value_def)
  have cls: "constructor_of (instances ?u j) = constructor_of (instances u j)" for j by (simp add: set_value_def)
  have key: "key_of S ?u j = key_of S u j" if "jm_get (trackedEntries u) j \<noteq> None" for j
  proof (cases "j = i")
    case False
    then show ?thesis by (simp add: key_of_def set_value_def)
  qed (use same that in auto)
  have "jm_get (identityMap ?u) k = Some j \<longleftrightarrow> jm_get (trackedEntries ?u) j \<noteq> None \<and> key_of S ?u j = Some k" for k j
    unfolding fields inv_found[OF inv] using key[of j] by metis
  moreover have "te_entity e = constructor_of (instances ?u j) \<and> te_pks e = snd (getColumnInfo S (te_entity e)) \<and> key_of S ?u j \<noteq> None"
    if "jm_get (trackedEntries ?u) j = Some e" for j e
    using inv_tracked[OF inv that[unfolded fields]] key[of j] that[unfolded fields] cls by force
  ultimately show ?thesis using inv unfolding uow_inv_def fields by blast
qed

lemma run_call_inv:
  assumes "uow_inv S u" "keeps_keys S a u"
  shows "uow_inv S (snd (run_call S opts sub n a u))"
proof (cases a)
  case (Look_Up c w)
  then show ?thesis using assms(1) touch_inv[OF assms(1)]
    by (auto simp: cached_lookup_def split: option.splits if_splits)
next
  case (Edit i col v)
  then show ?thesis using assms edit_inv[OF assms(1)] by (simp add: keeps_keys_def)
next
  case Detach_All
  then show ?thesis using inv_empty[OF assms(1)] by (simp add: detachAll_def Let_def)
next
  case Clear
  then show ?thesis using inv_empty[OF assms(1)] by (simp add: clear_uow_def)
next
  case (Save c d)
  then show ?thesis using assms(1) by (simp add: buffer_save_def validateEntity_def io_defs)
next
  case (Delete c d)
  then show ?thesis using assms(1) by (simp add: buffer_delete_def validateEntity_def io_defs)
next
  case (Update_Many c w d)
  then show ?thesis using assms(1) by (simp add: updateMany_def validateEntity_def io_defs)
next
  case (Delete_Many c w)
  then show ?thesis using assms(1) by (simp add: deleteMany_def validateEntity_def io_defs)
qed (use assms(1) in \<open>simp_all add: markDirty_def markReadOnly_def buffer_keepsD keeps_track keeps_untrack keeps_persist keeps_remove keeps_detach keeps_detachByPk keeps_change\<close>)

lemma unit_of_work_inv: "unit_of_work S opts sub u \<Longrightarrow> uow_inv S u"
proof (induction rule: unit_of_work.induct)
  case (opened heap n)
  show ?case by (simp add: uow_inv_def new_uow_def jm_wf_def)
next
  case (called u a n r u')
  then show ?case using run_call_inv[OF called.IH called.hyps(2)] called.hyps(3) by (metis snd_conv)
qed


text \<open>A persisted instance is removed from the queue, and one removed from the rows comes back.\<close>
lemma remove_persist_append: "i \<notin> set (map pe_instance q) \<Longrightarrow> pe_instance p = i \<Longrightarrow> remove_persist i (q @ [p]) = q"
  by (induction q) auto

lemma untrack_fields: "snd (untrack S i u) = u \<lparr>trackedEntries := trackedEntries (snd (untrack S i u)), identityMap := identityMap (snd (untrack S i u)), stateMap := stateMap (snd (untrack S i u))\<rparr>"
  by (simp add: untrack_def drop_identity_def forget_def unmap_key_def buildIdentityKey_def io_defs split: option.splits)

lemma keys_fold_set: "set (map fst (fold (\<lambda>pk w. jm_set pk (f pk) w) pks w)) = set (map fst w) \<union> set pks"
  and wf_fold_set: "jm_wf w \<Longrightarrow> jm_wf (fold (\<lambda>pk w. jm_set pk (f pk) w) pks w)"
  by (induction pks arbitrary: w) (simp_all add: dom_update jm_wf_set insert_commute)

lemma field_buildPkWhere:
  "field_of (buildPkWhere fs pks) k = (if k \<in> set pks then field_of fs k else U_Undef)"
proof -
  have "field_of (fold (\<lambda>pk w. jm_set pk (field_of fs pk) w) pks w) k = (if k \<in> set pks then field_of fs k else field_of w k)" for w
    by (induction pks arbitrary: w) auto
  then show ?thesis by (simp add: buildPkWhere_def field_of_def)
qed

lemma length_buildPkWhere: "distinct pks \<Longrightarrow> length (buildPkWhere fs pks) = length pks"
proof -
  assume d: "distinct pks"
  let ?w = "buildPkWhere fs pks"
  have "distinct (map fst ?w)" using wf_fold_set[of "[]" "field_of fs" pks] by (simp add: buildPkWhere_def jm_wf_def)
  moreover have "set (map fst ?w) = set pks" using keys_fold_set[of "field_of fs" pks "[]"] by (simp add: buildPkWhere_def)
  ultimately show ?thesis using d by (metis distinct_card length_map)
qed

text \<open>C34: The identity map answers a lookup by primary key: when the row is tracked and the options allow it, the lookup
  finds the tracked instance, whatever the text form in which the key is given.\<close>
theorem lookup_finds_tracked:
  assumes "unit_of_work S opts sub u" and tracked: "jm_get (trackedEntries u) i \<noteq> None" and c: "c = constructor_of (instances u i)"
    and key: "tryBuildCacheKey S c True (Some w) = Some k"
    and same: "\<And>pk. pk \<in> set (snd (getColumnInfo S c)) \<Longrightarrow>
      value_text (other_text S) (value_at u i pk) = value_text (other_text S) (field_of w pk)"
    and tenant: "resolveTenantPrefixFromContext S c = Some (resolveTenantPrefixFromInstance S c (fields_of (instances u i)))"
    and "flushMode opts \<noteq> ALWAYS" "sub c c" "i \<notin> set (referenceStubs u)"
  shows "cached_lookup S opts sub c True (Some w) u = Some (i, touch k u)"
proof -
  have inv: "uow_inv S u" by (rule unit_of_work_inv[OF assms(1)])
  from tracked obtain e where e: "jm_get (trackedEntries u) i = Some e" by blast
  let ?pks = "snd (getColumnInfo S c)"
  from inv_tracked[OF inv e] c obtain k' where k': "identity_key S c (instances u i) ?pks = Some k'"
    "jm_get (identityMap u) k' = Some i" by auto
  then have full: "\<not> nullish (field_of (fields_of (instances u i)) pk)" if "pk \<in> set ?pks" for pk
    using that by (auto simp: identity_key_def list_ex_iff split: if_splits)
  have "identity_key S c (instances u i) ?pks = Some k"
  proof (rule cache_key_is_identity_key[OF key refl _ _ tenant])
    show "\<forall>pk\<in>set ?pks. \<not> nullish (field_of (fields_of (instances u i)) pk) \<and>
        value_text (other_text S) (field_of (fields_of (instances u i)) pk) = value_text (other_text S) (field_of w pk)"
      using full same by (simp add: value_at_def)
    show "resolveIdentityKeyClass S c (Some (constructor_of (instances u i))) = resolveIdentityKeyClass S c None"
      using c by (simp add: resolveIdentityKeyClass_def)
  qed
  then have "jm_get (identityMap u) k = Some i" using k' by simp
  then show ?thesis using key c assms(7-9) by (simp add: cached_lookup_def)
qed

text \<open>The criteria of a removal match the row they were built from, as long as no key value is an object.\<close>
lemma removal_matches:
  assumes "distinct pks" "\<forall>pk \<in> set pks. strictly_equal (field_of fs pk) (field_of fs pk)"
  shows "deletes_row c fs pks (c, buildPkWhere fs pks)"
  using assms by (simp add: deletes_row_def length_buildPkWhere field_buildPkWhere list_all_iff)

lemma tracked_key: "uow_inv S u \<Longrightarrow> jm_get (trackedEntries u) i = Some e \<Longrightarrow> \<exists>k. key_of S u i = Some k"
  using inv_tracked by blast

lemma untrack_tracked:
  assumes inv: "uow_inv S u" and e: "jm_get (trackedEntries u) i = Some e" and k: "key_of S u i = Some k"
  shows "untrack S i u = (Inr (), forget i (unmap_key k u))"
  using inv_tracked[OF inv e] e k by (auto simp: untrack_def drop_identity_def buildIdentityKey_def io_defs)

lemma track_new:
  assumes "jm_get (trackedEntries u) i = None" "constructor_of (instances u i) \<in> set (registered S)" "key_of S u i = Some k" "jm_get (identityMap u) k = None"
  shows "buffer_track S i u = (Inr (), evictIfNeeded (store_entry S i k u))"
  using assms by (simp add: buffer_track_def key_of_def Let_def validateEntity_def buildIdentityKey_def io_defs)

text \<open>C29: Persisting a removed row takes the removal back: removing a tracked row with a generated key queues a delete of
  exactly that row, and persisting it again takes every such delete off the queue and tracks the row, with the values
  it has now as the baseline; nothing else was queued.\<close>
theorem remove_persist_roundtrip:
  assumes "unit_of_work S opts sub u" and e: "jm_get (trackedEntries u) i = Some e" and c: "c = constructor_of (instances u i)"
    and reg: "c \<in> set (registered S)" and new: "i \<notin> set (map pe_instance (persistQueue u))"
    and gen: "hasGeneratedPk S c" and pks: "pks = snd (getColumnInfo S c)" "distinct pks"
    and plain: "\<forall>pk \<in> set pks. strictly_equal (value_at u i pk) (value_at u i pk)"
    and "maxIdentityMapSize u = None"
  shows "\<exists>u1 u2. buffer_remove S i u = (Inr (), u1) \<and> persist S i u1 = (Inr (), u2) \<and>
    deleteQueue u1 = deleteQueue u @ [(c, buildPkWhere (fields_of (instances u i)) pks)] \<and>
    getState u1 i = REMOVED \<and> jm_get (trackedEntries u1) i = None \<and>
    deleteQueue u2 = filter (\<lambda>d. \<not> deletes_row c (fields_of (instances u i)) pks d) (deleteQueue u) \<and>
    persistQueue u2 = persistQueue u \<and> insertQueue u2 = insertQueue u \<and> getState u2 i = MANAGED \<and>
    map_option te_snapshot (jm_get (trackedEntries u2) i) = Some (snapshot (fields_of (instances u i)) (fst (getColumnInfo S c)))"
proof -
  have inv: "uow_inv S u" by (rule unit_of_work_inv[OF assms(1)])
  from tracked_key[OF inv e] obtain k where k: "key_of S u i = Some k" by blast
  let ?q = "deleteQueue u @ [(c, buildPkWhere (fields_of (instances u i)) pks)]"
  let ?u0 = "forget i (unmap_key k u)"
  let ?u1 = "set_state i REMOVED (?u0\<lparr>deleteQueue := ?q\<rparr>)"
  have full: "\<not> nullish (value_at u i pk)" if "pk \<in> set pks" for pk
    using k that pks(1) c by (auto simp: key_of_def identity_key_def Let_def list_ex_iff value_at_def split: if_splits)
  have queue: "deleteQueue ?u0 = deleteQueue u" by (simp add: forget_def unmap_key_def)
  have "filter (\<lambda>pk. nullish (value_at u i pk)) pks = []" using full by (simp add: filter_empty_conv)
  then have removed: "buffer_remove S i u = (Inr (), ?u1)"
    using e reg new c queue pks(1) by (simp add: untrack_tracked[OF inv e k] buffer_remove_def Let_def validateEntity_def io_defs)
  let ?v = "?u1\<lparr>deleteQueue := filter (\<lambda>d. \<not> deletes_row c (fields_of (instances u i)) pks d) (deleteQueue u)\<rparr>"
  have inst: "instances ?u1 = instances u" by (simp add: forget_def unmap_key_def set_state_def)
  have "cancelQueuedDelete c i pks ?u1 = ?v"
    using removal_matches[OF pks(2), of "fields_of (instances u i)" c] plain
    by (simp add: cancelQueuedDelete_def inst value_at_def) (simp add: set_state_def)
  moreover have "buffer_track S i ?v = (Inr (), evictIfNeeded (store_entry S i k ?v))"
  proof (rule track_new)
    show "key_of S ?v i = Some k" using k inst by (simp add: key_of_def)
    show "jm_get (identityMap ?v) k = None" by (simp add: set_state_def forget_def unmap_key_def jm_get_delete)
    show "jm_get (trackedEntries ?v) i = None" by (simp add: set_state_def forget_def unmap_key_def jm_get_delete)
  qed (use reg c inst in simp)
  ultimately have "persist S i ?u1 = (Inr (), evictIfNeeded (store_entry S i k ?v))"
    using gen reg c pks(1) full inst
    by (simp add: persist_def Let_def validateEntity_def io_defs list_all_iff value_at_def)
  moreover have "evictIfNeeded (store_entry S i k ?v) = store_entry S i k ?v"
    using assms(10) by (simp add: evictIfNeeded_def store_entry_def Let_def set_state_def forget_def unmap_key_def)
  moreover have "getState ?u1 i = REMOVED" "jm_get (trackedEntries ?u1) i = None"
    by (simp_all add: getState_def set_state_def forget_def unmap_key_def jm_get_set jm_get_delete)
  moreover have "deleteQueue ?u1 = ?q" by (simp add: set_state_def)
  moreover have "getState (store_entry S i k ?v) i = MANAGED"
    "map_option te_snapshot (jm_get (trackedEntries (store_entry S i k ?v)) i) = Some (snapshot (fields_of (instances u i)) (fst (getColumnInfo S c)))"
    using inst c by (simp_all add: getState_def store_entry_def Let_def jm_get_set)
  moreover have "persistQueue (store_entry S i k ?v) = persistQueue u" "insertQueue (store_entry S i k ?v) = insertQueue u"
    "deleteQueue (store_entry S i k ?v) = filter (\<lambda>d. \<not> deletes_row c (fields_of (instances u i)) pks d) (deleteQueue u)"
    by (simp_all add: store_entry_def Let_def set_state_def forget_def unmap_key_def)
  ultimately show ?thesis using removed by auto
qed

text \<open>
  With a key the application assigns, the removal is not taken back: the row is queued for insertion and the delete
  stays queued.
\<close>
lemma natural_key_stays_removed:
  assumes "uow_inv S u" "jm_get (trackedEntries u) i = Some e" and c: "c = constructor_of (instances u i)"
    and reg: "c \<in> set (registered S)" and new: "i \<notin> set (map pe_instance (persistQueue u))" and gen: "\<not> hasGeneratedPk S c"
    and pks: "pks = snd (getColumnInfo S c)"
  shows "\<exists>u1 u2. buffer_remove S i u = (Inr (), u1) \<and> persist S i u1 = (Inr (), u2) \<and>
    deleteQueue u2 = deleteQueue u @ [(c, buildPkWhere (fields_of (instances u i)) pks)] \<and>
    map pe_instance (persistQueue u2) = map pe_instance (persistQueue u) @ [i]"
proof -
  from tracked_key[OF assms(1,2)] obtain k where k: "key_of S u i = Some k" by blast
  have full: "\<not> nullish (value_at u i pk)" if "pk \<in> set pks" for pk
    using k that pks c by (auto simp: key_of_def identity_key_def Let_def list_ex_iff value_at_def split: if_splits)
  then have none: "filter (\<lambda>pk. nullish (value_at u i pk)) pks = []" by (simp add: filter_empty_conv)
  let ?u1 = "set_state i REMOVED ((forget i (unmap_key k u))\<lparr>deleteQueue := deleteQueue u @ [(c, buildPkWhere (fields_of (instances u i)) pks)]\<rparr>)"
  have removed: "buffer_remove S i u = (Inr (), ?u1)"
    using none assms(2) reg new c pks by (simp add: untrack_tracked[OF assms(1,2) k] buffer_remove_def Let_def validateEntity_def io_defs) (simp add: forget_def unmap_key_def)
  have "persist S i ?u1 = (Inr (), set_state i NEW (?u1\<lparr>persistQueue := persistQueue u @
      [\<lparr>pe_entity = c, pe_instance = i, pe_columns = fst (getColumnInfo S c), pe_pks = pks\<rparr>]\<rparr>))"
    using gen reg c new pks
    by (simp add: persist_def Let_def validateEntity_def io_defs set_state_def forget_def unmap_key_def jm_get_set jm_get_delete)
  then show ?thesis using removed by (intro exI[of _ ?u1] exI conjI) (assumption | simp add: set_state_def)+
qed

text \<open>The marker equals nothing but itself.\<close>
lemma deepEquals_marker: "v \<noteq> U_Merge_Dirty \<Longrightarrow> \<not> deepEquals v U_Merge_Dirty"
  by (cases v) (simp_all add: deepEquals.simps nullish_def)

lemma field_forced_snapshot:
  "field_of (forced_snapshot fs cols pks) c =
     (if c \<notin> set cols then U_Undef else if c \<in> set pks then field_of fs c else if field_of fs c = U_Undef then U_Undef else U_Merge_Dirty)"
proof -
  let ?v = "\<lambda>c. if c \<in> set pks then field_of fs c else if field_of fs c = U_Undef then U_Undef else U_Merge_Dirty"
  have "field_of (fold (\<lambda>col sn. jm_set col (?v col) sn) cols sn) c = (if c \<in> set cols then ?v c else field_of sn c)" for sn
    by (induction cols arbitrary: sn) auto
  then show ?thesis by (simp add: forced_snapshot_def field_of_def)
qed

lemma forced_changes:
  assumes "\<forall>c. field_of fs c \<noteq> U_Merge_Dirty"
  shows "changed_columns fs (forced_snapshot fs cols pks) cols pks = {c \<in> set cols - set pks. field_of fs c \<noteq> U_Undef}"
proof -
  have "deepEquals U_Undef U_Undef" by code_simp
  then show ?thesis using assms by (auto simp: changed_columns_def field_forced_snapshot deepEquals_marker)
qed


subsection \<open>Runs\<close>

definition default_options :: buffer_options where
  "default_options = \<lparr>cascade = resolveCascadeOptions None, retainAfterFlush = True, flushMode = MANUAL, changeTracking = DEFERRED_IMPLICIT\<rparr>"

text \<open>Two users tracked, the first renamed since; a third one tracks a row that is there already.\<close>
definition two_users :: "nat uow" where
  "two_users = set_value 1 ''name'' (U_Str ''ann'')
     (snd (buffer_track user_setting 2 (snd (buffer_track user_setting 1 (new_uow (\<lambda>i. user_named (if i = 7 then U_Str ''1'' else U_Num (int i)) ''x'') None) ::
        (unit unit_error + unit) \<times> nat uow)) :: (unit unit_error + unit) \<times> nat uow))"

lemma two_users_run: "unit_of_work user_setting default_options (=) two_users"
proof -
  let ?u0 = "new_uow (\<lambda>i. user_named (if i = 7 then U_Str ''1'' else U_Num (int i)) ''x'') None"
  let ?run = "\<lambda>a u. run_call user_setting default_options (=) 0 a u :: (unit unit_error + unit) \<times> nat uow"
  have step: "unit_of_work user_setting default_options (=) (snd (?run a u))"
    if "unit_of_work user_setting default_options (=) u" "keeps_keys user_setting a u" for a u
    by (rule unit_of_work.called[OF that, of 0 "fst (?run a u)"]) simp
  let ?u1 = "snd (?run (Track 1) ?u0)" and ?u2 = "snd (?run (Track 2) (snd (?run (Track 1) ?u0)))"
  have "unit_of_work user_setting default_options (=) ?u2"
    by (intro step unit_of_work.opened) (simp_all add: keeps_keys_def)
  moreover have "keeps_keys user_setting (Edit 1 ''name'' (U_Str ''ann'')) ?u2" by code_simp
  ultimately have "unit_of_work user_setting default_options (=) (snd (?run (Edit 1 ''name'' (U_Str ''ann'')) ?u2))" by (rule step)
  then show ?thesis by (simp add: two_users_def)
qed


theorem lookup_finds_tracked_witness:
  "cached_lookup user_setting default_options (=) 0 True (Some [(''id'', U_Str ''2'')]) two_users = Some (2, two_users)"
proof -
  have "cached_lookup user_setting default_options (=) 0 True (Some [(''id'', U_Str ''2'')]) two_users =
      Some (2, touch ''acme|User:id=2'' two_users)"
  proof (rule lookup_finds_tracked[OF two_users_run])
    show "value_text (other_text user_setting) (value_at two_users 2 pk) = value_text (other_text user_setting) (field_of [(''id'', U_Str ''2'')] pk)"
      if "pk \<in> set (snd (getColumnInfo user_setting 0))" for pk
    proof -
      have "snd (getColumnInfo user_setting 0) = [''id'']" by code_simp
      then have "pk = ''id''" using that by simp
      moreover have "value_text (other_text user_setting) (value_at two_users 2 ''id'') = value_text (other_text user_setting) (field_of [(''id'', U_Str ''2'')] ''id'')"
        by code_simp
      ultimately show ?thesis by simp
    qed
  qed code_simp+
  moreover have "maxIdentityMapSize two_users = None" by code_simp
  ultimately show ?thesis by (simp add: touch_def)
qed

theorem remove_persist_roundtrip_witness:
  "\<exists>u1 u2. buffer_remove user_setting 1 two_users = (Inr (), u1) \<and> persist user_setting 1 u1 = (Inr (), u2) \<and>
    deleteQueue u1 = [(0, [(''id'', U_Num 1)])] \<and> deleteQueue u2 = [] \<and> getState u2 1 = MANAGED"
proof -
  have q: "deleteQueue two_users = []" "buildPkWhere (fields_of (instances two_users 1)) [''id''] = [(''id'', U_Num 1)]" by code_simp+
  have "jm_get (trackedEntries two_users) 1 \<noteq> None" by code_simp
  then obtain e where e: "jm_get (trackedEntries two_users) 1 = Some e" by blast
  have f: "0 = constructor_of (instances two_users 1)" "0 \<in> set (registered user_setting)" "1 \<notin> set (map pe_instance (persistQueue two_users))"
    "hasGeneratedPk user_setting 0" "[''id''] = snd (getColumnInfo user_setting 0)" "distinct [''id'']"
    "\<forall>pk \<in> set [''id'']. strictly_equal (value_at two_users 1 pk) (value_at two_users 1 pk)" "maxIdentityMapSize two_users = None" by code_simp+
  show ?thesis using remove_persist_roundtrip[OF two_users_run e f] unfolding q by auto
qed


end
