(* ===== verification/Cascade.thy ===== *)
theory Cascade
  imports WriteBuffer
begin

section \<open>Cascading a flush over relations (src/core/plugin/buffer/CascadeProcessor.ts)\<close>

text \<open>
  What a flush writes beside the instances it was asked to write: the loaded children of a relation that cascades, the
  rows of join tables, the rows a cascading delete takes along. Entity manager, event listeners and clock are
  arguments; the database is the state they work on. Relation properties are apart from the columns of an instance,
  so the property of a many-to-one relation is not among the relations that are walked.
\<close>

subsection \<open>Cascade options (src/types/CascadeType.ts)\<close>

datatype cascade_type = C_Insert | C_Update | C_Delete | C_Remove

datatype cascade_option = Cascade_Flag bool | Cascade_Types "cascade_type list"

definition normalizeCascade :: "cascade_option option \<Rightarrow> cascade_type list" where
  "normalizeCascade c = (case c of
     None \<Rightarrow> []
   | Some (Cascade_Flag False) \<Rightarrow> []
   | Some (Cascade_Flag True) \<Rightarrow> [C_Insert, C_Update, C_Delete]
   | Some (Cascade_Types ts) \<Rightarrow> map (\<lambda>t. if t = C_Remove then C_Delete else t) ts)"

definition hasCascade :: "cascade_option option \<Rightarrow> cascade_type \<Rightarrow> bool" where
  "hasCascade c t = (let ts = normalizeCascade c in
     if t = C_Delete \<or> t = C_Remove then C_Delete \<in> set ts \<or> C_Remove \<in> set ts else t \<in> set ts)"

subsection \<open>Relations and their foreign keys (src/core/plugin/buffer/CollectionTracker.ts)\<close>

record 'c one_to_many =
  o2m_property :: string
  o2m_related :: 'c
  o2m_mappedBy :: string
  o2m_cascade :: "cascade_option option"

record 'c one_to_one =
  o2o_property :: string
  o2o_related :: 'c
  o2o_join_column :: "string option"
  o2o_cascade :: "cascade_option option"

record join_table =
  jt_name :: string
  jt_joinColumn :: string
  jt_inverseJoinColumn :: string

record 'c many_to_many =
  m2m_property :: string
  m2m_related :: 'c
  m2m_mappedBy :: "string option"
  m2m_joinTable :: "join_table option"

record many_to_one =
  m2o_columnName :: string
  m2o_joinColumn :: "string option"
  m2o_fkProperty :: "string option"
  m2o_references :: "string option"

record relation_column =
  rc_propertyKey :: string
  rc_name :: "string option"

record 'c relations =
  one_to_many_of :: "'c \<Rightarrow> 'c one_to_many list"
  one_to_one_of :: "'c \<Rightarrow> 'c one_to_one list"
  many_to_many_of :: "'c \<Rightarrow> 'c many_to_many list"
  many_to_one_of :: "'c \<Rightarrow> many_to_one list"
  relation_columns_of :: "'c \<Rightarrow> relation_column list"

text \<open>A string option that is used as a condition.\<close>
definition non_empty :: "string option \<Rightarrow> bool" where
  "non_empty s \<longleftrightarrow> s \<noteq> None \<and> s \<noteq> Some []"

definition inverse_of :: "'c relations \<Rightarrow> string \<Rightarrow> 'c \<Rightarrow> many_to_one option" where
  "inverse_of R mappedBy child = find (\<lambda>m. m2o_columnName m = mappedBy) (many_to_one_of R child)"

definition resolveFkColumn :: "'c setting \<Rightarrow> 'c relations \<Rightarrow> string \<Rightarrow> 'c \<Rightarrow> string" where
  "resolveFkColumn S R mappedBy child =
     (case find (\<lambda>rc. rc_propertyKey rc = mappedBy) (relation_columns_of R child) of
        Some rc \<Rightarrow> (case rc_name rc of Some n \<Rightarrow> n | None \<Rightarrow> mappedBy @ ''Id'')
      | None \<Rightarrow> (case Option.bind (inverse_of R mappedBy child) m2o_joinColumn of
          Some (ch # col) \<Rightarrow> ch # col
        | _ \<Rightarrow> (case find (\<lambda>m. propertyKey m = Some (mappedBy @ ''Id'')) (column_metas (meta_of S child)) of
            Some m \<Rightarrow> db_name m
          | None \<Rightarrow> mappedBy)))"

record fk_keys =
  fk_column :: string
  fk_shadow :: string
  fk_property :: "string option"

definition fkWriteKeysFromManyToOne :: "many_to_one option \<Rightarrow> string \<Rightarrow> fk_keys" where
  "fkWriteKeysFromManyToOne m mappedBy =
     \<lparr>fk_column = (case Option.bind m m2o_joinColumn of Some c \<Rightarrow> c | None \<Rightarrow> mappedBy),
      fk_shadow = (case m of Some r \<Rightarrow> m2o_columnName r | None \<Rightarrow> mappedBy) @ ''Id'',
      fk_property = Option.bind m m2o_fkProperty\<rparr>"

definition resolveFkWriteKeys :: "'c relations \<Rightarrow> string \<Rightarrow> 'c \<Rightarrow> fk_keys" where
  "resolveFkWriteKeys R mappedBy child = fkWriteKeysFromManyToOne (inverse_of R mappedBy child) mappedBy"

definition assignFkValue :: "fk_keys \<Rightarrow> uval \<Rightarrow> fields \<Rightarrow> fields" where
  "assignFkValue keys v fs = (let fs = jm_set (fk_shadow keys) v (jm_set (fk_column keys) v fs) in
     case fk_property keys of Some (ch # p) \<Rightarrow> jm_set (ch # p) v fs | _ \<Rightarrow> fs)"

definition getParentPkValue :: "'c setting \<Rightarrow> fields \<Rightarrow> 'c \<Rightarrow> uval" where
  "getParentPkValue S fs c = (case snd (getColumnInfo S c) of
     [pk] \<Rightarrow> field_of fs pk
   | pks \<Rightarrow> U_Obj (buildPkWhere fs pks))"

subsection \<open>The world of a flush\<close>

datatype flush_event_type = PreInsert | PostInsert | PreUpdate | PostUpdate | PreDelete | PostDelete

record 'c flush_event =
  ev_type :: flush_event_type
  ev_entity :: 'c
  ev_instance :: "nat option"
  ev_data :: "fields option"
  ev_criteria :: "fields option"

text \<open>
  \<open>seen\<close> is the set \<^verbatim>\<open>visited\<close> of a flush, the counters are its \<^verbatim>\<open>result\<close>; \<open>rows_seen\<close> and \<open>cascade_deletes\<close> are the set and the list
  that the search for cascading deletes fills, \<open>deletes_copy\<close> is the copy of the delete queue a flush works on.
\<close>
record ('c, 'd) flush_state =
  buffer :: "'c uow"
  store :: 'd
  seen :: "nat list"
  updates :: nat
  inserts :: nat
  deletes :: nat
  rows_seen :: "string list"
  cascade_deletes :: "('c \<times> fields) list"
  deletes_copy :: "('c \<times> fields) list"

type_synonym ('c, 'd, 'e, 'a) flushing = "(('c, 'd) flush_state, 'e unit_error, 'a) io"

text \<open>
  The entity manager of the transaction, the listeners by event, the callback after a flush, the validator, the clock,
  names for savepoints, the table names, what the dialect quotes, and \<^verbatim>\<open>JSON.stringify\<close>. \<open>type_error\<close> is what
  \<^verbatim>\<open>bigint + 1\<close> throws.
\<close>
record ('c, 'd, 'e) entity_manager =
  em_save :: "'c \<Rightarrow> fields \<Rightarrow> 'd \<Rightarrow> ('e unit_error + fields option) \<times> 'd"
  em_saveMany :: "'c \<Rightarrow> fields list \<Rightarrow> 'd \<Rightarrow> ('e unit_error + fields option list) \<times> 'd"
  em_update :: "'c \<Rightarrow> fields \<Rightarrow> fields \<Rightarrow> 'd \<Rightarrow> ('e unit_error + unit) \<times> 'd"
  em_delete :: "'c \<Rightarrow> fields \<Rightarrow> 'd \<Rightarrow> ('e unit_error + unit) \<times> 'd"
  em_find :: "'c \<Rightarrow> fields \<Rightarrow> 'd \<Rightarrow> ('e unit_error + fields list) \<times> 'd"
  em_findOne :: "'c \<Rightarrow> fields \<Rightarrow> 'd \<Rightarrow> ('e unit_error + fields option) \<times> 'd"
  em_query :: "string \<Rightarrow> uval list \<Rightarrow> 'd \<Rightarrow> ('e unit_error + unit) \<times> 'd"
  em_begin :: "'d \<Rightarrow> ('e unit_error + unit) \<times> 'd"
  em_commit :: "'d \<Rightarrow> ('e unit_error + unit) \<times> 'd"
  em_rollback :: "'d \<Rightarrow> 'd"
  listeners :: "flush_event_type \<Rightarrow> ('c flush_event \<Rightarrow> 'c uow \<times> 'd \<Rightarrow> ('e unit_error + unit) \<times> 'c uow \<times> 'd) list"
  onFlush :: "nat \<times> nat \<times> nat \<Rightarrow> 'c uow \<times> 'd \<Rightarrow> ('e unit_error + unit) \<times> 'c uow \<times> 'd"
  validate :: "'c \<Rightarrow> fields \<Rightarrow> 'e option"
  now :: "'d \<Rightarrow> uval"
  fresh_name :: "'d \<Rightarrow> string"
  entity_name :: "'c \<Rightarrow> string option"
  wrap_name :: "string \<Rightarrow> string"
  wrapTable :: "string \<Rightarrow> string"
  json_text :: "fields \<Rightarrow> string"
  type_error :: 'e
  is_sqlite :: bool

definition on_store :: "('d \<Rightarrow> ('e unit_error + 'a) \<times> 'd) \<Rightarrow> ('c, 'd, 'e, 'a) flushing" where
  "on_store m = (\<lambda>w. case m (store w) of (r, d) \<Rightarrow> (r, w\<lparr>store := d\<rparr>))"

definition on_buffer :: "('c uow, 'e unit_error, 'a) io \<Rightarrow> ('c, 'd, 'e, 'a) flushing" where
  "on_buffer m = (\<lambda>w. case m (buffer w) of (r, u) \<Rightarrow> (r, w\<lparr>buffer := u\<rparr>))"

definition change :: "(('c, 'd) flush_state \<Rightarrow> ('c, 'd) flush_state) \<Rightarrow> ('c, 'd, 'e, unit) flushing" where
  "change f = (\<lambda>w. (Inr (), f w))"

text \<open>\<^verbatim>\<open>for (const x of xs)\<close>\<close>
fun io_each :: "('a \<Rightarrow> ('w, 'e, unit) io) \<Rightarrow> 'a list \<Rightarrow> ('w, 'e, unit) io" where
  "io_each f [] = io_return ()"
| "io_each f (x # xs) = io_then (f x) (io_each f xs)"

definition emitFlushEvent ::
    "('c, 'd, 'e) entity_manager \<Rightarrow> flush_event_type \<Rightarrow> 'c \<Rightarrow> nat option \<Rightarrow> fields option \<Rightarrow> fields option \<Rightarrow> ('c, 'd, 'e, unit) flushing" where
  "emitFlushEvent M t c i data criteria = io_each
     (\<lambda>listener w. case listener \<lparr>ev_type = t, ev_entity = c, ev_instance = i, ev_data = data, ev_criteria = criteria\<rparr> (buffer w, store w) of
        (r, u, d) \<Rightarrow> (r, w\<lparr>buffer := u, store := d\<rparr>))
     (listeners M t)"

definition set_column :: "nat \<Rightarrow> string \<Rightarrow> uval \<Rightarrow> ('c, 'd) flush_state \<Rightarrow> ('c, 'd) flush_state" where
  "set_column i col v w = w\<lparr>buffer := set_value i col v (buffer w)\<rparr>"

text \<open>The columns a saved row reports, copied to the instance.\<close>
definition write_back :: "nat \<Rightarrow> string list \<Rightarrow> fields option \<Rightarrow> ('c, 'd) flush_state \<Rightarrow> ('c, 'd) flush_state" where
  "write_back i cols saved w = (case saved of
     None \<Rightarrow> w
   | Some fs \<Rightarrow> fold (\<lambda>col w. if field_of fs col = U_Undef then w else set_column i col (field_of fs col) w) cols w)"

definition ensureTimestamps :: "'c setting \<Rightarrow> ('c, 'd, 'e) entity_manager \<Rightarrow> 'c \<Rightarrow> nat \<Rightarrow> bool \<Rightarrow> ('c, 'd) flush_state \<Rightarrow> ('c, 'd) flush_state" where
  "ensureTimestamps S M c i isInsert w =
     (let t = now M (store w);
          w = (case getCreateTimestampColumn S c of
              Some col \<Rightarrow> if isInsert \<and> col \<noteq> [] \<and> nullish (value_at (buffer w) i col) then set_column i col t w else w
            | None \<Rightarrow> w) in
      case getUpdateTimestampColumn S c of
        Some col \<Rightarrow> if col \<noteq> [] then set_column i col t w else w
      | None \<Rightarrow> w)"

text \<open>\<^verbatim>\<open>v + 1\<close> of a value equal to itself, which is no object; a \<^verbatim>\<open>bigint\<close> does not mix with numbers.\<close>
fun plus_one :: "uval \<Rightarrow> uval option" where
  "plus_one (U_Num n) = Some (U_Num (n + 1))"
| "plus_one (U_Str s) = Some (U_Str (s @ ''1''))"
| "plus_one (U_Bool b) = Some (U_Num (if b then 2 else 1))"
| "plus_one v = None"

definition ensureVersionIncrement ::
    "'c setting \<Rightarrow> ('c, 'd, 'e) entity_manager \<Rightarrow> 'c \<Rightarrow> nat \<Rightarrow> fields \<Rightarrow> ('c, 'd, 'e, unit) flushing" where
  "ensureVersionIncrement S M c i snap = (\<lambda>w. case getVersionColumn S c of
     None \<Rightarrow> (Inr (), w)
   | Some col \<Rightarrow> (let old = field_of snap col in
       if col = [] \<or> nullish old then (Inr (), w)
       else if strictly_equal (value_at (buffer w) i col) old
       then (case plus_one old of None \<Rightarrow> (Inl (Thrown (type_error M)), w) | Some v \<Rightarrow> (Inr (), set_column i col v w))
       else (Inr (), w)))"

definition rebaselineSnapshot :: "nat \<Rightarrow> 'c uow \<Rightarrow> 'c uow" where
  "rebaselineSnapshot i u = (case jm_get (trackedEntries u) i of
     None \<Rightarrow> u
   | Some e \<Rightarrow> u\<lparr>trackedEntries := jm_set i (e\<lparr>te_snapshot := snapshot (fields_of (instances u i)) (te_columns e)\<rparr>) (trackedEntries u)\<rparr>)"

text \<open>The entry of an instance: a listener may have given it another snapshot, or dropped it from the map.\<close>
definition entry_now :: "nat \<Rightarrow> 'c tracked_entry \<Rightarrow> ('c, 'd) flush_state \<Rightarrow> 'c tracked_entry" where
  "entry_now i e w = (case jm_get (trackedEntries (buffer w)) i of Some e' \<Rightarrow> e' | None \<Rightarrow> e)"

subsection \<open>Saving a child\<close>

datatype child_outcome = Skipped | Updated | Inserted

text \<open>The foreign key a child is saved with: where it is written, the parent's key, whether the child had another one.\<close>
record fk_write =
  fw_keys :: fk_keys
  fw_parentPk :: uval
  fw_changed :: bool

definition assign_fk :: "fk_write option \<Rightarrow> fields \<Rightarrow> fields" where
  "assign_fk fk data = (case fk of None \<Rightarrow> data | Some f \<Rightarrow> assignFkValue (fw_keys f) (fw_parentPk f) data)"

definition count_update :: "('c, 'd) flush_state \<Rightarrow> ('c, 'd) flush_state" where
  "count_update w = w\<lparr>updates := updates w + 1\<rparr>"

definition count_insert :: "('c, 'd) flush_state \<Rightarrow> ('c, 'd) flush_state" where
  "count_insert w = w\<lparr>inserts := inserts w + 1\<rparr>"

definition count_delete :: "('c, 'd) flush_state \<Rightarrow> ('c, 'd) flush_state" where
  "count_delete w = w\<lparr>deletes := deletes w + 1\<rparr>"

text \<open>\<^verbatim>\<open>save\<close> of the columns of an instance that are defined, and what the row reports written back.\<close>
definition save_columns ::
    "('c, 'd, 'e) entity_manager \<Rightarrow> 'c \<Rightarrow> nat \<Rightarrow> string list \<Rightarrow> fk_write option \<Rightarrow> ('c, 'd, 'e, unit) flushing" where
  "save_columns M c i cols fk = (\<lambda>w.
     io_bind (on_store (em_save M c (assign_fk fk (extractColumnData (fields_of (instances (buffer w) i)) cols))))
       (\<lambda>saved. change (write_back i cols saved)) w)"

definition save_tracked_child ::
    "'c setting \<Rightarrow> ('c, 'd, 'e) entity_manager \<Rightarrow> 'c \<Rightarrow> nat \<Rightarrow> fk_write option \<Rightarrow> 'c tracked_entry \<Rightarrow> fields \<Rightarrow> ('c, 'd, 'e, child_outcome) flushing" where
  "save_tracked_child S M c i fk e diff =
     io_then (emitFlushEvent M PreUpdate c (Some i) (Some diff) None)
     (io_then (save_columns M c i (te_columns e) fk)
     (io_then (\<lambda>w. ensureVersionIncrement S M c i (te_snapshot (entry_now i e w)) w)
     (io_then (change (ensureTimestamps S M c i False))
     (io_then (change (\<lambda>w. count_update (w\<lparr>buffer := rebaselineSnapshot i (buffer w)\<rparr>)))
     (io_then (emitFlushEvent M PostUpdate c (Some i) (Some diff) None)
       (io_return Updated))))))"

definition saveCascadeChild ::
    "'c setting \<Rightarrow> ('c, 'd, 'e) entity_manager \<Rightarrow> 'c \<Rightarrow> nat \<Rightarrow> fk_write option \<Rightarrow> ('c, 'd, 'e, child_outcome) flushing" where
  "saveCascadeChild S M c i fk = (\<lambda>w. case jm_get (trackedEntries (buffer w)) i of
     Some e \<Rightarrow>
       if te_readOnly e then (Inr Skipped, w)
       else (case entry_diff (buffer w) i e of
           Some diff \<Rightarrow> save_tracked_child S M c i fk e diff w
         | None \<Rightarrow> (case fk of
             Some f \<Rightarrow> if fw_changed f then save_tracked_child S M c i fk e [(fk_column (fw_keys f), fw_parentPk f)] w else (Inr Skipped, w)
           | None \<Rightarrow> (Inr Skipped, w)))
   | None \<Rightarrow>
       (let info = getColumnInfo S c; pks = snd info;
            hadFullPk = (pks \<noteq> [] \<and> list_all (\<lambda>pk. \<not> nullish (value_at (buffer w) i pk)) pks);
            wasUpdate = (hadFullPk \<and> hasGeneratedPk S c) in
        io_then (save_columns M c i (fst info) fk)
        (io_then (change (if wasUpdate then count_update else count_insert))
          (io_return (if wasUpdate then Updated else Inserted))) w))"

definition readOwnDataValue :: "fields \<Rightarrow> string \<Rightarrow> uval" where
  "readOwnDataValue fs p = field_of fs p"

definition assignFkDetectingChange :: "nat \<Rightarrow> fk_keys \<Rightarrow> uval \<Rightarrow> ('c, 'd, 'e, bool) flushing" where
  "assignFkDetectingChange child keys parentPk = (\<lambda>w.
     let fs = fields_of (instances (buffer w) child);
         changed = (\<not> strictly_equal (readOwnDataValue fs (fk_shadow keys)) parentPk \<or>
           (case fk_property keys of Some p \<Rightarrow> \<not> strictly_equal (readOwnDataValue fs p) parentPk | None \<Rightarrow> False));
         u = buffer w in
     (Inr changed, w\<lparr>buffer := u\<lparr>instances := (instances u)(child := (instances u child)\<lparr>fields_of := assignFkValue keys parentPk fs\<rparr>)\<rparr>\<rparr>))"

definition mark_seen :: "nat \<Rightarrow> ('c, 'd) flush_state \<Rightarrow> ('c, 'd) flush_state" where
  "mark_seen i w = w\<lparr>seen := js_add i (seen w)\<rparr>"

definition is_tracked :: "('c, 'd) flush_state \<Rightarrow> nat \<Rightarrow> bool" where
  "is_tracked w i \<longleftrightarrow> jm_get (trackedEntries (buffer w)) i \<noteq> None"

text \<open>What a relation of an instance holds, in its own state.\<close>
definition loaded_relation :: "('c, 'd) flush_state \<Rightarrow> nat \<Rightarrow> string \<Rightarrow> nat relation_value" where
  "loaded_relation w i p = relation_value_of (buffer w) i p"

definition loaded_collection :: "('c, 'd) flush_state \<Rightarrow> nat \<Rightarrow> string \<Rightarrow> nat list" where
  "loaded_collection w i p = (case loaded_relation w i p of Many is \<Rightarrow> is | _ \<Rightarrow> [])"

text \<open>The recursive call, by newness of the parent, class and instance.\<close>
type_synonym ('c, 'd, 'e) cascading = "bool \<Rightarrow> 'c \<Rightarrow> nat \<Rightarrow> ('c, 'd, 'e, unit) flushing"

definition cascade_child ::
    "'c setting \<Rightarrow> ('c, 'd, 'e) entity_manager \<Rightarrow> ('c, 'd, 'e) cascading \<Rightarrow> fk_keys \<Rightarrow> uval \<Rightarrow> 'c \<Rightarrow> nat \<Rightarrow> ('c, 'd, 'e, unit) flushing" where
  "cascade_child S M rec keys parentPk c child = (\<lambda>w.
     if child \<in> set (seen w) then (Inr (), w)
     else (let tracked = is_tracked w child in
       io_bind (assignFkDetectingChange child keys parentPk)
         (\<lambda>changed. io_then (saveCascadeChild S M c child (Some \<lparr>fw_keys = keys, fw_parentPk = parentPk, fw_changed = changed\<rparr>))
           (rec (\<not> tracked) c child)) (mark_seen child w)))"

definition cascade_one_to_many ::
    "'c setting \<Rightarrow> 'c relations \<Rightarrow> ('c, 'd, 'e) entity_manager \<Rightarrow> ('c, 'd, 'e) cascading \<Rightarrow> 'c \<Rightarrow> nat \<Rightarrow> 'c one_to_many \<Rightarrow> ('c, 'd, 'e, unit) flushing" where
  "cascade_one_to_many S R M rec c i rel = (\<lambda>w.
     if \<not> hasCascade (o2m_cascade rel) C_Insert \<and> \<not> hasCascade (o2m_cascade rel) C_Update then (Inr (), w)
     else io_each
       (cascade_child S M rec (resolveFkWriteKeys R (o2m_mappedBy rel) (o2m_related rel))
         (getParentPkValue S (fields_of (instances (buffer w) i)) c) (o2m_related rel))
       (loaded_collection w i (o2m_property rel)) w)"

text \<open>The foreign key of the owning side, written to the parent and, where it changed, to the parent's row.\<close>
definition fix_owner :: "'c setting \<Rightarrow> ('c, 'd, 'e) entity_manager \<Rightarrow> 'c \<Rightarrow> nat \<Rightarrow> 'c one_to_one \<Rightarrow> nat \<Rightarrow> ('c, 'd, 'e, unit) flushing" where
  "fix_owner S M c i rel related = (\<lambda>w.
     let relatedPk = getParentPkValue S (fields_of (instances (buffer w) related)) (o2o_related rel) in
     case o2o_join_column rel of
       Some (ch # col) \<Rightarrow>
         if nullish relatedPk \<or> strictly_equal (value_at (buffer w) i (ch # col)) relatedPk then (Inr (), w)
         else (let w = set_column i (ch # col) relatedPk w;
                   parentPk = getParentPkValue S (fields_of (instances (buffer w) i)) c in
           case snd (getColumnInfo S c) of
             [pk] \<Rightarrow> if nullish parentPk then (Inr (), w) else on_store (em_update M c [(pk, parentPk)] [(ch # col, relatedPk)]) w
           | _ \<Rightarrow> (Inr (), w))
     | _ \<Rightarrow> (Inr (), w))"

definition cascade_one_to_one ::
    "'c setting \<Rightarrow> ('c, 'd, 'e) entity_manager \<Rightarrow> ('c, 'd, 'e) cascading \<Rightarrow> 'c \<Rightarrow> nat \<Rightarrow> 'c one_to_one \<Rightarrow> ('c, 'd, 'e, unit) flushing" where
  "cascade_one_to_one S M rec c i rel = (\<lambda>w.
     if \<not> hasCascade (o2o_cascade rel) C_Insert \<and> \<not> hasCascade (o2o_cascade rel) C_Update then (Inr (), w)
     else (case loaded_relation w i (o2o_property rel) of
         One related \<Rightarrow>
           if related \<in> set (seen w) then (Inr (), w)
           else (let tracked = is_tracked w related in
             io_then (saveCascadeChild S M (o2o_related rel) related None)
               (io_then (fix_owner S M c i rel related) (rec (\<not> tracked) (o2o_related rel) related)) (mark_seen related w))
       | _ \<Rightarrow> (Inr (), w)))"

definition insertPivotRow :: "('c, 'd, 'e) entity_manager \<Rightarrow> join_table \<Rightarrow> uval \<Rightarrow> uval \<Rightarrow> ('c, 'd, 'e, unit) flushing" where
  "insertPivotRow M jt parentPk childPk = on_store (em_query M
     (''INSERT INTO '' @ wrapTable M (jt_name jt) @ '' ('' @ wrap_name M (jt_joinColumn jt) @ '', '' @ wrap_name M (jt_inverseJoinColumn jt)
       @ '') VALUES (?, ?)'') [parentPk, childPk])"

text \<open>A new child of a many-to-many relation is saved; its own relations are not walked.\<close>
definition save_new_child :: "'c setting \<Rightarrow> ('c, 'd, 'e) entity_manager \<Rightarrow> 'c \<Rightarrow> nat \<Rightarrow> ('c, 'd, 'e, unit) flushing" where
  "save_new_child S M c child = (\<lambda>w.
     let info = getColumnInfo S c in
     if list_all (\<lambda>pk. \<not> nullish (value_at (buffer w) child pk)) (snd info) \<or> child \<in> set (seen w) then (Inr (), w)
     else io_then (save_columns M c child (fst info) None) (change count_insert) (mark_seen child w))"

definition link_child :: "('c, 'd, 'e) entity_manager \<Rightarrow> join_table \<Rightarrow> string list \<Rightarrow> uval \<Rightarrow> nat \<Rightarrow> ('c, 'd, 'e, unit) flushing" where
  "link_child M jt childPks parentPk child = (\<lambda>w. case childPks of
     [pk] \<Rightarrow> if nullish (value_at (buffer w) child pk) then (Inr (), w)
        else io_then (insertPivotRow M jt parentPk (value_at (buffer w) child pk)) (change count_insert) w
   | _ \<Rightarrow> (Inr (), w))"

definition cascade_many_to_many ::
    "'c setting \<Rightarrow> ('c, 'd, 'e) entity_manager \<Rightarrow> bool \<Rightarrow> bool \<Rightarrow> 'c \<Rightarrow> nat \<Rightarrow> 'c many_to_many \<Rightarrow> ('c, 'd, 'e, unit) flushing" where
  "cascade_many_to_many S M sync isNewParent c i rel = (\<lambda>w.
     case m2m_joinTable rel of
       None \<Rightarrow> (Inr (), w)
     | Some jt \<Rightarrow>
         if non_empty (m2m_mappedBy rel) then (Inr (), w)
         else (let children = loaded_collection w i (m2m_property rel) in
           io_then (io_each (save_new_child S M (m2m_related rel)) children)
             (\<lambda>w. let parentPk = getParentPkValue S (fields_of (instances (buffer w) i)) c in
                if isNewParent \<and> sync \<and> \<not> nullish parentPk
                then io_each (link_child M jt (snd (getColumnInfo S (m2m_related rel))) parentPk) children w
                else (Inr (), w)) w))"

text \<open>
  The walk: every nested call is for an instance seen for the first time, so the number of instances is enough fuel.
  \<open>sync\<close> is the option \<^verbatim>\<open>manyToManySync\<close>.
\<close>
fun processCascadeInsertUpdate ::
    "'c setting \<Rightarrow> 'c relations \<Rightarrow> ('c, 'd, 'e) entity_manager \<Rightarrow> buffer_options \<Rightarrow> bool \<Rightarrow> nat \<Rightarrow> ('c, 'd, 'e) cascading" where
  "processCascadeInsertUpdate S R M opts sync 0 isNew c i = io_return ()"
| "processCascadeInsertUpdate S R M opts sync (Suc n) isNew c i =
     (if \<not> cas_persist (cascade opts) then io_return ()
      else io_then (io_each (cascade_one_to_many S R M (processCascadeInsertUpdate S R M opts sync n) c i) (one_to_many_of R c))
        (io_then (io_each (cascade_one_to_one S M (processCascadeInsertUpdate S R M opts sync n) c i) (one_to_one_of R c))
          (io_each (cascade_many_to_many S M sync isNew c i) (many_to_many_of R c))))"

subsection \<open>Collections that changed\<close>

text \<open>What a snapshot of a collection knows of its relation.\<close>
datatype 'c collection_relation = To_Many "'c one_to_many" | Linked "'c many_to_many"

definition collection_relation_of :: "'c relations \<Rightarrow> 'c \<Rightarrow> string \<Rightarrow> 'c collection_relation option" where
  "collection_relation_of R c p = (case find (\<lambda>r. o2m_property r = p) (one_to_many_of R c) of
     Some r \<Rightarrow> Some (To_Many r)
   | None \<Rightarrow> map_option Linked (find (\<lambda>r. m2m_property r = p \<and> \<not> non_empty (m2m_mappedBy r) \<and> m2m_joinTable r \<noteq> None) (many_to_many_of R c)))"

record reparented_children =
  rp_instances :: "nat list"
  rp_pks :: "(string \<times> uval list) list"

record 'c pending_diff =
  pd_instance :: nat
  pd_entry :: "'c tracked_entry"
  pd_relation :: "'c collection_relation"
  pd_diff :: "nat collection_diff"

text \<open>\<^verbatim>\<open>Set.has\<close> for values: \<^verbatim>\<open>===\<close>, and \<^verbatim>\<open>NaN\<close> is found.\<close>
definition same_value :: "uval \<Rightarrow> uval \<Rightarrow> bool" where
  "same_value a b \<longleftrightarrow> strictly_equal a b \<or> a = U_NaN \<and> b = U_NaN"

definition add_pk :: "string \<Rightarrow> uval \<Rightarrow> (string \<times> uval list) list \<Rightarrow> (string \<times> uval list) list" where
  "add_pk name pk pks = (let old = (case jm_get pks name of Some vs \<Rightarrow> vs | None \<Rightarrow> []) in
     jm_set name (if list_ex (same_value pk) old then old else old @ [pk]) pks)"

definition note_added :: "'c setting \<Rightarrow> 'c uow \<Rightarrow> 'c \<Rightarrow> nat \<Rightarrow> reparented_children \<Rightarrow> reparented_children" where
  "note_added S u c child rp = (let rp = rp\<lparr>rp_instances := js_add child (rp_instances rp)\<rparr> in
     case snd (getColumnInfo S c) of
       [pk] \<Rightarrow> if nullish (value_at u child pk) then rp else rp\<lparr>rp_pks := add_pk (class_name (meta_of S c)) (value_at u child pk) (rp_pks rp)\<rparr>
     | _ \<Rightarrow> rp)"

definition entry_diffs :: "'c relations \<Rightarrow> 'c uow \<Rightarrow> nat \<times> 'c tracked_entry \<Rightarrow> 'c pending_diff list" where
  "entry_diffs R u = (\<lambda>(i, e). concat (map (\<lambda>(p, items).
     case (diffCollection (relation_value_of u i p) items, collection_relation_of R (te_entity e) p) of
       (Some d, Some r) \<Rightarrow> [\<lparr>pd_instance = i, pd_entry = e, pd_relation = r, pd_diff = d\<rparr>]
     | _ \<Rightarrow> []) (te_collections e)))"

definition note_diff :: "'c setting \<Rightarrow> 'c uow \<Rightarrow> 'c pending_diff \<Rightarrow> reparented_children \<Rightarrow> reparented_children" where
  "note_diff S u pd rp = (case pd_relation pd of
     To_Many r \<Rightarrow> fold (note_added S u (o2m_related r)) (added_items (pd_diff pd)) rp
   | Linked r \<Rightarrow> rp)"

definition collectCollectionDiffs ::
    "'c setting \<Rightarrow> 'c relations \<Rightarrow> 'c uow \<Rightarrow> (nat \<times> 'c tracked_entry) list \<Rightarrow> reparented_children \<times> 'c pending_diff list" where
  "collectCollectionDiffs S R u es = (let pds = concat (map (entry_diffs R u) es) in
     (fold (note_diff S u) pds \<lparr>rp_instances = [], rp_pks = []\<rparr>, pds))"

definition add_child ::
    "'c setting \<Rightarrow> 'c relations \<Rightarrow> ('c, 'd, 'e) entity_manager \<Rightarrow> 'c one_to_many \<Rightarrow> uval \<Rightarrow> nat \<Rightarrow> ('c, 'd, 'e, unit) flushing" where
  "add_child S R M rel parentPk child = (\<lambda>w.
     if \<not> is_tracked w child \<and> child \<in> set (seen w) then (Inr (), w)
     else (let w = (if is_tracked w child then w else mark_seen child w) in
       if o2m_mappedBy rel = [] then io_then (saveCascadeChild S M (o2m_related rel) child None) (io_return ()) w
       else (let keys = resolveFkWriteKeys R (o2m_mappedBy rel) (o2m_related rel) in
         io_bind (assignFkDetectingChange child keys parentPk)
           (\<lambda>changed. io_then (saveCascadeChild S M (o2m_related rel) child (Some \<lparr>fw_keys = keys, fw_parentPk = parentPk, fw_changed = changed\<rparr>))
              (io_return ())) w)))"

text \<open>The key columns an instance has a value for.\<close>
definition present_keys :: "'c uow \<Rightarrow> nat \<Rightarrow> string list \<Rightarrow> fields" where
  "present_keys u i pks = fold (\<lambda>pk w. if nullish (value_at u i pk) then w else jm_set pk (value_at u i pk) w) pks []"

definition spared :: "'c setting \<Rightarrow> reparented_children \<Rightarrow> 'c \<Rightarrow> nat \<Rightarrow> fields \<Rightarrow> bool" where
  "spared S rp c child criteria \<longleftrightarrow> child \<in> set (rp_instances rp) \<or> criteria = [] \<or>
     (case (jm_get (rp_pks rp) (class_name (meta_of S c)), snd (getColumnInfo S c)) of
        (Some vs, [pk]) \<Rightarrow> list_ex (same_value (field_of criteria pk)) vs
      | _ \<Rightarrow> False)"

definition remove_orphan ::
    "'c setting \<Rightarrow> ('c, 'd, 'e) entity_manager \<Rightarrow> reparented_children \<Rightarrow> 'c \<Rightarrow> nat \<Rightarrow> ('c, 'd, 'e, unit) flushing" where
  "remove_orphan S M rp c child = (\<lambda>w.
     let criteria = present_keys (buffer w) child (snd (getColumnInfo S c)) in
     if spared S rp c child criteria then (Inr (), w)
     else io_then (on_store (em_delete M c criteria)) (change count_delete) w)"

definition processOneToManyCollectionDiff ::
    "'c setting \<Rightarrow> 'c relations \<Rightarrow> ('c, 'd, 'e) entity_manager \<Rightarrow> buffer_options \<Rightarrow> bool \<Rightarrow> reparented_children \<Rightarrow>
     nat \<Rightarrow> 'c \<Rightarrow> 'c one_to_many \<Rightarrow> nat collection_diff \<Rightarrow> ('c, 'd, 'e, unit) flushing" where
  "processOneToManyCollectionDiff S R M opts orphanRemoval rp parent c rel d = (\<lambda>w.
     let parentPk = getParentPkValue S (fields_of (instances (buffer w) parent)) c in
     io_then (if cas_persist (cascade opts) \<and> hasCascade (o2m_cascade rel) C_Insert
              then io_each (add_child S R M rel parentPk) (added_items d) else io_return ())
       (if orphanRemoval then io_each (remove_orphan S M rp (o2m_related rel)) (removed_items d) else io_return ()) w)"

definition unlink_child :: "('c, 'd, 'e) entity_manager \<Rightarrow> join_table \<Rightarrow> string list \<Rightarrow> uval \<Rightarrow> nat \<Rightarrow> ('c, 'd, 'e, unit) flushing" where
  "unlink_child M jt childPks parentPk child = (\<lambda>w. case childPks of
     [pk] \<Rightarrow> if nullish (value_at (buffer w) child pk) then (Inr (), w)
        else io_then (on_store (em_query M
            (''DELETE FROM '' @ wrapTable M (jt_name jt) @ '' WHERE '' @ wrap_name M (jt_joinColumn jt) @ '' = ? AND ''
              @ wrap_name M (jt_inverseJoinColumn jt) @ '' = ?'') [parentPk, value_at (buffer w) child pk]))
          (change count_delete) w
   | _ \<Rightarrow> (Inr (), w))"

definition processManyToManyCollectionDiff ::
    "'c setting \<Rightarrow> ('c, 'd, 'e) entity_manager \<Rightarrow> bool \<Rightarrow> nat \<Rightarrow> 'c \<Rightarrow> 'c many_to_many \<Rightarrow> nat collection_diff \<Rightarrow> ('c, 'd, 'e, unit) flushing" where
  "processManyToManyCollectionDiff S M sync parent c rel d = (\<lambda>w.
     case m2m_joinTable rel of
       None \<Rightarrow> (Inr (), w)
     | Some jt \<Rightarrow> if \<not> sync then (Inr (), w)
         else (let parentPk = getParentPkValue S (fields_of (instances (buffer w) parent)) c;
                   pks = snd (getColumnInfo S (m2m_related rel)) in
           io_then (io_each (link_child M jt pks parentPk) (added_items d)) (io_each (unlink_child M jt pks parentPk) (removed_items d)) w))"

definition process_diff ::
    "'c setting \<Rightarrow> 'c relations \<Rightarrow> ('c, 'd, 'e) entity_manager \<Rightarrow> buffer_options \<Rightarrow> bool \<Rightarrow> bool \<Rightarrow> reparented_children \<Rightarrow>
     'c pending_diff \<Rightarrow> ('c, 'd, 'e, unit) flushing" where
  "process_diff S R M opts orphanRemoval sync rp pd = (case pd_relation pd of
     To_Many rel \<Rightarrow> processOneToManyCollectionDiff S R M opts orphanRemoval rp (pd_instance pd) (te_entity (pd_entry pd)) rel (pd_diff pd)
   | Linked rel \<Rightarrow> processManyToManyCollectionDiff S M sync (pd_instance pd) (te_entity (pd_entry pd)) rel (pd_diff pd))"

subsection \<open>Cascading deletes\<close>

text \<open>The row of the child's table that references a parent: the column \<^verbatim>\<open>references\<close> names, else the first key column.\<close>
definition referenced_column :: "'c relations \<Rightarrow> 'c one_to_many \<Rightarrow> string list \<Rightarrow> string" where
  "referenced_column R rel parentPks = (case Option.bind (inverse_of R (o2m_mappedBy rel) (o2m_related rel)) m2o_references of
     Some col \<Rightarrow> col | None \<Rightarrow> hd parentPks)"

definition add_delete :: "'c \<Rightarrow> fields \<Rightarrow> ('c, 'd) flush_state \<Rightarrow> ('c, 'd) flush_state" where
  "add_delete c criteria w = w\<lparr>cascade_deletes := cascade_deletes w @ [(c, criteria)]\<rparr>"

text \<open>The search in a class, for the rows that match criteria.\<close>
type_synonym ('c, 'd, 'e) delete_search = "'c \<Rightarrow> fields \<Rightarrow> ('c, 'd, 'e, unit) flushing"

definition delete_children ::
    "'c setting \<Rightarrow> 'c relations \<Rightarrow> ('c, 'd, 'e) entity_manager \<Rightarrow> ('c, 'd, 'e) delete_search \<Rightarrow> 'c \<Rightarrow> fields \<Rightarrow> 'c one_to_many \<Rightarrow>
     ('c, 'd, 'e, unit) flushing" where
  "delete_children S R M rec c criteria rel =
     (let child = o2m_related rel; parentPks = snd (getColumnInfo S c) in
      if \<not> hasCascade (o2m_cascade rel) C_Delete \<or> parentPks = [] then io_return ()
      else (let v = field_of criteria (referenced_column R rel parentPks) in
        if nullish v then io_return ()
        else (let childCriteria = [(resolveFkColumn S R (o2m_mappedBy rel) child, v)]; childPks = snd (getColumnInfo S child) in
          io_then
            (io_catch
              (io_bind (on_store (em_find M child childCriteria)) (io_each (\<lambda>row. rec child (buildPkWhere row childPks))))
              (\<lambda>e. if e = Orm ENTITY_METADATA_NOT_FOUND then io_return () else io_throw e))
            (change (add_delete child childCriteria)))))"

definition delete_related ::
    "'c setting \<Rightarrow> ('c, 'd, 'e) delete_search \<Rightarrow> fields \<Rightarrow> 'c one_to_one \<Rightarrow> ('c, 'd, 'e, unit) flushing" where
  "delete_related S rec criteria rel =
     (if \<not> hasCascade (o2o_cascade rel) C_Delete then io_return ()
      else (case (o2o_join_column rel, snd (getColumnInfo S (o2o_related rel))) of
          (Some (ch # col), [pk]) \<Rightarrow>
            (let v = field_of criteria (ch # col) in
             if nullish v then io_return ()
             else io_then (rec (o2o_related rel) [(pk, v)]) (change (add_delete (o2o_related rel) [(pk, v)])))
        | _ \<Rightarrow> io_return ()))"

text \<open>The visited set keeps the search out of cycles; fuel bounds the depth of a chain of rows.\<close>
fun collectCascadeDeletes ::
    "'c setting \<Rightarrow> 'c relations \<Rightarrow> ('c, 'd, 'e) entity_manager \<Rightarrow> nat \<Rightarrow> ('c, 'd, 'e) delete_search" where
  "collectCascadeDeletes S R M 0 c criteria = io_return ()"
| "collectCascadeDeletes S R M (Suc n) c criteria = (\<lambda>w.
     let key = class_name (meta_of S c) @ '':'' @ json_text M criteria in
     if key \<in> set (rows_seen w) then (Inr (), w)
     else io_then (io_each (delete_children S R M (collectCascadeDeletes S R M n) c criteria) (one_to_many_of R c))
       (io_each (delete_related S (collectCascadeDeletes S R M n) criteria) (one_to_one_of R c))
       (w\<lparr>rows_seen := rows_seen w @ [key]\<rparr>))"

subsection \<open>Previewing a cascade\<close>

datatype preview_entry =
    Preview_Update string fields fields
  | Preview_Insert string fields
  | Preview_Delete string fields
  | Preview_Bulk_Update string fields fields
  | Preview_Bulk_Delete string fields

definition buildSavePreviewEntry :: "string \<Rightarrow> fields \<Rightarrow> string list \<Rightarrow> preview_entry" where
  "buildSavePreviewEntry name data pks =
     (if pks \<noteq> [] \<and> list_all (\<lambda>pk. \<not> nullish (field_of data pk)) pks
      then Preview_Update name (buildPkWhere data pks) data else Preview_Insert name data)"

text \<open>The instances visited and the entries listed so far.\<close>
type_synonym preview_state = "nat list \<times> preview_entry list"

definition preview_child ::
    "'c setting \<Rightarrow> 'c relations \<Rightarrow> 'c uow \<Rightarrow> ('c \<Rightarrow> nat \<Rightarrow> preview_state \<Rightarrow> preview_state) \<Rightarrow> uval \<Rightarrow> string \<Rightarrow> 'c \<Rightarrow> nat \<Rightarrow> preview_state \<Rightarrow> preview_state" where
  "preview_child S R u rec parentPk mappedBy c child st =
     (if child \<in> set (fst st) then st
      else (let data = extractColumnData (fields_of (instances u child)) (fst (getColumnInfo S c));
                data = (if nullish parentPk then data else assignFkValue (resolveFkWriteKeys R mappedBy c) parentPk data) in
        rec c child (fst st @ [child], snd st @ [buildSavePreviewEntry (class_name (meta_of S c)) data (snd (getColumnInfo S c))])))"

definition preview_one_to_many ::
    "'c setting \<Rightarrow> 'c relations \<Rightarrow> 'c uow \<Rightarrow> ('c \<Rightarrow> nat \<Rightarrow> preview_state \<Rightarrow> preview_state) \<Rightarrow> 'c \<Rightarrow> nat \<Rightarrow> 'c one_to_many \<Rightarrow> preview_state \<Rightarrow> preview_state" where
  "preview_one_to_many S R u rec c i rel st =
     (if \<not> hasCascade (o2m_cascade rel) C_Insert \<and> \<not> hasCascade (o2m_cascade rel) C_Update then st
      else (case relation_value_of u i (o2m_property rel) of
          Many children \<Rightarrow> fold (preview_child S R u rec (getParentPkValue S (fields_of (instances u i)) c) (o2m_mappedBy rel) (o2m_related rel)) children st
        | _ \<Rightarrow> st))"

definition preview_one_to_one ::
    "'c setting \<Rightarrow> 'c uow \<Rightarrow> ('c \<Rightarrow> nat \<Rightarrow> preview_state \<Rightarrow> preview_state) \<Rightarrow> nat \<Rightarrow> 'c one_to_one \<Rightarrow> preview_state \<Rightarrow> preview_state" where
  "preview_one_to_one S u rec i rel st =
     (if \<not> hasCascade (o2o_cascade rel) C_Insert \<and> \<not> hasCascade (o2o_cascade rel) C_Update then st
      else (case relation_value_of u i (o2o_property rel) of
          One related \<Rightarrow> if related \<in> set (fst st) then st
            else (let c = o2o_related rel in rec c related (fst st @ [related], snd st @
              [buildSavePreviewEntry (class_name (meta_of S c)) (extractColumnData (fields_of (instances u related)) (fst (getColumnInfo S c))) (snd (getColumnInfo S c))]))
        | _ \<Rightarrow> st))"

definition preview_new_child :: "'c setting \<Rightarrow> 'c uow \<Rightarrow> 'c \<Rightarrow> nat \<Rightarrow> preview_state \<Rightarrow> preview_state" where
  "preview_new_child S u c child st = (let info = getColumnInfo S c in
     if list_all (\<lambda>pk. \<not> nullish (value_at u child pk)) (snd info) \<or> child \<in> set (fst st) then st
     else (fst st @ [child], snd st @ [Preview_Insert (class_name (meta_of S c)) (extractColumnData (fields_of (instances u child)) (fst info))]))"

definition preview_link :: "'c uow \<Rightarrow> join_table \<Rightarrow> string \<Rightarrow> uval \<Rightarrow> nat \<Rightarrow> preview_entry" where
  "preview_link u jt childPk parentPk child =
     (let data = (if nullish parentPk then [] else [(jt_joinColumn jt, parentPk)]) in
      Preview_Insert (jt_name jt) (if nullish (value_at u child childPk) then data else jm_set (jt_inverseJoinColumn jt) (value_at u child childPk) data))"

definition preview_many_to_many ::
    "'c setting \<Rightarrow> 'c uow \<Rightarrow> bool \<Rightarrow> 'c \<Rightarrow> nat \<Rightarrow> 'c many_to_many \<Rightarrow> preview_state \<Rightarrow> preview_state" where
  "preview_many_to_many S u sync c i rel st =
     (case (m2m_joinTable rel, relation_value_of u i (m2m_property rel)) of
        (Some jt, Many children) \<Rightarrow>
          if non_empty (m2m_mappedBy rel) then st
          else (let st = fold (preview_new_child S u (m2m_related rel)) children st in
            case snd (getColumnInfo S (m2m_related rel)) of
              [pk] \<Rightarrow> if sync then (fst st, snd st @ map (preview_link u jt pk (getParentPkValue S (fields_of (instances u i)) c)) children) else st
            | _ \<Rightarrow> st)
      | _ \<Rightarrow> st)"

fun collectCascadePreviewInserts ::
    "'c setting \<Rightarrow> 'c relations \<Rightarrow> buffer_options \<Rightarrow> bool \<Rightarrow> 'c uow \<Rightarrow> nat \<Rightarrow> 'c \<Rightarrow> nat \<Rightarrow> preview_state \<Rightarrow> preview_state" where
  "collectCascadePreviewInserts S R opts sync u 0 c i st = st"
| "collectCascadePreviewInserts S R opts sync u (Suc n) c i st =
     (if \<not> cas_persist (cascade opts) then st
      else fold (preview_many_to_many S u sync c i) (many_to_many_of R c)
        (fold (preview_one_to_one S u (collectCascadePreviewInserts S R opts sync u n) i) (one_to_one_of R c)
          (fold (preview_one_to_many S R u (collectCascadePreviewInserts S R opts sync u n) c i) (one_to_many_of R c) st)))"

subsection \<open>Instances within reach\<close>

text \<open>\<^verbatim>\<open>forEachLoadedRelated\<close>: what the writes above may change, without loading anything.\<close>
definition forEachLoadedRelated :: "'c relations \<Rightarrow> 'c uow \<Rightarrow> 'c \<Rightarrow> nat \<Rightarrow> nat list" where
  "forEachLoadedRelated R u c i =
     concat (map (\<lambda>r. case relation_value_of u i (o2m_property r) of Many is \<Rightarrow> is | _ \<Rightarrow> []) (one_to_many_of R c)) @
     concat (map (\<lambda>r. case relation_value_of u i (o2o_property r) of One j \<Rightarrow> [j] | _ \<Rightarrow> []) (one_to_one_of R c)) @
     concat (map (\<lambda>r. case relation_value_of u i (m2m_property r) of Many is \<Rightarrow> if non_empty (m2m_mappedBy r) \<or> m2m_joinTable r = None then [] else is | _ \<Rightarrow> [])
       (many_to_many_of R c))"

end
