(* ===== verification/BufferFlush.thy ===== *)
theory BufferFlush
  imports Cascade
begin

section \<open>Flushing the write buffer (src/core/plugin/buffer/FlushExecutor.ts, WriteBuffer.ts)\<close>

text \<open>
  A flush writes what the buffer holds in one transaction: changed rows, new rows, plain inserts, changed collections,
  deletes with what cascades from them, and bulk statements. When it fails, the queues and the columns of the
  instances are put back. Logging is left out, and so is the warning of a nested buffer outside a transaction.
\<close>

subsection \<open>Options\<close>

record flush_config =
  base :: buffer_options
  orphanRemoval :: bool
  manyToManySync :: bool
  batchInsert :: bool
  batchUpdate :: bool
  validateBeforeFlush :: bool
  is_nested :: bool

subsection \<open>Fields the mapper manages\<close>

definition hasOrmManagedFields :: "'c setting \<Rightarrow> 'c \<Rightarrow> bool" where
  "hasOrmManagedFields S c \<longleftrightarrow> non_empty (version_token (meta_of S c)) \<or> non_empty (create_token (meta_of S c)) \<or>
     non_empty (update_token (meta_of S c))"

definition isTenantScoped :: "'c setting \<Rightarrow> 'c \<Rightarrow> bool" where
  "isTenantScoped S c \<longleftrightarrow> tenant_config S \<noteq> None \<and> \<not> non_tenant (meta_of S c)"

definition set_unless_present :: "nat \<Rightarrow> string option \<Rightarrow> uval \<Rightarrow> ('c, 'd) flush_state \<Rightarrow> ('c, 'd) flush_state" where
  "set_unless_present i col v w = (case col of
     Some (ch # c) \<Rightarrow> if nullish (value_at (buffer w) i (ch # c)) then set_column i (ch # c) v w else w
   | _ \<Rightarrow> w)"

definition inject_fields :: "'c setting \<Rightarrow> 'c \<Rightarrow> uval \<Rightarrow> 'c persist_entry \<Rightarrow> ('c, 'd) flush_state \<Rightarrow> ('c, 'd) flush_state" where
  "inject_fields S c t p w =
     (let i = pe_instance p;
          w = set_unless_present i (getCreateTimestampColumn S c) t w;
          w = (case getUpdateTimestampColumn S c of Some (ch # col) \<Rightarrow> set_column i (ch # col) t w | _ \<Rightarrow> w) in
      set_unless_present i (getVersionColumn S c) (U_Num 1) w)"

definition injectOrmManagedFields :: "'c setting \<Rightarrow> 'c \<Rightarrow> 'c persist_entry list \<Rightarrow> uval \<Rightarrow> ('c, 'd) flush_state \<Rightarrow> ('c, 'd) flush_state" where
  "injectOrmManagedFields S c ps t w = fold (inject_fields S c t) ps w"

subsection \<open>Inserting\<close>

text \<open>What one flush works with: metadata, entity manager, options, and fuel for the cascades.\<close>
record ('c, 'd, 'e) flusher =
  fs_setting :: "'c setting"
  fs_relations :: "'c relations"
  fs_em :: "('c, 'd, 'e) entity_manager"
  fs_config :: flush_config
  fs_fuel :: nat

definition cascade_from :: "('c, 'd, 'e) flusher \<Rightarrow> ('c, 'd, 'e) cascading" where
  "cascade_from F = processCascadeInsertUpdate (fs_setting F) (fs_relations F) (fs_em F) (base (fs_config F)) (manyToManySync (fs_config F)) (fs_fuel F)"

text \<open>One new row by \<^verbatim>\<open>save\<close>; \<open>stamp\<close> sets the timestamps of the instance afterwards.\<close>
definition insert_instance :: "('c, 'd, 'e) flusher \<Rightarrow> bool \<Rightarrow> 'c persist_entry \<Rightarrow> ('c, 'd, 'e, unit) flushing" where
  "insert_instance F stamp p = (let M = fs_em F; c = pe_entity p; i = pe_instance p in
     io_then (emitFlushEvent M PreInsert c (Some i) None None)
     (io_then (save_columns M c i (pe_columns p) None)
     (io_then (change (\<lambda>w. mark_seen i (count_insert (if stamp then ensureTimestamps (fs_setting F) M c i True w else w))))
     (io_then (emitFlushEvent M PostInsert c (Some i) None None)
       (cascade_from F True c i)))))"

text \<open>\<^verbatim>\<open>Map\<close> from key to the items with that key, in the order they come.\<close>
definition group_by :: "('a \<Rightarrow> 'k) \<Rightarrow> 'a list \<Rightarrow> ('k \<times> 'a list) list" where
  "group_by f xs = fold (\<lambda>x g. jm_set (f x) ((case jm_get g (f x) of Some ys \<Rightarrow> ys | None \<Rightarrow> []) @ [x]) g) xs []"

definition writesThroughSave :: "'c setting \<Rightarrow> 'c \<Rightarrow> bool" where
  "writesThroughSave S c \<longleftrightarrow> strategy_of (meta_of S c) \<in> {Some Single_Table, Some Joined}"

definition after_insert :: "('c, 'd, 'e) flusher \<Rightarrow> 'c persist_entry \<Rightarrow> ('c, 'd, 'e, unit) flushing" where
  "after_insert F p = (let c = pe_entity p; i = pe_instance p in
     io_then (change (mark_seen i))
     (io_then (emitFlushEvent (fs_em F) PostInsert c (Some i) None None) (cascade_from F True c i)))"

text \<open>The rows \<^verbatim>\<open>saveMany\<close> returns, in the order of the instances; there may be fewer.\<close>
definition write_back_all :: "'c persist_entry list \<Rightarrow> fields option list \<Rightarrow> ('c, 'd) flush_state \<Rightarrow> ('c, 'd) flush_state" where
  "write_back_all ps saved w = fold (\<lambda>(p, row). write_back (pe_instance p) (pe_columns p) row) (zip ps saved) w"

definition insert_many :: "('c, 'd, 'e) flusher \<Rightarrow> 'c \<Rightarrow> 'c persist_entry list \<Rightarrow> ('c, 'd, 'e, unit) flushing" where
  "insert_many F c ps = (let M = fs_em F in
     io_then (io_each (\<lambda>p. emitFlushEvent M PreInsert (pe_entity p) (Some (pe_instance p)) None None) ps)
     (io_then (\<lambda>w. io_bind
         (on_store (em_saveMany M c (map (\<lambda>p. extractColumnData (fields_of (instances (buffer w) (pe_instance p))) (pe_columns p)) ps)))
         (\<lambda>saved. change (\<lambda>w. write_back_all ps saved (w\<lparr>inserts := inserts w + length ps\<rparr>))) w)
       (io_each (after_insert F) ps)))"

definition insert_group :: "('c, 'd, 'e) flusher \<Rightarrow> uval \<Rightarrow> 'c \<times> 'c persist_entry list \<Rightarrow> ('c, 'd, 'e, unit) flushing" where
  "insert_group F t g = (case g of (c, ps) \<Rightarrow>
     io_then (change (injectOrmManagedFields (fs_setting F) c ps t))
       (if length ps = 1 \<or> length (pe_pks (hd ps)) > 1 \<or> is_sqlite (fs_em F) \<or> writesThroughSave (fs_setting F) c
        then io_each (insert_instance F False) ps else insert_many F c ps))"

definition flushPersistsBatched :: "('c, 'd, 'e) flusher \<Rightarrow> 'c persist_entry list \<Rightarrow> ('c, 'd, 'e, unit) flushing" where
  "flushPersistsBatched F ps = (\<lambda>w. io_each (insert_group F (now (fs_em F) (store w))) (group_by pe_entity ps) w)"

subsection \<open>Updating\<close>

definition dirty_diff :: "nat \<Rightarrow> 'c tracked_entry \<Rightarrow> ('c, 'd) flush_state \<Rightarrow> fields option" where
  "dirty_diff i e w = entry_diff (buffer w) i (entry_now i e w)"

definition write_row :: "('c, 'd, 'e) flusher \<Rightarrow> nat \<Rightarrow> 'c tracked_entry \<Rightarrow> fields \<Rightarrow> ('c, 'd, 'e, unit) flushing" where
  "write_row F i e diff = (let M = fs_em F; c = te_entity e in
     io_then (emitFlushEvent M PreUpdate c (Some i) (Some diff) None)
     (io_then (save_columns M c i (te_columns e) None)
     (io_then (\<lambda>w. ensureVersionIncrement (fs_setting F) M c i (te_snapshot (entry_now i e w)) w)
     (io_then (change (\<lambda>w. mark_seen i (count_update (ensureTimestamps (fs_setting F) M c i False w))))
     (io_then (emitFlushEvent M PostUpdate c (Some i) (Some diff) None)
       (cascade_from F False c i))))))"

definition update_row :: "('c, 'd, 'e) flusher \<Rightarrow> nat \<times> 'c tracked_entry \<Rightarrow> ('c, 'd, 'e, unit) flushing" where
  "update_row F ie = (case ie of (i, e) \<Rightarrow> \<lambda>w.
     if i \<in> set (seen w) then (Inr (), w)
     else (case dirty_diff i e w of None \<Rightarrow> (Inr (), w) | Some diff \<Rightarrow> write_row F i e diff w))"

text \<open>An instance with the entry and the difference it is written with.\<close>
type_synonym 'c dirty_item = "nat \<times> 'c tracked_entry \<times> fields"

text \<open>
  One statement for many rows: each changed column is set by a \<^verbatim>\<open>CASE\<close> over the keys of the rows that change it, the
  rows are those whose key is listed.
\<close>
record batch_update =
  bu_table :: string
  bu_key :: string
  bu_sets :: "(string \<times> (uval \<times> uval) list) list"
  bu_keys :: "uval list"

definition column_of :: "'c setting \<Rightarrow> 'c \<Rightarrow> string \<Rightarrow> string" where
  "column_of S c p = (case jm_get (fold (\<lambda>(k, v). jm_set k v) (getColumnBindings S c) []) p of Some col \<Rightarrow> col | None \<Rightarrow> p)"

definition changed_properties :: "'c dirty_item list \<Rightarrow> string list" where
  "changed_properties items = js_set (concat (map (\<lambda>(i, e, d). map fst d) items))"

definition batch_of :: "'c setting \<Rightarrow> (nat \<Rightarrow> string \<Rightarrow> uval) \<Rightarrow> string \<Rightarrow> 'c \<Rightarrow> string \<Rightarrow> 'c dirty_item list \<Rightarrow> batch_update" where
  "batch_of S val table c pk items =
     \<lparr>bu_table = table, bu_key = column_of S c pk,
      bu_sets = map (\<lambda>p. (column_of S c p, concat (map (\<lambda>(i, e, d). case jm_get d p of Some v \<Rightarrow> [(val i pk, v)] | None \<Rightarrow> []) items)))
        (changed_properties items),
      bu_keys = map (\<lambda>(i, e, d). val i pk) items\<rparr>"

fun words :: "string \<Rightarrow> string list \<Rightarrow> string" where
  "words sep [] = []"
| "words sep [s] = s"
| "words sep (s # ss) = s @ sep @ words sep ss"

definition batch_sql :: "('c, 'd, 'e) entity_manager \<Rightarrow> batch_update \<Rightarrow> string" where
  "batch_sql M b = (let key = wrap_name M (bu_key b) in
     ''UPDATE '' @ wrapTable M (bu_table b) @ '' SET '' @
     words '', '' (map (\<lambda>(col, cases). wrap_name M col @ '' = CASE '' @
        words '' '' (map (\<lambda>_. ''WHEN '' @ key @ '' = ? THEN ?'') cases) @ '' ELSE '' @ wrap_name M col @ '' END'') (bu_sets b)) @
     '' WHERE '' @ key @ '' IN ('' @ words '', '' (map (\<lambda>_. ''?'') (bu_keys b)) @ '')'')"

definition batch_params :: "batch_update \<Rightarrow> uval list" where
  "batch_params b = concat (map (\<lambda>(col, cases). concat (map (\<lambda>(k, v). [k, v]) cases)) (bu_sets b)) @ bu_keys b"

definition table_name :: "('c, 'd, 'e) flusher \<Rightarrow> 'c \<Rightarrow> string" where
  "table_name F c = (case entity_name (fs_em F) c of Some (ch # n) \<Rightarrow> ch # n | _ \<Rightarrow> class_name (meta_of (fs_setting F) c))"

text \<open>A listener may change an instance: its difference is taken again after the event.\<close>
fun announce_updates :: "('c, 'd, 'e) flusher \<Rightarrow> 'c dirty_item list \<Rightarrow> ('c, 'd, 'e, 'c dirty_item list) flushing" where
  "announce_updates F [] = io_return []"
| "announce_updates F ((i, e, d) # items) =
     io_then (emitFlushEvent (fs_em F) PreUpdate (te_entity e) (Some i) (Some d) None)
       (\<lambda>w. let d' = (case dirty_diff i e w of Some d' \<Rightarrow> d' | None \<Rightarrow> d) in
          io_bind (announce_updates F items) (\<lambda>rest. io_return ((i, e, d') # rest)) w)"

definition after_update :: "('c, 'd, 'e) flusher \<Rightarrow> 'c dirty_item \<Rightarrow> ('c, 'd, 'e, unit) flushing" where
  "after_update F item = (case item of (i, e, d) \<Rightarrow>
     io_then (emitFlushEvent (fs_em F) PostUpdate (te_entity e) (Some i) (Some d) None) (cascade_from F False (te_entity e) i))"

definition update_many :: "('c, 'd, 'e) flusher \<Rightarrow> 'c \<Rightarrow> 'c dirty_item list \<Rightarrow> ('c, 'd, 'e, unit) flushing" where
  "update_many F c items =
     (let pk = (case items of (i, e, d) # _ \<Rightarrow> hd (te_pks e) | [] \<Rightarrow> []) in
      io_bind (announce_updates F items) (\<lambda>items.
        io_then (\<lambda>w. let b = batch_of (fs_setting F) (value_at (buffer w)) (table_name F c) c pk items in
            on_store (em_query (fs_em F) (batch_sql (fs_em F) b) (batch_params b)) w)
        (io_then (change (\<lambda>w. fold (\<lambda>(i, e, d). mark_seen i) items (w\<lparr>updates := updates w + length items\<rparr>)))
          (io_each (after_update F) items))))"

definition write_item :: "('c, 'd, 'e) flusher \<Rightarrow> 'c dirty_item \<Rightarrow> ('c, 'd, 'e, unit) flushing" where
  "write_item F item = (case item of (i, e, d) \<Rightarrow> \<lambda>w. if i \<in> set (seen w) then (Inr (), w) else write_row F i e d w)"

definition update_group :: "('c, 'd, 'e) flusher \<Rightarrow> 'c \<times> 'c dirty_item list \<Rightarrow> ('c, 'd, 'e, unit) flushing" where
  "update_group F g = (case g of (c, raw) \<Rightarrow> \<lambda>w.
     let items = filter (\<lambda>(i, e, d). i \<notin> set (seen w)) raw; S = fs_setting F in
     case items of
       [] \<Rightarrow> (Inr (), w)
     | (i, e, d) # rest \<Rightarrow>
         if rest = [] \<or> length (te_pks e) > 1 \<or> hasOrmManagedFields S c \<or> isTenantScoped S c
         then io_each (write_item F) items w
         else update_many F c items w)"

definition flushUpdatesBatched :: "('c, 'd, 'e) flusher \<Rightarrow> (nat \<times> 'c tracked_entry) list \<Rightarrow> ('c, 'd, 'e, unit) flushing" where
  "flushUpdatesBatched F es = (\<lambda>w.
     let items = concat (map (\<lambda>(i, e). case dirty_diff i e w of Some d \<Rightarrow> [(i, e, d)] | None \<Rightarrow> []) es) in
     io_each (update_group F) (group_by (\<lambda>(i, e, d). te_entity e) items) w)"

subsection \<open>Keeping the tracked instances true to bulk statements\<close>

definition executeBulkUpdate :: "('c, 'd, 'e) entity_manager \<Rightarrow> 'c \<times> fields \<times> fields \<Rightarrow> ('c, 'd, 'e, unit) flushing" where
  "executeBulkUpdate M b = (case b of (c, w, ss) \<Rightarrow> on_store (em_update M c w ss))"

definition executeBulkDelete :: "('c, 'd, 'e) entity_manager \<Rightarrow> 'c \<times> fields \<Rightarrow> ('c, 'd, 'e, unit) flushing" where
  "executeBulkDelete M b = (case b of (c, w) \<Rightarrow> on_store (em_delete M c w))"

definition tracked_of :: "'c uow \<Rightarrow> 'c \<Rightarrow> nat list" where
  "tracked_of u c = map fst (filter (\<lambda>(i, e). te_entity e = c) (trackedEntries u))"

definition detachAllTrackedOfEntity :: "'c setting \<Rightarrow> 'c \<Rightarrow> ('c uow, 'e unit_error, unit) io" where
  "detachAllTrackedOfEntity S c = (\<lambda>u. io_each (detachTracked S) (tracked_of u c) u)"

definition sync_instance :: "fields \<Rightarrow> nat \<Rightarrow> 'c uow \<Rightarrow> 'c uow" where
  "sync_instance ss i u = rebaselineSnapshot i (fold (\<lambda>(col, v). set_value i col v) ss u)"

definition sync_matching :: "fields \<Rightarrow> fields \<Rightarrow> nat \<Rightarrow> 'c uow \<Rightarrow> 'c uow" where
  "sync_matching w ss i u = (if matchesWhere (fields_of (instances u i)) w then sync_instance ss i u else u)"

definition syncTrackedAfterBulkUpdate :: "'c setting \<Rightarrow> 'c \<times> fields \<times> fields \<Rightarrow> ('c uow, 'e unit_error, unit) io" where
  "syncTrackedAfterBulkUpdate S b = (case b of (c, w, ss) \<Rightarrow>
     if \<not> isPureEqualityWhere w \<or> \<not> isPlainSetData ss then detachAllTrackedOfEntity S c
     else (\<lambda>u. (Inr (), fold (sync_matching w ss) (tracked_of u c) u)))"

definition evictTrackedMatching :: "'c setting \<Rightarrow> 'c \<Rightarrow> fields \<Rightarrow> ('c uow, 'e unit_error, unit) io" where
  "evictTrackedMatching S c w =
     (if \<not> isPureEqualityWhere w then detachAllTrackedOfEntity S c
      else (\<lambda>u. io_each (detachTracked S) (filter (\<lambda>i. matchesWhere (fields_of (instances u i)) w) (tracked_of u c)) u))"

definition evictTrackedAfterBulkDelete :: "'c setting \<Rightarrow> 'c \<times> fields \<Rightarrow> ('c uow, 'e unit_error, unit) io" where
  "evictTrackedAfterBulkDelete S b = (case b of (c, w) \<Rightarrow> evictTrackedMatching S c w)"

subsection \<open>Reference stubs\<close>

text \<open>The columns the program wrote on a stub stay; the others, and the baseline, are those of the row.\<close>
definition hydrateReference :: "'c setting \<Rightarrow> 'c \<Rightarrow> nat \<Rightarrow> fields \<Rightarrow> ('c uow, 'e unit_error, unit) io" where
  "hydrateReference S c stub loaded = (\<lambda>u.
     let entry = jm_get (trackedEntries u) stub;
         u = fold (\<lambda>col u. case entry of
             Some e \<Rightarrow> if deepEquals (value_at u stub col) (field_of (te_snapshot e) col) then set_value stub col (field_of loaded col) u else u
           | None \<Rightarrow> set_value stub col (field_of loaded col) u) (fst (getColumnInfo S c)) u;
         u = u\<lparr>referenceStubs := js_delete stub (referenceStubs u)\<rparr> in
     case entry of
       Some e \<Rightarrow> (Inr (), u\<lparr>trackedEntries := jm_set stub (e\<lparr>te_snapshot := snapshot loaded (te_columns e)\<rparr>) (trackedEntries u)\<rparr>)
     | None \<Rightarrow> buffer_track S stub u)"

definition verify_stub :: "('c, 'd, 'e) flusher \<Rightarrow> nat \<times> 'c tracked_entry \<Rightarrow> ('c, 'd, 'e, unit) flushing" where
  "verify_stub F ie = (case ie of (i, e) \<Rightarrow> \<lambda>w.
     if i \<notin> set (referenceStubs (buffer w)) \<or> dirty_diff i e w = None then (Inr (), w)
     else io_bind (on_store (em_findOne (fs_em F) (te_entity e) (buildPkWhere (fields_of (instances (buffer w) i)) (te_pks e))))
       (\<lambda>loaded. case loaded of
          None \<Rightarrow> io_throw Not_In_Database
        | Some row \<Rightarrow> on_buffer (hydrateReference (fs_setting F) (te_entity e) i row)) w)"

subsection \<open>What a failed flush puts back\<close>

definition column_state :: "'c setting \<Rightarrow> 'c uow \<Rightarrow> nat \<Rightarrow> fields" where
  "column_state S u i = (let c = constructor_of (instances u i) in
     fold (\<lambda>col st. jm_set col (value_at u i col) st) (fst (getColumnInfo S c)) [])"

text \<open>\<^verbatim>\<open>record\<close>, with the recursion into the children; a nested call is for an instance that is not recorded yet.\<close>
fun record_columns :: "'c setting \<Rightarrow> 'c relations \<Rightarrow> 'c uow \<Rightarrow> nat \<Rightarrow> nat list \<Rightarrow> (nat \<times> fields) list \<Rightarrow> (nat \<times> fields) list" where
  "record_columns S R u n [] st = st"
| "record_columns S R u n (i # is) st =
     (let c = constructor_of (instances u i) in
      if i \<in> set (map fst st) \<or> plain_class S c \<or> fst (getColumnInfo S c) = [] then record_columns S R u n is st
      else (case n of 0 \<Rightarrow> st
        | Suc m \<Rightarrow> record_columns S R u n is
            (record_columns S R u m (forEachLoadedRelated R u c i) (jm_set i (column_state S u i) st))))"

declare record_columns.simps(2) [simp del]

definition capturePreFlushColumnState :: "'c setting \<Rightarrow> 'c relations \<Rightarrow> nat \<Rightarrow> 'c uow \<Rightarrow> (nat \<times> fields) list" where
  "capturePreFlushColumnState S R n u =
     record_columns S R u n (map pe_instance (persistQueue u) @ map fst (trackedEntries u)) []"

definition restore_columns :: "nat \<times> fields \<Rightarrow> 'c uow \<Rightarrow> 'c uow" where
  "restore_columns st u = (case st of (i, snap) \<Rightarrow> fold (\<lambda>(col, v). set_value i col v) snap u)"

definition restorePreFlushColumnState :: "(nat \<times> fields) list \<Rightarrow> 'c uow \<Rightarrow> 'c uow" where
  "restorePreFlushColumnState st u = fold restore_columns st u"

subsection \<open>The flush\<close>

text \<open>\<^verbatim>\<open>validateAll\<close>: the changed tracked instances, then the new ones; the first failure is thrown.\<close>
definition validateAll :: "('c, 'd, 'e) flusher \<Rightarrow> 'c uow \<Rightarrow> 'e option" where
  "validateAll F u =
     (let changed = filter (\<lambda>(i, e). \<not> te_readOnly e \<and> shouldDirtyCheck (base (fs_config F)) e \<and> entry_diff u i e \<noteq> None) (trackedEntries u);
          subjects = map (\<lambda>(i, e). (te_entity e, i)) changed @ map (\<lambda>p. (pe_entity p, pe_instance p)) (persistQueue u) in
      case concat (map (\<lambda>(c, i). case validate (fs_em F) c (fields_of (instances u i)) of Some e \<Rightarrow> [e] | None \<Rightarrow> []) subjects) of
        [] \<Rightarrow> None | e # _ \<Rightarrow> Some e)"

definition eligible_entries :: "('c, 'd, 'e) flusher \<Rightarrow> ('c \<times> int) list \<Rightarrow> 'c uow \<Rightarrow> (nat \<times> 'c tracked_entry) list" where
  "eligible_entries F ix u = sortByIndex (\<lambda>(i, e). te_entity e)
     (filter (\<lambda>(i, e). \<not> te_readOnly e \<and> shouldDirtyCheck (base (fs_config F)) e) (trackedEntries u)) ix False"

definition insert_plain :: "('c, 'd, 'e) flusher \<Rightarrow> 'c \<times> fields \<Rightarrow> ('c, 'd, 'e, unit) flushing" where
  "insert_plain F cd = (case cd of (c, data) \<Rightarrow>
     io_bind (on_store (em_save (fs_em F) c data)) (\<lambda>_. change count_insert))"

definition search_cascade :: "('c, 'd, 'e) flusher \<Rightarrow> 'c \<times> fields \<Rightarrow> ('c, 'd, 'e, unit) flushing" where
  "search_cascade F cd = (case cd of (c, criteria) \<Rightarrow>
     io_then (change (\<lambda>w. w\<lparr>rows_seen := []\<rparr>))
       (collectCascadeDeletes (fs_setting F) (fs_relations F) (fs_em F) (fs_fuel F) c criteria))"

definition collect_deletes :: "('c, 'd, 'e) flusher \<Rightarrow> ('c, 'd, 'e, unit) flushing" where
  "collect_deletes F = (\<lambda>w.
     if \<not> cas_remove (cascade (base (fs_config F))) then (Inr (), w)
     else io_then (io_each (search_cascade F) (deletes_copy w))
       (change (\<lambda>w. w\<lparr>deletes_copy := deletes_copy w @ cascade_deletes w\<rparr>)) (w\<lparr>cascade_deletes := []\<rparr>))"

definition delete_row :: "('c, 'd, 'e) flusher \<Rightarrow> 'c \<times> fields \<Rightarrow> ('c, 'd, 'e, unit) flushing" where
  "delete_row F cd = (case cd of (c, criteria) \<Rightarrow> let M = fs_em F in
     io_then (emitFlushEvent M PreDelete c None None (Some criteria))
     (io_then (on_store (em_delete M c criteria))
     (io_then (change count_delete)
     (io_then (on_buffer (evictTrackedMatching (fs_setting F) c criteria))
       (emitFlushEvent M PostDelete c None None (Some criteria))))))"

definition delete_rows :: "('c, 'd, 'e) flusher \<Rightarrow> ('c \<times> int) list \<Rightarrow> ('c, 'd, 'e, unit) flushing" where
  "delete_rows F ix = (\<lambda>w. io_each (delete_row F) (sortByIndex fst (deletes_copy w) ix True) w)"

definition bulk_update :: "('c, 'd, 'e) flusher \<Rightarrow> 'c \<times> fields \<times> fields \<Rightarrow> ('c, 'd, 'e, unit) flushing" where
  "bulk_update F b = io_then (executeBulkUpdate (fs_em F) b)
     (io_then (change count_update) (on_buffer (syncTrackedAfterBulkUpdate (fs_setting F) b)))"

definition bulk_delete :: "('c, 'd, 'e) flusher \<Rightarrow> 'c \<times> fields \<Rightarrow> ('c, 'd, 'e, unit) flushing" where
  "bulk_delete F b = io_then (executeBulkDelete (fs_em F) b)
     (io_then (change count_delete) (on_buffer (evictTrackedAfterBulkDelete (fs_setting F) b)))"

definition write_diffs :: "('c, 'd, 'e) flusher \<Rightarrow> (nat \<times> 'c tracked_entry) list \<Rightarrow> ('c, 'd, 'e, unit) flushing" where
  "write_diffs F es = (\<lambda>w.
     let now_entries = map (\<lambda>(i, e). (i, entry_now i e w)) es; K = fs_config F;
         found = collectCollectionDiffs (fs_setting F) (fs_relations F) (buffer w) now_entries in
     io_each (process_diff (fs_setting F) (fs_relations F) (fs_em F) (base K) (orphanRemoval K) (manyToManySync K) (fst found)) (snd found) w)"

text \<open>\<^verbatim>\<open>flushFn\<close>, on the queues as they were: the steps in their order.\<close>
definition flush_steps :: "('c, 'd, 'e) flusher \<Rightarrow> ('c \<times> int) list \<Rightarrow> 'c uow \<Rightarrow> ('c, 'd, 'e, unit) flushing" where
  "flush_steps F ix u = (let es = eligible_entries F ix u; K = fs_config F;
       ps = sortByIndex pe_entity (persistQueue u) ix False in
     io_then (io_each (verify_stub F) es)
     (io_then (if batchUpdate K then flushUpdatesBatched F es else io_each (update_row F) es)
     (io_then (if batchInsert K \<and> ps \<noteq> [] then flushPersistsBatched F ps else io_each (insert_instance F True) ps)
     (io_then (io_each (insert_plain F) (insertQueue u))
     (io_then (write_diffs F es)
     (io_then (collect_deletes F)
     (io_then (delete_rows F ix)
     (io_then (io_each (bulk_update F) (bulkUpdateQueue u))
       (io_each (bulk_delete F) (bulkDeleteQueue u))))))))))"

text \<open>A nested buffer sets a savepoint first and rolls back to it.\<close>
definition under_savepoint :: "('c, 'd, 'e) flusher \<Rightarrow> ('c, 'd, 'e, unit) flushing \<Rightarrow> ('c, 'd, 'e, unit) flushing" where
  "under_savepoint F m = (\<lambda>w.
     if \<not> is_nested (fs_config F) then m w
     else (let name = fresh_name (fs_em F) (store w) in
       io_catch (io_then (on_store (em_query (fs_em F) (''SAVEPOINT '' @ name) [])) m)
         (\<lambda>e. io_then (on_store (em_query (fs_em F) (''ROLLBACK TO SAVEPOINT '' @ name) [])) (io_throw e)) w))"

definition in_transaction :: "('c, 'd, 'e) entity_manager \<Rightarrow> ('c, 'd, 'e, unit) flushing \<Rightarrow> ('c, 'd, 'e, unit) flushing" where
  "in_transaction M m = io_then (on_store (em_begin M))
     (io_catch (io_then m (on_store (em_commit M)))
       (\<lambda>e. io_then (change (\<lambda>w. w\<lparr>store := em_rollback M (store w)\<rparr>)) (io_throw e)))"

definition clear_queues :: "'c uow \<Rightarrow> 'c uow" where
  "clear_queues u = u\<lparr>insertQueue := [], deleteQueue := [], persistQueue := [], bulkUpdateQueue := [], bulkDeleteQueue := []\<rparr>"

definition settle_entry :: "'c setting \<Rightarrow> 'c uow \<Rightarrow> nat \<Rightarrow> 'c tracked_entry \<Rightarrow> 'c tracked_entry" where
  "settle_entry S u i e = e\<lparr>te_snapshot := snapshot (fields_of (instances u i)) (te_columns e), te_explicitDirty := False,
     te_collections := (if te_collections e = [] then [] else snapshotCollections S u i (te_entity e))\<rparr>"

definition settle_tracked :: "'c setting \<Rightarrow> 'c uow \<Rightarrow> 'c uow" where
  "settle_tracked S u = u\<lparr>trackedEntries := map (\<lambda>(i, e). (i, settle_entry S u i e)) (trackedEntries u)\<rparr>"

definition adopt :: "'c setting \<Rightarrow> 'c persist_entry \<Rightarrow> ('c uow, 'e unit_error, unit) io" where
  "adopt S p = (let i = pe_instance p in
     io_then (\<lambda>u. if jm_get (trackedEntries u) i = None then buffer_track S i u else (Inr (), u)) (\<lambda>u. (Inr (), set_state i MANAGED u)))"

definition after_success :: "('c, 'd, 'e) flusher \<Rightarrow> 'c persist_entry list \<Rightarrow> ('c uow, 'e unit_error, unit) io" where
  "after_success F ps = (\<lambda>u. let S = fs_setting F; u = clear_queues u in
     if retainAfterFlush (base (fs_config F)) then io_each (adopt S) ps (settle_tracked S u)
     else (Inr (), fold (\<lambda>p. set_state (pe_instance p) MANAGED) ps (u\<lparr>trackedEntries := [], identityMap := []\<rparr>)))"

definition restore_queues :: "'c uow \<Rightarrow> ('c \<times> fields) list \<Rightarrow> 'c uow \<Rightarrow> 'c uow" where
  "restore_queues before dels u = u\<lparr>insertQueue := insertQueue before, deleteQueue := dels, persistQueue := persistQueue before,
     bulkUpdateQueue := bulkUpdateQueue before, bulkDeleteQueue := bulkDeleteQueue before\<rparr>"

text \<open>The handler of the flush.\<close>
definition undo_flush :: "(nat \<times> fields) list \<Rightarrow> 'c uow \<Rightarrow> ('c, 'd) flush_state \<Rightarrow> ('c, 'd) flush_state" where
  "undo_flush pre before w = w\<lparr>buffer := restore_queues before (deletes_copy w) (restorePreFlushColumnState pre (buffer w))\<rparr>"

definition flush_result :: "('c, 'd) flush_state \<Rightarrow> nat \<times> nat \<times> nat" where
  "flush_result w = (updates w, inserts w, deletes w)"

definition call_onFlush :: "('c, 'd, 'e) entity_manager \<Rightarrow> ('c, 'd, 'e, unit) flushing" where
  "call_onFlush M = (\<lambda>w. case onFlush M (flush_result w) (buffer w, store w) of (r, u, d) \<Rightarrow> (r, w\<lparr>buffer := u, store := d\<rparr>))"

definition start_flush :: "('c, 'd) flush_state \<Rightarrow> ('c, 'd) flush_state" where
  "start_flush w = w\<lparr>seen := [], updates := 0, inserts := 0, deletes := 0, rows_seen := [], cascade_deletes := [],
     deletes_copy := deleteQueue (buffer w)\<rparr>"

definition flush_attempt :: "('c, 'd, 'e) flusher \<Rightarrow> 'c reflect \<Rightarrow> 'c uow \<Rightarrow> ('c, 'd, 'e, nat \<times> nat \<times> nat) flushing" where
  "flush_attempt F rfl u = (let S = fs_setting F; ix = buildTopologicalIndexMap rfl (registered S) in
     io_then (in_transaction (fs_em F) (under_savepoint F (flush_steps F ix u)))
     (io_then (on_buffer (after_success F (persistQueue u)))
     (io_then (call_onFlush (fs_em F)) (\<lambda>w. (Inr (flush_result w), w)))))"

definition flush :: "('c, 'd, 'e) flusher \<Rightarrow> 'c reflect \<Rightarrow> ('c, 'd, 'e, nat \<times> nat \<times> nat) flushing" where
  "flush F rfl = (\<lambda>w. let u = buffer w; K = fs_config F in
     if \<not> hasPendingWork (base K) u then (Inr (0, 0, 0), w)
     else (case (if validateBeforeFlush K then validateAll F u else None) of
         Some e \<Rightarrow> (Inl (Thrown e), w)
       | None \<Rightarrow> (let pre = capturePreFlushColumnState (fs_setting F) (fs_relations F) (Suc (fs_fuel F)) u in
           io_catch (flush_attempt F rfl u) (\<lambda>e. io_then (change (undo_flush pre u)) (io_throw e)) (start_flush w))))"

text \<open>The callback a flush inside a caller's transaction registers, for when that one is rolled back.\<close>
definition outer_rolled_back :: "(nat \<times> fields) list \<Rightarrow> 'c persist_entry list \<Rightarrow> 'c uow \<Rightarrow> 'c uow" where
  "outer_rolled_back pre ps u = (let u = restorePreFlushColumnState pre u in
     u\<lparr>stateMap := fold (\<lambda>p. jm_delete (pe_instance p)) ps (stateMap u), trackedEntries := [], identityMap := []\<rparr>)"

subsection \<open>What every step respects\<close>

text \<open>A relation between the worlds before and after a computation, whether it fails or not.\<close>
definition abides :: "('w \<Rightarrow> 'w \<Rightarrow> bool) \<Rightarrow> ('w, 'e, 'a) io \<Rightarrow> bool" where
  "abides r m \<longleftrightarrow> (\<forall>w. r w (snd (m w)))"

named_theorems abides_intros \<open>steps of a flush that respect a relation\<close>

lemma abidesI: "(\<And>w. r w (snd (m w))) \<Longrightarrow> abides r m"
  and abidesD: "abides r m \<Longrightarrow> r w (snd (m w))"
  by (simp_all add: abides_def)

definition same_graph :: "'c uow \<Rightarrow> 'c uow \<Rightarrow> bool" where
  "same_graph u u' \<longleftrightarrow> (\<forall>i. constructor_of (instances u' i) = constructor_of (instances u i) \<and> relations_of (instances u' i) = relations_of (instances u i))"

text \<open>
  What holds of one write holds of a flush: a preorder on worlds that the database, the listeners, the counters, the visited
  set, and any change of the buffer that leaves classes and relations of the instances alone respect.
\<close>
locale flush_preorder =
  fixes r :: "('c, 'd) flush_state \<Rightarrow> ('c, 'd) flush_state \<Rightarrow> bool" and M :: "('c, 'd, 'e) entity_manager"
  assumes here: "r w w" and onwards: "r w1 w2 \<Longrightarrow> r w2 w3 \<Longrightarrow> r w1 w3"
    and stored: "r w (w\<lparr>store := d\<rparr>)"
    and buffered: "same_graph (buffer w) u \<Longrightarrow> r w (w\<lparr>buffer := u\<rparr>)"
    and heard: "l \<in> set (listeners M t) \<Longrightarrow> l ev (buffer w, store w) = (x, u, d) \<Longrightarrow> r w (w\<lparr>buffer := u, store := d\<rparr>)"
    and counted: "r w (w\<lparr>updates := k\<rparr>)" "r w (w\<lparr>inserts := k\<rparr>)" "r w (w\<lparr>deletes := k\<rparr>)"
    and searched: "r w (w\<lparr>rows_seen := ks\<rparr>)" "r w (w\<lparr>cascade_deletes := ds\<rparr>)"
    and marked: "r w (mark_seen i w)"
begin

lemma at_bind: "r w w1 \<Longrightarrow> abides r m \<Longrightarrow> (\<And>a. abides r (f a)) \<Longrightarrow> r w (snd (io_bind m f w1))"
  unfolding io_bind_def abides_def
  by (auto split: prod.splits sum.splits) (metis onwards snd_conv)+

lemma at_then: "r w w1 \<Longrightarrow> abides r m \<Longrightarrow> abides r k \<Longrightarrow> r w (snd (io_then m k w1))"
  unfolding io_then_def by (rule at_bind)

lemma at_catch: "r w w1 \<Longrightarrow> abides r m \<Longrightarrow> (\<And>e. abides r (h e)) \<Longrightarrow> r w (snd (io_catch m h w1))"
  unfolding io_catch_def abides_def
  by (auto split: prod.splits sum.splits) (metis onwards snd_conv)+

lemma at_each: "r w w1 \<Longrightarrow> (\<And>x. x \<in> set xs \<Longrightarrow> abides r (f x)) \<Longrightarrow> r w (snd (io_each f xs w1))"
proof (induction xs arbitrary: w w1)
  case (Cons x xs)
  have "abides r (io_each f xs)" by (rule abidesI, rule Cons.IH[OF here]) (simp add: Cons.prems)
  then show ?case using Cons.prems by (simp add: at_then)
qed (simp add: io_defs)

lemma at_if: "r w (snd (m w1)) \<Longrightarrow> r w (snd (k w1)) \<Longrightarrow> r w (snd ((if b then m else k) w1))"
  by simp

lemma at_call: "r w w1 \<Longrightarrow> abides r m \<Longrightarrow> r w (snd (m w1))"
  by (metis abidesD onwards)

lemma bind_abides [abides_intros]: "abides r m \<Longrightarrow> (\<And>a. abides r (f a)) \<Longrightarrow> abides r (io_bind m f)"
  and then_abides [abides_intros]: "abides r m \<Longrightarrow> abides r k \<Longrightarrow> abides r (io_then m k)"
  and catch_abides [abides_intros]: "abides r m \<Longrightarrow> (\<And>e. abides r (h e)) \<Longrightarrow> abides r (io_catch m h)"
  and each_abides [abides_intros]: "(\<And>x. x \<in> set xs \<Longrightarrow> abides r (g x)) \<Longrightarrow> abides r (io_each g xs)"
  by (rule abidesI, (rule at_bind at_then at_catch at_each); (rule here | assumption))+

lemma return_abides [abides_intros]: "abides r (io_return a)"
  and throw_abides [abides_intros]: "abides r (io_throw e)"
  and stay_abides [abides_intros]: "abides r (\<lambda>w. (x, w))"
  by (rule abidesI, simp add: io_defs here)+

lemma if_abides [abides_intros]: "abides r m \<Longrightarrow> abides r k \<Longrightarrow> abides r (if b then m else k)"
  by simp

lemma store_abides [abides_intros]: "abides r (on_store m)"
  by (rule abidesI) (simp add: on_store_def stored split: prod.split)

lemma change_abides: "(\<And>w. r w (f w)) \<Longrightarrow> abides r (change f)"
  by (simp add: abides_def change_def)

lemma buffer_abides: "(\<And>u. same_graph u (snd (m u))) \<Longrightarrow> abides r (on_buffer m)"
  by (rule abidesI) (simp add: on_buffer_def split: prod.split, metis buffered snd_conv)

lemma event_abides [abides_intros]: "abides r (emitFlushEvent M t c i d cr)"
  unfolding emitFlushEvent_def
  by (rule each_abides, rule abidesI) (auto split: prod.split intro: heard)

end

lemma same_graph_refl [simp]: "same_graph u u"
  and same_graph_trans: "same_graph u v \<Longrightarrow> same_graph v w \<Longrightarrow> same_graph u w"
  by (simp_all add: same_graph_def)

lemma same_graph_cong: "instances u' = instances u \<Longrightarrow> same_graph u u'"
  by (simp add: same_graph_def)

lemma same_graph_set_value [simp]: "same_graph u (set_value i col v u)"
  by (simp add: same_graph_def set_value_def)

lemma same_graph_fold: "(\<And>x u. same_graph u (f x u)) \<Longrightarrow> same_graph u (fold f xs u)"
  by (induction xs arbitrary: u) (auto intro: same_graph_trans)

context flush_preorder
begin

lemma column_step: "r w (set_column i col v w)"
  by (simp add: set_column_def buffered)

lemma fold_step: "(\<And>x w. r w (f x w)) \<Longrightarrow> r w (fold f xs w)"
  by (induction xs arbitrary: w) (auto intro: here onwards)

lemma write_back_step: "r w (write_back i cols saved w)"
  by (auto simp: write_back_def intro!: fold_step here column_step split: option.split)

lemma timestamps_step: "r w (ensureTimestamps S M' c i b w)"
  unfolding ensureTimestamps_def Let_def
  by (auto intro: here column_step onwards[OF column_step column_step] split: option.split)

lemma save_columns_abides [abides_intros]: "abides r (save_columns M c i cols fk)"
  unfolding save_columns_def
  by (rule abidesI, rule at_bind[OF here]) (intro abides_intros change_abides write_back_step)+

lemma version_abides [abides_intros]: "abides r (ensureVersionIncrement S M' c i (sn :: fields))"
  by (rule abidesI) (auto simp: ensureVersionIncrement_def Let_def intro: here column_step split: option.split)

lemma count_steps: "r w (count_update w)" "r w (count_insert w)" "r w (count_delete w)"
  by (simp_all add: count_update_def count_insert_def count_delete_def counted)

lemma rebaseline_step: "r w (w\<lparr>buffer := rebaselineSnapshot i (buffer w)\<rparr>)"
  by (rule buffered) (auto simp: rebaselineSnapshot_def intro: same_graph_cong split: option.split)

lemma save_tracked_abides [abides_intros]: "abides r (save_tracked_child S M c i fk e d)"
proof -
  have version: "abides r (\<lambda>w. ensureVersionIncrement S M c i (te_snapshot (entry_now i e w)) w)"
    by (rule abidesI) (rule abidesD[OF version_abides])
  have last: "r w (count_update (w\<lparr>buffer := rebaselineSnapshot i (buffer w)\<rparr>))" for w
    by (rule onwards[OF rebaseline_step count_steps(1)])
  show ?thesis unfolding save_tracked_child_def
    by (intro abides_intros version change_abides timestamps_step last)
qed

lemma save_child_abides [abides_intros]: "abides r (saveCascadeChild S M c i fk)"
proof (rule abidesI)
  fix w
  have tracked: "r w (snd (save_tracked_child S M c i f e d w))" for f e d by (rule abidesD[OF save_tracked_abides])
  show "r w (snd (saveCascadeChild S M c i fk w))"
    unfolding saveCascadeChild_def Let_def
    by (auto split: option.split intro!: here tracked at_then abides_intros change_abides count_steps)
qed

lemma assign_fk_abides [abides_intros]: "abides r (assignFkDetectingChange i keys v)"
  by (rule abidesI) (auto simp: assignFkDetectingChange_def Let_def same_graph_def intro!: buffered)

lemma cascade_child_abides:
  assumes "\<And>b c i. abides r (rec b c i)"
  shows "abides r (cascade_child S M rec keys v c i)"
  by (rule abidesI) (auto simp: cascade_child_def Let_def intro!: here at_bind marked abides_intros assms)

lemma one_to_many_abides:
  assumes "\<And>b c i. abides r (rec b c i)"
  shows "abides r (cascade_one_to_many S R M rec c i rel)"
  by (rule abidesI) (auto simp: cascade_one_to_many_def intro!: here at_each cascade_child_abides assms)

lemma fix_owner_abides [abides_intros]: "abides r (fix_owner S M c i rel j)"
proof (rule abidesI)
  fix w
  have update: "r w (snd (on_store m (set_column i col v w)))" for m :: "'d \<Rightarrow> ('e unit_error + unit) \<times> 'd" and col v
    by (rule at_call[OF column_step store_abides])
  show "r w (snd (fix_owner S M c i rel j w))"
    unfolding fix_owner_def Let_def
    by (auto split: option.split list.split intro: here column_step update)
qed

lemma one_to_one_abides:
  assumes "\<And>b c i. abides r (rec b c i)"
  shows "abides r (cascade_one_to_one S M rec c i rel)"
  by (rule abidesI)
     (auto simp: cascade_one_to_one_def Let_def split: relation_value.split intro!: here at_then marked abides_intros assms)

lemma new_child_abides [abides_intros]: "abides r (save_new_child S M c i)"
  by (rule abidesI) (auto simp: save_new_child_def Let_def intro!: here at_then marked abides_intros change_abides count_steps)

lemma link_abides [abides_intros]: "abides r (link_child M jt pks v i)"
  by (rule abidesI)
     (auto simp: link_child_def insertPivotRow_def split: list.split intro!: here at_then abides_intros change_abides count_steps)

lemma many_to_many_abides [abides_intros]: "abides r (cascade_many_to_many S M sync isNew c i rel)"
proof (rule abidesI)
  fix w
  have link: "abides r (\<lambda>w. let v = f w in if isNew \<and> sync \<and> \<not> nullish v then io_each (link_child M jt pks v) is w else (Inr (), w))" for f jt pks "is"
    by (rule abidesI) (auto simp: Let_def intro!: here at_each abides_intros)
  show "r w (snd (cascade_many_to_many S M sync isNew c i rel w))"
    unfolding cascade_many_to_many_def
    by (auto simp: Let_def split: option.split intro!: here at_then abides_intros link[unfolded Let_def])
qed

theorem cascade_abides: "abides r (processCascadeInsertUpdate S R M opts sync n isNew c i)"
proof (induction n arbitrary: isNew c i)
  case (Suc n)
  show ?case
    by (auto intro!: abides_intros one_to_many_abides one_to_one_abides Suc.IH)
qed (simp add: abides_intros)

end

context flush_preorder
begin

lemma add_child_abides [abides_intros]: "abides r (add_child S R M rel v i)"
  by (rule abidesI) (auto simp: add_child_def Let_def intro!: here at_bind at_then marked abides_intros)

lemma remove_orphan_abides [abides_intros]: "abides r (remove_orphan S M rp c i)"
  by (rule abidesI) (auto simp: remove_orphan_def Let_def intro!: here at_then abides_intros change_abides count_steps)

lemma one_to_many_diff_abides [abides_intros]: "abides r (processOneToManyCollectionDiff S R M opts orphans rp p c rel d)"
  unfolding processOneToManyCollectionDiff_def Let_def
  by (rule abidesI) (intro at_then here abides_intros)

lemma unlink_abides [abides_intros]: "abides r (unlink_child M jt pks v i)"
  by (rule abidesI)
     (auto simp: unlink_child_def split: list.split intro!: here at_then abides_intros change_abides count_steps)

lemma many_to_many_diff_abides [abides_intros]: "abides r (processManyToManyCollectionDiff S M sync p c rel d)"
  by (rule abidesI)
     (auto simp: processManyToManyCollectionDiff_def Let_def split: option.split intro!: here at_then abides_intros)

lemma process_diff_abides [abides_intros]: "abides r (process_diff S R M opts orphans sync rp pd)"
  by (cases "pd_relation pd") (simp_all add: process_diff_def abides_intros)

lemma add_delete_step: "r w (add_delete c criteria w)"
  by (simp add: add_delete_def searched)

lemma delete_children_abides:
  assumes "\<And>c criteria. abides r (rec c criteria)"
  shows "abides r (delete_children S R M rec c criteria rel)"
  unfolding delete_children_def Let_def
  by (auto intro!: abides_intros change_abides add_delete_step assms)

lemma delete_related_abides:
  assumes "\<And>c criteria. abides r (rec c criteria)"
  shows "abides r (delete_related S rec criteria rel)"
  unfolding delete_related_def Let_def
  by (auto split: option.split list.split intro!: abides_intros change_abides add_delete_step assms)

lemma search_abides: "abides r (collectCascadeDeletes S R M n c criteria)"
proof (induction n arbitrary: c criteria)
  case (Suc n)
  show ?case
    by (rule abidesI)
       (auto simp: Let_def intro!: here at_then searched abides_intros delete_children_abides delete_related_abides Suc.IH)
qed (simp add: abides_intros)

lemma cascade_from_abides: "fs_em F = M \<Longrightarrow> abides r (cascade_from F b c i)"
  unfolding cascade_from_def by (simp add: cascade_abides)

lemma insert_instance_abides: "fs_em F = M \<Longrightarrow> abides r (insert_instance F stamp p)"
proof -
  assume F: "fs_em F = M"
  have stamped: "r w (mark_seen i (count_insert (if b then ensureTimestamps S M c i True w else w)))" for w i b S c
    by (cases b) (auto intro: onwards[OF _ marked] onwards[OF _ count_steps(2)] here timestamps_step)
  show ?thesis unfolding insert_instance_def Let_def F by (intro abides_intros cascade_from_abides F change_abides stamped)
qed

lemma set_unless_step: "r w (set_unless_present i col v w)"
  by (auto simp: set_unless_present_def intro: here column_step split: option.split list.split)

lemma inject_step: "r w (injectOrmManagedFields S c ps t w)"
proof -
  have "r w (case getUpdateTimestampColumn S c of Some (ch # col) \<Rightarrow> set_column i (ch # col) t w | _ \<Rightarrow> w)" for i w
    by (auto intro: here column_step split: option.split list.split)
  then have "r w (inject_fields S c t p w)" for p w
    unfolding inject_fields_def Let_def by (meson onwards set_unless_step)
  then show ?thesis unfolding injectOrmManagedFields_def by (rule fold_step)
qed

lemma write_all_step: "r w (write_back_all ps saved w)"
  unfolding write_back_all_def by (rule fold_step) (auto intro: write_back_step)

lemma insert_many_abides: "fs_em F = M \<Longrightarrow> abides r (insert_many F c ps)"
proof -
  assume F: "fs_em F = M"
  have save: "abides r (\<lambda>w. io_bind (on_store (f w)) (\<lambda>saved. change (\<lambda>w. write_back_all ps saved (w\<lparr>inserts := inserts w + length ps\<rparr>))) w)" for f
    by (rule abidesI, rule at_bind[OF here]) (auto intro!: abides_intros change_abides onwards[OF counted(2) write_all_step])
  have after: "abides r (after_insert F p)" for p
    unfolding after_insert_def Let_def F by (intro abides_intros cascade_from_abides F change_abides marked)
  show ?thesis unfolding insert_many_def Let_def F by (intro abides_intros save after)
qed

lemma insert_group_abides: "fs_em F = M \<Longrightarrow> abides r (insert_group F t g)"
  by (cases g) (auto simp: insert_group_def intro!: abides_intros insert_instance_abides insert_many_abides change_abides inject_step)

lemma batched_inserts_abides: "fs_em F = M \<Longrightarrow> abides r (flushPersistsBatched F ps)"
  unfolding flushPersistsBatched_def by (rule abidesI, rule at_each[OF here], rule insert_group_abides)

lemma write_row_abides: "fs_em F = M \<Longrightarrow> abides r (write_row F i e d)"
proof -
  assume F: "fs_em F = M"
  have version: "abides r (\<lambda>w. ensureVersionIncrement S M c i (te_snapshot (entry_now i e w)) w)" for S c
    by (rule abidesI) (rule abidesD[OF version_abides])
  show ?thesis unfolding write_row_def Let_def F
    by (intro abides_intros version cascade_from_abides F change_abides onwards[OF _ marked] onwards[OF timestamps_step count_steps(1)])
qed

lemma update_row_abides: "fs_em F = M \<Longrightarrow> abides r (update_row F ie)"
  by (cases ie, rule abidesI) (auto simp: update_row_def split: option.split intro!: here abidesD[OF write_row_abides])

lemma announce_abides: "fs_em F = M \<Longrightarrow> abides r (announce_updates F items)"
proof (induction items)
  case (Cons item items)
  obtain i e d where item: "item = (i, e, d)" by (cases item)
  have "abides r (\<lambda>w. let d' = f w in io_bind (announce_updates F items) (\<lambda>rest. io_return ((i, e, d') # rest)) w)" for f
    by (rule abidesI) (auto simp: Let_def intro!: at_bind here Cons abides_intros)
  then have rest: "abides r (\<lambda>w. let d' = f w in io_bind (announce_updates F items) (\<lambda>rest. io_return ((i, e, d') # rest)) w)" for f .
  show ?case unfolding item announce_updates.simps Cons.prems by (rule then_abides[OF event_abides rest])
qed (simp add: abides_intros)

lemma update_many_abides: "fs_em F = M \<Longrightarrow> abides r (update_many F c items)"
proof -
  assume F: "fs_em F = M"
  have query: "abides r (\<lambda>w. let b = f w in on_store (em_query M (batch_sql M b) (batch_params b)) w)" for f
    by (rule abidesI) (simp add: Let_def abidesD[OF store_abides])
  have after: "abides r (after_update F item)" for item
    by (cases item) (auto simp: after_update_def F intro!: abides_intros cascade_from_abides)
  have seen: "r w (fold (\<lambda>(i, e, d). mark_seen i) items (w\<lparr>updates := k\<rparr>))" for w items k
    by (rule onwards[OF counted(1) fold_step]) (auto intro: marked)
  show ?thesis unfolding update_many_def Let_def F
    by (intro abides_intros announce_abides[OF F] query[unfolded Let_def] after change_abides seen)
qed

lemma update_group_abides: "fs_em F = M \<Longrightarrow> abides r (update_group F g)"
proof -
  assume F: "fs_em F = M"
  have row: "abides r (write_item F x)" for x
    by (cases x, rule abidesI) (auto simp: write_item_def intro!: here abidesD[OF write_row_abides[OF F]])
  have rows: "r w (snd (io_each (write_item F) items w))" for items w by (rule at_each[OF here row])
  show ?thesis
    by (cases g, rule abidesI)
       (simp add: update_group_def Let_def here rows abidesD[OF update_many_abides[OF F]] del: io_each.simps split: list.split)
qed

lemma batched_updates_abides: "fs_em F = M \<Longrightarrow> abides r (flushUpdatesBatched F es)"
  unfolding flushUpdatesBatched_def Let_def by (rule abidesI, rule at_each[OF here], rule update_group_abides)

end

lemma io_each_invariant: "(\<And>x u. P u \<Longrightarrow> P (snd (f x u))) \<Longrightarrow> P u \<Longrightarrow> P (snd (io_each f xs u))"
proof (induction xs arbitrary: u)
  case (Cons x xs)
  have "P (snd (f x u))" using Cons.prems by blast
  then show ?case using Cons by (cases "f x u") (auto simp: io_defs split: sum.split)
qed (simp add: io_defs)

lemma detachTracked_fields:
  "instances (snd (detachTracked S i u)) = instances u" "deleteQueue (snd (detachTracked S i u)) = deleteQueue u"
  by (simp_all add: detachTracked_def buildIdentityKey_def io_defs split: option.splits)

lemma each_detach_instances: "instances (snd (io_each (detachTracked S) is u)) = instances u"
  by (rule io_each_invariant[where P = "\<lambda>v. instances v = instances u"]) (simp_all add: detachTracked_fields)

lemma detach_all_instances: "instances (snd (detachAllTrackedOfEntity S c u)) = instances u"
  by (simp add: detachAllTrackedOfEntity_def each_detach_instances)

lemma evict_matching_instances: "instances (snd (evictTrackedMatching S c w u)) = instances u"
  by (simp add: evictTrackedMatching_def detach_all_instances each_detach_instances)

lemma rebaseline_instances [simp]: "instances (rebaselineSnapshot i u) = instances u"
  by (simp add: rebaselineSnapshot_def split: option.split)

lemma same_graph_to: "same_graph u v \<Longrightarrow> instances v' = instances v \<Longrightarrow> same_graph u v'"
  by (simp add: same_graph_def)

lemma same_graph_sync: "same_graph u (sync_matching w ss i u)"
proof -
  have "same_graph u (fold (\<lambda>(col, v). set_value i col v) ss u)" by (rule same_graph_fold) auto
  then show ?thesis by (simp add: sync_matching_def sync_instance_def same_graph_to[OF _ rebaseline_instances])
qed

lemma same_graph_bulk: "same_graph u (snd (syncTrackedAfterBulkUpdate S b u))"
  by (cases b) (auto simp: syncTrackedAfterBulkUpdate_def detach_all_instances intro: same_graph_cong same_graph_fold same_graph_sync)

lemma instances_track: "instances (snd (buffer_track S i u)) = instances u"
proof -
  have "instances (evictIfNeeded v) = instances v" for v :: "'a uow"
  proof -
    have "instances (fold evict_one kis v) = instances v" for kis
      by (induction kis arbitrary: v) (simp_all add: evict_one_def)
    then show ?thesis by (simp add: evictIfNeeded_def split: option.split)
  qed
  then show ?thesis
    by (auto simp: buffer_track_def Let_def io_defs validateEntity_def buildIdentityKey_def store_entry_def split: option.split)
qed

lemma same_graph_hydrate: "same_graph u (snd (hydrateReference S c i row u))"
proof -
  let ?step = "\<lambda>e. \<lambda>col u. case e of
      Some e \<Rightarrow> if deepEquals (value_at u i col) (field_of (te_snapshot e) col) then set_value i col (field_of row col) u else u
    | None \<Rightarrow> set_value i col (field_of row col) u"
  have "same_graph u (fold (?step e) cols u)" for e cols
    by (rule same_graph_fold) (simp split: option.split)
  from same_graph_to[OF this[of "jm_get (trackedEntries u) i" "fst (getColumnInfo S c)"]]
  show ?thesis by (cases "jm_get (trackedEntries u) i") (simp_all add: hydrateReference_def Let_def instances_track)
qed

context flush_preorder
begin

lemma verify_stub_abides: "fs_em F = M \<Longrightarrow> abides r (verify_stub F ie)"
proof -
  assume F: "fs_em F = M"
  have found: "abides r (case loaded of None \<Rightarrow> io_throw Not_In_Database | Some row \<Rightarrow> on_buffer (hydrateReference S c i row))" for loaded S c i
    by (cases loaded) (auto intro!: abides_intros buffer_abides same_graph_hydrate)
  show ?thesis
    by (cases ie, rule abidesI) (auto simp: verify_stub_def F intro!: here at_bind abides_intros found)
qed

lemma insert_plain_abides: "fs_em F = M \<Longrightarrow> abides r (insert_plain F cd)"
  by (cases cd) (auto simp: insert_plain_def intro!: abides_intros change_abides count_steps)

lemma search_cascade_abides: "fs_em F = M \<Longrightarrow> abides r (search_cascade F cd)"
proof -
  assume F: "fs_em F = M"
  show ?thesis by (cases cd) (simp only: search_cascade_def F split, intro then_abides change_abides searched search_abides)
qed

lemma write_diffs_abides: "fs_em F = M \<Longrightarrow> abides r (write_diffs F es)"
proof -
  assume F: "fs_em F = M"
  show ?thesis unfolding write_diffs_def Let_def F by (rule abidesI, rule at_each[OF here], rule process_diff_abides)
qed

lemma delete_row_abides: "fs_em F = M \<Longrightarrow> abides r (delete_row F cd)"
proof -
  assume F: "fs_em F = M"
  show ?thesis
    by (cases cd, simp only: delete_row_def Let_def F split)
       (intro abides_intros change_abides count_steps buffer_abides same_graph_cong evict_matching_instances)
qed

lemma delete_rows_abides: "fs_em F = M \<Longrightarrow> abides r (delete_rows F ix)"
  by (rule abidesI) (auto simp: delete_rows_def intro!: here at_each delete_row_abides)

lemma bulk_abides:
  assumes "fs_em F = M"
  shows "abides r (bulk_update F bu)" "abides r (bulk_delete F bd)"
  using assms
  by (auto simp: bulk_update_def bulk_delete_def executeBulkUpdate_def executeBulkDelete_def evictTrackedAfterBulkDelete_def evict_matching_instances
    split: prod.split intro!: abides_intros change_abides count_steps buffer_abides same_graph_cong same_graph_bulk)

text \<open>All steps, given the one that extends the copy of the delete queue.\<close>
lemma flush_steps_abides:
  assumes F: "fs_em F = M" and copy: "abides r (collect_deletes F)"
  shows "abides r (flush_steps F ix u)"
  unfolding flush_steps_def Let_def
  by (intro abides_intros verify_stub_abides batched_updates_abides update_row_abides batched_inserts_abides insert_instance_abides
    insert_plain_abides write_diffs_abides copy delete_rows_abides bulk_abides F)

end

subsection \<open>A failed flush\<close>

text \<open>A field of the world that is left alone, and the copy of the delete queue, which is only extended.\<close>
definition copy_kept :: "('w \<Rightarrow> 'x) \<Rightarrow> 'w \<Rightarrow> 'w \<Rightarrow> bool" where
  "copy_kept f w w' \<longleftrightarrow> f w' = f w"

definition copy_grows :: "('c, 'd) flush_state \<Rightarrow> ('c, 'd) flush_state \<Rightarrow> bool" where
  "copy_grows w w' \<longleftrightarrow> (\<exists>ds. deletes_copy w' = deletes_copy w @ ds)"

interpretation same_copy: flush_preorder "copy_kept deletes_copy" M for M :: "('c, 'd, 'e) entity_manager"
  by unfold_locales (auto simp: copy_kept_def mark_seen_def)

interpretation growing_copy: flush_preorder copy_grows M for M :: "('c, 'd, 'e) entity_manager"
  by unfold_locales (auto simp: copy_grows_def mark_seen_def)

lemma collect_grows:
  fixes F :: "('c, 'd, 'e) flusher"
  shows "abides copy_grows (collect_deletes F)"
proof (rule abidesI)
  fix w :: "('c, 'd) flush_state"
  have "abides copy_grows (change (\<lambda>w. w\<lparr>deletes_copy := deletes_copy w @ cascade_deletes w\<rparr>))"
    by (rule growing_copy.change_abides) (simp add: copy_grows_def)
  moreover have "copy_grows w (w\<lparr>cascade_deletes := []\<rparr>)" by (simp add: copy_grows_def)
  ultimately show "copy_grows w (snd (collect_deletes F w))"
    using growing_copy.at_then[of w "w\<lparr>cascade_deletes := []\<rparr>"]
    by (auto simp: collect_deletes_def growing_copy.here intro!: growing_copy.each_abides growing_copy.search_cascade_abides[OF refl])
qed

lemma collect_keeps: "\<not> cas_remove (cascade (base (fs_config F))) \<Longrightarrow> abides (copy_kept deletes_copy) (collect_deletes F)"
  by (rule abidesI) (simp add: collect_deletes_def copy_kept_def)

context flush_preorder
begin

lemma transaction_abides:
  assumes "abides r m"
  shows "abides r (in_transaction M m)"
proof -
  have "abides r (change (\<lambda>w. w\<lparr>store := em_rollback M (store w)\<rparr>))" by (rule change_abides) (rule stored)
  then show ?thesis unfolding in_transaction_def by (intro abides_intros assms)
qed

lemma savepoint_abides: "fs_em F = M \<Longrightarrow> abides r m \<Longrightarrow> abides r (under_savepoint F m)"
proof -
  assume F: "fs_em F = M" and m: "abides r m"
  have "r w (snd (io_catch (io_then (on_store q) m) (\<lambda>e. io_then (on_store q') (io_throw e)) w))" for w and q q' :: "'d \<Rightarrow> ('e unit_error + unit) \<times> 'd"
    by (rule at_catch[OF here]) (intro abides_intros m)+
  then show ?thesis unfolding under_savepoint_def Let_def F by (intro abidesI) (simp add: abidesD[OF m])
qed


end

text \<open>The copy after an attempt, for both relations.\<close>
lemma attempt_abides:
  fixes F :: "('c, 'd, 'e) flusher"
  assumes "flush_preorder r (fs_em F)" "abides r (collect_deletes F)"
    and "\<And>w u d. r w (w\<lparr>buffer := u\<rparr>)" "\<And>w u d. r w (w\<lparr>buffer := u, store := d\<rparr>)"
  shows "abides r (flush_attempt F rfl u)"
proof -
  have "abides r (on_buffer m)" for m :: "('c uow, 'e unit_error, unit) io"
    by (rule abidesI) (simp add: on_buffer_def assms split: prod.split)
  moreover have "abides r (call_onFlush (fs_em F))"
    by (rule abidesI) (simp add: call_onFlush_def assms split: prod.split)
  moreover have "abides r (\<lambda>w. (Inr (flush_result w), w))"
    by (rule abidesI) (simp add: flush_preorder.here[OF assms(1)])
  ultimately show ?thesis
    unfolding flush_attempt_def Let_def
    by (intro flush_preorder.then_abides[OF assms(1)] flush_preorder.transaction_abides[OF assms(1)] flush_preorder.savepoint_abides[OF assms(1)]
          flush_preorder.flush_steps_abides[OF assms(1)] refl assms(2))
qed

lemma attempt_copy: "abides copy_grows (flush_attempt F rfl u)"
  by (rule attempt_abides[OF growing_copy.flush_preorder_axioms collect_grows]) (simp_all add: copy_grows_def)

lemma attempt_copy_kept: "\<not> cas_remove (cascade (base (fs_config F))) \<Longrightarrow> abides (copy_kept deletes_copy) (flush_attempt F rfl u)"
  by (rule attempt_abides[OF same_copy.flush_preorder_axioms collect_keeps]) (simp_all add: copy_kept_def)

subsubsection \<open>Columns\<close>

lemma fold_set_value:
  "value_at (fold (\<lambda>(col, v). set_value i col v) snap u) j c =
     (if j = i then (case map_of (rev snap) c of Some v \<Rightarrow> v | None \<Rightarrow> value_at u j c) else value_at u j c)"
  for u :: "'a uow"
proof (induction snap arbitrary: u)
  case (Cons cv snap)
  obtain col v where cv: "cv = (col, v)" by (cases cv)
  have set: "value_at (set_value i col v u) j c = (if j = i \<and> c = col then v else value_at u j c)" for u :: "'a uow" and j c
    by (simp add: value_at_def set_value_def)
  show ?case by (simp add: Cons.IH cv map_add_def set split: option.split)
qed simp

lemma map_of_rev: "jm_wf m \<Longrightarrow> map_of (rev m) = map_of m"
  by (rule ext) (metis jm_wf_def distinct_rev rev_map set_rev map_of_eq_None_iff map_of_eq_Some_iff option.exhaust)

lemma restored_value:
  assumes "jm_wf st" "\<And>i snap. map_of st i = Some snap \<Longrightarrow> jm_wf snap"
  shows "value_at (restorePreFlushColumnState st u) j c =
    (case map_of st j of
       Some snap \<Rightarrow> (case map_of snap c of Some v \<Rightarrow> v | None \<Rightarrow> value_at u j c)
     | None \<Rightarrow> value_at u j c)"
  using assms
proof (induction st arbitrary: u)
  case (Cons s st)
  obtain i snap where s: "s = (i, snap)" by (cases s)
  have st: "jm_wf st" "\<And>i snap. map_of st i = Some snap \<Longrightarrow> jm_wf snap"
  proof -
    show "jm_wf st" using Cons.prems(1) by (simp add: jm_wf_def s)
    show "jm_wf sn" if "map_of st k = Some sn" for k sn
    proof -
      have "k \<in> set (map fst st)" using that by (metis domI dom_map_of_conv_image_fst set_map)
      then have "k \<noteq> i" using Cons.prems(1) by (auto simp: jm_wf_def s)
      then show ?thesis using Cons.prems(2)[of k sn] that by (simp add: s)
    qed
  qed
  have "map_of (rev snap) = map_of snap" using Cons.prems(2)[of i snap] by (simp add: s map_of_rev)
  moreover have "map_of st i = None" using Cons.prems(1) by (simp add: jm_wf_def s map_of_eq_None_iff)
  ultimately show ?case
    using Cons.IH[OF st]
    by (auto simp: restorePreFlushColumnState_def restore_columns_def s fold_set_value split: option.splits)
qed (simp add: restorePreFlushColumnState_def)

lemma column_state_get: "map_of (column_state S u i) c = (if c \<in> set (fst (getColumnInfo S (constructor_of (instances u i)))) then Some (value_at u i c) else None)"
proof -
  have "map_of (fold (\<lambda>col st. jm_set col (value_at u i col) st) cols st) c = (if c \<in> set cols then Some (value_at u i c) else map_of st c)" for cols st
    by (induction cols arbitrary: st) (auto simp: jm_get_set)
  then show ?thesis by (simp add: column_state_def Let_def)
qed

lemma column_state_wf: "jm_wf (column_state S u i)"
  unfolding column_state_def Let_def by (rule wf_fold_set) simp

lemma record_columns_spec:
  assumes "jm_wf st" "\<forall>i snap. map_of st i = Some snap \<longrightarrow> snap = column_state S u i"
  shows "jm_wf (record_columns S R u n is st) \<and>
    (\<forall>i snap. map_of (record_columns S R u n is st) i = Some snap \<longrightarrow> snap = column_state S u i) \<and>
    dom (map_of st) \<subseteq> dom (map_of (record_columns S R u n is st))"
  using assms
proof (induction S R u n "is" st rule: record_columns.induct)
  case (2 S R u n i "is" st)
  let ?c = "constructor_of (instances u i)"
  show ?case
  proof (cases "i \<in> set (map fst st) \<or> plain_class S ?c \<or> fst (getColumnInfo S ?c) = []")
    case True
    then show ?thesis using 2(1)[OF refl True 2(4,5)] by (simp add: record_columns.simps(2) Let_def)
  next
    case False
    show ?thesis
    proof (cases n)
      case 0
      then show ?thesis using 2(4,5) False by (simp add: record_columns.simps(2) Let_def)
    next
      case (Suc m)
      let ?st = "jm_set i (column_state S u i) st"
      let ?inner = "record_columns S R u m (forEachLoadedRelated R u ?c i) ?st"
      have st: "jm_wf ?st" "\<forall>j snap. map_of ?st j = Some snap \<longrightarrow> snap = column_state S u j"
        using 2(4,5) by (auto simp: jm_wf_set jm_get_set split: if_splits)
      note inner = 2(2)[OF refl False Suc st]
      have "jm_wf ?inner" "\<forall>j snap. map_of ?inner j = Some snap \<longrightarrow> snap = column_state S u j" using inner by blast+
      note outer = 2(3)[OF refl False Suc this]
      have more: "dom (map_of st) \<subseteq> dom (map_of ?st)" by (auto simp: jm_get_set)
      have eq: "record_columns S R u n (i # is) st = record_columns S R u n is ?inner"
        unfolding record_columns.simps(2) Let_def if_not_P[OF False] Suc by (simp only: nat.case)
      have "dom (map_of st) \<subseteq> dom (map_of (record_columns S R u n is ?inner))"
        using subset_trans[OF more subset_trans[OF conjunct2[OF conjunct2[OF inner]] conjunct2[OF conjunct2[OF outer]]]] .
      then show ?thesis unfolding eq using outer by (elim conjE, intro conjI)
    qed
  qed
qed simp

lemma roots_recorded:
  assumes "i \<in> set is" "\<not> plain_class S (constructor_of (instances u i))" "fst (getColumnInfo S (constructor_of (instances u i))) \<noteq> []"
    and "jm_wf st" "\<forall>i snap. map_of st i = Some snap \<longrightarrow> snap = column_state S u i"
  shows "map_of (record_columns S R u (Suc n) is st) i = Some (column_state S u i)"
  using assms
proof (induction "is" arbitrary: st)
  case (Cons j "is")
  let ?c = "constructor_of (instances u j)"
  let ?rec = "record_columns S R u (Suc n)"
  have known: "map_of (?rec is st) i = Some (column_state S u i)"
    if "i \<in> dom (map_of st)" "jm_wf st" "\<forall>i snap. map_of st i = Some snap \<longrightarrow> snap = column_state S u i" for st
  proof -
    note spec = record_columns_spec[OF that(2,3), of R "Suc n" "is"]
    have "i \<in> dom (map_of (?rec is st))" by (rule subsetD[OF conjunct2[OF conjunct2[OF spec]] that(1)])
    then obtain snap where "map_of (?rec is st) i = Some snap" by blast
    then show ?thesis using conjunct1[OF conjunct2[OF spec]] by (simp del: record_columns.simps)
  qed
  show ?case
  proof (cases "j \<in> set (map fst st) \<or> plain_class S ?c \<or> fst (getColumnInfo S ?c) = []")
    case True
    have eq: "?rec (j # is) st = ?rec is st" unfolding record_columns.simps(2) Let_def if_P[OF True] ..
    show ?thesis
    proof (cases "i = j")
      case i: True
      then have "i \<in> dom (map_of st)" using True Cons.prems(2,3) by (simp add: dom_map_of_conv_image_fst)
      then show ?thesis unfolding eq by (rule known[OF _ Cons.prems(4,5)])
    next
      case False
      then show ?thesis unfolding eq using Cons by simp
    qed
  next
    case False
    let ?st = "jm_set j (column_state S u j) st"
    let ?inner = "record_columns S R u n (forEachLoadedRelated R u ?c j) ?st"
    have eq: "?rec (j # is) st = ?rec is ?inner"
      unfolding record_columns.simps(2) Let_def if_not_P[OF False] by (simp only: nat.case)
    have st: "jm_wf ?st" "\<forall>k snap. map_of ?st k = Some snap \<longrightarrow> snap = column_state S u k"
      using Cons.prems(4,5) by (auto simp: jm_wf_set jm_get_set split: if_splits)
    note inner = record_columns_spec[OF st, of R n "forEachLoadedRelated R u ?c j"]
    show ?thesis
    proof (cases "i = j")
      case True
      then have "i \<in> dom (map_of ?st)" by (auto simp: jm_get_set)
      then have "i \<in> dom (map_of ?inner)" using inner by blast
      then show ?thesis unfolding eq using inner by (intro known) blast+
    next
      case False
      then have "i \<in> set is" using Cons.prems(1) by simp
      then show ?thesis unfolding eq by (rule Cons.IH[OF _ Cons.prems(2,3) conjunct1[OF inner] conjunct1[OF conjunct2[OF inner]]])
    qed
  qed
qed simp

text \<open>C2: A flush that fails leaves the program where it was: every column of every tracked or queued instance has the value
  it had, whatever listeners and database did meanwhile, and the queues are back for another try; the delete queue
  may have gained the deletes that cascade, unless cascading deletes are off.\<close>
theorem failed_flush_restores:
  assumes "flush F rfl w = (Inl e, w')"
  shows "(\<forall>i col. i \<in> set (map pe_instance (persistQueue (buffer w)) @ map fst (trackedEntries (buffer w))) \<and>
        \<not> plain_class (fs_setting F) (constructor_of (instances (buffer w) i)) \<and>
        col \<in> set (fst (getColumnInfo (fs_setting F) (constructor_of (instances (buffer w) i)))) \<longrightarrow>
        value_at (buffer w') i col = value_at (buffer w) i col) \<and>
    insertQueue (buffer w') = insertQueue (buffer w) \<and> persistQueue (buffer w') = persistQueue (buffer w) \<and>
    bulkUpdateQueue (buffer w') = bulkUpdateQueue (buffer w) \<and> bulkDeleteQueue (buffer w') = bulkDeleteQueue (buffer w) \<and>
    (\<exists>ds. deleteQueue (buffer w') = deleteQueue (buffer w) @ ds \<and> (cas_remove (cascade (base (fs_config F))) \<or> ds = []))"
proof -
  let ?u = "buffer w" and ?S = "fs_setting F"
  let ?pre = "capturePreFlushColumnState ?S (fs_relations F) (Suc (fs_fuel F)) ?u"
  consider (stays) "w' = w" | (undone) w1 where "snd (flush_attempt F rfl ?u (start_flush w)) = w1" "w' = undo_flush ?pre ?u w1"
    using assms by (auto simp: flush_def Let_def io_defs change_def split: if_splits option.splits prod.splits sum.splits)
  then show ?thesis
  proof cases
    case stays
    then show ?thesis by simp
  next
    case undone
    have start: "deletes_copy (start_flush w) = deleteQueue ?u" by (simp add: start_flush_def)
    have grown: "\<exists>ds. deletes_copy w1 = deleteQueue ?u @ ds"
      using abidesD[OF attempt_copy[of F rfl ?u], of "start_flush w"] undone(1) start by (simp add: copy_grows_def)
    have same: "deletes_copy w1 = deleteQueue ?u" if "\<not> cas_remove (cascade (base (fs_config F)))"
      using abidesD[OF attempt_copy_kept[OF that, of rfl ?u], of "start_flush w"] undone(1) start by (simp add: copy_kept_def)
    have "\<exists>ds. deletes_copy w1 = deleteQueue ?u @ ds \<and> (cas_remove (cascade (base (fs_config F))) \<or> ds = [])"
      using grown same by (cases "cas_remove (cascade (base (fs_config F)))") auto
    moreover have "value_at (buffer w') i col = value_at ?u i col"
      if root: "i \<in> set (map pe_instance (persistQueue ?u) @ map fst (trackedEntries ?u))"
        and c: "\<not> plain_class ?S (constructor_of (instances ?u i))" and col: "col \<in> set (fst (getColumnInfo ?S (constructor_of (instances ?u i))))" for i col
    proof -
      have cols: "fst (getColumnInfo ?S (constructor_of (instances ?u i))) \<noteq> []" using col by auto
      have recorded: "map_of ?pre i = Some (column_state ?S ?u i)"
        unfolding capturePreFlushColumnState_def by (rule roots_recorded[OF root c cols]) simp_all
      have spec: "jm_wf ?pre \<and> (\<forall>j snap. map_of ?pre j = Some snap \<longrightarrow> snap = column_state ?S ?u j)"
        unfolding capturePreFlushColumnState_def using record_columns_spec[of "[]" ?S ?u "fs_relations F" "Suc (fs_fuel F)"] by force
      then have pre: "jm_wf ?pre" "\<And>j snap. map_of ?pre j = Some snap \<Longrightarrow> jm_wf snap"
        by (blast, metis column_state_wf)
      have "value_at (buffer w') i col = value_at (restorePreFlushColumnState ?pre (buffer w1)) i col"
        by (simp add: undone(2) undo_flush_def restore_queues_def value_at_def)
      also have "\<dots> = value_at ?u i col"
        using col by (simp add: restored_value[OF pre] recorded column_state_get)
      finally show ?thesis .
    qed
    ultimately show ?thesis by (simp add: undone(2) undo_flush_def restore_queues_def)
  qed
qed

subsection \<open>A flush that succeeds\<close>

definition clean_entry :: "'c uow \<Rightarrow> nat \<times> 'c tracked_entry \<Rightarrow> bool" where
  "clean_entry u ie = (case ie of (i, e) \<Rightarrow> entry_diff u i e = None \<and>
     (\<forall>(p, items) \<in> set (te_collections e). diffCollection (relation_value_of u i p) items = None))"

text \<open>No column of the instance holds a value that differs from itself.\<close>
definition settled_entry :: "'c uow \<Rightarrow> nat \<times> 'c tracked_entry \<Rightarrow> bool" where
  "settled_entry u ie = (case ie of (i, e) \<Rightarrow> list_all (\<lambda>col. settled (value_at u i col)) (te_columns e))"

lemma clean_entry_cong: "instances u' = instances u \<Longrightarrow> clean_entry u' = clean_entry u"
  and settled_entry_cong: "instances u' = instances u \<Longrightarrow> settled_entry u' = settled_entry u"
  by (rule ext, simp add: clean_entry_def settled_entry_def entry_diff_def relation_value_of_def value_at_def split: prod.split)+

lemma snapshot_collections_clean:
  "(p, items) \<in> set (snapshotCollections S u i c) \<Longrightarrow> diffCollection (relation_value_of u i p) items = None"
proof -
  assume "(p, items) \<in> set (snapshotCollections S u i c)"
  then obtain "is" where "relation_value_of u i p = Many is" "items = js_set is"
    by (auto simp: snapshotCollections_def split: relation_value.splits if_splits dest: sym)
  then show ?thesis using diffCollection_spec[of "is" "js_set is"] by simp
qed

lemma fresh_entry_clean:
  assumes "settled_entry u (i, e)" "te_snapshot e = snapshot (fields_of (instances u i)) (te_columns e)"
    and "set (te_collections e) \<subseteq> set (snapshotCollections S u i c)"
  shows "clean_entry u (i, e)"
proof -
  have "\<forall>col \<in> set (te_columns e). settled (field_of (fields_of (instances u i)) col)"
    using assms(1) by (simp add: settled_entry_def value_at_def list_all_iff)
  from snapshot_clean[OF this] have "entry_diff u i e = None" by (simp add: entry_diff_def assms(2))
  then show ?thesis using assms(3) snapshot_collections_clean by (fastforce simp: clean_entry_def)
qed

definition all_clean :: "'c uow \<Rightarrow> bool" where
  "all_clean u \<longleftrightarrow> (\<forall>ie \<in> set (trackedEntries u). settled_entry u ie \<longrightarrow> clean_entry u ie)"

lemma all_clean_settle: "all_clean (settle_tracked S u)"
proof -
  have fresh: "clean_entry u (i, settle_entry S u i e)" if "settled_entry u (i, settle_entry S u i e)" for i e
    by (rule fresh_entry_clean[OF that, where S = S and c = "te_entity e"]) (simp_all add: settle_entry_def)
  have inst: "instances (settle_tracked S u) = instances u" by (simp add: settle_tracked_def)
  show ?thesis unfolding all_clean_def clean_entry_cong[OF inst] settled_entry_cong[OF inst] by (auto simp: settle_tracked_def fresh)
qed

lemma jm_set_subset: "set (jm_set k v m) \<subseteq> insert (k, v) (set m)"
  by (induction m) auto

lemma evict_tracked: "set (trackedEntries (evictIfNeeded u)) \<subseteq> set (trackedEntries u)"
  by (auto simp: evictIfNeeded_def evict_fold split: option.splits)

lemma track_shape:
  assumes "P u" "\<And>k. P (evictIfNeeded (store_entry S i k u))"
  shows "P (snd (buffer_track S i u))"
  using assms
  by (auto simp: buffer_track_def Let_def io_defs validateEntity_def buildIdentityKey_def split: option.split if_split sum.split prod.split)

lemma track_clean:
  assumes "all_clean u"
  shows "all_clean (snd (buffer_track S i u))"
proof -
  have inst: "instances (snd (buffer_track S i u)) = instances u" by (rule instances_track)
  have store: "clean_entry u ie" if "ie \<in> set (trackedEntries (store_entry S i k u))" "settled_entry u ie" for k ie
  proof -
    let ?c = "constructor_of (instances u i)"
    have "clean_entry u (i, e)" if "e = \<lparr>te_entity = ?c, te_snapshot = snapshot (fields_of (instances u i)) (fst (getColumnInfo S ?c)),
        te_columns = fst (getColumnInfo S ?c), te_pks = snd (getColumnInfo S ?c), te_collections = snapshotCollections S u i ?c,
        te_readOnly = False, te_explicitDirty = False\<rparr>" "settled_entry u (i, e)" for e
      by (rule fresh_entry_clean[OF that(2), where S = S and c = ?c]) (simp_all add: that(1))
    then show ?thesis using that assms jm_set_subset by (fastforce simp: store_entry_def Let_def all_clean_def)
  qed
  have "set (trackedEntries (snd (buffer_track S i u))) \<subseteq> set (trackedEntries u) \<union> (\<Union>k. set (trackedEntries (store_entry S i k u)))"
  proof (rule track_shape)
    fix k
    show "set (trackedEntries (evictIfNeeded (store_entry S i k u))) \<subseteq> set (trackedEntries u) \<union> (\<Union>k. set (trackedEntries (store_entry S i k u)))"
      using evict_tracked[of "store_entry S i k u"] by blast
  qed simp
  then show ?thesis using store assms by (auto simp: all_clean_def clean_entry_cong[OF inst] settled_entry_cong[OF inst])
qed

lemma snd_then_pure: "snd (io_then m (\<lambda>u. (Inr x, f u)) u) = (case fst (m u) of Inl e \<Rightarrow> snd (m u) | Inr a \<Rightarrow> f (snd (m u)))"
  by (simp add: io_defs split: prod.split sum.split)

lemma all_clean_same: "instances u' = instances u \<Longrightarrow> trackedEntries u' = trackedEntries u \<Longrightarrow> all_clean u' = all_clean u"
  by (simp add: all_clean_def clean_entry_cong[of u' u] settled_entry_cong[of u' u])

lemma set_state_fields: "instances (set_state i s v) = instances v" "trackedEntries (set_state i s v) = trackedEntries v"
  by (simp_all add: set_state_def)

lemma adopt_clean:
  assumes "all_clean u"
  shows "all_clean (snd (adopt S p u))"
proof -
  have m: "all_clean (snd (if b then buffer_track S i u else (Inr (), u)))" for b i
    by (simp add: track_clean[OF assms] assms)
  show ?thesis
    unfolding adopt_def Let_def snd_then_pure by (simp only: m all_clean_same[OF set_state_fields] split: sum.split) simp
qed

lemma success_clean: "all_clean (snd (after_success F ps u))"
proof -
  let ?S = "fs_setting F"
  have adopted: "all_clean (snd (io_each (adopt S) ps v))" if "all_clean v" for v S
    by (rule io_each_invariant[where P = all_clean]) (simp_all add: that adopt_clean)
  have managed: "trackedEntries (fold (\<lambda>p. set_state (pe_instance p) MANAGED) ps v) = trackedEntries v" for v
    by (induction ps arbitrary: v) (simp_all add: set_state_def)
  show ?thesis
  proof (cases "retainAfterFlush (base (fs_config F))")
    case True
    then show ?thesis by (simp add: after_success_def Let_def adopted[OF all_clean_settle])
  next
    case False
    then show ?thesis by (simp add: after_success_def Let_def all_clean_def managed)
  qed
qed

lemma pending_clean: "all_clean u \<Longrightarrow> list_all (settled_entry u) (trackedEntries u) \<Longrightarrow> \<not> hasQueuedWork u \<Longrightarrow> \<not> hasPendingWork opts u"
  by (fastforce simp: hasPendingWork_def all_clean_def clean_entry_def list_ex_iff list_all_iff)

lemma adopt_queues: "hasQueuedWork (snd (adopt S p u)) = hasQueuedWork u"
proof -
  have track: "hasQueuedWork (snd (buffer_track S i u)) = hasQueuedWork u" for i and u :: "'a uow"
  proof -
    have "hasQueuedWork (evictIfNeeded v) = hasQueuedWork v" for v :: "'a uow"
    proof -
      have "hasQueuedWork (fold evict_one kis v) = hasQueuedWork v" for kis
        by (induction kis arbitrary: v) (simp_all add: evict_one_def hasQueuedWork_def)
      then show ?thesis by (simp add: evictIfNeeded_def split: option.split)
    qed
    moreover have "hasQueuedWork (store_entry S i k u) = hasQueuedWork u" for k
      by (simp add: store_entry_def Let_def hasQueuedWork_def)
    ultimately have evicted: "hasQueuedWork (evictIfNeeded (store_entry S i k u)) = hasQueuedWork u" for k by simp
    show ?thesis by (rule track_shape[where P = "\<lambda>v. hasQueuedWork v = hasQueuedWork u", OF refl evicted])
  qed
  have state: "hasQueuedWork (set_state i s v) = hasQueuedWork v" for i s v
    by (simp add: hasQueuedWork_def set_state_def)
  show ?thesis unfolding adopt_def Let_def snd_then_pure by (simp add: track state split: sum.split)
qed

lemma success_queues: "\<not> hasQueuedWork (snd (after_success F ps u))"
proof -
  have empty: "\<not> hasQueuedWork (clear_queues u)" "\<not> hasQueuedWork (settle_tracked S (clear_queues u))" for S
    by (simp_all add: hasQueuedWork_def clear_queues_def settle_tracked_def)
  have adopted: "\<not> hasQueuedWork (snd (io_each (adopt S) ps (settle_tracked S (clear_queues u))))" for S
    by (rule io_each_invariant[where P = "\<lambda>u. \<not> hasQueuedWork u"]) (simp_all add: adopt_queues empty)
  have managed: "hasQueuedWork (fold (\<lambda>p. set_state (pe_instance p) MANAGED) ps v) = hasQueuedWork v" for v
    by (induction ps arbitrary: v) (simp_all add: set_state_def hasQueuedWork_def)
  have "\<not> hasQueuedWork ((clear_queues u)\<lparr>trackedEntries := [], identityMap := []\<rparr>)"
    by (simp add: hasQueuedWork_def clear_queues_def)
  then show ?thesis by (simp add: after_success_def Let_def adopted managed)
qed

lemma success_instances: "instances (snd (after_success F ps u)) = instances u"
proof -
  have adopt: "instances (snd (adopt S p v)) = instances v" for S p and v :: "'a uow"
  proof -
    have state: "instances (set_state i s v) = instances v" for i s and v :: "'a uow" by (simp add: set_state_def)
    show ?thesis unfolding adopt_def Let_def snd_then_pure by (simp add: instances_track state split: sum.split)
  qed
  have adopted: "instances (snd (io_each (adopt S) ps v)) = instances v" for S v
    by (rule io_each_invariant[where P = "\<lambda>u. instances u = instances v"]) (simp_all add: adopt)
  have managed: "instances (fold (\<lambda>p. set_state (pe_instance p) MANAGED) ps v) = instances v" for v
    by (induction ps arbitrary: v) (simp_all add: set_state_def)
  show ?thesis by (simp add: after_success_def Let_def adopted managed) (simp add: settle_tracked_def clear_queues_def)
qed

text \<open>C8: A flush that succeeds leaves nothing to do: the queues are empty, no tracked instance differs from its baseline, no
  collection from its own, so a second flush does nothing. The callback after the flush is taken not to touch the
  buffer, and no column to hold a value that differs from itself, such as \<^verbatim>\<open>NaN\<close>.\<close>
theorem second_flush_does_nothing:
  assumes "flush F rfl w = (Inr n, w')" and hook: "\<And>n u d. fst (snd (onFlush (fs_em F) n (u, d))) = u"
    and settled: "list_all (settled_entry (buffer w')) (trackedEntries (buffer w'))"
  shows "\<not> hasPendingWork (base (fs_config F)) (buffer w') \<and> flush F rfl w' = (Inr (0, 0, 0), w')"
proof -
  let ?opts = "base (fs_config F)"
  have "\<not> hasPendingWork ?opts (buffer w')"
  proof (cases "hasPendingWork ?opts (buffer w)")
    case False
    then show ?thesis using assms(1) by (simp add: flush_def)
  next
    case True
    then obtain ix w1 w2 where body: "in_transaction (fs_em F) (under_savepoint F (flush_steps F ix (buffer w))) (start_flush w) = (Inr (), w1)"
      and rest: "io_then (on_buffer (after_success F (persistQueue (buffer w)))) (io_then (call_onFlush (fs_em F)) (\<lambda>w. (Inr (flush_result w), w))) w1 = (Inr n, w')"
      using assms(1)
      by (auto simp: flush_def Let_def flush_attempt_def io_defs change_def split: if_splits option.splits prod.splits sum.splits)
    obtain u2 where u2: "after_success F (persistQueue (buffer w)) (buffer w1) = (Inr (), u2)" "buffer w' = u2"
    proof (cases "after_success F (persistQueue (buffer w)) (buffer w1)")
      case (Pair r u2)
      obtain x u3 d where h: "onFlush (fs_em F) (flush_result (w1\<lparr>buffer := u2\<rparr>)) (u2, store w1) = (x, u3, d)" by (metis prod_cases3)
      have "u3 = u2" using hook[of "flush_result (w1\<lparr>buffer := u2\<rparr>)" u2 "store w1"] h by simp
      then show ?thesis using that[of u2] rest Pair h
        by (cases r; cases x) (auto simp: io_defs on_buffer_def call_onFlush_def)
    qed
    have "all_clean u2" using success_clean u2(1) by (metis snd_conv)
    moreover have "\<not> hasQueuedWork u2" using success_queues u2(1) by (metis snd_conv)
    ultimately show ?thesis using pending_clean u2(2) settled by blast
  qed
  then show ?thesis by (simp add: flush_def)
qed


subsection \<open>A run\<close>

text \<open>A class with the columns \<open>i\<close>, its key, and \<open>n\<close>. One row is tracked and changed since, another instance is new.\<close>
definition note_meta :: "nat class_meta" where
  "note_meta = \<lparr>class_name = ''N'',
     column_metas = [\<lparr>propertyKey = Some ''i'', db_name = ''i'', primary_key = True, autoIncrement = True, generationStrategy = None\<rparr>,
       \<lparr>propertyKey = Some ''n'', db_name = ''n'', primary_key = False, autoIncrement = False, generationStrategy = None\<rparr>],
     strategy_of = None, hierarchy_root = None, relation_keys = [], version_token = None, create_token = None,
     update_token = None, non_tenant = False, tenant_column = None, pinned_schema = False\<rparr>"

definition note_setting :: "nat setting" where
  "note_setting = \<lparr>meta_of = \<lambda>_. note_meta, registered = [0], plain_class = \<lambda>c. False, tenant_config = None, postgres = False,
     schema_strategy = False, current_tenant = [], unscoped = False, other_text = \<lambda>_. []\<rparr>"

definition note_named :: "uval \<Rightarrow> string \<Rightarrow> nat instance_obj" where
  "note_named i n = \<lparr>constructor_of = 0, fields_of = [(''i'', i), (''n'', U_Str n)], relations_of = []\<rparr>"

definition one_note :: "nat uow" where
  "one_note = set_value 1 ''n'' (U_Str ''a'')
     (snd (buffer_track note_setting 1 (new_uow (\<lambda>i. note_named (if i = 1 then U_Num 1 else U_Undef) ''x'') None) :: (unit unit_error + unit) \<times> nat uow))"

text \<open>A database that is the list of the rows saved, keys counted from 40; \<open>bad\<close> tells which rows it refuses.\<close>
definition demo_manager :: "(fields \<Rightarrow> bool) \<Rightarrow> unit unit_error + unit \<Rightarrow> (nat, fields list, unit) entity_manager" where
  "demo_manager bad hook = \<lparr>
     em_save = \<lambda>c fs d. if bad fs then (Inl (Thrown ()), d)
       else (Inr (Some (if jm_get fs ''i'' = None then jm_set ''i'' (U_Num (40 + int (length d))) fs else fs)), d @ [fs]),
     em_saveMany = \<lambda>c rows d. (Inr (map Some rows), d @ rows),
     em_update = \<lambda>c w ss d. (Inr (), d), em_delete = \<lambda>c w d. (Inr (), d),
     em_find = \<lambda>c w d. (Inr [], d), em_findOne = \<lambda>c w d. (Inr None, d), em_query = \<lambda>q ps d. (Inr (), d),
     em_begin = \<lambda>d. (Inr (), d), em_commit = \<lambda>d. (Inr (), d), em_rollback = \<lambda>d. [],
     listeners = \<lambda>t. if t = PreUpdate then
       [\<lambda>ev (u, d). (Inr (), case ev_instance ev of Some i \<Rightarrow> set_value i ''n'' (U_Str ''t'') u | None \<Rightarrow> u, d)] else [],
     onFlush = \<lambda>n (u, d). (hook, u, d), validate = \<lambda>c fs. None, now = \<lambda>d. U_Num 0, fresh_name = \<lambda>d. ''s'',
     entity_name = \<lambda>c. Some ''u'', wrap_name = \<lambda>s. s, wrapTable = \<lambda>s. s, json_text = \<lambda>fs. [], type_error = (), is_sqlite = False\<rparr>"

definition no_relations :: "nat relations" where
  "no_relations = \<lparr>one_to_many_of = \<lambda>_. [], one_to_one_of = \<lambda>_. [], many_to_many_of = \<lambda>_. [], many_to_one_of = \<lambda>_. [], relation_columns_of = \<lambda>_. []\<rparr>"

definition demo_flusher :: "(fields \<Rightarrow> bool) \<Rightarrow> unit unit_error + unit \<Rightarrow> (nat, fields list, unit) flusher" where
  "demo_flusher bad hook = \<lparr>fs_setting = note_setting, fs_relations = no_relations, fs_em = demo_manager bad hook,
     fs_config = \<lparr>base = default_options, orphanRemoval = False, manyToManySync = False, batchInsert = False, batchUpdate = False,
       validateBeforeFlush = False, is_nested = False\<rparr>, fs_fuel = 2\<rparr>"

definition no_references :: "nat reflect" where
  "no_references = \<lparr>m2oMeta = \<lambda>_. [], o2oMeta = \<lambda>_. []\<rparr>"

definition demo_world :: "(nat, fields list) flush_state" where
  "demo_world = \<lparr>buffer = snd (persist note_setting 0 one_note :: (unit unit_error + unit) \<times> nat uow),
     store = [], seen = [], updates = 0, inserts = 0, deletes = 0, rows_seen = [], cascade_deletes = [], deletes_copy = []\<rparr>"

definition refuses_new :: "fields \<Rightarrow> bool" where
  "refuses_new fs \<longleftrightarrow> jm_get fs ''i'' = None"

lemma attempt_fails:
  assumes "hasPendingWork (base (fs_config F)) (buffer w)" "\<not> validateBeforeFlush (fs_config F)"
    and "fst (flush_attempt F rfl (buffer w) (start_flush w)) = Inl e"
  shows "fst (flush F rfl w) = Inl e"
  using assms by (cases "flush_attempt F rfl (buffer w) (start_flush w)") (simp add: flush_def Let_def io_defs change_def)

lemma settled_entries:
  "list_all (settled_entry u) es = list_all (list_all settled) (map (\<lambda>(i, e). map (value_at u i) (te_columns e)) es)"
  by (auto simp: settled_entry_def list_all_iff)

theorem failed_flush_restores_witness:
  "value_at (buffer (snd (flush (demo_flusher refuses_new (Inr ())) no_references demo_world))) 1 ''n'' = U_Str ''a'' \<and>
   value_at (buffer (snd (flush_attempt (demo_flusher refuses_new (Inr ())) no_references (buffer demo_world) demo_world))) 1 ''n'' = U_Str ''t'' \<and>
   map pe_instance (persistQueue (buffer (snd (flush (demo_flusher refuses_new (Inr ())) no_references demo_world)))) = [0]"
proof -
  let ?F = "demo_flusher refuses_new (Inr ())"
  have "hasPendingWork (base (fs_config ?F)) (buffer demo_world) \<and> \<not> validateBeforeFlush (fs_config ?F)" by code_simp
  moreover have "fst (flush_attempt ?F no_references (buffer demo_world) (start_flush demo_world)) = Inl (Thrown ())" by code_simp
  ultimately have "fst (flush ?F no_references demo_world) = Inl (Thrown ())" by (intro attempt_fails) simp_all
  then have eq: "flush ?F no_references demo_world = (Inl (Thrown ()), snd (flush ?F no_references demo_world))"
    by (metis prod.collapse)
  note restored = failed_flush_restores[OF eq]
  have "1 \<in> set (map pe_instance (persistQueue (buffer demo_world)) @ map fst (trackedEntries (buffer demo_world))) \<and>
      \<not> plain_class (fs_setting ?F) (constructor_of (instances (buffer demo_world) 1)) \<and>
      ''n'' \<in> set (fst (getColumnInfo (fs_setting ?F) (constructor_of (instances (buffer demo_world) 1))))" by code_simp
  then have "value_at (buffer (snd (flush ?F no_references demo_world))) 1 ''n'' = value_at (buffer demo_world) 1 ''n''"
    using restored by blast
  moreover have "value_at (buffer demo_world) 1 ''n'' = U_Str ''a''" by code_simp
  moreover have "map pe_instance (persistQueue (buffer demo_world)) = [0]" by code_simp
  moreover have "value_at (buffer (snd (flush_attempt ?F no_references (buffer demo_world) demo_world))) 1 ''n'' = U_Str ''t''" by code_simp
  ultimately show ?thesis using restored by simp
qed

theorem second_flush_does_nothing_witness:
  "fst (flush (demo_flusher (\<lambda>_. False) (Inr ())) no_references demo_world) = Inr (1, 1, 0) \<and>
   fst (flush (demo_flusher (\<lambda>_. False) (Inr ())) no_references (snd (flush (demo_flusher (\<lambda>_. False) (Inr ())) no_references demo_world))) = Inr (0, 0, 0)"
proof -
  let ?F = "demo_flusher (\<lambda>_. False) (Inr ())" and ?w = "snd (flush (demo_flusher (\<lambda>_. False) (Inr ())) no_references demo_world)"
  have first: "fst (flush ?F no_references demo_world) = Inr (1, 1, 0)" by code_simp
  then have eq: "flush ?F no_references demo_world = (Inr (1, 1, 0), ?w)" by (metis prod.collapse)
  have hook: "fst (snd (onFlush (fs_em ?F) n (u, d))) = u" for n u d by (simp add: demo_flusher_def demo_manager_def)
  have "map (\<lambda>(i, e). map (value_at (buffer ?w) i) (te_columns e)) (trackedEntries (buffer ?w)) =
      [[U_Num 1, U_Str ''t''], [U_Num 41, U_Str ''x'']]" by code_simp
  then have "list_all (settled_entry (buffer ?w)) (trackedEntries (buffer ?w))"
    by (simp add: settled_entries settled_def)
  from second_flush_does_nothing[OF eq hook this] show ?thesis using first by simp
qed


end
