(* ===== verification/MetadataClone.thy ===== *)
theory MetadataClone
  imports Prelude
begin

section \<open>Copies of metadata (src/metadata/MetadataLayer.ts)\<close>

text \<open>
  A tenant's layer starts as a copy of another layer, and the copy must not share anything that changes with its
  original. \<^verbatim>\<open>deepCloneMetadata\<close> works on a graph of objects with cycles, so the model has a heap: an object is an array, a
  plain object, a \<^verbatim>\<open>Map\<close>, a \<^verbatim>\<open>Set\<close>, a \<^verbatim>\<open>Date\<close>, a \<^verbatim>\<open>RegExp\<close> or an instance of a class. Functions and classes are values
  without contents. A plain object has no key \<^verbatim>\<open>__proto__\<close>.
\<close>

subsection \<open>Objects\<close>

datatype 'p mval = Prim 'p | Ref nat

datatype 'p mobj = Array_Obj "'p mval list" | Plain_Obj "(string \<times> 'p mval) list" | Map_Obj "('p mval \<times> 'p mval) list"
  | Set_Obj "'p mval list" | Date_Obj int | Regexp_Obj string string | Instance_Obj "(string \<times> 'p mval) list"

type_synonym 'p mheap = "nat \<Rightarrow> 'p mobj option"

fun container :: "'p mobj \<Rightarrow> bool" where
  "container (Date_Obj t) = False"
| "container (Regexp_Obj s f) = False"
| "container (Instance_Obj fs) = False"
| "container obj = True"

fun is_instance :: "'p mobj \<Rightarrow> bool" where
  "is_instance (Instance_Obj fs) = True"
| "is_instance obj = False"

text \<open>What is copied of a container; the keys of a \<^verbatim>\<open>Map\<close> are kept.\<close>
fun parts :: "'p mobj \<Rightarrow> 'p mval list" where
  "parts (Array_Obj vs) = vs"
| "parts (Plain_Obj fs) = map snd fs"
| "parts (Map_Obj kvs) = map snd kvs"
| "parts (Set_Obj vs) = vs"
| "parts obj = []"

fun empty_like :: "'p mobj \<Rightarrow> 'p mobj" where
  "empty_like (Array_Obj vs) = Array_Obj []"
| "empty_like (Plain_Obj fs) = Plain_Obj []"
| "empty_like (Map_Obj kvs) = Map_Obj []"
| "empty_like (Set_Obj vs) = Set_Obj []"
| "empty_like obj = obj"

text \<open>The container with copies in the place of its parts.\<close>
fun rebuilt :: "'p mobj \<Rightarrow> 'p mval list \<Rightarrow> 'p mobj" where
  "rebuilt (Array_Obj vs) ws = Array_Obj ws"
| "rebuilt (Plain_Obj fs) ws = Plain_Obj (fold (\<lambda>(k, v). jm_set k v) (zip (map fst fs) ws) [])"
| "rebuilt (Map_Obj kvs) ws = Map_Obj (fold (\<lambda>(k, v). jm_set k v) (zip (map fst kvs) ws) [])"
| "rebuilt (Set_Obj vs) ws = Set_Obj (js_set ws)"
| "rebuilt obj ws = obj"

subsection \<open>Copying\<close>

text \<open>\<open>copies\<close> is the \<^verbatim>\<open>WeakMap\<close> from a container to its copy.\<close>
record 'p cloning =
  heap :: "'p mheap"
  fresh :: nat
  copies :: "(nat \<times> nat) list"

definition allocate :: "'p mobj \<Rightarrow> 'p cloning \<Rightarrow> 'p mval \<times> 'p cloning" where
  "allocate obj st = (Ref (fresh st), st\<lparr>heap := (heap st)(fresh st \<mapsto> obj), fresh := Suc (fresh st)\<rparr>)"

definition begin_copy :: "nat \<Rightarrow> 'p mobj \<Rightarrow> 'p cloning \<Rightarrow> 'p cloning" where
  "begin_copy a obj st = st\<lparr>heap := (heap st)(fresh st \<mapsto> empty_like obj), fresh := Suc (fresh st), copies := (a, fresh st) # copies st\<rparr>"

definition finish_copy :: "nat \<Rightarrow> 'p mobj \<Rightarrow> 'p mval list \<Rightarrow> 'p cloning \<Rightarrow> 'p cloning" where
  "finish_copy b obj ws st = st\<lparr>heap := (heap st)(b \<mapsto> rebuilt obj ws)\<rparr>"

text \<open>The fuel bounds how deep containers nest.\<close>
fun deepCloneMetadata :: "nat \<Rightarrow> 'p mval \<Rightarrow> 'p cloning \<Rightarrow> ('p mval \<times> 'p cloning) option"
  and clone_parts :: "nat \<Rightarrow> 'p mval list \<Rightarrow> 'p cloning \<Rightarrow> ('p mval list \<times> 'p cloning) option" where
  "deepCloneMetadata n (Prim p) st = Some (Prim p, st)"
| "deepCloneMetadata n (Ref a) st = (case jm_get (copies st) a of
     Some b \<Rightarrow> Some (Ref b, st)
   | None \<Rightarrow> (case heap st a of
       None \<Rightarrow> Some (Ref a, st)
     | Some obj \<Rightarrow>
         if is_instance obj then Some (Ref a, st)
         else if \<not> container obj then Some (allocate obj st)
         else (case n of 0 \<Rightarrow> None
           | Suc m \<Rightarrow> (case clone_parts m (parts obj) (begin_copy a obj st) of
               None \<Rightarrow> None
             | Some (ws, st') \<Rightarrow> Some (Ref (fresh st), finish_copy (fresh st) obj ws st')))))"
| "clone_parts n [] st = Some ([], st)"
| "clone_parts n (v # vs) st = (case deepCloneMetadata n v st of
     None \<Rightarrow> None
   | Some (w, st') \<Rightarrow> (case clone_parts n vs st' of None \<Rightarrow> None | Some (ws, st'') \<Rightarrow> Some (w # ws, st'')))"

declare deepCloneMetadata.simps(2) [simp del]

text \<open>A copy of one value, as \<^verbatim>\<open>MetadataLayer.clone\<close> makes it: the map of copies starts empty.\<close>
definition clone_value :: "nat \<Rightarrow> 'p mval \<Rightarrow> 'p mheap \<Rightarrow> nat \<Rightarrow> ('p mval \<times> 'p cloning) option" where
  "clone_value n v H k = deepCloneMetadata n v \<lparr>heap = H, fresh = k, copies = []\<rparr>"

subsection \<open>What a copy is\<close>

text \<open>A heap without dangling references, whose objects have addresses below \<open>k\<close>.\<close>
definition in_heap :: "nat \<Rightarrow> 'p mval \<Rightarrow> bool" where
  "in_heap k v \<longleftrightarrow> (case v of Prim p \<Rightarrow> True | Ref a \<Rightarrow> a < k)"

definition closed_heap :: "'p mheap \<Rightarrow> nat \<Rightarrow> bool" where
  "closed_heap H k \<longleftrightarrow> (\<forall>a. H a \<noteq> None \<longleftrightarrow> a < k) \<and> (\<forall>a obj. H a = Some obj \<longrightarrow> list_all (in_heap k) (parts obj))"

text \<open>\<open>w\<close> stands for \<open>v\<close>: the same, unless \<open>v\<close> is an object that is copied.\<close>
definition stands_for :: "'p mheap \<Rightarrow> 'p cloning \<Rightarrow> 'p mval \<Rightarrow> 'p mval \<Rightarrow> bool" where
  "stands_for H st v w \<longleftrightarrow> (case v of Prim p \<Rightarrow> w = v
     | Ref a \<Rightarrow> (case H a of None \<Rightarrow> w = v
       | Some obj \<Rightarrow> if is_instance obj then w = v
           else if container obj then (\<exists>b. w = Ref b \<and> (a, b) \<in> set (copies st))
           else (\<exists>b. w = Ref b \<and> H b = None \<and> b < fresh st \<and> heap st b = Some obj)))"

definition copied :: "'p mheap \<Rightarrow> 'p cloning \<Rightarrow> nat \<times> nat \<Rightarrow> bool" where
  "copied H st ab \<longleftrightarrow> (case ab of (a, b) \<Rightarrow> \<exists>obj ws. H a = Some obj \<and> list_all2 (stands_for H st) (parts obj) ws \<and> heap st b = Some (rebuilt obj ws))"

text \<open>The objects a value is made of, going through containers only.\<close>
inductive made_of :: "'p mheap \<Rightarrow> 'p mval \<Rightarrow> nat \<Rightarrow> bool" for H where
  itself: "H a = Some obj \<Longrightarrow> \<not> is_instance obj \<Longrightarrow> made_of H (Ref a) a"
| part: "H a = Some obj \<Longrightarrow> v \<in> set (parts obj) \<Longrightarrow> made_of H v b \<Longrightarrow> made_of H (Ref a) b"

subsection \<open>Copying goes well\<close>

definition good :: "'p mheap \<Rightarrow> nat \<Rightarrow> 'p cloning \<Rightarrow> bool" where
  "good H k st \<longleftrightarrow> k \<le> fresh st \<and> (\<forall>a < k. heap st a = H a) \<and>
     (\<forall>(a, b) \<in> set (copies st). k \<le> b \<and> b < fresh st \<and> (\<exists>obj. H a = Some obj \<and> container obj))"

definition grows :: "'p cloning \<Rightarrow> 'p cloning \<Rightarrow> bool" where
  "grows st st' \<longleftrightarrow> fresh st \<le> fresh st' \<and> set (copies st) \<subseteq> set (copies st') \<and> (\<forall>b < fresh st. heap st' b = heap st b)"

lemma grows_refl: "grows st st"
  and grows_trans: "grows st st1 \<Longrightarrow> grows st1 st2 \<Longrightarrow> grows st st2"
  by (auto simp: grows_def)

lemma fold_set_subset: "set (fold (\<lambda>(k, v). jm_set k v) m acc) \<subseteq> set m \<union> set acc"
proof (induction m arbitrary: acc)
  case (Cons kv m)
  have upd: "set (jm_set k v acc) \<subseteq> insert (k, v) (set acc)" for k v acc
    by (induction acc) auto
  have "set (fold (\<lambda>(k, v). jm_set k v) m (jm_set (fst kv) (snd kv) acc)) \<subseteq> set m \<union> set (jm_set (fst kv) (snd kv) acc)"
    by (rule Cons.IH)
  also have "\<dots> \<subseteq> set (kv # m) \<union> set acc" using upd[of "fst kv" "snd kv" acc] by auto
  finally show ?case by (cases kv) simp
qed simp

lemma zipped_values: "snd ` set (fold (\<lambda>(k, v). jm_set k v) (zip ks ws) []) \<subseteq> set ws"
  using fold_set_subset[of "zip ks ws" "[]"] set_zip_rightD[of _ _ ks ws] by fastforce

lemma parts_rebuilt: "set (parts (rebuilt obj ws)) \<subseteq> set ws"
  by (cases obj) (simp_all add: zipped_values)

lemma container_rebuilt: "container (rebuilt obj ws) = container obj" "container (empty_like obj) = container obj"
  "is_instance (rebuilt obj ws) = is_instance obj"
  by (cases obj; simp)+

lemma stands_for_grows: "stands_for H st v w \<Longrightarrow> grows st st' \<Longrightarrow> stands_for H st' v w"
  by (fastforce simp: stands_for_def grows_def split: mval.splits option.splits if_splits)

lemma stands_for_finish:
  "stands_for H st v w \<Longrightarrow> heap st b = Some obj' \<Longrightarrow> container obj' \<Longrightarrow> stands_for H (finish_copy b obj ws st) v w"
  by (fastforce simp: stands_for_def finish_copy_def split: mval.splits option.splits if_splits)

lemma copied_grows: "copied H st (a, b) \<Longrightarrow> grows st st' \<Longrightarrow> b < fresh st \<Longrightarrow> copied H st' (a, b)"
proof -
  assume *: "copied H st (a, b)" "grows st st'" "b < fresh st"
  then obtain obj ws where "H a = Some obj" "list_all2 (stands_for H st) (parts obj) ws" "heap st b = Some (rebuilt obj ws)"
    by (auto simp: copied_def)
  moreover from this(2) have "list_all2 (stands_for H st') (parts obj) ws"
    by (rule list_all2_mono) (rule stands_for_grows[OF _ *(2)])
  moreover have "heap st' b = heap st b" using *(2,3) by (simp add: grows_def)
  ultimately show ?thesis by (auto simp: copied_def)
qed

lemma copied_finish:
  "copied H st (a, c) \<Longrightarrow> heap st b = Some obj' \<Longrightarrow> container obj' \<Longrightarrow> c \<noteq> b \<Longrightarrow> copied H (finish_copy b obj ws st) (a, c)"
proof -
  assume *: "copied H st (a, c)" "heap st b = Some obj'" "container obj'" "c \<noteq> b"
  then obtain obj1 ws1 where "H a = Some obj1" "list_all2 (stands_for H st) (parts obj1) ws1" "heap st c = Some (rebuilt obj1 ws1)"
    by (auto simp: copied_def)
  moreover from this(2) have "list_all2 (stands_for H (finish_copy b obj ws st)) (parts obj1) ws1"
    by (rule list_all2_mono) (rule stands_for_finish[OF _ *(2,3)])
  moreover have "heap (finish_copy b obj ws st) c = heap st c" using *(4) by (simp add: finish_copy_def)
  ultimately show ?thesis by (auto simp: copied_def)
qed

text \<open>What a step leaves: it grows the state, and the copies it began are finished.\<close>
definition cloned :: "'p mheap \<Rightarrow> nat \<Rightarrow> 'p cloning \<Rightarrow> 'p cloning \<Rightarrow> bool" where
  "cloned H k st st' \<longleftrightarrow> good H k st' \<and> grows st st' \<and>
     (\<forall>ab \<in> set (copies st') - set (copies st). fresh st \<le> snd ab \<and> copied H st' ab)"

lemma cloned_refl: "good H k st \<Longrightarrow> cloned H k st st"
  by (simp add: cloned_def grows_refl)

lemma cloned_trans:
  assumes "cloned H k st st1" "cloned H k st1 st2"
  shows "cloned H k st st2"
proof -
  have "fresh st \<le> b \<and> copied H st2 (a, b)" if "(a, b) \<in> set (copies st2)" "(a, b) \<notin> set (copies st)" for a b
  proof (cases "(a, b) \<in> set (copies st1)")
    case True
    then have "(a, b) \<in> set (copies st1) - set (copies st)" using that(2) by blast
    then have "fresh st \<le> snd (a, b) \<and> copied H st1 (a, b)" using assms(1) unfolding cloned_def by blast
    moreover have "b < fresh st1" using True assms(1) by (auto simp: cloned_def good_def)
    ultimately have "fresh st \<le> b" "copied H st1 (a, b)" "b < fresh st1" by simp_all
    moreover have "grows st1 st2" using assms(2) by (simp add: cloned_def)
    ultimately show ?thesis using copied_grows by blast
  next
    case False
    then have "(a, b) \<in> set (copies st2) - set (copies st1)" using that(1) by blast
    then have "fresh st1 \<le> snd (a, b) \<and> copied H st2 (a, b)" using assms(2) unfolding cloned_def by blast
    moreover have "fresh st \<le> fresh st1" using assms(1) by (simp add: cloned_def grows_def)
    ultimately show ?thesis by simp
  qed
  then have "\<forall>ab \<in> set (copies st2) - set (copies st). fresh st \<le> snd ab \<and> copied H st2 ab" by auto
  moreover have "grows st st2" using assms grows_trans unfolding cloned_def by blast
  moreover have "good H k st2" using assms(2) by (simp add: cloned_def)
  ultimately show ?thesis unfolding cloned_def by blast
qed

lemma begin_good:
  assumes "good H k st" "H a = Some obj" "container obj"
  shows "good H k (begin_copy a obj st)" "grows st (begin_copy a obj st)"
  using assms by (auto simp: good_def begin_copy_def grows_def)

lemma clone_correct:
  fixes H :: "'p mheap"
  assumes closed: "closed_heap H k"
  shows "deepCloneMetadata n v st = Some (w, st') \<Longrightarrow> good H k st \<Longrightarrow> in_heap k v \<Longrightarrow> cloned H k st st' \<and> stands_for H st' v w"
    and "clone_parts n vs st = Some (ws, st') \<Longrightarrow> good H k st \<Longrightarrow> list_all (in_heap k) vs \<Longrightarrow> cloned H k st st' \<and> list_all2 (stands_for H st') vs ws"
proof (induction n v st and n vs st arbitrary: w st' and ws st' rule: deepCloneMetadata_clone_parts.induct)
  case (1 n p st)
  then show ?case by (auto simp: cloned_refl stands_for_def)
next
  case (2 n a st)
  have a: "a < k" "heap st a = H a" "H a \<noteq> None" using "2.prems" closed by (auto simp: in_heap_def good_def closed_heap_def)
  then obtain obj where obj: "H a = Some obj" by blast
  show ?case
  proof (cases "jm_get (copies st) a")
    case (Some b)
    then have "(a, b) \<in> set (copies st)" by (rule map_of_SomeD)
    then have "container obj" using "2.prems"(2) obj by (fastforce simp: good_def)
    moreover have "w = Ref b" "st' = st" using "2.prems"(1) Some by (simp_all add: deepCloneMetadata.simps)
    ultimately show ?thesis using "2.prems"(2) obj \<open>(a, b) \<in> set (copies st)\<close> by (cases obj) (auto simp: cloned_refl stands_for_def)
  next
    case None
    show ?thesis
    proof (cases "container obj")
      case False
      show ?thesis
      proof (cases "is_instance obj")
        case True
        then have "w = Ref a" "st' = st" using "2.prems"(1) None a obj by (simp_all add: deepCloneMetadata.simps)
        then show ?thesis using "2.prems"(2) obj True by (simp add: cloned_refl stands_for_def)
      next
        case inst: False
        have out: "w = Ref (fresh st)" "st' = st\<lparr>heap := (heap st)(fresh st \<mapsto> obj), fresh := Suc (fresh st)\<rparr>"
          using "2.prems"(1) None a obj False inst by (simp_all add: deepCloneMetadata.simps allocate_def)
        have "good H k st'" using "2.prems"(2) out by (fastforce simp: good_def)
        moreover have "grows st st'" using out by (simp add: grows_def)
        moreover have "\<not> fresh st < k" using "2.prems"(2) by (simp add: good_def)
        then have "H (fresh st) = None" using closed unfolding closed_heap_def by blast
        ultimately show ?thesis using out obj False inst by (simp add: cloned_def stands_for_def)
      qed
    next
      case True
      then have inst: "\<not> is_instance obj" by (cases obj) simp_all
      let ?st1 = "begin_copy a obj st" and ?b = "fresh st"
      obtain m where n: "n = Suc m" using "2.prems"(1) None a obj True inst by (cases n) (simp_all add: deepCloneMetadata.simps)
      obtain vs2 st2 where rec: "clone_parts m (parts obj) ?st1 = Some (vs2, st2)"
        and out: "w = Ref ?b" "st' = finish_copy ?b obj vs2 st2"
        using "2.prems"(1) None a obj True inst n by (auto simp: deepCloneMetadata.simps split: option.splits)
      note begun = begin_good[OF "2.prems"(2) obj True]
      have "list_all (in_heap k) (parts obj)" using closed obj by (simp add: closed_heap_def)
      then have sub: "cloned H k ?st1 st2" "list_all2 (stands_for H st2) (parts obj) vs2"
        using "2.IH"[of obj m vs2 st2] None a obj inst True n rec begun by auto
      have at_b: "heap st2 ?b = Some (empty_like obj)" "container (empty_like obj)" "(a, ?b) \<in> set (copies st2)"
        using sub(1) True by (auto simp: cloned_def grows_def begin_copy_def container_rebuilt)
      have grown: "grows st st2" using begun(2) sub(1) grows_trans by (auto simp: cloned_def)
      have "good H k st'" using sub(1) "2.prems"(2) out by (auto simp: cloned_def good_def finish_copy_def)
      moreover have "grows st st'" using grown out by (simp add: grows_def finish_copy_def)
      moreover have "?b \<le> d \<and> copied H st' (c, d)" if "(c, d) \<in> set (copies st')" "(c, d) \<notin> set (copies st)" for c d
      proof (cases "(c, d) = (a, ?b)")
        case True
        have "list_all2 (stands_for H st') (parts obj) vs2"
          using sub(2) stands_for_finish[OF _ at_b(1,2)] unfolding out by (auto elim: list_all2_mono)
        then show ?thesis using True obj out by (auto simp: copied_def finish_copy_def)
      next
        case False
        then have "(c, d) \<in> set (copies st2) - set (copies ?st1)" using that out by (simp add: finish_copy_def begin_copy_def)
        then have "fresh ?st1 \<le> snd (c, d) \<and> copied H st2 (c, d)" using sub(1) unfolding cloned_def by blast
        then have "Suc ?b \<le> d" "copied H st2 (c, d)" by (simp_all add: begin_copy_def)
        then show ?thesis using copied_finish[OF _ at_b(1,2)] unfolding out by auto
      qed
      moreover have "stands_for H st' (Ref a) w" using obj True inst out at_b(3) by (simp add: stands_for_def finish_copy_def)
      ultimately show ?thesis by (auto simp: cloned_def)
    qed
  qed
next
  case (3 n st)
  then show ?case by (simp add: cloned_refl)
next
  case (4 n v vs st)
  obtain w1 st1 ws1 where run: "deepCloneMetadata n v st = Some (w1, st1)" "clone_parts n vs st1 = Some (ws1, st')" "ws = w1 # ws1"
    using "4.prems"(1) by (auto split: option.splits)
  have one: "cloned H k st st1 \<and> stands_for H st1 v w1" using "4.IH"(1) run(1) "4.prems" by simp
  then have rest: "cloned H k st1 st' \<and> list_all2 (stands_for H st') vs ws1" using "4.IH"(2)[OF run(1)] run "4.prems" by (auto simp: cloned_def)
  moreover from rest have "grows st1 st'" by (simp add: cloned_def)
  ultimately show ?case using one run(3) cloned_trans[of H k st st1 st'] stands_for_grows[of H st1 v w1 st'] by simp
qed


subsection \<open>Copying ends\<close>

definition unseen :: "'p mheap \<Rightarrow> 'p cloning \<Rightarrow> nat" where
  "unseen H st = card ({a. \<exists>obj. H a = Some obj \<and> container obj} - fst ` set (copies st))"

lemma finite_containers: "closed_heap H k \<Longrightarrow> finite {a. \<exists>obj. H a = Some obj \<and> container obj}"
  by (rule finite_subset[of _ "{..<k}"]) (auto simp: closed_heap_def)

lemma unseen_grows: "closed_heap H k \<Longrightarrow> grows st st' \<Longrightarrow> unseen H st' \<le> unseen H st"
  unfolding unseen_def by (rule card_mono) (auto simp: finite_containers grows_def)

lemma unseen_begin:
  assumes "closed_heap H k" "H a = Some obj" "container obj" "jm_get (copies st) a = None"
  shows "unseen H st = Suc (unseen H (begin_copy a obj st))"
proof -
  let ?C = "{a. \<exists>obj. H a = Some obj \<and> container obj}"
  have a: "a \<in> ?C - fst ` set (copies st)" using assms(2-4) by (simp add: map_of_eq_None_iff)
  have rest: "?C - fst ` set (copies (begin_copy a obj st)) = (?C - fst ` set (copies st)) - {a}" by (auto simp: begin_copy_def)
  have "finite (?C - fst ` set (copies st))" using finite_containers[OF assms(1)] by (rule finite_Diff)
  from card.remove[OF this a] show ?thesis unfolding unseen_def rest .
qed

lemma clone_enough_fuel:
  fixes H :: "'p mheap"
  assumes closed: "closed_heap H k"
  shows "good H k st \<Longrightarrow> in_heap k v \<Longrightarrow> unseen H st \<le> n \<Longrightarrow> deepCloneMetadata n v st \<noteq> None"
    and "good H k st \<Longrightarrow> list_all (in_heap k) vs \<Longrightarrow> unseen H st \<le> n \<Longrightarrow> clone_parts n vs st \<noteq> None"
proof (induction n v st and n vs st rule: deepCloneMetadata_clone_parts.induct)
  case (2 n a st)
  have a: "heap st a = H a" using "2.prems" closed by (auto simp: in_heap_def good_def)
  show ?case
  proof (cases "\<exists>obj. H a = Some obj \<and> container obj \<and> jm_get (copies st) a = None")
    case True
    then obtain obj where obj: "H a = Some obj" "container obj" "jm_get (copies st) a = None" by blast
    then have inst: "\<not> is_instance obj" by (cases obj) simp_all
    from unseen_begin[OF closed obj] obtain m where n: "n = Suc m" "unseen H (begin_copy a obj st) \<le> m"
      using "2.prems"(3) by (cases n) simp_all
    have "list_all (in_heap k) (parts obj)" using closed obj by (simp add: closed_heap_def)
    then have "clone_parts m (parts obj) (begin_copy a obj st) \<noteq> None"
      using "2.IH"[of obj m] a obj inst n begin_good(1)[OF "2.prems"(1) obj(1,2)] by simp
    then show ?thesis using a obj inst n by (auto simp: deepCloneMetadata.simps split: option.split)
  next
    case False
    then show ?thesis using a by (auto simp: deepCloneMetadata.simps split: option.split)
  qed
next
  case (4 n v vs st)
  obtain w st1 where run: "deepCloneMetadata n v st = Some (w, st1)" using "4.IH"(1) "4.prems" by fastforce
  have "cloned H k st st1" using clone_correct(1)[OF closed run] "4.prems" by simp
  then have "good H k st1" "unseen H st1 \<le> n" using unseen_grows[OF closed, of st st1] "4.prems" by (auto simp: cloned_def)
  then have "clone_parts n vs st1 \<noteq> None" using "4.IH"(2)[OF run] "4.prems" by simp
  then show ?case using run by (auto split: option.split)
qed simp_all

subsection \<open>A copy shares nothing that changes\<close>

lemma stands_for_fresh:
  assumes closed: "closed_heap H k" and st: "good H k st" "\<forall>ab \<in> set (copies st). copied H st ab"
  shows "made_of (heap st) w b \<Longrightarrow> stands_for H st v w \<Longrightarrow> in_heap k v \<Longrightarrow> k \<le> b"
proof (induction arbitrary: v rule: made_of.induct)
  case (itself a obj)
  then obtain c where v: "v = Ref c" "c < k" by (cases v) (auto simp: stands_for_def in_heap_def)
  then obtain obj0 where obj0: "H c = Some obj0" using closed unfolding closed_heap_def by blast
  show ?case
  proof (cases "is_instance obj0")
    case True
    then have "a = c" using itself.prems(1) v obj0 by (simp add: stands_for_def)
    then show ?thesis using itself.hyps st(1) v obj0 True by (simp add: good_def)
  next
    case False
    then have "(c, a) \<in> set (copies st) \<or> H a = None" using itself.prems(1) v obj0 by (auto simp: stands_for_def split: if_splits)
    moreover have "k \<le> a" if "H a = None" using closed that unfolding closed_heap_def by (metis not_le_imp_less)
    ultimately show ?thesis using st(1) by (auto simp: good_def)
  qed
next
  case (part a obj u b)
  then obtain c where v: "v = Ref c" "c < k" by (cases v) (auto simp: stands_for_def in_heap_def)
  then obtain obj0 where obj0: "H c = Some obj0" using closed unfolding closed_heap_def by blast
  show ?case
  proof (cases "container obj0")
    case True
    then have "\<not> is_instance obj0" by (cases obj0) simp_all
    then have "(c, a) \<in> set (copies st)" using part.prems(1) v obj0 True by (auto simp: stands_for_def)
    then have "copied H st (c, a)" using st(2) by blast
    then obtain ws where ws: "list_all2 (stands_for H st) (parts obj0) ws" "obj = rebuilt obj0 ws"
      using part.hyps(1) obj0 by (auto simp: copied_def)
    then have "u \<in> set ws" using part.hyps(2) parts_rebuilt by blast
    then obtain v' where "v' \<in> set (parts obj0)" "stands_for H st v' u"
      using ws(1) by (metis in_set_conv_nth list_all2_conv_all_nth)
    moreover have "in_heap k v'" using closed obj0 calculation(1) by (auto simp: closed_heap_def list_all_iff)
    ultimately show ?thesis using part.IH by blast
  next
    case False
    then have "heap st a = Some obj0" using part.prems(1) v obj0 st(1) by (auto simp: stands_for_def good_def split: if_splits)
    then have "parts obj = []" using part.hyps(1) False by (cases obj0) auto
    then show ?thesis using part.hyps(2) by simp
  qed
qed

text \<open>C5: Copying a metadata value ends, even on a graph with cycles, and gives a graph of the same shape: every container that
  was reached has one copy, whose parts stand for the parts of the original. No container or date the copy is made of is
  one of the original's, and the original is as it was, so neither tenant sees the other's changes. Functions,
  classes and instances are shared. Fuel is the number of containers.\<close>
theorem clone_is_isolated:
  assumes "closed_heap H k" "in_heap k v"
  shows "\<exists>w st. clone_value (card {a. \<exists>obj. H a = Some obj \<and> container obj}) v H k = Some (w, st) \<and>
    (\<forall>a. H a \<noteq> None \<longrightarrow> heap st a = H a) \<and>
    stands_for H st v w \<and> (\<forall>ab \<in> set (copies st). copied H st ab) \<and> (\<forall>b. made_of (heap st) w b \<longrightarrow> H b = None)"
proof -
  let ?st0 = "\<lparr>heap = H, fresh = k, copies = []\<rparr>" and ?n = "card {a. \<exists>obj. H a = Some obj \<and> container obj}"
  have good: "good H k ?st0" by (simp add: good_def)
  have "deepCloneMetadata ?n v ?st0 \<noteq> None" by (rule clone_enough_fuel(1)[OF assms(1) good assms(2)]) (simp add: unseen_def)
  then obtain w st where run: "deepCloneMetadata ?n v ?st0 = Some (w, st)" by fastforce
  from clone_correct(1)[OF assms(1) run good assms(2)] have post: "cloned H k ?st0 st" "stands_for H st v w" by simp_all
  have st: "good H k st" "\<forall>ab \<in> set (copies st). copied H st ab" using post(1) by (auto simp: cloned_def)
  have "\<forall>a. H a \<noteq> None \<longrightarrow> heap st a = H a" using st(1) assms(1) unfolding good_def closed_heap_def by blast
  moreover have "H b = None" if "made_of (heap st) w b" for b
  proof -
    have "k \<le> b" by (rule stands_for_fresh[OF assms(1) st that post(2) assms(2)])
    then show ?thesis using assms(1) unfolding closed_heap_def by (meson leD)
  qed
  ultimately show ?thesis using run post(2) st(2) unfolding clone_value_def by blast
qed

text \<open>A relation that points back to its own list: the copy is a cycle of its own.\<close>
definition cyclic_heap :: "nat mheap" where
  "cyclic_heap = [0 \<mapsto> Plain_Obj [(''target'', Prim 7), (''relations'', Ref 1)], 1 \<mapsto> Array_Obj [Ref 0, Ref 2], 2 \<mapsto> Instance_Obj []]"

theorem clone_is_isolated_witness:
  "\<exists>w st. clone_value 2 (Ref 0) cyclic_heap 3 = Some (w, st) \<and> w = Ref 3 \<and>
     heap st 3 = Some (Plain_Obj [(''target'', Prim 7), (''relations'', Ref 4)]) \<and> heap st 4 = Some (Array_Obj [Ref 3, Ref 2]) \<and> \<not> made_of (heap st) w 0"
proof -
  have closed: "closed_heap cyclic_heap 3" by (auto simp: closed_heap_def cyclic_heap_def in_heap_def)
  have "{a. \<exists>obj. cyclic_heap a = Some obj \<and> container obj} = {0, 1}" by (auto simp: cyclic_heap_def split: if_splits)
  then have two: "card {a. \<exists>obj. cyclic_heap a = Some obj \<and> container obj} = 2" by simp
  have "in_heap 3 (Ref 0)" by (simp add: in_heap_def)
  from clone_is_isolated[OF closed this] obtain w st where run: "clone_value 2 (Ref 0) cyclic_heap 3 = Some (w, st)"
    and apart: "\<forall>b. made_of (heap st) w b \<longrightarrow> cyclic_heap b = None" unfolding two by blast
  have "map_option fst (clone_value 2 (Ref 0) cyclic_heap 3) = Some (Ref 3)"
    "map_option (\<lambda>r. heap (snd r) 3) (clone_value 2 (Ref 0) cyclic_heap 3) = Some (Some (Plain_Obj [(''target'', Prim 7), (''relations'', Ref 4)]))"
    "map_option (\<lambda>r. heap (snd r) 4) (clone_value 2 (Ref 0) cyclic_heap 3) = Some (Some (Array_Obj [Ref 3, Ref 2]))" by code_simp+
  moreover have "\<not> made_of (heap st) w 0" using apart by (auto simp: cyclic_heap_def)
  ultimately show ?thesis using run by auto
qed

end
