(* ===== verification/MetadataLayers.thy ===== *)
theory MetadataLayers
  imports TextUtils
begin

section \<open>Layered metadata (src/metadata/MetadataContext.ts, MetadataLayer.ts, src/scanner/MetadataScanner.ts)\<close>

text \<open>
  What decorators record about classes is kept in layers: one shared layer, called \<^verbatim>\<open>public\<close>, and one per tenant that lies
  over it. Scanners read the merged view of the current tenant, through two caches. The value of a key is
  \<^verbatim>\<open>undefined\<close> (\<^verbatim>\<open>None\<close>) or an object; \<open>T v\<close> is the property \<^verbatim>\<open>target\<close> of an object, where it has one. The time a layer
  was created is left out.
\<close>

subsection \<open>The request's context (MetadataContext.ts)\<close>

record context_store =
  tenantId :: string
  unscoped_flag :: bool

text \<open>What \<^verbatim>\<open>AsyncLocalStorage\<close> holds for the running code is an argument of the code.\<close>
type_synonym ambient = "context_store option"

definition public_name :: string where
  "public_name = ''public''"

definition run_as :: "string \<Rightarrow> (ambient \<Rightarrow> 'a) \<Rightarrow> ambient \<Rightarrow> 'a" where
  "run_as t callback = (\<lambda>_. callback (Some \<lparr>tenantId = t, unscoped_flag = False\<rparr>))"

definition getCurrentTenant :: "ambient \<Rightarrow> string" where
  "getCurrentTenant a = (case a of Some s \<Rightarrow> tenantId s | None \<Rightarrow> public_name)"

definition runUnscoped :: "(ambient \<Rightarrow> 'a) \<Rightarrow> ambient \<Rightarrow> 'a" where
  "runUnscoped callback = (\<lambda>a. callback (Some \<lparr>tenantId = getCurrentTenant a, unscoped_flag = True\<rparr>))"

definition isUnscoped :: "ambient \<Rightarrow> bool" where
  "isUnscoped a \<longleftrightarrow> (case a of Some s \<Rightarrow> unscoped_flag s | None \<Rightarrow> False)"

definition isActive :: "ambient \<Rightarrow> bool" where
  "isActive a \<longleftrightarrow> a \<noteq> None"

definition capture :: "ambient \<Rightarrow> ambient" where
  "capture a = (case a of Some s \<Rightarrow> Some s | None \<Rightarrow> None)"

definition runCaptured :: "ambient \<Rightarrow> (ambient \<Rightarrow> 'a) \<Rightarrow> ambient \<Rightarrow> 'a" where
  "runCaptured snap callback = (\<lambda>a. case snap of None \<Rightarrow> callback a | Some s \<Rightarrow> callback (Some s))"

subsection \<open>Layers (MetadataLayer.ts)\<close>

type_synonym 'v entries = "(string \<times> 'v option) list"

record 'v layer =
  layer_name :: string
  read_only :: bool
  metadata :: "'v entries"

datatype meta_error = Read_Only_Layer string | Layer_Exists string | No_Source_Layer string | Public_Layer

definition new_layer :: "string \<Rightarrow> bool \<Rightarrow> 'v layer" where
  "new_layer n ro = \<lparr>layer_name = n, read_only = ro, metadata = []\<rparr>"

definition layer_set :: "string \<Rightarrow> 'v option \<Rightarrow> 'v layer \<Rightarrow> (meta_error + unit) \<times> 'v layer" where
  "layer_set k v l = (if read_only l then (Inl (Read_Only_Layer (layer_name l)), l)
     else (Inr (), l\<lparr>metadata := jm_set k v (metadata l)\<rparr>))"

text \<open>\<^verbatim>\<open>Map.get\<close>: a key that is not there reads as \<^verbatim>\<open>undefined\<close>.\<close>
definition layer_get :: "'v layer \<Rightarrow> string \<Rightarrow> 'v option" where
  "layer_get l k = (case jm_get (metadata l) k of Some v \<Rightarrow> v | None \<Rightarrow> None)"

definition layer_has :: "'v layer \<Rightarrow> string \<Rightarrow> bool" where
  "layer_has l k \<longleftrightarrow> k \<in> set (jm_keys (metadata l))"

definition layer_delete :: "string \<Rightarrow> 'v layer \<Rightarrow> (meta_error + bool) \<times> 'v layer" where
  "layer_delete k l = (if read_only l then (Inl (Read_Only_Layer (layer_name l)), l)
     else (Inr (layer_has l k), l\<lparr>metadata := jm_delete k (metadata l)\<rparr>))"

definition layer_clear :: "'v layer \<Rightarrow> (meta_error + unit) \<times> 'v layer" where
  "layer_clear l = (if read_only l then (Inl (Read_Only_Layer (layer_name l)), l) else (Inr (), l\<lparr>metadata := []\<rparr>))"

text \<open>The values are copied one by one, by \<open>copy\<close>.\<close>
definition layer_clone :: "('v \<Rightarrow> 'v) \<Rightarrow> string \<Rightarrow> bool \<Rightarrow> 'v layer \<Rightarrow> 'v layer" where
  "layer_clone copy n ro l = \<lparr>layer_name = n, read_only = ro,
     metadata = fold (\<lambda>(k, v). jm_set k (map_option copy v)) (metadata l) []\<rparr>"

subsection \<open>The registry\<close>

text \<open>A merged view is an object of its own, known by a number: whoever keeps it can tell it from the next one.\<close>
type_synonym 'v view = "nat \<times> 'v entries"

record ('v, 'c) scanner =
  scannerPrefix :: string
  lastResolvedMap :: "nat option"
  targetIndexMap :: "('c \<times> 'v list) list"

record ('v, 'c) registry =
  layers :: "(string \<times> 'v layer) list"
  currentContext :: string
  resolveAllCache :: "(string \<times> 'v view) list"
  dirtyContexts :: "string list"
  next_view :: nat
  scanners :: "nat \<Rightarrow> ('v, 'c) scanner"

definition MAX_CACHE_SIZE :: nat where
  "MAX_CACHE_SIZE = 1000"

definition new_registry :: "(nat \<Rightarrow> string) \<Rightarrow> ('v, 'c) registry" where
  "new_registry ps = \<lparr>layers = [(public_name, new_layer public_name False)], currentContext = public_name, resolveAllCache = [],
     dirtyContexts = [public_name], next_view = 0,
     scanners = \<lambda>i. \<lparr>scannerPrefix = ps i, lastResolvedMap = None, targetIndexMap = []\<rparr>\<rparr>"

definition getContext :: "ambient \<Rightarrow> ('v, 'c) registry \<Rightarrow> string" where
  "getContext a g = (if isActive a then getCurrentTenant a else currentContext g)"

type_synonym ('v, 'c, 'a) meta = "(('v, 'c) registry, meta_error, 'a) io"

definition setContext :: "string \<Rightarrow> ('v, 'c, unit) meta" where
  "setContext c = (\<lambda>g. let g = g\<lparr>currentContext := c\<rparr> in
     if jm_get (layers g) c = None
     then (Inr (), g\<lparr>layers := jm_set c (new_layer c False) (layers g), dirtyContexts := js_add c (dirtyContexts g)\<rparr>)
     else (Inr (), g))"

definition getCurrentLayer :: "ambient \<Rightarrow> ('v, 'c, 'v layer) meta" where
  "getCurrentLayer a = (\<lambda>g. let c = getContext a g in case jm_get (layers g) c of
     Some l \<Rightarrow> (Inr l, g)
   | None \<Rightarrow> (Inr (new_layer c False), g\<lparr>layers := jm_set c (new_layer c False) (layers g)\<rparr>))"

definition addLayer :: "string \<Rightarrow> bool \<Rightarrow> ('v, 'c, unit) meta" where
  "addLayer n ro = (\<lambda>g. if jm_get (layers g) n \<noteq> None then (Inl (Layer_Exists n), g)
     else (Inr (), g\<lparr>layers := jm_set n (new_layer n ro) (layers g)\<rparr>))"

definition copyLayer :: "('v \<Rightarrow> 'v) \<Rightarrow> string \<Rightarrow> string \<Rightarrow> ('v, 'c, unit) meta" where
  "copyLayer copy src target = (\<lambda>g. case jm_get (layers g) src of
     None \<Rightarrow> (Inl (No_Source_Layer src), g)
   | Some l \<Rightarrow> (Inr (), g\<lparr>layers := jm_set target (layer_clone copy target False l) (layers g),
       dirtyContexts := js_add target (dirtyContexts g)\<rparr>))"

definition forget_view :: "('v, 'c) scanner \<Rightarrow> ('v, 'c) scanner" where
  "forget_view s = s\<lparr>lastResolvedMap := None, targetIndexMap := []\<rparr>"

definition invalidateScannerCaches :: "('v, 'c) registry \<Rightarrow> ('v, 'c) registry" where
  "invalidateScannerCaches g = g\<lparr>scanners := \<lambda>i. forget_view (scanners g i)\<rparr>"

definition removeLayer :: "string \<Rightarrow> ('v, 'c, bool) meta" where
  "removeLayer n = (\<lambda>g. if n = public_name then (Inl Public_Layer, g)
     else (let removed = jm_get (layers g) n \<noteq> None;
               g = g\<lparr>resolveAllCache := jm_delete n (resolveAllCache g), dirtyContexts := js_delete n (dirtyContexts g),
                 layers := jm_delete n (layers g)\<rparr> in
       (Inr removed, if removed then invalidateScannerCaches g else g)))"

definition resolveValue :: "ambient \<Rightarrow> string \<Rightarrow> ('v, 'c) registry \<Rightarrow> 'v option" where
  "resolveValue a k g = (let c = getContext a g in
     case Option.bind (jm_get (layers g) c) (\<lambda>l. layer_get l k) of
       Some v \<Rightarrow> Some v
     | None \<Rightarrow> if c \<noteq> public_name then Option.bind (jm_get (layers g) public_name) (\<lambda>l. layer_get l k) else None)"

definition add_entries :: "'v layer option \<Rightarrow> 'v entries \<Rightarrow> 'v entries" where
  "add_entries l m = (case l of Some l \<Rightarrow> fold (\<lambda>(k, v). jm_set k v) (metadata l) m | None \<Rightarrow> m)"

text \<open>A context whose layer is empty sees the shared layer, and shares its view.\<close>
definition view_name :: "string \<Rightarrow> ('v, 'c) registry \<Rightarrow> string" where
  "view_name c g = (if c \<noteq> public_name \<and> (case jm_get (layers g) c of Some l \<Rightarrow> metadata l \<noteq> [] | None \<Rightarrow> False) then c else public_name)"

text \<open>The merge itself: the shared layer, then the context's own over it.\<close>
definition merged :: "string \<Rightarrow> ('v, 'c) registry \<Rightarrow> 'v entries" where
  "merged c g = (let m = add_entries (jm_get (layers g) public_name) [] in
     if c \<noteq> public_name then add_entries (jm_get (layers g) c) m else m)"

text \<open>At the bound, the oldest views but the shared one are dropped.\<close>
fun drop_oldest :: "string list \<Rightarrow> (string \<times> 'v view) list \<Rightarrow> (string \<times> 'v view) list" where
  "drop_oldest [] cache = cache"
| "drop_oldest (k # ks) cache =
     (if length cache < MAX_CACHE_SIZE then cache
      else drop_oldest ks (if k \<noteq> public_name then jm_delete k cache else cache))"

definition resolveAll :: "ambient \<Rightarrow> ('v, 'c, 'v view) meta" where
  "resolveAll a = (\<lambda>g. let c = view_name (getContext a g) g in
     case (if c \<in> set (dirtyContexts g) then None else jm_get (resolveAllCache g) c) of
       Some m \<Rightarrow> (Inr m, g)
     | None \<Rightarrow> (let m = (next_view g, merged c g);
           cache = (if jm_get (resolveAllCache g) c = None then drop_oldest (jm_keys (resolveAllCache g)) (resolveAllCache g)
             else resolveAllCache g) in
         (Inr m, g\<lparr>resolveAllCache := jm_set c m cache, dirtyContexts := js_delete c (dirtyContexts g), next_view := Suc (next_view g)\<rparr>)))"

definition mark_context_dirty :: "string \<Rightarrow> ('v, 'c) registry \<Rightarrow> ('v, 'c) registry" where
  "mark_context_dirty c g = (if c = public_name
     then g\<lparr>resolveAllCache := [], dirtyContexts := fold js_add (jm_keys (layers g)) (dirtyContexts g)\<rparr>
     else g\<lparr>dirtyContexts := js_add c (dirtyContexts g)\<rparr>)"

subsection \<open>Scanners\<close>

definition prefix_of :: "nat \<Rightarrow> ('v, 'c) registry \<Rightarrow> string" where
  "prefix_of i g = (let p = scannerPrefix (scanners g i) in if p = [] then [] else p @ ''::'')"

definition prefixKey :: "nat \<Rightarrow> string \<Rightarrow> ('v, 'c) registry \<Rightarrow> string" where
  "prefixKey i k g = prefix_of i g @ k"

definition startsWith :: "string \<Rightarrow> string \<Rightarrow> bool" where
  "startsWith k p \<longleftrightarrow> take (length p) k = p"

text \<open>A write to the layer of that name, which is there.\<close>
definition write_layer :: "string \<Rightarrow> ('v layer \<Rightarrow> (meta_error + 'a) \<times> 'v layer) \<Rightarrow> ('v, 'c, 'a) meta" where
  "write_layer c f = (\<lambda>g. case jm_get (layers g) c of
     None \<Rightarrow> (Inl (No_Source_Layer c), g)
   | Some l \<Rightarrow> (case f l of (r, l') \<Rightarrow> (r, g\<lparr>layers := jm_set c l' (layers g)\<rparr>)))"

definition scanner_set :: "nat \<Rightarrow> ambient \<Rightarrow> string \<Rightarrow> 'v option \<Rightarrow> ('v, 'c, unit) meta" where
  "scanner_set i a k v = (\<lambda>g. let c = getContext a g in
     io_then (getCurrentLayer a) (io_then (write_layer c (layer_set (prefixKey i k g) v)) (\<lambda>g. (Inr (), mark_context_dirty c g))) g)"

definition setOnPublic :: "nat \<Rightarrow> string \<Rightarrow> 'v option \<Rightarrow> ('v, 'c, unit) meta" where
  "setOnPublic i k v = (\<lambda>g.
     io_then (write_layer public_name (layer_set (prefixKey i k g) v)) (\<lambda>g. (Inr (), mark_context_dirty public_name g)) g)"

definition scanner_get :: "nat \<Rightarrow> ambient \<Rightarrow> string \<Rightarrow> ('v, 'c) registry \<Rightarrow> 'v option" where
  "scanner_get i a k g = resolveValue a (prefixKey i k g) g"

definition scanner_has :: "nat \<Rightarrow> ambient \<Rightarrow> string \<Rightarrow> ('v, 'c) registry \<Rightarrow> bool" where
  "scanner_has i a k g \<longleftrightarrow> resolveValue a (prefixKey i k g) g \<noteq> None"

definition scanner_clear :: "nat \<Rightarrow> ambient \<Rightarrow> ('v, 'c, unit) meta" where
  "scanner_clear i a = (\<lambda>g. let c = getContext a g; p = prefix_of i g in
     io_bind (getCurrentLayer a) (\<lambda>l.
       if p = [] then io_then (write_layer c layer_clear) (\<lambda>g. (Inr (), mark_context_dirty c g))
       else (let ks = filter (\<lambda>k. startsWith k p) (jm_keys (metadata l)) in
         if ks = [] then io_return ()
         else io_then (write_layer c (\<lambda>l. (Inr (), l\<lparr>metadata := fold jm_delete ks (metadata l)\<rparr>))) (\<lambda>g. (Inr (), mark_context_dirty c g)))) g)"

text \<open>The values of a view under a scanner's prefix.\<close>
definition under_prefix :: "string \<Rightarrow> 'v entries \<Rightarrow> 'v option list" where
  "under_prefix p m = map snd (filter (\<lambda>(k, v). startsWith k p) m)"

definition allMetadata :: "nat \<Rightarrow> ambient \<Rightarrow> ('v, 'c, 'v option list) meta" where
  "allMetadata i a = (\<lambda>g. io_bind (resolveAll a) (\<lambda>m. io_return (under_prefix (prefix_of i g) (snd m))) g)"

definition scanner_size :: "nat \<Rightarrow> ambient \<Rightarrow> ('v, 'c, nat) meta" where
  "scanner_size i a = io_bind (allMetadata i a) (\<lambda>vs. io_return (length vs))"

definition index_value :: "('v \<Rightarrow> 'c option) \<Rightarrow> 'v option \<Rightarrow> ('c \<times> 'v list) list \<Rightarrow> ('c \<times> 'v list) list" where
  "index_value T v idx = (case v of None \<Rightarrow> idx
   | Some v \<Rightarrow> (case T v of None \<Rightarrow> idx
     | Some c \<Rightarrow> (case jm_get idx c of Some vs \<Rightarrow> jm_set c (vs @ [v]) idx | None \<Rightarrow> jm_set c [v] idx)))"

definition rebuild_index :: "('v \<Rightarrow> 'c option) \<Rightarrow> nat \<Rightarrow> 'v view \<Rightarrow> ('v, 'c) registry \<Rightarrow> ('v, 'c) registry" where
  "rebuild_index T i m g = g\<lparr>scanners := (scanners g)(i := (scanners g i)\<lparr>lastResolvedMap := Some (fst m),
     targetIndexMap := fold (index_value T) (under_prefix (prefix_of i g) (snd m)) []\<rparr>)\<rparr>"

definition getByTarget :: "('v \<Rightarrow> 'c option) \<Rightarrow> nat \<Rightarrow> ambient \<Rightarrow> 'c \<Rightarrow> ('v, 'c, 'v list) meta" where
  "getByTarget T i a c = io_bind (resolveAll a) (\<lambda>m g.
     let g = (if lastResolvedMap (scanners g i) \<noteq> Some (fst m) then rebuild_index T i m g else g) in
     (Inr (case jm_get (targetIndexMap (scanners g i)) c of Some vs \<Rightarrow> vs | None \<Rightarrow> []), g))"

subsection \<open>Calls\<close>

datatype ('v, 'c) meta_call = Set_Meta nat string "'v option" | Set_On_Public nat string "'v option" | Clear_Meta nat
  | Set_Context string | Add_Layer string bool | Copy_Layer string string | Remove_Layer string
  | All_Metadata nat | By_Target nat 'c

definition meta_void :: "('v, 'c, 'a) meta \<Rightarrow> ('v, 'c, unit) meta" where
  "meta_void m = io_then m (io_return ())"

fun run_meta :: "('v \<Rightarrow> 'v) \<Rightarrow> ('v \<Rightarrow> 'c option) \<Rightarrow> ambient \<Rightarrow> ('v, 'c) meta_call \<Rightarrow> ('v, 'c, unit) meta" where
  "run_meta copy T a (Set_Meta i k v) = scanner_set i a k v"
| "run_meta copy T a (Set_On_Public i k v) = setOnPublic i k v"
| "run_meta copy T a (Clear_Meta i) = scanner_clear i a"
| "run_meta copy T a (Set_Context c) = setContext c"
| "run_meta copy T a (Add_Layer n ro) = addLayer n ro"
| "run_meta copy T a (Copy_Layer s t) = copyLayer copy s t"
| "run_meta copy T a (Remove_Layer n) = meta_void (removeLayer n)"
| "run_meta copy T a (All_Metadata i) = meta_void (allMetadata i a)"
| "run_meta copy T a (By_Target i c) = meta_void (getByTarget T i a c)"

text \<open>A layer is never copied over the shared one.\<close>
inductive used :: "('v \<Rightarrow> 'v) \<Rightarrow> ('v \<Rightarrow> 'c option) \<Rightarrow> ('v, 'c) registry \<Rightarrow> bool" for copy T where
  opened: "used copy T (new_registry ps)"
| called: "used copy T g \<Longrightarrow> (\<And>s. k \<noteq> Copy_Layer s public_name) \<Longrightarrow> used copy T (snd (run_meta copy T a k g))"


subsection \<open>The caches\<close>

definition view_index :: "('v \<Rightarrow> 'c option) \<Rightarrow> string \<Rightarrow> 'v entries \<Rightarrow> ('c \<times> 'v list) list" where
  "view_index T p m = fold (index_value T) (under_prefix p m) []"

text \<open>
  A view in the cache is the merge, unless its context is marked; no two contexts share a view; the index of a scanner
  belongs to the view the scanner remembers.
\<close>
definition caches_ok :: "('v \<Rightarrow> 'c option) \<Rightarrow> ('v, 'c) registry \<Rightarrow> bool" where
  "caches_ok T g \<longleftrightarrow> jm_get (layers g) public_name \<noteq> None \<and>
     (\<forall>c n m. jm_get (resolveAllCache g) c = Some (n, m) \<longrightarrow> n < next_view g \<and> (c \<notin> set (dirtyContexts g) \<longrightarrow> m = merged c g)) \<and>
     (\<forall>c c' n m m'. jm_get (resolveAllCache g) c = Some (n, m) \<longrightarrow> jm_get (resolveAllCache g) c' = Some (n, m') \<longrightarrow> c = c') \<and>
     (\<forall>i n. lastResolvedMap (scanners g i) = Some n \<longrightarrow> n < next_view g \<and>
        (\<forall>c m. jm_get (resolveAllCache g) c = Some (n, m) \<longrightarrow> targetIndexMap (scanners g i) = view_index T (prefix_of i g) m))"

lemma drop_oldest_subset: "jm_get (drop_oldest ks cache) c = Some m \<Longrightarrow> jm_get cache c = Some m"
  by (induction ks cache rule: drop_oldest.induct) (auto simp: jm_get_delete split: if_splits)

lemma merged_unfold: "merged c g = (if c \<noteq> public_name
    then add_entries (jm_get (layers g) c) (add_entries (jm_get (layers g) public_name) []) else add_entries (jm_get (layers g) public_name) [])"
  by (simp add: merged_def Let_def)

lemma merged_upd [simp]:
  "merged c (g\<lparr>currentContext := x\<rparr>) = merged c g" "merged c (g\<lparr>resolveAllCache := rc\<rparr>) = merged c g"
  "merged c (g\<lparr>dirtyContexts := d\<rparr>) = merged c g" "merged c (g\<lparr>next_view := n\<rparr>) = merged c g"
  "merged c (g\<lparr>scanners := sc\<rparr>) = merged c g"
  by (simp_all add: merged_unfold)

lemma merged_public: "merged public_name g = add_entries (jm_get (layers g) public_name) []"
  by (simp add: merged_unfold)

text \<open>A layer that changes shows in its own view, and in all of them when it is the shared one.\<close>
lemma merged_other: "c \<noteq> n \<Longrightarrow> n \<noteq> public_name \<Longrightarrow> jm_get ls = (jm_get (layers g))(n := x) \<Longrightarrow> merged c (g\<lparr>layers := ls\<rparr>) = merged c g"
  by (simp add: merged_unfold)

lemma merged_same: "(\<And>k. add_entries (jm_get ls k) = add_entries (jm_get (layers g) k)) \<Longrightarrow> merged c (g\<lparr>layers := ls\<rparr>) = merged c g"
  by (simp add: merged_unfold)

lemma add_new_layer: "add_entries (Some (new_layer n ro)) = add_entries None"
  by (rule ext) (simp add: add_entries_def new_layer_def)

lemma view_name_merged: "merged (view_name c g) g = merged c g"
  by (auto simp: view_name_def merged_unfold add_entries_def split: option.splits)

definition write_safe :: "('v, 'c) registry \<Rightarrow> ('v, 'c) registry \<Rightarrow> bool" where
  "write_safe g g' \<longleftrightarrow> scanners g' = scanners g \<and> next_view g' = next_view g \<and> jm_get (layers g') public_name \<noteq> None \<and>
     (\<forall>c n m. jm_get (resolveAllCache g') c = Some (n, m) \<longrightarrow> jm_get (resolveAllCache g) c = Some (n, m) \<and>
        (c \<notin> set (dirtyContexts g') \<longrightarrow> c \<notin> set (dirtyContexts g) \<and> merged c g' = merged c g))"

lemma prefix_of_cong: "scannerPrefix (scanners g' i) = scannerPrefix (scanners g i) \<Longrightarrow> prefix_of i g' = prefix_of i g"
  by (simp add: prefix_of_def)

lemma caches_ok_write:
  assumes "caches_ok T g" "write_safe g g'"
  shows "caches_ok T g'"
proof -
  have "prefix_of i g' = prefix_of i g" for i using assms(2) by (simp add: write_safe_def prefix_of_def)
  then show ?thesis using assms unfolding caches_ok_def write_safe_def by (simp; metis)
qed

lemma caches_ok_new: "caches_ok T (new_registry ps)"
  by (simp add: caches_ok_def new_registry_def)

lemma caches_ok_forget: "caches_ok T g \<Longrightarrow> caches_ok T (invalidateScannerCaches g)"
  by (simp add: caches_ok_def invalidateScannerCaches_def forget_view_def)


lemma write_safe_trans: "write_safe g g1 \<Longrightarrow> write_safe g1 g2 \<Longrightarrow> write_safe g g2"
  unfolding write_safe_def by (simp; metis)

lemma write_safe_refl: "jm_get (layers g) public_name \<noteq> None \<Longrightarrow> write_safe g g"
  by (simp add: write_safe_def)

lemma write_safe_same:
  assumes "\<And>k. add_entries (jm_get ls k) = add_entries (jm_get (layers g) k)" "jm_get ls public_name \<noteq> None"
    and "set (dirtyContexts g) \<subseteq> set ds"
  shows "write_safe g (g\<lparr>currentContext := cc, layers := ls, dirtyContexts := ds\<rparr>)"
  using assms by (auto simp: write_safe_def merged_unfold)

lemma set_fold_js_add: "set (fold js_add xs ys) = set xs \<union> set ys"
  by (induction xs arbitrary: ys) auto

lemma write_safe_marked:
  assumes "jm_get (layers g) public_name \<noteq> None" "jm_get ls = (jm_get (layers g))(n := Some l)"
  shows "write_safe g (mark_context_dirty n (g\<lparr>layers := ls\<rparr>))"
  using assms by (auto simp: write_safe_def mark_context_dirty_def merged_unfold)

lemma current_layer_safe:
  assumes "jm_get (layers g) public_name \<noteq> None"
  shows "write_safe g (snd (getCurrentLayer a g))" "\<exists>l. fst (getCurrentLayer a g) = Inr l \<and> jm_get (layers (snd (getCurrentLayer a g))) (getContext a g) = Some l"
proof -
  have new: "add_entries (jm_get (jm_set c (new_layer c False) (layers g)) k) = add_entries (jm_get (layers g) k)"
    if "jm_get (layers g) c = None" for c k
    using that by (simp add: jm_get_set add_new_layer)
  show "write_safe g (snd (getCurrentLayer a g))"
    using assms write_safe_same[OF new, of "getContext a g" "dirtyContexts g" "currentContext g"]
    by (auto simp: getCurrentLayer_def Let_def jm_get_set write_safe_refl split: option.split)
  show "\<exists>l. fst (getCurrentLayer a g) = Inr l \<and> jm_get (layers (snd (getCurrentLayer a g))) (getContext a g) = Some l"
    by (simp add: getCurrentLayer_def Let_def jm_get_set split: option.split)
qed

text \<open>A write to a layer, marked unless it failed, and a failed write changes nothing.\<close>
lemma write_then_mark_safe:
  assumes "jm_get (layers g) public_name \<noteq> None" "jm_get (layers g) c = Some l" "isl (fst (f l)) \<longrightarrow> snd (f l) = l"
  shows "write_safe g (snd (io_then (write_layer c f) (\<lambda>g. (Inr (), mark_context_dirty c g)) g))"
proof (cases "f l")
  case (Pair r l')
  show ?thesis
  proof (cases r)
    case (Inl e)
    have "write_safe g (g\<lparr>layers := jm_set c l (layers g)\<rparr>)"
      using write_safe_same[of "jm_set c l (layers g)" g "dirtyContexts g" "currentContext g"] assms(1,2) by (auto simp: jm_get_set)
    then show ?thesis using Pair Inl assms(2,3) by (simp add: io_defs write_layer_def)
  next
    case (Inr x)
    then show ?thesis using Pair assms(1,2) write_safe_marked[OF assms(1), of "jm_set c l' (layers g)" c l']
      by (simp add: io_defs write_layer_def fun_upd_def jm_get_set)
  qed
qed

lemma layer_writes: "isl (fst (layer_set k v l)) \<longrightarrow> snd (layer_set k v l) = l" "isl (fst (layer_clear l)) \<longrightarrow> snd (layer_clear l) = l"
  by (simp_all add: layer_set_def layer_clear_def)

lemma context_kept: "getContext a (snd (getCurrentLayer b g)) = getContext a g" "prefix_of i (snd (getCurrentLayer b g)) = prefix_of i g"
  by (simp_all add: getCurrentLayer_def Let_def getContext_def prefix_of_def split: option.split)

lemma public_kept: "write_safe g g' \<Longrightarrow> jm_get (layers g') public_name \<noteq> None"
  by (simp add: write_safe_def)

lemma set_safe:
  assumes "jm_get (layers g) public_name \<noteq> None"
  shows "write_safe g (snd (scanner_set i a k v g))"
proof -
  let ?g1 = "snd (getCurrentLayer a g)"
  obtain l where l: "fst (getCurrentLayer a g) = Inr l" "jm_get (layers ?g1) (getContext a g) = Some l"
    using current_layer_safe(2)[OF assms] by blast
  have "getCurrentLayer a g = (Inr l, ?g1)" using l(1) by (metis prod.collapse)
  then have "scanner_set i a k v g =
      io_then (write_layer (getContext a g) (layer_set (prefixKey i k g) v)) (\<lambda>g'. (Inr (), mark_context_dirty (getContext a g) g')) ?g1"
    by (simp add: scanner_set_def Let_def io_then_Inr)
  moreover have "write_safe ?g1 (snd (io_then (write_layer (getContext a g) (layer_set (prefixKey i k g) v)) (\<lambda>g'. (Inr (), mark_context_dirty (getContext a g) g')) ?g1))"
    by (rule write_then_mark_safe[OF public_kept[OF current_layer_safe(1)[OF assms]] l(2)]) (rule layer_writes)
  ultimately show ?thesis using write_safe_trans[OF current_layer_safe(1)[OF assms]] by metis
qed

lemma clear_safe:
  assumes "jm_get (layers g) public_name \<noteq> None"
  shows "write_safe g (snd (scanner_clear i a g))"
proof -
  let ?g1 = "snd (getCurrentLayer a g)" and ?c = "getContext a g"
  note pub = public_kept[OF current_layer_safe(1)[OF assms], of a]
  obtain l where l: "fst (getCurrentLayer a g) = Inr l" "jm_get (layers ?g1) ?c = Some l"
    using current_layer_safe(2)[OF assms] by blast
  have cur: "getCurrentLayer a g = (Inr l, ?g1)" using l(1) by (metis prod.collapse)
  have wipe: "write_safe ?g1 (snd (io_then (write_layer ?c layer_clear) (\<lambda>g'. (Inr (), mark_context_dirty ?c g')) ?g1))"
    by (rule write_then_mark_safe[OF pub l(2)]) (rule layer_writes)
  have drop: "write_safe ?g1 (snd (io_then (write_layer ?c (\<lambda>l. (Inr (), l\<lparr>metadata := fold jm_delete ks (metadata l)\<rparr>))) (\<lambda>g'. (Inr (), mark_context_dirty ?c g')) ?g1))" for ks
    by (rule write_then_mark_safe[OF pub l(2)]) simp
  have "write_safe ?g1 (snd (scanner_clear i a g))"
    using wipe drop by (simp add: scanner_clear_def Let_def io_bind_Inr[where m = "getCurrentLayer a" and w = g, OF cur] io_return_apply write_safe_refl[OF pub])
  then show ?thesis by (rule write_safe_trans[OF current_layer_safe(1)[OF assms]])
qed

lemma public_set_safe:
  assumes "jm_get (layers g) public_name \<noteq> None"
  shows "write_safe g (snd (setOnPublic i k v g))"
proof -
  obtain l where "jm_get (layers g) public_name = Some l" using assms by blast
  from write_then_mark_safe[where f = "layer_set (prefixKey i k g) v", OF assms this layer_writes(1)] show ?thesis by (simp add: setOnPublic_def)
qed

lemma set_context_safe:
  assumes "jm_get (layers g) public_name \<noteq> None"
  shows "write_safe g (snd (setContext c g))"
proof (cases "jm_get (layers g) c")
  case None
  have "add_entries (jm_get (jm_set c (new_layer c False) (layers g)) k) = add_entries (jm_get (layers g) k)" for k
    using None by (simp add: jm_get_set add_new_layer)
  moreover have "jm_get (jm_set c (new_layer c False) (layers g)) public_name \<noteq> None" using assms by (simp add: jm_get_set)
  ultimately have "write_safe g (g\<lparr>currentContext := c, layers := jm_set c (new_layer c False) (layers g), dirtyContexts := js_add c (dirtyContexts g)\<rparr>)"
    by (rule write_safe_same) auto
  then show ?thesis using None by (simp add: setContext_def Let_def)
next
  case (Some l)
  then show ?thesis using assms by (simp add: setContext_def Let_def write_safe_def)
qed

lemma add_layer_safe:
  assumes "jm_get (layers g) public_name \<noteq> None"
  shows "write_safe g (snd (addLayer n ro g))"
proof (cases "jm_get (layers g) n")
  case None
  have "add_entries (jm_get (jm_set n (new_layer n ro) (layers g)) k) = add_entries (jm_get (layers g) k)" for k
    using None by (simp add: jm_get_set add_new_layer)
  from write_safe_same[OF this, of "dirtyContexts g" "currentContext g"] show ?thesis using assms None by (auto simp: addLayer_def jm_get_set)
qed (simp add: addLayer_def write_safe_refl[OF assms])

lemma copy_safe:
  assumes "jm_get (layers g) public_name \<noteq> None" "t \<noteq> public_name"
  shows "write_safe g (snd (copyLayer copy s t g))"
  using assms by (auto simp: copyLayer_def write_safe_def merged_unfold jm_get_set split: option.split)

lemma remove_ok: "caches_ok T g \<Longrightarrow> caches_ok T (snd (removeLayer n g))"
proof -
  assume ok: "caches_ok T g"
  let ?g = "g\<lparr>resolveAllCache := jm_delete n (resolveAllCache g), dirtyContexts := js_delete n (dirtyContexts g), layers := jm_delete n (layers g)\<rparr>"
  have "write_safe g ?g" if "n \<noteq> public_name"
    using ok that by (auto simp: caches_ok_def write_safe_def jm_get_delete merged_unfold split: if_splits)
  then have "caches_ok T ?g" if "n \<noteq> public_name" using caches_ok_write[OF ok] that by blast
  then show ?thesis using ok by (auto simp: removeLayer_def Let_def caches_ok_forget)
qed


lemma resolve_spec:
  assumes "caches_ok T g"
  obtains n g' where "resolveAll a g = (Inr (n, merged (getContext a g) g), g')" "caches_ok T g'" "layers g' = layers g"
    "scanners g' = scanners g" "currentContext g' = currentContext g"
    "jm_get (resolveAllCache g') (view_name (getContext a g) g) = Some (n, merged (getContext a g) g)" "n < next_view g'"
proof -
  let ?c = "view_name (getContext a g) g"
  have m: "merged ?c g = merged (getContext a g) g" by (rule view_name_merged)
  show ?thesis
  proof (cases "if ?c \<in> set (dirtyContexts g) then None else jm_get (resolveAllCache g) ?c")
    case (Some v)
    obtain n mm where v: "v = (n, mm)" by force
    have hit: "?c \<notin> set (dirtyContexts g)" "jm_get (resolveAllCache g) ?c = Some (n, mm)" using Some v by (auto split: if_splits)
    then have "mm = merged ?c g" "n < next_view g" using assms unfolding caches_ok_def by blast+
    moreover have "resolveAll a g = (Inr (n, mm), g)" using hit by (simp add: resolveAll_def Let_def)
    ultimately show ?thesis using that[of n g] hit m assms by simp
  next
    case None
    define rc where "rc = (if jm_get (resolveAllCache g) ?c = None then drop_oldest (jm_keys (resolveAllCache g)) (resolveAllCache g) else resolveAllCache g)"
    let ?m = "(next_view g, merged ?c g)"
    define g' where "g' = g\<lparr>resolveAllCache := jm_set ?c ?m rc, dirtyContexts := js_delete ?c (dirtyContexts g), next_view := Suc (next_view g)\<rparr>"
    have run: "resolveAll a g = (Inr ?m, g')" using None unfolding resolveAll_def Let_def g'_def rc_def by (simp only: option.case)
    have old: "jm_get rc c = Some x \<Longrightarrow> jm_get (resolveAllCache g) c = Some x" for c x
      by (auto simp: rc_def split: if_splits dest: drop_oldest_subset)
    have bound: "n < next_view g" if "jm_get (resolveAllCache g) c = Some (n, mm)" for c n mm
      using assms that unfolding caches_ok_def by blast
    have fresh: "mm = merged c g" if "jm_get (resolveAllCache g) c = Some (n, mm)" "c \<notin> set (dirtyContexts g)" for c n mm
      using assms that unfolding caches_ok_def by blast
    have one: "c = c'" if "jm_get (resolveAllCache g) c = Some (n, mm)" "jm_get (resolveAllCache g) c' = Some (n, mm')" for c c' n mm mm'
      using assms that unfolding caches_ok_def by blast
    have cache: "jm_get (resolveAllCache g') c = (if c = ?c then Some ?m else jm_get rc c)" for c
      by (simp add: g'_def jm_get_set)
    have "caches_ok T g'"
      unfolding caches_ok_def
    proof (intro conjI allI impI)
      show "jm_get (layers g') public_name \<noteq> None" using assms by (simp add: caches_ok_def g'_def)
    next
      fix c n mm assume c: "jm_get (resolveAllCache g') c = Some (n, mm)"
      have next_g': "next_view g' = Suc (next_view g)" by (simp add: g'_def)
      show "n < next_view g'" using c bound[OF old[of c "(n, mm)"]] unfolding cache next_g' by (auto split: if_splits)
      assume "c \<notin> set (dirtyContexts g')"
      then have "c \<notin> set (dirtyContexts g)" if "c \<noteq> ?c" using that by (simp add: g'_def)
      then have "mm = merged c g" using c fresh[OF old[of c "(n, mm)"]] unfolding cache by (auto split: if_splits)
      then show "mm = merged c g'" by (simp add: g'_def)
    next
      fix c c' n mm mm' assume "jm_get (resolveAllCache g') c = Some (n, mm)" "jm_get (resolveAllCache g') c' = Some (n, mm')"
      then show "c = c'" unfolding cache using one[OF old[of c "(n, mm)"] old[of c' "(n, mm')"]] bound[OF old[of c "(n, mm)"]] bound[OF old[of c' "(n, mm')"]]
        by (auto split: if_splits)
    next
      fix i n assume last: "lastResolvedMap (scanners g' i) = Some n"
      then have n: "n < next_view g" using assms by (simp add: caches_ok_def g'_def)
      then show "n < next_view g'" by (simp add: g'_def)
      fix c mm assume "jm_get (resolveAllCache g') c = Some (n, mm)"
      then have "jm_get (resolveAllCache g) c = Some (n, mm)" using n old by (auto simp: g'_def jm_get_set split: if_splits)
      then show "targetIndexMap (scanners g' i) = view_index T (prefix_of i g') mm"
        using assms last by (simp add: caches_ok_def g'_def prefix_of_def)
    qed
    then show ?thesis using that[of "next_view g" g'] run m by (simp add: g'_def jm_get_set)
  qed
qed

lemma index_fold_get:
  "jm_get (fold (index_value T) vs idx) c =
   (let ws = filter (\<lambda>v. T v = Some c) (concat (map (\<lambda>v. case v of Some v \<Rightarrow> [v] | None \<Rightarrow> []) vs)) in
    case jm_get idx c of Some us \<Rightarrow> Some (us @ ws) | None \<Rightarrow> if ws = [] then None else Some ws)"
  by (induction vs arbitrary: idx) (auto simp: index_value_def Let_def jm_get_set split: option.splits)

text \<open>The objects of a view under a prefix that belong to a class.\<close>
definition with_target :: "('v \<Rightarrow> 'c option) \<Rightarrow> string \<Rightarrow> 'c \<Rightarrow> 'v entries \<Rightarrow> 'v list" where
  "with_target T p c m = filter (\<lambda>v. T v = Some c) (concat (map (\<lambda>v. case v of Some v \<Rightarrow> [v] | None \<Rightarrow> []) (under_prefix p m)))"

lemma view_index_get: "(case jm_get (view_index T p m) c of Some vs \<Rightarrow> vs | None \<Rightarrow> []) = with_target T p c m"
  by (auto simp: view_index_def with_target_def index_fold_get Let_def split: option.split)

lemma by_target_spec:
  assumes "caches_ok T g"
  shows "fst (getByTarget T i a c g) = Inr (with_target T (prefix_of i g) c (merged (getContext a g) g)) \<and> caches_ok T (snd (getByTarget T i a c g))"
proof -
  let ?m = "merged (getContext a g) g"
  obtain n g' where r: "resolveAll a g = (Inr (n, ?m), g')" "caches_ok T g'" "layers g' = layers g"
    "scanners g' = scanners g" "jm_get (resolveAllCache g') (view_name (getContext a g) g) = Some (n, ?m)" "n < next_view g'"
    using resolve_spec[OF assms, of a] by metis
  have p: "prefix_of j g' = prefix_of j g" for j using r(4) by (simp add: prefix_of_def)
  show ?thesis
  proof (cases "lastResolvedMap (scanners g' i) = Some n")
    case True
    then have "targetIndexMap (scanners g' i) = view_index T (prefix_of i g) ?m"
      using r(2,5) p unfolding caches_ok_def by metis
    then show ?thesis using True r(1,2) by (simp add: getByTarget_def io_defs view_index_get)
  next
    case False
    have "caches_ok T (rebuild_index T i (n, ?m) g')"
      unfolding caches_ok_def
    proof (intro conjI allI impI)
      show "jm_get (layers (rebuild_index T i (n, ?m) g')) public_name \<noteq> None" using r(2) by (simp add: caches_ok_def rebuild_index_def)
    next
      fix c' k mm assume "jm_get (resolveAllCache (rebuild_index T i (n, ?m) g')) c' = Some (k, mm)"
      then have c': "jm_get (resolveAllCache g') c' = Some (k, mm)" by (simp add: rebuild_index_def)
      then show "k < next_view (rebuild_index T i (n, ?m) g')" using r(2) by (auto simp: caches_ok_def rebuild_index_def)
      assume "c' \<notin> set (dirtyContexts (rebuild_index T i (n, ?m) g'))"
      then show "mm = merged c' (rebuild_index T i (n, ?m) g')" using c' r(2) by (auto simp: caches_ok_def rebuild_index_def)
    next
      fix c1 c2 k m1 m2
      assume "jm_get (resolveAllCache (rebuild_index T i (n, ?m) g')) c1 = Some (k, m1)" "jm_get (resolveAllCache (rebuild_index T i (n, ?m) g')) c2 = Some (k, m2)"
      then show "c1 = c2" using r(2) unfolding caches_ok_def rebuild_index_def by simp
    next
      fix j k assume last: "lastResolvedMap (scanners (rebuild_index T i (n, ?m) g') j) = Some k"
      then show "k < next_view (rebuild_index T i (n, ?m) g')" using r(2,6) by (auto simp: caches_ok_def rebuild_index_def split: if_splits)
      fix c' mm assume "jm_get (resolveAllCache (rebuild_index T i (n, ?m) g')) c' = Some (k, mm)"
      then have c': "jm_get (resolveAllCache g') c' = Some (k, mm)" by (simp add: rebuild_index_def)
      show "targetIndexMap (scanners (rebuild_index T i (n, ?m) g') j) = view_index T (prefix_of j (rebuild_index T i (n, ?m) g')) mm"
      proof (cases "j = i")
        case True
        then have "k = n" using last by (simp add: rebuild_index_def)
        then have "mm = ?m" using r(2,5) c' unfolding caches_ok_def by (metis option.inject prod.inject)
        then show ?thesis using True by (simp add: rebuild_index_def view_index_def prefix_of_def)
      next
        case False
        then show ?thesis using r(2) last c' by (auto simp: caches_ok_def rebuild_index_def prefix_of_def)
      qed
    qed
    moreover have "(case jm_get (targetIndexMap (scanners (rebuild_index T i (n, ?m) g') i)) c of Some vs \<Rightarrow> vs | None \<Rightarrow> []) = with_target T (prefix_of i g) c ?m"
      by (simp add: rebuild_index_def p view_index_def flip: view_index_get)
    ultimately show ?thesis using False r(1) by (simp add: getByTarget_def io_defs)
  qed
qed

lemma all_metadata_spec:
  assumes "caches_ok T g"
  shows "fst (allMetadata i a g) = Inr (under_prefix (prefix_of i g) (merged (getContext a g) g)) \<and> caches_ok T (snd (allMetadata i a g))"
proof -
  obtain n g' where "resolveAll a g = (Inr (n, merged (getContext a g) g), g')" "caches_ok T g'"
    using resolve_spec[OF assms, of a] by metis
  then show ?thesis by (simp add: allMetadata_def io_defs)
qed

lemma snd_void: "snd (meta_void m g) = snd (m g)"
  by (simp add: meta_void_def io_defs split: prod.split sum.split)

lemma used_caches_ok: "used copy T g \<Longrightarrow> caches_ok T g"
proof (induction rule: used.induct)
  case (opened ps)
  then show ?case by (rule caches_ok_new)
next
  case (called g k a)
  have pub: "jm_get (layers g) public_name \<noteq> None" using called.IH by (simp add: caches_ok_def)
  show ?case
  proof (cases k)
    case (Copy_Layer s t)
    then have "t \<noteq> public_name" using called.hyps(2) by blast
    then show ?thesis using Copy_Layer copy_safe[OF pub] caches_ok_write[OF called.IH] by simp
  qed (simp_all add: snd_void caches_ok_write[OF called.IH set_safe[OF pub]] caches_ok_write[OF called.IH public_set_safe[OF pub]]
      caches_ok_write[OF called.IH clear_safe[OF pub]] caches_ok_write[OF called.IH set_context_safe[OF pub]]
      caches_ok_write[OF called.IH add_layer_safe[OF pub]] remove_ok[OF called.IH] by_target_spec[OF called.IH] all_metadata_spec[OF called.IH])
qed

text \<open>C13: Whatever the calls, a scanner's two caches do not show: what it lists is the shared layer with the current tenant's layer
  over it, merged anew, and what it finds by class is what a search of that list would find, in the same order. (A
  layer is not copied over the shared one.)\<close>
theorem caches_transparent:
  assumes "used copy T g"
  shows "fst (allMetadata i a g) = Inr (under_prefix (prefix_of i g) (merged (getContext a g) g)) \<and>
    fst (getByTarget T i a c g) = Inr (with_target T (prefix_of i g) c (merged (getContext a g) g))"
  using all_metadata_spec[OF used_caches_ok[OF assms]] by_target_spec[OF used_caches_ok[OF assms]] by blast


subsection \<open>Tenants apart\<close>

lemma fold_set_get: "jm_get (fold (\<lambda>(k, v). jm_set k v) m acc) k = (case jm_get (rev m) k of Some v \<Rightarrow> Some v | None \<Rightarrow> jm_get acc k)"
  by (induction m arbitrary: acc) (auto simp: jm_get_set map_add_def split: option.splits)

text \<open>The merge is an overlay: the tenant's value where it has one, the shared one elsewhere.\<close>
lemma merged_is_overlay:
  assumes "jm_get (layers g) c = Some l" "jm_wf (metadata l)" "jm_get (layers g) public_name = Some p" "jm_wf (metadata p)" "c \<noteq> public_name"
  shows "jm_get (merged c g) k = (case jm_get (metadata l) k of Some v \<Rightarrow> Some v | None \<Rightarrow> jm_get (metadata p) k)"
proof -
  have rev: "jm_get (rev m) = jm_get m" if "jm_wf m" for m :: "'a entries"
    using that by (simp add: jm_wf_def map_of_inject_set flip: rev_map)
  show ?thesis using assms by (simp add: merged_unfold add_entries_def fold_set_get rev split: option.split)
qed


text \<open>What code running for a tenant does through the scanners.\<close>
fun scanner_call :: "('v, 'c) meta_call \<Rightarrow> bool" where
  "scanner_call (Set_Meta i k v) = True"
| "scanner_call (Clear_Meta i) = True"
| "scanner_call (All_Metadata i) = True"
| "scanner_call (By_Target i c) = True"
| "scanner_call _ = False"

lemma layers_mark_context_dirty [simp]: "layers (mark_context_dirty c g) = layers g"
  by (simp add: mark_context_dirty_def)

lemma other_layer_write:
  "c \<noteq> t \<Longrightarrow> jm_get (layers (snd (io_then (write_layer c f) (\<lambda>g. (Inr (), mark_context_dirty c g)) g))) t = jm_get (layers g) t"
  by (auto simp: write_layer_def io_defs jm_get_set split: option.split prod.split sum.split)

lemma other_layer_current: "getContext a g \<noteq> t \<Longrightarrow> jm_get (layers (snd (getCurrentLayer a g))) t = jm_get (layers g) t"
  by (auto simp: getCurrentLayer_def Let_def jm_get_set split: option.split)

lemma current_layer_returns: "\<exists>l. getCurrentLayer a g = (Inr l, snd (getCurrentLayer a g))"
  by (simp add: getCurrentLayer_def Let_def split: option.split)

lemma layers_resolveAll: "layers (snd (resolveAll a g)) = layers g"
  by (simp add: resolveAll_def Let_def split: option.split)

lemma other_layer_kept:
  assumes "scanner_call k" "getContext a g \<noteq> t"
  shows "jm_get (layers (snd (run_meta copy T a k g))) t = jm_get (layers g) t"
proof -
  obtain l where cur: "getCurrentLayer a g = (Inr l, snd (getCurrentLayer a g))" using current_layer_returns by metis
  note through = other_layer_write[OF assms(2)] other_layer_current[OF assms(2)]
  show ?thesis
  proof (cases k)
    case (Set_Meta i key v)
    then show ?thesis
      by (simp add: scanner_set_def Let_def io_then_Inr[where m = "getCurrentLayer a" and w = g, OF cur] through)
  next
    case (Clear_Meta i)
    then show ?thesis
      by (simp add: scanner_clear_def Let_def io_bind_Inr[where m = "getCurrentLayer a" and w = g, OF cur] through io_return_apply)
  next
    case (All_Metadata i)
    then show ?thesis using layers_resolveAll[of a g] by (cases "resolveAll a g") (auto simp: snd_void allMetadata_def io_defs split: sum.split)
  next
    case (By_Target i c)
    then show ?thesis using layers_resolveAll[of a g]
      by (cases "resolveAll a g") (auto simp: snd_void getByTarget_def io_defs rebuild_index_def split: sum.split)
  qed (use assms(1) in simp_all)
qed


subsection \<open>Runs\<close>

text \<open>Values are numbers, the class of a value its last digit; scanner 0 has the prefix \<^verbatim>\<open>columns\<close>.\<close>
definition demo_registry :: "(nat, nat) registry" where
  "demo_registry = new_registry (\<lambda>i. if i = 0 then ''columns'' else [])"

definition acting_for :: "string \<Rightarrow> ambient" where
  "acting_for t = Some \<lparr>tenantId = t, unscoped_flag = False\<rparr>"

definition last_digit :: "nat \<Rightarrow> nat option" where
  "last_digit v = Some (v mod 10)"

abbreviation demo_call :: "ambient \<Rightarrow> (nat, nat) meta_call \<Rightarrow> (nat, nat) registry \<Rightarrow> (nat, nat) registry" where
  "demo_call a k g \<equiv> snd (run_meta id last_digit a k g)"

definition demo_filled :: "(nat, nat) registry" where
  "demo_filled = demo_call (acting_for ''acme'') (Set_Meta 0 ''id'' (Some 31)) (demo_call (acting_for ''acme'') (All_Metadata 0)
     (demo_call None (Set_On_Public 0 ''name'' (Some 21)) (demo_call None (Set_On_Public 0 ''id'' (Some 11)) demo_registry)))"

lemma demo_filled_used: "used id last_digit demo_filled"
  unfolding demo_filled_def demo_registry_def by (intro used.intros) simp_all

theorem caches_transparent_witness:
  "fst (getByTarget last_digit 0 (acting_for ''acme'') 1 demo_filled) = Inr [31, 21] \<and>
   fst (getByTarget last_digit 0 (acting_for ''zeta'') 1 demo_filled) = Inr [11, 21]"
proof -
  have "with_target last_digit (prefix_of 0 demo_filled) 1 (merged (getContext (acting_for ''acme'') demo_filled) demo_filled) = [31, 21]"
    "with_target last_digit (prefix_of 0 demo_filled) 1 (merged (getContext (acting_for ''zeta'') demo_filled) demo_filled) = [11, 21]" by code_simp+
  then show ?thesis using caches_transparent[OF demo_filled_used] by simp
qed


text \<open>A layer that is read-only keeps its entries against \<^verbatim>\<open>set\<close>, but a scanner with a prefix clears them.\<close>
lemma read_only_layer_cleared:
  "(let g = demo_registry\<lparr>layers := [(public_name, \<lparr>layer_name = public_name, read_only = True, metadata = [(''columns::id'', Some 11)]\<rparr>)]\<rparr> in
     fst (scanner_set 0 None ''id'' (Some 1) g) = Inl (Read_Only_Layer public_name) \<and>
     fst (scanner_clear 0 None g) = Inr () \<and> merged public_name (snd (scanner_clear 0 None g)) = [])"
  by code_simp

text \<open>A layer copied over the shared one is not seen by a tenant whose view is in the cache.\<close>
lemma copy_over_public_unseen:
  "(let g = demo_call (acting_for ''acme'') (All_Metadata 0) demo_filled; g' = demo_call None (Copy_Layer ''zeta'' ''public'') (demo_call None (Set_Context ''zeta'') g) in
     fst (allMetadata 0 (acting_for ''acme'') g') = Inr [Some 31, Some 21] \<and> merged ''acme'' g' = [(''columns::id'', Some 31)])"
  by code_simp

end
