(* ===== verification/EntityModel.thy ===== *)
theory EntityModel
  imports WhereResolver
begin

section \<open>Entity classes (src/core/InheritanceResolver.ts, PropertyColumnMap.ts, RelationMetadataResolver.ts)\<close>

text \<open>
  What the metadata says of entity classes: columns, inheritance hierarchies, foreign keys, and the maps from properties
  to columns that writes and queries read. \<open>'c\<close> are the classes; \<open>H e\<close> is the entity metadata of class \<open>e\<close>, if it is
  decorated.
\<close>

subsection \<open>Columns\<close>

record entity_column =
  db_name :: string
  prop_name :: "string option"
  primary_col :: bool
  auto_increment :: bool
  gen_strategy :: "string option"

definition propKey :: "entity_column \<Rightarrow> string" where
  "propKey c = (case prop_name c of Some p \<Rightarrow> p | None \<Rightarrow> db_name c)"

text \<open>The fields of a payload: a key that is not there reads as \<^verbatim>\<open>undefined\<close>.\<close>
definition item_get :: "(string \<times> 'v jsv) list \<Rightarrow> string \<Rightarrow> 'v jsv" where
  "item_get fs k = (case map_of fs k of Some v \<Rightarrow> v | None \<Rightarrow> Undef)"

lemma item_get_set [js_simps, simp]: "item_get (jm_set k v fs) k' = (if k' = k then v else item_get fs k')"
  by (simp add: item_get_def update_conv')

text \<open>\<^verbatim>\<open>v === undefined || v === null\<close>\<close>
definition missing_value :: "'v jsv \<Rightarrow> bool" where
  "missing_value v \<longleftrightarrow> v = Undef \<or> v = Null"

subsection \<open>Hierarchies\<close>

datatype inheritance_strategy = SINGLE_TABLE | JOINED | TABLE_PER_CLASS

record 'c entity_meta =
  declared_columns :: "entity_column list"
  entity_schema :: "string option"
  inh_strategy :: "inheritance_strategy option"
  inh_root :: "'c option"
  child_entities :: "'c list option"
  disc_column :: "string option"
  disc_value :: "string option"

type_synonym 'c hierarchy = "'c \<Rightarrow> 'c entity_meta option"

definition getStrategy :: "'c hierarchy \<Rightarrow> 'c \<Rightarrow> inheritance_strategy option" where
  "getStrategy H e = Option.bind (H e) inh_strategy"

definition getRoot :: "'c hierarchy \<Rightarrow> 'c \<Rightarrow> 'c option" where
  "getRoot H e = (case H e of None \<Rightarrow> None
   | Some m \<Rightarrow> if inh_strategy m = None then None else Some (case inh_root m of Some r \<Rightarrow> r | None \<Rightarrow> e))"

definition getConcreteEntities :: "'c hierarchy \<Rightarrow> 'c \<Rightarrow> 'c list" where
  "getConcreteEntities H r = (case Option.bind (H r) child_entities of None \<Rightarrow> [r] | Some cs \<Rightarrow> r # cs)"

definition getDiscriminatorColumn :: "'c hierarchy \<Rightarrow> 'c \<Rightarrow> string option" where
  "getDiscriminatorColumn H e = (case getRoot H e of None \<Rightarrow> None | Some r \<Rightarrow> Option.bind (H r) disc_column)"

definition getDiscriminatorValue :: "'c hierarchy \<Rightarrow> 'c \<Rightarrow> string option" where
  "getDiscriminatorValue H e = Option.bind (H e) disc_value"

text \<open>An empty value is falsy.\<close>
definition stated_text :: "string option \<Rightarrow> string option" where
  "stated_text s = (case s of Some t \<Rightarrow> if t = [] then None else Some t | None \<Rightarrow> None)"

definition buildDiscriminatorMap :: "'c hierarchy \<Rightarrow> 'c \<Rightarrow> (string \<times> 'c) list" where
  "buildDiscriminatorMap H r = fold (\<lambda>e m. case stated_text (getDiscriminatorValue H e) of
     Some v \<Rightarrow> jm_set v e m | None \<Rightarrow> m) (getConcreteEntities H r) []"

definition getOwnColumns :: "'c hierarchy \<Rightarrow> 'c \<Rightarrow> entity_column list" where
  "getOwnColumns H e = (case H e of None \<Rightarrow> []
   | Some m \<Rightarrow> (case getRoot H e of
       None \<Rightarrow> declared_columns m
     | Some r \<Rightarrow> if r = e then declared_columns m
         else (case H r of None \<Rightarrow> declared_columns m
           | Some rm \<Rightarrow> filter (\<lambda>c. propKey c \<notin> propKey ` set (declared_columns rm)) (declared_columns m))))"

definition isChildEntity :: "'c hierarchy \<Rightarrow> 'c \<Rightarrow> bool" where
  "isChildEntity H e \<longleftrightarrow> Option.bind (H e) inh_root \<noteq> None"

definition getSingleTableChildDiscriminator :: "'c hierarchy \<Rightarrow> 'c \<Rightarrow> (string \<times> string) option" where
  "getSingleTableChildDiscriminator H e = (if getStrategy H e \<noteq> Some SINGLE_TABLE then None
     else if \<not> isChildEntity H e then None
     else (case (getDiscriminatorColumn H e, stated_text (getDiscriminatorValue H e)) of
         (Some c, Some v) \<Rightarrow> Some (c, v)
       | _ \<Rightarrow> None))"

definition isRootEntity :: "'c hierarchy \<Rightarrow> 'c \<Rightarrow> bool" where
  "isRootEntity H e \<longleftrightarrow> (case H e of None \<Rightarrow> False
     | Some m \<Rightarrow> inh_strategy m \<noteq> None \<and> inh_root m = None \<and> child_entities m \<noteq> None)"

definition isPolymorphicQuery :: "'c hierarchy \<Rightarrow> 'c \<Rightarrow> bool" where
  "isPolymorphicQuery H e \<longleftrightarrow> isRootEntity H e \<and> length (getConcreteEntities H e) > 1"

text \<open>Names are never empty.\<close>
definition getAllHierarchyColumns :: "'c hierarchy \<Rightarrow> 'c \<Rightarrow> entity_column list" where
  "getAllHierarchyColumns H r = map snd (fold (\<lambda>e cols. case H e of None \<Rightarrow> cols
     | Some m \<Rightarrow> fold (\<lambda>c cols. if db_name c \<in> set (jm_keys cols) then cols else jm_set (db_name c) c cols)
         (declared_columns m) cols)
     (getConcreteEntities H r) [])"

subsection \<open>Foreign keys and the map from properties to columns\<close>

text \<open>A \<^verbatim>\<open>@ManyToOne\<close> or \<^verbatim>\<open>@OneToOne\<close>; the inverse side of a \<^verbatim>\<open>@OneToOne\<close> has no join column.\<close>
record 'c to_one =
  relation_prop :: string
  join_column :: "string option"
  related_entity :: 'c
  fk_property :: "string option"

record 'c fk_relation =
  rel_prop :: string
  fk_column :: string
  fk_entity :: 'c
  fk_shadow :: "string option"

definition resolveForeignKeyRelations :: "'c to_one list \<Rightarrow> 'c to_one list \<Rightarrow> 'c fk_relation list" where
  "resolveForeignKeyRelations manyToOnes oneToOnes = concat (map (\<lambda>r. case stated_text (join_column r) of
       None \<Rightarrow> []
     | Some j \<Rightarrow> [\<lparr>rel_prop = relation_prop r, fk_column = j, fk_entity = related_entity r, fk_shadow = fk_property r\<rparr>])
     (manyToOnes @ oneToOnes))"

definition collectFkPropertyMappings :: "'c to_one list \<Rightarrow> 'c to_one list \<Rightarrow> (string \<times> string) list" where
  "collectFkPropertyMappings manyToOnes oneToOnes = fold (\<lambda>r m. case stated_text (join_column r) of
       None \<Rightarrow> m
     | Some j \<Rightarrow> (let m = jm_set (relation_prop r @ ''Id'') j m in
         case stated_text (fk_property r) of Some p \<Rightarrow> jm_set p j m | None \<Rightarrow> m))
     (manyToOnes @ oneToOnes) []"

definition buildPropertyToColumnMap :: "entity_column list \<Rightarrow> (string \<times> string) list \<Rightarrow> (string \<times> string) list" where
  "buildPropertyToColumnMap cols fks = fold (\<lambda>(p, c) m. if p \<in> set (jm_keys m) then m else jm_set p c m) fks
     (fold (\<lambda>c m. jm_set (propKey c) (db_name c) m) cols [])"

text \<open>A child's own columns and its root's share no property.\<close>
lemma own_columns_disjoint:
  assumes "getRoot H e = Some r" "r \<noteq> e" "H r = Some rm" "c \<in> set (getOwnColumns H e)"
  shows "propKey c \<notin> propKey ` set (declared_columns rm)"
  using assms by (auto simp: getOwnColumns_def split: option.splits)

end
