(* ===== verification/TenantScope.thy ===== *)
theory TenantScope
  imports EntityModel MetadataLayers
begin

section \<open>Tenant scopes (src/core/entity-manager/TenantScopeManager.ts, src/core/TenantQueryStrategy.ts)\<close>

text \<open>
  How the ORM keeps the rows of tenants apart under each strategy: the name of a table, the predicate added to a
  statement, the tenant column written by an INSERT, and the checks of an UPDATE. The context of the running code is an
  argument \<open>a\<close>; what the rest of the entity manager answers is the record \<open>scope_ctx\<close>. Texts of messages are left out.
\<close>

subsection \<open>Strategies (TenantQueryStrategy.ts)\<close>

datatype tenant_strategy = Search_Path | Schema_Qualified | Tenant_Column string | Database_Per_Tenant

fun needsTransactionForTenantRead :: "tenant_strategy \<Rightarrow> bool" where
  "needsTransactionForTenantRead Search_Path = True"
| "needsTransactionForTenantRead Schema_Qualified = False"
| "needsTransactionForTenantRead (Tenant_Column c) = False"
| "needsTransactionForTenantRead Database_Per_Tenant = False"

definition qualifyPinned :: "string \<Rightarrow> string \<Rightarrow> (string \<Rightarrow> string) \<Rightarrow> string" where
  "qualifyPinned t pinned q = q pinned @ ''.'' @ q t"

fun qualifyTable :: "tenant_strategy \<Rightarrow> string \<Rightarrow> string \<Rightarrow> (string \<Rightarrow> string) \<Rightarrow> string option \<Rightarrow> string" where
  "qualifyTable Schema_Qualified t tenant q pinned = (case stated_text pinned of
     Some p \<Rightarrow> qualifyPinned t p q
   | None \<Rightarrow> if tenant \<noteq> public_name then q tenant @ ''.'' @ q t else q t)"
| "qualifyTable s t tenant q pinned = (case stated_text pinned of Some p \<Rightarrow> qualifyPinned t p q | None \<Rightarrow> q t)"

text \<open>The text of the predicate and its parameter.\<close>
fun buildTenantPredicate :: "tenant_strategy \<Rightarrow> ambient \<Rightarrow> string option \<Rightarrow> (string \<Rightarrow> string) \<Rightarrow> (string \<times> string) option" where
  "buildTenantPredicate (Tenant_Column c) a alias q =
     (if isUnscoped a then None
      else if getCurrentTenant a = public_name then None
      else Some ((case stated_text alias of Some al \<Rightarrow> q al @ ''.'' @ q c | None \<Rightarrow> q c) @ '' = ?'', getCurrentTenant a))"
| "buildTenantPredicate s a alias q = None"

fun getTenantColumnName :: "tenant_strategy \<Rightarrow> string option" where
  "getTenantColumnName (Tenant_Column c) = Some c"
| "getTenantColumnName s = None"

subsection \<open>State\<close>

datatype tenant_type = Type_Varchar | Type_Uuid | Type_Int | Type_Bigint

record tenant_config =
  config_name :: string
  config_type :: tenant_type
  config_length :: "nat option"

datatype missing_policy = Throw_Missing | Warn_Missing | Allow_Missing

record tenant_options =
  tenantStrategy :: "string option"
  tenantColumnName :: "string option"
  tenantColumnType :: "tenant_type option"
  tenantColumnLength :: "nat option"
  tenantOnMissingContext :: "missing_policy option"

datatype 'c scope_warning = Missing_Context 'c | Upsert_Suppressed 'c | Raw_Query string | No_Tenant_Context

record 'c tenant_scope =
  tenant_strategy_of :: tenant_strategy
  columnConfig :: "tenant_config option"
  onMissingContext :: missing_policy
  rawQueryWarnedCallSites :: "string list"
  missingContextWarnedEntities :: "'c list"
  upsertSuppressedWarnedEntities :: "'c list"
  pinnedSchemas :: "(string \<times> string) list"
  scope_log :: "'c scope_warning list"

definition new_scope :: "'c tenant_scope" where
  "new_scope = \<lparr>tenant_strategy_of = Search_Path, columnConfig = None, onMissingContext = Warn_Missing, rawQueryWarnedCallSites = [],
     missingContextWarnedEntities = [], upsertSuppressedWarnedEntities = [], pinnedSchemas = [], scope_log = []\<rparr>"

text \<open>What the manager asks: the dialect, the quoting of names, the default schema, the metadata of classes.\<close>
record 'c scope_ctx =
  scope_postgres :: bool
  quote_name :: "string \<Rightarrow> string"
  default_schema :: "string option"
  hierarchy_of :: "'c hierarchy"
  resolved_meta :: "'c \<Rightarrow> (string \<times> entity_column list) option"
  non_tenant :: "'c \<Rightarrow> bool"
  declared_tenant :: "'c \<Rightarrow> (string \<times> string option) option"

type_synonym ('c, 'a) scope_io = "('c tenant_scope, OrmErrorCode, 'a) io"

definition or_else :: "'a option \<Rightarrow> 'a \<Rightarrow> 'a" where
  "or_else x d = (case x of Some v \<Rightarrow> v | None \<Rightarrow> d)"

definition configure :: "tenant_options \<Rightarrow> 'c tenant_scope \<Rightarrow> 'c tenant_scope" where
  "configure op s =
     (if tenantStrategy op = Some ''schema_qualified'' then s\<lparr>tenant_strategy_of := Schema_Qualified\<rparr>
      else if tenantStrategy op = Some ''tenant_column'' then
        s\<lparr>tenant_strategy_of := Tenant_Column (or_else (tenantColumnName op) ''tenant_id''),
          columnConfig := Some \<lparr>config_name = or_else (tenantColumnName op) ''tenant_id'',
            config_type = or_else (tenantColumnType op) Type_Varchar,
            config_length = (if tenantColumnType op = None \<or> tenantColumnType op = Some Type_Varchar
              then Some (or_else (tenantColumnLength op) 64) else None)\<rparr>,
          onMissingContext := or_else (tenantOnMissingContext op) Warn_Missing\<rparr>
      else if tenantStrategy op = Some ''database'' then s\<lparr>tenant_strategy_of := Database_Per_Tenant\<rparr>
      else s)"

definition reset_scope :: "'c tenant_scope \<Rightarrow> 'c tenant_scope" where
  "reset_scope s = s\<lparr>rawQueryWarnedCallSites := [], missingContextWarnedEntities := [],
     upsertSuppressedWarnedEntities := [], pinnedSchemas := []\<rparr>"

subsection \<open>Names of tables\<close>

definition wrapTable :: "'c scope_ctx \<Rightarrow> ambient \<Rightarrow> 'c tenant_scope \<Rightarrow> string \<Rightarrow> string" where
  "wrapTable X a s t = qualifyTable (tenant_strategy_of s) t (if scope_postgres X then getCurrentTenant a else public_name)
     (quote_name X) (if scope_postgres X then jm_get (pinnedSchemas s) t else None)"

definition isSchemaScopedStrategy :: "'c tenant_scope \<Rightarrow> bool" where
  "isSchemaScopedStrategy s \<longleftrightarrow> tenant_strategy_of s = Search_Path \<or> tenant_strategy_of s = Schema_Qualified"

definition resolveEntitySchema :: "'c scope_ctx \<Rightarrow> 'c tenant_scope \<Rightarrow> 'c \<Rightarrow> string option" where
  "resolveEntitySchema X s e = (if \<not> scope_postgres X then None
     else (case stated_text (Option.bind (hierarchy_of X e) entity_schema) of
         Some sch \<Rightarrow> Some sch
       | None \<Rightarrow> if non_tenant X e \<and> isSchemaScopedStrategy s then Some (or_else (default_schema X) public_name) else None))"

definition pinTableSchema :: "string \<Rightarrow> string \<Rightarrow> 'c tenant_scope \<Rightarrow> 'c tenant_scope" where
  "pinTableSchema t sch s = s\<lparr>pinnedSchemas := jm_set t sch (pinnedSchemas s)\<rparr>"

definition getPinnedSchema :: "'c tenant_scope \<Rightarrow> string \<Rightarrow> string option" where
  "getPinnedSchema s t = jm_get (pinnedSchemas s) t"

subsection \<open>The predicate\<close>

definition isTenantScopedEntity :: "'c scope_ctx \<Rightarrow> 'c tenant_scope \<Rightarrow> 'c \<Rightarrow> bool" where
  "isTenantScopedEntity X s e \<longleftrightarrow> columnConfig s \<noteq> None \<and> \<not> non_tenant X e"

definition resolveColumnNameForProperty :: "'c scope_ctx \<Rightarrow> 'c \<Rightarrow> string \<Rightarrow> string" where
  "resolveColumnNameForProperty X e p = (case find (\<lambda>c. propKey c = p) (case resolved_meta X e of Some m \<Rightarrow> snd m | None \<Rightarrow> []) of
     Some c \<Rightarrow> db_name c | None \<Rightarrow> p)"

text \<open>The property that carries the tenant, by the declaration or the configuration.\<close>
definition tenant_prop :: "'c scope_ctx \<Rightarrow> tenant_config \<Rightarrow> 'c \<Rightarrow> string" where
  "tenant_prop X c e = (case declared_tenant X e of Some d \<Rightarrow> fst d | None \<Rightarrow> config_name c)"

definition resolveTenantColumnName :: "'c scope_ctx \<Rightarrow> tenant_config \<Rightarrow> 'c \<Rightarrow> string" where
  "resolveTenantColumnName X c e = (case stated_text (Option.bind (declared_tenant X e) snd) of
     Some n \<Rightarrow> n
   | None \<Rightarrow> resolveColumnNameForProperty X e (tenant_prop X c e))"

definition buildJoinedChildPredicate ::
  "'c scope_ctx \<Rightarrow> ambient \<Rightarrow> 'c tenant_scope \<Rightarrow> 'c \<Rightarrow> string \<Rightarrow> string \<Rightarrow> string option \<Rightarrow> 'v where_cond option" where
  "buildJoinedChildPredicate X a s e col tenant alias =
     (if \<not> isChildEntity (hierarchy_of X) e \<or> getStrategy (hierarchy_of X) e \<noteq> Some JOINED then None
      else (case (Option.bind (getRoot (hierarchy_of X) e) (resolved_meta X), Option.bind (resolved_meta X e) (\<lambda>m. find primary_col (snd m))) of
          (Some rm, Some pk) \<Rightarrow> (let pkn = quote_name X (db_name pk) in
             Some (Splice [Sql_Text (case stated_text alias of Some al \<Rightarrow> quote_name X al @ ''.'' @ pkn | None \<Rightarrow> pkn),
               Sql_Text '' IN (SELECT '', Sql_Text pkn, Sql_Text '' FROM '', Sql_Text (wrapTable X a s (fst rm)), Sql_Text '' WHERE '',
               Sql_Text (quote_name X col), Sql_Text '' = '', Sql_Bind (Str tenant), Sql_Text '')'']))
        | _ \<Rightarrow> None))"

definition enforceMissingContextPolicy :: "'c \<Rightarrow> ('c, unit) scope_io" where
  "enforceMissingContextPolicy e = (\<lambda>s. case onMissingContext s of
     Allow_Missing \<Rightarrow> (Inr (), s)
   | Throw_Missing \<Rightarrow> (Inl MISSING_TENANT_CONTEXT, s)
   | Warn_Missing \<Rightarrow> if e \<in> set (missingContextWarnedEntities s) then (Inr (), s)
       else (Inr (), s\<lparr>missingContextWarnedEntities := js_add e (missingContextWarnedEntities s), scope_log := scope_log s @ [Missing_Context e]\<rparr>))"

datatype table_target = Auto_Table | Root_Table

definition tenant_equals :: "'c scope_ctx \<Rightarrow> string option \<Rightarrow> string \<Rightarrow> string \<Rightarrow> 'v where_cond" where
  "tenant_equals X alias col tenant =
     Equals (case stated_text alias of Some al \<Rightarrow> quote_name X al @ ''.'' @ quote_name X col | None \<Rightarrow> quote_name X col) (Str tenant)"

definition buildTenantWhereClause ::
  "'c scope_ctx \<Rightarrow> ambient \<Rightarrow> 'c \<Rightarrow> string option \<Rightarrow> table_target \<Rightarrow> ('c, 'v where_cond option) scope_io" where
  "buildTenantWhereClause X a e alias target = (\<lambda>s. case columnConfig s of
     None \<Rightarrow> (Inr None, s)
   | Some c \<Rightarrow>
       if non_tenant X e then (Inr None, s)
       else if isUnscoped a then (Inr None, s)
       else if getCurrentTenant a = public_name then
         io_then (if \<not> isActive a then enforceMissingContextPolicy e else io_return ()) (io_return None) s
       else (let tenant = getCurrentTenant a; col = resolveTenantColumnName X c e in
         (case (if target = Auto_Table then buildJoinedChildPredicate X a s e col tenant alias else None) of
            Some p \<Rightarrow> (Inr (Some p), s)
          | None \<Rightarrow> (Inr (Some (tenant_equals X alias col tenant)), s))))"

subsection \<open>Writes\<close>

definition supplied_tenant :: "(string \<times> 'v jsv) list \<Rightarrow> string \<Rightarrow> string \<Rightarrow> 'v jsv" where
  "supplied_tenant item p col = (if item_get item p \<noteq> Undef then item_get item p else item_get item col)"

definition foreign_value :: "string \<Rightarrow> 'v jsv \<Rightarrow> bool" where
  "foreign_value tenant v \<longleftrightarrow> v \<noteq> Undef \<and> v \<noteq> Null \<and> v \<noteq> Str tenant"

definition applyTenantColumnOnInsert ::
  "'c scope_ctx \<Rightarrow> ambient \<Rightarrow> 'c tenant_scope \<Rightarrow> 'c \<Rightarrow> (string \<times> 'v jsv) list \<Rightarrow> OrmErrorCode + (string \<times> 'v jsv) list" where
  "applyTenantColumnOnInsert X a s e item = (case columnConfig s of
     None \<Rightarrow> Inr item
   | Some c \<Rightarrow>
       if non_tenant X e then Inr item
       else (let tenant = getCurrentTenant a in
         if tenant = public_name then Inl MISSING_TENANT_CONTEXT
         else (let p = tenant_prop X c e;
                   col = (case Option.bind (declared_tenant X e) snd of Some n \<Rightarrow> n | None \<Rightarrow> config_name c) in
           if foreign_value tenant (supplied_tenant item p col) then Inl TENANT_MISMATCH
           else (let item = jm_set p (Str tenant) item in
             Inr (if p \<noteq> col then jm_set col (Str tenant) item else item)))))"

definition assertTenantColumnOnUpdate ::
  "'c scope_ctx \<Rightarrow> ambient \<Rightarrow> 'c tenant_scope \<Rightarrow> 'c \<Rightarrow> (string \<times> 'v jsv) list \<Rightarrow> OrmErrorCode + unit" where
  "assertTenantColumnOnUpdate X a s e item = (case columnConfig s of
     None \<Rightarrow> Inr ()
   | Some c \<Rightarrow>
       if non_tenant X e then Inr ()
       else if isUnscoped a then Inr ()
       else if getCurrentTenant a = public_name then Inr ()
       else if foreign_value (getCurrentTenant a) (supplied_tenant item (tenant_prop X c e) (resolveTenantColumnName X c e))
         then Inl TENANT_MISMATCH else Inr ())"

definition assertTenantColumnNotInSetColumns ::
  "'c scope_ctx \<Rightarrow> ambient \<Rightarrow> 'c tenant_scope \<Rightarrow> 'c \<Rightarrow> string list \<Rightarrow> OrmErrorCode + unit" where
  "assertTenantColumnNotInSetColumns X a s e cols =
     (if cols = [] then Inr ()
      else (case columnConfig s of
          None \<Rightarrow> Inr ()
        | Some c \<Rightarrow>
            if non_tenant X e then Inr ()
            else if isUnscoped a then Inr ()
            else if getCurrentTenant a = public_name then Inr ()
            else if resolveTenantColumnName X c e \<notin> set cols then Inr ()
            else Inl TENANT_MISMATCH))"

subsection \<open>Warnings\<close>

definition warnTenantUpsertSuppressed :: "'c \<Rightarrow> 'c tenant_scope \<Rightarrow> 'c tenant_scope" where
  "warnTenantUpsertSuppressed e s = (if e \<in> set (upsertSuppressedWarnedEntities s) then s
     else s\<lparr>upsertSuppressedWarnedEntities := js_add e (upsertSuppressedWarnedEntities s), scope_log := scope_log s @ [Upsert_Suppressed e]\<rparr>)"

text \<open>The call site is the first frame of the stack outside the ORM and Node (\<^verbatim>\<open>rawQueryCallSite\<close>).\<close>
definition rawQueryCallSite :: "(string \<Rightarrow> bool) \<Rightarrow> string list \<Rightarrow> string" where
  "rawQueryCallSite inside frames = (case find (\<lambda>f. \<not> inside f) frames of Some f \<Rightarrow> f
     | None \<Rightarrow> (case frames of f # _ \<Rightarrow> f | [] \<Rightarrow> ''(unknown)''))"

definition warnIfRawQueryBypassesTenant :: "ambient \<Rightarrow> bool \<Rightarrow> string \<Rightarrow> 'c tenant_scope \<Rightarrow> 'c tenant_scope" where
  "warnIfRawQueryBypassesTenant a internal site s =
     (if columnConfig s = None then s
      else if internal then s
      else if \<not> isActive a then s
      else if isUnscoped a then s
      else if getCurrentTenant a = public_name then s
      else if site \<in> set (rawQueryWarnedCallSites s) then s
      else s\<lparr>rawQueryWarnedCallSites := js_add site (rawQueryWarnedCallSites s), scope_log := scope_log s @ [Raw_Query site]\<rparr>)"

definition assertTenantContext :: "ambient \<Rightarrow> 'c tenant_scope \<Rightarrow> bool \<times> 'c tenant_scope" where
  "assertTenantContext a s = (if isActive a then (True, s) else (False, s\<lparr>scope_log := scope_log s @ [No_Tenant_Context]\<rparr>))"

subsection \<open>What the scope guarantees\<close>

text \<open>A predicate applies: the strategy is on, the class is scoped, a tenant other than the shared one is active.\<close>
definition guarded_by :: "'c scope_ctx \<Rightarrow> ambient \<Rightarrow> 'c tenant_scope \<Rightarrow> 'c \<Rightarrow> tenant_config \<Rightarrow> bool" where
  "guarded_by X a s e c \<longleftrightarrow> columnConfig s = Some c \<and> \<not> non_tenant X e \<and> \<not> isUnscoped a \<and> getCurrentTenant a \<noteq> public_name"

lemma where_guarded:
  assumes "guarded_by X a s e c"
  shows "buildTenantWhereClause X a e alias Root_Table s =
    (Inr (Some (tenant_equals X alias (resolveTenantColumnName X c e) (getCurrentTenant a))), s)"
  using assms by (simp add: guarded_by_def buildTenantWhereClause_def)

text \<open>A class whose rows lie in one table.\<close>
definition single_table_rows :: "'c scope_ctx \<Rightarrow> 'c \<Rightarrow> bool" where
  "single_table_rows X e \<longleftrightarrow> \<not> isChildEntity (hierarchy_of X) e \<or> getStrategy (hierarchy_of X) e \<noteq> Some JOINED"

lemma where_guarded_auto:
  assumes "guarded_by X a s e c" "single_table_rows X e"
  shows "buildTenantWhereClause X a e alias target s =
    (Inr (Some (tenant_equals X alias (resolveTenantColumnName X c e) (getCurrentTenant a))), s)"
  using assms by (auto simp: guarded_by_def buildTenantWhereClause_def buildJoinedChildPredicate_def single_table_rows_def Let_def)

lemma where_unguarded:
  assumes "\<nexists>c. guarded_by X a s e c"
  shows "fst (buildTenantWhereClause X a e alias target s) \<in> {Inr None, Inl MISSING_TENANT_CONTEXT}"
proof (cases "columnConfig s")
  case (Some c)
  then have "non_tenant X e \<or> isUnscoped a \<or> getCurrentTenant a = public_name"
    using assms by (auto simp: guarded_by_def)
  then show ?thesis
    using Some by (auto simp: buildTenantWhereClause_def enforceMissingContextPolicy_def io_defs split: missing_policy.split)
qed (simp add: buildTenantWhereClause_def)

lemma where_predicate_iff:
  "(\<exists>p s'. buildTenantWhereClause X a e alias target s = (Inr (Some p), s')) \<longleftrightarrow> (\<exists>c. guarded_by X a s e c)"
proof
  assume "\<exists>p s'. buildTenantWhereClause X a e alias target s = (Inr (Some p), s')"
  then show "\<exists>c. guarded_by X a s e c" using where_unguarded [of X a s e] by (metis fst_conv insertE singletonD Inr_inject option.distinct(1) sum.distinct(1))
next
  assume "\<exists>c. guarded_by X a s e c"
  then obtain c where g: "guarded_by X a s e c" ..
  show "\<exists>p s'. buildTenantWhereClause X a e alias target s = (Inr (Some p), s')"
    using g by (auto simp: buildTenantWhereClause_def guarded_by_def Let_def split: option.splits)
qed

lemma update_check_iff:
  "assertTenantColumnOnUpdate X a s e item = Inl TENANT_MISMATCH \<longleftrightarrow>
    (\<exists>c. guarded_by X a s e c \<and> foreign_value (getCurrentTenant a) (supplied_tenant item (tenant_prop X c e) (resolveTenantColumnName X c e)))"
  by (auto simp: assertTenantColumnOnUpdate_def guarded_by_def split: option.splits if_splits)

lemma set_check_iff:
  "assertTenantColumnNotInSetColumns X a s e cols = Inl TENANT_MISMATCH \<longleftrightarrow>
    (\<exists>c. guarded_by X a s e c \<and> resolveTenantColumnName X c e \<in> set cols)"
  by (auto simp: assertTenantColumnNotInSetColumns_def guarded_by_def split: option.splits if_splits)

text \<open>C17: The tenant predicate of a statement and the checks of an UPDATE go together: a predicate is added exactly under
  \<^verbatim>\<open>tenant_column\<close>, for a scoped class, in a scoped context of a tenant; there, and only there, a payload that names
  another tenant is rejected, and so is a builder's SET list that names the tenant column.\<close>
theorem tenant_checks_agree:
  fixes s :: "'c tenant_scope" and item :: "(string \<times> 'v jsv) list"
  shows "((\<exists>(p :: 'v where_cond) s'. buildTenantWhereClause X a e alias target s = (Inr (Some p), s')) \<longleftrightarrow> (\<exists>c. guarded_by X a s e c)) \<and>
    (assertTenantColumnOnUpdate X a s e item = Inl TENANT_MISMATCH \<longleftrightarrow>
      (\<exists>c. guarded_by X a s e c \<and> foreign_value (getCurrentTenant a) (supplied_tenant item (tenant_prop X c e) (resolveTenantColumnName X c e)))) \<and>
    (assertTenantColumnNotInSetColumns X a s e cols = Inl TENANT_MISMATCH \<longleftrightarrow>
      (\<exists>c. guarded_by X a s e c \<and> resolveTenantColumnName X c e \<in> set cols))"
  by (intro conjI where_predicate_iff update_check_iff set_check_iff)

text \<open>The metadata of a class agrees with its declaration: the tenant column is the one of the declared property.\<close>
definition tenant_column_declared :: "'c scope_ctx \<Rightarrow> tenant_config \<Rightarrow> 'c \<Rightarrow> entity_column list \<Rightarrow> bool" where
  "tenant_column_declared X c e cols \<longleftrightarrow>
     (\<exists>x\<in>set cols. db_name x = resolveTenantColumnName X c e) \<and>
     (\<forall>x\<in>set cols. db_name x = resolveTenantColumnName X c e \<longrightarrow> propKey x = tenant_prop X c e)"

lemma insert_stamp:
  assumes "guarded_by X a s e c" "applyTenantColumnOnInsert X a s e item = Inr item'"
  shows "item_get item' (tenant_prop X c e) = Str (getCurrentTenant a)"
  using assms by (auto simp: applyTenantColumnOnInsert_def guarded_by_def Let_def split: option.splits if_splits)

lemma insert_keeps:
  assumes "applyTenantColumnOnInsert X a s e item = Inr item'"
    "\<And>c. columnConfig s = Some c \<Longrightarrow> k \<noteq> tenant_prop X c e \<and> k \<noteq> config_name c \<and> (\<forall>n. Option.bind (declared_tenant X e) snd = Some n \<longrightarrow> k \<noteq> n)"
  shows "item_get item' k = item_get item k"
  using assms by (auto simp: applyTenantColumnOnInsert_def Let_def split: option.splits if_splits)

lemma insert_foreign_rejected:
  assumes "guarded_by X a s e c" "foreign_value (getCurrentTenant a) (item_get item (tenant_prop X c e))"
  shows "applyTenantColumnOnInsert X a s e item = Inl TENANT_MISMATCH"
  using assms by (auto simp: applyTenantColumnOnInsert_def guarded_by_def supplied_tenant_def foreign_value_def Let_def)


subsection \<open>Limits of the guard\<close>

definition demo_column :: "string \<Rightarrow> string option \<Rightarrow> bool \<Rightarrow> entity_column" where
  "demo_column n p pk = \<lparr>db_name = n, prop_name = p, primary_col = pk, auto_increment = pk, gen_strategy = None\<rparr>"

text \<open>One class, with the columns \<open>cols\<close> and the tenant declaration \<open>d\<close>.\<close>
definition demo_ctx :: "entity_column list \<Rightarrow> (string \<times> string option) option \<Rightarrow> unit scope_ctx" where
  "demo_ctx cols d = \<lparr>scope_postgres = True, quote_name = (\<lambda>n. n), default_schema = None, hierarchy_of = (\<lambda>_. None),
     resolved_meta = (\<lambda>_. Some (''t'', cols)), non_tenant = (\<lambda>_. False), declared_tenant = (\<lambda>_. d)\<rparr>"

definition column_scope :: "unit tenant_scope" where
  "column_scope = configure \<lparr>tenantStrategy = Some ''tenant_column'', tenantColumnName = None, tenantColumnType = None,
     tenantColumnLength = None, tenantOnMissingContext = None\<rparr> new_scope"

definition in_tenant :: "string \<Rightarrow> ambient" where
  "in_tenant t = Some \<lparr>tenantId = t, unscoped_flag = False\<rparr>"

text \<open>A plain \<^verbatim>\<open>@Column\<close> property that a naming strategy maps to \<^verbatim>\<open>tenant_id\<close>: the stamp goes to another key of the
  payload, so the INSERT writes the tenant the payload states, here a foreign one, and no check sees it.\<close>
lemma mapped_tenant_column_not_stamped:
  "\<exists>item'. applyTenantColumnOnInsert (demo_ctx [demo_column ''tenant_id'' (Some ''tenantId'') False] None) (in_tenant ''A'') column_scope ()
      [(''tenantId'', Str ''B'' :: unit jsv)] = Inr item' \<and> item_get item' ''tenantId'' = Str ''B''"
  by (simp add: applyTenantColumnOnInsert_def column_scope_def configure_def demo_ctx_def in_tenant_def getCurrentTenant_def
      public_name_def supplied_tenant_def foreign_value_def tenant_prop_def or_else_def item_get_def Let_def)

text \<open>A tenant column of type \<^verbatim>\<open>int\<close>: a payload that carries the number of the current tenant, as an instance read back from
  the database does, is taken for a foreign one.\<close>
lemma numeric_tenant_rejected:
  "assertTenantColumnOnUpdate (demo_ctx [demo_column ''tenant_id'' (Some ''tenantId'') False] (Some (''tenantId'', None))) (in_tenant ''5'')
     column_scope () [(''tenantId'', Num 5 :: unit jsv)] = Inl TENANT_MISMATCH"
  by (simp add: assertTenantColumnOnUpdate_def column_scope_def configure_def demo_ctx_def in_tenant_def getCurrentTenant_def isUnscoped_def
      public_name_def supplied_tenant_def foreign_value_def tenant_prop_def or_else_def item_get_def Let_def)

subsection \<open>A concrete scope\<close>

definition orders_ctx :: "unit scope_ctx" where
  "orders_ctx = demo_ctx [demo_column ''id'' None True, demo_column ''tenant_id'' (Some ''org'') False] (Some (''org'', None))"


end
