(* ===== verification/EntityWrites.thy ===== *)
theory EntityWrites
  imports TenantScope
begin

section \<open>Writes of rows (src/core/entity-manager/WriteExecutor.ts)\<close>

text \<open>
  \<^verbatim>\<open>save\<close>, \<^verbatim>\<open>delete\<close>, \<^verbatim>\<open>deleteMany\<close>, \<^verbatim>\<open>clear\<close>, \<^verbatim>\<open>update\<close>, \<^verbatim>\<open>updateMany\<close>, \<^verbatim>\<open>increment\<close>, \<^verbatim>\<open>decrement\<close>, \<^verbatim>\<open>softDelete\<close>,
  \<^verbatim>\<open>restore\<close> and the update of a builder, as the statements they send to a database of tables. \<open>'c\<close> are classes, \<open>'d\<close> the
  values the database stores, \<open>'v\<close> opaque payload values.

  Arguments: what the metadata says of a class, the listeners (hooks, events, subscribers, cascades), the checks of keys,
  and the database. The paths of JOINED hierarchies, whose rows span two tables, are the argument \<open>joined_write\<close>. What a
  call hands back from the row, and the log of statements, are left out; messages of errors too.
\<close>

subsection \<open>The database\<close>

text \<open>A row, as columns with values; \<open>None\<close> is NULL. A table is known by the text that names it in a statement.\<close>
type_synonym 'd row = "(string \<times> 'd option) list"
type_synonym 'd tables = "string \<Rightarrow> 'd row list"

definition row_cell :: "'d row \<Rightarrow> string \<Rightarrow> 'd option" where
  "row_cell r c = (case map_of r c of Some v \<Rightarrow> v | None \<Rightarrow> None)"

text \<open>An assignment of a SET list: a bound value or expression, \<^verbatim>\<open>c = c + 1\<close>, the clock, \<^verbatim>\<open>NULL\<close>.\<close>
datatype 'v assign = Assign_Value string "'v jsv" | Assign_Next string | Assign_Clock string | Assign_Null string

fun assigned_column :: "'v assign \<Rightarrow> string" where
  "assigned_column (Assign_Value c v) = c"
| "assigned_column (Assign_Next c) = c"
| "assigned_column (Assign_Clock c) = c"
| "assigned_column (Assign_Null c) = c"

text \<open>
  What is left to the database: the rows a WHERE picks, the value of an assignment on a row, the row an INSERT stores (or
  its refusal), the constraints after a statement, the rows an ORDER BY with a LIMIT keeps, and whether a row that an
  UPDATE leaves as it was is counted.
\<close>
record ('v, 'd) database =
  picks :: "'d tables \<Rightarrow> 'v where_cond list \<Rightarrow> 'd row \<Rightarrow> bool"
  value_on :: "'d row \<Rightarrow> 'v jsv \<Rightarrow> 'd option"
  next_value :: "'d option \<Rightarrow> 'd option"
  clock_value :: "'d option"
  js_value :: "'d option \<Rightarrow> 'v jsv"
  stored_row :: "'d tables \<Rightarrow> string \<Rightarrow> 'd row \<Rightarrow> nat + 'd row"
  refused_by :: "'d tables \<Rightarrow> nat option"
  within_limit :: "(string \<times> bool) list \<Rightarrow> nat option \<Rightarrow> 'd row list \<Rightarrow> 'd row \<Rightarrow> bool"
  counts_identical :: bool

datatype write_error = Orm OrmErrorCode | Bad_Where where_error | Refused nat | Type_Failure

record ('c, 'd) write_world =
  rows :: "'d tables"
  scope_of :: "'c tenant_scope"
  uuids_drawn :: nat

type_synonym ('c, 'd, 'a) write_io = "(('c, 'd) write_world, write_error, 'a) io"

fun assign_value :: "('v, 'd) database \<Rightarrow> 'd row \<Rightarrow> 'v assign \<Rightarrow> 'd option" where
  "assign_value D r (Assign_Value c v) = value_on D r v"
| "assign_value D r (Assign_Next c) = next_value D (row_cell r c)"
| "assign_value D r (Assign_Clock c) = clock_value D"
| "assign_value D r (Assign_Null c) = None"

text \<open>MySQL evaluates a SET list from left to right, the others on the row as it was.\<close>
definition set_row :: "('v, 'd) database \<Rightarrow> dialect \<Rightarrow> 'v assign list \<Rightarrow> 'd row \<Rightarrow> 'd row" where
  "set_row D d sets r = fold (\<lambda>s r'. jm_set (assigned_column s) (assign_value D (if d = Mysql then r' else r) s) r') sets r"

text \<open>The outcome of a statement that leaves the tables \<open>T\<close>.\<close>
definition settle_rows :: "('v, 'd) database \<Rightarrow> 'd tables \<Rightarrow> 'a \<Rightarrow> ('c, 'd, 'a) write_io" where
  "settle_rows D T a = (\<lambda>w. case refused_by D T of Some n \<Rightarrow> (Inl (Refused n), w) | None \<Rightarrow> (Inr a, w\<lparr>rows := T\<rparr>))"

definition exec_insert :: "('v, 'd) database \<Rightarrow> string \<Rightarrow> (string \<times> 'v jsv) list \<Rightarrow> ('c, 'd, 'd row) write_io" where
  "exec_insert D t vals = (\<lambda>w. if \<not> distinct (map fst vals) then (Inl (Refused 0), w)
     else (case stored_row D (rows w) t (map (\<lambda>(c, v). (c, value_on D [] v)) vals) of
         Inl n \<Rightarrow> (Inl (Refused n), w)
       | Inr r \<Rightarrow> settle_rows D ((rows w)(t := rows w t @ [r])) r w))"

text \<open>An UPDATE of the rows that \<open>P\<close> holds of. PostgreSQL refuses to assign a column twice.\<close>
definition exec_update :: "('v, 'd) database \<Rightarrow> dialect \<Rightarrow> string \<Rightarrow> 'v assign list \<Rightarrow> ('d row \<Rightarrow> bool) \<Rightarrow> ('c, 'd, nat) write_io" where
  "exec_update D d t sets P = (\<lambda>w. if d = Postgres \<and> \<not> distinct (map assigned_column sets) then (Inl (Refused 1), w)
     else settle_rows D ((rows w)(t := map (\<lambda>r. if P r then set_row D d sets r else r) (rows w t)))
       (length (filter (\<lambda>r. P r \<and> (counts_identical D \<or> set_row D d sets r \<noteq> r)) (rows w t))) w)"

definition exec_delete :: "('v, 'd) database \<Rightarrow> string \<Rightarrow> ('d row \<Rightarrow> bool) \<Rightarrow> ('c, 'd, nat) write_io" where
  "exec_delete D t P = (\<lambda>w. settle_rows D ((rows w)(t := filter (\<lambda>r. \<not> P r) (rows w t))) (length (filter P (rows w t))) w)"

subsection \<open>What a write knows of its class\<close>

record ('c, 'v, 'd) writer =
  scope_facts :: "'c scope_ctx"
  database_of :: "('v, 'd) database"
  family :: dialect
  returns_rows :: bool
  version_of :: "'c \<Rightarrow> string option"
  create_stamp_of :: "'c \<Rightarrow> string option"
  update_stamp_of :: "'c \<Rightarrow> string option"
  deleted_at_of :: "'c \<Rightarrow> string option"
  computed_of :: "'c \<Rightarrow> string list"
  many_to_ones_of :: "'c \<Rightarrow> 'c to_one list"
  one_to_ones_of :: "'c \<Rightarrow> 'c to_one list"
  tpc_tables :: "'c \<Rightarrow> string list option"
  applyWriteTransform :: "entity_column \<Rightarrow> 'v jsv \<Rightarrow> write_error + 'v jsv"
  criteria_opts :: "'c \<Rightarrow> 'v where_opts"
  is_object :: "'v \<Rightarrow> bool"
  now_date :: "'v jsv"
  fresh_uuid :: "nat \<Rightarrow> 'v jsv"
  owns_transaction :: bool
  check_payload :: "'c \<Rightarrow> (string \<times> 'v jsv) list \<Rightarrow> write_error option"
  check_set_keys :: "'c \<Rightarrow> (string \<times> 'v jsv) list \<Rightarrow> write_error option"
  check_scalar :: "'v jsv \<Rightarrow> write_error option"
  check_criteria :: "'c \<Rightarrow> 'v jsv \<Rightarrow> write_error option"
  on_payload :: "string \<Rightarrow> 'c \<Rightarrow> (string \<times> 'v jsv) list \<Rightarrow> ('c, 'd, (string \<times> 'v jsv) list) write_io"
  on_criteria :: "string \<Rightarrow> 'c \<Rightarrow> 'v jsv \<Rightarrow> ('c, 'd, unit) write_io"
  cascadeSaveOneToMany :: "'c \<Rightarrow> 'v jsv \<Rightarrow> (string \<times> 'v jsv) list \<Rightarrow> ('c, 'd, (string \<times> 'v jsv) list) write_io"
  joined_save :: "'c \<Rightarrow> (string \<times> 'v jsv) list \<Rightarrow> ('c, 'd, (string \<times> 'v jsv) list) write_io"
  joined_write :: "'c \<Rightarrow> ('c, 'd, nat) write_io"

definition io_of_sum :: "'e + 'a \<Rightarrow> ('w, 'e, 'a) io" where
  "io_of_sum x = (\<lambda>w. (x, w))"

definition io_check :: "write_error option \<Rightarrow> ('c, 'd, unit) write_io" where
  "io_check x = (case x of Some e \<Rightarrow> io_throw e | None \<Rightarrow> io_return ())"

definition orm_sum :: "OrmErrorCode + 'a \<Rightarrow> ('c, 'd, 'a) write_io" where
  "orm_sum x = (case x of Inl e \<Rightarrow> io_throw (Orm e) | Inr y \<Rightarrow> io_return y)"

text \<open>A call of the tenant scope, which is part of the world.\<close>
definition in_scope :: "('c, 'a) scope_io \<Rightarrow> ('c, 'd, 'a) write_io" where
  "in_scope m = (\<lambda>w. case m (scope_of w) of (r, s) \<Rightarrow> ((case r of Inl e \<Rightarrow> Inl (Orm e) | Inr y \<Rightarrow> Inr y), w\<lparr>scope_of := s\<rparr>))"

text \<open>A transaction of its own is rolled back by an error; inside another one the rows are left to that one.\<close>
definition executeInTransaction_rows :: "('c, 'v, 'd) writer \<Rightarrow> ('c, 'd, 'a) write_io \<Rightarrow> ('c, 'd, 'a) write_io" where
  "executeInTransaction_rows W m = (\<lambda>w. case m w of
     (Inl e, w') \<Rightarrow> (Inl e, if owns_transaction W then w'\<lparr>rows := rows w\<rparr> else w')
   | (Inr y, w') \<Rightarrow> (Inr y, w'))"

definition hierarchy_facts :: "('c, 'v, 'd) writer \<Rightarrow> 'c hierarchy" where
  "hierarchy_facts W = hierarchy_of (scope_facts W)"

definition require_metadata :: "('c, 'v, 'd) writer \<Rightarrow> 'c \<Rightarrow> (string \<Rightarrow> entity_column list \<Rightarrow> ('c, 'd, 'a) write_io) \<Rightarrow> ('c, 'd, 'a) write_io" where
  "require_metadata W e k = (case resolved_meta (scope_facts W) e of
     None \<Rightarrow> io_throw (Orm ENTITY_METADATA_NOT_FOUND) | Some (t, cols) \<Rightarrow> k t cols)"

definition pk_columns :: "entity_column list \<Rightarrow> entity_column list" where
  "pk_columns cols = filter primary_col cols"

definition table_text :: "('c, 'v, 'd) writer \<Rightarrow> ambient \<Rightarrow> ('c, 'd) write_world \<Rightarrow> string \<Rightarrow> string" where
  "table_text W a w t = wrapTable (scope_facts W) a (scope_of w) t"

definition quoted_name :: "('c, 'v, 'd) writer \<Rightarrow> string \<Rightarrow> string" where
  "quoted_name W c = quote_name (scope_facts W) c"

text \<open>\<^verbatim>\<open>stiDiscriminatorClause\<close>: a child of a SINGLE_TABLE hierarchy writes rows of its own kind only.\<close>
definition stiDiscriminatorClause :: "('c, 'v, 'd) writer \<Rightarrow> 'c \<Rightarrow> 'v where_cond option" where
  "stiDiscriminatorClause W e = (case getSingleTableChildDiscriminator (hierarchy_facts W) e of
     Some (c, v) \<Rightarrow> Some (Equals (quoted_name W c) (Str v)) | None \<Rightarrow> None)"

definition resolveWriteTables :: "('c, 'v, 'd) writer \<Rightarrow> 'c \<Rightarrow> string \<Rightarrow> string list" where
  "resolveWriteTables W e t = (case tpc_tables W e of Some ts \<Rightarrow> ts | None \<Rightarrow> [t])"

fun executePerTable :: "string list \<Rightarrow> (string \<Rightarrow> ('c, 'd, nat) write_io) \<Rightarrow> ('c, 'd, nat) write_io" where
  "executePerTable [] run = io_return 0"
| "executePerTable (t # ts) run = io_bind (run t) (\<lambda>n. io_bind (executePerTable ts run) (\<lambda>m. io_return (n + m)))"

definition resolveCriteriaWhere :: "('c, 'v, 'd) writer \<Rightarrow> 'c \<Rightarrow> 'v jsv \<Rightarrow> write_error + 'v where_cond list" where
  "resolveCriteriaWhere W e criteria = (case resolveWhereClause (criteria_opts W e) criteria of Inl x \<Rightarrow> Inl (Bad_Where x) | Inr cs \<Rightarrow> Inr cs)"

definition assertCriteriaHasPredicate :: "('c, 'v, 'd) writer \<Rightarrow> 'c \<Rightarrow> 'v jsv \<Rightarrow> ('c, 'd, unit) write_io" where
  "assertCriteriaHasPredicate W e criteria = io_bind (io_of_sum (resolveCriteriaWhere W e criteria))
     (\<lambda>cs. if cs = [] then io_throw (Orm DELETE_WITHOUT_CONDITIONS) else io_return ())"

subsection \<open>Foreign keys of a payload\<close>

definition fk_relations :: "('c, 'v, 'd) writer \<Rightarrow> 'c \<Rightarrow> 'c fk_relation list" where
  "fk_relations W e = resolveForeignKeyRelations (many_to_ones_of W e) (one_to_ones_of W e)"

definition shadowFkValue :: "'c fk_relation \<Rightarrow> (string \<times> 'v jsv) list \<Rightarrow> 'v jsv" where
  "shadowFkValue rel item = (let v = item_get item (rel_prop rel @ ''Id'') in
     case stated_text (fk_shadow rel) of
       Some p \<Rightarrow> if v = Undef then item_get item p else v
     | None \<Rightarrow> v)"

fun object_fields :: "'v jsv \<Rightarrow> (string \<times> 'v jsv) list" where
  "object_fields (Obj fs) = fs"
| "object_fields v = []"

definition typeof_object :: "('c, 'v, 'd) writer \<Rightarrow> 'v jsv \<Rightarrow> bool" where
  "typeof_object W v = (case v of Obj _ \<Rightarrow> True | Arr _ \<Rightarrow> True | Fragment _ \<Rightarrow> True | Null \<Rightarrow> True | Data x \<Rightarrow> is_object W x | _ \<Rightarrow> False)"

definition resolveFkValue :: "('c, 'v, 'd) writer \<Rightarrow> 'c fk_relation \<Rightarrow> (string \<times> 'v jsv) list \<Rightarrow> 'v jsv" where
  "resolveFkValue W rel item = (let v = item_get item (rel_prop rel) in
     if v = Null then Null
     else if v = Undef then shadowFkValue rel item
     else if typeof_object W v then
       (let key = (case Option.bind (resolved_meta (scope_facts W) (fk_entity rel)) (\<lambda>m. find primary_col (snd m)) of
            Some pk \<Rightarrow> item_get (object_fields v) (propKey pk) | None \<Rightarrow> Undef) in
        if \<not> missing_value key then key else shadowFkValue rel item)
     else v)"

subsection \<open>The INSERT of save()\<close>

text \<open>\<^verbatim>\<open>InsertValuePlan\<close>: the columns taken from the payload with their values, then those appended.\<close>
type_synonym 'v insert_plan = "(entity_column \<times> 'v jsv) list \<times> (string \<times> 'v jsv) list"

definition uuid_strategy :: "entity_column \<Rightarrow> bool" where
  "uuid_strategy c \<longleftrightarrow> gen_strategy c = Some ''uuid'' \<or> gen_strategy c = Some ''uuid-v7''"

definition insertable :: "('c, 'v, 'd) writer \<Rightarrow> 'c \<Rightarrow> (string \<times> 'v jsv) list \<Rightarrow> entity_column \<Rightarrow> bool" where
  "insertable W e item c =
     (if db_name c \<in> set (computed_of W e) then False
      else let v = item_get item (propKey c) in
        if auto_increment c \<and> missing_value v then False
        else if v = Undef then uuid_strategy c \<or> create_stamp_of W e = Some (db_name c) \<or> update_stamp_of W e = Some (db_name c) \<or>
          version_of W e = Some (db_name c)
        else True)"

fun transform_all :: "(entity_column \<Rightarrow> 'v jsv \<Rightarrow> write_error + 'v jsv) \<Rightarrow> (string \<times> 'v jsv) list \<Rightarrow> entity_column list \<Rightarrow>
    write_error + (entity_column \<times> 'v jsv) list" where
  "transform_all f item [] = Inr []"
| "transform_all f item (c # cs) = (case f c (item_get item (propKey c)) of Inl x \<Rightarrow> Inl x
     | Inr v \<Rightarrow> sum_map (Cons (c, v)) (transform_all f item cs))"

text \<open>The first planned column of that name gets another value, if there is one.\<close>
fun set_planned :: "string \<Rightarrow> (entity_column \<Rightarrow> 'v jsv) \<Rightarrow> (entity_column \<times> 'v jsv) list \<Rightarrow> (entity_column \<times> 'v jsv) list" where
  "set_planned n f [] = []"
| "set_planned n f ((c, v) # ps) = (if db_name c = n then (c, f c) # ps else (c, v) # set_planned n f ps)"

definition set_planned_opt :: "string option \<Rightarrow> (entity_column \<Rightarrow> 'v jsv) \<Rightarrow> (entity_column \<times> 'v jsv) list \<Rightarrow> (entity_column \<times> 'v jsv) list" where
  "set_planned_opt n f ps = (case n of Some n \<Rightarrow> set_planned n f ps | None \<Rightarrow> ps)"

text \<open>Keys generated on the application's side; PostgreSQL generates a \<^verbatim>\<open>uuid\<close> itself.\<close>
fun fill_uuids :: "('c, 'v, 'd) writer \<Rightarrow> nat \<Rightarrow> (entity_column \<times> 'v jsv) list \<Rightarrow> (string \<times> 'v jsv) list \<Rightarrow>
    (entity_column \<times> 'v jsv) list \<times> (string \<times> 'v jsv) list \<times> nat" where
  "fill_uuids W n [] item = ([], item, n)"
| "fill_uuids W n ((c, v) # ps) item =
     (if \<not> uuid_strategy c \<or> \<not> missing_value v then (case fill_uuids W n ps item of (qs, r) \<Rightarrow> ((c, v) # qs, r))
      else if gen_strategy c = Some ''uuid'' \<and> family W = Postgres then fill_uuids W n ps item
      else (case fill_uuids W (Suc n) ps (jm_set (propKey c) (fresh_uuid W n) item) of (qs, r) \<Rightarrow> ((c, fresh_uuid W n) # qs, r)))"

definition stamped :: "('c, 'v, 'd) writer \<Rightarrow> (string \<times> 'v jsv) list \<Rightarrow> entity_column \<Rightarrow> 'v jsv" where
  "stamped W item c = (let v = item_get item (propKey c) in if missing_value v then now_date W else v)"

definition buildInsertValuePlan :: "('c, 'v, 'd) writer \<Rightarrow> 'c \<Rightarrow> entity_column list \<Rightarrow> (string \<times> 'v jsv) list \<Rightarrow>
    ('c, 'd, (entity_column \<times> 'v jsv) list \<times> (string \<times> 'v jsv) list) write_io" where
  "buildInsertValuePlan W e cols item = io_bind (io_of_sum (transform_all (applyWriteTransform W) item (filter (insertable W e item) cols)))
     (\<lambda>ps w. let ps = set_planned_opt (create_stamp_of W e) (stamped W item) ps;
         ps = set_planned_opt (update_stamp_of W e) (stamped W item) ps;
         ps = set_planned_opt (version_of W e) (\<lambda>_. Num 1) ps in
       (case fill_uuids W (uuids_drawn w) ps item of (ps, item, n) \<Rightarrow> (Inr (ps, item), w\<lparr>uuids_drawn := n\<rparr>)))"

definition insertDiscriminator :: "('c, 'v, 'd) writer \<Rightarrow> 'c \<Rightarrow> (string \<times> string) option" where
  "insertDiscriminator W e = (let s = getStrategy (hierarchy_facts W) e in
     if s \<noteq> Some SINGLE_TABLE \<and> s \<noteq> Some JOINED then None
     else (case (getDiscriminatorColumn (hierarchy_facts W) e, stated_text (getDiscriminatorValue (hierarchy_facts W) e)) of
         (Some c, Some v) \<Rightarrow> Some (c, v) | _ \<Rightarrow> None))"

definition is_planned :: "(entity_column \<times> 'v jsv) list \<Rightarrow> string \<Rightarrow> bool" where
  "is_planned ps n \<longleftrightarrow> n \<in> (db_name \<circ> fst) ` set ps"

definition applyInsertDiscriminator :: "('c, 'v, 'd) writer \<Rightarrow> 'c \<Rightarrow> 'v insert_plan \<Rightarrow> 'v insert_plan" where
  "applyInsertDiscriminator W e plan = (case (insertDiscriminator W e, plan) of
     (None, _) \<Rightarrow> plan
   | (Some (c, v), (ps, app)) \<Rightarrow> if is_planned ps c then (set_planned c (\<lambda>_. Str v) ps, app) else (ps, app @ [(c, Str v)]))"

definition apply_fk_column :: "('c, 'v, 'd) writer \<Rightarrow> (string \<times> 'v jsv) list \<Rightarrow> 'c fk_relation \<Rightarrow> 'v insert_plan \<Rightarrow> 'v insert_plan" where
  "apply_fk_column W item rel plan = (case plan of (ps, app) \<Rightarrow> let v = resolveFkValue W rel item in
     if v = Undef then plan
     else if is_planned ps (fk_column rel) then (set_planned (fk_column rel) (\<lambda>_. v) ps, app)
     else (ps, app @ [(fk_column rel, v)]))"

definition applyInsertFkColumns :: "('c, 'v, 'd) writer \<Rightarrow> 'c \<Rightarrow> (string \<times> 'v jsv) list \<Rightarrow> 'v insert_plan \<Rightarrow> 'v insert_plan" where
  "applyInsertFkColumns W e item plan = fold (apply_fk_column W item) (fk_relations W e) plan"

definition plan_columns :: "'v insert_plan \<Rightarrow> (string \<times> 'v jsv) list" where
  "plan_columns plan = map (\<lambda>(c, v). (db_name c, v)) (fst plan) @ snd plan"

text \<open>\<^verbatim>\<open>assignGeneratedPk\<close>\<close>
definition assignGeneratedPk :: "string \<Rightarrow> 'v jsv \<Rightarrow> (string \<times> 'v jsv) list \<Rightarrow> (string \<times> 'v jsv) list" where
  "assignGeneratedPk p v item = (if missing_value v then item else if missing_value (item_get item p) then jm_set p v item else item)"

definition emit_payload :: "('c, 'v, 'd) writer \<Rightarrow> string \<Rightarrow> 'c \<Rightarrow> (string \<times> 'v jsv) list \<Rightarrow> ('c, 'd, (string \<times> 'v jsv) list) write_io" where
  "emit_payload W ev e item = io_bind (on_payload W (''hooks:'' @ ev) e item) (\<lambda>item. io_bind (on_payload W (''emit:'' @ ev) e item)
     (\<lambda>item. on_payload W (''notify:'' @ ev) e item))"

text \<open>The key comes from the returned row, from the generated key of the driver, or from the payload.\<close>
definition inserted_key :: "('c, 'v, 'd) writer \<Rightarrow> entity_column list \<Rightarrow> 'v jsv \<Rightarrow> 'd row \<Rightarrow> 'v jsv" where
  "inserted_key W cols given r = (if returns_rows W then js_value (database_of W) (case pk_columns cols of pk # _ \<Rightarrow> row_cell r (db_name pk) | [] \<Rightarrow> None)
     else (case find auto_increment (pk_columns cols) of
         Some c \<Rightarrow> js_value (database_of W) (row_cell r (db_name c)) | None \<Rightarrow> given))"

definition completeInsert :: "('c, 'v, 'd) writer \<Rightarrow> 'c \<Rightarrow> entity_column list \<Rightarrow> 'v jsv \<Rightarrow> (string \<times> 'v jsv) list \<Rightarrow>
    ('c, 'd, (string \<times> 'v jsv) list) write_io" where
  "completeInsert W e cols key item = io_bind (cascadeSaveOneToMany W e key item) (\<lambda>item. case pk_columns cols of
     [] \<Rightarrow> io_throw Type_Failure
   | pk # _ \<Rightarrow> emit_payload W ''afterInsert'' e (assignGeneratedPk (propKey pk) key item))"

text \<open>A class without a key fails when the key is read, after the INSERT.\<close>
definition save_insert :: "('c, 'v, 'd) writer \<Rightarrow> ambient \<Rightarrow> 'c \<Rightarrow> string \<Rightarrow> entity_column list \<Rightarrow> 'v jsv \<Rightarrow> (string \<times> 'v jsv) list \<Rightarrow>
    ('c, 'd, (string \<times> 'v jsv) list) write_io" where
  "save_insert W a e t cols given item =
     io_bind (emit_payload W ''beforeInsert'' e item) (\<lambda>item.
     io_bind (\<lambda>w. orm_sum (applyTenantColumnOnInsert (scope_facts W) a (scope_of w) e item) w) (\<lambda>item.
     io_bind (buildInsertValuePlan W e cols item) (\<lambda>(ps, item).
       let plan = applyInsertFkColumns W e item (applyInsertDiscriminator W e (ps, [])) in
       if getStrategy (hierarchy_facts W) e = Some JOINED \<and> isChildEntity (hierarchy_facts W) e then joined_save W e item
       else io_bind (\<lambda>w. exec_insert (database_of W) (table_text W a w t) (plan_columns plan) w) (\<lambda>r.
         if returns_rows W \<and> pk_columns cols = [] then io_throw Type_Failure
         else if \<not> returns_rows W \<and> family W = Postgres then emit_payload W ''afterInsert'' e item
         else completeInsert W e cols (inserted_key W cols given r) item))))"

subsection \<open>The UPDATE of save()\<close>

definition updatable :: "('c, 'v, 'd) writer \<Rightarrow> 'c \<Rightarrow> string option \<Rightarrow> entity_column list \<Rightarrow> (string \<times> 'v jsv) list \<Rightarrow> entity_column \<Rightarrow> bool" where
  "updatable W e tenantCol cols item c =
     (if db_name c \<in> set (computed_of W e) then False
      else if db_name c \<in> db_name ` set (pk_columns cols) then False
      else if version_of W e = Some (db_name c) then False
      else if getDiscriminatorColumn (hierarchy_facts W) e = Some (db_name c) then False
      else if tenantCol = Some (db_name c) then False
      else item_get item (propKey c) \<noteq> Undef)"

text \<open>
  The SET list: what the payload states, then what is appended. A join column of a second relation that an earlier one
  appended is written at index -1 of the list, that is nowhere.
\<close>
definition set_fk :: "('c, 'v, 'd) writer \<Rightarrow> (string \<times> 'v jsv) list \<Rightarrow> 'c fk_relation \<Rightarrow>
    'v insert_plan \<times> string list \<Rightarrow> 'v insert_plan \<times> string list" where
  "set_fk W item rel st = (case st of ((ps, app), added) \<Rightarrow> let v = resolveFkValue W rel item; j = fk_column rel in
     if v = Undef then st
     else if is_planned ps j then ((set_planned j (\<lambda>_. v) ps, app), added)
     else if j \<in> set added then st
     else ((ps, app @ [(j, v)]), added @ [j]))"

definition buildUpdateSetPlan :: "('c, 'v, 'd) writer \<Rightarrow> 'c \<Rightarrow> string option \<Rightarrow> entity_column list \<Rightarrow> (string \<times> 'v jsv) list \<Rightarrow>
    write_error + 'v insert_plan" where
  "buildUpdateSetPlan W e tenantCol cols item =
     sum_map (\<lambda>ps. let plan = (case update_stamp_of W e of
           None \<Rightarrow> (ps, [])
         | Some u \<Rightarrow> if is_planned ps u then (set_planned u (\<lambda>_. now_date W) ps, []) else (ps, [(u, now_date W)])) in
       fst (fold (set_fk W item) (fk_relations W e) (plan, [])))
     (transform_all (applyWriteTransform W) item (filter (updatable W e tenantCol cols item) cols))"

definition buildPkWhere_conds :: "('c, 'v, 'd) writer \<Rightarrow> entity_column list \<Rightarrow> (string \<times> 'v jsv) list \<Rightarrow> 'v where_cond list" where
  "buildPkWhere_conds W cols item = map (\<lambda>c. Equals (quoted_name W (db_name c)) (item_get item (propKey c))) (pk_columns cols)"

definition rowExists :: "('c, 'v, 'd) writer \<Rightarrow> string \<Rightarrow> 'v where_cond list \<Rightarrow> ('c, 'd) write_world \<Rightarrow> bool" where
  "rowExists W t cs w \<longleftrightarrow> (\<exists>r\<in>set (rows w t). picks (database_of W) (rows w) cs r)"

definition opt_list :: "'a option \<Rightarrow> 'a list" where
  "opt_list x = (case x of Some y \<Rightarrow> [y] | None \<Rightarrow> [])"

definition assertUpdateMatchedRow :: "('c, 'v, 'd) writer \<Rightarrow> string \<Rightarrow> 'v where_cond list \<Rightarrow> bool \<Rightarrow> 'v where_cond list \<Rightarrow> ('c, 'd, unit) write_io" where
  "assertUpdateMatchedRow W t pkWhere guardedByVersion scope = (\<lambda>w.
     if scope \<noteq> [] then
       (if \<not> rowExists W t (pkWhere @ scope) w then (Inl (Orm ENTITY_NOT_FOUND), w)
        else if guardedByVersion then (Inl (Orm OPTIMISTIC_LOCK_FAILED), w)
        else (Inr (), w))
     else if guardedByVersion then (Inl (Orm OPTIMISTIC_LOCK_FAILED), w)
     else if \<not> rowExists W t pkWhere w then (Inl (Orm ENTITY_NOT_FOUND), w)
     else (Inr (), w))"

definition executeSingleTableUpdate :: "('c, 'v, 'd) writer \<Rightarrow> string \<Rightarrow> 'v assign list \<Rightarrow> 'v where_cond list \<Rightarrow>
    'v where_cond list \<Rightarrow> bool \<Rightarrow> 'v where_cond list \<Rightarrow> ('c, 'd, unit) write_io" where
  "executeSingleTableUpdate W t sets wh pkWhere guardedByVersion scope =
     io_bind (\<lambda>w. exec_update (database_of W) (family W) t sets (picks (database_of W) (rows w) wh) w)
       (\<lambda>n. if n = 0 then assertUpdateMatchedRow W t pkWhere guardedByVersion scope else io_return ())"

definition tenant_column_if :: "('c, 'v, 'd) writer \<Rightarrow> 'c \<Rightarrow> 'v where_cond option \<Rightarrow> ('c, 'd, string option) write_io" where
  "tenant_column_if W e tenantWhere = (\<lambda>w. (Inr (if tenantWhere = None then None
     else map_option (\<lambda>c. resolveTenantColumnName (scope_facts W) c e) (columnConfig (scope_of w))), w))"

text \<open>The row that is read back for subscribers changes nothing and is left out.\<close>
definition save_update :: "('c, 'v, 'd) writer \<Rightarrow> ambient \<Rightarrow> 'c \<Rightarrow> string \<Rightarrow> entity_column list \<Rightarrow> 'v jsv \<Rightarrow> (string \<times> 'v jsv) list \<Rightarrow>
    ('c, 'd, (string \<times> 'v jsv) list) write_io" where
  "save_update W a e t cols given item =
     io_bind (in_scope (buildTenantWhereClause (scope_facts W) a e None Root_Table)) (\<lambda>tenantWhere.
     io_bind (tenant_column_if W e tenantWhere) (\<lambda>tenantCol.
     io_bind (emit_payload W ''beforeUpdate'' e item) (\<lambda>item.
     io_bind (\<lambda>w. orm_sum (assertTenantColumnOnUpdate (scope_facts W) a (scope_of w) e item) w) (\<lambda>_.
     io_bind (io_of_sum (buildUpdateSetPlan W e tenantCol cols item)) (\<lambda>plan.
       let subtype = stiDiscriminatorClause W e;
           ver = Option.bind (version_of W e) (\<lambda>v. find (\<lambda>c. db_name c = v) cols);
           current = (case ver of Some c \<Rightarrow> item_get item (propKey c) | None \<Rightarrow> Undef);
           guardedByVersion = (version_of W e \<noteq> None \<and> \<not> missing_value current);
           sets = map (\<lambda>(c, v). Assign_Value c v) (plan_columns plan) @ map Assign_Next (opt_list (version_of W e));
           pkWhere = buildPkWhere_conds W cols item;
           wh = pkWhere @ opt_list tenantWhere @ opt_list subtype @
             (if guardedByVersion then [Equals (quoted_name W (the (version_of W e))) current] else []) in
       if getStrategy (hierarchy_facts W) e = Some JOINED \<and> isChildEntity (hierarchy_facts W) e \<and> sets \<noteq> [] then joined_save W e item
       else io_bind (if sets \<noteq> [] then (\<lambda>w. executeSingleTableUpdate W (table_text W a w t) sets wh pkWhere guardedByVersion
           (opt_list tenantWhere @ opt_list subtype) w) else io_return ()) (\<lambda>_.
         io_bind (cascadeSaveOneToMany W e given item) (\<lambda>item. emit_payload W ''afterUpdate'' e item)))))))"

subsection \<open>save()\<close>

definition has_generated_key :: "entity_column list \<Rightarrow> bool" where
  "has_generated_key cols \<longleftrightarrow> (\<exists>c\<in>set (pk_columns cols). auto_increment c \<or> uuid_strategy c)"

definition save :: "('c, 'v, 'd) writer \<Rightarrow> ambient \<Rightarrow> 'c \<Rightarrow> (string \<times> 'v jsv) list \<Rightarrow> ('c, 'd, (string \<times> 'v jsv) list) write_io" where
  "save W a e item = require_metadata W e (\<lambda>t cols.
     io_then (io_check (check_payload W e item)) (executeInTransaction_rows W (
       io_bind (on_payload W ''cascadeSaveManyToOne'' e item) (\<lambda>item.
         let given = (case pk_columns cols of pk # _ \<Rightarrow> item_get item (propKey pk) | [] \<Rightarrow> Undef) in
         if has_generated_key cols \<longrightarrow> \<not> truthy given then save_insert W a e t cols given item
         else save_update W a e t cols given item))))"

subsection \<open>Deletes by criteria\<close>

definition emit_criteria :: "('c, 'v, 'd) writer \<Rightarrow> string list \<Rightarrow> string \<Rightarrow> 'c \<Rightarrow> 'v jsv \<Rightarrow> ('c, 'd, unit) write_io" where
  "emit_criteria W channels ev e criteria = fold (\<lambda>ch m. io_then m (on_criteria W (ch @ ev) e criteria)) channels (io_return ())"

definition emitBeforeDelete :: "('c, 'v, 'd) writer \<Rightarrow> 'c \<Rightarrow> 'v jsv \<Rightarrow> ('c, 'd, unit) write_io" where
  "emitBeforeDelete W e criteria = emit_criteria W [''hooks:'', ''emit:'', ''notify:''] ''beforeDelete'' e criteria"

definition emitAfterDelete :: "('c, 'v, 'd) writer \<Rightarrow> 'c \<Rightarrow> 'v jsv \<Rightarrow> nat \<Rightarrow> ('c, 'd, unit) write_io" where
  "emitAfterDelete W e criteria affected = (if affected = 0 then io_return ()
     else emit_criteria W [''hooks:'', ''emit:'', ''notify:''] ''afterDelete'' e criteria)"

definition buildDeleteWhereSql :: "('c, 'v, 'd) writer \<Rightarrow> ambient \<Rightarrow> 'c \<Rightarrow> 'v jsv \<Rightarrow> ('c, 'd, 'v where_cond list) write_io" where
  "buildDeleteWhereSql W a e criteria = io_bind (io_of_sum (resolveCriteriaWhere W e criteria)) (\<lambda>cs.
     if cs = [] then io_throw (Orm DELETE_WITHOUT_CONDITIONS)
     else io_bind (in_scope (buildTenantWhereClause (scope_facts W) a e None Auto_Table)) (\<lambda>tenantWhere.
       io_return (cs @ opt_list (stiDiscriminatorClause W e) @ opt_list tenantWhere)))"

definition isJoinedHierarchyDelete :: "('c, 'v, 'd) writer \<Rightarrow> 'c \<Rightarrow> bool" where
  "isJoinedHierarchyDelete W e \<longleftrightarrow> getStrategy (hierarchy_facts W) e = Some JOINED \<and>
     (isChildEntity (hierarchy_facts W) e \<or> length (getConcreteEntities (hierarchy_facts W) e) > 1)"

definition executeDelete :: "('c, 'v, 'd) writer \<Rightarrow> ambient \<Rightarrow> 'c \<Rightarrow> string \<Rightarrow> 'v where_cond list \<Rightarrow> ('c, 'd, nat) write_io" where
  "executeDelete W a e t wh = executePerTable (resolveWriteTables W e t)
     (\<lambda>t w. exec_delete (database_of W) (table_text W a w t) (picks (database_of W) (rows w) wh) w)"

definition delete :: "('c, 'v, 'd) writer \<Rightarrow> ambient \<Rightarrow> 'c \<Rightarrow> 'v jsv \<Rightarrow> ('c, 'd, nat) write_io" where
  "delete W a e criteria = require_metadata W e (\<lambda>t cols.
     io_then (io_check (check_criteria W e criteria)) (io_then (assertCriteriaHasPredicate W e criteria)
     (executeInTransaction_rows W (
       io_then (emitBeforeDelete W e criteria) (io_then (on_criteria W ''cascadeDeleteOneToMany'' e criteria)
       (io_bind (if isJoinedHierarchyDelete W e then joined_write W e
           else io_bind (buildDeleteWhereSql W a e criteria) (executeDelete W a e t)) (\<lambda>affected.
         io_then (on_criteria W ''afterParentDelete'' e criteria)
         (io_then (emitAfterDelete W e criteria affected) (io_return affected)))))))))"

definition scalar_key :: "('c, 'v, 'd) writer \<Rightarrow> 'v jsv \<Rightarrow> bool" where
  "scalar_key W v = (case v of Num _ \<Rightarrow> True | Str _ \<Rightarrow> True | Data x \<Rightarrow> \<not> is_object W x | _ \<Rightarrow> False)"

definition scalarDeleteKeys :: "('c, 'v, 'd) writer \<Rightarrow> entity_column \<Rightarrow> 'v jsv list \<Rightarrow> write_error + 'v jsv \<times> 'v where_cond list" where
  "scalarDeleteKeys W pk ids = (if \<exists>x\<in>set ids. \<not> scalar_key W x then Inl (Orm INVALID_QUERY)
     else Inr (Obj [(propKey pk, Arr ids)], [In_List (quoted_name W (db_name pk)) ids]))"

definition pickCompositeKey :: "entity_column list \<Rightarrow> (string \<times> 'v jsv) list \<Rightarrow> (string \<times> 'v jsv) list" where
  "pickCompositeKey pks fs = fold (\<lambda>c key. jm_set (propKey c)
     (if item_get fs (propKey c) \<noteq> Undef then item_get fs (propKey c) else item_get fs (db_name c)) key) pks []"

text \<open>An object that names every key column, under either spelling.\<close>
definition assertCompositeKey :: "('c, 'v, 'd) writer \<Rightarrow> entity_column list \<Rightarrow> 'v jsv \<Rightarrow> bool" where
  "assertCompositeKey W pks v \<longleftrightarrow> v \<noteq> Null \<and> typeof_object W v \<and>
     (\<forall>c\<in>set pks. item_get (object_fields v) (propKey c) \<noteq> Undef \<or> item_get (object_fields v) (db_name c) \<noteq> Undef)"

definition compositeDeleteKeys :: "('c, 'v, 'd) writer \<Rightarrow> 'c \<Rightarrow> entity_column list \<Rightarrow> 'v jsv list \<Rightarrow> write_error + 'v jsv \<times> 'v where_cond list" where
  "compositeDeleteKeys W e pks ids = (if \<exists>x\<in>set ids. \<not> assertCompositeKey W pks x then Inl (Orm INVALID_QUERY)
     else (let criteria = Obj [(''OR'', Arr (map (\<lambda>x. Obj (pickCompositeKey pks (object_fields x))) ids))] in
       sum_map (Pair criteria) (resolveCriteriaWhere W e criteria)))"

definition deleteMany_rows :: "('c, 'v, 'd) writer \<Rightarrow> ambient \<Rightarrow> 'c \<Rightarrow> 'v jsv list \<Rightarrow> ('c, 'd, nat) write_io" where
  "deleteMany_rows W a e ids = (if ids = [] then io_return 0 else require_metadata W e (\<lambda>t cols.
     if pk_columns cols = [] then io_throw (Orm PRIMARY_KEY_NOT_FOUND)
     else io_bind (io_of_sum (case pk_columns cols of [pk] \<Rightarrow> scalarDeleteKeys W pk ids | pks \<Rightarrow> compositeDeleteKeys W e pks ids))
       (\<lambda>(criteria, keyWhere). executeInTransaction_rows W (
         io_then (emitBeforeDelete W e criteria) (io_then (on_criteria W ''cascadeDeleteOneToMany'' e criteria)
         (io_bind (if isJoinedHierarchyDelete W e then joined_write W e
             else io_bind (in_scope (buildTenantWhereClause (scope_facts W) a e None Auto_Table)) (\<lambda>tenantWhere.
               executeDelete W a e t (keyWhere @ opt_list tenantWhere @ opt_list (stiDiscriminatorClause W e)))) (\<lambda>affected.
           io_then (on_criteria W ''afterParentDelete'' e criteria)
           (io_then (emitAfterDelete W e criteria affected) (io_return affected)))))))))"

definition clear :: "('c, 'v, 'd) writer \<Rightarrow> ambient \<Rightarrow> 'c \<Rightarrow> ('c, 'd, nat) write_io" where
  "clear W a e = require_metadata W e (\<lambda>t cols. executeInTransaction_rows W (
     if isJoinedHierarchyDelete W e then joined_write W e
     else io_bind (in_scope (buildTenantWhereClause (scope_facts W) a e None Auto_Table)) (\<lambda>tenantWhere.
       let wh = opt_list tenantWhere @ opt_list (stiDiscriminatorClause W e) in
       executePerTable (resolveWriteTables W e t) (\<lambda>t w. exec_delete (database_of W) (table_text W a w t)
         (if wh = [] then (\<lambda>r. True) else picks (database_of W) (rows w) wh) w))))"

subsection \<open>Updates by criteria\<close>

definition contains_text :: "string \<Rightarrow> string \<Rightarrow> bool" where
  "contains_text s p \<longleftrightarrow> list_ex (\<lambda>i. startsWith (drop i s) p) [0..<Suc (length s)]"

definition clause_text :: "('c, 'v, 'd) writer \<Rightarrow> string \<times> 'v jsv \<Rightarrow> string" where
  "clause_text W s = quoted_name W (fst s) @ '' = '' @ (case snd s of Fragment f \<Rightarrow> frag_text f | _ \<Rightarrow> ''?'')"

definition property_map :: "('c, 'v, 'd) writer \<Rightarrow> 'c \<Rightarrow> entity_column list \<Rightarrow> (string \<times> string) list" where
  "property_map W e cols = buildPropertyToColumnMap cols (collectFkPropertyMappings (many_to_ones_of W e) (one_to_ones_of W e))"

definition mapped_column :: "(string \<times> string) list \<Rightarrow> string \<Rightarrow> string" where
  "mapped_column m k = (case jm_get m k of Some c \<Rightarrow> c | None \<Rightarrow> k)"

definition criteriaSetValue :: "('c, 'v, 'd) writer \<Rightarrow> entity_column list \<Rightarrow> string \<Rightarrow> 'v jsv \<Rightarrow> write_error + 'v jsv" where
  "criteriaSetValue W cols dbCol v = (case v of Fragment f \<Rightarrow> Inr v
   | _ \<Rightarrow> (case find (\<lambda>c. db_name c = dbCol) cols of
       Some c \<Rightarrow> applyWriteTransform W c v
     | None \<Rightarrow> (case check_scalar W v of Some x \<Rightarrow> Inl x | None \<Rightarrow> Inr v)))"

fun set_entries :: "('c, 'v, 'd) writer \<Rightarrow> entity_column list \<Rightarrow> (string \<times> string) list \<Rightarrow> string option \<Rightarrow> (string \<times> 'v jsv) list \<Rightarrow>
    write_error + (string \<times> 'v jsv) list" where
  "set_entries W cols m tenantCol [] = Inr []"
| "set_entries W cols m tenantCol ((k, v) # data) =
     (if v = Undef then set_entries W cols m tenantCol data
      else if tenantCol = Some (mapped_column m k) then set_entries W cols m tenantCol data
      else (case criteriaSetValue W cols (mapped_column m k) v of Inl x \<Rightarrow> Inl x
        | Inr b \<Rightarrow> sum_map (Cons (mapped_column m k, b)) (set_entries W cols m tenantCol data)))"

text \<open>\<^verbatim>\<open>@UpdateTimestamp\<close>, unless the text of a clause names its column.\<close>
definition with_update_stamp :: "('c, 'v, 'd) writer \<Rightarrow> 'c \<Rightarrow> (string \<times> 'v jsv) list \<Rightarrow> (string \<times> 'v jsv) list" where
  "with_update_stamp W e sets = (case update_stamp_of W e of None \<Rightarrow> sets
   | Some u \<Rightarrow> if \<exists>s\<in>set sets. contains_text (clause_text W s) (quoted_name W u) then sets else sets @ [(u, now_date W)])"

definition buildUpdateManySetClauses :: "('c, 'v, 'd) writer \<Rightarrow> 'c \<Rightarrow> entity_column list \<Rightarrow> string option \<Rightarrow> (string \<times> 'v jsv) list \<Rightarrow>
    write_error + (string \<times> 'v jsv) list" where
  "buildUpdateManySetClauses W e cols tenantCol data =
     sum_map (with_update_stamp W e) (set_entries W cols (property_map W e cols) tenantCol data)"

definition appendVersionIncrement :: "('c, 'v, 'd) writer \<Rightarrow> 'c \<Rightarrow> entity_column list \<Rightarrow> (string \<times> 'v jsv) list \<Rightarrow> 'v assign list" where
  "appendVersionIncrement W e cols data = (case version_of W e of
     Some v \<Rightarrow> if item_get data v = Undef then [Assign_Next (mapped_column (property_map W e cols) v)] else []
   | None \<Rightarrow> [])"

record 'v update_options =
  where_of :: "'v jsv"
  order_of :: "(string \<times> bool) list option"
  limit_of :: "int option"
  with_deleted :: bool

fun no_keys :: "'v jsv \<Rightarrow> bool" where
  "no_keys (Obj fs) = (fs = [])"
| "no_keys (Arr vs) = (vs = [])"
| "no_keys v = True"

definition validateUpdateManyInput :: "('c, 'v, 'd) writer \<Rightarrow> ambient \<Rightarrow> 'c \<Rightarrow> (string \<times> 'v jsv) list \<Rightarrow> 'v update_options \<Rightarrow> ('c, 'd, unit) write_io" where
  "validateUpdateManyInput W a e data op =
     (if \<not> truthy (where_of op) \<or> no_keys (where_of op) then io_throw (Orm DELETE_WITHOUT_CONDITIONS)
      else if (case limit_of op of Some n \<Rightarrow> n < 0 | None \<Rightarrow> False) then io_throw (Orm INVALID_QUERY)
      else io_then (io_check (check_set_keys W e data)) (io_then (io_check (check_criteria W e (where_of op)))
        (io_then (assertCriteriaHasPredicate W e (where_of op))
          (\<lambda>w. orm_sum (assertTenantColumnOnUpdate (scope_facts W) a (scope_of w) e data) w))))"

definition buildUpdateManyWhereClauses :: "('c, 'v, 'd) writer \<Rightarrow> ambient \<Rightarrow> 'c \<Rightarrow> 'v update_options \<Rightarrow> ('c, 'd, 'v where_cond list) write_io" where
  "buildUpdateManyWhereClauses W a e op = io_bind (io_of_sum (resolveCriteriaWhere W e (where_of op))) (\<lambda>cs.
     if cs = [] then io_throw (Orm DELETE_WITHOUT_CONDITIONS)
     else io_bind (in_scope (buildTenantWhereClause (scope_facts W) a e None Auto_Table)) (\<lambda>tenantWhere.
       io_return (cs @ opt_list tenantWhere @ opt_list (stiDiscriminatorClause W e) @
         (case deleted_at_of W e of Some d \<Rightarrow> if with_deleted op then [] else [Is_Null (quoted_name W d)] | None \<Rightarrow> []))))"

definition buildUpdateOrderBy :: "(string \<times> bool) list option \<Rightarrow> (string \<times> string) list \<Rightarrow> (string \<times> bool) list option" where
  "buildUpdateOrderBy order m = (case order of None \<Rightarrow> None
   | Some os \<Rightarrow> if os = [] then None else Some (map (\<lambda>(p, desc). (mapped_column m p, desc)) os))"

definition assertTpcWriteHasNoLimit :: "string list \<Rightarrow> (string \<times> bool) list option \<Rightarrow> int option \<Rightarrow> ('c, 'd, unit) write_io" where
  "assertTpcWriteHasNoLimit tables order limit = (if length tables > 1 \<and> (order \<noteq> None \<or> limit \<noteq> None)
     then io_throw (Orm UNSUPPORTED_OPERATION) else io_return ())"

text \<open>
  \<^verbatim>\<open>buildUpdateSql\<close> and its execution: MySQL takes ORDER BY and LIMIT; elsewhere the rows to write are those whose key a
  subquery with the same conditions picks.
\<close>
definition chosen_rows :: "('c, 'v, 'd) writer \<Rightarrow> 'd tables \<Rightarrow> string \<Rightarrow> 'v where_cond list \<Rightarrow> (string \<times> bool) list option \<Rightarrow> int option \<Rightarrow> 'd row \<Rightarrow> bool" where
  "chosen_rows W T t wh order limit r \<longleftrightarrow> picks (database_of W) T wh r \<and>
     (order = None \<and> limit = None \<or> within_limit (database_of W) (case order of Some os \<Rightarrow> os | None \<Rightarrow> []) (map_option nat limit)
       (filter (picks (database_of W) T wh) (T t)) r)"

definition buildUpdateSql :: "('c, 'v, 'd) writer \<Rightarrow> string \<Rightarrow> entity_column list \<Rightarrow> 'v assign list \<Rightarrow> 'v where_cond list \<Rightarrow>
    (string \<times> bool) list option \<Rightarrow> int option \<Rightarrow> ('c, 'd, nat) write_io" where
  "buildUpdateSql W t cols sets wh order limit = (\<lambda>w. let D = database_of W; chosen = chosen_rows W (rows w) t wh order limit in
     if family W = Mysql \<or> order = None \<and> limit = None then exec_update D (family W) t sets chosen w
     else (case pk_columns cols of
         [] \<Rightarrow> (Inl (Orm PRIMARY_KEY_NOT_FOUND), w)
       | [pk] \<Rightarrow> exec_update D (family W) t sets (\<lambda>r. row_cell r (db_name pk) \<noteq> None \<and>
           (\<exists>r'\<in>set (rows w t). chosen r' \<and> row_cell r' (db_name pk) = row_cell r (db_name pk))) w
       | _ \<Rightarrow> (Inl (Orm UNSUPPORTED_OPERATION), w)))"

definition isJoinedChild :: "('c, 'v, 'd) writer \<Rightarrow> 'c \<Rightarrow> bool" where
  "isJoinedChild W e \<longleftrightarrow> getStrategy (hierarchy_facts W) e = Some JOINED \<and> isChildEntity (hierarchy_facts W) e"

definition values_assigned :: "(string \<times> 'v jsv) list \<Rightarrow> 'v assign list" where
  "values_assigned sets = map (\<lambda>(c, v). Assign_Value c v) sets"

definition runUpdateMany :: "('c, 'v, 'd) writer \<Rightarrow> ambient \<Rightarrow> 'c \<Rightarrow> (string \<times> 'v jsv) list \<Rightarrow> 'v update_options \<Rightarrow> ('c, 'd, nat) write_io" where
  "runUpdateMany W a e data op = require_metadata W e (\<lambda>t cols.
     io_then (validateUpdateManyInput W a e data op) (executeInTransaction_rows W (
       io_bind (in_scope (buildTenantWhereClause (scope_facts W) a e None Auto_Table)) (\<lambda>tenantWhere.
       io_bind (tenant_column_if W e tenantWhere) (\<lambda>tenantCol.
       io_bind (io_of_sum (buildUpdateManySetClauses W e cols tenantCol data)) (\<lambda>sets.
         if sets = [] then io_return 0
         else (let sets = values_assigned sets @ appendVersionIncrement W e cols data in
           io_bind (buildUpdateManyWhereClauses W a e op) (\<lambda>wh.
           let order = buildUpdateOrderBy (order_of op) (property_map W e cols); tables = resolveWriteTables W e t in
           io_then (assertTpcWriteHasNoLimit tables order (limit_of op))
           (io_then (on_criteria W ''emit:beforeUpdate'' e (Obj data))
           (io_bind (if isJoinedChild W e then joined_write W e
               else executePerTable tables (\<lambda>t w. buildUpdateSql W (table_text W a w t) cols sets wh order (limit_of op) w)) (\<lambda>affected.
             io_then (if affected > 0 then on_criteria W ''emit:afterUpdate'' e (Obj data) else io_return ())
             (io_return affected))))))))))))"

definition updateMany_rows :: "('c, 'v, 'd) writer \<Rightarrow> ambient \<Rightarrow> 'c \<Rightarrow> (string \<times> 'v jsv) list \<Rightarrow> 'v update_options \<Rightarrow> ('c, 'd, nat) write_io" where
  "updateMany_rows W a e data op = runUpdateMany W a e data op"

definition update_where :: "('c, 'v, 'd) writer \<Rightarrow> ambient \<Rightarrow> 'c \<Rightarrow> 'v jsv \<Rightarrow> (string \<times> 'v jsv) list \<Rightarrow> ('c, 'd, nat) write_io" where
  "update_where W a e wh data = runUpdateMany W a e data \<lparr>where_of = wh, order_of = None, limit_of = None, with_deleted = False\<rparr>"

text \<open>\<^verbatim>\<open>increment\<close> and \<^verbatim>\<open>decrement\<close>: the column plus or minus a bound number, as an expression.\<close>
definition applyNumericDelta :: "('c, 'v, 'd) writer \<Rightarrow> ambient \<Rightarrow> 'c \<Rightarrow> 'v jsv \<Rightarrow> string \<Rightarrow> int \<Rightarrow> string \<Rightarrow> ('c, 'd, nat) write_io" where
  "applyNumericDelta W a e wh column by operator = require_metadata W e (\<lambda>t cols.
     update_where W a e wh [(column, Fragment [Sql_Text (quoted_name W (mapped_column (property_map W e cols) column)),
       Sql_Text ('' '' @ operator @ '' ''), Sql_Bind (Num by)])])"

definition executeBuilderUpdate :: "('c, 'v, 'd) writer \<Rightarrow> ambient \<Rightarrow> 'c \<Rightarrow> (string \<times> 'v jsv) list \<Rightarrow> 'v where_cond list \<Rightarrow>
    (string \<times> bool) list option \<Rightarrow> int option \<Rightarrow> ('c, 'd, nat) write_io" where
  "executeBuilderUpdate W a e sets conds order limit = require_metadata W e (\<lambda>t cols.
     if conds = [] then io_throw (Orm DELETE_WITHOUT_CONDITIONS)
     else io_then (\<lambda>w. orm_sum (assertTenantColumnNotInSetColumns (scope_facts W) a (scope_of w) e (map fst sets)) w)
      (if (case limit of Some n \<Rightarrow> n < 0 | None \<Rightarrow> False) then io_throw (Orm INVALID_QUERY)
       else executeInTransaction_rows W (let sets = with_update_stamp W e sets in
         if sets = [] then io_return 0
         else io_bind (in_scope (buildTenantWhereClause (scope_facts W) a e None Auto_Table)) (\<lambda>tenantWhere.
           let wh = conds @ opt_list tenantWhere @ opt_list (stiDiscriminatorClause W e); tables = resolveWriteTables W e t in
           io_then (assertTpcWriteHasNoLimit tables order limit)
           (executePerTable tables (\<lambda>t w. buildUpdateSql W (table_text W a w t) cols (values_assigned sets) wh order limit w))))))"

subsection \<open>Soft deletion\<close>

text \<open>
  \<^verbatim>\<open>softDelete\<close> and \<^verbatim>\<open>restore\<close> differ in the events, in the rows they write (live or trashed) and in what they assign.
\<close>
record trash_kind =
  event_name :: string
  cascade_name :: string

definition trash_write :: "('c, 'v, 'd) writer \<Rightarrow> ambient \<Rightarrow> 'c \<Rightarrow> 'v jsv \<Rightarrow> trash_kind \<Rightarrow> (string \<Rightarrow> 'v where_cond) \<Rightarrow> (string \<Rightarrow> 'v assign) \<Rightarrow>
    ('c, 'd, nat) write_io" where
  "trash_write W a e criteria k still assignment = require_metadata W e (\<lambda>t cols. case deleted_at_of W e of
     None \<Rightarrow> io_throw (Orm INVALID_QUERY)
   | Some d \<Rightarrow> io_then (io_check (check_criteria W e criteria)) (io_then (assertCriteriaHasPredicate W e criteria)
     (executeInTransaction_rows W (
       io_then (emit_criteria W [''emit:before'', ''notify:before''] (event_name k) e criteria)
       (io_then (on_criteria W (cascade_name k) e criteria)
       (io_bind (io_of_sum (resolveCriteriaWhere W e criteria)) (\<lambda>cs.
         if cs = [] then io_throw (Orm DELETE_WITHOUT_CONDITIONS)
         else io_bind (in_scope (buildTenantWhereClause (scope_facts W) a e None Auto_Table)) (\<lambda>tenantWhere.
           let wh = cs @ opt_list tenantWhere @ opt_list (stiDiscriminatorClause W e) @ [still (quoted_name W d)] in
           io_bind (if isJoinedChild W e then joined_write W e
               else executePerTable (resolveWriteTables W e t) (\<lambda>t w. exec_update (database_of W) (family W) (table_text W a w t)
                 [assignment d] (picks (database_of W) (rows w) wh) w)) (\<lambda>affected.
             io_then (if affected > 0 then emit_criteria W [''emit:after'', ''notify:after''] (event_name k) e criteria else io_return ())
             (io_return affected))))))))))"

definition softDelete :: "('c, 'v, 'd) writer \<Rightarrow> ambient \<Rightarrow> 'c \<Rightarrow> 'v jsv \<Rightarrow> ('c, 'd, nat) write_io" where
  "softDelete W a e criteria = trash_write W a e criteria \<lparr>event_name = ''SoftDelete'', cascade_name = ''cascadeSoftDeleteOneToMany''\<rparr> Is_Null Assign_Clock"

definition restore :: "('c, 'v, 'd) writer \<Rightarrow> ambient \<Rightarrow> 'c \<Rightarrow> 'v jsv \<Rightarrow> ('c, 'd, nat) write_io" where
  "restore W a e criteria = trash_write W a e criteria \<lparr>event_name = ''Restore'', cascade_name = ''cascadeRestoreOneToMany''\<rparr> Is_Not_Null Assign_Null"

end
