(* ===== verification/EntityGuards.thy ===== *)
theory EntityGuards
  imports EntityWrites
begin

section \<open>What the writes of rows guarantee\<close>

subsection \<open>Calls\<close>

datatype 'v write_call = Call_Save "(string \<times> 'v jsv) list" | Call_Delete "'v jsv" | Call_Delete_Many "'v jsv list" | Call_Clear
  | Call_Update "(string \<times> 'v jsv) list" "'v update_options" | Call_Delta "'v jsv" string int string
  | Call_Builder "(string \<times> 'v jsv) list" "'v where_cond list" "(string \<times> bool) list option" "int option"
  | Call_Soft_Delete "'v jsv" | Call_Restore "'v jsv"

definition io_unit :: "('w, 'e, 'a) io \<Rightarrow> ('w, 'e, unit) io" where
  "io_unit m = io_then m (io_return ())"

fun run_write :: "('c, 'v, 'd) writer \<Rightarrow> ambient \<Rightarrow> 'c \<Rightarrow> 'v write_call \<Rightarrow> ('c, 'd, unit) write_io" where
  "run_write W a e (Call_Save item) = io_unit (save W a e item)"
| "run_write W a e (Call_Delete criteria) = io_unit (delete W a e criteria)"
| "run_write W a e (Call_Delete_Many ids) = io_unit (deleteMany_rows W a e ids)"
| "run_write W a e Call_Clear = io_unit (clear W a e)"
| "run_write W a e (Call_Update data op) = io_unit (runUpdateMany W a e data op)"
| "run_write W a e (Call_Delta wh column by operator) = io_unit (applyNumericDelta W a e wh column by operator)"
| "run_write W a e (Call_Builder sets conds order limit) = io_unit (executeBuilderUpdate W a e sets conds order limit)"
| "run_write W a e (Call_Soft_Delete criteria) = io_unit (softDelete W a e criteria)"
| "run_write W a e (Call_Restore criteria) = io_unit (restore W a e criteria)"

subsection \<open>What a database promises\<close>

text \<open>A fragment spliced into a WHERE is an operand of AND (\<open>whole\<close>): it is parenthesised, or has no OR at its top.\<close>
fun and_operand :: "('v jsv frag \<Rightarrow> bool) \<Rightarrow> 'v where_cond \<Rightarrow> bool" where
  "and_operand whole (Splice f) = whole f"
| "and_operand whole c = True"

definition scalar_value :: "'v jsv \<Rightarrow> bool" where
  "scalar_value v \<longleftrightarrow> (case v of Bool _ \<Rightarrow> True | Num _ \<Rightarrow> True | Str _ \<Rightarrow> True | _ \<Rightarrow> False)"

definition where_laws :: "('v, 'd) database \<Rightarrow> (string \<Rightarrow> string) \<Rightarrow> ('v jsv frag \<Rightarrow> bool) \<Rightarrow> bool" where
  "where_laws D q whole \<longleftrightarrow>
     (\<forall>T cs r. list_all (and_operand whole) cs \<longrightarrow> picks D T cs r = (\<forall>c\<in>set cs. picks D T [c] r)) \<and>
     (\<forall>T x v r. scalar_value v \<longrightarrow> picks D T [Equals (q x) v] r = (value_on D [] v \<noteq> None \<and> row_cell r x = value_on D [] v)) \<and>
     (\<forall>T x r. picks D T [Is_Null (q x)] r = (row_cell r x = None)) \<and>
     (\<forall>T x r. picks D T [Is_Not_Null (q x)] r = (row_cell r x \<noteq> None))"

text \<open>A stored row has the values the INSERT stated; the tables the constraints allow have a key once.\<close>
definition store_laws :: "('v, 'd) database \<Rightarrow> string option \<Rightarrow> bool" where
  "store_laws D key \<longleftrightarrow>
     (\<forall>T t vals r. stored_row D T t vals = Inr r \<longrightarrow> (\<forall>c\<in>fst ` set vals. row_cell r c = row_cell vals c)) \<and>
     (\<forall>T t r r' k. refused_by D T = None \<longrightarrow> key = Some k \<longrightarrow> r \<in> set (T t) \<longrightarrow> r' \<in> set (T t) \<longrightarrow> row_cell r k \<noteq> None \<longrightarrow>
       row_cell r k = row_cell r' k \<longrightarrow> r = r')"

subsection \<open>Computations that leave foreign rows alone\<close>

definition foreign_rows :: "string \<Rightarrow> 'd option \<Rightarrow> 'd tables \<Rightarrow> 'd tables" where
  "foreign_rows col dt T = (\<lambda>t. filter (\<lambda>r. row_cell r col \<noteq> dt) (T t))"

definition settled_world :: "('v, 'd) database \<Rightarrow> tenant_config \<Rightarrow> ('c, 'd) write_world \<Rightarrow> bool" where
  "settled_world D c w \<longleftrightarrow> columnConfig (scope_of w) = Some c \<and> refused_by D (rows w) = None"

text \<open>\<open>spares D c col dt m P\<close>: \<open>m\<close> leaves the rows whose column \<open>col\<close> is not \<open>dt\<close> as they are, in every table, whatever its
  outcome; a value it returns satisfies \<open>P\<close>.\<close>
definition spares :: "('v, 'd) database \<Rightarrow> tenant_config \<Rightarrow> string \<Rightarrow> 'd option \<Rightarrow> ('c, 'd, 'a) write_io \<Rightarrow> ('a \<Rightarrow> bool) \<Rightarrow> bool" where
  "spares D c col dt m P \<longleftrightarrow> (\<forall>w. settled_world D c w \<longrightarrow>
     settled_world D c (snd (m w)) \<and> foreign_rows col dt (rows (snd (m w))) = foreign_rows col dt (rows w) \<and>
     (\<forall>x. fst (m w) = Inr x \<longrightarrow> P x))"

abbreviation any_value :: "'a \<Rightarrow> bool" where
  "any_value \<equiv> \<lambda>_. True"

named_theorems spare_intros \<open>how computations that spare foreign rows are composed\<close>

lemma spares_bind:
  assumes "spares D c col dt m P" "\<And>x. P x \<Longrightarrow> spares D c col dt (f x) Q"
  shows "spares D c col dt (io_bind m f) Q"
proof -
  have "settled_world D c (snd (io_bind m f w)) \<and> foreign_rows col dt (rows (snd (io_bind m f w))) = foreign_rows col dt (rows w) \<and>
    (\<forall>x. fst (io_bind m f w) = Inr x \<longrightarrow> Q x)" if g: "settled_world D c w" for w
  proof (cases "m w")
    case (Pair r w1)
    then have w1: "settled_world D c w1" "foreign_rows col dt (rows w1) = foreign_rows col dt (rows w)" "\<forall>x. r = Inr x \<longrightarrow> P x"
      using assms(1) g unfolding spares_def by (metis fst_conv snd_conv)+
    show ?thesis
    proof (cases r)
      case (Inl x)
      then show ?thesis using Pair w1 by (simp add: io_bind_def)
    next
      case (Inr x)
      then have "spares D c col dt (f x) Q" using assms(2) w1(3) by blast
      then show ?thesis using Pair Inr w1 by (simp add: io_bind_def spares_def)
    qed
  qed
  then show ?thesis by (simp add: spares_def)
qed

lemma spares_weaken: "spares D c col dt m P \<Longrightarrow> (\<And>x. P x \<Longrightarrow> Q x) \<Longrightarrow> spares D c col dt m Q"
  by (simp add: spares_def)

lemma spares_return [spare_intros]: "P x \<Longrightarrow> spares D c col dt (io_return x) P"
  and spares_throw [spare_intros]: "spares D c col dt (io_throw err) P"
  by (simp_all add: spares_def io_defs)

lemma spares_then: "spares D c col dt m any_value \<Longrightarrow> spares D c col dt k Q \<Longrightarrow> spares D c col dt (io_then m k) Q"
  unfolding io_then_def by (rule spares_bind)

lemma spares_of_sum [spare_intros]: "(\<And>y. x = Inr y \<Longrightarrow> P y) \<Longrightarrow> spares D c col dt (io_of_sum x) P"
  by (simp add: spares_def io_of_sum_def)

lemma spares_check [spare_intros]: "spares D c col dt (io_check x) any_value"
  by (simp add: spares_def io_check_def io_defs split: option.split)

lemma spares_world: "(\<And>w. settled_world D c w \<Longrightarrow> spares D c col dt (m w) P) \<Longrightarrow> spares D c col dt (\<lambda>w. m w w) P"
  by (simp add: spares_def)

lemma spares_transaction [spare_intros]:
  assumes "spares D c col dt m P"
  shows "spares D c col dt (executeInTransaction_rows W m) P"
proof -
  have "settled_world D c (snd (executeInTransaction_rows W m w)) \<and>
    foreign_rows col dt (rows (snd (executeInTransaction_rows W m w))) = foreign_rows col dt (rows w) \<and>
    (\<forall>x. fst (executeInTransaction_rows W m w) = Inr x \<longrightarrow> P x)" if g: "settled_world D c w" for w
  proof (cases "m w")
    case (Pair r w1)
    then have w1: "settled_world D c w1" "foreign_rows col dt (rows w1) = foreign_rows col dt (rows w)" "\<forall>x. r = Inr x \<longrightarrow> P x"
      using assms g unfolding spares_def by (metis fst_conv snd_conv)+
    then show ?thesis using g Pair by (cases r) (auto simp: executeInTransaction_rows_def settled_world_def)
  qed
  then show ?thesis by (simp add: spares_def)
qed

lemma spares_if [spare_intros]: "(b \<Longrightarrow> spares D c col dt m P) \<Longrightarrow> (\<not> b \<Longrightarrow> spares D c col dt k P) \<Longrightarrow> spares D c col dt (if b then m else k) P"
  by simp

subsection \<open>Statements\<close>

lemma cell_set: "row_cell (jm_set k v r) x = (if x = k then v else row_cell r x)"
  by (simp add: row_cell_def update_conv')

lemma set_row_other:
  assumes "col \<notin> assigned_column ` set sets"
  shows "row_cell (set_row D d sets r) col = row_cell r col"
proof -
  have "row_cell (fold (\<lambda>s r'. jm_set (assigned_column s) (assign_value D (if d = Mysql then r' else r) s) r') sets q) col = row_cell q col" for q
    using assms by (induction sets arbitrary: q) (auto simp: cell_set)
  then show ?thesis by (simp add: set_row_def)
qed

lemma spares_settle:
  assumes "foreign_rows col dt T = foreign_rows col dt (rows w)" "settled_world D c w" "P y"
  shows "settled_world D c (snd (settle_rows D T y w)) \<and> foreign_rows col dt (rows (snd (settle_rows D T y w))) = foreign_rows col dt (rows w) \<and>
    (\<forall>x. fst (settle_rows D T y w) = Inr x \<longrightarrow> P x)"
  using assms by (simp add: settle_rows_def settled_world_def split: option.split)

lemma spares_delete:
  fixes D :: "('v, 'd) database" and t :: "('c, 'd) write_world \<Rightarrow> string"
  assumes "\<And>T r. P T r \<Longrightarrow> row_cell r col = dt"
  shows "spares D c col dt (\<lambda>w. exec_delete D (t w) (P (rows w)) w) any_value"
  unfolding spares_def
proof (intro allI impI)
  fix w :: "('c, 'd) write_world" assume g: "settled_world D c w"
  have "filter (\<lambda>r. row_cell r col \<noteq> dt) (filter (\<lambda>r. \<not> P (rows w) r) rs) = filter (\<lambda>r. row_cell r col \<noteq> dt) rs" for rs
    using assms by (induction rs) auto
  then have "foreign_rows col dt ((rows w)(t w := filter (\<lambda>r. \<not> P (rows w) r) (rows w (t w)))) = foreign_rows col dt (rows w)"
    by (auto simp: foreign_rows_def fun_eq_iff)
  note settled = spares_settle [where P = any_value, OF this g TrueI]
  show "settled_world D c (snd (exec_delete D (t w) (P (rows w)) w)) \<and>
    foreign_rows col dt (rows (snd (exec_delete D (t w) (P (rows w)) w))) = foreign_rows col dt (rows w) \<and>
    (\<forall>x. fst (exec_delete D (t w) (P (rows w)) w) = Inr x \<longrightarrow> True)"
    by (simp add: exec_delete_def settled)
qed

lemma foreign_map:
  assumes "\<And>r. r \<in> set rs \<Longrightarrow> P r \<Longrightarrow> row_cell r col = dt \<and> row_cell (f r) col = dt"
  shows "filter (\<lambda>r. row_cell r col \<noteq> dt) (map (\<lambda>r. if P r then f r else r) rs) = filter (\<lambda>r. row_cell r col \<noteq> dt) rs"
  using assms by (induction rs) auto

lemma spares_update:
  fixes D :: "('v, 'd) database" and t :: "('c, 'd) write_world \<Rightarrow> string"
  assumes "\<And>w r. settled_world D c w \<Longrightarrow> r \<in> set (rows w (t w)) \<Longrightarrow> P w r \<Longrightarrow> row_cell r col = dt" "col \<notin> assigned_column ` set sets"
  shows "spares D c col dt (\<lambda>w. exec_update D d (t w) sets (P w) w) any_value"
  unfolding spares_def
proof (intro allI impI)
  fix w :: "('c, 'd) write_world" assume g: "settled_world D c w"
  have "foreign_rows col dt ((rows w)(t w := map (\<lambda>r. if P w r then set_row D d sets r else r) (rows w (t w)))) = foreign_rows col dt (rows w)"
    using foreign_map [of "rows w (t w)" "P w" col dt "set_row D d sets"] assms(1) [OF g] set_row_other [OF assms(2), of D d]
    by (auto simp: foreign_rows_def fun_eq_iff)
  note settled = spares_settle [where P = any_value, OF this g TrueI]
  show "settled_world D c (snd (exec_update D d (t w) sets (P w) w)) \<and>
    foreign_rows col dt (rows (snd (exec_update D d (t w) sets (P w) w))) = foreign_rows col dt (rows w) \<and>
    (\<forall>x. fst (exec_update D d (t w) sets (P w) w) = Inr x \<longrightarrow> True)"
    using g by (simp add: exec_update_def settled)
qed

lemma spares_insert:
  fixes D :: "('v, 'd) database" and t :: "('c, 'd) write_world \<Rightarrow> string"
  assumes "store_laws D key" "(col, v) \<in> set vals" "value_on D [] v = dt"
  shows "spares D c col dt (\<lambda>w. exec_insert D (t w) vals w) any_value"
  unfolding spares_def
proof (intro allI impI)
  fix w :: "('c, 'd) write_world" assume g: "settled_world D c w"
  let ?vals = "map (\<lambda>(c, v). (c, value_on D [] v)) vals"
  show "settled_world D c (snd (exec_insert D (t w) vals w)) \<and>
    foreign_rows col dt (rows (snd (exec_insert D (t w) vals w))) = foreign_rows col dt (rows w) \<and>
    (\<forall>x. fst (exec_insert D (t w) vals w) = Inr x \<longrightarrow> True)"
  proof (cases "distinct (map fst vals)")
    case True
    have keys: "map fst ?vals = map fst vals" by (simp add: comp_def split_def)
    have "(col, dt) \<in> set ?vals" using assms(2,3) by force
    then have "map_of ?vals col = Some dt" using True keys by (metis map_of_is_SomeI)
    then have own: "row_cell ?vals col = dt" by (simp add: row_cell_def)
    show ?thesis
    proof (cases "stored_row D (rows w) (t w) ?vals")
      case (Inr r)
      have "col \<in> fst ` set ?vals" using assms(2) by force
      then have "row_cell r col = row_cell ?vals col" using assms(1) Inr unfolding store_laws_def by blast
      then have "foreign_rows col dt ((rows w)(t w := rows w (t w) @ [r])) = foreign_rows col dt (rows w)"
        using own by (auto simp: foreign_rows_def fun_eq_iff)
      note settled = spares_settle [where P = any_value, OF this g TrueI]
      show ?thesis using True Inr by (simp add: exec_insert_def settled)
    qed (use True g in \<open>simp add: exec_insert_def\<close>)
  qed (use g in \<open>simp add: exec_insert_def\<close>)
qed

lemma spares_per_table:
  assumes "\<And>t. spares D c col dt (run t) any_value"
  shows "spares D c col dt (executePerTable ts run) any_value"
proof (induction ts)
  case (Cons t ts)
  show ?case unfolding executePerTable.simps
    by (rule spares_bind [OF assms]) (rule spares_bind [OF Cons], rule spares_return, simp)
qed (simp add: spares_return)

lemma where_all:
  assumes "where_laws D q whole" "list_all (and_operand whole) cs"
  shows "picks D T cs r = (\<forall>x\<in>set cs. picks D T [x] r)"
  by (rule assms(1) [unfolded where_laws_def, THEN conjunct1, THEN spec, THEN spec, THEN spec, THEN mp, OF assms(2)])

lemma where_equals:
  assumes "where_laws D q whole" "scalar_value v"
  shows "picks D T [Equals (q x) v] r = (value_on D [] v \<noteq> None \<and> row_cell r x = value_on D [] v)"
  by (rule assms(1) [unfolded where_laws_def, THEN conjunct2, THEN conjunct1, THEN spec, THEN spec, THEN spec, THEN spec, THEN mp, OF assms(2)])

lemma where_null: "where_laws D q whole \<Longrightarrow> picks D T [Is_Null (q x)] r = (row_cell r x = None)"
  by (rule iffD1 [OF where_laws_def, THEN conjunct2, THEN conjunct2, THEN conjunct1, THEN spec, THEN spec, THEN spec])

lemma where_not_null: "where_laws D q whole \<Longrightarrow> picks D T [Is_Not_Null (q x)] r = (row_cell r x \<noteq> None)"
  by (rule iffD1 [OF where_laws_def, THEN conjunct2, THEN conjunct2, THEN conjunct2, THEN spec, THEN spec, THEN spec])

lemma picks_own:
  assumes "where_laws D q whole" "list_all (and_operand whole) wh" "Equals (q col) (Str tn) \<in> set wh" "picks D T wh r"
  shows "row_cell r col = value_on D [] (Str tn)"
proof -
  have "\<forall>x\<in>set wh. picks D T [x] r" using where_all [OF assms(1,2)] assms(4) by blast
  then have "picks D T [Equals (q col) (Str tn)] r" using assms(3) by (rule bspec)
  then show ?thesis by (simp add: where_equals [OF assms(1)] scalar_value_def)
qed

subsection \<open>A tenant's writes\<close>

text \<open>The columns the ORM assigns on its own, and the join columns of relations.\<close>
definition managed_columns :: "('c, 'v, 'd) writer \<Rightarrow> 'c \<Rightarrow> entity_column list \<Rightarrow> string set" where
  "managed_columns W e cols = set (opt_list (create_stamp_of W e)) \<union> set (opt_list (update_stamp_of W e)) \<union>
     set (opt_list (version_of W e)) \<union> mapped_column (property_map W e cols) ` set (opt_list (version_of W e)) \<union>
     set (opt_list (deleted_at_of W e)) \<union> set (opt_list (getDiscriminatorColumn (hierarchy_facts W) e)) \<union>
     fk_column ` set (fk_relations W e)"

text \<open>
  A class with a tenant column of its own, in a context of tenant \<open>tn\<close>: the column is none the ORM assigns otherwise, and
  the listeners (hooks, subscribers, cascades) leave the rows of others alone.
\<close>
definition tenant_setting :: "('c, 'v, 'd) writer \<Rightarrow> ambient \<Rightarrow> 'c \<Rightarrow> tenant_config \<Rightarrow> string \<Rightarrow> ('v jsv frag \<Rightarrow> bool) \<Rightarrow> bool" where
  "tenant_setting W a e c t0 whole \<longleftrightarrow> (\<exists>cols. resolved_meta (scope_facts W) e = Some (t0, cols) \<and>
     \<not> non_tenant (scope_facts W) e \<and> \<not> isUnscoped a \<and> getCurrentTenant a \<noteq> public_name \<and>
     getStrategy (hierarchy_facts W) e \<noteq> Some JOINED \<and>
     where_laws (database_of W) (quoted_name W) whole \<and>
     store_laws (database_of W) (case pk_columns cols of [pk] \<Rightarrow> Some (db_name pk) | _ \<Rightarrow> None) \<and>
     resolveTenantColumnName (scope_facts W) c e \<notin> managed_columns W e cols)"

definition quiet_for :: "('c, 'v, 'd) writer \<Rightarrow> tenant_config \<Rightarrow> string \<Rightarrow> 'd option \<Rightarrow> bool" where
  "quiet_for W c col dt \<longleftrightarrow> (\<forall>ev e x. spares (database_of W) c col dt (on_criteria W ev e x) any_value) \<and>
     (\<forall>ev e x. spares (database_of W) c col dt (on_payload W ev e x) any_value) \<and>
     (\<forall>e k x. spares (database_of W) c col dt (cascadeSaveOneToMany W e k x) any_value)"

definition whole_criteria :: "('c, 'v, 'd) writer \<Rightarrow> 'c \<Rightarrow> ('v jsv frag \<Rightarrow> bool) \<Rightarrow> 'v jsv \<Rightarrow> bool" where
  "whole_criteria W e whole criteria \<longleftrightarrow> (\<forall>cs. resolveCriteriaWhere W e criteria = Inr cs \<longrightarrow> list_all (and_operand whole) cs)"

lemma where_setting:
  assumes "tenant_setting W a e c t0 whole" "settled_world D c w"
  shows "buildTenantWhereClause (scope_facts W) a e None target (scope_of w) =
    (Inr (Some (Equals (quoted_name W (resolveTenantColumnName (scope_facts W) c e)) (Str (getCurrentTenant a)))), scope_of w)"
proof -
  have "guarded_by (scope_facts W) a (scope_of w) e c" "single_table_rows (scope_facts W) e"
    using assms by (auto simp: tenant_setting_def guarded_by_def settled_world_def single_table_rows_def hierarchy_facts_def)
  then show ?thesis by (simp add: where_guarded_auto tenant_equals_def stated_text_def quoted_name_def)
qed

lemma spares_scope_where:
  assumes "tenant_setting W a e c t0 whole"
  shows "spares D c col dt (in_scope (buildTenantWhereClause (scope_facts W) a e None target))
    (\<lambda>x. x = Some (Equals (quoted_name W (resolveTenantColumnName (scope_facts W) c e)) (Str (getCurrentTenant a))))"
  by (simp add: spares_def in_scope_def where_setting [OF assms])

lemma spares_tenant_column:
  "spares D c col dt (tenant_column_if W e (Some p)) (\<lambda>x. x = Some (resolveTenantColumnName (scope_facts W) c e))"
  by (simp add: spares_def tenant_column_if_def settled_world_def)

lemma spares_emit:
  assumes "\<And>ev e x. spares D c col dt (on_criteria W ev e x) any_value"
  shows "spares D c col dt (emit_criteria W channels ev e criteria) any_value"
proof -
  have "spares D c col dt m any_value \<Longrightarrow>
      spares D c col dt (fold (\<lambda>ch m. io_then m (on_criteria W (ch @ ev) e criteria)) channels m) any_value" for m
    by (induction channels arbitrary: m) (auto intro: spares_then assms)
  then show ?thesis unfolding emit_criteria_def by (simp add: spares_return)
qed

lemma spares_metadata:
  assumes "resolved_meta (scope_facts W) e = Some (t0, cols)" "spares D c col dt (k t0 cols) P"
  shows "spares D c col dt (require_metadata W e k) P"
  using assms by (simp add: require_metadata_def)

lemma spares_orm: "spares D c col dt (\<lambda>w. orm_sum (f (scope_of w)) w) any_value"
  by (simp add: spares_def orm_sum_def io_defs split: sum.split)

lemma spares_has_predicate: "spares D c col dt (assertCriteriaHasPredicate W e criteria) any_value"
  unfolding assertCriteriaHasPredicate_def by (rule spares_bind [where P = any_value]) (auto intro: spares_of_sum spares_return spares_throw)

text \<open>The rows a statement of the tenant picks are its own.\<close>
lemma own_rows:
  assumes "tenant_setting W a e c t0 whole" "list_all (and_operand whole) wh"
    "Equals (quoted_name W (resolveTenantColumnName (scope_facts W) c e)) (Str (getCurrentTenant a)) \<in> set wh"
    "picks (database_of W) T wh r"
  shows "row_cell r (resolveTenantColumnName (scope_facts W) c e) = value_on (database_of W) [] (Str (getCurrentTenant a))"
  using assms by (auto simp: tenant_setting_def intro: picks_own)

lemma sti_operand: "x \<in> set (opt_list (stiDiscriminatorClause W e)) \<Longrightarrow> and_operand whole x"
  by (auto simp: stiDiscriminatorClause_def opt_list_def split: option.splits)

lemma spares_execute_delete:
  assumes "tenant_setting W a e c t0 whole" "list_all (and_operand whole) wh"
    "Equals (quoted_name W (resolveTenantColumnName (scope_facts W) c e)) (Str (getCurrentTenant a)) \<in> set wh"
  shows "spares (database_of W) c (resolveTenantColumnName (scope_facts W) c e) (value_on (database_of W) [] (Str (getCurrentTenant a)))
    (executeDelete W a e t wh) any_value"
  unfolding executeDelete_def
  by (rule spares_per_table, rule spares_delete) (rule own_rows [OF assms])

abbreviation tenant_spares :: "('c, 'v, 'd) writer \<Rightarrow> ambient \<Rightarrow> 'c \<Rightarrow> tenant_config \<Rightarrow> ('c, 'd, 'a) write_io \<Rightarrow> ('a \<Rightarrow> bool) \<Rightarrow> bool" where
  "tenant_spares W a e c m P \<equiv> spares (database_of W) c (resolveTenantColumnName (scope_facts W) c e)
     (value_on (database_of W) [] (Str (getCurrentTenant a))) m P"

abbreviation quiet_listeners :: "('c, 'v, 'd) writer \<Rightarrow> ambient \<Rightarrow> 'c \<Rightarrow> tenant_config \<Rightarrow> bool" where
  "quiet_listeners W a e c \<equiv> quiet_for W c (resolveTenantColumnName (scope_facts W) c e) (value_on (database_of W) [] (Str (getCurrentTenant a)))"

text \<open>A WHERE that narrows the caller's conditions to the tenant.\<close>
definition scoped_where :: "('c, 'v, 'd) writer \<Rightarrow> ambient \<Rightarrow> 'c \<Rightarrow> tenant_config \<Rightarrow> ('v jsv frag \<Rightarrow> bool) \<Rightarrow> 'v where_cond list \<Rightarrow> bool" where
  "scoped_where W a e c whole wh \<longleftrightarrow> list_all (and_operand whole) wh \<and>
     Equals (quoted_name W (resolveTenantColumnName (scope_facts W) c e)) (Str (getCurrentTenant a)) \<in> set wh"

lemma setting_not_joined:
  assumes "tenant_setting W a e c t0 whole"
  shows "\<not> isJoinedHierarchyDelete W e" "\<not> isJoinedChild W e"
  using assms by (auto simp: tenant_setting_def isJoinedHierarchyDelete_def isJoinedChild_def)

lemma quiet_criteria: "quiet_for W c col dt \<Longrightarrow> spares (database_of W) c col dt (on_criteria W ev e x) any_value"
  and quiet_payload: "quiet_for W c col dt \<Longrightarrow> spares (database_of W) c col dt (on_payload W ev e y) any_value"
  and quiet_children: "quiet_for W c col dt \<Longrightarrow> spares (database_of W) c col dt (cascadeSaveOneToMany W e k y) any_value"
  by (simp_all add: quiet_for_def)

lemma quiet_emit: "quiet_for W c col dt \<Longrightarrow> spares (database_of W) c col dt (emit_criteria W channels ev e x) any_value"
  by (rule spares_emit) (rule quiet_criteria)

lemma spares_delete_where:
  assumes "tenant_setting W a e c t0 whole" "whole_criteria W e whole criteria"
  shows "tenant_spares W a e c (buildDeleteWhereSql W a e criteria) (scoped_where W a e c whole)"
  unfolding buildDeleteWhereSql_def
proof (rule spares_bind [where P = "list_all (and_operand whole)"])
  show "tenant_spares W a e c (io_of_sum (resolveCriteriaWhere W e criteria)) (list_all (and_operand whole))"
    using assms(2) by (auto simp: whole_criteria_def intro: spares_of_sum)
next
  fix cs assume cs: "list_all (and_operand whole) cs"
  show "tenant_spares W a e c (if cs = [] then io_throw (Orm DELETE_WITHOUT_CONDITIONS)
      else io_bind (in_scope (buildTenantWhereClause (scope_facts W) a e None Auto_Table)) (\<lambda>tenantWhere.
        io_return (cs @ opt_list (stiDiscriminatorClause W e) @ opt_list tenantWhere))) (scoped_where W a e c whole)"
    by (rule spares_if, rule spares_throw, rule spares_bind [OF spares_scope_where [OF assms(1)]], rule spares_return)
      (use cs sti_operand [of _ W e whole] in \<open>auto simp: scoped_where_def opt_list_def list_all_iff split: option.splits\<close>)
qed

lemma spares_run_delete:
  assumes "tenant_setting W a e c t0 whole" "scoped_where W a e c whole wh"
  shows "tenant_spares W a e c (executeDelete W a e t wh) any_value"
  using assms by (intro spares_execute_delete) (auto simp: scoped_where_def)

lemma spares_if_affected: "spares D c col dt m any_value \<Longrightarrow> spares D c col dt (if b then m else io_return ()) any_value"
  by (simp add: spares_return)

lemma spares_then_return: "spares D c col dt m any_value \<Longrightarrow> spares D c col dt (io_then m (io_return x)) any_value"
  by (rule spares_then) (simp_all add: spares_return)

lemma spares_after_delete:
  assumes "quiet_for W c col dt"
  shows "spares (database_of W) c col dt (emitAfterDelete W e criteria n) any_value"
  using assms by (simp add: emitAfterDelete_def spares_return quiet_emit)

text \<open>Both deletes run the listeners around their statements.\<close>
lemma spares_delete_frame:
  assumes "quiet_for W c col dt" "spares (database_of W) c col dt m any_value"
  shows "spares (database_of W) c col dt (executeInTransaction_rows W (io_then (emitBeforeDelete W e criteria)
    (io_then (on_criteria W ''cascadeDeleteOneToMany'' e criteria) (io_bind m (\<lambda>affected.
      io_then (on_criteria W ''afterParentDelete'' e criteria) (io_then (emitAfterDelete W e criteria affected) (io_return affected))))))) any_value"
  unfolding emitBeforeDelete_def
  by (intro spares_transaction spares_then [OF quiet_emit [OF assms(1)]] spares_then [OF quiet_criteria [OF assms(1)]]
      spares_bind [OF assms(2)] spares_then_return spares_after_delete [OF assms(1)])

lemma delete_spares:
  assumes "tenant_setting W a e c t0 whole" "quiet_listeners W a e c" "whole_criteria W e whole criteria"
  shows "tenant_spares W a e c (delete W a e criteria) any_value"
proof -
  obtain cols where m: "resolved_meta (scope_facts W) e = Some (t0, cols)" using assms(1) by (auto simp: tenant_setting_def)
  show ?thesis unfolding delete_def
    by (rule spares_metadata [OF m], rule spares_then [OF spares_check], rule spares_then [OF spares_has_predicate],
        rule spares_delete_frame [OF assms(2)])
      (simp add: setting_not_joined [OF assms(1)] spares_bind [OF spares_delete_where [OF assms(1,3)] spares_run_delete [OF assms(1)]])
qed

definition whole_keys :: "('c, 'v, 'd) writer \<Rightarrow> 'c \<Rightarrow> entity_column list \<Rightarrow> ('v jsv frag \<Rightarrow> bool) \<Rightarrow> 'v jsv list \<Rightarrow> bool" where
  "whole_keys W e cols whole ids \<longleftrightarrow> (\<forall>criteria wh. compositeDeleteKeys W e (pk_columns cols) ids = Inr (criteria, wh) \<longrightarrow> list_all (and_operand whole) wh)"

lemma deleteMany_spares:
  assumes "tenant_setting W a e c t0 whole" "quiet_listeners W a e c"
    "\<And>cols. resolved_meta (scope_facts W) e = Some (t0, cols) \<Longrightarrow> whole_keys W e cols whole ids"
  shows "tenant_spares W a e c (deleteMany_rows W a e ids) any_value"
proof -
  obtain cols where m: "resolved_meta (scope_facts W) e = Some (t0, cols)" using assms(1) by (auto simp: tenant_setting_def)
  let ?keys = "case pk_columns cols of [pk] \<Rightarrow> scalarDeleteKeys W pk ids | pks \<Rightarrow> compositeDeleteKeys W e pks ids"
  have keys: "tenant_spares W a e c (io_of_sum ?keys) (\<lambda>x. list_all (and_operand whole) (snd x))"
    using assms(3) [OF m] by (intro spares_of_sum) (force simp: whole_keys_def scalarDeleteKeys_def split: list.splits if_splits)
  have stmt: "tenant_spares W a e c (io_bind (in_scope (buildTenantWhereClause (scope_facts W) a e None Auto_Table)) (\<lambda>tenantWhere.
      executeDelete W a e t0 (wh @ opt_list tenantWhere @ opt_list (stiDiscriminatorClause W e)))) any_value"
    if "list_all (and_operand whole) wh" for wh
    by (rule spares_bind [OF spares_scope_where [OF assms(1)]], rule spares_run_delete [OF assms(1)])
      (use that sti_operand [of _ W e whole] in \<open>auto simp: scoped_where_def opt_list_def list_all_iff split: option.splits\<close>)
  have run: "tenant_spares W a e c (executeInTransaction_rows W (io_then (emitBeforeDelete W e criteria)
      (io_then (on_criteria W ''cascadeDeleteOneToMany'' e criteria)
      (io_bind (if isJoinedHierarchyDelete W e then joined_write W e
          else io_bind (in_scope (buildTenantWhereClause (scope_facts W) a e None Auto_Table)) (\<lambda>tenantWhere.
            executeDelete W a e t0 (wh @ opt_list tenantWhere @ opt_list (stiDiscriminatorClause W e)))) (\<lambda>affected.
        io_then (on_criteria W ''afterParentDelete'' e criteria)
        (io_then (emitAfterDelete W e criteria affected) (io_return affected))))))) any_value"
    if "list_all (and_operand whole) wh" for criteria wh
    by (rule spares_delete_frame [OF assms(2)]) (simp add: setting_not_joined [OF assms(1)] stmt [OF that])
  show ?thesis unfolding deleteMany_rows_def
    by (rule spares_if, simp add: spares_return, rule spares_metadata [OF m], rule spares_if, rule spares_throw, rule spares_bind [OF keys])
      (simp only: split_beta run)
qed

lemma clear_spares:
  assumes "tenant_setting W a e c t0 whole"
  shows "tenant_spares W a e c (clear W a e) any_value"
proof -
  obtain cols where m: "resolved_meta (scope_facts W) e = Some (t0, cols)" using assms(1) by (auto simp: tenant_setting_def)
  let ?eq = "Equals (quoted_name W (resolveTenantColumnName (scope_facts W) c e)) (Str (getCurrentTenant a))"
  have wh: "scoped_where W a e c whole (?eq # opt_list (stiDiscriminatorClause W e))"
    using sti_operand [of _ W e whole] by (auto simp: scoped_where_def list_all_iff)
  have stmt: "tenant_spares W a e c (executePerTable ts (\<lambda>t w. exec_delete (database_of W) (table_text W a w t)
      (picks (database_of W) (rows w) (?eq # opt_list (stiDiscriminatorClause W e))) w)) any_value" for ts
    by (rule spares_per_table, rule spares_delete, rule own_rows [OF assms]) (use wh in \<open>auto simp: scoped_where_def\<close>)
  show ?thesis unfolding clear_def
    by (rule spares_metadata [OF m], rule spares_transaction)
      (simp add: setting_not_joined [OF assms], rule spares_bind [OF spares_scope_where [OF assms]], simp add: opt_list_def Let_def stmt [unfolded opt_list_def])
qed

subsection \<open>Updates\<close>

lemma set_entries_column:
  assumes "set_entries W cols m (Some col) data = Inr sets"
  shows "col \<notin> fst ` set sets"
  using assms
proof (induction data arbitrary: sets)
  case (Cons kv data)
  then show ?case by (cases kv) (auto simp: sum_map_def split: if_splits sum.splits)
qed simp

lemma with_update_stamp_column:
  assumes "col \<notin> fst ` set sets" "col \<notin> managed_columns W e cols"
  shows "col \<notin> fst ` set (with_update_stamp W e sets)"
  using assms by (auto simp: with_update_stamp_def managed_columns_def opt_list_def split: option.splits)

lemma set_clauses_column:
  assumes "buildUpdateManySetClauses W e cols (Some col) data = Inr sets" "col \<notin> managed_columns W e cols"
  shows "col \<notin> fst ` set sets"
proof -
  obtain sets0 where "set_entries W cols (property_map W e cols) (Some col) data = Inr sets0" "sets = with_update_stamp W e sets0"
    using assms(1) by (auto simp: buildUpdateManySetClauses_def sum_map_def split: sum.splits)
  then show ?thesis using set_entries_column [of W cols _ col data sets0] with_update_stamp_column [OF _ assms(2)] by blast
qed

lemma version_column:
  assumes "col \<notin> managed_columns W e cols"
  shows "col \<notin> assigned_column ` set (appendVersionIncrement W e cols data)"
  using assms by (auto simp: appendVersionIncrement_def managed_columns_def opt_list_def split: option.splits if_splits)

lemma values_assigned_column: "assigned_column ` set (values_assigned sets) = fst ` set sets"
  by (force simp: values_assigned_def)

text \<open>Outside MySQL the rows that are written are those that share a key with a row the subquery picks: that row itself.\<close>
lemma spares_update_sql:
  assumes "tenant_setting W a e c t0 whole" "resolved_meta (scope_facts W) e = Some (t0, cols)" "scoped_where W a e c whole wh"
    "resolveTenantColumnName (scope_facts W) c e \<notin> assigned_column ` set sets"
  shows "tenant_spares W a e c (\<lambda>w. buildUpdateSql W (table_text W a w t) cols sets wh order limit w) any_value"
proof (cases "family W = Mysql \<or> order = None \<and> limit = None")
  case True
  have own: "row_cell r (resolveTenantColumnName (scope_facts W) c e) = value_on (database_of W) [] (Str (getCurrentTenant a))"
    if "chosen_rows W (rows w) t wh order limit r" for w :: "('a, 'c) write_world" and t r
    using own_rows [OF assms(1)] assms(3) that by (auto simp: scoped_where_def chosen_rows_def)
  show ?thesis using True unfolding buildUpdateSql_def
    by (simp add: Let_def) (rule spares_update [OF own assms(4)])
next
  case False
  show ?thesis
  proof (cases "pk_columns cols")
    case Nil
    then show ?thesis using False by (auto simp: buildUpdateSql_def spares_def Let_def)
  next
    case (Cons pk pks)
    show ?thesis
    proof (cases pks)
      case Nil
      have laws: "store_laws (database_of W) (Some (db_name pk))" using assms(1,2) Cons Nil by (auto simp: tenant_setting_def)
      have own: "row_cell r (resolveTenantColumnName (scope_facts W) c e) = value_on (database_of W) [] (Str (getCurrentTenant a))"
        if hyp: "settled_world (database_of W) c w" "r \<in> set (rows w (table_text W a w t))"
          "row_cell r (db_name pk) \<noteq> None \<and> (\<exists>r'\<in>set (rows w (table_text W a w t)).
             chosen_rows W (rows w) (table_text W a w t) wh order limit r' \<and> row_cell r' (db_name pk) = row_cell r (db_name pk))"
        for w :: "('a, 'c) write_world" and r
      proof -
        obtain r' where r': "r' \<in> set (rows w (table_text W a w t))" "row_cell r' (db_name pk) = row_cell r (db_name pk)"
          "picks (database_of W) (rows w) wh r'" using hyp(3) by (auto simp: chosen_rows_def)
        have "r = r'" using laws hyp r' unfolding store_laws_def settled_world_def by metis
        then show ?thesis using own_rows [OF assms(1)] assms(3) r'(3) by (auto simp: scoped_where_def)
      qed
      have no: "(family W = Mysql \<or> order = None \<and> limit = None) = False" using False by simp
      show ?thesis unfolding buildUpdateSql_def Let_def no if_False Cons Nil list.case
        by (rule spares_update [OF own assms(4)])
    next
      case (Cons pk' pks')
      then show ?thesis using False \<open>pk_columns cols = pk # pks\<close> by (auto simp: buildUpdateSql_def spares_def Let_def)
    qed
  qed
qed

lemma spares_validate: "spares D c col dt (validateUpdateManyInput W a e data op) any_value"
  unfolding validateUpdateManyInput_def
  by (intro spares_if spares_throw spares_then [OF spares_check] spares_then [OF spares_has_predicate] spares_orm)

lemma spares_update_where:
  assumes "tenant_setting W a e c t0 whole" "whole_criteria W e whole (where_of op)"
  shows "tenant_spares W a e c (buildUpdateManyWhereClauses W a e op) (scoped_where W a e c whole)"
  unfolding buildUpdateManyWhereClauses_def
proof (rule spares_bind [where P = "list_all (and_operand whole)"])
  show "tenant_spares W a e c (io_of_sum (resolveCriteriaWhere W e (where_of op))) (list_all (and_operand whole))"
    using assms(2) by (auto simp: whole_criteria_def intro: spares_of_sum)
next
  fix cs assume cs: "list_all (and_operand whole) cs"
  show "tenant_spares W a e c (if cs = [] then io_throw (Orm DELETE_WITHOUT_CONDITIONS)
      else io_bind (in_scope (buildTenantWhereClause (scope_facts W) a e None Auto_Table)) (\<lambda>tenantWhere.
        io_return (cs @ opt_list tenantWhere @ opt_list (stiDiscriminatorClause W e) @
         (case deleted_at_of W e of Some d \<Rightarrow> if with_deleted op then [] else [Is_Null (quoted_name W d)] | None \<Rightarrow> []))))
      (scoped_where W a e c whole)"
    by (rule spares_if, rule spares_throw, rule spares_bind [OF spares_scope_where [OF assms(1)]], rule spares_return)
      (use cs sti_operand [of _ W e whole] in \<open>auto simp: scoped_where_def opt_list_def list_all_iff split: option.splits if_splits\<close>)
qed

lemma spares_tpc: "spares D c col dt (assertTpcWriteHasNoLimit tables order limit) any_value"
  by (simp add: assertTpcWriteHasNoLimit_def spares_throw spares_return)

lemma runUpdateMany_spares:
  assumes "tenant_setting W a e c t0 whole" "quiet_listeners W a e c" "whole_criteria W e whole (where_of op)"
  shows "tenant_spares W a e c (runUpdateMany W a e data op) any_value"
proof -
  let ?col = "resolveTenantColumnName (scope_facts W) c e"
  obtain cols where m: "resolved_meta (scope_facts W) e = Some (t0, cols)" and apart: "?col \<notin> managed_columns W e cols"
    using assms(1) by (auto simp: tenant_setting_def)
  have clauses: "tenant_spares W a e c (io_of_sum (buildUpdateManySetClauses W e cols (Some ?col) data)) (\<lambda>sets. ?col \<notin> fst ` set sets)"
    using set_clauses_column [OF _ apart] by (intro spares_of_sum) blast
  have stmt: "tenant_spares W a e c (executePerTable tables (\<lambda>t w. buildUpdateSql W (table_text W a w t) cols
      (values_assigned sets @ appendVersionIncrement W e cols data) wh order limit w)) any_value"
    if "?col \<notin> fst ` set sets" "scoped_where W a e c whole wh" for sets wh tables order limit
    using that version_column [OF apart] by (intro spares_per_table spares_update_sql [OF assms(1) m]) (auto simp: values_assigned_column [symmetric])
  show ?thesis unfolding runUpdateMany_def Let_def
    by (rule spares_metadata [OF m], rule spares_then [OF spares_validate], rule spares_transaction,
        rule spares_bind [OF spares_scope_where [OF assms(1)]], simp, rule spares_bind [OF spares_tenant_column], simp,
        rule spares_bind [OF clauses], rule spares_if, simp add: spares_return, rule spares_bind [OF spares_update_where [OF assms(1,3)]],
        rule spares_then [OF spares_tpc], rule spares_then [OF quiet_criteria [OF assms(2)]], rule spares_bind [where P = any_value])
      (simp_all add: setting_not_joined [OF assms(1)] stmt spares_then_return spares_if_affected quiet_criteria [OF assms(2)])
qed

lemma applyNumericDelta_spares:
  assumes "tenant_setting W a e c t0 whole" "quiet_listeners W a e c" "whole_criteria W e whole wh"
  shows "tenant_spares W a e c (applyNumericDelta W a e wh column by operator) any_value"
proof -
  obtain cols where m: "resolved_meta (scope_facts W) e = Some (t0, cols)" using assms(1) by (auto simp: tenant_setting_def)
  show ?thesis unfolding applyNumericDelta_def update_where_def
    by (rule spares_metadata [OF m], rule runUpdateMany_spares [OF assms(1,2)]) (simp add: assms(3))
qed

lemma executeBuilderUpdate_spares:
  assumes "tenant_setting W a e c t0 whole" "list_all (and_operand whole) conds"
  shows "tenant_spares W a e c (executeBuilderUpdate W a e sets conds order limit) any_value"
proof -
  let ?col = "resolveTenantColumnName (scope_facts W) c e"
  obtain cols where m: "resolved_meta (scope_facts W) e = Some (t0, cols)" and apart: "?col \<notin> managed_columns W e cols"
    using assms(1) by (auto simp: tenant_setting_def)
  have check: "tenant_spares W a e c (\<lambda>w. orm_sum (assertTenantColumnNotInSetColumns (scope_facts W) a (scope_of w) e (map fst sets)) w)
      (\<lambda>_. ?col \<notin> fst ` set sets)"
    using assms(1) by (auto simp: spares_def orm_sum_def io_defs assertTenantColumnNotInSetColumns_def settled_world_def tenant_setting_def
        split: sum.splits if_splits)
  have stmt: "tenant_spares W a e c (executePerTable tables (\<lambda>t w. buildUpdateSql W (table_text W a w t) cols
      (values_assigned sets') wh order limit w)) any_value"
    if "?col \<notin> fst ` set sets'" "scoped_where W a e c whole wh" for sets' wh tables
    using that by (intro spares_per_table spares_update_sql [OF assms(1) m]) (auto simp: values_assigned_column)
  have wh: "scoped_where W a e c whole (conds @ opt_list (Some (Equals (quoted_name W ?col) (Str (getCurrentTenant a)))) @ opt_list (stiDiscriminatorClause W e))"
    using assms(2) sti_operand [of _ W e whole] by (auto simp: scoped_where_def opt_list_def list_all_iff)
  show ?thesis unfolding executeBuilderUpdate_def Let_def io_then_def
    by (rule spares_metadata [OF m], rule spares_if, rule spares_throw, rule spares_bind [OF check], rule spares_if, rule spares_throw,
        rule spares_transaction, rule spares_if, simp add: spares_return, rule spares_bind [OF spares_scope_where [OF assms(1)]], simp,
        rule spares_bind [OF spares_tpc], rule stmt [OF with_update_stamp_column [OF _ apart] wh])
qed

lemma trash_spares:
  assumes "tenant_setting W a e c t0 whole" "quiet_listeners W a e c" "whole_criteria W e whole criteria"
    "\<And>x. and_operand whole (still x)" "\<And>d. assigned_column (assignment d) = d"
  shows "tenant_spares W a e c (trash_write W a e criteria k still assignment) any_value"
proof -
  let ?col = "resolveTenantColumnName (scope_facts W) c e"
  obtain cols where m: "resolved_meta (scope_facts W) e = Some (t0, cols)" and apart: "?col \<notin> managed_columns W e cols"
    using assms(1) by (auto simp: tenant_setting_def)
  show ?thesis
  proof (cases "deleted_at_of W e")
    case None
    then show ?thesis using m by (simp add: trash_write_def require_metadata_def spares_throw)
  next
    case (Some d)
    have col: "?col \<notin> assigned_column ` set [assignment d]" using apart Some assms(5) by (auto simp: managed_columns_def opt_list_def)
    have crit: "tenant_spares W a e c (io_of_sum (resolveCriteriaWhere W e criteria)) (list_all (and_operand whole))"
      using assms(3) by (auto simp: whole_criteria_def intro: spares_of_sum)
    have stmt: "tenant_spares W a e c (executePerTable tables (\<lambda>t w. exec_update (database_of W) (family W) (table_text W a w t)
        [assignment d] (picks (database_of W) (rows w) (cs @ opt_list (Some (Equals (quoted_name W ?col) (Str (getCurrentTenant a)))) @
          opt_list (stiDiscriminatorClause W e) @ [still (quoted_name W d)])) w)) any_value"
      if "list_all (and_operand whole) cs" for cs tables
      by (rule spares_per_table, rule spares_update [OF own_rows [OF assms(1)] col])
        (use that sti_operand [of _ W e whole] assms(4) in \<open>auto simp: opt_list_def list_all_iff split: option.splits\<close>)
    show ?thesis unfolding trash_write_def Let_def
      by (rule spares_metadata [OF m], simp only: Some option.case, rule spares_then [OF spares_check], rule spares_then [OF spares_has_predicate],
          rule spares_transaction, rule spares_then [OF quiet_emit [OF assms(2)]], rule spares_then [OF quiet_criteria [OF assms(2)]],
          rule spares_bind [OF crit], rule spares_if, rule spares_throw, rule spares_bind [OF spares_scope_where [OF assms(1)]], hypsubst,
          rule spares_bind [where P = any_value])
        (simp_all add: setting_not_joined [OF assms(1)] stmt spares_then_return spares_if_affected quiet_emit [OF assms(2)])
  qed
qed

subsection \<open>save()\<close>

text \<open>The tenant column is a plain column of the class, the declared property's, and its write transformation is none.\<close>
definition tenant_column_plain :: "('c, 'v, 'd) writer \<Rightarrow> ambient \<Rightarrow> 'c \<Rightarrow> tenant_config \<Rightarrow> bool" where
  "tenant_column_plain W a e c \<longleftrightarrow> (\<forall>t cols. resolved_meta (scope_facts W) e = Some (t, cols) \<longrightarrow>
     tenant_column_declared (scope_facts W) c e cols \<and> resolveTenantColumnName (scope_facts W) c e \<notin> set (computed_of W e) \<and>
     (\<forall>x\<in>set cols. db_name x = resolveTenantColumnName (scope_facts W) c e \<longrightarrow>
       applyWriteTransform W x (Str (getCurrentTenant a)) = Inr (Str (getCurrentTenant a))))"

lemma spares_emit_payload:
  assumes "quiet_for W c col dt"
  shows "spares (database_of W) c col dt (emit_payload W ev e item) any_value"
  unfolding emit_payload_def by (rule spares_bind [OF quiet_payload [OF assms]], rule spares_bind [OF quiet_payload [OF assms]], rule quiet_payload [OF assms])

lemma transform_all_member:
  assumes "transform_all f item cs = Inr ps" "x \<in> set cs" "f x (item_get item (propKey x)) = Inr v"
  shows "(x, v) \<in> set ps"
  using assms by (induction cs arbitrary: ps) (auto simp: sum_map_def split: sum.splits)

lemma transform_all_names: "transform_all f item cs = Inr ps \<Longrightarrow> map fst ps = cs"
  by (induction cs arbitrary: ps) (auto simp: sum_map_def split: sum.splits)

lemma set_planned_names [simp]: "map fst (set_planned n f ps) = map fst ps"
  by (induction ps) auto

lemma set_planned_member: "(x, v) \<in> set ps \<Longrightarrow> db_name x \<noteq> n \<Longrightarrow> (x, v) \<in> set (set_planned n f ps)"
  by (induction ps) auto

lemma set_planned_opt_member: "(x, v) \<in> set ps \<Longrightarrow> db_name x \<notin> set (opt_list n) \<Longrightarrow> (x, v) \<in> set (set_planned_opt n f ps)"
  by (cases n) (auto simp: set_planned_opt_def opt_list_def intro: set_planned_member)

lemma fill_uuids_member: "(x, v) \<in> set ps \<Longrightarrow> \<not> missing_value v \<Longrightarrow> (x, v) \<in> set (fst (fill_uuids W n ps item))"
  by (induction W n ps item rule: fill_uuids.induct) (auto simp: split_def)

lemma managed_stamps:
  assumes "col \<notin> managed_columns W e cols"
  shows "col \<notin> set (opt_list (create_stamp_of W e))" "col \<notin> set (opt_list (update_stamp_of W e))" "col \<notin> set (opt_list (version_of W e))"
    "col \<notin> fk_column ` set (fk_relations W e)" "getDiscriminatorColumn (hierarchy_facts W) e \<noteq> Some col"
  using assms by (auto simp: managed_columns_def opt_list_def)

lemma spares_insert_plan:
  assumes "tenant_column_plain W a e c" "resolved_meta (scope_facts W) e = Some (t, cols)"
    "resolveTenantColumnName (scope_facts W) c e \<notin> managed_columns W e cols"
    "item_get item (tenant_prop (scope_facts W) c e) = Str (getCurrentTenant a)"
  shows "spares D c col dt (buildInsertValuePlan W e cols item)
    (\<lambda>p. \<exists>x. db_name x = resolveTenantColumnName (scope_facts W) c e \<and> (x, Str (getCurrentTenant a)) \<in> set (fst p))"
proof -
  obtain x where x: "x \<in> set cols" "db_name x = resolveTenantColumnName (scope_facts W) c e" "propKey x = tenant_prop (scope_facts W) c e"
    and plain: "db_name x \<notin> set (computed_of W e)" "applyWriteTransform W x (Str (getCurrentTenant a)) = Inr (Str (getCurrentTenant a))"
    using assms(1,2) by (auto simp: tenant_column_plain_def tenant_column_declared_def)
  have "x \<in> set (filter (insertable W e item) cols)"
    using x plain(1) assms(4) by (simp add: insertable_def missing_value_def)
  then have "(x, Str (getCurrentTenant a)) \<in> set ps"
    if "transform_all (applyWriteTransform W) item (filter (insertable W e item) cols) = Inr ps" for ps
    using transform_all_member [OF that] plain(2) assms(4) x(3) by simp
  moreover have "db_name x \<notin> set (opt_list (create_stamp_of W e))" "db_name x \<notin> set (opt_list (update_stamp_of W e))"
      "db_name x \<notin> set (opt_list (version_of W e))" using managed_stamps [OF assms(3)] x(2) by simp_all
  ultimately show ?thesis unfolding buildInsertValuePlan_def
    by (intro spares_bind [where P = "\<lambda>ps. (x, Str (getCurrentTenant a)) \<in> set ps"] spares_of_sum)
      (auto simp: spares_def settled_world_def Let_def split_def x(2) missing_value_def intro!: exI [of _ x] fill_uuids_member set_planned_opt_member)
qed

lemma fk_plan_member:
  assumes "(x, v) \<in> set (fst plan)" "db_name x \<notin> fk_column ` set rels"
  shows "(x, v) \<in> set (fst (fold (apply_fk_column W item) rels plan))"
  using assms by (induction rels arbitrary: plan) (auto simp: apply_fk_column_def Let_def set_planned_member split: prod.splits)

lemma insert_plan_column:
  assumes "(x, v) \<in> set ps" "db_name x = col" "col \<notin> managed_columns W e cols"
  shows "(col, v) \<in> set (plan_columns (applyInsertFkColumns W e item (applyInsertDiscriminator W e (ps, []))))"
proof -
  have "(x, v) \<in> set (fst (applyInsertDiscriminator W e (ps, [])))"
    using assms managed_stamps(5) [OF assms(3)]
    by (auto simp: applyInsertDiscriminator_def insertDiscriminator_def Let_def set_planned_member split: option.splits if_splits)
  then have "(x, v) \<in> set (fst (applyInsertFkColumns W e item (applyInsertDiscriminator W e (ps, []))))"
    unfolding applyInsertFkColumns_def using managed_stamps(4) [OF assms(3)] assms(2) by (intro fk_plan_member) auto
  then show ?thesis using assms(2) by (force simp: plan_columns_def)
qed

lemma plan_columns_names: "fst ` set (plan_columns (ps, app)) = db_name ` fst ` set ps \<union> fst ` set app"
  by (force simp: plan_columns_def)

lemma update_plan_columns:
  assumes "buildUpdateSetPlan W e (Some col) cols item = Inr plan" "col \<notin> managed_columns W e cols"
  shows "col \<notin> fst ` set (plan_columns plan)"
proof -
  obtain ps where ps: "transform_all (applyWriteTransform W) item (filter (updatable W e (Some col) cols item) cols) = Inr ps"
    using assms(1) by (auto simp: buildUpdateSetPlan_def sum_map_def split: sum.splits)
  have names: "col \<notin> db_name ` fst ` set ps"
  proof -
    have "updatable W e (Some col) cols item x" if "x \<in> fst ` set ps" for x
    proof -
      have "fst ` set ps = set (filter (updatable W e (Some col) cols item) cols)" using transform_all_names [OF ps] by (metis set_map)
      then show ?thesis using that by auto
    qed
    moreover have "db_name x \<noteq> col" if "updatable W e (Some col) cols item x" for x
      using that by (simp add: updatable_def split: if_splits)
    ultimately show ?thesis by blast
  qed
  have planned: "col \<notin> fst ` set (plan_columns (set_planned n f qs, app))" if "col \<notin> fst ` set (plan_columns (qs, app))" for n f app and qs :: "(entity_column \<times> 'a jsv) list"
  proof -
    have "fst ` set (set_planned n f qs) = fst ` set qs" by (metis set_map set_planned_names)
    then show ?thesis using that by (simp add: plan_columns_names)
  qed
  have fks: "col \<notin> fst ` set (plan_columns (fst (fold (set_fk W item) rels st)))"
    if "col \<notin> fst ` set (plan_columns (fst st))" "col \<notin> fk_column ` set rels" for rels st
    using that
  proof (induction rels arbitrary: st)
    case (Cons rel rels)
    obtain qs app added where st: "st = ((qs, app), added)" by (metis prod.exhaust)
    have "col \<notin> fst ` set (plan_columns (fst (set_fk W item rel st)))"
      using Cons.prems planned [of qs app] by (auto simp: st set_fk_def Let_def plan_columns_def)
    then show ?case using Cons by simp
  qed simp
  have "col \<notin> fst ` set (plan_columns (ps, []))" using names by (simp add: plan_columns_names)
  then have "col \<notin> fst ` set (plan_columns (case update_stamp_of W e of None \<Rightarrow> (ps, [])
      | Some u \<Rightarrow> if is_planned ps u then (set_planned u (\<lambda>_. now_date W) ps, []) else (ps, [(u, now_date W)])))"
    using managed_stamps(2) [OF assms(2)] planned [of ps "[]"] by (auto simp: plan_columns_names opt_list_def split: option.splits)
  then have "col \<notin> fst ` set (plan_columns (fst (fold (set_fk W item) (fk_relations W e) (case update_stamp_of W e of None \<Rightarrow> (ps, [])
      | Some u \<Rightarrow> if is_planned ps u then (set_planned u (\<lambda>_. now_date W) ps, []) else (ps, [(u, now_date W)]), []))))"
    by (intro fks managed_stamps(4) [OF assms(2)]) simp
  moreover have "plan = fst (fold (set_fk W item) (fk_relations W e) (case update_stamp_of W e of None \<Rightarrow> (ps, [])
      | Some u \<Rightarrow> if is_planned ps u then (set_planned u (\<lambda>_. now_date W) ps, []) else (ps, [(u, now_date W)]), []))"
    using assms(1) ps by (simp add: buildUpdateSetPlan_def sum_map_def Let_def)
  ultimately show ?thesis by simp
qed

lemma spares_complete_insert:
  assumes "quiet_for W c col dt"
  shows "spares (database_of W) c col dt (completeInsert W e cols key item) any_value"
  unfolding completeInsert_def
  by (rule spares_bind [OF quiet_children [OF assms]]) (simp add: spares_throw spares_emit_payload [OF assms] split: list.split)

lemma spares_stamp:
  assumes "tenant_setting W a e c t0 whole"
  shows "spares D c col dt (\<lambda>w. orm_sum (applyTenantColumnOnInsert (scope_facts W) a (scope_of w) e item) w)
    (\<lambda>item. item_get item (tenant_prop (scope_facts W) c e) = Str (getCurrentTenant a))"
proof -
  have "item_get item' (tenant_prop (scope_facts W) c e) = Str (getCurrentTenant a)"
    if "settled_world D c w" "applyTenantColumnOnInsert (scope_facts W) a (scope_of w) e item = Inr item'" for w item'
    using assms that by (intro insert_stamp [where s = "scope_of w"]) (auto simp: tenant_setting_def guarded_by_def settled_world_def)
  then show ?thesis by (auto simp: spares_def orm_sum_def io_defs split: sum.splits)
qed

lemma spares_save_insert:
  assumes "tenant_setting W a e c t0 whole" "quiet_listeners W a e c" "tenant_column_plain W a e c"
    "resolved_meta (scope_facts W) e = Some (t0, cols)"
  shows "tenant_spares W a e c (save_insert W a e t cols given item) any_value"
proof -
  let ?col = "resolveTenantColumnName (scope_facts W) c e"
  have apart: "?col \<notin> managed_columns W e cols" and laws: "\<exists>key. store_laws (database_of W) key"
    and nj: "getStrategy (hierarchy_facts W) e \<noteq> Some JOINED"
    using assms(1,4) by (auto simp: tenant_setting_def)
  then obtain key where key: "store_laws (database_of W) key" by blast
  have stmt: "tenant_spares W a e c (io_bind (\<lambda>w. exec_insert (database_of W) (table_text W a w t)
      (plan_columns (applyInsertFkColumns W e item (applyInsertDiscriminator W e (ps, [])))) w) (\<lambda>r.
        if returns_rows W \<and> pk_columns cols = [] then io_throw Type_Failure
        else if \<not> returns_rows W \<and> family W = Postgres then emit_payload W ''afterInsert'' e item
        else completeInsert W e cols (inserted_key W cols given r) item)) any_value"
    if "db_name x = ?col" "(x, Str (getCurrentTenant a)) \<in> set ps" for x ps item
    by (rule spares_bind [OF spares_insert [OF key insert_plan_column [OF that(2,1) apart] refl]])
      (simp add: spares_throw spares_emit_payload [OF assms(2)] spares_complete_insert [OF assms(2)])
  show ?thesis unfolding save_insert_def Let_def
  proof (rule spares_bind [OF spares_emit_payload [OF assms(2)]], rule spares_bind [OF spares_stamp [OF assms(1)]],
      rule spares_bind [OF spares_insert_plan [OF assms(3,4) apart]], assumption)
    fix x :: "(string \<times> 'b jsv) list" and p :: "(entity_column \<times> 'b jsv) list \<times> (string \<times> 'b jsv) list"
    assume "\<exists>x. db_name x = ?col \<and> (x, Str (getCurrentTenant a)) \<in> set (fst p)"
    then show "tenant_spares W a e c (case p of (ps, item) \<Rightarrow>
        if getStrategy (hierarchy_facts W) e = Some JOINED \<and> isChildEntity (hierarchy_facts W) e then joined_save W e item
        else io_bind (\<lambda>w. exec_insert (database_of W) (table_text W a w t)
            (plan_columns (applyInsertFkColumns W e item (applyInsertDiscriminator W e (ps, [])))) w) (\<lambda>r.
          if returns_rows W \<and> pk_columns cols = [] then io_throw Type_Failure
          else if \<not> returns_rows W \<and> family W = Postgres then emit_payload W ''afterInsert'' e item
          else completeInsert W e cols (inserted_key W cols given r) item)) any_value"
      using nj stmt by (auto simp: split_def)
  qed
qed

lemma spares_matched: "spares D c col dt (assertUpdateMatchedRow W t pkWhere g scope) any_value"
  by (simp add: spares_def assertUpdateMatchedRow_def)

lemma spares_single_update:
  assumes "tenant_setting W a e c t0 whole" "scoped_where W a e c whole wh"
    "resolveTenantColumnName (scope_facts W) c e \<notin> assigned_column ` set sets"
  shows "tenant_spares W a e c (\<lambda>w. executeSingleTableUpdate W (table_text W a w t) sets wh pkWhere g scope w) any_value"
proof -
  have "tenant_spares W a e c (\<lambda>w. exec_update (database_of W) (family W) u sets (picks (database_of W) (rows w) wh) w) any_value" for u
    by (rule spares_update [OF own_rows [OF assms(1)] assms(3)]) (use assms(2) in \<open>auto simp: scoped_where_def\<close>)
  then have "tenant_spares W a e c (executeSingleTableUpdate W u sets wh pkWhere g scope) any_value" for u
    unfolding executeSingleTableUpdate_def by (rule spares_bind) (simp add: spares_matched spares_return)
  then show ?thesis by (intro spares_world [where m = "\<lambda>w. executeSingleTableUpdate W (table_text W a w t) sets wh pkWhere g scope"])
qed

lemma spares_save_update:
  assumes "tenant_setting W a e c t0 whole" "quiet_listeners W a e c" "resolved_meta (scope_facts W) e = Some (t0, cols)"
  shows "tenant_spares W a e c (save_update W a e t cols given item) any_value"
proof -
  let ?col = "resolveTenantColumnName (scope_facts W) c e"
  let ?eq = "Equals (quoted_name W ?col) (Str (getCurrentTenant a))"
  have apart: "?col \<notin> managed_columns W e cols" and nj: "getStrategy (hierarchy_facts W) e \<noteq> Some JOINED"
    using assms(1,3) by (auto simp: tenant_setting_def)
  have plan: "tenant_spares W a e c (io_of_sum (buildUpdateSetPlan W e (Some ?col) cols item)) (\<lambda>plan. ?col \<notin> fst ` set (plan_columns plan))" for item
    using update_plan_columns [OF _ apart] by (intro spares_of_sum) blast
  have sets: "?col \<notin> assigned_column ` set (map (\<lambda>(c, v). Assign_Value c v) (plan_columns plan) @ map Assign_Next (opt_list (version_of W e)))"
    if "?col \<notin> fst ` set (plan_columns plan)" for plan :: "'b insert_plan"
    using that values_assigned_column [of "plan_columns plan"] managed_stamps(3) [OF apart] by (auto simp: values_assigned_def image_Un)
  have wh: "scoped_where W a e c whole (buildPkWhere_conds W cols item @ opt_list (Some ?eq) @ opt_list (stiDiscriminatorClause W e) @
      (if g then [Equals v cur] else []))" for item g v cur
    using sti_operand [of _ W e whole] by (auto simp: scoped_where_def opt_list_def buildPkWhere_conds_def list_all_iff)
  show ?thesis unfolding save_update_def Let_def
    by (rule spares_bind [OF spares_scope_where [OF assms(1)]], hypsubst, rule spares_bind [OF spares_tenant_column], hypsubst,
        rule spares_bind [OF spares_emit_payload [OF assms(2)]], rule spares_bind [OF spares_orm], rule spares_bind [OF plan],
        rule spares_if, simp add: nj, rule spares_bind [where P = any_value], rule spares_if,
        rule spares_single_update [OF assms(1) wh sets], assumption, simp add: spares_return,
        rule spares_bind [OF quiet_children [OF assms(2)]], rule spares_emit_payload [OF assms(2)])
qed

lemma save_spares:
  assumes "tenant_setting W a e c t0 whole" "quiet_listeners W a e c" "tenant_column_plain W a e c"
  shows "tenant_spares W a e c (save W a e item) any_value"
proof -
  obtain cols where m: "resolved_meta (scope_facts W) e = Some (t0, cols)" using assms(1) by (auto simp: tenant_setting_def)
  show ?thesis unfolding save_def Let_def
    by (rule spares_metadata [OF m], rule spares_then [OF spares_check], rule spares_transaction, rule spares_bind [OF quiet_payload [OF assms(2)]],
        rule spares_if, rule spares_save_insert [OF assms m], rule spares_save_update [OF assms(1,2) m])
qed

subsection \<open>Isolation\<close>

text \<open>Raw fragments among the caller's conditions are operands of AND.\<close>
fun whole_call :: "('c, 'v, 'd) writer \<Rightarrow> 'c \<Rightarrow> ('v jsv frag \<Rightarrow> bool) \<Rightarrow> 'v write_call \<Rightarrow> bool" where
  "whole_call W e whole (Call_Delete criteria) = whole_criteria W e whole criteria"
| "whole_call W e whole (Call_Delete_Many ids) =
     (\<forall>t cols. resolved_meta (scope_facts W) e = Some (t, cols) \<longrightarrow> whole_keys W e cols whole ids)"
| "whole_call W e whole (Call_Update data op) = whole_criteria W e whole (where_of op)"
| "whole_call W e whole (Call_Delta wh column by operator) = whole_criteria W e whole wh"
| "whole_call W e whole (Call_Builder sets conds order limit) = list_all (and_operand whole) conds"
| "whole_call W e whole (Call_Soft_Delete criteria) = whole_criteria W e whole criteria"
| "whole_call W e whole (Call_Restore criteria) = whole_criteria W e whole criteria"
| "whole_call W e whole call = True"

lemma spares_void: "spares D c col dt m any_value \<Longrightarrow> spares D c col dt (io_unit m) any_value"
  unfolding io_unit_def by (rule spares_then_return)

lemma run_write_spares:
  assumes "tenant_setting W a e c t0 whole" "quiet_listeners W a e c" "tenant_column_plain W a e c" "whole_call W e whole call"
  shows "tenant_spares W a e c (run_write W a e call) any_value"
  using assms by (cases call)
    (auto intro!: spares_void intro: save_spares delete_spares deleteMany_spares clear_spares runUpdateMany_spares applyNumericDelta_spares
      executeBuilderUpdate_spares trash_spares simp: softDelete_def restore_def)

text \<open>C1: Under \<^verbatim>\<open>tenant_column\<close> no write of an entity, in the context of a tenant, touches a row of another tenant: save,
  delete, deleteMany, clear, update, updateMany, increment, a builder's update, softDelete and restore leave the rows
  whose tenant column holds another value as they were and where they were, in every table, and add none, whether they
  succeed or fail. The class is not part of a JOINED hierarchy, no relation has the tenant column as its join column, raw
  fragments of the criteria are operands of AND, and the listeners keep to the same rule.\<close>
theorem writes_stay_in_tenant:
  assumes "tenant_setting W a e c t0 whole" "quiet_listeners W a e c" "tenant_column_plain W a e c" "whole_call W e whole call"
    and "columnConfig (scope_of w) = Some c" "refused_by (database_of W) (rows w) = None"
  shows "foreign_rows (resolveTenantColumnName (scope_facts W) c e) (value_on (database_of W) [] (Str (getCurrentTenant a)))
      (rows (snd (run_write W a e call w))) =
    foreign_rows (resolveTenantColumnName (scope_facts W) c e) (value_on (database_of W) [] (Str (getCurrentTenant a))) (rows w)"
  using run_write_spares [OF assms(1-4)] assms(5,6) by (simp add: spares_def settled_world_def)

subsection \<open>Criteria without a predicate\<close>

text \<open>The criteria of a call, for those that have one.\<close>
fun call_criteria :: "'v write_call \<Rightarrow> 'v jsv option" where
  "call_criteria (Call_Delete criteria) = Some criteria"
| "call_criteria (Call_Update data op) = Some (where_of op)"
| "call_criteria (Call_Delta wh column by operator) = Some wh"
| "call_criteria (Call_Soft_Delete criteria) = Some criteria"
| "call_criteria (Call_Restore criteria) = Some criteria"
| "call_criteria call = None"

text \<open>The call passes the checks that come first: of its keys, of its limit, of the class's \<^verbatim>\<open>@DeletedAt\<close>.\<close>
fun checked_call :: "('c, 'v, 'd) writer \<Rightarrow> 'c \<Rightarrow> entity_column list \<Rightarrow> 'v write_call \<Rightarrow> bool" where
  "checked_call W e cols (Call_Update data op) = ((\<forall>n. limit_of op = Some n \<longrightarrow> 0 \<le> n) \<and> check_set_keys W e data = None)"
| "checked_call W e cols (Call_Delta wh column by operator) = (\<forall>v. check_set_keys W e [(column, v)] = None)"
| "checked_call W e cols (Call_Soft_Delete criteria) = (deleted_at_of W e \<noteq> None)"
| "checked_call W e cols (Call_Restore criteria) = (deleted_at_of W e \<noteq> None)"
| "checked_call W e cols call = True"

text \<open>C10: A delete, an update, an increment, a soft delete or a restore whose criteria resolve to no predicate is refused
  before anything happens: no listener has run, no row, no warning and no other state has changed.\<close>
theorem unconditional_write_refused:
  assumes "resolved_meta (scope_facts W) e = Some (t, cols)" "call_criteria call = Some criteria" "checked_call W e cols call"
    and "check_criteria W e criteria = None" "resolveCriteriaWhere W e criteria = Inr []"
  shows "run_write W a e call w = (Inl (Orm DELETE_WITHOUT_CONDITIONS), w)"
proof -
  have "assertCriteriaHasPredicate W e criteria w = (Inl (Orm DELETE_WITHOUT_CONDITIONS), w)"
    using assms(5) by (simp add: assertCriteriaHasPredicate_def io_of_sum_def io_defs)
  then show ?thesis using assms
    by (cases call) (auto simp: delete_def runUpdateMany_def applyNumericDelta_def update_where_def validateUpdateManyInput_def softDelete_def
        restore_def trash_write_def require_metadata_def io_check_def io_unit_def io_defs split: option.splits if_splits)
qed

subsection \<open>The optimistic lock\<close>

text \<open>Listeners and cascades that do nothing.\<close>
definition silent_listeners :: "('c, 'v, 'd) writer \<Rightarrow> bool" where
  "silent_listeners W \<longleftrightarrow> (\<forall>ev e x. on_payload W ev e x = io_return x) \<and> (\<forall>ev e x. on_criteria W ev e x = io_return ()) \<and>
     (\<forall>e k x. cascadeSaveOneToMany W e k x = io_return x)"

lemma silent_payload: "silent_listeners W \<Longrightarrow> on_payload W ev e x = io_return x"
  and silent_children: "silent_listeners W \<Longrightarrow> cascadeSaveOneToMany W e k x = io_return x"
  and silent_criteria: "silent_listeners W \<Longrightarrow> on_criteria W ev e x0 = io_return ()"
  by (simp_all add: silent_listeners_def)

lemma io_bind_return: "io_bind (io_return x) f = f x" "io_then (io_return x) k = k"
  by (simp_all add: io_defs)

lemma silent_emit_payload: "silent_listeners W \<Longrightarrow> emit_payload W ev e x = io_return x"
  by (simp add: emit_payload_def silent_payload io_bind_return)

lemma silent_emit: "silent_listeners W \<Longrightarrow> emit_criteria W chs ev e x = io_return ()"
proof -
  assume "silent_listeners W"
  then have "fold (\<lambda>ch m. io_then m (on_criteria W (ch @ ev) e x)) chs (io_return ()) = io_return ()"
    by (induction chs) (simp_all add: silent_criteria io_bind_return)
  then show ?thesis by (simp add: emit_criteria_def)
qed

lemma set_row_next:
  assumes "v \<notin> assigned_column ` set sets"
  shows "row_cell (set_row D d (sets @ [Assign_Next v]) r) v = next_value D (row_cell r v)"
  using set_row_other [OF assms, of D d r] by (cases "d = Mysql") (simp_all add: set_row_def cell_set)

text \<open>A save of a row that exists, of a class with a version, without tenants and hierarchies: the payload states its key
  and the version it read; \<open>plan\<close> is its SET list.\<close>
definition versioned_save :: "('c, 'v, 'd) writer \<Rightarrow> 'c \<Rightarrow> string \<Rightarrow> entity_column list \<Rightarrow> (string \<times> 'v jsv) list \<Rightarrow> string \<Rightarrow> 'v jsv \<Rightarrow> 'v insert_plan \<Rightarrow> bool" where
  "versioned_save W e t cols item v cur plan \<longleftrightarrow>
     resolved_meta (scope_facts W) e = Some (t, cols) \<and> check_payload W e item = None \<and> silent_listeners W \<and>
     getStrategy (hierarchy_facts W) e = None \<and> has_generated_key cols \<and>
     (\<exists>pk pks. pk_columns cols = pk # pks \<and> truthy (item_get item (propKey pk))) \<and>
     version_of W e = Some v \<and> (\<exists>vc. find (\<lambda>x. db_name x = v) cols = Some vc \<and> item_get item (propKey vc) = cur) \<and>
     scalar_value cur \<and> value_on (database_of W) [] cur \<noteq> None \<and>
     buildUpdateSetPlan W e None cols item = Inr plan \<and> v \<notin> fst ` set (plan_columns plan) \<and>
     (family W = Postgres \<longrightarrow> distinct (map fst (plan_columns plan))) \<and> (\<forall>x. next_value (database_of W) x \<noteq> x)"

lemma scalar_not_missing: "scalar_value v \<Longrightarrow> \<not> missing_value v"
  by (auto simp: scalar_value_def missing_value_def)

lemma no_sti: "getStrategy (hierarchy_facts W) e = None \<Longrightarrow> stiDiscriminatorClause W e = None"
  by (simp add: stiDiscriminatorClause_def getSingleTableChildDiscriminator_def)

lemma versioned_save_update:
  assumes "versioned_save W e t cols item v cur plan" "columnConfig (scope_of w) = None"
  shows "save W a e item w = executeInTransaction_rows W (\<lambda>w. io_then (executeSingleTableUpdate W (table_text W a w t)
      (values_assigned (plan_columns plan) @ [Assign_Next v]) (buildPkWhere_conds W cols item @ [Equals (quoted_name W v) cur]) (buildPkWhere_conds W cols item) True [])
      (io_return item) w) w"
proof -
  obtain pk pks vc where facts: "resolved_meta (scope_facts W) e = Some (t, cols)" "check_payload W e item = None" "silent_listeners W"
    "getStrategy (hierarchy_facts W) e = None" "has_generated_key cols" "pk_columns cols = pk # pks" "truthy (item_get item (propKey pk))"
    "version_of W e = Some v" "find (\<lambda>x. db_name x = v) cols = Some vc" "item_get item (propKey vc) = cur" "scalar_value cur"
    "buildUpdateSetPlan W e None cols item = Inr plan"
    using assms(1) by (auto simp: versioned_save_def)
  have "save_update W a e t cols given item w' = io_then (executeSingleTableUpdate W (table_text W a w' t)
      (values_assigned (plan_columns plan) @ [Assign_Next v]) (buildPkWhere_conds W cols item @ [Equals (quoted_name W v) cur]) (buildPkWhere_conds W cols item) True [])
      (io_return item) w'" if "columnConfig (scope_of w') = None" for given w'
    using facts that scalar_not_missing [of cur] no_sti [of W e]
    by (simp add: save_update_def in_scope_def buildTenantWhereClause_def tenant_column_if_def silent_emit_payload silent_children
        assertTenantColumnOnUpdate_def orm_sum_def io_of_sum_def io_defs opt_list_def values_assigned_def Let_def)
  then show ?thesis using facts assms(2)
    by (simp add: save_def require_metadata_def io_check_def io_bind_return silent_payload executeInTransaction_rows_def)
qed

text \<open>C3: Optimistic locking. A save that states the version it read writes the row of its key exactly when that row still
  has this version, and then counts the version up; when no row of the key has it, the save is an
  \<^verbatim>\<open>OptimisticLockError\<close> and nothing has changed. Rows of other keys or versions are never touched.\<close>
theorem optimistic_lock:
  assumes "versioned_save W e t cols item v cur plan" "columnConfig (scope_of w) = None" "where_laws (database_of W) (quoted_name W) whole"
    and "refused_by (database_of W) (rows w) = None"
    and "hit = (\<lambda>r. picks (database_of W) (rows w) (buildPkWhere_conds W cols item) r \<and> row_cell r v = value_on (database_of W) [] cur)"
    and "write = set_row (database_of W) (family W) (values_assigned (plan_columns plan) @ [Assign_Next v])"
    and "T = (rows w)(table_text W a w t := map (\<lambda>r. if hit r then write r else r) (rows w (table_text W a w t)))"
  shows "save W a e item w =
      (if \<exists>r\<in>set (rows w (table_text W a w t)). hit r
       then (case refused_by (database_of W) T of Some n \<Rightarrow> (Inl (Refused n), w) | None \<Rightarrow> (Inr item, w\<lparr>rows := T\<rparr>))
       else (Inl (Orm OPTIMISTIC_LOCK_FAILED), w)) \<and>
    (\<forall>r. row_cell (write r) v = next_value (database_of W) (row_cell r v))"
proof -
  let ?D = "database_of W" and ?tt = "table_text W a w t"
  have facts: "scalar_value cur" "value_on ?D [] cur \<noteq> None" "v \<notin> fst ` set (plan_columns plan)"
    "family W = Postgres \<longrightarrow> distinct (map fst (plan_columns plan))" "\<forall>x. next_value ?D x \<noteq> x"
    using assms(1) by (auto simp: versioned_save_def)
  have names: "map assigned_column (values_assigned ps) = map fst ps" for ps :: "(string \<times> 'b jsv) list"
    by (simp add: values_assigned_def comp_def split_def)
  have bumped: "row_cell (write r) v = next_value ?D (row_cell r v)" for r
    unfolding assms(6) by (rule set_row_next) (simp add: values_assigned_column facts(3))
  then have changed: "write r \<noteq> r" for r using facts(5) by metis
  have ops: "list_all (and_operand whole) (buildPkWhere_conds W cols item)" by (simp add: buildPkWhere_conds_def list_all_iff)
  have picked: "picks ?D (rows w) (buildPkWhere_conds W cols item @ [Equals (quoted_name W v) cur]) = hit"
  proof
    fix r
    have "picks ?D (rows w) (buildPkWhere_conds W cols item @ [Equals (quoted_name W v) cur]) r \<longleftrightarrow>
        (\<forall>x\<in>set (buildPkWhere_conds W cols item @ [Equals (quoted_name W v) cur]). picks ?D (rows w) [x] r)"
      by (rule where_all [OF assms(3)]) (use ops in simp)
    also have "\<dots> \<longleftrightarrow> (\<forall>x\<in>set (buildPkWhere_conds W cols item). picks ?D (rows w) [x] r) \<and> picks ?D (rows w) [Equals (quoted_name W v) cur] r"
      by auto
    also have "\<dots> \<longleftrightarrow> picks ?D (rows w) (buildPkWhere_conds W cols item) r \<and> row_cell r v = value_on ?D [] cur"
      using where_all [OF assms(3) ops] where_equals [OF assms(3) facts(1)] facts(2) by metis
    finally show "picks ?D (rows w) (buildPkWhere_conds W cols item @ [Equals (quoted_name W v) cur]) r = hit r" by (simp add: assms(5))
  qed
  have dist: "(family W = Postgres \<and> \<not> distinct (map assigned_column (values_assigned (plan_columns plan) @ [Assign_Next v]))) = False"
    using facts(3,4) by (simp add: names values_assigned_column)
  have same: "T = rows w" if "\<not> (\<exists>r\<in>set (rows w ?tt). hit r)"
    using that unfolding assms(7) by (auto simp: fun_eq_iff intro!: map_idI)
  have count: "length (filter (\<lambda>r. hit r \<and> (counts_identical ?D \<or> write r \<noteq> r)) (rows w ?tt)) = 0 \<longleftrightarrow> \<not> (\<exists>r\<in>set (rows w ?tt). hit r)"
    by (simp add: changed filter_empty_conv)
  have upd: "exec_update ?D (family W) ?tt (values_assigned (plan_columns plan) @ [Assign_Next v]) hit w =
      settle_rows ?D T (length (filter (\<lambda>r. hit r \<and> (counts_identical ?D \<or> write r \<noteq> r)) (rows w ?tt))) w"
    unfolding exec_update_def dist if_False assms(6,7) ..
  have run: "executeSingleTableUpdate W ?tt (values_assigned (plan_columns plan) @ [Assign_Next v])
      (buildPkWhere_conds W cols item @ [Equals (quoted_name W v) cur]) (buildPkWhere_conds W cols item) True [] w =
      (if \<exists>r\<in>set (rows w ?tt). hit r then (case refused_by ?D T of Some n \<Rightarrow> (Inl (Refused n), w) | None \<Rightarrow> (Inr (), w\<lparr>rows := T\<rparr>))
       else (Inl (Orm OPTIMISTIC_LOCK_FAILED), w))"
    using count same assms(4)
    by (auto simp: executeSingleTableUpdate_def picked io_bind_def upd settle_rows_def assertUpdateMatchedRow_def io_defs split: option.split)
  show ?thesis
    by (auto simp: versioned_save_update [OF assms(1,2)] executeInTransaction_rows_def io_then_def io_bind_def run io_return_apply bumped split: option.split)
qed

subsection \<open>Soft deletion and back\<close>

lemma update_same: "map_of r k = Some x \<Longrightarrow> jm_set k x r = r"
  by (induction r) (auto split: if_splits)

lemma update_twice: "jm_set k x (jm_set k y r) = jm_set k x r"
  by (induction r) auto

text \<open>
  The conditions a soft delete and its restore share, with the tenant's and the hierarchy's; they read neither the column
  \<^verbatim>\<open>@DeletedAt\<close> nor other rows, and every row they pick is live.
\<close>
definition live_target :: "('c, 'v, 'd) writer \<Rightarrow> 'c \<Rightarrow> string \<Rightarrow> 'v where_cond list \<Rightarrow> ('v jsv frag \<Rightarrow> bool) \<Rightarrow> 'd tables \<Rightarrow> string \<Rightarrow> bool" where
  "live_target W e d cs whole T t \<longleftrightarrow> list_all (and_operand whole) cs \<and>
     (\<forall>T' T'' r x. picks (database_of W) T' cs (jm_set d x r) = picks (database_of W) T'' cs r) \<and>
     (\<forall>r\<in>set (T t). picks (database_of W) T cs r \<longrightarrow> map_of r d = Some None)"

definition plain_trash :: "('c, 'v, 'd) writer \<Rightarrow> ambient \<Rightarrow> 'c \<Rightarrow> string \<Rightarrow> string \<Rightarrow> 'v jsv \<Rightarrow> 'v where_cond list \<Rightarrow> 'v where_cond option \<Rightarrow> 'c tenant_scope \<Rightarrow> bool" where
  "plain_trash W a e t d criteria cs p s \<longleftrightarrow> (\<exists>cols. resolved_meta (scope_facts W) e = Some (t, cols)) \<and> deleted_at_of W e = Some d \<and>
     check_criteria W e criteria = None \<and> silent_listeners W \<and> \<not> isJoinedChild W e \<and> tpc_tables W e = None \<and>
     resolveCriteriaWhere W e criteria = Inr cs \<and> cs \<noteq> [] \<and>
     buildTenantWhereClause (scope_facts W) a e None Auto_Table s = (Inr p, s)"

lemma trash_write_eval:
  assumes "plain_trash W a e t d criteria cs p (scope_of w)"
  shows "trash_write W a e criteria k still assignment w = executeInTransaction_rows W (\<lambda>w. exec_update (database_of W) (family W) (table_text W a w t)
    [assignment d] (picks (database_of W) (rows w) (cs @ opt_list p @ opt_list (stiDiscriminatorClause W e) @ [still (quoted_name W d)])) w) w"
proof -
  have scope: "in_scope (buildTenantWhereClause (scope_facts W) a e None Auto_Table) w = (Inr p, w)"
    using assms by (simp add: plain_trash_def in_scope_def)
  have body: "io_bind (executePerTable [t] (\<lambda>t w. exec_update (database_of W) (family W) (table_text W a w t) [assignment d] (P w) w)) (\<lambda>n.
      io_then (if n > 0 then io_return () else io_return ()) (io_return n)) w =
    exec_update (database_of W) (family W) (table_text W a w t) [assignment d] (P w) w" for P :: "('a, 'c) write_world \<Rightarrow> 'c row \<Rightarrow> bool"
    by (auto simp: io_defs split: prod.split sum.split)
  show ?thesis using assms
    by (auto simp: plain_trash_def trash_write_def require_metadata_def io_check_def io_bind_return silent_emit silent_criteria
        assertCriteriaHasPredicate_def io_of_sum_def executeInTransaction_rows_def io_bind_def io_then_def scope resolveWriteTables_def Let_def
        io_return_apply body [unfolded io_bind_def io_then_def] split: prod.split sum.split)
qed

lemma exec_update_one:
  assumes "\<And>r. r \<in> set (rows w t) \<Longrightarrow> P r = Q r" "\<And>r. r \<in> set (rows w t) \<Longrightarrow> Q r \<Longrightarrow> f r \<noteq> r"
    and "\<And>r. jm_set (assigned_column s) (assign_value D r s) r = f r"
  shows "exec_update D d t [s] P w = settle_rows D ((rows w)(t := map (\<lambda>r. if Q r then f r else r) (rows w t))) (length (filter Q (rows w t))) w"
proof -
  have one: "set_row D d [s] = f" by (rule ext) (use assms(3) in \<open>simp add: set_row_def\<close>)
  have rows: "map (\<lambda>r. if P r then f r else r) (rows w t) = map (\<lambda>r. if Q r then f r else r) (rows w t)"
    by (rule map_cong [OF refl]) (simp add: assms(1))
  have count: "filter (\<lambda>r. P r \<and> (counts_identical D \<or> f r \<noteq> r)) (rows w t) = filter Q (rows w t)"
    by (rule filter_cong [OF refl]) (use assms(1,2) in auto)
  show ?thesis unfolding exec_update_def one rows count by simp
qed

text \<open>C6: Restoring what a soft delete has trashed brings back every row exactly as it was, and reports as many rows, when
  the criteria picked live rows only.\<close>
theorem restore_undoes_softDelete:
  assumes "plain_trash W a e t d criteria cs p (scope_of w)"
    and "live_target W e d (cs @ opt_list p @ opt_list (stiDiscriminatorClause W e)) whole (rows w) (table_text W a w t)"
    and "where_laws (database_of W) (quoted_name W) whole" "clock_value (database_of W) \<noteq> None" "refused_by (database_of W) (rows w) = None"
    and "softDelete W a e criteria w = (Inr n, w')"
  shows "restore W a e criteria w' = (Inr n, w) \<and> n = length (filter (picks (database_of W) (rows w)
      (cs @ opt_list p @ opt_list (stiDiscriminatorClause W e))) (rows w (table_text W a w t)))"
proof -
  let ?D = "database_of W" and ?tt = "table_text W a w t" and ?cs = "cs @ opt_list p @ opt_list (stiDiscriminatorClause W e)"
  let ?down = "jm_set d (clock_value ?D)" and ?hit = "picks ?D (rows w) ?cs"
  have ops: "list_all (and_operand whole) ?cs" and free: "\<And>T T' r x. picks ?D T ?cs (jm_set d x r) = picks ?D T' ?cs r"
    and live: "\<And>r. r \<in> set (rows w ?tt) \<Longrightarrow> ?hit r \<Longrightarrow> map_of r d = Some None"
    using assms(2) by (auto simp: live_target_def)
  have split: "picks ?D T (?cs @ [x]) r \<longleftrightarrow> picks ?D T ?cs r \<and> picks ?D T [x] r" if "and_operand whole x" for T x r
  proof -
    have "picks ?D T (?cs @ [x]) r \<longleftrightarrow> (\<forall>y\<in>set (?cs @ [x]). picks ?D T [y] r)"
      by (rule where_all [OF assms(3)]) (use ops that in simp)
    also have "\<dots> \<longleftrightarrow> (\<forall>y\<in>set ?cs. picks ?D T [y] r) \<and> picks ?D T [x] r" by auto
    finally show ?thesis using where_all [OF assms(3) ops] by metis
  qed
  have down: "picks ?D T (?cs @ [Is_Null (quoted_name W d)]) r \<longleftrightarrow> picks ?D T ?cs r \<and> row_cell r d = None"
    and up: "picks ?D T (?cs @ [Is_Not_Null (quoted_name W d)]) r \<longleftrightarrow> picks ?D T ?cs r \<and> row_cell r d \<noteq> None" for T r
    by (simp_all only: split and_operand.simps where_null [OF assms(3)] where_not_null [OF assms(3)])
  have same: "?hit r \<and> row_cell r d = None \<longleftrightarrow> ?hit r" if "r \<in> set (rows w ?tt)" for r
    using live [OF that] by (auto simp: row_cell_def)
  have moved: "?down r \<noteq> r" if "r \<in> set (rows w ?tt)" "?hit r" for r
    using live [OF that] assms(4) by (metis map_of_is_SomeI option.inject update_conv' fun_upd_same)
  let ?T1 = "(rows w)(?tt := map (\<lambda>r. if ?hit r then ?down r else r) (rows w ?tt))"
  have soft: "exec_update ?D (family W) ?tt [Assign_Clock d] (picks ?D (rows w) (?cs @ [Is_Null (quoted_name W d)])) w =
      settle_rows ?D ?T1 (length (filter ?hit (rows w ?tt))) w"
    by (rule exec_update_one) (simp_all add: down [simplified append_assoc] same moved)
  have w': "w' = w\<lparr>rows := ?T1\<rparr>" and n: "n = length (filter ?hit (rows w ?tt))"
    using assms(6) unfolding softDelete_def trash_write_eval [OF assms(1)] append_assoc [symmetric]
    by (auto simp: executeInTransaction_rows_def soft [simplified append_assoc] settle_rows_def split: option.splits sum.splits prod.splits)
  have tt: "table_text W a w' t = ?tt" by (simp add: w' table_text_def)
  have plain': "plain_trash W a e t d criteria cs p (scope_of w')" using assms(1) w' by simp
  have any: "picks ?D ?T1 ?cs r = ?hit r" and any_down: "picks ?D ?T1 ?cs (?down r) = ?hit r" for r using free by blast+
  have undone: "map (\<lambda>r. if picks ?D ?T1 ?cs r \<and> row_cell r d \<noteq> None then jm_set d None r else r) (?T1 ?tt) = rows w ?tt"
  proof -
    have "(if picks ?D ?T1 ?cs q \<and> row_cell q d \<noteq> None then jm_set d None q else q) = r"
      if "r \<in> set (rows w ?tt)" "q = (if ?hit r then ?down r else r)" for r q
    proof (cases "?hit r")
      case True
      then have "row_cell (?down r) d \<noteq> None" "jm_set d None (?down r) = r"
        using live [OF that(1)] assms(4) by (simp_all add: cell_set update_twice update_same)
      then show ?thesis using True that(2) any_down [of r] by simp
    next
      case False
      then show ?thesis using that(2) any [of r] by simp
    qed
    then show ?thesis by (simp add: map_idI)
  qed
  have hits: "filter (\<lambda>r. picks ?D ?T1 ?cs r \<and> row_cell r d \<noteq> None) (?T1 ?tt) = map ?down (filter ?hit (rows w ?tt))"
  proof -
    have "filter (\<lambda>r. picks ?D ?T1 ?cs r \<and> row_cell r d \<noteq> None) (map (\<lambda>r. if ?hit r then ?down r else r) rs) = map ?down (filter ?hit rs)" for rs
      using assms(4) any any_down by (induction rs) (auto simp: cell_set)
    then show ?thesis by simp
  qed
  have up_moved: "jm_set d None r \<noteq> r" if "r \<in> set (?T1 ?tt)" "picks ?D ?T1 ?cs r \<and> row_cell r d \<noteq> None" for r
    using that(2) by (metis cell_set)
  have revive: "exec_update ?D (family W) ?tt [Assign_Null d] (picks ?D ?T1 (?cs @ [Is_Not_Null (quoted_name W d)])) w' =
      settle_rows ?D (?T1(?tt := rows w ?tt)) n w'"
  proof -
    have "exec_update ?D (family W) ?tt [Assign_Null d] (picks ?D ?T1 (?cs @ [Is_Not_Null (quoted_name W d)])) w' =
      settle_rows ?D ((rows w')(?tt := map (\<lambda>r. if picks ?D ?T1 ?cs r \<and> row_cell r d \<noteq> None then jm_set d None r else r) (rows w' ?tt)))
        (length (filter (\<lambda>r. picks ?D ?T1 ?cs r \<and> row_cell r d \<noteq> None) (rows w' ?tt))) w'"
      by (rule exec_update_one) (use up_moved w' in \<open>simp_all add: up [simplified append_assoc]\<close>)
    also have "\<dots> = settle_rows ?D (?T1(?tt := rows w ?tt)) n w'"
    proof -
      have r': "rows w' = ?T1" by (simp add: w')
      show ?thesis unfolding r' undone hits by (simp add: n)
    qed
    finally show ?thesis .
  qed
  have home: "?T1(?tt := rows w ?tt) = rows w" by (simp add: fun_eq_iff)
  have "restore W a e criteria w' = executeInTransaction_rows W (\<lambda>w. exec_update ?D (family W) (table_text W a w t) [Assign_Null d]
      (picks ?D (rows w) (?cs @ [Is_Not_Null (quoted_name W d)])) w) w'"
    unfolding restore_def using trash_write_eval [OF plain'] by simp
  also have "\<dots> = (Inr n, w)"
  proof -
    have "rows w' = ?T1" "w'\<lparr>rows := rows w\<rparr> = w" by (simp_all add: w')
    then show ?thesis unfolding executeInTransaction_rows_def tt revive home settle_rows_def assms(5) by (simp add: revive [unfolded home append_assoc] settle_rows_def assms(5))
  qed
  finally show ?thesis using n by simp
qed

subsection \<open>A concrete database\<close>

definition js_stored :: "unit jsv \<Rightarrow> unit jsv option" where
  "js_stored v = (if missing_value v then None else Some v)"

fun holds_on :: "unit jsv row \<Rightarrow> unit where_cond \<Rightarrow> bool" where
  "holds_on r (Equals x v) = (js_stored v \<noteq> None \<and> row_cell r x = js_stored v)"
| "holds_on r (Is_Null x) = (row_cell r x = None)"
| "holds_on r (Is_Not_Null x) = (row_cell r x \<noteq> None)"
| "holds_on r (In_List x vs) = list_ex (\<lambda>v. js_stored v \<noteq> None \<and> row_cell r x = js_stored v) vs"
| "holds_on r c = False"

fun counted_up :: "unit jsv option \<Rightarrow> unit jsv option" where
  "counted_up None = Some (Num 1)"
| "counted_up (Some (Num n)) = Some (Num (n + 1))"
| "counted_up (Some v) = None"

definition demo_database :: "(unit, unit jsv) database" where
  "demo_database = \<lparr>picks = (\<lambda>T cs r. list_all (holds_on r) cs), value_on = (\<lambda>r. js_stored), next_value = counted_up,
     clock_value = Some (Str ''now''), js_value = (\<lambda>x. case x of Some v \<Rightarrow> v | None \<Rightarrow> Null), stored_row = (\<lambda>T t r. Inr r),
     refused_by = (\<lambda>T. None), within_limit = (\<lambda>os n rs r. True), counts_identical = True\<rparr>"

definition demo_writer :: "unit scope_ctx \<Rightarrow> string option \<Rightarrow> unit to_one list \<Rightarrow> (unit, unit, unit jsv) writer" where
  "demo_writer X ver rels = \<lparr>scope_facts = X, database_of = demo_database, family = Postgres, returns_rows = True, version_of = (\<lambda>e. ver),
     create_stamp_of = (\<lambda>e. None), update_stamp_of = (\<lambda>e. None), deleted_at_of = (\<lambda>e. Some ''gone''), computed_of = (\<lambda>e. []),
     many_to_ones_of = (\<lambda>e. rels), one_to_ones_of = (\<lambda>e. []), tpc_tables = (\<lambda>e. None), applyWriteTransform = (\<lambda>c v. Inr v),
     criteria_opts = (\<lambda>e. \<lparr>wrapColumn = (\<lambda>n. n), isQualified = False, tableName = None, propertyToColumn = (\<lambda>_. None), qualifyColumn = None, transformValue = None, relationFilter = None\<rparr>), is_object = (\<lambda>x. False), now_date = Str ''now'', fresh_uuid = (\<lambda>n. Num (int n)), owns_transaction = True,
     check_payload = (\<lambda>e x. None), check_set_keys = (\<lambda>e x. None), check_scalar = (\<lambda>v. None), check_criteria = (\<lambda>e x. None),
     on_payload = (\<lambda>ev e x. io_return x), on_criteria = (\<lambda>ev e x. io_return ()), cascadeSaveOneToMany = (\<lambda>e k x. io_return x),
     joined_save = (\<lambda>e x. io_return x), joined_write = (\<lambda>e. io_return 0)\<rparr>"

definition orders_columns :: "entity_column list" where
  "orders_columns = [demo_column ''id'' None True, demo_column ''org'' (Some ''org'') False, demo_column ''ver'' (Some ''version'') False,
     demo_column ''gone'' None False]"

definition order_row :: "int \<Rightarrow> string \<Rightarrow> int \<Rightarrow> unit jsv row" where
  "order_row i tn v = [(''id'', Some (Num i)), (''org'', Some (Str tn)), (''ver'', Some (Num v)), (''gone'', None)]"

definition orders_world :: "unit tenant_scope \<Rightarrow> (unit, unit jsv) write_world" where
  "orders_world s = \<lparr>rows = (\<lambda>t. if t = ''t'' then [order_row 1 ''A'' 3, order_row 2 ''B'' 7] else []), scope_of = s, uuids_drawn = 0\<rparr>"

lemmas demo_defs = demo_writer_def demo_database_def orders_world_def orders_columns_def order_row_def demo_ctx_def demo_column_def
  column_scope_def configure_def new_scope_def in_tenant_def

subsection \<open>What the writes do not guard\<close>

text \<open>A tenant column that is also the join column of a relation: the relation's key is written into it, unseen by the check
  of the payload, and the row leaves the tenant.\<close>
lemma relation_moves_row:
  "map (\<lambda>r. row_cell r ''org'') (rows (snd (save (demo_writer (demo_ctx orders_columns (Some (''org'', None))) None
       [\<lparr>relation_prop = ''owner'', join_column = Some ''org'', related_entity = (), fk_property = None\<rparr>]) (in_tenant ''A'') ()
     [(''id'', Num 1), (''owner'', Str ''B'')] (orders_world column_scope))) ''t'') = [Some (Str ''B''), Some (Str ''B'')]"
  by code_simp

text \<open>A builder's column that is set twice: both assignments are sent, and PostgreSQL refuses the statement.\<close>
lemma builder_last_set_refused:
  "fst (executeBuilderUpdate (demo_writer (demo_ctx orders_columns None) (Some ''ver'') []) None ()
     [(''org'', Str ''X''), (''org'', Str ''Y'')] [Equals ''id'' (Num 1)] None None (orders_world new_scope)) = Inl (Refused 1)"
  by code_simp

text \<open>A builder's update does not count the version up.\<close>
lemma builder_keeps_version:
  "map (\<lambda>r. (row_cell r ''org'', row_cell r ''ver'')) (rows (snd (executeBuilderUpdate (demo_writer (demo_ctx orders_columns None) (Some ''ver'') []) None ()
     [(''org'', Str ''X'')] [Equals ''id'' (Num 1)] None None (orders_world new_scope))) ''t'') =
   [(Some (Str ''X''), Some (Num 3)), (Some (Str ''B''), Some (Num 7))]"
  by code_simp

text \<open>An explicit version under a property whose column has another name: the column is assigned twice.\<close>
lemma explicit_version_refused:
  "fst (updateMany_rows (demo_writer (demo_ctx orders_columns None) (Some ''ver'') []) None () [(''version'', Num 9)]
     \<lparr>where_of = Obj [(''id'', Num 1)], order_of = None, limit_of = None, with_deleted = False\<rparr> (orders_world new_scope)) = Inl (Refused 1)"
  by code_simp

subsection \<open>Concrete runs\<close>

definition two_keys :: "entity_column list" where
  "two_keys = [demo_column ''id'' None True, demo_column ''k'' None True, demo_column ''org'' (Some ''org'') False, demo_column ''gone'' None False]"

definition tenant_writer :: "(unit, unit, unit jsv) writer" where
  "tenant_writer = demo_writer (demo_ctx two_keys (Some (''org'', None))) None []"

definition demo_config :: tenant_config where
  "demo_config = \<lparr>config_name = ''tenant_id'', config_type = Type_Varchar, config_length = Some 64\<rparr>"

lemma demo_where_laws: "where_laws demo_database (\<lambda>n. n) (\<lambda>f. True)"
  by (auto simp: where_laws_def demo_database_def list_all_iff js_stored_def scalar_value_def missing_value_def)

lemma tenant_writer_simps:
  "scope_facts tenant_writer = demo_ctx two_keys (Some (''org'', None))" "database_of tenant_writer = demo_database"
  "quoted_name tenant_writer = (\<lambda>n. n)" "hierarchy_facts tenant_writer = (\<lambda>_. None)" "fk_relations tenant_writer e = []"
  by (simp_all add: tenant_writer_def demo_writer_def demo_ctx_def quoted_name_def [abs_def] hierarchy_facts_def fk_relations_def resolveForeignKeyRelations_def)

lemma demo_tenant_column: "resolveTenantColumnName (demo_ctx two_keys (Some (''org'', None))) demo_config () = ''org''"
  by code_simp

lemma demo_setting: "tenant_setting tenant_writer (in_tenant ''A'') () demo_config ''t'' (\<lambda>f. True)"
proof -
  have "store_laws demo_database None" by (auto simp: store_laws_def demo_database_def)
  moreover have "''org'' \<notin> managed_columns tenant_writer () two_keys"
    by (simp add: managed_columns_def tenant_writer_simps getDiscriminatorColumn_def getRoot_def) (simp add: tenant_writer_def demo_writer_def opt_list_def)
  moreover have "pk_columns two_keys = [demo_column ''id'' None True, demo_column ''k'' None True]" by code_simp
  moreover have "resolved_meta (demo_ctx two_keys (Some (''org'', None))) () = Some (''t'', two_keys)"
      "\<not> non_tenant (demo_ctx two_keys (Some (''org'', None))) ()" by (simp_all add: demo_ctx_def)
  moreover have "\<not> isUnscoped (in_tenant ''A'')" "getCurrentTenant (in_tenant ''A'') \<noteq> public_name" by code_simp+
  ultimately show ?thesis
    by (simp add: tenant_setting_def tenant_writer_simps demo_where_laws demo_tenant_column getStrategy_def)
qed

lemma demo_quiet: "quiet_for tenant_writer c col dt"
  by (simp add: quiet_for_def tenant_writer_def demo_writer_def spares_return)

lemma demo_plain_tenant: "tenant_column_plain tenant_writer (in_tenant ''A'') () demo_config"
proof -
  have "tenant_column_declared (demo_ctx two_keys (Some (''org'', None))) demo_config () two_keys"
    by (simp add: tenant_column_declared_def demo_tenant_column) (simp add: two_keys_def demo_column_def propKey_def tenant_prop_def demo_ctx_def)
  moreover have "resolved_meta (demo_ctx two_keys (Some (''org'', None))) () = Some (''t'', two_keys)" by (simp add: demo_ctx_def)
  ultimately show ?thesis
    by (simp add: tenant_column_plain_def tenant_writer_simps) (simp add: tenant_writer_def demo_writer_def)
qed

theorem writes_stay_in_tenant_witness:
  "filter (\<lambda>r. row_cell r ''org'' \<noteq> Some (Str ''A'')) (rows (snd (run_write tenant_writer (in_tenant ''A'') () Call_Clear (orders_world column_scope))) ''t'') =
    [order_row 2 ''B'' 7]"
proof -
  have dt: "value_on demo_database [] (Str (getCurrentTenant (in_tenant ''A''))) = Some (Str ''A'')" by code_simp
  have "columnConfig (scope_of (orders_world column_scope)) = Some demo_config" "refused_by demo_database (rows (orders_world column_scope)) = None"
    by code_simp+
  then have "foreign_rows ''org'' (Some (Str ''A'')) (rows (snd (run_write tenant_writer (in_tenant ''A'') () Call_Clear (orders_world column_scope)))) =
      foreign_rows ''org'' (Some (Str ''A'')) (rows (orders_world column_scope))"
    using writes_stay_in_tenant [OF demo_setting demo_quiet demo_plain_tenant, of Call_Clear "orders_world column_scope"]
    by (simp add: tenant_writer_simps demo_tenant_column dt)
  then have "foreign_rows ''org'' (Some (Str ''A'')) (rows (snd (run_write tenant_writer (in_tenant ''A'') () Call_Clear (orders_world column_scope)))) ''t'' =
      foreign_rows ''org'' (Some (Str ''A'')) (rows (orders_world column_scope)) ''t''" by simp
  moreover have "foreign_rows ''org'' (Some (Str ''A'')) (rows (orders_world column_scope)) ''t'' = [order_row 2 ''B'' 7]" by code_simp
  ultimately show ?thesis by (simp add: foreign_rows_def)
qed

theorem unconditional_write_refused_witness:
  "run_write tenant_writer None () (Call_Delete (Obj [(''OR'', Arr [])])) (orders_world new_scope) = (Inl (Orm DELETE_WITHOUT_CONDITIONS), orders_world new_scope)"
proof -
  have "resolved_meta (scope_facts tenant_writer) () = Some (''t'', two_keys)" by (simp add: tenant_writer_simps demo_ctx_def)
  moreover have "check_criteria tenant_writer () (Obj [(''OR'', Arr [])]) = None" by code_simp
  moreover have "resolveCriteriaWhere tenant_writer () (Obj [(''OR'', Arr [])]) = Inr []" by code_simp
  ultimately show ?thesis by (intro unconditional_write_refused [where criteria = "Obj [(''OR'', Arr [])]"]) simp_all
qed

text \<open>A class with a version, outside tenants.\<close>
definition versioned_writer :: "(unit, unit, unit jsv) writer" where
  "versioned_writer = demo_writer (demo_ctx orders_columns None) (Some ''ver'') []"

definition stale_item :: "(string \<times> unit jsv) list" where
  "stale_item = [(''id'', Num 1), (''org'', Str ''X''), (''version'', Num 2)]"

lemma demo_counts: "counted_up x \<noteq> x"
  by (induction x rule: counted_up.induct) auto

lemma demo_versioned: "versioned_save versioned_writer () ''t'' orders_columns stale_item ''ver'' (Num 2) ([(demo_column ''org'' (Some ''org'') False, Str ''X'')], [])"
proof -
  have "buildUpdateSetPlan versioned_writer () None orders_columns stale_item = Inr ([(demo_column ''org'' (Some ''org'') False, Str ''X'')], [])"
    "pk_columns orders_columns = [demo_column ''id'' None True]" "has_generated_key orders_columns"
    "find (\<lambda>x. db_name x = ''ver'') orders_columns = Some (demo_column ''ver'' (Some ''version'') False)"
    "item_get stale_item (propKey (demo_column ''ver'' (Some ''version'') False)) = Num 2"
    "truthy (item_get stale_item (propKey (demo_column ''id'' None True)))" "scalar_value (Num 2 :: unit jsv)"
    "value_on (database_of versioned_writer) [] (Num 2) \<noteq> None" "version_of versioned_writer () = Some ''ver''"
    "check_payload versioned_writer () stale_item = None" "getStrategy (hierarchy_facts versioned_writer) () = None"
    "''ver'' \<notin> fst ` set (plan_columns ([(demo_column ''org'' (Some ''org'') False, Str ''X'' :: unit jsv)], []))"
    "distinct (map fst (plan_columns ([(demo_column ''org'' (Some ''org'') False, Str ''X'' :: unit jsv)], [])))"
    by code_simp+
  moreover have "resolved_meta (scope_facts versioned_writer) () = Some (''t'', orders_columns)" "silent_listeners versioned_writer"
    "\<forall>x. next_value (database_of versioned_writer) x \<noteq> x"
    by (simp_all add: versioned_writer_def demo_writer_def demo_ctx_def silent_listeners_def demo_database_def demo_counts)
  ultimately show ?thesis unfolding versioned_save_def by blast
qed

theorem optimistic_lock_witness:
  "save versioned_writer None () stale_item (orders_world new_scope) = (Inl (Orm OPTIMISTIC_LOCK_FAILED), orders_world new_scope)"
proof -
  have laws: "where_laws (database_of versioned_writer) (quoted_name versioned_writer) (\<lambda>f. True)"
    using demo_where_laws by (simp add: versioned_writer_def demo_writer_def quoted_name_def [abs_def] demo_ctx_def)
  have none: "columnConfig (scope_of (orders_world new_scope)) = None" "refused_by (database_of versioned_writer) (rows (orders_world new_scope)) = None"
    by code_simp+
  have stale: "\<not> (\<exists>r\<in>set (rows (orders_world new_scope) (table_text versioned_writer None (orders_world new_scope) ''t'')).
      picks (database_of versioned_writer) (rows (orders_world new_scope)) (buildPkWhere_conds versioned_writer orders_columns stale_item) r \<and>
      row_cell r ''ver'' = value_on (database_of versioned_writer) [] (Num 2))" by code_simp
  show ?thesis
    using optimistic_lock [OF demo_versioned none(1) laws none(2) refl refl refl, of None] stale by (simp only: if_False)
qed

theorem restore_undoes_softDelete_witness:
  "restore versioned_writer None () (Obj [(''id'', Num 2)]) (snd (softDelete versioned_writer None () (Obj [(''id'', Num 2)]) (orders_world new_scope))) =
    (Inr 1, orders_world new_scope)"
proof -
  let ?w = "orders_world new_scope" and ?cr = "Obj [(''id'', Num 2)] :: unit jsv"
  have laws: "where_laws (database_of versioned_writer) (quoted_name versioned_writer) (\<lambda>f. True)"
    using demo_where_laws by (simp add: versioned_writer_def demo_writer_def quoted_name_def [abs_def] demo_ctx_def)
  have cs: "resolveCriteriaWhere versioned_writer () ?cr = Inr [Equals ''id'' (Num 2)]" by code_simp
  have sti: "stiDiscriminatorClause versioned_writer () = None" by code_simp
  have scope: "buildTenantWhereClause (scope_facts versioned_writer) None () None Auto_Table (scope_of ?w) = (Inr None, scope_of ?w)"
    by (simp add: buildTenantWhereClause_def orders_world_def new_scope_def)
  have plain: "plain_trash versioned_writer None () ''t'' ''gone'' ?cr [Equals ''id'' (Num 2)] None (scope_of ?w)"
  proof -
    have "resolved_meta (scope_facts versioned_writer) () = Some (''t'', orders_columns)" "deleted_at_of versioned_writer () = Some ''gone''"
      "check_criteria versioned_writer () ?cr = None" "silent_listeners versioned_writer" "\<not> isJoinedChild versioned_writer ()" "tpc_tables versioned_writer () = None"
      by (simp_all add: versioned_writer_def demo_writer_def demo_ctx_def silent_listeners_def hierarchy_facts_def getStrategy_def isJoinedChild_def)
    then show ?thesis using cs scope by (simp add: plain_trash_def)
  qed
  have target: "live_target versioned_writer () ''gone'' ([Equals ''id'' (Num 2)] @ opt_list None @ opt_list (stiDiscriminatorClause versioned_writer ()))
      (\<lambda>f. True) (rows ?w) (table_text versioned_writer None ?w ''t'')"
  proof -
    have "table_text versioned_writer None ?w ''t'' = ''t''" by code_simp
    moreover have "\<forall>r\<in>set (rows ?w ''t''). map_of r ''gone'' = Some None" by code_simp
    moreover have "picks (database_of versioned_writer) T' [Equals ''id'' (Num 2)] (jm_set ''gone'' x r) =
        picks (database_of versioned_writer) T'' [Equals ''id'' (Num 2)] r" for T' T'' r x
      by (simp add: versioned_writer_def demo_writer_def demo_database_def cell_set)
    ultimately show ?thesis by (simp add: live_target_def sti opt_list_def)
  qed
  have none: "clock_value (database_of versioned_writer) \<noteq> None" "refused_by (database_of versioned_writer) (rows ?w) = None" by code_simp+
  have run: "fst (softDelete versioned_writer None () ?cr ?w) = Inr 1" by code_simp
  then have "softDelete versioned_writer None () ?cr ?w = (Inr 1, snd (softDelete versioned_writer None () ?cr ?w))" by (metis prod.collapse)
  then show ?thesis using restore_undoes_softDelete [OF plain target laws none] by simp
qed

end
