(* ===== verification/Spec2Isabelle.thy ===== *)
theory Spec2Isabelle
  imports Prelude DependencyGraph TextUtils TxSession DataSource TxRunner TrackedRuns MigrationRunner SeederRunner QueryTracker SqliteGate Replication QueryCache Conditions WhereResolver Keyset CursorCodec SchemaDiff UnitValues IdentityMap WriteBuffer Cascade BufferFlush MetadataClone MetadataLayers EntityModel TenantScope EntityWrites EntityGuards
begin

text \<open>
  The stingerloom ORM (TypeScript, \<^verbatim>\<open>src/\<close> of the repository) maps decorated classes to tables of MySQL,
  PostgreSQL or SQLite. This development models the parts whose correctness does not depend on a
  particular schema: transactions and connections, migrations and seeders, the query log and the result cache,
  read replicas, the text of conditions, keyset pages, the comparison of schemas, the write buffer, metadata,
  tenants, and the writes of rows.

  How the parts interact. An \<^verbatim>\<open>EntityManager\<close> runs every unit of work through \<^verbatim>\<open>TransactionRunner\<close>, which opens a
  \<^verbatim>\<open>TransactionSessionManager\<close>; the session asks its connector for a connection (the replication router picks
  the node of a read) and speaks to it through a data source of the dialect. On SQLite the gate gives the one
  connection to one transaction at a time. Statements are built from conditions, which
  \<^verbatim>\<open>WhereResolver\<close> makes of a \<^verbatim>\<open>where\<close> object; paged reads add the keyset predicate; the tracker logs every
  statement and the cache keeps results until a write to one of their tables. Migrations and seeders use a query
  runner and an advisory lock; \<^verbatim>\<open>SchemaDiff\<close> proposes the statements that \<^verbatim>\<open>synchronize\<close> runs.

  Conventions (\<^verbatim>\<open>Prelude\<close>). A stateful method is a state transformer \<open>'w \<Rightarrow> ('e + 'a) \<times> 'w\<close> (\<open>io\<close>): \<open>Inl\<close> is
  a thrown value, and the state after a throw is the state the code leaves behind. \<open>io_catch\<close> and
  \<open>io_finally\<close> are the JavaScript statements. A \<^verbatim>\<open>Map\<close> is an association list in insertion order, a \<^verbatim>\<open>Set\<close> a list
  without repetitions. \<^verbatim>\<open>undefined\<close> and \<^verbatim>\<open>null\<close> are \<open>None\<close> where the code treats them alike. An \<^verbatim>\<open>await\<close> is a point
  where others may run only in the theories with a step relation (\<open>SqliteGate\<close>, \<open>QueryCache\<close>, \<open>TxRunner\<close>), whose
  steps are the code between two awaits.

  Theories, in the order of their imports:

  \<^item> \<^verbatim>\<open>DependencyGraph\<close> (\<^verbatim>\<open>core/plugin/buffer/DependencyGraph.ts\<close>): the edges among buffered entities, the
    topological sort and the order of inserts and deletes. Parents come first, a cycle falls back to the order given.
  \<^item> \<^verbatim>\<open>TextUtils\<close> (\<^verbatim>\<open>core/expressions/likeEscape.ts\<close>, \<^verbatim>\<open>utils/\<close>, \<^verbatim>\<open>core/generators/columnRenameMatch.ts\<close>): escaping of
    literals, patterns and identifiers against a reading of the dialect's lexer; edit distance against its
    recursive definition; validators of savepoint names and isolation levels.
  \<^item> \<^verbatim>\<open>TxSession\<close> (\<^verbatim>\<open>dialects/TransactionSessionManager.ts\<close>, \<^verbatim>\<open>core/entity-manager/rollback-restore.ts\<close>): the session's
    record with its undo log and savepoint marks; rollback and rollback to a savepoint restore the entities in
    memory, and the whole refines a stack of snapshots.
  \<^item> \<^verbatim>\<open>DataSource\<close> (\<^verbatim>\<open>dialects/mysql\<close>, \<^verbatim>\<open>dialects/postgres\<close>): acquiring, validating and releasing pooled connections,
    transaction control, the tenant's \<^verbatim>\<open>search_path\<close>. The locale of a data source is interpreted on both.
  \<^item> \<^verbatim>\<open>TxRunner\<close> (\<^verbatim>\<open>core/entity-manager/TransactionRunner.ts\<close>, \<^verbatim>\<open>decorators/Transactional.ts\<close>): one transaction from hooks to
    release, ambient sessions, nesting by savepoints, deadlock retries, the query timeout.
  \<^item> \<^verbatim>\<open>TrackedRuns\<close>, \<^verbatim>\<open>MigrationRunner\<close>, \<^verbatim>\<open>SeederRunner\<close> (\<^verbatim>\<open>migration/\<close>, \<^verbatim>\<open>seeding/\<close>): a locale for what the two runners
    share (an item, its record in the tracking table, a lock), interpreted on each; order, exactly-once, the lock
    released on every path, rollback undoing a run.
  \<^item> \<^verbatim>\<open>QueryTracker\<close> (\<^verbatim>\<open>core/QueryTracker.ts\<close>): the ring buffer refines a bounded log; detection of repeated
    statements; waiting for a number of queries.
  \<^item> \<^verbatim>\<open>SqliteGate\<close> (\<^verbatim>\<open>dialects/sqlite/SqliteTransactionGate.ts\<close>): a step relation of calls, resumptions and timeouts;
    statements of other flows never run inside a transaction and every waiter is served.
  \<^item> \<^verbatim>\<open>Replication\<close> (\<^verbatim>\<open>dialects/ReplicationRouter.ts\<close>, \<^verbatim>\<open>core/ReplicationManager.ts\<close>): round robin over healthy slaves,
    failure and recovery thresholds, closing of the pools opened so far when a connection fails.
  \<^item> \<^verbatim>\<open>QueryCache\<close> (\<^verbatim>\<open>core/cache/QueryResultCache.ts\<close>): the LRU store with expiry and tag index, and the cache over any
    store (a locale interpreted on the built-in one); a hit is never older than the last invalidation of its tags.
  \<^item> \<^verbatim>\<open>Conditions\<close>, \<^verbatim>\<open>WhereResolver\<close> (\<^verbatim>\<open>core/Conditions.ts\<close>, \<^verbatim>\<open>core/WhereResolver.ts\<close>): conditions, their SQL text and their
    three-valued meaning; the \<^verbatim>\<open>where\<close> object selects the rows its documentation says and its values never
    become text.
  \<^item> \<^verbatim>\<open>Keyset\<close>, \<^verbatim>\<open>CursorCodec\<close> (\<^verbatim>\<open>core/entity-manager/CursorKeyset.ts\<close>, \<^verbatim>\<open>core/CursorPagination.ts\<close>,
    \<^verbatim>\<open>core/plugin/raw-pipeline/RawPipeline.ts\<close>): predicate, order and cursor of a page; walking the pages visits every row
    once, in order, with NULLs where the dialect puts them; decoding a cursor inverts encoding.
  \<^item> \<^verbatim>\<open>SchemaDiff\<close> (\<^verbatim>\<open>core/generators/SchemaDiff.ts\<close>): the comparison of declared and existing columns and the pairing of
    dropped with added columns as renames.
  \<^item> \<^verbatim>\<open>UnitValues\<close> (\<^verbatim>\<open>core/plugin/buffer/BufferStrategy.ts\<close>, \<^verbatim>\<open>CollectionTracker.ts\<close>): values of columns, deep equality, snapshots
    and their differences; \<^verbatim>\<open>IdentityMap\<close> (\<^verbatim>\<open>IdentityMapManager.ts\<close>): the state of a write buffer, identity keys, the bound
    of the identity map; \<^verbatim>\<open>WriteBuffer\<close> (\<^verbatim>\<open>WriteBuffer.ts\<close>): the calls that track, queue, detach, merge and look up, with
    the invariant that a row has one instance, over any sequence of calls and edits.
  \<^item> \<^verbatim>\<open>Cascade\<close> (\<^verbatim>\<open>CascadeProcessor.ts\<close> of the buffer): which entities a flush saves, removes or detaches besides those it was
    given; \<^verbatim>\<open>BufferFlush\<close> (\<^verbatim>\<open>WriteBuffer.ts\<close>, \<^verbatim>\<open>FlushExecutor.ts\<close>): the flush, its pass over the queue, the copies it takes and puts back
    when the transaction fails.
  \<^item> \<^verbatim>\<open>MetadataClone\<close>, \<^verbatim>\<open>MetadataLayers\<close> (\<^verbatim>\<open>metadata/MetadataLayer.ts\<close>, \<^verbatim>\<open>MetadataContext.ts\<close>, \<^verbatim>\<open>scanner/MetadataScanner.ts\<close>): deep copies over a heap with sharing and cycles;
    the layers of metadata per tenant, their snapshots and the caches of merged views.
  \<^item> \<^verbatim>\<open>EntityModel\<close> (\<^verbatim>\<open>core/InheritanceResolver.ts\<close> and the maps of properties to columns): what the writes know of
    a class. \<^verbatim>\<open>TenantScope\<close> (\<^verbatim>\<open>core/TenantQueryStrategy.ts\<close>, \<^verbatim>\<open>entity-manager/TenantScopeManager.ts\<close>): the tenant predicate, the stamp of an
    INSERT, the checks of payloads and SET lists.
  \<^item> \<^verbatim>\<open>EntityWrites\<close> (\<^verbatim>\<open>core/entity-manager/WriteExecutor.ts\<close>, \<^verbatim>\<open>DmlSqlBuilder.ts\<close>, \<^verbatim>\<open>CompositeKey.ts\<close>): save, delete, deleteMany, clear, update,
    increment, a builder's update, softDelete and restore over a database of tables, whose evaluation of conditions,
    values and constraints is an argument. \<^verbatim>\<open>EntityGuards\<close>: a rule for programs that leave the rows of other tenants
    alone, closed under the combinators and proved of every call; the optimistic lock; refusal of writes without a
    condition; restore undoes softDelete.

  Bounds and fuel. \<open>transaction_retries_deadlocks\<close> recurses on the attempts left, as the code's loop does.
  \<open>keysetBatches\<close> and \<open>cursor_walk\<close> take a fuel of pages; one more than the number of rows is enough, because
  every page but the last holds at least one new row, and the theorems are stated at that fuel.
  \<open>waitForQueries\<close> takes the number of polls until its timeout. The sort of \<^verbatim>\<open>DependencyGraph\<close> recurses on the queue
  and terminates because every class enters it once. Integers are those of JavaScript below \<open>2 ^ 53\<close>, as \<open>int\<close> or
  \<open>nat\<close>; no code modelled here relies on their overflow.

  Parameters. The database, the drivers' packages, JSON, Base64, \<^verbatim>\<open>toLowerCase\<close> outside ASCII, timers and the clock are
  arguments of the definitions that use them. The theorems name what they rely on (a query with
  \<^verbatim>\<open>ORDER BY\<close> returns the rows in that order, a lock is granted to one owner), and every such theorem has a witness at a
  concrete instance.

  Not modelled. The statements of \<^verbatim>\<open>WriteExecutor\<close> for JOINED hierarchies, multi-row inserts and upserts;
  \<^verbatim>\<open>SelectQueryBuilder\<close> and most of \<^verbatim>\<open>ReadExecutor\<close>, which assemble statements with few invariants of their own beyond the conditions
  and keysets modelled here; relation loading, result transformers and decorators are about
  JavaScript prototypes and property descriptors; the command line, NestJS modules, introspection and the
  Prisma import are input and output. The manifest lists each with its reason.
\<close>

end
